(* ===== verification/Rust_Prelude.thy ===== *)
theory Rust_Prelude
  imports Main "HOL-Library.Word"
begin

text \<open>
  The shared vocabulary of the development: how a Rust value is represented, and the
  functions of Rust's standard library that the modelled code calls.

  A Rust \<open>&str\<close> or \<open>String\<close> is the list of its Unicode scalar values, each an
  \<^typ>\<open>int\<close> (\<open>uchar\<close>), so that \<open>chars()\<close>, \<open>trim\<close> and the Unicode comparisons of
  the code are list functions; \<open>lit\<close> turns an ASCII literal of the source into that
  form. A byte index into a string is only ever used by the code to cut the string
  at a character boundary, so an index here counts characters. \<open>Result<T, E>\<close> is
  \<open>'e + 't\<close> with \<open>Inl\<close> for \<open>Err\<close>; \<open>Vec<T>\<close> is a list and \<open>usize\<close> is \<^typ>\<open>nat\<close>
  where it counts elements held in memory. A subtraction or a slice that Rust checks at
  run time is written with its check, the panic being a value of the model.
\<close>

section \<open>Types\<close>

type_synonym uchar = int
type_synonym rstr = "uchar list"

definition lit :: "string \<Rightarrow> rstr" where
  "lit s = map of_char s"

abbreviation nl :: uchar where "nl \<equiv> 10"
abbreviation cr :: uchar where "cr \<equiv> 13"

named_theorems str_simps \<open>equations of the string functions\<close>
named_theorems eval_defs \<open>definitions a witness unfolds to evaluate\<close>

lemma lit_Nil [simp]: "lit '''' = []"
  by (simp add: lit_def)

lemma lit_Cons: "lit (c # s) = of_char c # lit s"
  by (simp add: lit_def)

lemma lit_append: "lit (s @ t) = lit s @ lit t"
  by (simp add: lit_def)

section \<open>Results\<close>

definition is_ok :: "'e + 'a \<Rightarrow> bool" where
  "is_ok r = (case r of Inl _ \<Rightarrow> False | Inr _ \<Rightarrow> True)"

definition bind_result :: "'e + 'a \<Rightarrow> ('a \<Rightarrow> 'e + 'b) \<Rightarrow> 'e + 'b" where
  "bind_result r f = (case r of Inl e \<Rightarrow> Inl e | Inr x \<Rightarrow> f x)"

lemma is_ok_simps [simp]: "is_ok (Inr x)" "\<not> is_ok (Inl e)"
  by (simp_all add: is_ok_def)

lemma bind_result_simps [simp]:
  "bind_result (Inl e) f = Inl e"
  "bind_result (Inr x) f = f x"
  by (simp_all add: bind_result_def)

lemma bind_result_Inr:
  "bind_result r f = Inr y \<longleftrightarrow> (\<exists>x. r = Inr x \<and> f x = Inr y)"
  by (cases r) auto

text \<open>\<open>map(f).collect::<Result<Vec<_>, _>>()\<close>.\<close>

fun collect_results :: "('x \<Rightarrow> 'e + 'y) \<Rightarrow> 'x list \<Rightarrow> 'e + 'y list" where
  "collect_results f [] = Inr []"
| "collect_results f (x # xs) =
     bind_result (f x) (\<lambda>y. bind_result (collect_results f xs) (\<lambda>ys. Inr (y # ys)))"

lemma collect_results_Inr: "collect_results f xs = Inr ys \<longleftrightarrow> list_all2 (\<lambda>x y. f x = Inr y) xs ys"
  by (induction xs arbitrary: ys) (auto simp: bind_result_Inr list_all2_Cons1)

section \<open>White space and trimming\<close>

text \<open>\<open>char::is_whitespace\<close>: the Unicode property White\_Space.\<close>

definition is_whitespace :: "uchar \<Rightarrow> bool" where
  "is_whitespace c \<longleftrightarrow>
     (9 \<le> c \<and> c \<le> 13) \<or> c = 32 \<or> c = 133 \<or> c = 160 \<or> c = 5760
     \<or> (8192 \<le> c \<and> c \<le> 8202) \<or> c = 8232 \<or> c = 8233 \<or> c = 8239 \<or> c = 8287 \<or> c = 12288"

definition trim_start :: "rstr \<Rightarrow> rstr" where
  "trim_start s = dropWhile is_whitespace s"

definition trim_end_matches :: "(uchar \<Rightarrow> bool) \<Rightarrow> rstr \<Rightarrow> rstr" where
  "trim_end_matches P s = rev (dropWhile P (rev s))"

definition trim_end :: "rstr \<Rightarrow> rstr" where
  "trim_end s = trim_end_matches is_whitespace s"

definition trim :: "rstr \<Rightarrow> rstr" where
  "trim s = trim_end (trim_start s)"

lemma trim_end_matches_Nil [simp]: "trim_end_matches P [] = []"
  by (simp add: trim_end_matches_def)

lemma trim_end_matches_snoc:
  "trim_end_matches P (s @ [c]) = (if P c then trim_end_matches P s else s @ [c])"
  by (simp add: trim_end_matches_def)

lemma trim_end_matches_idem [simp]:
  "trim_end_matches P (trim_end_matches P s) = trim_end_matches P s"
  by (induction s rule: rev_induct) (auto simp: trim_end_matches_snoc)

lemma trim_end_matches_ident:
  "s = [] \<or> \<not> P (last s) \<Longrightarrow> trim_end_matches P s = s"
  by (cases s rule: rev_cases) (auto simp: trim_end_matches_snoc)

lemma trim_end_matches_prefix: "\<exists>w. s = trim_end_matches P s @ w \<and> (\<forall>c \<in> set w. P c)"
proof (induction s rule: rev_induct)
  case Nil
  show ?case by simp
next
  case (snoc c s)
  then obtain w where "s = trim_end_matches P s @ w" and "\<forall>c \<in> set w. P c" by blast
  then show ?case
    by (cases "P c") (auto simp: trim_end_matches_snoc intro!: exI [of _ "w @ [c]"])
qed

lemma trim_end_matches_last:
  "trim_end_matches P s \<noteq> [] \<Longrightarrow> \<not> P (last (trim_end_matches P s))"
  by (induction s rule: rev_induct) (auto simp: trim_end_matches_snoc split: if_splits)

lemma set_trim_end_matches: "set (trim_end_matches P s) \<subseteq> set s"
  by (metis set_append Un_upper1 trim_end_matches_prefix)

lemma trim_Nil [simp]: "trim [] = []" "trim_end [] = []" "trim_start [] = []"
  by (simp_all add: trim_def trim_end_def trim_start_def)

lemma trim_end_idem [simp]: "trim_end (trim_end s) = trim_end s"
  by (simp add: trim_end_def)

lemma trim_end_trim [simp]: "trim_end (trim s) = trim s"
  by (simp add: trim_def)

lemma set_trim: "set (trim s) \<subseteq> set s"
  unfolding trim_def trim_end_def trim_start_def
  using set_trim_end_matches set_dropWhileD by fastforce

lemma trim_end_matches_append:
  "\<forall>c \<in> set w. P c \<Longrightarrow> trim_end_matches P (s @ w) = trim_end_matches P s"
  unfolding trim_end_matches_def rev_append
  by (subst dropWhile_append2) auto

text \<open>The two ends can be trimmed in either order.\<close>

lemma dropWhile_append_nonempty:
  "dropWhile P xs \<noteq> [] \<Longrightarrow> dropWhile P (xs @ ys) = dropWhile P xs @ ys"
  by (induction xs) auto

lemma trim_commute: "trim s = trim_start (trim_end s)"
proof -
  obtain w where w: "s = trim_end s @ w" "\<forall>c \<in> set w. is_whitespace c"
    using trim_end_matches_prefix [of s is_whitespace] unfolding trim_end_def by blast
  show ?thesis
  proof (cases "trim_start (trim_end s) = []")
    case True
    then have "\<forall>c \<in> set (trim_end s). is_whitespace c"
      by (simp add: trim_start_def)
    with w have "\<forall>c \<in> set s. is_whitespace c" by (metis UnE set_append)
    then have "trim_start s = []" by (simp add: trim_start_def)
    with True show ?thesis by (simp add: trim_def)
  next
    case False
    then have split: "trim_start s = trim_start (trim_end s) @ w"
      using w(1) dropWhile_append_nonempty unfolding trim_start_def by metis
    have "last (trim_start (trim_end s)) = last (trim_end s)"
      using False unfolding trim_start_def by (metis last_appendR takeWhile_dropWhile_id)
    moreover have "trim_end s \<noteq> []" using False by auto
    ultimately have "\<not> is_whitespace (last (trim_start (trim_end s)))"
      using trim_end_matches_last unfolding trim_end_def by metis
    then have "trim_end (trim_start (trim_end s)) = trim_start (trim_end s)"
      unfolding trim_end_def by (intro trim_end_matches_ident) simp
    moreover have "trim_end (trim_start (trim_end s) @ w) = trim_end (trim_start (trim_end s))"
      using w(2) unfolding trim_end_def by (simp add: trim_end_matches_append)
    ultimately show ?thesis by (simp add: trim_def split)
  qed
qed

lemma trim_trim_end [simp]: "trim (trim_end s) = trim s"
  by (simp add: trim_commute)

lemma trim_trim [simp]: "trim (trim s) = trim s"
proof -
  have "trim (trim s) = trim_start (trim s)" by (simp add: trim_commute [of "trim s"])
  also have "\<dots> = trim_start (trim_start (trim_end s))" by (simp add: trim_commute [of s])
  also have "\<dots> = trim s" by (simp add: trim_start_def trim_commute [of s])
  finally show ?thesis .
qed

lemma trim_end_congD: "trim_end s = trim_end t \<Longrightarrow> trim s = trim t"
  by (simp add: trim_commute)

lemma trim_ident:
  "s \<noteq> [] \<Longrightarrow> \<not> is_whitespace (hd s) \<Longrightarrow> \<not> is_whitespace (last s) \<Longrightarrow> trim s = s"
  by (cases s) (auto simp: trim_def trim_start_def trim_end_def intro: trim_end_matches_ident)

lemma trim_end_ident: "s = [] \<or> \<not> is_whitespace (last s) \<Longrightarrow> trim_end s = s"
  by (simp add: trim_end_def trim_end_matches_ident)

lemma trim_end_Cons:
  "trim_end (c # s) = (if trim_end s = [] \<and> is_whitespace c then [] else c # trim_end s)"
proof (cases "dropWhile is_whitespace (rev s) = []")
  case True
  then have "\<forall>x \<in> set s. is_whitespace x" by simp
  then have "dropWhile is_whitespace (rev s @ [c]) = dropWhile is_whitespace [c]"
    by (intro dropWhile_append2) simp
  with True show ?thesis by (simp add: trim_end_def trim_end_matches_def)
next
  case False
  then have "dropWhile is_whitespace (rev s @ [c]) = dropWhile is_whitespace (rev s) @ [c]"
    by (rule dropWhile_append_nonempty)
  moreover have "trim_end s \<noteq> []" using False by (simp add: trim_end_def trim_end_matches_def)
  ultimately show ?thesis by (simp add: trim_end_def trim_end_matches_def)
qed

section \<open>Prefixes and suffixes\<close>

fun strip_prefix :: "rstr \<Rightarrow> rstr \<Rightarrow> rstr option" where
  "strip_prefix [] s = Some s"
| "strip_prefix (p # ps) [] = None"
| "strip_prefix (p # ps) (c # cs) = (if p = c then strip_prefix ps cs else None)"

definition strip_suffix :: "rstr \<Rightarrow> rstr \<Rightarrow> rstr option" where
  "strip_suffix p s = map_option rev (strip_prefix (rev p) (rev s))"

definition starts_with :: "rstr \<Rightarrow> rstr \<Rightarrow> bool" where
  "starts_with p s \<longleftrightarrow> strip_prefix p s \<noteq> None"

definition ends_with :: "rstr \<Rightarrow> rstr \<Rightarrow> bool" where
  "ends_with p s \<longleftrightarrow> strip_suffix p s \<noteq> None"

lemma strip_prefix_Some: "strip_prefix p s = Some r \<longleftrightarrow> s = p @ r"
  by (induction p s rule: strip_prefix.induct) auto

lemma strip_prefix_append [simp]: "strip_prefix p (p @ r) = Some r"
  by (simp add: strip_prefix_Some)

lemma strip_prefix_self [simp]: "strip_prefix p p = Some []"
  by (simp add: strip_prefix_Some)

lemma strip_prefix_None: "strip_prefix p s = None \<longleftrightarrow> (\<forall>r. s \<noteq> p @ r)"
  by (metis not_Some_eq strip_prefix_Some)

lemma strip_suffix_Some: "strip_suffix p s = Some r \<longleftrightarrow> s = r @ p"
  unfolding strip_suffix_def
  by (auto simp: strip_prefix_Some) (metis rev_append rev_rev_ident)+

lemma starts_with_iff: "starts_with p s \<longleftrightarrow> (\<exists>r. s = p @ r)"
  by (simp add: starts_with_def strip_prefix_Some)

lemma ends_with_iff: "ends_with p s \<longleftrightarrow> (\<exists>r. s = r @ p)"
  by (simp add: ends_with_def strip_suffix_Some)

section \<open>Splitting and joining\<close>

text \<open>\<open>str::split(c)\<close>: the pieces between the separators, one more than there are separators.\<close>

fun split_char :: "uchar \<Rightarrow> rstr \<Rightarrow> rstr list" where
  "split_char d [] = [[]]"
| "split_char d (c # cs) =
     (if c = d then [] # split_char d cs
      else (case split_char d cs of [] \<Rightarrow> [[c]] | p # ps \<Rightarrow> (c # p) # ps))"

text \<open>\<open>str::split_inclusive('\n')\<close>: the separator stays with the piece it ends, and there
  is no empty last piece.\<close>

fun split_inclusive :: "uchar \<Rightarrow> rstr \<Rightarrow> rstr list" where
  "split_inclusive d [] = []"
| "split_inclusive d (c # cs) =
     (if c = d then [c] # split_inclusive d cs
      else (case split_inclusive d cs of [] \<Rightarrow> [[c]] | p # ps \<Rightarrow> (c # p) # ps))"

text \<open>\<open>str::lines\<close>: a line ends with \<open>\n\<close> or \<open>\r\n\<close>, which is removed.\<close>

definition strip_line_end :: "rstr \<Rightarrow> rstr" where
  "strip_line_end l =
     (case strip_suffix [nl] l of None \<Rightarrow> l
      | Some l' \<Rightarrow> (case strip_suffix [cr] l' of None \<Rightarrow> l' | Some l'' \<Rightarrow> l''))"

definition str_lines :: "rstr \<Rightarrow> rstr list" where
  "str_lines s = map strip_line_end (split_inclusive nl s)"

fun join :: "rstr \<Rightarrow> rstr list \<Rightarrow> rstr" where
  "join sep [] = []"
| "join sep [x] = x"
| "join sep (x # y # ys) = x @ sep @ join sep (y # ys)"

lemma split_char_not_Nil [simp]: "split_char d s \<noteq> []"
  by (cases s) (auto split: list.split)

lemma split_char_append:
  "split_char d (s @ d # t) = split_char d s @ split_char d t"
proof (induction s)
  case Nil
  show ?case by simp
next
  case (Cons c s)
  then show ?case by (cases "split_char d s") auto
qed

lemma split_char_no_sep: "d \<notin> set s \<Longrightarrow> split_char d s = [s]"
  by (induction s) auto

lemma split_char_pieces: "p \<in> set (split_char d s) \<Longrightarrow> d \<notin> set p"
  by (induction s arbitrary: p) (auto split: list.splits if_splits)

lemma join_Cons: "join sep (x # xs) = (if xs = [] then x else x @ sep @ join sep xs)"
  by (cases xs) simp_all

lemma join_append:
  "xs \<noteq> [] \<Longrightarrow> ys \<noteq> [] \<Longrightarrow> join sep (xs @ ys) = join sep xs @ sep @ join sep ys"
  by (induction xs) (auto simp: join_Cons)

lemma join_split_char: "join [d] (split_char d s) = s"
  by (induction s) (auto simp: join_Cons split: list.splits)

lemma split_char_join:
  "xs \<noteq> [] \<Longrightarrow> \<forall>x \<in> set xs. d \<notin> set x \<Longrightarrow> split_char d (join [d] xs) = xs"
proof (induction xs)
  case Nil
  then show ?case by simp
next
  case (Cons x xs)
  then show ?case
    using split_char_append [of d x "join [d] xs"]
    by (auto simp: join_Cons split_char_no_sep)
qed

lemma concat_split_inclusive: "concat (split_inclusive d s) = s"
  by (induction s) (auto split: list.splits)

lemma split_inclusive_append_sep:
  "split_inclusive d (s @ d # t) = split_inclusive d (s @ [d]) @ split_inclusive d t"
proof (induction s)
  case Nil
  show ?case by simp
next
  case (Cons c s)
  moreover have "split_inclusive d (s @ [d]) \<noteq> []"
    by (cases s) (auto split: list.splits)
  ultimately show ?case by (cases "split_inclusive d (s @ [d])") auto
qed

lemma split_inclusive_line: "d \<notin> set l \<Longrightarrow> split_inclusive d (l @ [d]) = [l @ [d]]"
  by (induction l) auto

lemma split_inclusive_no_sep: "d \<notin> set l \<Longrightarrow> split_inclusive d l = (if l = [] then [] else [l])"
  by (induction l) auto

lemma strip_line_end_line:
  "l = [] \<or> last l \<noteq> cr \<Longrightarrow> strip_line_end (l @ [nl]) = l"
  by (cases l rule: rev_cases) (auto simp: strip_line_end_def strip_suffix_def)

lemma strip_line_end_ident: "nl \<notin> set l \<Longrightarrow> strip_line_end l = l"
  by (cases l rule: rev_cases) (auto simp: strip_line_end_def strip_suffix_def)

lemma str_lines_Cons:
  assumes "nl \<notin> set l" "l = [] \<or> last l \<noteq> cr"
  shows "str_lines (l @ nl # s) = l # str_lines s"
  using assms split_inclusive_append_sep [of nl l s]
  by (simp add: str_lines_def split_inclusive_line strip_line_end_line)

lemma str_lines_single: "nl \<notin> set l \<Longrightarrow> l \<noteq> [] \<Longrightarrow> str_lines l = [l]"
  by (simp add: str_lines_def split_inclusive_no_sep strip_line_end_ident)

lemma str_lines_join:
  "\<forall>l \<in> set ls. nl \<notin> set l \<and> (l = [] \<or> last l \<noteq> cr) \<Longrightarrow> nl \<notin> set k \<Longrightarrow> k \<noteq> []
   \<Longrightarrow> str_lines (join [nl] (ls @ [k])) = ls @ [k]"
  by (induction ls) (simp_all add: str_lines_single join_Cons str_lines_Cons)

section \<open>Searching\<close>

text \<open>\<open>str::find(needle)\<close>, \<open>contains\<close>, \<open>split_once\<close> and \<open>rsplit_once\<close>.\<close>

fun str_find :: "rstr \<Rightarrow> rstr \<Rightarrow> nat option" where
  "str_find p [] = (if p = [] then Some 0 else None)"
| "str_find p (c # cs) =
     (if starts_with p (c # cs) then Some 0 else map_option Suc (str_find p cs))"

definition contains :: "rstr \<Rightarrow> rstr \<Rightarrow> bool" where
  "contains p s \<longleftrightarrow> str_find p s \<noteq> None"

definition split_once :: "rstr \<Rightarrow> rstr \<Rightarrow> (rstr \<times> rstr) option" where
  "split_once p s =
     (case str_find p s of None \<Rightarrow> None | Some i \<Rightarrow> Some (take i s, drop (i + length p) s))"

definition rsplit_once :: "uchar \<Rightarrow> rstr \<Rightarrow> (rstr \<times> rstr) option" where
  "rsplit_once d s =
     map_option (\<lambda>(a, b). (rev b, rev a)) (split_once [d] (rev s))"

lemma starts_with_Nil [simp]: "starts_with [] s"
  by (simp add: starts_with_def)

lemma str_find_Some:
  "str_find p s = Some i \<Longrightarrow> i + length p \<le> length s \<and> take (length p) (drop i s) = p"
proof (induction p s arbitrary: i rule: str_find.induct)
  case (1 p)
  then show ?case by (auto split: if_splits)
next
  case (2 p c cs)
  show ?case
  proof (cases "starts_with p (c # cs)")
    case True
    with 2 obtain r where r: "c # cs = p @ r" and "i = 0" by (auto simp: starts_with_iff)
    moreover from r have "length p \<le> length (c # cs)" by (metis le_add1 length_append)
    ultimately show ?thesis by (metis add_0 append_eq_conv_conj drop0)
  next
    case False
    with 2 show ?thesis by auto
  qed
qed

lemma str_find_least:
  "str_find p s = Some i \<Longrightarrow> j < i \<Longrightarrow> \<not> starts_with p (drop j s)"
proof (induction p s arbitrary: i j rule: str_find.induct)
  case (1 p)
  then show ?case by (auto split: if_splits)
next
  case (2 p c cs)
  then show ?case by (cases j) (auto split: if_splits)
qed

lemma str_find_None: "str_find p s = None \<longleftrightarrow> (\<forall>j \<le> length s. \<not> starts_with p (drop j s))"
proof (induction p s rule: str_find.induct)
  case (1 p)
  then show ?case by (auto simp: starts_with_iff)
next
  case (2 p c cs)
  have "(\<forall>j \<le> length (c # cs). \<not> starts_with p (drop j (c # cs)))
      \<longleftrightarrow> \<not> starts_with p (c # cs) \<and> (\<forall>j \<le> length cs. \<not> starts_with p (drop j cs))"
    by (metis Suc_le_mono drop0 drop_Suc_Cons length_Cons not0_implies_Suc zero_le)
  with 2 show ?case by simp
qed

lemma str_find_Some_iff:
  "str_find p s = Some i \<longleftrightarrow>
     i \<le> length s \<and> starts_with p (drop i s) \<and> (\<forall>j < i. \<not> starts_with p (drop j s))"
proof
  assume f: "str_find p s = Some i"
  then show "i \<le> length s \<and> starts_with p (drop i s) \<and> (\<forall>j < i. \<not> starts_with p (drop j s))"
    using str_find_Some [OF f] str_find_least [OF f]
    by (auto simp: starts_with_iff) (metis append_take_drop_id)
next
  assume r: "i \<le> length s \<and> starts_with p (drop i s) \<and> (\<forall>j < i. \<not> starts_with p (drop j s))"
  then obtain k where k: "str_find p s = Some k"
    using str_find_None [of p s] by auto
  have "k + length p \<le> length s \<and> starts_with p (drop k s)"
    using str_find_Some [OF k] by (metis append_take_drop_id starts_with_iff)
  with r str_find_least [OF k] have "k = i" by (metis linorder_neqE_nat)
  with k show "str_find p s = Some i" by simp
qed

section \<open>ASCII case\<close>

definition to_ascii_lower :: "uchar \<Rightarrow> uchar" where
  "to_ascii_lower c = (if 65 \<le> c \<and> c \<le> 90 then c + 32 else c)"

definition to_ascii_upper :: "uchar \<Rightarrow> uchar" where
  "to_ascii_upper c = (if 97 \<le> c \<and> c \<le> 122 then c - 32 else c)"

definition to_ascii_lowercase :: "rstr \<Rightarrow> rstr" where
  "to_ascii_lowercase s = map to_ascii_lower s"

definition is_ascii_digit :: "uchar \<Rightarrow> bool" where
  "is_ascii_digit c \<longleftrightarrow> 48 \<le> c \<and> c \<le> 57"

definition is_ascii_alphabetic :: "int \<Rightarrow> bool" where
  "is_ascii_alphabetic c \<longleftrightarrow> 65 \<le> c \<and> c \<le> 90 \<or> 97 \<le> c \<and> c \<le> 122"

definition eq_ignore_ascii_case :: "int list \<Rightarrow> int list \<Rightarrow> bool" where
  "eq_ignore_ascii_case a b \<longleftrightarrow> to_ascii_lowercase a = to_ascii_lowercase b"

lemma to_ascii_lower_idem [simp]: "to_ascii_lower (to_ascii_lower c) = to_ascii_lower c"
  by (simp add: to_ascii_lower_def)

lemma to_ascii_lowercase_idem [simp]:
  "to_ascii_lowercase (to_ascii_lowercase s) = to_ascii_lowercase s"
  by (simp add: to_ascii_lowercase_def)

section \<open>UTF-8\<close>

text \<open>\<open>char::len_utf8\<close> and \<open>String::into_bytes\<close>.\<close>

definition len_utf8 :: "uchar \<Rightarrow> nat" where
  "len_utf8 c = (if c < 128 then 1 else if c < 2048 then 2 else if c < 65536 then 3 else 4)"

definition encode_utf8 :: "uchar \<Rightarrow> int list" where
  "encode_utf8 c =
     (if c < 128 then [c]
      else if c < 2048 then [192 + c div 64, 128 + c mod 64]
      else if c < 65536 then [224 + c div 4096, 128 + c div 64 mod 64, 128 + c mod 64]
      else [240 + c div 262144, 128 + c div 4096 mod 64, 128 + c div 64 mod 64, 128 + c mod 64])"

definition into_bytes :: "rstr \<Rightarrow> int list" where
  "into_bytes s = concat (map encode_utf8 s)"

definition str_len :: "rstr \<Rightarrow> nat" where
  "str_len s = sum_list (map len_utf8 s)"

lemma length_encode_utf8: "length (encode_utf8 c) = len_utf8 c"
  by (simp add: encode_utf8_def len_utf8_def)

lemma length_into_bytes: "length (into_bytes s) = str_len s"
  by (induction s) (simp_all add: into_bytes_def str_len_def length_encode_utf8)

section \<open>Numbers\<close>

text \<open>
  \<open>usize\<close> and \<open>u64\<close> are 64 bits wide: where the code computes with
  \<open>saturating_add\<close> or \<open>saturating_mul\<close> the bound is written out. \<open>saturating_sub\<close>
  is the subtraction of \<^typ>\<open>nat\<close>.
\<close>

definition usize_max :: nat where
  "usize_max = 18446744073709551615"

definition sat_add :: "nat \<Rightarrow> nat \<Rightarrow> nat" where
  "sat_add a b = min (a + b) usize_max"

definition sat_mul :: "nat \<Rightarrow> nat \<Rightarrow> nat" where
  "sat_mul a b = min (a * b) usize_max"

lemma sat_add_min: "sat_add (min a usize_max) b = min (a + b) usize_max"
  "sat_add a (min b usize_max) = min (a + b) usize_max"
  by (simp_all add: sat_add_def min_def)

lemma sat_add_min2: "sat_add (min a usize_max) (min b usize_max) = min (a + b) usize_max"
  by (simp add: sat_add_def min_def)

lemma sat_add_assoc: "sat_add (sat_add a b) c = sat_add a (b + c)"
  by (simp add: sat_add_def)

lemma sat_add_le [simp]: "sat_add a b \<le> usize_max"
  by (simp add: sat_add_def)

text \<open>The decimal digits of a number, as \<open>format!("{}")\<close> writes them.\<close>

fun dec :: "nat \<Rightarrow> rstr" where
  "dec n = (if n < 10 then [48 + int n] else dec (n div 10) @ [48 + int (n mod 10)])"

declare dec.simps [simp del]

lemma dec_not_Nil [simp]: "dec n \<noteq> []"
  by (subst dec.simps) simp

lemma is_ascii_digit_dec: "c \<in> set (dec n) \<Longrightarrow> is_ascii_digit c"
proof (induction n rule: dec.induct)
  case (1 n)
  then show ?case
    by (subst (asm) (2) dec.simps) (auto simp: is_ascii_digit_def split: if_splits)
qed

section \<open>Options and lists\<close>

definition opt_is_some_and :: "('a \<Rightarrow> bool) \<Rightarrow> 'a option \<Rightarrow> bool" where
  "opt_is_some_and P x = (case x of None \<Rightarrow> False | Some v \<Rightarrow> P v)"

definition list_last :: "'a list \<Rightarrow> 'a option" where
  "list_last xs = (if xs = [] then None else Some (last xs))"

lemma list_last_simps [simp]:
  "list_last [] = None"
  "list_last (xs @ [x]) = Some x"
  by (simp_all add: list_last_def)

lemma list_last_Some: "list_last xs = Some x \<longleftrightarrow> (\<exists>ys. xs = ys @ [x])"
  by (cases xs rule: rev_cases) auto

lemma list_last_None [simp]: "list_last xs = None \<longleftrightarrow> xs = []"
  by (simp add: list_last_def)

lemma opt_is_some_and_simps [simp]:
  "\<not> opt_is_some_and P None"
  "opt_is_some_and P (Some v) = P v"
  by (simp_all add: opt_is_some_and_def)

lemma drop_take_drop: "k \<le> n \<Longrightarrow> drop k (take n xs) @ drop n xs = drop k xs"
  by (metis append_take_drop_id diff_is_0_eq drop0 drop_all drop_append length_take
      linorder_le_cases min.absorb1 min.absorb2)

text \<open>\<open>last_mut\<close> followed by an assignment through the reference.\<close>

definition map_last :: "('a \<Rightarrow> 'a) \<Rightarrow> 'a list \<Rightarrow> 'a list" where
  "map_last f xs = (if xs = [] then [] else butlast xs @ [f (last xs)])"

lemma map_last_simps [simp]:
  "map_last f [] = []"
  "map_last f (xs @ [x]) = xs @ [f x]"
  by (simp_all add: map_last_def)

lemma map_last_eq_Nil [simp]: "map_last f xs = [] \<longleftrightarrow> xs = []"
  by (simp add: map_last_def)

lemma length_map_last [simp]: "length (map_last f xs) = length xs"
  by (cases xs rule: rev_cases) simp_all

lemma list_last_map_last: "list_last (map_last f xs) = map_option f (list_last xs)"
  by (cases xs rule: rev_cases) simp_all

lemma map_last_map_last: "map_last f (map_last g xs) = map_last (\<lambda>x. f (g x)) xs"
  by (cases xs rule: rev_cases) simp_all

section \<open>Counting the elements of an updated function\<close>

lemma card_update:
  assumes "finite {j. P j (f j)}"
  shows "card {j. P j ((f(i := x)) j)} + of_bool (P i (f i)) = card {j. P j (f j)} + of_bool (P i x)"
    and "finite {j. P j ((f(i := x)) j)}"
proof -
  let ?A = "{j. P j (f j)}" and ?B = "{j. P j ((f(i := x)) j)}"
  have B: "?B = (if P i x then insert i (?A - {i}) else ?A - {i})" by auto
  show fin: "finite ?B" unfolding B using assms by simp
  have "card (?A - {i}) + of_bool (P i (f i)) = card ?A"
    using assms card_Suc_Diff1 [of ?A i] by (cases "P i (f i)") auto
  then show "card ?B + of_bool (P i (f i)) = card ?A + of_bool (P i x)"
    unfolding B using assms by (auto simp: insert_absorb)
qed

lemmas str_defs = trim_start_def trim_end_def trim_end_matches_def trim_def
  strip_suffix_def starts_with_def ends_with_def strip_line_end_def str_lines_def

declare lit_def [eval_defs] str_defs [eval_defs] is_whitespace_def [eval_defs]

end
