(* ===== verification/Patch_Syntax.thy ===== *)
theory Patch_Syntax
  imports Rust_Prelude
begin

text \<open>
  \<open>apply-patch/src/parser.rs\<close>: the markers of the patch format, the parse errors, the
  hunks a patch denotes, and the checks of the first and last line of a patch text. A
  \<open>PathBuf\<close> built from a string of the patch is that string.
\<close>

section \<open>Markers\<close>

definition BEGIN_PATCH_MARKER :: rstr where
  "BEGIN_PATCH_MARKER = lit ''*** Begin Patch''"
definition END_PATCH_MARKER :: rstr where
  "END_PATCH_MARKER = lit ''*** End Patch''"
definition ADD_FILE_MARKER :: rstr where
  "ADD_FILE_MARKER = lit ''*** Add File: ''"
definition DELETE_FILE_MARKER :: rstr where
  "DELETE_FILE_MARKER = lit ''*** Delete File: ''"
definition UPDATE_FILE_MARKER :: rstr where
  "UPDATE_FILE_MARKER = lit ''*** Update File: ''"
definition MOVE_TO_MARKER :: rstr where
  "MOVE_TO_MARKER = lit ''*** Move to: ''"
definition EOF_MARKER :: rstr where
  "EOF_MARKER = lit ''*** End of File''"
definition CHANGE_CONTEXT_MARKER :: rstr where
  "CHANGE_CONTEXT_MARKER = lit ''@@ ''"
definition EMPTY_CHANGE_CONTEXT_MARKER :: rstr where
  "EMPTY_CHANGE_CONTEXT_MARKER = lit ''@@''"
definition ENVIRONMENT_ID_MARKER :: rstr where
  "ENVIRONMENT_ID_MARKER = lit ''*** Environment ID:''"

lemmas marker_defs = BEGIN_PATCH_MARKER_def END_PATCH_MARKER_def ADD_FILE_MARKER_def
  DELETE_FILE_MARKER_def UPDATE_FILE_MARKER_def MOVE_TO_MARKER_def EOF_MARKER_def
  CHANGE_CONTEXT_MARKER_def EMPTY_CHANGE_CONTEXT_MARKER_def ENVIRONMENT_ID_MARKER_def

definition quoted :: "rstr \<Rightarrow> rstr" where
  "quoted s = [39] @ s @ [39]"

section \<open>Errors, hunks and chunks\<close>

datatype ParseError =
    InvalidPatchError rstr
  | InvalidHunkError rstr nat

record UpdateFileChunk =
  change_context :: "rstr option"
  old_lines :: "rstr list"
  new_lines :: "rstr list"
  context_line_indices :: "(nat \<times> nat) list"
  is_end_of_file :: bool

datatype Hunk =
    AddFile rstr rstr
  | DeleteFile rstr
  | UpdateFile rstr "rstr option" "UpdateFileChunk list"

definition default_chunk :: UpdateFileChunk where
  "default_chunk = \<lparr>change_context = None, old_lines = [], new_lines = [],
     context_line_indices = [], is_end_of_file = False\<rparr>"

definition push_context_line :: "rstr \<Rightarrow> UpdateFileChunk \<Rightarrow> UpdateFileChunk" where
  "push_context_line line c =
     c\<lparr>context_line_indices :=
         context_line_indices c @ [(length (old_lines c), length (new_lines c))],
       old_lines := old_lines c @ [line],
       new_lines := new_lines c @ [line]\<rparr>"

text \<open>\<open>Hunk::path\<close>: the destination of a rename, otherwise the hunk's own path.\<close>

fun hunk_path :: "Hunk \<Rightarrow> rstr" where
  "hunk_path (AddFile path _) = path"
| "hunk_path (DeleteFile path) = path"
| "hunk_path (UpdateFile _ (Some path) _) = path"
| "hunk_path (UpdateFile path None _) = path"

text \<open>The path \<open>Hunk::resolve_path\<close> joins to the working directory.\<close>

fun hunk_source_path :: "Hunk \<Rightarrow> rstr" where
  "hunk_source_path (UpdateFile path _ _) = path"
| "hunk_source_path h = hunk_path h"

section \<open>The boundaries of a patch text\<close>

definition FIRST_LINE_ERROR :: ParseError where
  "FIRST_LINE_ERROR =
     InvalidPatchError (lit ''The first line of the patch must be '' @ quoted (lit ''*** Begin Patch''))"

definition LAST_LINE_ERROR :: ParseError where
  "LAST_LINE_ERROR =
     InvalidPatchError (lit ''The last line of the patch must be '' @ quoted (lit ''*** End Patch''))"

definition check_start_and_end_lines_strict ::
  "rstr option \<Rightarrow> rstr option \<Rightarrow> ParseError + unit" where
  "check_start_and_end_lines_strict first_line last_line =
     (let first_line = map_option trim first_line; last_line = map_option trim last_line
      in if first_line = Some BEGIN_PATCH_MARKER \<and> last_line = Some END_PATCH_MARKER then Inr ()
         else if first_line \<noteq> None \<and> first_line \<noteq> Some BEGIN_PATCH_MARKER
              then Inl FIRST_LINE_ERROR
         else Inl LAST_LINE_ERROR)"

definition check_patch_boundaries_strict :: "rstr list \<Rightarrow> ParseError + rstr list" where
  "check_patch_boundaries_strict lines =
     (let (first_line, last_line) =
            (case lines of [] \<Rightarrow> (None, None) | [first] \<Rightarrow> (Some first, Some first)
             | first # rest \<Rightarrow> (Some first, Some (last rest)))
      in case check_start_and_end_lines_strict first_line last_line of
           Inl e \<Rightarrow> Inl e | Inr _ \<Rightarrow> Inr lines)"

definition HEREDOC_STARTS :: "rstr list" where
  "HEREDOC_STARTS = [lit ''<<EOF'', lit ''<<'' @ quoted (lit ''EOF''), lit ''<<'' @ [34] @ lit ''EOF'' @ [34]]"

definition check_patch_boundaries_lenient :: "rstr list \<Rightarrow> ParseError + rstr list" where
  "check_patch_boundaries_lenient original_lines =
     (case check_patch_boundaries_strict original_lines of
        Inr lines \<Rightarrow> Inr lines
      | Inl original_parse_error \<Rightarrow>
          (case original_lines of
             first # second # rest \<Rightarrow>
               (if first \<in> set HEREDOC_STARTS \<and> ends_with (lit ''EOF'') (last (second # rest))
                   \<and> 4 \<le> length original_lines
                then check_patch_boundaries_strict (butlast (tl original_lines))
                else Inl original_parse_error)
           | _ \<Rightarrow> Inl original_parse_error))"

section \<open>Well-formed hunks\<close>

text \<open>
  What the parser promises about a chunk: its context pairs are strictly increasing in both
  components, lie inside the two line lists, and name equal lines.
\<close>

fun pairs_increasing :: "nat \<Rightarrow> nat \<Rightarrow> (nat \<times> nat) list \<Rightarrow> bool" where
  "pairs_increasing i j [] = True"
| "pairs_increasing i j ((o', n') # ps) = (i \<le> o' \<and> j \<le> n' \<and> pairs_increasing (Suc o') (Suc n') ps)"

definition chunk_ok :: "UpdateFileChunk \<Rightarrow> bool" where
  "chunk_ok c \<longleftrightarrow> pairs_increasing 0 0 (context_line_indices c)
     \<and> (\<forall>(i, j) \<in> set (context_line_indices c).
          i < length (old_lines c) \<and> j < length (new_lines c) \<and> old_lines c ! i = new_lines c ! j)"

definition chunk_is_empty :: "UpdateFileChunk \<Rightarrow> bool" where
  "chunk_is_empty c \<longleftrightarrow> old_lines c = [] \<and> new_lines c = []"

fun hunk_ok :: "Hunk \<Rightarrow> bool" where
  "hunk_ok (UpdateFile _ _ chunks) =
     (chunks \<noteq> [] \<and> (\<forall>c \<in> set chunks. chunk_ok c \<and> \<not> chunk_is_empty c))"
| "hunk_ok _ = True"

lemma pairs_increasing_snoc:
  "pairs_increasing i j (ps @ [(a, b)]) \<longleftrightarrow>
     pairs_increasing i j ps \<and> i \<le> a \<and> j \<le> b \<and> (\<forall>(o', n') \<in> set ps. o' < a \<and> n' < b)"
  by (induction i j ps rule: pairs_increasing.induct) auto

lemma chunk_ok_default [simp]: "chunk_ok default_chunk" "chunk_is_empty default_chunk"
  by (simp_all add: chunk_ok_def default_chunk_def chunk_is_empty_def)

lemma chunk_ok_context_only:
  "chunk_ok (c\<lparr>change_context := x\<rparr>) = chunk_ok c"
  "chunk_ok (c\<lparr>is_end_of_file := b\<rparr>) = chunk_ok c"
  "chunk_is_empty (c\<lparr>change_context := x\<rparr>) = chunk_is_empty c"
  "chunk_is_empty (c\<lparr>is_end_of_file := b\<rparr>) = chunk_is_empty c"
  by (simp_all add: chunk_ok_def chunk_is_empty_def)

lemma chunk_ok_push_context_line:
  assumes "chunk_ok c"
  shows "chunk_ok (push_context_line l c)" and "\<not> chunk_is_empty (push_context_line l c)"
  using assms
  by (auto simp: chunk_ok_def chunk_is_empty_def push_context_line_def pairs_increasing_snoc
      nth_append)

lemma chunk_ok_push_new:
  assumes "chunk_ok c"
  shows "chunk_ok (c\<lparr>new_lines := new_lines c @ [l]\<rparr>)"
    and "\<not> chunk_is_empty (c\<lparr>new_lines := new_lines c @ [l]\<rparr>)"
  using assms by (auto simp: chunk_ok_def chunk_is_empty_def nth_append)

lemma chunk_ok_push_old:
  assumes "chunk_ok c"
  shows "chunk_ok (c\<lparr>old_lines := old_lines c @ [l]\<rparr>)"
    and "\<not> chunk_is_empty (c\<lparr>old_lines := old_lines c @ [l]\<rparr>)"
  using assms by (auto simp: chunk_ok_def chunk_is_empty_def nth_append)

lemmas chunk_ok_pushes = chunk_ok_push_context_line chunk_ok_push_new chunk_ok_push_old
  chunk_ok_context_only

end
