(* ===== verification/Seek_Sequence.thy ===== *)
theory Seek_Sequence
  imports Patch_Syntax
begin

text \<open>
  \<open>apply-patch/src/seek_sequence.rs\<close>: where the lines of a pattern occur in a file, tried
  exactly first and then with growing tolerance. The specification orders the four
  tolerances and says which occurrence is found.
\<close>

section \<open>The search\<close>

datatype ApplyPatchFileUpdateMode = NormalizeToLf | PreserveLineEndings

text \<open>\<open>normalise\<close>: typographic dashes, quotes and spaces become their ASCII counterparts.\<close>

definition normalise_char :: "uchar \<Rightarrow> uchar" where
  "normalise_char c =
     (if c \<in> {8208, 8209, 8210, 8211, 8212, 8213, 8722} then 45
      else if c \<in> {8216, 8217, 8218, 8219} then 39
      else if c \<in> {8220, 8221, 8222, 8223} then 34
      else if c \<in> {160, 8194, 8195, 8196, 8197, 8198, 8199, 8200, 8201, 8202, 8239, 8287, 12288}
      then 32 else c)"

definition normalise :: "rstr \<Rightarrow> rstr" where
  "normalise s = map normalise_char (trim s)"

text \<open>One pass: the first position from \<open>search_start\<close> at which every line agrees under \<open>f\<close>.\<close>

definition lines_agree :: "(rstr \<Rightarrow> rstr) \<Rightarrow> rstr list \<Rightarrow> rstr list \<Rightarrow> nat \<Rightarrow> bool" where
  "lines_agree f lines pattern i =
     list_all (\<lambda>(p_idx, pat). f (lines ! (i + p_idx)) = f pat) (enumerate 0 pattern)"

definition seek_pass :: "(nat \<Rightarrow> bool) \<Rightarrow> nat \<Rightarrow> nat \<Rightarrow> nat option" where
  "seek_pass matches search_start stop = find matches [search_start..<Suc stop]"

definition search_start_of ::
  "rstr list \<Rightarrow> rstr list \<Rightarrow> nat \<Rightarrow> bool \<Rightarrow> ApplyPatchFileUpdateMode \<Rightarrow> nat" where
  "search_start_of lines pattern start eof update_file_mode =
     (if eof \<and> length pattern \<le> length lines
      then (case update_file_mode of
              NormalizeToLf \<Rightarrow> length lines - length pattern
            | PreserveLineEndings \<Rightarrow> max (length lines - length pattern) start)
      else start)"

definition or_else :: "'a option \<Rightarrow> 'a option \<Rightarrow> 'a option" where
  "or_else x y = (case x of None \<Rightarrow> y | Some v \<Rightarrow> Some v)"

definition seek_sequence ::
  "rstr list \<Rightarrow> rstr list \<Rightarrow> nat \<Rightarrow> bool \<Rightarrow> ApplyPatchFileUpdateMode \<Rightarrow> nat option" where
  "seek_sequence lines pattern start eof update_file_mode =
     (if pattern = [] then Some start
      else if length lines < length pattern then None
      else let search_start = search_start_of lines pattern start eof update_file_mode;
               pass = (\<lambda>m. seek_pass m search_start (length lines - length pattern))
           in or_else (pass (\<lambda>i. take (length pattern) (drop i lines) = pattern))
             (or_else (pass (lines_agree trim_end lines pattern))
             (or_else (pass (lines_agree trim lines pattern))
                      (pass (lines_agree normalise lines pattern)))))"

section \<open>Tolerances\<close>

definition tolerance :: "nat \<Rightarrow> rstr \<Rightarrow> rstr" where
  "tolerance k = (if k = 0 then id else if k = 1 then trim_end else if k = 2 then trim else normalise)"

text \<open>\<open>pattern\<close> occurs in \<open>lines\<close> at \<open>i\<close>, up to tolerance \<open>k\<close>.\<close>

definition occurs :: "nat \<Rightarrow> rstr list \<Rightarrow> rstr list \<Rightarrow> nat \<Rightarrow> bool" where
  "occurs k lines pattern i \<longleftrightarrow> i + length pattern \<le> length lines
     \<and> map (tolerance k) (take (length pattern) (drop i lines)) = map (tolerance k) pattern"

lemma tolerance_mono:
  assumes "tolerance j s = tolerance j t" "j \<le> k"
  shows "tolerance k s = tolerance k t"
proof -
  have step: "trim_end s = trim_end t \<Longrightarrow> trim s = trim t" by (rule trim_end_congD)
  show ?thesis
    using assms step by (auto simp: tolerance_def normalise_def split: if_splits)
qed

lemma map_eq_map_nth:
  "map f xs = map g ys \<longleftrightarrow> length xs = length ys \<and> (\<forall>i < length ys. f (xs ! i) = g (ys ! i))"
  by (auto simp: list_eq_iff_nth_eq [of "map f xs"])

lemma occurs_mono: "occurs j ls ps i \<Longrightarrow> j \<le> k \<Longrightarrow> occurs k ls ps i"
  unfolding occurs_def map_eq_map_nth by (auto intro: tolerance_mono [of j _ _ k])

lemma lines_agree_occurs:
  "i + length ps \<le> length ls \<Longrightarrow> lines_agree f ls ps i =
     (map f (take (length ps) (drop i ls)) = map f ps)"
  unfolding lines_agree_def map_eq_map_nth list_all_length
  by (auto simp: nth_enumerate_eq)

lemma seek_pass_None: "seek_pass m a b = None \<longleftrightarrow> (\<forall>i. a \<le> i \<and> i \<le> b \<longrightarrow> \<not> m i)"
  unfolding seek_pass_def find_None_iff by auto

lemma seek_pass_Some:
  "seek_pass m a b = Some i \<longleftrightarrow> a \<le> i \<and> i \<le> b \<and> m i \<and> (\<forall>j. a \<le> j \<and> j < i \<longrightarrow> \<not> m j)"
proof -
  have "seek_pass m a b = Some i \<longleftrightarrow>
      (\<exists>k < Suc b - a. m (a + k) \<and> i = a + k \<and> (\<forall>j < k. \<not> m (a + j)))"
    unfolding seek_pass_def find_Some_iff by (auto simp del: upt_Suc)
  also have "\<dots> \<longleftrightarrow> a \<le> i \<and> i \<le> b \<and> m i \<and> (\<forall>j. a \<le> j \<and> j < i \<longrightarrow> \<not> m j)"
  proof
    assume "a \<le> i \<and> i \<le> b \<and> m i \<and> (\<forall>j. a \<le> j \<and> j < i \<longrightarrow> \<not> m j)"
    then show "\<exists>k < Suc b - a. m (a + k) \<and> i = a + k \<and> (\<forall>j < k. \<not> m (a + j))"
      by (intro exI [of _ "i - a"]) auto
  next
    assume "\<exists>k < Suc b - a. m (a + k) \<and> i = a + k \<and> (\<forall>j < k. \<not> m (a + j))"
    then show "a \<le> i \<and> i \<le> b \<and> m i \<and> (\<forall>j. a \<le> j \<and> j < i \<longrightarrow> \<not> m j)"
      by (auto, metis add_less_cancel_left le_add_diff_inverse)
  qed
  finally show ?thesis .
qed

text \<open>The first occurrence in a window, at a tolerance.\<close>

definition first_at :: "nat \<Rightarrow> rstr list \<Rightarrow> rstr list \<Rightarrow> nat \<Rightarrow> nat option" where
  "first_at k lines pattern w = seek_pass (occurs k lines pattern) w (length lines - length pattern)"

lemma seek_pass_cong:
  "(\<And>i. i \<le> b \<Longrightarrow> m i = m' i) \<Longrightarrow> seek_pass m a b = seek_pass m' a b"
  unfolding seek_pass_def by (rule find_cong) auto

lemma seek_sequence_first_at:
  fixes lines pattern start eof md
  defines "w \<equiv> search_start_of lines pattern start eof md"
  assumes "pattern \<noteq> []" "length pattern \<le> length lines"
  shows "seek_sequence lines pattern start eof md =
    or_else (first_at 0 lines pattern w) (or_else (first_at 1 lines pattern w)
      (or_else (first_at 2 lines pattern w) (first_at 3 lines pattern w)))"
proof -
  have o: "i + length pattern \<le> length lines" if "i \<le> length lines - length pattern" for i
    using that assms(3) by simp
  have "seek_pass (\<lambda>i. take (length pattern) (drop i lines) = pattern) w (length lines - length pattern)
      = first_at 0 lines pattern w"
    unfolding first_at_def by (rule seek_pass_cong) (simp add: o occurs_def tolerance_def)
  moreover have "seek_pass (lines_agree trim_end lines pattern) w (length lines - length pattern)
      = first_at 1 lines pattern w"
    unfolding first_at_def
    by (rule seek_pass_cong) (simp add: o occurs_def tolerance_def lines_agree_occurs)
  moreover have "seek_pass (lines_agree trim lines pattern) w (length lines - length pattern)
      = first_at 2 lines pattern w"
    unfolding first_at_def
    by (rule seek_pass_cong) (simp add: o occurs_def tolerance_def lines_agree_occurs)
  moreover have "seek_pass (lines_agree normalise lines pattern) w (length lines - length pattern)
      = first_at 3 lines pattern w"
    unfolding first_at_def
    by (rule seek_pass_cong) (simp add: o occurs_def tolerance_def lines_agree_occurs)
  ultimately show ?thesis
    using assms by (simp add: seek_sequence_def Let_def)
qed

lemma or_else_None [simp]: "or_else x y = None \<longleftrightarrow> x = None \<and> y = None"
  by (simp add: or_else_def split: option.split)

lemma or_else_Some: "or_else x y = Some v \<longleftrightarrow> x = Some v \<or> x = None \<and> y = Some v"
  by (auto simp: or_else_def split: option.split)

lemma first_at_None:
  "first_at k ls ps w = None \<longleftrightarrow> (\<forall>j \<ge> w. \<not> occurs k ls ps j)"
  unfolding first_at_def seek_pass_None by (auto simp: occurs_def)

lemma first_at_Some:
  "first_at k ls ps w = Some i \<longleftrightarrow> w \<le> i \<and> occurs k ls ps i \<and> (\<forall>j. w \<le> j \<and> j < i \<longrightarrow> \<not> occurs k ls ps j)"
  unfolding first_at_def seek_pass_Some by (auto simp: occurs_def)


text \<open>\<open>seek_sequence\<close> fails exactly when no position of the search window matches even
  with the loosest tolerance; in particular it never reads outside the file.\<close>

theorem seek_sequence_None:
  "seek_sequence lines pattern start eof md = None \<longleftrightarrow>
     pattern \<noteq> [] \<and>
     (\<forall>j \<ge> search_start_of lines pattern start eof md. \<not> occurs 3 lines pattern j)"
proof (cases "pattern = [] \<or> length lines < length pattern")
  case True
  then show ?thesis by (auto simp: seek_sequence_def occurs_def)
next
  case False
  then show ?thesis
    by (auto simp: seek_sequence_first_at first_at_None dest: occurs_mono [of _ _ _ _ 3])
qed

lemma seek_sequence_bounds:
  assumes "seek_sequence lines pattern start eof md = Some i" "pattern \<noteq> []"
  shows "search_start_of lines pattern start eof md \<le> i" "i + length pattern \<le> length lines"
proof -
  have "length pattern \<le> length lines"
    using assms by (auto simp: seek_sequence_def split: if_splits)
  with assms have "search_start_of lines pattern start eof md \<le> i \<and> (\<exists>k. occurs k lines pattern i)"
    by (auto simp: seek_sequence_first_at or_else_Some first_at_Some)
  then show "search_start_of lines pattern start eof md \<le> i" "i + length pattern \<le> length lines"
    by (auto simp: occurs_def)
qed

lemma seek_sequence_start:
  assumes "seek_sequence lines pattern start eof md = Some i" "md = PreserveLineEndings \<or> \<not> eof"
  shows "start \<le> i"
proof (cases "pattern = []")
  case False
  with assms seek_sequence_bounds(1) [OF assms(1)] show ?thesis
    by (auto simp: search_start_of_def split: if_splits)
qed (use assms in \<open>simp add: seek_sequence_def\<close>)

text \<open>An end-of-file pattern is only ever found at the very end of the file. The
  function's comment says that it falls back to searching from \<open>start\<close>; it does not.\<close>

theorem seek_sequence_eof_only_at_end:
  assumes "seek_sequence lines pattern start True md = Some i" "pattern \<noteq> []"
  shows "i = length lines - length pattern"
  using seek_sequence_bounds [OF assms] by (auto simp: search_start_of_def
      split: if_splits ApplyPatchFileUpdateMode.splits)

theorem seek_sequence_eof_only_at_end_witness:
  "seek_sequence [lit ''a'', lit ''b'', lit ''a'', lit ''c''] [lit ''a'', lit ''c ''] 0 True NormalizeToLf
     = Some (4 - 2)
   \<and> seek_sequence [lit ''a'', lit ''b''] [lit ''a''] 0 True NormalizeToLf = None
   \<and> seek_sequence [lit ''a'', lit ''b''] [lit ''a''] 0 False NormalizeToLf = Some 0"
proof -
  let ?l = "[lit ''a'', lit ''b'', lit ''a'', lit ''c'']" and ?p = "[lit ''a'', lit ''c '']"
  have "seek_sequence ?l ?p 0 True NormalizeToLf \<noteq> None" by code_simp
  then obtain i where i: "seek_sequence ?l ?p 0 True NormalizeToLf = Some i" by blast
  from seek_sequence_eof_only_at_end [OF i] have "i = 4 - 2" by simp
  moreover have "seek_sequence [lit ''a'', lit ''b''] [lit ''a''] 0 True NormalizeToLf = None"
    "seek_sequence [lit ''a'', lit ''b''] [lit ''a''] 0 False NormalizeToLf = Some 0"
    by code_simp+
  ultimately show ?thesis using i by simp
qed


theorem seek_sequence_None_witness:
  "seek_sequence [lit ''a'', lit ''b''] [lit ''a''] 0 True PreserveLineEndings = None"
proof -
  let ?l = "[lit ''a'', lit ''b'']" and ?p = "[lit ''a'']"
  have w: "search_start_of ?l ?p 0 True PreserveLineEndings = 1" by (simp add: search_start_of_def)
  have "\<not> occurs 3 ?l ?p 1" by code_simp
  then have "\<forall>j \<ge> 1. \<not> occurs 3 ?l ?p j"
    by (metis One_nat_def add_le_imp_le_diff le_antisym length_Cons list.size(3) occurs_def
        plus_1_eq_Suc add_diff_cancel_left')
  then show ?thesis
    by (intro seek_sequence_None [THEN iffD2]) (simp add: w)
qed

end
