(* ===== verification/Text_File.thy ===== *)
theory Text_File
  imports Rust_Prelude
begin

text \<open>
  \<open>apply-patch/src/text_file.rs\<close>: a file as lines that remember their own line endings.
  The specification is \<open>splice_lines\<close>, which reads the replacements from left to right.
\<close>

section \<open>Data\<close>

type_synonym 'l replacement = "nat \<times> nat \<times> 'l list"
type_synonym Replacement = "rstr replacement"

datatype LineEnding = Lf | CrLf | Cr

fun ending_as_str :: "LineEnding \<Rightarrow> rstr" where
  "ending_as_str Lf = [nl]"
| "ending_as_str CrLf = [cr, nl]"
| "ending_as_str Cr = [cr]"

record SourceLine =
  sl_text :: rstr
  sl_ending :: "LineEnding option"

record SourceFile =
  sf_lines :: "SourceLine list"
  preferred_ending :: LineEnding

section \<open>Operations\<close>

text \<open>\<open>Option::get_or_insert\<close>.\<close>

definition get_or_insert :: "'a option \<Rightarrow> 'a \<Rightarrow> 'a option" where
  "get_or_insert x v = (case x of None \<Rightarrow> Some v | Some w \<Rightarrow> Some w)"

lemma get_or_insert_not_None: "get_or_insert x v \<noteq> None"
  by (simp add: get_or_insert_def split: option.split)

text \<open>The scan of \<open>parse\<close>: the lines so far, the preferred ending so far, the text since
  \<open>line_start\<close>, and the rest of the contents at \<open>cursor\<close>.\<close>

function parse_scan ::
  "SourceLine list \<Rightarrow> LineEnding option \<Rightarrow> rstr \<Rightarrow> rstr \<Rightarrow> SourceLine list \<times> LineEnding option" where
  "parse_scan lines pref line [] =
     (if line = [] then lines else lines @ [\<lparr>sl_text = line, sl_ending = None\<rparr>], pref)"
| "parse_scan lines pref line (c # cs) =
     (if c = cr \<and> take 1 cs = [nl]
      then parse_scan (lines @ [\<lparr>sl_text = line, sl_ending = Some CrLf\<rparr>])
             (get_or_insert pref CrLf) [] (drop 1 cs)
      else if c = cr
      then parse_scan (lines @ [\<lparr>sl_text = line, sl_ending = Some Cr\<rparr>])
             (get_or_insert pref Cr) [] cs
      else if c = nl
      then parse_scan (lines @ [\<lparr>sl_text = line, sl_ending = Some Lf\<rparr>])
             (get_or_insert pref Lf) [] cs
      else parse_scan lines pref (line @ [c]) cs)"
  by pat_completeness auto
termination
  by (relation "measure (\<lambda>(_, _, _, s). length s)") auto

definition parse_source :: "rstr \<Rightarrow> SourceFile" where
  "parse_source contents =
     (let (lines, pref) = parse_scan [] None [] contents
      in \<lparr>sf_lines = lines,
          preferred_ending = (case pref of None \<Rightarrow> Lf | Some e \<Rightarrow> e)\<rparr>)"

definition line_texts :: "SourceFile \<Rightarrow> rstr list" where
  "line_texts f = map sl_text (sf_lines f)"

text \<open>
  The loop of \<open>apply_replacements\<close>: \<open>rest\<close> is what the iterator \<open>source_lines\<close> has left,
  \<open>source_index\<close> its position in the file. A replacement that starts before
  \<open>source_index\<close> violates the \<open>debug_assert\<close> (and underflows): the result is None.
\<close>

fun replace_loop ::
  "('l \<Rightarrow> 's) \<Rightarrow> nat \<Rightarrow> 's list \<Rightarrow> 's list \<Rightarrow> 'l replacement list \<Rightarrow> 's list option" where
  "replace_loop mk source_index new_lines rest [] = Some (new_lines @ rest)"
| "replace_loop mk source_index new_lines rest ((start_idx, old_len, new_segment) # rs) =
     (if start_idx < source_index then None
      else let kept = take (start_idx - source_index) rest;
               rest = drop old_len (drop (start_idx - source_index) rest)
           in replace_loop mk (start_idx + old_len) (new_lines @ kept @ map mk new_segment) rest rs)"

definition source_apply_replacements :: "SourceFile \<Rightarrow> Replacement list \<Rightarrow> SourceFile option" where
  "source_apply_replacements f replacements =
     map_option
       (\<lambda>ls. f\<lparr>sf_lines := map (\<lambda>l. l\<lparr>sl_ending := get_or_insert (sl_ending l) (preferred_ending f)\<rparr>) ls\<rparr>)
       (replace_loop (\<lambda>text. \<lparr>sl_text = text, sl_ending = Some (preferred_ending f)\<rparr>) 0 []
          (sf_lines f) replacements)"

definition line_contents :: "SourceLine \<Rightarrow> rstr" where
  "line_contents l = sl_text l @ (case sl_ending l of None \<Rightarrow> [] | Some e \<Rightarrow> ending_as_str e)"

definition into_contents :: "SourceFile \<Rightarrow> rstr" where
  "into_contents f = concat (map line_contents (sf_lines f))"

section \<open>Round trip\<close>

lemma take_1_single: "take (Suc 0) cs = [c] \<longleftrightarrow> (\<exists>ds. cs = c # ds)"
  by (cases cs) auto

lemma parse_scan_contents:
  "concat (map line_contents (fst (parse_scan ls p line s))) = concat (map line_contents ls) @ line @ s"
  by (induction ls p line s rule: parse_scan.induct)
     (auto simp: line_contents_def get_or_insert_def take_1_single)

text \<open>Parsing a file into lines and writing the lines back gives the same text,
  whatever mixture of line endings it has.\<close>

theorem into_contents_parse: "into_contents (parse_source s) = s"
  using parse_scan_contents [of "[]" None "[]" s]
  by (simp add: into_contents_def parse_source_def split_beta)

text \<open>A line's text holds no line break, and only the last line may lack an ending.\<close>

definition source_ok :: "SourceLine list \<Rightarrow> bool" where
  "source_ok ls \<longleftrightarrow> (\<forall>l \<in> set ls. nl \<notin> set (sl_text l) \<and> cr \<notin> set (sl_text l))
     \<and> (\<forall>l \<in> set (butlast ls). sl_ending l \<noteq> None)"

lemma parse_scan_ok:
  assumes "\<forall>l \<in> set ls. nl \<notin> set (sl_text l) \<and> cr \<notin> set (sl_text l) \<and> sl_ending l \<noteq> None"
    and "nl \<notin> set line" "cr \<notin> set line"
  shows "source_ok (fst (parse_scan ls p line s))"
  using assms
proof (induction ls p line s rule: parse_scan.induct)
  case (1 lines pref line)
  then show ?case by (auto simp: source_ok_def dest: in_set_butlastD)
qed auto

lemma parse_source_ok: "source_ok (sf_lines (parse_source s))"
  using parse_scan_ok [of "[]" "[]" None s] by (simp add: parse_source_def split_beta)

section \<open>Replacements\<close>

text \<open>Replacements in source order that do not overlap, inside a file of \<open>n\<close> lines.\<close>

fun ordered_within :: "nat \<Rightarrow> nat \<Rightarrow> 'l replacement list \<Rightarrow> bool" where
  "ordered_within i n [] = (i \<le> n)"
| "ordered_within i n ((s, k, _) # rs) = (i \<le> s \<and> s + k \<le> n \<and> ordered_within (s + k) n rs)"

fun splice_lines :: "nat \<Rightarrow> 'l list \<Rightarrow> 'l replacement list \<Rightarrow> 'l list" where
  "splice_lines i ls [] = drop i ls"
| "splice_lines i ls ((s, k, new) # rs) = take (s - i) (drop i ls) @ new @ splice_lines (s + k) ls rs"

lemma ordered_within_le: "ordered_within i n rs \<Longrightarrow> i \<le> n"
  by (induction i n rs rule: ordered_within.induct) auto

text \<open>Change the inserted lines of every replacement.\<close>

definition map_new :: "('l \<Rightarrow> 's) \<Rightarrow> 'l replacement list \<Rightarrow> 's replacement list" where
  "map_new f rs = map (\<lambda>(s, k, new). (s, k, map f new)) rs"

lemma map_new_simps [simp]:
  "map_new f [] = []"
  "map_new f ((s, k, new) # rs) = (s, k, map f new) # map_new f rs"
  by (simp_all add: map_new_def)

lemma map_new_map_new: "map_new f (map_new g rs) = map_new (\<lambda>x. f (g x)) rs"
  by (simp add: map_new_def comp_def split_beta)

lemma map_new_ident [simp]: "map_new (\<lambda>x. x) rs = rs"
  by (simp add: map_new_def)

lemma ordered_within_map_new [simp]: "ordered_within i n (map_new f rs) = ordered_within i n rs"
  by (induction i n rs rule: ordered_within.induct) auto

lemma replace_loop_splice:
  "ordered_within i n rs \<Longrightarrow> rest = drop i ls \<Longrightarrow>
     replace_loop mk i new rest rs =
       Some (new @ splice_lines i ls (map_new mk rs))"
proof (induction i n rs arbitrary: new rest rule: ordered_within.induct)
  case (1 i n)
  then show ?case by simp
next
  case (2 i n s k seg rs)
  then have "drop k (drop (s - i) (drop i ls)) = drop (s + k) ls"
    by (simp add: add.commute)
  with 2 show ?case by (simp add: Let_def)
qed

lemma map_splice:
  "map f (splice_lines i ls rs) = splice_lines i (map f ls) (map_new f rs)"
  by (induction i ls rs rule: splice_lines.induct) (auto simp: take_map drop_map)

lemma set_splice:
  "set (splice_lines i ls rs) \<subseteq> set ls \<union> (\<Union>(s, k, new) \<in> set rs. set new)"
  by (induction i ls rs rule: splice_lines.induct)
     (auto dest: in_set_dropD in_set_takeD)

text \<open>The lines a splice keeps: those of no replaced range, in order.\<close>

fun outside :: "nat \<Rightarrow> 'l replacement list \<Rightarrow> bool" where
  "outside i [] = True"
| "outside i ((s, k, _) # rs) = ((i < s \<or> s + k \<le> i) \<and> outside i rs)"

lemma splice_keeps:
  "ordered_within i (length ls) rs \<Longrightarrow> i \<le> j \<Longrightarrow> j < length ls \<Longrightarrow> outside j rs \<Longrightarrow>
     ls ! j \<in> set (splice_lines i ls rs)"
proof (induction i ls rs rule: splice_lines.induct)
  case (1 i ls)
  then have "drop i ls ! (j - i) = ls ! j" by simp
  with 1 show ?case by (metis add_le_imp_le_diff length_drop less_diff_conv2 nth_mem splice_lines.simps(1)
        diff_less_mono)
next
  case (2 i ls s k new rs)
  show ?case
  proof (cases "j < s")
    case True
    have "take (s - i) (drop i ls) ! (j - i) = ls ! j" "j - i < length (take (s - i) (drop i ls))"
      using True 2(3,4) by auto
    then show ?thesis by (metis nth_mem UnCI set_append splice_lines.simps(2))
  next
    case False
    with 2 show ?thesis by auto
  qed
qed

lemma outside_map_new [simp]: "outside j (map_new f rs) = outside j rs"
  by (induction j rs rule: outside.induct) auto

lemma source_apply_replacements_splice:
  fixes f
  defines "mk \<equiv> \<lambda>t. \<lparr>sl_text = t, sl_ending = Some (preferred_ending f)\<rparr>"
  assumes "ordered_within 0 (length (sf_lines f)) rs"
  shows "source_apply_replacements f rs = Some (f\<lparr>sf_lines :=
    map (\<lambda>l. l\<lparr>sl_ending := get_or_insert (sl_ending l) (preferred_ending f)\<rparr>)
      (splice_lines 0 (sf_lines f) (map_new mk rs))\<rparr>)"
  using replace_loop_splice [OF assms(2), of "sf_lines f" "sf_lines f" mk "[]"]
  by (simp add: source_apply_replacements_def mk_def)

text \<open>On ordered replacements the update of a parsed file never fails; the texts of the
  new lines are exactly the left-to-right splice of the old texts, every resulting line has
  an ending, and each line outside the replaced ranges keeps its own text and ending.\<close>

theorem source_apply_replacements_spec:
  assumes "ordered_within 0 (length (sf_lines f)) rs"
  shows "\<exists>f'. source_apply_replacements f rs = Some f'
    \<and> line_texts f' = splice_lines 0 (line_texts f) rs
    \<and> (\<forall>l \<in> set (sf_lines f'). sl_ending l \<noteq> None)
    \<and> (\<forall>j < length (sf_lines f). outside j rs \<longrightarrow> sl_ending (sf_lines f ! j) \<noteq> None
         \<longrightarrow> sf_lines f ! j \<in> set (sf_lines f'))"
proof -
  let ?mk = "\<lambda>text. \<lparr>sl_text = text, sl_ending = Some (preferred_ending f)\<rparr>"
  let ?fill = "\<lambda>l. l\<lparr>sl_ending := get_or_insert (sl_ending l) (preferred_ending f)\<rparr>"
  let ?rs = "map_new ?mk rs"
  let ?ls = "splice_lines 0 (sf_lines f) ?rs"
  have run: "source_apply_replacements f rs = Some (f\<lparr>sf_lines := map ?fill ?ls\<rparr>)"
    by (rule source_apply_replacements_splice [OF assms])
  have texts: "line_texts (f\<lparr>sf_lines := map ?fill ?ls\<rparr>) = splice_lines 0 (line_texts f) rs"
    unfolding line_texts_def
    by (simp add: map_splice map_new_map_new del: map_map) (simp add: comp_def)
  have keep: "sf_lines f ! j \<in> set (map ?fill ?ls)"
    if "j < length (sf_lines f)" "outside j rs" "sl_ending (sf_lines f ! j) \<noteq> None" for j
  proof -
    have a: "sf_lines f ! j \<in> set ?ls" using that assms by (intro splice_keeps) simp_all
    have b: "?fill (sf_lines f ! j) = sf_lines f ! j"
      using that(3) by (auto simp: get_or_insert_def)
    from imageI [OF a, of ?fill] show ?thesis unfolding b list.set_map .
  qed
  show ?thesis
  proof (intro exI conjI)
    show "\<forall>l \<in> set (sf_lines (f\<lparr>sf_lines := map ?fill ?ls\<rparr>)). sl_ending l \<noteq> None"
      by (simp add: get_or_insert_not_None del: not_None_eq)
    show "\<forall>j < length (sf_lines f). outside j rs \<longrightarrow> sl_ending (sf_lines f ! j) \<noteq> None
        \<longrightarrow> sf_lines f ! j \<in> set (sf_lines (f\<lparr>sf_lines := map ?fill ?ls\<rparr>))"
      using keep by simp
  qed (fact run texts)+
qed

theorem source_apply_replacements_spec_witness:
  "\<exists>f'. source_apply_replacements (parse_source (lit ''a'' @ [cr, nl] @ lit ''b'')) [(1, 1, [lit ''c'', []])]
      = Some f' \<and> line_texts f' = [lit ''a'', lit ''c'', []]"
proof -
  let ?f = "parse_source (lit ''a'' @ [cr, nl] @ lit ''b'')"
  have "length (sf_lines ?f) = 2" "line_texts ?f = [lit ''a'', lit ''b'']" by code_simp+
  then show ?thesis
    using source_apply_replacements_spec [of ?f "[(1, 1, [lit ''c'', []])]"] by auto
qed

end
