(* ===== verification/File_Update.thy ===== *)
theory File_Update
  imports Seek_Sequence Text_File
begin

text \<open>
  \<open>apply-patch/src/file_update.rs\<close>: from the chunks of an update hunk and the lines of a
  file to replacements, and from those to the new file. A slice out of range, an insertion
  beyond the end and a subtraction below zero are the value \<open>Panicked\<close> (or None), and the
  theorems show where it cannot occur.
\<close>

section \<open>Computing replacements\<close>

datatype 'e fault = Failed 'e | Panicked

text \<open>
  The walk over a chunk's context lines in \<open>PreserveLineEndings\<close> mode. The result is the
  replacements pushed, with the final \<open>old_start\<close> and \<open>new_start\<close>, or None for a panic.
\<close>

fun context_loop ::
  "nat \<Rightarrow> nat \<Rightarrow> rstr list \<Rightarrow> nat \<Rightarrow> nat \<Rightarrow> (nat \<times> nat) list
   \<Rightarrow> (Replacement list \<times> nat \<times> nat) option" where
  "context_loop start_idx pattern_len new_slice old_start new_start [] = Some ([], old_start, new_start)"
| "context_loop start_idx pattern_len new_slice old_start new_start ((old_context, new_context) # cs) =
     (if pattern_len \<le> old_context \<or> length new_slice \<le> new_context
      then Some ([], old_start, new_start)
      else if old_start \<noteq> old_context \<or> new_start \<noteq> new_context
      then (if old_context < old_start \<or> new_context < new_start then None
            else map_option
                   (\<lambda>(rs, ends).
                     ((start_idx + old_start, old_context - old_start,
                       take (new_context - new_start) (drop new_start new_slice)) # rs, ends))
                   (context_loop start_idx pattern_len new_slice (old_context + 1) (new_context + 1) cs))
      else context_loop start_idx pattern_len new_slice (old_context + 1) (new_context + 1) cs)"

definition preserved_pieces ::
  "nat \<Rightarrow> nat \<Rightarrow> rstr list \<Rightarrow> (nat \<times> nat) list \<Rightarrow> Replacement list option" where
  "preserved_pieces start_idx pattern_len new_slice pairs =
     (case context_loop start_idx pattern_len new_slice 0 0 pairs of
        None \<Rightarrow> None
      | Some (rs, old_start, new_start) \<Rightarrow>
          (if old_start \<noteq> pattern_len \<or> new_start \<noteq> length new_slice
           then (if pattern_len < old_start \<or> length new_slice < new_start then None
                 else Some (rs @ [(start_idx + old_start, pattern_len - old_start,
                                   drop new_start new_slice)]))
           else Some rs))"

definition insertion_index :: "ApplyPatchFileUpdateMode \<Rightarrow> rstr list \<Rightarrow> nat" where
  "insertion_index update_file_mode original_lines =
     (case update_file_mode of
        NormalizeToLf \<Rightarrow>
          (if list_last original_lines = Some [] then length original_lines - 1
           else length original_lines)
      | PreserveLineEndings \<Rightarrow> length original_lines)"

text \<open>The position, pattern and new lines a chunk's old lines are found with: a second search
  leaves out a final empty line.\<close>

definition locate_old_lines ::
  "rstr list \<Rightarrow> nat \<Rightarrow> UpdateFileChunk \<Rightarrow> ApplyPatchFileUpdateMode
   \<Rightarrow> nat option \<times> rstr list \<times> rstr list" where
  "locate_old_lines original_lines line_index chunk update_file_mode =
     (let pattern = old_lines chunk; new_slice = new_lines chunk;
          seek = (\<lambda>p. seek_sequence original_lines p line_index (is_end_of_file chunk) update_file_mode)
      in if seek pattern = None \<and> list_last pattern = Some []
         then let pattern' = butlast pattern;
                  new_slice' = (if list_last new_slice = Some [] then butlast new_slice else new_slice)
              in (seek pattern', pattern', new_slice')
         else (seek pattern, pattern, new_slice))"

definition context_error :: "rstr \<Rightarrow> rstr \<Rightarrow> rstr" where
  "context_error ctx_line path =
     lit ''Failed to find context '' @ quoted ctx_line @ lit '' in '' @ path"

definition old_lines_error :: "UpdateFileChunk \<Rightarrow> rstr \<Rightarrow> rstr" where
  "old_lines_error chunk path =
     lit ''Failed to find expected lines in '' @ path @ lit '':'' @ [nl] @ join [nl] (old_lines chunk)"

text \<open>The position after the chunk's context line, if it has one.\<close>

definition context_position ::
  "rstr list \<Rightarrow> rstr \<Rightarrow> ApplyPatchFileUpdateMode \<Rightarrow> nat \<Rightarrow> UpdateFileChunk \<Rightarrow> rstr fault + nat" where
  "context_position original_lines path update_file_mode line_index chunk =
     (case change_context chunk of
        None \<Rightarrow> Inr line_index
      | Some ctx_line \<Rightarrow>
          (case seek_sequence original_lines [ctx_line] line_index False update_file_mode of
             Some idx \<Rightarrow> Inr (idx + 1)
           | None \<Rightarrow> Inl (Failed (context_error ctx_line path))))"

text \<open>One round of the loop over the chunks: the replacements it pushes and the next
  \<open>line_index\<close>.\<close>

definition chunk_replacements ::
  "rstr list \<Rightarrow> rstr \<Rightarrow> ApplyPatchFileUpdateMode \<Rightarrow> nat \<Rightarrow> UpdateFileChunk
   \<Rightarrow> rstr fault + Replacement list \<times> nat" where
  "chunk_replacements original_lines path update_file_mode line_index chunk =
     bind_result (context_position original_lines path update_file_mode line_index chunk) (\<lambda>line_index.
       if old_lines chunk = []
       then Inr ([(insertion_index update_file_mode original_lines, 0, new_lines chunk)], line_index)
       else case locate_old_lines original_lines line_index chunk update_file_mode of
         (None, _, _) \<Rightarrow> Inl (Failed (old_lines_error chunk path))
       | (Some start_idx, pattern, new_slice) \<Rightarrow>
           (case (case update_file_mode of
                    NormalizeToLf \<Rightarrow> Some [(start_idx, length pattern, new_slice)]
                  | PreserveLineEndings \<Rightarrow>
                      preserved_pieces start_idx (length pattern) new_slice (context_line_indices chunk)) of
              None \<Rightarrow> Inl Panicked
            | Some rs \<Rightarrow> Inr (rs, start_idx + length pattern)))"

fun chunks_loop ::
  "rstr list \<Rightarrow> rstr \<Rightarrow> ApplyPatchFileUpdateMode \<Rightarrow> nat \<Rightarrow> Replacement list
   \<Rightarrow> UpdateFileChunk list \<Rightarrow> rstr fault + Replacement list" where
  "chunks_loop original_lines path update_file_mode line_index replacements [] = Inr replacements"
| "chunks_loop original_lines path update_file_mode line_index replacements (chunk # chunks) =
     bind_result (chunk_replacements original_lines path update_file_mode line_index chunk)
       (\<lambda>(rs, line_index').
         chunks_loop original_lines path update_file_mode line_index' (replacements @ rs) chunks)"

definition compute_replacements ::
  "rstr list \<Rightarrow> rstr \<Rightarrow> UpdateFileChunk list \<Rightarrow> ApplyPatchFileUpdateMode
   \<Rightarrow> rstr fault + Replacement list" where
  "compute_replacements original_lines path chunks update_file_mode =
     bind_result (chunks_loop original_lines path update_file_mode 0 [] chunks)
       (\<lambda>replacements. Inr (sort_key fst replacements))"

section \<open>Applying replacements\<close>

fun remove_times :: "nat \<Rightarrow> nat \<Rightarrow> 'a list \<Rightarrow> 'a list" where
  "remove_times 0 i ls = ls"
| "remove_times (Suc k) i ls =
     remove_times k i (if i < length ls then take i ls @ drop (Suc i) ls else ls)"

text \<open>\<open>Vec::insert\<close> panics beyond the end.\<close>

fun insert_lines :: "nat \<Rightarrow> 'a list \<Rightarrow> 'a list \<Rightarrow> 'a list option" where
  "insert_lines i [] ls = Some ls"
| "insert_lines i (x # xs) ls =
     (if length ls < i then None else insert_lines (Suc i) xs (take i ls @ x # drop i ls))"

fun apply_descending :: "'a list \<Rightarrow> 'a replacement list \<Rightarrow> 'a list option" where
  "apply_descending ls [] = Some ls"
| "apply_descending ls ((start_idx, old_len, new_segment) # rs) =
     (case insert_lines start_idx new_segment (remove_times old_len start_idx ls) of
        None \<Rightarrow> None
      | Some ls' \<Rightarrow> apply_descending ls' rs)"

definition apply_replacements :: "'a list \<Rightarrow> 'a replacement list \<Rightarrow> 'a list option" where
  "apply_replacements lines replacements = apply_descending lines (rev replacements)"

section \<open>The new contents of a file\<close>

text \<open>The part of \<open>derive_new_contents_from_chunks\<close> after the file has been read.\<close>

definition split_lf_lines :: "rstr \<Rightarrow> rstr list" where
  "split_lf_lines contents =
     (let ls = split_char nl contents in if list_last ls = Some [] then butlast ls else ls)"

definition or_panic :: "'a option \<Rightarrow> 'e fault + 'a" where
  "or_panic x = (case x of None \<Rightarrow> Inl Panicked | Some v \<Rightarrow> Inr v)"

definition new_contents_from_chunks ::
  "rstr \<Rightarrow> rstr \<Rightarrow> UpdateFileChunk list \<Rightarrow> ApplyPatchFileUpdateMode \<Rightarrow> rstr fault + rstr" where
  "new_contents_from_chunks original_contents path_text chunks update_file_mode =
     (case update_file_mode of
        NormalizeToLf \<Rightarrow>
          let original_lines = split_lf_lines original_contents
          in bind_result (compute_replacements original_lines path_text chunks update_file_mode)
               (\<lambda>replacements.
                 bind_result (or_panic (apply_replacements original_lines replacements)) (\<lambda>new_lines.
                   Inr (join [nl] (if list_last new_lines = Some [] then new_lines
                                   else new_lines @ [[]]))))
      | PreserveLineEndings \<Rightarrow>
          let source_file = parse_source original_contents
          in bind_result
               (compute_replacements (line_texts source_file) path_text chunks update_file_mode)
               (\<lambda>replacements.
                 bind_result (or_panic (source_apply_replacements source_file replacements))
                   (\<lambda>f. Inr (into_contents f))))"

section \<open>Applying in descending order is splicing\<close>

lemma remove_times_eq: "remove_times k i ls = take i ls @ drop (i + k) ls"
proof (induction k i ls rule: remove_times.induct)
  case (2 k i ls)
  then show ?case by (simp add: min_def add.commute)
qed simp

lemma insert_lines_eq:
  "i \<le> length ls \<Longrightarrow> insert_lines i xs ls = Some (take i ls @ xs @ drop i ls)"
proof (induction i xs ls rule: insert_lines.induct)
  case (2 i x xs ls)
  then show ?case by (simp add: min_def)
qed simp

text \<open>Every start position lies inside the file.\<close>

definition starts_within :: "nat \<Rightarrow> 'l replacement list \<Rightarrow> bool" where
  "starts_within n rs \<longleftrightarrow> (\<forall>(s, k, new) \<in> set rs. s \<le> n)"

lemma apply_descending_append:
  "apply_descending ls (rs @ qs) = Option.bind (apply_descending ls rs) (\<lambda>ls'. apply_descending ls' qs)"
  by (induction ls rs rule: apply_descending.induct) (auto split: option.splits)

lemma apply_replacements_Cons:
  "apply_replacements ls ((s, k, new) # rs) =
     Option.bind (apply_replacements ls rs)
       (\<lambda>ls'. insert_lines s new (remove_times k s ls'))"
  by (cases "apply_replacements ls rs")
     (auto simp: apply_replacements_def apply_descending_append split: option.split)

lemma apply_replacements_total:
  assumes "sorted (map fst rs)" "starts_within (length ls) rs"
  shows "\<exists>ls'. apply_replacements ls rs = Some ls'
    \<and> (\<forall>i. i \<le> length ls \<and> (\<forall>r \<in> set rs. i \<le> fst r) \<longrightarrow> i \<le> length ls' \<and> take i ls' = take i ls)"
  using assms
proof (induction rs)
  case Nil
  then show ?case by (simp add: apply_replacements_def)
next
  case (Cons r rs)
  obtain s k new where r: "r = (s, k, new)" by (cases r)
  from Cons obtain ls' where ls': "apply_replacements ls rs = Some ls'"
      "\<And>i. i \<le> length ls \<Longrightarrow> (\<forall>r \<in> set rs. i \<le> fst r) \<Longrightarrow> i \<le> length ls' \<and> take i ls' = take i ls"
    by (auto simp: starts_within_def)
  from Cons.prems r have s: "s \<le> length ls" "\<forall>r \<in> set rs. s \<le> fst r"
    by (auto simp: starts_within_def)
  with ls'(2) have l: "s \<le> length ls'" "take s ls' = take s ls" by auto
  have "apply_replacements ls (r # rs) = Some (take s ls' @ new @ drop (s + k) ls')"
    using l s(1) insert_lines_eq [of s "take s ls' @ drop (s + k) ls'" new]
    by (simp add: r apply_replacements_Cons ls' remove_times_eq)
  moreover have "i \<le> length (take s ls' @ new @ drop (s + k) ls')
      \<and> take i (take s ls' @ new @ drop (s + k) ls') = take i ls"
    if "i \<le> length ls" "\<forall>r \<in> set (r # rs). i \<le> fst r" for i
    using that l r ls'(2) [of i] by (auto simp: min_def)
  ultimately show ?case by blast
qed

lemma apply_replacements_splice:
  "ordered_within i (length ls) rs \<Longrightarrow>
     apply_replacements ls rs = Some (take i ls @ splice_lines i ls rs)"
proof (induction i "length ls" rs rule: ordered_within.induct)
  case (1 i)
  then show ?case by (simp add: apply_replacements_def)
next
  case (2 i s k new rs)
  then have o: "i \<le> s" "s + k \<le> length ls"
    and rec: "apply_replacements ls rs = Some (take (s + k) ls @ splice_lines (s + k) ls rs)"
    by auto
  have "take s ls = take i ls @ take (s - i) (drop i ls)"
    using o by (metis le_add_diff_inverse take_add)
  then show ?case
    using o by (simp add: apply_replacements_Cons rec remove_times_eq insert_lines_eq min_def)
qed

text \<open>On replacements that are in source order and do not overlap, applying them from
  the last to the first with \<open>remove\<close> and \<open>insert\<close> is the left-to-right splice of the file.\<close>

theorem apply_replacements_is_splice:
  assumes "ordered_within 0 (length lines) rs"
  shows "apply_replacements lines rs = Some (splice_lines 0 lines rs)"
  using apply_replacements_splice [OF assms] by simp

theorem apply_replacements_is_splice_witness:
  "apply_replacements [1, 2, 3, 4 :: int] [(0, 1, [7, 8]), (1, 0, [9]), (3, 1, [])] = Some [7, 8, 9, 2, 3]"
  using apply_replacements_is_splice [of "[1, 2, 3, 4 :: int]" "[(0, 1, [7, 8]), (1, 0, [9]), (3, 1, [])]"]
  by simp

section \<open>Where the replacements lie\<close>

lemma ordered_within_append:
  "ordered_within i m rs \<Longrightarrow> ordered_within m n qs \<Longrightarrow> ordered_within i n (rs @ qs)"
proof (induction i m rs rule: ordered_within.induct)
  case (1 i m)
  then show ?case by (cases qs) auto
qed (auto dest: ordered_within_le)

lemma ordered_within_mono: "ordered_within i m rs \<Longrightarrow> m \<le> n \<Longrightarrow> ordered_within i n rs"
  using ordered_within_append [of i m rs n "[]"] by simp

lemma context_loop_ordered:
  assumes "pairs_increasing old_start new_start cs" "old_start \<le> k" "new_start \<le> length new"
  shows "\<exists>rs i j. context_loop s k new old_start new_start cs = Some (rs, i, j)
    \<and> i \<le> k \<and> j \<le> length new \<and> ordered_within (s + old_start) (s + i) rs"
  using assms
proof (induction s k new old_start new_start cs rule: context_loop.induct)
  case (2 s k new old_start new_start a b cs)
  show ?case
  proof (cases "k \<le> a \<or> length new \<le> b")
    case True
    with 2(4,5) show ?thesis by auto
  next
    case False
    with 2(3) have p: "old_start \<le> a" "new_start \<le> b" "pairs_increasing (a + 1) (b + 1) cs"
      "a + 1 \<le> k" "b + 1 \<le> length new" by auto
    show ?thesis
    proof (cases "old_start \<noteq> a \<or> new_start \<noteq> b")
      case True
      from 2(1) [OF False True _ p(3-5)] p(1,2) obtain rs i j
        where r: "context_loop s k new (a + 1) (b + 1) cs = Some (rs, i, j)"
          "i \<le> k" "j \<le> length new" "ordered_within (s + (a + 1)) (s + i) rs" by auto
      have "ordered_within (s + a) (s + i) rs"
        using r(4) by (cases rs) auto
      moreover have "s + a \<le> s + i" using ordered_within_le [OF r(4)] by simp
      ultimately show ?thesis
        using r p(1,2) False True by simp
    next
      case eq: False
      from 2(2) [OF False eq p(3-5)] obtain rs i j
        where r: "context_loop s k new (a + 1) (b + 1) cs = Some (rs, i, j)"
          "i \<le> k" "j \<le> length new" "ordered_within (s + (a + 1)) (s + i) rs" by auto
      have "ordered_within (s + a) (s + i) rs"
        using r(4) by (cases rs) auto
      with r eq False show ?thesis by simp
    qed
  qed
qed auto

lemma preserved_pieces_ordered:
  assumes "pairs_increasing 0 0 cs"
  shows "\<exists>rs. preserved_pieces s k new cs = Some rs \<and> ordered_within s (s + k) rs"
proof -
  from context_loop_ordered [OF assms, of k new s] obtain rs i j
    where r: "context_loop s k new 0 0 cs = Some (rs, i, j)" "i \<le> k" "j \<le> length new"
      "ordered_within s (s + i) rs" by auto
  have "ordered_within s (s + k) (rs @ [(s + i, k - i, drop j new)])"
    using r by (intro ordered_within_append [OF r(4)]) auto
  then show ?thesis
    using r by (auto simp: preserved_pieces_def)
qed

lemma context_position_bounds:
  assumes "context_position ls path md li c = Inr n" "li \<le> length ls"
  shows "li \<le> n" "n \<le> length ls"
proof -
  have "li \<le> n \<and> n \<le> length ls"
  proof (cases "change_context c")
    case (Some ctx)
    with assms(1) obtain i where "seek_sequence ls [ctx] li False md = Some i" "n = i + 1"
      by (auto simp: context_position_def split: option.splits)
    with seek_sequence_bounds [of ls "[ctx]" li False md i] seek_sequence_start show ?thesis
      by fastforce
  qed (use assms in \<open>auto simp: context_position_def\<close>)
  then show "li \<le> n" "n \<le> length ls" by auto
qed

lemma seek_sequence_within:
  assumes "seek_sequence ls p li eof md = Some i" "li \<le> length ls"
  shows "i + length p \<le> length ls"
  using assms seek_sequence_bounds(2) [OF assms(1)]
  by (cases "p = []") (auto simp: seek_sequence_def)

lemma locate_old_lines_bounds:
  assumes "locate_old_lines ls li c md = (Some i, p, new)" "li \<le> length ls"
  shows "i + length p \<le> length ls" "md = PreserveLineEndings \<Longrightarrow> li \<le> i"
  using assms seek_sequence_within seek_sequence_start
  by (fastforce simp: locate_old_lines_def Let_def split: if_splits)+

lemma chunk_replacements_Inr:
  assumes "chunk_replacements ls path md li c = Inr (rs, li')" "li \<le> length ls"
  obtains (insertion) n where "li \<le> n" "n \<le> length ls" "li' = n"
      "rs = [(insertion_index md ls, 0, new_lines c)]"
  | (whole) i and p new :: "rstr list" where "i + length p \<le> length ls" "li' = i + length p"
      "md = NormalizeToLf" "rs = [(i, length p, new)]"
  | (pieces) i and p new :: "rstr list" where "li \<le> i" "i + length p \<le> length ls" "li' = i + length p"
      "md = PreserveLineEndings" "preserved_pieces i (length p) new (context_line_indices c) = Some rs"
proof -
  from assms(1) obtain n where n: "context_position ls path md li c = Inr n"
    by (auto simp: chunk_replacements_def bind_result_Inr)
  note b = context_position_bounds [OF n assms(2)]
  show thesis
  proof (cases "old_lines c = []")
    case True
    with assms(1) n b show ?thesis by (auto simp: chunk_replacements_def intro: insertion)
  next
    case False
    obtain i p new where l: "locate_old_lines ls n c md = (i, p, new)" by (metis prod_cases3)
    from assms(1) n False l obtain j where j: "i = Some j"
      by (auto simp: chunk_replacements_def split: option.splits)
    note lb = locate_old_lines_bounds [OF l [unfolded j] b(2)]
    show thesis
    proof (cases md)
      case NormalizeToLf
      with assms(1) n False l j lb(1) show ?thesis
        by (intro whole [of j p new]) (auto simp: chunk_replacements_def)
    next
      case PreserveLineEndings
      with assms(1) n False l j lb b(1) show ?thesis
        by (intro pieces [of j p new]) (auto simp: chunk_replacements_def split: option.splits)
    qed
  qed
qed

lemma chunk_replacements_not_panicked:
  assumes "chunk_ok c"
  shows "chunk_replacements ls path md li c \<noteq> Inl Panicked"
proof -
  have "\<exists>rs. preserved_pieces i k new (context_line_indices c) = Some rs" for i k new
    using preserved_pieces_ordered assms unfolding chunk_ok_def by blast
  then obtain pp where pp: "preserved_pieces i k new (context_line_indices c) = Some (pp i k new)" for i k new
    by metis
  have "context_position ls path md li c \<noteq> Inl Panicked"
    by (simp add: context_position_def split: option.splits)
  then show ?thesis
    by (auto simp: chunk_replacements_def bind_result_def pp
        split: sum.splits option.splits ApplyPatchFileUpdateMode.splits prod.splits)
qed

lemma chunks_loop_not_panicked:
  "\<forall>c \<in> set cs. chunk_ok c \<Longrightarrow> chunks_loop ls path md li rs cs \<noteq> Inl Panicked"
proof (induction cs arbitrary: li rs)
  case (Cons c cs)
  with chunk_replacements_not_panicked [of c ls path md li] show ?case
    by (auto simp: bind_result_def split: sum.splits prod.splits)
qed simp

lemma compute_replacements_not_panicked:
  "\<forall>c \<in> set cs. chunk_ok c \<Longrightarrow> compute_replacements ls path cs md \<noteq> Inl Panicked"
  using chunks_loop_not_panicked [of cs ls path md 0 "[]"]
  by (auto simp: compute_replacements_def bind_result_def split: sum.splits)

section \<open>Sorting the replacements\<close>

text \<open>A stable sort turns a list whose pairs are related one way or the other, as their keys
  say, into a list whose pairs are related in order.\<close>

lemma sorted_wrt_insort_key:
  assumes "sorted_wrt R xs" "sorted (map f xs)"
    and "\<forall>y \<in> set xs. (f x \<le> f y \<longrightarrow> R x y) \<and> (f y < f x \<longrightarrow> R y x)"
  shows "sorted_wrt R (insort_key f x xs)"
  using assms by (induction xs) (auto simp: set_insort_key)

lemma sorted_wrt_sort_key:
  "sorted_wrt (\<lambda>x y. (f x \<le> f y \<longrightarrow> R x y) \<and> (f y < f x \<longrightarrow> R y x)) xs \<Longrightarrow>
     sorted_wrt R (sort_key f xs)"
  by (induction xs) (auto intro: sorted_wrt_insort_key)

definition before :: "'l replacement \<Rightarrow> 'l replacement \<Rightarrow> bool" where
  "before r q \<longleftrightarrow> fst r + fst (snd r) \<le> fst q"

lemma ordered_within_iff:
  "ordered_within i n rs \<longleftrightarrow> i \<le> n \<and> sorted_wrt before rs
     \<and> (\<forall>(s, k, new) \<in> set rs. i \<le> s \<and> s + k \<le> n)"
proof (induction i n rs rule: ordered_within.induct)
  case (2 i n s k new rs)
  then show ?case by (fastforce simp: before_def)
qed simp

text \<open>The replacements pushed so far in \<open>PreserveLineEndings\<close> mode: those of located lines
  are ordered up to \<open>line_index\<close>, the others insert at the end of the file.\<close>

definition either_way :: "'l replacement \<Rightarrow> 'l replacement \<Rightarrow> bool" where
  "either_way x y \<longleftrightarrow> (fst x \<le> fst y \<longrightarrow> before x y) \<and> (fst y < fst x \<longrightarrow> before y x)"

definition at_end :: "nat \<Rightarrow> 'l replacement \<Rightarrow> bool" where
  "at_end n r \<longleftrightarrow> fst r = n \<and> fst (snd r) = 0"

definition pushed_ok :: "nat \<Rightarrow> nat \<Rightarrow> 'l replacement list \<Rightarrow> bool" where
  "pushed_ok li n rs \<longleftrightarrow> li \<le> n \<and> sorted_wrt either_way rs
     \<and> (\<forall>r \<in> set rs. fst r + fst (snd r) \<le> li \<or> at_end n r)"

lemma pushed_ok_append:
  assumes "pushed_ok li n rs" "ordered_within li li' qs" "li' \<le> n"
  shows "pushed_ok li' n (rs @ qs)"
proof -
  have q: "sorted_wrt before qs" "\<forall>r \<in> set qs. li \<le> fst r \<and> fst r + fst (snd r) \<le> li'" "li \<le> li'"
    using assms(2) by (auto simp: ordered_within_iff)
  have "sorted_wrt either_way qs"
    by (rule sorted_wrt_mono_rel [OF _ q(1)]) (auto simp: either_way_def before_def)
  moreover have "either_way r x" if "r \<in> set rs" "x \<in> set qs" for r x
    using that assms(1,3) q(2,3)
    by (fastforce simp: pushed_ok_def either_way_def before_def at_end_def)
  ultimately show ?thesis
    using assms q by (fastforce simp: pushed_ok_def sorted_wrt_append)
qed

lemma pushed_ok_insertion:
  assumes "pushed_ok li n rs" "li \<le> li'" "li' \<le> n"
  shows "pushed_ok li' n (rs @ [(n, 0, new)])"
proof -
  have "either_way r (n, 0, new)" if "r \<in> set rs" for r
    using that assms by (fastforce simp: pushed_ok_def either_way_def before_def at_end_def)
  then show ?thesis
    using assms by (fastforce simp: pushed_ok_def sorted_wrt_append at_end_def)
qed

lemma pushed_ok_later: "pushed_ok li n rs \<Longrightarrow> li \<le> li' \<Longrightarrow> li' \<le> n \<Longrightarrow> pushed_ok li' n rs"
  using pushed_ok_append [of li n rs li' "[]"] by simp

lemma pushed_ok_sort:
  assumes "pushed_ok li n rs"
  shows "ordered_within 0 n (sort_key fst rs)"
proof -
  have "sorted_wrt (\<lambda>x y. (fst x \<le> fst y \<longrightarrow> before x y) \<and> (fst y < fst x \<longrightarrow> before y x)) rs"
    using assms by (simp add: pushed_ok_def either_way_def [abs_def])
  then have "sorted_wrt before (sort_key fst rs)" by (rule sorted_wrt_sort_key)
  with assms show ?thesis
    by (fastforce simp: ordered_within_iff pushed_ok_def at_end_def)
qed

lemma chunks_loop_pushed_ok:
  assumes "chunks_loop ls path PreserveLineEndings li rs cs = Inr qs"
    and "pushed_ok li (length ls) rs" "\<forall>c \<in> set cs. chunk_ok c"
  shows "\<exists>li'. pushed_ok li' (length ls) qs"
  using assms
proof (induction cs arbitrary: li rs)
  case (Cons c cs)
  from Cons.prems(1) obtain new li' where
    c: "chunk_replacements ls path PreserveLineEndings li c = Inr (new, li')"
    and rest: "chunks_loop ls path PreserveLineEndings li' (rs @ new) cs = Inr qs"
    by (auto simp: bind_result_Inr)
  have li: "li \<le> length ls" using Cons.prems(2) by (simp add: pushed_ok_def)
  have "pushed_ok li' (length ls) (rs @ new)"
  proof (rule chunk_replacements_Inr [OF c li])
    fix n assume "li \<le> n" "n \<le> length ls" "li' = n"
      "new = [(insertion_index PreserveLineEndings ls, 0, new_lines c)]"
    then show ?thesis using Cons.prems(2) by (simp add: insertion_index_def pushed_ok_insertion)
  next
    fix i and p ns :: "rstr list"
    assume a: "li \<le> i" "i + length p \<le> length ls" "li' = i + length p"
      "preserved_pieces i (length p) ns (context_line_indices c) = Some new"
    have "pairs_increasing 0 0 (context_line_indices c)"
      using Cons.prems(3) by (simp add: chunk_ok_def)
    from preserved_pieces_ordered [OF this, of i "length p" ns] a(4)
    have "ordered_within i li' new" by (simp add: a(3))
    moreover have "pushed_ok i (length ls) rs" using a Cons.prems(2) by (auto intro: pushed_ok_later)
    ultimately show ?thesis using a by (intro pushed_ok_append) auto
  qed simp
  with Cons.IH [OF rest] Cons.prems(3) show ?case by simp
qed auto

lemma computed_ordered:
  assumes "compute_replacements original_lines path chunks PreserveLineEndings = Inr rs"
    and "\<forall>c \<in> set chunks. chunk_ok c"
  shows "ordered_within 0 (length original_lines) rs"
proof -
  from assms(1) obtain qs
    where "chunks_loop original_lines path PreserveLineEndings 0 [] chunks = Inr qs"
      and rs: "rs = sort_key fst qs"
    by (auto simp: compute_replacements_def bind_result_Inr)
  with chunks_loop_pushed_ok [OF _ _ assms(2)] show ?thesis
    unfolding rs by (metis pushed_ok_sort empty_iff le0 list.set(1) pushed_ok_def sorted_wrt.simps(1))
qed

text \<open>in \<open>PreserveLineEndings\<close> mode, whenever the chunks are ones the parser can build,
  the replacements computed for a file lie inside it, in source order and without overlap:
  the \<open>debug_assert\<close> of \<open>SourceFile::apply_replacements\<close> always holds.\<close>

theorem compute_replacements_ordered:
  assumes "compute_replacements original_lines path chunks PreserveLineEndings = Inr rs"
    and "\<forall>c \<in> set chunks. chunk_ok c"
  shows "ordered_within 0 (length original_lines) rs"
  using assms by (rule computed_ordered)

section \<open>Updates never panic\<close>

lemma insertion_index_le: "insertion_index md ls \<le> length ls"
  by (auto simp: insertion_index_def split: ApplyPatchFileUpdateMode.split)

lemma chunks_loop_starts_within:
  "chunks_loop ls path NormalizeToLf li rs cs = Inr qs \<Longrightarrow> li \<le> length ls \<Longrightarrow>
     starts_within (length ls) rs \<Longrightarrow> starts_within (length ls) qs"
proof (induction cs arbitrary: li rs)
  case (Cons c cs)
  from Cons.prems(1) obtain new li' where
    c: "chunk_replacements ls path NormalizeToLf li c = Inr (new, li')"
    and rest: "chunks_loop ls path NormalizeToLf li' (rs @ new) cs = Inr qs"
    by (auto simp: bind_result_Inr)
  have "li' \<le> length ls \<and> starts_within (length ls) new"
    by (rule chunk_replacements_Inr [OF c Cons.prems(2)])
       (auto simp: starts_within_def insertion_index_le)
  with Cons.IH [OF rest] Cons.prems(3) show ?case by (auto simp: starts_within_def)
qed simp

lemma compute_replacements_lf:
  assumes "compute_replacements ls path cs NormalizeToLf = Inr rs"
  shows "sorted (map fst rs)" "starts_within (length ls) rs"
proof -
  from assms obtain qs where "chunks_loop ls path NormalizeToLf 0 [] cs = Inr qs"
    and rs: "rs = sort_key fst qs"
    by (auto simp: compute_replacements_def bind_result_Inr)
  then have "starts_within (length ls) qs"
    using chunks_loop_starts_within by (fastforce simp: starts_within_def)
  then show "sorted (map fst rs)" "starts_within (length ls) rs"
    by (simp_all add: rs starts_within_def)
qed

text \<open>Updating a file never panics: chunks that the parser can build lead to new contents or
  to an error message, whatever the file holds.\<close>

lemma new_contents_never_panics:
  assumes "\<forall>c \<in> set chunks. chunk_ok c"
  shows "new_contents_from_chunks original_contents path chunks md \<noteq> Inl Panicked"
proof (cases md)
  case NormalizeToLf
  let ?ls = "split_lf_lines original_contents"
  have "or_panic (apply_replacements ?ls rs) \<noteq> Inl Panicked"
    if "compute_replacements ?ls path chunks md = Inr rs" for rs
    using apply_replacements_total [of rs ?ls] compute_replacements_lf that
    by (auto simp: NormalizeToLf or_panic_def)
  with compute_replacements_not_panicked [OF assms, of ?ls path md] NormalizeToLf show ?thesis
    by (auto simp: new_contents_from_chunks_def bind_result_def Let_def split: sum.splits)
next
  case PreserveLineEndings
  let ?f = "parse_source original_contents"
  have "or_panic (source_apply_replacements ?f rs) \<noteq> Inl Panicked"
    if "compute_replacements (line_texts ?f) path chunks md = Inr rs" for rs
    using computed_ordered [of "line_texts ?f" path chunks rs] assms that
    by (simp add: PreserveLineEndings or_panic_def line_texts_def source_apply_replacements_splice)
  with compute_replacements_not_panicked [OF assms, of "line_texts ?f" path md] PreserveLineEndings
  show ?thesis
    by (auto simp: new_contents_from_chunks_def bind_result_def Let_def split: sum.splits)
qed

theorem compute_replacements_ordered_witness:
  "ordered_within 0 (length [lit ''a'', lit ''b'']) [(1, 0, [lit ''c'']), (2, 0, [lit ''z''])]"
proof -
  let ?c = "push_context_line (lit ''b'') (default_chunk\<lparr>new_lines := [lit ''c'']\<rparr>)"
  let ?d = "default_chunk\<lparr>new_lines := [lit ''z'']\<rparr>"
  have "compute_replacements [lit ''a'', lit ''b''] [] [?c, ?d] PreserveLineEndings
      = Inr [(1, 0, [lit ''c'']), (2, 0, [lit ''z''])]"
    by code_simp
  moreover have "\<forall>c \<in> set [?c, ?d]. chunk_ok c"
    by (simp add: chunk_ok_def default_chunk_def push_context_line_def)
  ultimately show ?thesis by (rule compute_replacements_ordered)
qed

section \<open>What a located chunk does\<close>

text \<open>The new lines of a chunk with every context line as the file has it: the region of
  \<open>k\<close> lines at \<open>s\<close> becomes this.\<close>

fun merge_context ::
  "nat \<Rightarrow> nat \<Rightarrow> 'l list \<Rightarrow> 'l list \<Rightarrow> nat \<Rightarrow> (nat \<times> nat) list \<Rightarrow> 'l list" where
  "merge_context s k ls new n [] = drop n new"
| "merge_context s k ls new n ((a, b) # cs) =
     (if k \<le> a \<or> length new \<le> b then drop n new
      else take (b - n) (drop n new) @ [ls ! (s + a)] @ merge_context s k ls new (b + 1) cs)"

lemma splice_lines_step:
  "i < length ls \<Longrightarrow> ordered_within (Suc i) n rs \<Longrightarrow>
     splice_lines i ls rs = ls ! i # splice_lines (Suc i) ls rs"
proof (cases rs)
  case (Cons r rs')
  assume i: "i < length ls" and o: "ordered_within (Suc i) n rs"
  obtain s k new where r: "r = (s, k, new)" by (cases r)
  have "take (s - i) (drop i ls) = ls ! i # take (s - Suc i) (drop (Suc i) ls)"
    using i o Cons r by (simp add: Cons_nth_drop_Suc [symmetric] take_Cons' )
  then show ?thesis by (simp add: Cons r)
qed (simp add: Cons_nth_drop_Suc)

lemma context_loop_merge:
  assumes "context_loop s k new os ns cs = Some (rs, i, j)"
    and "pairs_increasing os ns cs" "os \<le> k" "ns \<le> length new" "s + k \<le> length ls"
  shows "splice_lines (s + os) (take (s + k) ls)
      (rs @ (if i \<noteq> k \<or> j \<noteq> length new then [(s + i, k - i, drop j new)] else []))
    = merge_context s k ls new ns cs"
  using assms
proof (induction s k new os ns cs arbitrary: rs rule: context_loop.induct)
  case (2 s k new os ns a b cs)
  let ?tail = "if i \<noteq> k \<or> j \<noteq> length new then [(s + i, k - i, drop j new)] else []"
  show ?case
  proof (cases "k \<le> a \<or> length new \<le> b")
    case False
    with 2 have p: "os \<le> a" "ns \<le> b" "pairs_increasing (a + 1) (b + 1) cs"
      "a + 1 \<le> k" "b + 1 \<le> length new" by auto
    from context_loop_ordered [OF p(3-5), of s] obtain rs' i' j'
      where r: "context_loop s k new (a + 1) (b + 1) cs = Some (rs', i', j')"
        "i' \<le> k" "ordered_within (s + (a + 1)) (s + i') rs'" by auto
    with 2(3) False p have ij: "i' = i" "j' = j" by (auto split: if_splits)
    have o: "ordered_within (Suc (s + a)) (s + k) (rs' @ ?tail)"
      using r(2,3) by (intro ordered_within_append [of _ "s + i"]) (auto simp: ij)
    have step: "splice_lines (s + a) (take (s + k) ls) (rs' @ ?tail) =
        ls ! (s + a) # splice_lines (s + (a + 1)) (take (s + k) ls) (rs' @ ?tail)"
      using splice_lines_step [OF _ o, of "take (s + k) ls"] p(4) 2(7) by simp
    show ?thesis
    proof (cases "os \<noteq> a \<or> ns \<noteq> b")
      case True
      have ih: "splice_lines (s + (a + 1)) (take (s + k) ls) (rs' @ ?tail) = merge_context s k ls new (b + 1) cs"
        using 2(1) [OF False True _ _ p(3-5) 2(7)] r(1) p(1,2) by (simp add: ij)
      have "rs = (s + os, a - os, take (b - ns) (drop ns new)) # rs'"
        using 2(3) False True r(1) p(1,2) by (auto simp: ij)
      then show ?thesis using step ih False p(1) by simp
    next
      case eq: False
      have ih: "splice_lines (s + (a + 1)) (take (s + k) ls) (rs' @ ?tail) = merge_context s k ls new (b + 1) cs"
        using 2(2) [OF False eq _ p(3-5) 2(7)] r(1) by (simp add: ij)
      have "rs = rs'" using 2(3) False eq r(1) by (auto simp: ij)
      then show ?thesis using step ih False eq by simp
    qed
  qed (use 2 in auto)
qed auto

lemma merge_context_exact:
  "pairs_increasing m n cs \<Longrightarrow> \<forall>(a, b) \<in> set cs. a < k \<and> b < length new \<longrightarrow> ls ! (s + a) = new ! b \<Longrightarrow>
     merge_context s k ls new n cs = drop n new"
proof (induction s k ls new n cs arbitrary: m rule: merge_context.induct)
  case (2 s k ls new n a b cs)
  show ?case
  proof (cases "k \<le> a \<or> length new \<le> b")
    case False
    with 2 have "merge_context s k ls new (b + 1) cs = drop (b + 1) new" "ls ! (s + a) = new ! b" "n \<le> b"
      by auto
    moreover have "take (b - n) (drop n new) @ drop b new = drop n new"
      using \<open>n \<le> b\<close> by (metis append_take_drop_id drop_drop le_add_diff_inverse2)
    ultimately show ?thesis using False by (simp add: Cons_nth_drop_Suc)
  qed simp
qed simp

text \<open>In \<open>PreserveLineEndings\<close> mode the replacements pushed for a chunk found at
  \<open>start_idx\<close> turn the matched lines into the chunk's new lines, except that every context line
  stays exactly as the file has it; when the context lines of the file and the chunk are
  equal the result is the chunk's new lines, as in \<open>NormalizeToLf\<close> mode.\<close>

theorem preserved_pieces_merge:
  assumes "pairs_increasing 0 0 pairs" "start_idx + k \<le> length lines"
  shows "\<exists>rs. preserved_pieces start_idx k new_slice pairs = Some rs
    \<and> splice_lines start_idx (take (start_idx + k) lines) rs = merge_context start_idx k lines new_slice 0 pairs
    \<and> ((\<forall>(a, b) \<in> set pairs. a < k \<and> b < length new_slice \<longrightarrow> lines ! (start_idx + a) = new_slice ! b)
       \<longrightarrow> splice_lines start_idx (take (start_idx + k) lines) rs = new_slice)"
proof -
  from context_loop_ordered [OF assms(1), of k new_slice start_idx] obtain rs i j
    where r: "context_loop start_idx k new_slice 0 0 pairs = Some (rs, i, j)" "i \<le> k" "j \<le> length new_slice"
    by auto
  have m: "splice_lines start_idx (take (start_idx + k) lines)
      (rs @ (if i \<noteq> k \<or> j \<noteq> length new_slice then [(start_idx + i, k - i, drop j new_slice)] else []))
      = merge_context start_idx k lines new_slice 0 pairs"
    using context_loop_merge [OF r(1) assms(1) _ _ assms(2)] by simp
  with r merge_context_exact [OF assms(1), of k new_slice lines start_idx] show ?thesis
    by (intro exI [of _ "rs @ (if i \<noteq> k \<or> j \<noteq> length new_slice
          then [(start_idx + i, k - i, drop j new_slice)] else [])"])
       (simp add: preserved_pieces_def)
qed

theorem preserved_pieces_merge_witness:
  "\<exists>rs. preserved_pieces 1 2 [lit ''p'', lit ''q'', lit ''r''] [(0, 1)] = Some rs
    \<and> splice_lines 1 (take 3 [lit ''a'', lit ''q '', lit ''c'', lit ''d'']) rs
      = [lit ''p'', lit ''q '', lit ''r'']"
  using preserved_pieces_merge
    [of "[(0, 1)]" 1 2 "[lit ''a'', lit ''q '', lit ''c'', lit ''d'']" "[lit ''p'', lit ''q'', lit ''r'']"]
  by auto

end
