(* ===== verification/Incremental.thy ===== *)
theory Incremental
  imports Rust_Prelude
begin

text \<open>
  The contract of a consumer that is fed text in pieces and may fail: what it answers and
  the state it reaches depend on the text alone, not on how the text was cut. A piece
  after an error is not fed, as callers propagate the error with \<open>?\<close>.
\<close>

definition then_feed ::
  "('e + 'o) \<times> 's \<Rightarrow> ('s \<Rightarrow> ('e + 'p) \<times> 's) \<Rightarrow> ('e + 'p) \<times> 's" where
  "then_feed r f = (case r of (Inl e, s) \<Rightarrow> (Inl e, s) | (Inr _, s) \<Rightarrow> f s)"

lemma then_feed_simps [simp]:
  "then_feed (Inl e, s) f = (Inl e, s)"
  "then_feed (Inr x, s) f = f s"
  by (simp_all add: then_feed_def)

lemma then_feed_assoc: "then_feed (then_feed r f) g = then_feed r (\<lambda>s. then_feed (f s) g)"
  by (auto simp: then_feed_def split: prod.splits sum.splits)

fun feed_all :: "('s \<Rightarrow> rstr \<Rightarrow> ('e + 'o) \<times> 's) \<Rightarrow> 's \<Rightarrow> rstr list \<Rightarrow> ('e + 'o) \<times> 's" where
  "feed_all feed s [] = feed s []"
| "feed_all feed s (c # cs) = then_feed (feed s c) (\<lambda>s'. feed_all feed s' cs)"

locale incremental =
  fixes feed :: "'s \<Rightarrow> rstr \<Rightarrow> ('e + 'o) \<times> 's"
  assumes feed_append: "feed s (a @ b) = then_feed (feed s a) (\<lambda>s'. feed s' b)"
begin

lemma feed_all_concat: "feed_all feed s cs = feed s (concat cs)"
  by (induction cs arbitrary: s) (simp_all add: feed_append)

lemma feed_all_cong: "concat cs = concat ds \<Longrightarrow> feed_all feed s cs = feed_all feed s ds"
  by (simp add: feed_all_concat)

end

end
