(* ===== verification/Patch_Streaming.thy ===== *)
theory Patch_Streaming
  imports Patch_Syntax Incremental
begin

text \<open>
  \<open>apply-patch/src/streaming_parser.rs\<close>: the line-oriented state machine that turns patch
  text, arriving in arbitrary pieces, into hunks. Every operation returns its
  \<open>Result\<close> together with the state it leaves behind, since the code keeps the state
  after an error. The model has one definition per mode of \<open>process_line\<close>.
\<close>

section \<open>State\<close>

datatype StreamingParserMode =
    NotStarted
  | StartedPatch
  | InAddFile
  | InDeleteFile
  | InUpdateFile (hunk_line_number: nat)
  | EndedPatch

record StreamingParserState =
  mode :: StreamingParserMode
  hunks :: "Hunk list"
  environment_id :: "rstr option"

record StreamingPatchParser =
  line_buffer :: rstr
  state :: StreamingParserState
  line_number :: nat

definition default_parser :: StreamingPatchParser where
  "default_parser =
     \<lparr>line_buffer = [], state = \<lparr>mode = NotStarted, hunks = [], environment_id = None\<rparr>,
      line_number = 0\<rparr>"

abbreviation p_mode :: "StreamingPatchParser \<Rightarrow> StreamingParserMode" where
  "p_mode p \<equiv> mode (state p)"

abbreviation p_hunks :: "StreamingPatchParser \<Rightarrow> Hunk list" where
  "p_hunks p \<equiv> hunks (state p)"

abbreviation set_mode :: "StreamingParserMode \<Rightarrow> StreamingPatchParser \<Rightarrow> StreamingPatchParser" where
  "set_mode m p \<equiv> p\<lparr>state := (state p)\<lparr>mode := m\<rparr>\<rparr>"

abbreviation set_hunks :: "Hunk list \<Rightarrow> StreamingPatchParser \<Rightarrow> StreamingPatchParser" where
  "set_hunks hs p \<equiv> p\<lparr>state := (state p)\<lparr>hunks := hs\<rparr>\<rparr>"

section \<open>Error messages\<close>

definition bad_header_error :: "rstr \<Rightarrow> nat \<Rightarrow> ParseError" where
  "bad_header_error trimmed n =
     InvalidHunkError (quoted trimmed @ lit '' is not a valid hunk header. Valid hunk headers: ''
       @ quoted (lit ''*** Add File: {path}'') @ lit '', '' @ quoted (lit ''*** Delete File: {path}'')
       @ lit '', '' @ quoted (lit ''*** Update File: {path}'')) n"

definition unexpected_line_error :: "rstr \<Rightarrow> nat \<Rightarrow> ParseError" where
  "unexpected_line_error line n =
     InvalidHunkError (lit ''Unexpected line found in update hunk: '' @ quoted line
       @ lit ''. Every line should start with '' @ quoted (lit '' '') @ lit '' (context line), ''
       @ quoted (lit ''+'') @ lit '' (added line), or '' @ quoted (lit ''-'')
       @ lit '' (removed line)'') n"

definition expected_context_error :: "rstr \<Rightarrow> nat \<Rightarrow> ParseError" where
  "expected_context_error line n =
     InvalidHunkError (lit ''Expected update hunk to start with a @@ context marker, got: ''
       @ quoted line) n"

definition no_lines_error :: "nat \<Rightarrow> ParseError" where
  "no_lines_error n = InvalidHunkError (lit ''Update hunk does not contain any lines'') n"

section \<open>Hunk headers and the end of the patch\<close>

definition ensure_update_hunk_is_not_empty ::
  "StreamingPatchParser \<Rightarrow> rstr \<Rightarrow> ParseError + unit" where
  "ensure_update_hunk_is_not_empty p line =
     (case list_last (p_hunks p) of
        Some (UpdateFile path _ chunks) \<Rightarrow>
          (case (chunks, p_mode p) of
             ([], InUpdateFile n) \<Rightarrow>
               Inl (InvalidHunkError
                 (lit ''Update file hunk for path '' @ quoted path @ lit '' is empty'') n)
           | _ \<Rightarrow>
               (if opt_is_some_and chunk_is_empty (list_last chunks)
                then if line = END_PATCH_MARKER then Inl (no_lines_error (line_number p))
                     else Inl (unexpected_line_error line (line_number p))
                else Inr ()))
      | _ \<Rightarrow> Inr ())"

text \<open>Push a hunk and enter its mode, once the hunk before it is known not to be empty.\<close>

definition start_hunk ::
  "StreamingPatchParser \<Rightarrow> rstr \<Rightarrow> Hunk list \<Rightarrow> StreamingParserMode
   \<Rightarrow> (ParseError + bool) \<times> StreamingPatchParser" where
  "start_hunk p trimmed new m =
     (case ensure_update_hunk_is_not_empty p trimmed of
        Inl e \<Rightarrow> (Inl e, p)
      | Inr _ \<Rightarrow> (Inr True, set_mode m (set_hunks (p_hunks p @ new) p)))"

definition handle_environment_id ::
  "StreamingPatchParser \<Rightarrow> rstr \<Rightarrow> (ParseError + bool) \<times> StreamingPatchParser" where
  "handle_environment_id p value =
     (if environment_id (state p) \<noteq> None
      then (Inl (InvalidPatchError
              (lit ''apply_patch environment_id cannot be specified more than once'')), p)
      else if trim value = []
      then (Inl (InvalidPatchError (lit ''apply_patch environment_id cannot be empty'')), p)
      else (Inr True, p\<lparr>state := (state p)\<lparr>environment_id := Some (trim value)\<rparr>\<rparr>))"

definition handle_hunk_headers_and_end_patch ::
  "StreamingPatchParser \<Rightarrow> rstr \<Rightarrow> (ParseError + bool) \<times> StreamingPatchParser" where
  "handle_hunk_headers_and_end_patch p trimmed =
     (if p_mode p = StartedPatch \<and> starts_with ENVIRONMENT_ID_MARKER trimmed
      then handle_environment_id p (drop (length ENVIRONMENT_ID_MARKER) trimmed)
      else if trimmed = END_PATCH_MARKER then start_hunk p trimmed [] EndedPatch
      else case strip_prefix ADD_FILE_MARKER trimmed of
        Some path \<Rightarrow> start_hunk p trimmed [AddFile path []] InAddFile
      | None \<Rightarrow>
      (case strip_prefix DELETE_FILE_MARKER trimmed of
        Some path \<Rightarrow> start_hunk p trimmed [DeleteFile path] InDeleteFile
      | None \<Rightarrow>
      (case strip_prefix UPDATE_FILE_MARKER trimmed of
        Some path \<Rightarrow>
          start_hunk p trimmed [UpdateFile path None []] (InUpdateFile (line_number p))
      | None \<Rightarrow> (Inr False, p))))"

section \<open>One line, by mode\<close>

type_synonym step_result = "(ParseError + unit) \<times> StreamingPatchParser"

definition process_not_started :: "StreamingPatchParser \<Rightarrow> rstr \<Rightarrow> step_result" where
  "process_not_started p line =
     (if trim line = BEGIN_PATCH_MARKER then (Inr (), set_mode StartedPatch p)
      else (Inl FIRST_LINE_ERROR, p))"

text \<open>Try the headers first; otherwise continue with the mode's own lines.\<close>

definition headers_or ::
  "StreamingPatchParser \<Rightarrow> rstr \<Rightarrow> step_result \<Rightarrow> step_result" where
  "headers_or p trimmed rest =
     (case handle_hunk_headers_and_end_patch p trimmed of
        (Inl e, p') \<Rightarrow> (Inl e, p')
      | (Inr True, p') \<Rightarrow> (Inr (), p')
      | (Inr False, _) \<Rightarrow> rest)"

definition process_started :: "StreamingPatchParser \<Rightarrow> rstr \<Rightarrow> step_result" where
  "process_started p line =
     headers_or p (trim line) (Inl (bad_header_error (trim line) (line_number p)), p)"

definition process_add_file :: "StreamingPatchParser \<Rightarrow> rstr \<Rightarrow> step_result" where
  "process_add_file p line =
     headers_or p (trim line)
       (case (strip_prefix (lit ''+'') line, list_last (p_hunks p)) of
          (Some line_to_add, Some (AddFile path contents)) \<Rightarrow>
            (Inr (), set_hunks (butlast (p_hunks p) @ [AddFile path (contents @ line_to_add @ [nl])]) p)
        | _ \<Rightarrow> (Inl (bad_header_error (trim line) (line_number p)), p))"

definition process_delete_file :: "StreamingPatchParser \<Rightarrow> rstr \<Rightarrow> step_result" where
  "process_delete_file p line =
     headers_or p (trim line) (Inl (bad_header_error (trim line) (line_number p)), p)"

definition is_context_marker :: "rstr \<Rightarrow> bool" where
  "is_context_marker l \<longleftrightarrow> l = EMPTY_CHANGE_CONTEXT_MARKER \<or> starts_with CHANGE_CONTEXT_MARKER l"

text \<open>Edit the last chunk, after opening one when there is none.\<close>

definition edit_chunk ::
  "(UpdateFileChunk \<Rightarrow> UpdateFileChunk) \<Rightarrow> UpdateFileChunk list \<Rightarrow> UpdateFileChunk list" where
  "edit_chunk f chunks = map_last f (if chunks = [] then [default_chunk] else chunks)"

definition update_hunk_line ::
  "nat \<Rightarrow> rstr \<Rightarrow> rstr option \<Rightarrow> UpdateFileChunk list
   \<Rightarrow> ParseError + rstr option \<times> UpdateFileChunk list" where
  "update_hunk_line n line move_path chunks =
     (let update_line = trim_end line;
          after_eof = opt_is_some_and is_end_of_file (list_last chunks);
          last_empty = opt_is_some_and chunk_is_empty (list_last chunks)
      in if after_eof \<and> update_line = [] then Inr (move_path, chunks)
         else if after_eof \<and> \<not> is_context_marker update_line then Inl (expected_context_error line n)
         else if chunks = [] \<and> move_path = None \<and> starts_with MOVE_TO_MARKER update_line
         then Inr (Some (drop (length MOVE_TO_MARKER) update_line), chunks)
         else if is_context_marker update_line \<and> last_empty then Inl (unexpected_line_error line n)
         else if update_line = EMPTY_CHANGE_CONTEXT_MARKER
         then Inr (move_path, chunks @ [default_chunk])
         else case strip_prefix CHANGE_CONTEXT_MARKER update_line of
           Some ctx \<Rightarrow> Inr (move_path, chunks @ [default_chunk\<lparr>change_context := Some ctx\<rparr>])
         | None \<Rightarrow>
         (if update_line = EOF_MARKER
          then if last_empty then Inl (no_lines_error n)
               else Inr (move_path, map_last (\<lambda>c. c\<lparr>is_end_of_file := True\<rparr>) chunks)
          else case line of
            [] \<Rightarrow> Inr (move_path, edit_chunk (push_context_line []) chunks)
          | c # rest \<Rightarrow>
              (if c = 32 then Inr (move_path, edit_chunk (push_context_line rest) chunks)
               else if c = 43
               then Inr (move_path, edit_chunk (\<lambda>k. k\<lparr>new_lines := new_lines k @ [rest]\<rparr>) chunks)
               else if c = 45
               then Inr (move_path, edit_chunk (\<lambda>k. k\<lparr>old_lines := old_lines k @ [rest]\<rparr>) chunks)
               else if opt_is_some_and (\<lambda>k. \<not> chunk_is_empty k) (list_last chunks)
               then Inl (expected_context_error line n)
               else Inl (unexpected_line_error line n))))"

definition process_update_file :: "StreamingPatchParser \<Rightarrow> rstr \<Rightarrow> step_result" where
  "process_update_file p line =
     headers_or p (trim_end line)
       (case list_last (p_hunks p) of
          Some (UpdateFile path move_path chunks) \<Rightarrow>
            (case update_hunk_line (line_number p) line move_path chunks of
               Inl e \<Rightarrow> (Inl e, p)
             | Inr (move_path', chunks') \<Rightarrow>
                 (Inr (), set_hunks (butlast (p_hunks p) @ [UpdateFile path move_path' chunks']) p))
        | _ \<Rightarrow> (Inl (unexpected_line_error line (line_number p)), p))"

definition process_ended :: "StreamingPatchParser \<Rightarrow> rstr \<Rightarrow> step_result" where
  "process_ended p line = (if trim line = [] then (Inr (), p) else (Inl LAST_LINE_ERROR, p))"

definition process_line :: "StreamingPatchParser \<Rightarrow> rstr \<Rightarrow> step_result" where
  "process_line p line =
     (case p_mode p of
        NotStarted \<Rightarrow> process_not_started p line
      | StartedPatch \<Rightarrow> process_started p line
      | InAddFile \<Rightarrow> process_add_file p line
      | InDeleteFile \<Rightarrow> process_delete_file p line
      | InUpdateFile _ \<Rightarrow> process_update_file p line
      | EndedPatch \<Rightarrow> process_ended p line)"

section \<open>Text in pieces\<close>

definition strip_cr :: "rstr \<Rightarrow> rstr" where
  "strip_cr l = (case strip_suffix [cr] l of None \<Rightarrow> l | Some l' \<Rightarrow> l')"

text \<open>A complete line: take it out of the buffer, count it and process it.\<close>

definition end_line :: "StreamingPatchParser \<Rightarrow> step_result" where
  "end_line p =
     process_line (p\<lparr>line_buffer := [], line_number := line_number p + 1\<rparr>)
       (strip_cr (line_buffer p))"

fun push_delta ::
  "StreamingPatchParser \<Rightarrow> rstr \<Rightarrow> (ParseError + Hunk list) \<times> StreamingPatchParser" where
  "push_delta p [] = (Inr (p_hunks p), p)"
| "push_delta p (ch # delta) =
     (if ch = nl
      then case end_line p of (Inl e, p') \<Rightarrow> (Inl e, p') | (Inr _, p') \<Rightarrow> push_delta p' delta
      else push_delta (p\<lparr>line_buffer := line_buffer p @ [ch]\<rparr>) delta)"

definition finish_last_line :: "StreamingPatchParser \<Rightarrow> step_result" where
  "finish_last_line p =
     (if line_buffer p = [] then (Inr (), p)
      else let line = line_buffer p;
               p = p\<lparr>line_buffer := [], line_number := line_number p + 1\<rparr>
           in if trim line = END_PATCH_MARKER
              then (case ensure_update_hunk_is_not_empty p (trim line) of
                      Inl e \<Rightarrow> (Inl e, p) | Inr _ \<Rightarrow> (Inr (), set_mode EndedPatch p))
              else process_line p line)"

definition finish ::
  "StreamingPatchParser \<Rightarrow> (ParseError + Hunk list) \<times> StreamingPatchParser" where
  "finish p =
     (case finish_last_line p of
        (Inl e, p') \<Rightarrow> (Inl e, p')
      | (Inr _, p') \<Rightarrow>
          (if p_mode p' = EndedPatch then (Inr (p_hunks p'), p') else (Inl LAST_LINE_ERROR, p')))"

section \<open>Text in pieces: the pieces do not matter\<close>

lemma push_delta_append:
  "push_delta p (a @ b) = then_feed (push_delta p a) (\<lambda>p'. push_delta p' b)"
  by (induction p a rule: push_delta.induct) (auto split: prod.splits sum.splits)

interpretation patch: incremental push_delta
  by unfold_locales (rule push_delta_append)

section \<open>The invariant of the state machine\<close>

definition chunks_open :: "UpdateFileChunk list \<Rightarrow> bool" where
  "chunks_open cs \<longleftrightarrow>
     (\<forall>c \<in> set cs. chunk_ok c) \<and> (\<forall>c \<in> set (butlast cs). \<not> chunk_is_empty c)"

definition parser_inv :: "StreamingPatchParser \<Rightarrow> bool" where
  "parser_inv p =
     (case p_mode p of
        NotStarted \<Rightarrow> p_hunks p = []
      | StartedPatch \<Rightarrow> p_hunks p = []
      | InAddFile \<Rightarrow>
          (\<exists>hs path c. p_hunks p = hs @ [AddFile path c] \<and> (\<forall>h \<in> set hs. hunk_ok h))
      | InUpdateFile _ \<Rightarrow>
          (\<exists>hs path mv cs. p_hunks p = hs @ [UpdateFile path mv cs]
             \<and> (\<forall>h \<in> set hs. hunk_ok h) \<and> chunks_open cs)
      | _ \<Rightarrow> (\<forall>h \<in> set (p_hunks p). hunk_ok h))"

lemma chunks_open_snoc:
  "chunks_open (cs @ [c]) \<longleftrightarrow> chunk_ok c \<and> (\<forall>k \<in> set cs. chunk_ok k \<and> \<not> chunk_is_empty k)"
  by (auto simp: chunks_open_def)

lemma chunks_open_Nil [simp]: "chunks_open []"
  by (simp add: chunks_open_def)

lemma chunks_open_push:
  "chunks_open cs \<Longrightarrow> \<not> opt_is_some_and chunk_is_empty (list_last cs) \<Longrightarrow> chunk_ok c
   \<Longrightarrow> chunks_open (cs @ [c])"
  by (cases cs rule: rev_cases) (auto simp: chunks_open_def butlast_append)

lemma chunks_open_map_last:
  "chunks_open cs \<Longrightarrow> (\<And>c. chunk_ok c \<Longrightarrow> chunk_ok (f c)) \<Longrightarrow> chunks_open (map_last f cs)"
  by (cases cs rule: rev_cases) (auto simp: chunks_open_snoc)

lemma chunks_open_edit:
  "chunks_open cs \<Longrightarrow> (\<And>c. chunk_ok c \<Longrightarrow> chunk_ok (f c)) \<Longrightarrow> chunks_open (edit_chunk f cs)"
  using chunks_open_map_last [of "[default_chunk]" f] chunks_open_map_last [of cs f]
  by (auto simp: edit_chunk_def chunks_open_def)

lemma update_hunk_line_open:
  assumes cs: "chunks_open cs" and u: "update_hunk_line n line mv cs = Inr (mv', cs')"
  shows "chunks_open cs'"
proof (cases "is_context_marker (trim_end line)")
  case True
  then have "\<not> opt_is_some_and chunk_is_empty (list_last cs) \<or> cs' = cs"
    using u by (auto simp: update_hunk_line_def Let_def split: if_splits)
  with True cs u show ?thesis
    unfolding update_hunk_line_def Let_def
    by (auto intro: chunks_open_push chunks_open_map_last chunks_open_edit
        simp: chunk_ok_pushes split: if_splits option.splits list.splits)
next
  case False
  then have "strip_prefix CHANGE_CONTEXT_MARKER (trim_end line) = None"
    and "trim_end line \<noteq> EMPTY_CHANGE_CONTEXT_MARKER"
    by (auto simp: is_context_marker_def starts_with_def)
  with False cs u show ?thesis
    unfolding update_hunk_line_def Let_def
    by (auto intro: chunks_open_map_last chunks_open_edit
        simp: chunk_ok_pushes split: if_splits list.splits)
qed

lemma ensure_not_empty_ok:
  assumes "parser_inv p" "ensure_update_hunk_is_not_empty p line = Inr u"
  shows "\<forall>h \<in> set (p_hunks p). hunk_ok h"
proof (cases "p_mode p")
  case (InUpdateFile n)
  with assms(1) obtain hs path mv cs
    where hs: "p_hunks p = hs @ [UpdateFile path mv cs]" "\<forall>h \<in> set hs. hunk_ok h" "chunks_open cs"
    by (auto simp: parser_inv_def)
  with assms(2) InUpdateFile show ?thesis
    by (cases cs rule: rev_cases)
       (auto simp: ensure_update_hunk_is_not_empty_def chunks_open_snoc split: if_splits list.splits)
qed (use assms(1) in \<open>auto simp: parser_inv_def\<close>)

lemma start_hunk_inv:
  assumes inv: "parser_inv p" and s: "start_hunk p t new m = (r, p')"
    and new: "(new, m) \<in> {([], EndedPatch), ([AddFile path []], InAddFile),
      ([DeleteFile path], InDeleteFile), ([UpdateFile path None []], InUpdateFile k)}"
  shows "parser_inv p'"
proof (cases "ensure_update_hunk_is_not_empty p t")
  case (Inl e)
  with s inv show ?thesis by (auto simp: start_hunk_def)
next
  case (Inr u)
  then have "\<forall>h \<in> set (p_hunks p). hunk_ok h" by (rule ensure_not_empty_ok [OF inv])
  with s new Inr show ?thesis by (auto simp: start_hunk_def parser_inv_def)
qed

lemma parser_inv_frame [simp]:
  "parser_inv (p\<lparr>line_buffer := b\<rparr>) = parser_inv p"
  "parser_inv (p\<lparr>line_number := n\<rparr>) = parser_inv p"
  "parser_inv (p\<lparr>state := (state p)\<lparr>environment_id := x\<rparr>\<rparr>) = parser_inv p"
  unfolding parser_inv_def by (simp_all split: StreamingParserMode.split)

lemma handle_environment_id_inv:
  "parser_inv p \<Longrightarrow> handle_environment_id p v = (r, p') \<Longrightarrow> parser_inv p'"
  by (auto simp: handle_environment_id_def split: if_splits)

lemma handle_headers_inv:
  assumes "parser_inv p" "handle_hunk_headers_and_end_patch p t = (r, p')"
  shows "parser_inv p'"
proof -
  note starts = start_hunk_inv [OF assms(1), where new = "[]" and m = EndedPatch]
    start_hunk_inv [OF assms(1), where new = "[AddFile path []]" and m = InAddFile for path]
    start_hunk_inv [OF assms(1), where new = "[DeleteFile path]" and m = InDeleteFile for path]
    start_hunk_inv [OF assms(1), where new = "[UpdateFile path None []]" and m = "InUpdateFile n"
      and k = n for path n]
  show ?thesis
    using assms unfolding handle_hunk_headers_and_end_patch_def
    by (auto split: if_splits option.splits intro: handle_environment_id_inv starts)
qed

lemma handle_headers_False:
  "handle_hunk_headers_and_end_patch p t = (Inr False, p') \<Longrightarrow> p' = p"
  by (auto simp: handle_hunk_headers_and_end_patch_def handle_environment_id_def start_hunk_def
      split: if_splits option.splits sum.splits)

lemma headers_or_inv:
  assumes "parser_inv p" "headers_or p t rest = (r, p')" "parser_inv (snd rest)"
  shows "parser_inv p'"
  using assms handle_headers_inv [OF assms(1)]
  by (auto simp: headers_or_def split: prod.splits sum.splits bool.splits)

lemma process_update_file_inv:
  assumes "parser_inv p" "p_mode p = InUpdateFile k" "process_update_file p line = (r, p')"
  shows "parser_inv p'"
proof -
  from assms(1,2) obtain hs path mv cs
    where hs: "p_hunks p = hs @ [UpdateFile path mv cs]" "\<forall>h \<in> set hs. hunk_ok h" "chunks_open cs"
    by (auto simp: parser_inv_def)
  show ?thesis
    using assms(3) unfolding process_update_file_def
    by (rule headers_or_inv [OF assms(1)])
       (use assms(1,2) hs update_hunk_line_open [OF hs(3)] in
         \<open>auto simp: parser_inv_def split: sum.splits\<close>)
qed

lemma process_add_file_inv:
  assumes "parser_inv p" "p_mode p = InAddFile" "process_add_file p line = (r, p')"
  shows "parser_inv p'"
  using assms(3) unfolding process_add_file_def
  by (rule headers_or_inv [OF assms(1)])
     (use assms(1,2) in \<open>auto simp: parser_inv_def split: option.splits Hunk.splits\<close>)

lemma process_line_inv:
  assumes "parser_inv p" "process_line p line = (r, p')"
  shows "parser_inv p'"
proof (cases "p_mode p")
  case NotStarted
  with assms show ?thesis
    by (auto simp: process_line_def process_not_started_def parser_inv_def split: if_splits)
next
  case StartedPatch
  with assms show ?thesis
    by (auto simp: process_line_def process_started_def intro: headers_or_inv)
next
  case InAddFile
  with assms show ?thesis by (auto simp: process_line_def intro: process_add_file_inv)
next
  case InDeleteFile
  with assms show ?thesis
    by (auto simp: process_line_def process_delete_file_def intro: headers_or_inv)
next
  case (InUpdateFile n)
  with assms show ?thesis by (auto simp: process_line_def intro: process_update_file_inv)
next
  case EndedPatch
  with assms show ?thesis by (auto simp: process_line_def process_ended_def split: if_splits)
qed

lemma push_delta_inv: "parser_inv p \<Longrightarrow> parser_inv (snd (push_delta p delta))"
proof (induction p delta rule: push_delta.induct)
  case (1 p)
  then show ?case by simp
next
  case (2 p ch delta)
  show ?case
  proof (cases "ch = nl")
    case True
    obtain r p' where e: "end_line p = (r, p')" by fastforce
    then have "parser_inv p'"
      using process_line_inv [of "p\<lparr>line_buffer := [], line_number := line_number p + 1\<rparr>"] 2(3)
      by (simp add: end_line_def)
    with True e 2(1) show ?thesis by (auto split: sum.splits)
  qed (use 2 in simp)
qed

lemma finish_last_line_inv:
  assumes "parser_inv p" "finish_last_line p = (r, p')"
  shows "parser_inv p'"
proof (cases "trim (line_buffer p) = END_PATCH_MARKER \<and> line_buffer p \<noteq> []")
  case True
  let ?p = "p\<lparr>line_buffer := [], line_number := line_number p + 1\<rparr>"
  have "parser_inv ?p" using assms(1) by simp
  with True assms(2) ensure_not_empty_ok [of ?p] show ?thesis
    by (auto simp: finish_last_line_def Let_def parser_inv_def split: sum.splits)
next
  case False
  with assms process_line_inv [of "p\<lparr>line_buffer := [], line_number := line_number p + 1\<rparr>"]
  show ?thesis by (auto simp: finish_last_line_def Let_def split: if_splits)
qed

lemma finish_inv: "parser_inv p \<Longrightarrow> parser_inv (snd (finish p))"
  using finish_last_line_inv by (force simp: finish_def split: prod.splits sum.splits)

text \<open>Every state a client can bring the parser to, errors included.\<close>

inductive parser_reachable :: "StreamingPatchParser \<Rightarrow> bool" where
  start: "parser_reachable default_parser"
| delta: "parser_reachable p \<Longrightarrow> parser_reachable (snd (push_delta p d))"
| finished: "parser_reachable p \<Longrightarrow> parser_reachable (snd (finish p))"

lemma parser_reachable_inv: "parser_reachable p \<Longrightarrow> parser_inv p"
proof (induction rule: parser_reachable.induct)
  case start
  show ?case by (simp add: parser_inv_def default_parser_def)
qed (simp_all add: push_delta_inv finish_inv)

lemma finish_hunks_ok:
  assumes "parser_inv p" "finish p = (Inr hs, p')"
  shows "p_mode p' = EndedPatch" "hs = p_hunks p'" "\<forall>h \<in> set hs. hunk_ok h"
proof -
  obtain r q where q: "finish_last_line p = (r, q)" by fastforce
  with assms finish_last_line_inv [OF assms(1) q]
  show "p_mode p' = EndedPatch" "hs = p_hunks p'" "\<forall>h \<in> set hs. hunk_ok h"
    by (auto simp: finish_def parser_inv_def split: sum.splits if_splits)
qed

section \<open>Properties\<close>

text \<open>C5: the streaming parser does not depend on how the text is cut into deltas: feeding
  the pieces one after the other gives the result and the state of feeding their
  concatenation, the first error included.\<close>

theorem push_delta_pieces:
  "feed_all push_delta p deltas = push_delta p (concat deltas)"
  by (rule patch.feed_all_concat)

text \<open>However a client drives the parser, errors and repeated \<open>finish\<close> included, the
  hunks a successful \<open>finish\<close> returns are well formed: every update has a chunk, no chunk is
  empty, and its context pairs increase strictly and name equal lines inside both sides.\<close>

theorem finished_hunks_well_formed:
  assumes "parser_reachable p" "finish p = (Inr hs, p')"
  shows "p_mode p' = EndedPatch \<and> (\<forall>h \<in> set hs. hunk_ok h)"
  using finish_hunks_ok [OF parser_reachable_inv [OF assms(1)] assms(2)] by blast

text \<open>\<open>finish\<close> recognises a last line \<open>*** End Patch\<close> in every mode. A parser that has
  seen no \<open>*** Begin Patch\<close> line therefore accepts the lone end marker as an empty patch when
  it is not followed by a line feed, and rejects it when it is.\<close>

theorem finish_accepts_lone_end_marker:
  "fst (finish (snd (push_delta default_parser END_PATCH_MARKER))) = Inr []
   \<and> fst (push_delta default_parser (END_PATCH_MARKER @ [nl])) = Inl FIRST_LINE_ERROR"
  by (rule conjI; code_simp)

end
