(* ===== verification/Patch_Parse.thy ===== *)
theory Patch_Parse
  imports Patch_Streaming
begin

text \<open>
  \<open>parse_patch\<close> of \<open>apply-patch/src/parser.rs\<close>: the whole-text parser, which trims the
  text, checks its first and last line (leniently, for a heredoc around it) and runs the
  streaming parser over it. The specification is a writer for the patch grammar in that
  file's header comment: \<open>render_patch\<close>, from a syntax tree to text, and \<open>denote\<close>, the
  hunks the tree stands for.
\<close>

section \<open>The parser\<close>

datatype ParseMode = Strict | Lenient

definition PARSE_IN_STRICT_MODE :: bool where
  "PARSE_IN_STRICT_MODE = False"

record ApplyPatchArgs =
  args_patch :: rstr
  args_hunks :: "Hunk list"
  args_workdir :: "rstr option"
  args_environment_id :: "rstr option"

definition parse_patch_text :: "rstr \<Rightarrow> ParseMode \<Rightarrow> ParseError + ApplyPatchArgs" where
  "parse_patch_text patch m =
     (let lines = str_lines (trim patch)
      in bind_result
           (case m of Strict \<Rightarrow> check_patch_boundaries_strict lines
            | Lenient \<Rightarrow> check_patch_boundaries_lenient lines)
           (\<lambda>patch_lines.
             let patch = join [nl] patch_lines;
                 (r, parser) = push_delta default_parser patch
             in bind_result r (\<lambda>_.
                  let (r', parser') = finish parser
                  in bind_result r' (\<lambda>hs.
                       Inr \<lparr>args_patch = patch, args_hunks = hs, args_workdir = None,
                            args_environment_id = environment_id (state parser')\<rparr>))))"

definition parse_patch :: "rstr \<Rightarrow> ParseError + ApplyPatchArgs" where
  "parse_patch patch = parse_patch_text patch (if PARSE_IN_STRICT_MODE then Strict else Lenient)"

lemma parse_patch_text_Inr:
  assumes "parse_patch_text patch m = Inr args"
  obtains q parser hs parser'
  where "push_delta default_parser q = (Inr hs, parser)"
    and "finish parser = (Inr (args_hunks args), parser')"
proof -
  from assms obtain ls where ls: "(let (r, parser) = push_delta default_parser (join [nl] ls)
      in bind_result r (\<lambda>_. let (r', parser') = finish parser in bind_result r' (\<lambda>hs.
           Inr \<lparr>args_patch = join [nl] ls, args_hunks = hs, args_workdir = None,
                args_environment_id = environment_id (state parser')\<rparr>))) = Inr args"
    unfolding parse_patch_text_def Let_def bind_result_Inr by blast
  obtain r parser where r: "push_delta default_parser (join [nl] ls) = (r, parser)" by fastforce
  obtain r' parser' where r': "finish parser = (r', parser')" by fastforce
  from ls r r' show thesis by (auto simp: Let_def bind_result_Inr intro: that)
qed

lemma parse_patch_text_hunks_ok:
  assumes "parse_patch_text patch m = Inr args" "h \<in> set (args_hunks args)"
  shows "hunk_ok h"
proof -
  from assms(1) obtain q parser hs parser'
    where q: "push_delta default_parser q = (Inr hs, parser)"
      and f: "finish parser = (Inr (args_hunks args), parser')"
    by (rule parse_patch_text_Inr)
  have "parser_reachable parser"
    using parser_reachable.delta [OF parser_reachable.start, of q] q by simp
  then have "parser_inv parser" by (rule parser_reachable_inv)
  from finish_hunks_ok [OF this f] assms(2) show ?thesis by blast
qed

section \<open>The grammar as a syntax tree\<close>

datatype edit = Keep rstr | Insert rstr | Remove rstr

record chunk_ast =
  ast_context :: "rstr option"
  ast_edits :: "edit list"
  ast_eof :: bool

datatype hunk_ast =
    AstAdd rstr "rstr list"
  | AstDelete rstr
  | AstUpdate rstr "rstr option" "chunk_ast list"

fun apply_edit :: "edit \<Rightarrow> UpdateFileChunk \<Rightarrow> UpdateFileChunk" where
  "apply_edit (Keep l) c = push_context_line l c"
| "apply_edit (Insert l) c = c\<lparr>new_lines := new_lines c @ [l]\<rparr>"
| "apply_edit (Remove l) c = c\<lparr>old_lines := old_lines c @ [l]\<rparr>"

definition denote_chunk :: "chunk_ast \<Rightarrow> UpdateFileChunk" where
  "denote_chunk a =
     (fold apply_edit (ast_edits a) (default_chunk\<lparr>change_context := ast_context a\<rparr>))
       \<lparr>is_end_of_file := ast_eof a\<rparr>"

fun denote_hunk :: "hunk_ast \<Rightarrow> Hunk" where
  "denote_hunk (AstAdd path ls) = AddFile path (concat (map (\<lambda>l. l @ [nl]) ls))"
| "denote_hunk (AstDelete path) = DeleteFile path"
| "denote_hunk (AstUpdate path mv cs) = UpdateFile path mv (map denote_chunk cs)"

fun render_edit :: "edit \<Rightarrow> rstr" where
  "render_edit (Keep l) = lit '' '' @ l"
| "render_edit (Insert l) = lit ''+'' @ l"
| "render_edit (Remove l) = lit ''-'' @ l"

definition render_chunk :: "chunk_ast \<Rightarrow> rstr list" where
  "render_chunk a =
     (case ast_context a of None \<Rightarrow> EMPTY_CHANGE_CONTEXT_MARKER
      | Some ctx \<Rightarrow> CHANGE_CONTEXT_MARKER @ ctx)
     # map render_edit (ast_edits a) @ (if ast_eof a then [EOF_MARKER] else [])"

fun render_hunk :: "hunk_ast \<Rightarrow> rstr list" where
  "render_hunk (AstAdd path ls) = (ADD_FILE_MARKER @ path) # map (\<lambda>l. lit ''+'' @ l) ls"
| "render_hunk (AstDelete path) = [DELETE_FILE_MARKER @ path]"
| "render_hunk (AstUpdate path mv cs) =
     (UPDATE_FILE_MARKER @ path)
     # (case mv of None \<Rightarrow> [] | Some dest \<Rightarrow> [MOVE_TO_MARKER @ dest])
     @ concat (map render_chunk cs)"

definition render_patch :: "hunk_ast list \<Rightarrow> rstr" where
  "render_patch hs =
     join [nl] (BEGIN_PATCH_MARKER # concat (map render_hunk hs) @ [END_PATCH_MARKER])"

text \<open>
  What can be written: a line has no line feed and does not end with a carriage return
  (the parser would take that for part of the line end); a path or a context is not empty,
  has no line feed and does not end with white space; an update has a chunk, and every
  chunk an edit.
\<close>

definition line_ok :: "rstr \<Rightarrow> bool" where
  "line_ok l \<longleftrightarrow> nl \<notin> set l \<and> (l = [] \<or> last l \<noteq> cr)"

definition label_ok :: "rstr \<Rightarrow> bool" where
  "label_ok l \<longleftrightarrow> nl \<notin> set l \<and> l \<noteq> [] \<and> \<not> is_whitespace (last l)"

fun edit_line :: "edit \<Rightarrow> rstr" where
  "edit_line (Keep l) = l"
| "edit_line (Insert l) = l"
| "edit_line (Remove l) = l"

definition chunk_ast_ok :: "chunk_ast \<Rightarrow> bool" where
  "chunk_ast_ok a \<longleftrightarrow> ast_edits a \<noteq> [] \<and> (\<forall>e \<in> set (ast_edits a). line_ok (edit_line e))
     \<and> (case ast_context a of None \<Rightarrow> True | Some ctx \<Rightarrow> label_ok ctx)"

fun hunk_ast_ok :: "hunk_ast \<Rightarrow> bool" where
  "hunk_ast_ok (AstAdd path ls) = (label_ok path \<and> (\<forall>l \<in> set ls. line_ok l))"
| "hunk_ast_ok (AstDelete path) = label_ok path"
| "hunk_ast_ok (AstUpdate path mv cs) =
     (label_ok path \<and> (case mv of None \<Rightarrow> True | Some dest \<Rightarrow> label_ok dest)
      \<and> cs \<noteq> [] \<and> (\<forall>c \<in> set cs. chunk_ast_ok c))"

section \<open>Lines of a rendered patch\<close>

text \<open>Run complete lines through the state machine, as \<open>push_delta\<close> does.\<close>

fun run_lines :: "StreamingPatchParser \<Rightarrow> rstr list \<Rightarrow> step_result" where
  "run_lines p [] = (Inr (), p)"
| "run_lines p (l # ls) =
     then_feed (process_line (p\<lparr>line_number := line_number p + 1\<rparr>) l) (\<lambda>p'. run_lines p' ls)"

lemma run_lines_append:
  "run_lines p (ls @ ms) = then_feed (run_lines p ls) (\<lambda>p'. run_lines p' ms)"
  by (induction ls arbitrary: p) (simp_all add: then_feed_assoc)

lemma process_line_frame:
  assumes "process_line p l = (r, p')"
  shows "line_buffer p' = line_buffer p" "line_number p' = line_number p"
  using assms
  by (auto simp: process_line_def process_not_started_def process_started_def process_add_file_def
      process_delete_file_def process_update_file_def process_ended_def headers_or_def
      handle_hunk_headers_and_end_patch_def handle_environment_id_def start_hunk_def
      split: StreamingParserMode.splits if_splits option.splits sum.splits prod.splits
        bool.splits Hunk.splits)

lemma push_delta_chars:
  "nl \<notin> set l \<Longrightarrow> push_delta p (l @ d) = push_delta (p\<lparr>line_buffer := line_buffer p @ l\<rparr>) d"
  by (induction l arbitrary: p) simp_all

lemma strip_cr_ident: "line_ok l \<Longrightarrow> strip_cr l = l"
  by (cases l rule: rev_cases) (auto simp: strip_cr_def strip_suffix_def line_ok_def)

lemma push_delta_line:
  assumes "line_ok l" "line_buffer p = []"
  shows "push_delta p (l @ nl # d) =
    then_feed (process_line (p\<lparr>line_number := line_number p + 1\<rparr>) l) (\<lambda>p'. push_delta p' d)"
proof -
  let ?q = "p\<lparr>line_buffer := l\<rparr>"
  have e: "?q\<lparr>line_buffer := [], line_number := line_number ?q + 1\<rparr>
      = p\<lparr>line_number := line_number p + 1\<rparr>"
    using assms(2) by (cases p) simp
  have "end_line ?q = process_line (p\<lparr>line_number := line_number p + 1\<rparr>) l"
    unfolding end_line_def e using assms(1) by (simp add: strip_cr_ident)
  moreover have "push_delta p (l @ nl # d) = push_delta ?q (nl # d)"
    using assms push_delta_chars [of l p "nl # d"] by (simp add: line_ok_def)
  ultimately show ?thesis by (simp add: then_feed_def)
qed

lemma push_delta_lines:
  assumes "\<forall>l \<in> set ls. line_ok l" "line_buffer p = []" "nl \<notin> set k"
  shows "push_delta p (join [nl] (ls @ [k])) =
    then_feed (run_lines p ls) (\<lambda>p'. (Inr (p_hunks p'), p'\<lparr>line_buffer := k\<rparr>))"
  using assms
proof (induction ls arbitrary: p)
  case Nil
  then show ?case using push_delta_chars [of k p "[]"] by simp
next
  case (Cons l ls)
  let ?r = "process_line (p\<lparr>line_number := line_number p + 1\<rparr>) l"
  have "push_delta p (join [nl] ((l # ls) @ [k]))
      = then_feed ?r (\<lambda>p'. push_delta p' (join [nl] (ls @ [k])))"
    using Cons.prems push_delta_line [of l p] by (simp add: join_Cons)
  moreover have "then_feed ?r (\<lambda>p'. push_delta p' (join [nl] (ls @ [k]))) =
      then_feed ?r (\<lambda>p'. then_feed (run_lines p' ls) (\<lambda>p'. (Inr (p_hunks p'), p'\<lparr>line_buffer := k\<rparr>)))"
  proof -
    obtain r q where r: "?r = (r, q)" by fastforce
    then have "line_buffer q = []" using process_line_frame [OF r] Cons.prems by simp
    then show ?thesis using r Cons by (cases r) simp_all
  qed
  ultimately show ?case by (simp only: run_lines.simps then_feed_assoc)
qed

end
