(* ===== verification/Patch_Apply.thy ===== *)
theory Patch_Apply
  imports File_Update Patch_Parse
begin

text \<open>
  \<open>apply-patch/src/lib.rs\<close>: applying hunks to a file system, with the record of what was
  really committed. The file system (\<open>dyn ExecutorFileSystem\<close>) and the path type
  (\<open>PathUri\<close>) are arguments: a record of their operations over a state \<open>'s\<close> and a type
  \<open>'p\<close> of resolved paths. The sandbox argument goes unchanged to every operation and is part of
  that record. A handler returns its result and the state reached, errors included.
\<close>

section \<open>Interfaces\<close>

datatype ErrorKind = NotFound | InvalidInput | OtherKind

record IoErr =
  io_kind :: ErrorKind
  io_message :: rstr

record FileMetadata =
  is_file :: bool
  is_directory :: bool
  is_symlink :: bool

record ('p, 's) file_system =
  fs_get_metadata :: "'s \<Rightarrow> 'p \<Rightarrow> bool \<Rightarrow> IoErr + FileMetadata"
  fs_read_file_text :: "'s \<Rightarrow> 'p \<Rightarrow> bool \<Rightarrow> IoErr + rstr"
  fs_write_file :: "'s \<Rightarrow> 'p \<Rightarrow> int list \<Rightarrow> bool \<Rightarrow> (IoErr + unit) \<times> 's"
  fs_create_directory :: "'s \<Rightarrow> 'p \<Rightarrow> bool \<Rightarrow> bool \<Rightarrow> (IoErr + unit) \<times> 's"
  fs_remove :: "'s \<Rightarrow> 'p \<Rightarrow> bool \<Rightarrow> bool \<Rightarrow> bool \<Rightarrow> (IoErr + unit) \<times> 's"

record 'p path_ops =
  path_join :: "'p \<Rightarrow> rstr \<Rightarrow> rstr + 'p"
  path_parent :: "'p \<Rightarrow> 'p option"
  native_path_string :: "'p \<Rightarrow> rstr"

section \<open>Options, errors and the delta\<close>

record ApplyPatchOptions =
  update_file_mode :: ApplyPatchFileUpdateMode
  follow_symlinks :: bool

definition default_options :: ApplyPatchOptions where
  "default_options = \<lparr>update_file_mode = NormalizeToLf, follow_symlinks = True\<rparr>"

datatype ApplyPatchError =
    ParseFailed ParseError
  | IoFailed rstr IoErr
  | ComputeReplacements rstr
  | PathUriFailed rstr
  | ImplicitInvocation

text \<open>\<open>anyhow::Error\<close>: a message, or one of the errors above under a list of contexts.\<close>

datatype AnyError =
    Message rstr
  | Plain ApplyPatchError
  | PlainIo IoErr
  | PathError rstr
  | Context rstr AnyError

definition io_error_display :: "rstr \<Rightarrow> IoErr \<Rightarrow> rstr" where
  "io_error_display context source = context @ lit '': '' @ io_message source"

fun parse_error_display :: "ParseError \<Rightarrow> rstr" where
  "parse_error_display (InvalidPatchError m) = lit ''invalid patch: '' @ m"
| "parse_error_display (InvalidHunkError m n) =
     lit ''invalid hunk at line '' @ dec n @ lit '', '' @ m"

fun apply_error_display :: "ApplyPatchError \<Rightarrow> rstr" where
  "apply_error_display (ParseFailed e) = parse_error_display e"
| "apply_error_display (IoFailed context e) = io_error_display context e"
| "apply_error_display (ComputeReplacements m) = m"
| "apply_error_display (PathUriFailed m) = m"
| "apply_error_display ImplicitInvocation =
     lit ''patch detected without explicit call to apply_patch. Rerun as ['' @ [34]
       @ lit ''apply_patch'' @ [34] @ lit '', '' @ [34] @ lit ''<patch>'' @ [34] @ lit '']''"

fun any_error_display :: "AnyError \<Rightarrow> rstr" where
  "any_error_display (Message m) = m"
| "any_error_display (Plain e) = apply_error_display e"
| "any_error_display (PlainIo e) = io_message e"
| "any_error_display (PathError m) = m"
| "any_error_display (Context m _) = m"

fun downcast_io :: "AnyError \<Rightarrow> IoErr option" where
  "downcast_io (PlainIo e) = Some e"
| "downcast_io (Context _ e) = downcast_io e"
| "downcast_io _ = None"

datatype 'p AppliedPatchFileChange =
    ChangeAdd rstr "rstr option"
  | ChangeDelete rstr
  | ChangeUpdate "'p option" rstr "rstr option" rstr

type_synonym 'p AppliedPatchChange = "'p \<times> 'p AppliedPatchFileChange"

record 'p AppliedPatchDelta =
  changes :: "'p AppliedPatchChange list"
  exact :: bool

definition empty_delta :: "'p AppliedPatchDelta" where
  "empty_delta = \<lparr>changes = [], exact = True\<rparr>"

definition append_delta :: "'p AppliedPatchDelta \<Rightarrow> 'p AppliedPatchDelta \<Rightarrow> 'p AppliedPatchDelta" where
  "append_delta d other = \<lparr>changes = changes d @ changes other, exact = (exact d \<and> exact other)\<rparr>"

record AffectedPaths =
  added :: "rstr list"
  modified :: "rstr list"
  deleted :: "rstr list"

record ('p, 's) apply_state =
  fs_state :: 's
  delta :: "'p AppliedPatchDelta"
  affected :: AffectedPaths

definition push_change :: "'p AppliedPatchChange \<Rightarrow> 'p AppliedPatchDelta \<Rightarrow> 'p AppliedPatchDelta" where
  "push_change c d = d\<lparr>changes := changes d @ [c]\<rparr>"

definition set_exact :: "bool \<Rightarrow> ('p, 's) apply_state \<Rightarrow> ('p, 's) apply_state" where
  "set_exact b st = st\<lparr>delta := (delta st)\<lparr>exact := b\<rparr>\<rparr>"

definition failed_to :: "string \<Rightarrow> 'p path_ops \<Rightarrow> 'p \<Rightarrow> rstr" where
  "failed_to what paths p = lit ''Failed to '' @ lit what @ lit '' '' @ native_path_string paths p"

section \<open>Helpers over the file system\<close>

definition ensure_not_directory ::
  "('p, 's) file_system \<Rightarrow> bool \<Rightarrow> 'p \<Rightarrow> 's \<Rightarrow> IoErr + unit" where
  "ensure_not_directory fs fl path s =
     bind_result (fs_get_metadata fs s path fl) (\<lambda>m.
       if is_directory m then Inl \<lparr>io_kind = InvalidInput, io_message = lit ''path is a directory''\<rparr>
       else Inr ())"

definition remove_failure_was_side_effect_free ::
  "('p, 's) file_system \<Rightarrow> bool \<Rightarrow> 'p \<Rightarrow> rstr option \<Rightarrow> 's \<Rightarrow> bool" where
  "remove_failure_was_side_effect_free fs fl path expected_content s =
     (case expected_content of
        Some expected \<Rightarrow>
          (case fs_read_file_text fs s path fl of Inr content \<Rightarrow> content = expected | Inl _ \<Rightarrow> False)
      | None \<Rightarrow> False)"

definition note_existing_path_delta_support ::
  "('p, 's) file_system \<Rightarrow> bool \<Rightarrow> 'p \<Rightarrow> 's \<Rightarrow> bool \<Rightarrow> bool" where
  "note_existing_path_delta_support fs fl path s ex =
     (case fs_get_metadata fs s path fl of
        Inr m \<Rightarrow> (if is_file m \<and> \<not> is_symlink m then ex else False)
      | Inl e \<Rightarrow> (if io_kind e = NotFound then ex else False))"

definition read_optional_file_text_for_delta ::
  "('p, 's) file_system \<Rightarrow> bool \<Rightarrow> 'p \<Rightarrow> 's \<Rightarrow> bool \<Rightarrow> rstr option \<times> bool" where
  "read_optional_file_text_for_delta fs fl path s ex =
     (let ex = note_existing_path_delta_support fs fl path s ex
      in case fs_read_file_text fs s path fl of
           Inr content \<Rightarrow> (Some content, ex)
         | Inl e \<Rightarrow> (None, if io_kind e = NotFound then ex else False))"

definition write_file_with_context ::
  "('p, 's) file_system \<Rightarrow> 'p path_ops \<Rightarrow> bool \<Rightarrow> 'p \<Rightarrow> int list \<Rightarrow> 's \<Rightarrow> (AnyError + unit) \<times> 's" where
  "write_file_with_context fs paths fl path contents s =
     (case fs_write_file fs s path contents fl of
        (Inr _, s') \<Rightarrow> (Inr (), s')
      | (Inl e, s') \<Rightarrow> (Inl (Context (failed_to ''write file'' paths path) (PlainIo e)), s'))"

definition write_file_with_missing_parent_retry ::
  "('p, 's) file_system \<Rightarrow> 'p path_ops \<Rightarrow> bool \<Rightarrow> 'p \<Rightarrow> int list \<Rightarrow> 's \<Rightarrow> (AnyError + unit) \<times> 's" where
  "write_file_with_missing_parent_retry fs paths fl path contents s =
     (case fs_write_file fs s path contents fl of
        (Inr _, s') \<Rightarrow> (Inr (), s')
      | (Inl e, s') \<Rightarrow>
          (if io_kind e = NotFound
           then (case (case path_parent paths path of
                         None \<Rightarrow> (Inr (), s')
                       | Some parent \<Rightarrow> fs_create_directory fs s' parent True fl) of
                   (Inl e', s'') \<Rightarrow>
                     (Inl (Context (failed_to ''create parent directories for'' paths path) (PlainIo e')), s'')
                 | (Inr _, s'') \<Rightarrow> write_file_with_context fs paths fl path contents s'')
           else (Inl (Context (failed_to ''write file'' paths path) (PlainIo e)), s')))"

definition derive_new_contents_from_chunks ::
  "('p, 's) file_system \<Rightarrow> 'p path_ops \<Rightarrow> ApplyPatchOptions \<Rightarrow> 'p \<Rightarrow> UpdateFileChunk list \<Rightarrow> 's
   \<Rightarrow> AnyError fault + rstr \<times> rstr" where
  "derive_new_contents_from_chunks fs paths opts path chunks s =
     (case fs_read_file_text fs s path (follow_symlinks opts) of
        Inl e \<Rightarrow> Inl (Failed (Plain (IoFailed (failed_to ''read file to update'' paths path) e)))
      | Inr original \<Rightarrow>
          (case new_contents_from_chunks original (native_path_string paths path) chunks
                  (update_file_mode opts) of
             Inl (Failed m) \<Rightarrow> Inl (Failed (Plain (ComputeReplacements m)))
           | Inl Panicked \<Rightarrow> Inl Panicked
           | Inr new \<Rightarrow> Inr (original, new)))"

section \<open>One hunk\<close>

type_synonym ('p, 's) handler_result = "(AnyError fault + unit) \<times> ('p, 's) apply_state"

text \<open>\<open>try_write!\<close>: a failed write may have changed the target, so the delta is inexact.\<close>

definition try_write ::
  "(AnyError + unit) \<times> 's \<Rightarrow> ('p, 's) apply_state
   \<Rightarrow> (('p, 's) apply_state \<Rightarrow> ('p, 's) handler_result) \<Rightarrow> ('p, 's) handler_result" where
  "try_write r st k =
     (case r of
        (Inl e, s') \<Rightarrow> (Inl (Failed e), set_exact False (st\<lparr>fs_state := s'\<rparr>))
      | (Inr _, s') \<Rightarrow> k (st\<lparr>fs_state := s'\<rparr>))"

definition record_change :: "'p AppliedPatchChange \<Rightarrow> ('p, 's) apply_state \<Rightarrow> ('p, 's) apply_state" where
  "record_change c st = st\<lparr>delta := push_change c (delta st)\<rparr>"

definition apply_add_file ::
  "('p, 's) file_system \<Rightarrow> 'p path_ops \<Rightarrow> ApplyPatchOptions \<Rightarrow> 'p \<Rightarrow> rstr \<Rightarrow> rstr
   \<Rightarrow> ('p, 's) apply_state \<Rightarrow> ('p, 's) handler_result" where
  "apply_add_file fs paths opts path_uri affected_path contents st =
     (let fl = follow_symlinks opts;
          (overwritten, ex) =
            read_optional_file_text_for_delta fs fl path_uri (fs_state st) (exact (delta st));
          st = set_exact ex st
      in try_write
           (write_file_with_missing_parent_retry fs paths fl path_uri (into_bytes contents) (fs_state st))
           st (\<lambda>st.
             let st = record_change (path_uri, ChangeAdd contents overwritten) st
             in (Inr (), st\<lparr>affected := (affected st)\<lparr>added := added (affected st) @ [affected_path]\<rparr>\<rparr>)))"

text \<open>Remove a file that must not be a directory; \<open>expected\<close> is its content as read before.\<close>

definition remove_file_checked ::
  "('p, 's) file_system \<Rightarrow> 'p path_ops \<Rightarrow> bool \<Rightarrow> string \<Rightarrow> 'p \<Rightarrow> rstr option
   \<Rightarrow> ('p, 's) apply_state \<Rightarrow> (('p, 's) apply_state \<Rightarrow> ('p, 's) handler_result)
   \<Rightarrow> ('p, 's) handler_result" where
  "remove_file_checked fs paths fl what path_uri expected st k =
     (case ensure_not_directory fs fl path_uri (fs_state st) of
        Inl e \<Rightarrow> (Inl (Failed (Context (failed_to what paths path_uri) (PlainIo e))), st)
      | Inr _ \<Rightarrow>
          (case fs_remove fs (fs_state st) path_uri False False fl of
             (Inl e, s') \<Rightarrow>
               (Inl (Failed (Context (failed_to what paths path_uri) (PlainIo e))),
                set_exact (exact (delta st) \<and> remove_failure_was_side_effect_free fs fl path_uri expected s')
                  (st\<lparr>fs_state := s'\<rparr>))
           | (Inr _, s') \<Rightarrow> k (st\<lparr>fs_state := s'\<rparr>)))"

definition apply_delete_file ::
  "('p, 's) file_system \<Rightarrow> 'p path_ops \<Rightarrow> ApplyPatchOptions \<Rightarrow> 'p \<Rightarrow> rstr
   \<Rightarrow> ('p, 's) apply_state \<Rightarrow> ('p, 's) handler_result" where
  "apply_delete_file fs paths opts path_uri affected_path st =
     (let fl = follow_symlinks opts;
          ex = note_existing_path_delta_support fs fl path_uri (fs_state st) (exact (delta st));
          deleted_content = (case fs_read_file_text fs (fs_state st) path_uri fl of
                               Inr c \<Rightarrow> Some c | Inl _ \<Rightarrow> None);
          st = set_exact (if deleted_content = None then False else ex) st
      in remove_file_checked fs paths fl ''delete file'' path_uri deleted_content st (\<lambda>st.
           let st = (case deleted_content of
                       Some content \<Rightarrow> record_change (path_uri, ChangeDelete content) st
                     | None \<Rightarrow> st)
           in (Inr (), st\<lparr>affected := (affected st)\<lparr>deleted := deleted (affected st) @ [affected_path]\<rparr>\<rparr>)))"

definition note_modified :: "rstr \<Rightarrow> ('p, 's) apply_state \<Rightarrow> ('p, 's) apply_state" where
  "note_modified p st = st\<lparr>affected := (affected st)\<lparr>modified := modified (affected st) @ [p]\<rparr>\<rparr>"

definition apply_update_in_place ::
  "('p, 's) file_system \<Rightarrow> 'p path_ops \<Rightarrow> bool \<Rightarrow> 'p \<Rightarrow> rstr \<Rightarrow> rstr \<Rightarrow> rstr
   \<Rightarrow> ('p, 's) apply_state \<Rightarrow> ('p, 's) handler_result" where
  "apply_update_in_place fs paths fl path_uri affected_path original new st =
     try_write (write_file_with_context fs paths fl path_uri (into_bytes new) (fs_state st)) st
       (\<lambda>st. (Inr (), note_modified affected_path
                (record_change (path_uri, ChangeUpdate None original None new) st)))"

definition apply_update_with_move ::
  "('p, 's) file_system \<Rightarrow> 'p path_ops \<Rightarrow> bool \<Rightarrow> 'p \<Rightarrow> 'p \<Rightarrow> rstr \<Rightarrow> rstr \<Rightarrow> rstr
   \<Rightarrow> ('p, 's) apply_state \<Rightarrow> ('p, 's) handler_result" where
  "apply_update_with_move fs paths fl path_uri dest_uri affected_path original new st =
     (let (overwritten, ex) =
            read_optional_file_text_for_delta fs fl dest_uri (fs_state st) (exact (delta st));
          st = set_exact ex st
      in try_write
           (write_file_with_missing_parent_retry fs paths fl dest_uri (into_bytes new) (fs_state st))
           st (\<lambda>st.
             let dest_write_change_index = length (changes (delta st));
                 st = record_change (dest_uri, ChangeAdd new overwritten) st
             in remove_file_checked fs paths fl ''remove original'' path_uri (Some original) st (\<lambda>st.
                  (Inr (), note_modified affected_path
                     (st\<lparr>delta := (delta st)\<lparr>changes := (changes (delta st))
                        [dest_write_change_index :=
                           (path_uri, ChangeUpdate (Some dest_uri) original overwritten new)]\<rparr>\<rparr>)))))"

definition apply_update_file ::
  "('p, 's) file_system \<Rightarrow> 'p path_ops \<Rightarrow> ApplyPatchOptions \<Rightarrow> 'p \<Rightarrow> 'p \<Rightarrow> rstr \<Rightarrow> rstr option
   \<Rightarrow> UpdateFileChunk list \<Rightarrow> ('p, 's) apply_state \<Rightarrow> ('p, 's) handler_result" where
  "apply_update_file fs paths opts cwd path_uri affected_path move_path chunks st =
     (let fl = follow_symlinks opts;
          st = set_exact
            (note_existing_path_delta_support fs fl path_uri (fs_state st) (exact (delta st))) st
      in case derive_new_contents_from_chunks fs paths opts path_uri chunks (fs_state st) of
           Inl f \<Rightarrow> (Inl f, st)
         | Inr (original, new) \<Rightarrow>
             (case move_path of
                None \<Rightarrow> apply_update_in_place fs paths fl path_uri affected_path original new st
              | Some dest \<Rightarrow>
                  (case path_join paths cwd dest of
                     Inl m \<Rightarrow> (Inl (Failed (PathError m)), st)
                   | Inr dest_uri \<Rightarrow>
                       apply_update_with_move fs paths fl path_uri dest_uri affected_path original new st)))"

definition apply_hunk ::
  "('p, 's) file_system \<Rightarrow> 'p path_ops \<Rightarrow> ApplyPatchOptions \<Rightarrow> 'p \<Rightarrow> Hunk
   \<Rightarrow> ('p, 's) apply_state \<Rightarrow> ('p, 's) handler_result" where
  "apply_hunk fs paths opts cwd hunk st =
     (case path_join paths cwd (hunk_source_path hunk) of
        Inl m \<Rightarrow> (Inl (Failed (PathError m)), st)
      | Inr path_uri \<Rightarrow>
          (case hunk of
             AddFile _ contents \<Rightarrow> apply_add_file fs paths opts path_uri (hunk_path hunk) contents st
           | DeleteFile _ \<Rightarrow> apply_delete_file fs paths opts path_uri (hunk_path hunk) st
           | UpdateFile _ move_path chunks \<Rightarrow>
               apply_update_file fs paths opts cwd path_uri (hunk_path hunk) move_path chunks st))"

section \<open>A whole patch\<close>

fun apply_hunk_list ::
  "('p, 's) file_system \<Rightarrow> 'p path_ops \<Rightarrow> ApplyPatchOptions \<Rightarrow> 'p \<Rightarrow> Hunk list
   \<Rightarrow> ('p, 's) apply_state \<Rightarrow> ('p, 's) handler_result" where
  "apply_hunk_list fs paths opts cwd [] st = (Inr (), st)"
| "apply_hunk_list fs paths opts cwd (h # hs) st =
     (case apply_hunk fs paths opts cwd h st of
        (Inl e, st') \<Rightarrow> (Inl e, st')
      | (Inr _, st') \<Rightarrow> apply_hunk_list fs paths opts cwd hs st')"

definition initial_state :: "'s \<Rightarrow> ('p, 's) apply_state" where
  "initial_state s = \<lparr>fs_state = s, delta = empty_delta,
     affected = \<lparr>added = [], modified = [], deleted = []\<rparr>\<rparr>"

definition apply_hunks_to_files ::
  "('p, 's) file_system \<Rightarrow> 'p path_ops \<Rightarrow> ApplyPatchOptions \<Rightarrow> 'p \<Rightarrow> Hunk list \<Rightarrow> 's
   \<Rightarrow> ('p, 's) handler_result" where
  "apply_hunks_to_files fs paths opts cwd hs s =
     (if hs = [] then (Inl (Failed (Message (lit ''No files were modified.''))), initial_state s)
      else apply_hunk_list fs paths opts cwd hs (initial_state s))"

text \<open>\<open>stdout\<close> and \<open>stderr\<close> are arguments: what writing a piece of text answers.\<close>

type_synonym writer = "rstr \<Rightarrow> IoErr + unit"

fun write_lines :: "writer \<Rightarrow> rstr list \<Rightarrow> IoErr + unit" where
  "write_lines w [] = Inr ()"
| "write_lines w (l # ls) = bind_result (w (l @ [nl])) (\<lambda>_. write_lines w ls)"

definition summary_lines :: "AffectedPaths \<Rightarrow> rstr list" where
  "summary_lines a =
     lit ''Success. Updated the following files:''
     # map (\<lambda>p. lit ''A '' @ p) (added a) @ map (\<lambda>p. lit ''M '' @ p) (modified a)
     @ map (\<lambda>p. lit ''D '' @ p) (deleted a)"

definition print_summary :: "AffectedPaths \<Rightarrow> writer \<Rightarrow> IoErr + unit" where
  "print_summary a w = write_lines w (summary_lines a)"

definition from_io :: "IoErr \<Rightarrow> ApplyPatchError" where
  "from_io e = IoFailed (lit ''I/O error'') e"

type_synonym 'p apply_result =
  "(ApplyPatchError \<times> 'p AppliedPatchDelta) fault + 'p AppliedPatchDelta"

definition apply_hunks_with_options ::
  "('p, 's) file_system \<Rightarrow> 'p path_ops \<Rightarrow> ApplyPatchOptions \<Rightarrow> 'p \<Rightarrow> Hunk list
   \<Rightarrow> writer \<Rightarrow> writer \<Rightarrow> 's \<Rightarrow> 'p apply_result \<times> 's" where
  "apply_hunks_with_options fs paths opts cwd hs stdout stderr s =
     (case apply_hunks_to_files fs paths opts cwd hs s of
        (Inl Panicked, st) \<Rightarrow> (Inl Panicked, fs_state st)
      | (Inr _, st) \<Rightarrow>
          (case print_summary (affected st) stdout of
             Inl e \<Rightarrow> (Inl (Failed (from_io e, delta st)), fs_state st)
           | Inr _ \<Rightarrow> (Inr (delta st), fs_state st))
      | (Inl (Failed error), st) \<Rightarrow>
          (let msg = any_error_display error
           in case write_lines stderr [msg] of
                Inl e \<Rightarrow> (Inl (Failed (from_io e, delta st)), fs_state st)
              | Inr _ \<Rightarrow>
                  (Inl (Failed
                     ((case downcast_io error of
                         Some io \<Rightarrow> from_io io
                       | None \<Rightarrow> IoFailed msg \<lparr>io_kind = OtherKind, io_message = msg\<rparr>),
                      delta st)), fs_state st)))"

fun invalid_patch_line :: "ParseError \<Rightarrow> rstr" where
  "invalid_patch_line (InvalidPatchError m) = lit ''Invalid patch: '' @ m"
| "invalid_patch_line (InvalidHunkError m n) =
     lit ''Invalid patch hunk on line '' @ dec n @ lit '': '' @ m"

definition apply_patch_with_options ::
  "('p, 's) file_system \<Rightarrow> 'p path_ops \<Rightarrow> rstr \<Rightarrow> ApplyPatchOptions \<Rightarrow> 'p
   \<Rightarrow> writer \<Rightarrow> writer \<Rightarrow> 's \<Rightarrow> 'p apply_result \<times> 's" where
  "apply_patch_with_options fs paths patch opts cwd stdout stderr s =
     (case parse_patch patch of
        Inl e \<Rightarrow>
          (case write_lines stderr [invalid_patch_line e] of
             Inl io \<Rightarrow> (Inl (Failed (from_io io, empty_delta)), s)
           | Inr _ \<Rightarrow> (Inl (Failed (ParseFailed e, empty_delta)), s))
      | Inr args \<Rightarrow> apply_hunks_with_options fs paths opts cwd (args_hunks args) stdout stderr s)"

definition apply_patch ::
  "('p, 's) file_system \<Rightarrow> 'p path_ops \<Rightarrow> rstr \<Rightarrow> 'p \<Rightarrow> writer \<Rightarrow> writer \<Rightarrow> 's
   \<Rightarrow> 'p apply_result \<times> 's" where
  "apply_patch fs paths patch cwd stdout stderr s =
     apply_patch_with_options fs paths patch default_options cwd stdout stderr s"

end
