(* ===== verification/Patch_Effects.thy ===== *)
theory Patch_Effects
  imports Patch_Apply
begin

text \<open>
  What applying a patch does to the files: a refinement of the handlers to an effect on a map
  from paths to texts, and the meaning of the committed delta. \<open>fs_laws\<close> is what a file
  system must promise for this: a write that succeeds stores the text and touches nothing
  else, a removal removes one file, one that fails leaves the file as it was or gone, and
  neither directories nor a write refused with \<open>NotFound\<close> change any text. It holds of
  a file system whose paths are not aliases of one another.
\<close>

section \<open>The laws of the file system\<close>

definition view :: "('p, 's) file_system \<Rightarrow> bool \<Rightarrow> 's \<Rightarrow> 'p \<Rightarrow> rstr option" where
  "view fs fl s p = (case fs_read_file_text fs s p fl of Inr c \<Rightarrow> Some c | Inl _ \<Rightarrow> None)"

definition write_law :: "('p, 's) file_system \<Rightarrow> bool \<Rightarrow> bool" where
  "write_law fs fl \<longleftrightarrow>
     (\<forall>s p c s'. fs_write_file fs s p (into_bytes c) fl = (Inr (), s')
        \<longrightarrow> view fs fl s' = (view fs fl s)(p \<mapsto> c))
     \<and> (\<forall>s p bs e s'. fs_write_file fs s p bs fl = (Inl e, s') \<longrightarrow> io_kind e = NotFound
        \<longrightarrow> view fs fl s' = view fs fl s)"

definition directory_law :: "('p, 's) file_system \<Rightarrow> bool \<Rightarrow> bool" where
  "directory_law fs fl \<longleftrightarrow>
     (\<forall>s p r s'. fs_create_directory fs s p True fl = (r, s') \<longrightarrow> view fs fl s' = view fs fl s)"

definition remove_law :: "('p, 's) file_system \<Rightarrow> bool \<Rightarrow> bool" where
  "remove_law fs fl \<longleftrightarrow>
     (\<forall>s p s'. fs_remove fs s p False False fl = (Inr (), s')
        \<longrightarrow> view fs fl s' = (view fs fl s)(p := None))
     \<and> (\<forall>s p e s'. fs_remove fs s p False False fl = (Inl e, s')
        \<longrightarrow> view fs fl s' = view fs fl s \<or> view fs fl s' = (view fs fl s)(p := None))"

definition fs_laws :: "('p, 's) file_system \<Rightarrow> bool \<Rightarrow> bool" where
  "fs_laws fs fl \<longleftrightarrow> write_law fs fl \<and> directory_law fs fl \<and> remove_law fs fl"

section \<open>The meaning of a delta\<close>

fun apply_change :: "'p AppliedPatchChange \<Rightarrow> ('p \<Rightarrow> rstr option) \<Rightarrow> 'p \<Rightarrow> rstr option" where
  "apply_change (p, ChangeAdd c ov) m = m(p \<mapsto> c)"
| "apply_change (p, ChangeDelete c) m = m(p := None)"
| "apply_change (p, ChangeUpdate None old ov new) m = m(p \<mapsto> new)"
| "apply_change (p, ChangeUpdate (Some q) old ov new) m = (m(q \<mapsto> new))(p := None)"

fun undo_change :: "'p AppliedPatchChange \<Rightarrow> ('p \<Rightarrow> rstr option) \<Rightarrow> 'p \<Rightarrow> rstr option" where
  "undo_change (p, ChangeAdd c ov) m = m(p := ov)"
| "undo_change (p, ChangeDelete c) m = m(p \<mapsto> c)"
| "undo_change (p, ChangeUpdate None old ov new) m = m(p \<mapsto> old)"
| "undo_change (p, ChangeUpdate (Some q) old ov new) m = (m(q := ov))(p \<mapsto> old)"

text \<open>Between two states: changes are only added, and while the delta is exact they lead from
  the old texts to the new ones and back.\<close>

definition step_ok ::
  "('p, 's) file_system \<Rightarrow> bool \<Rightarrow> ('p, 's) apply_state \<Rightarrow> ('p, 's) apply_state \<Rightarrow> bool" where
  "step_ok fs fl st st' \<longleftrightarrow>
     (\<exists>cs. changes (delta st') = changes (delta st) @ cs
       \<and> (exact (delta st') \<longrightarrow> exact (delta st)
           \<and> fold apply_change cs (view fs fl (fs_state st)) = view fs fl (fs_state st')
           \<and> foldr undo_change cs (view fs fl (fs_state st')) = view fs fl (fs_state st)))"

lemma step_ok_none:
  "changes (delta st') = changes (delta st) \<Longrightarrow> (exact (delta st') \<Longrightarrow> exact (delta st)) \<Longrightarrow>
     (exact (delta st') \<Longrightarrow> view fs fl (fs_state st') = view fs fl (fs_state st)) \<Longrightarrow> step_ok fs fl st st'"
  unfolding step_ok_def by (intro exI [of _ "[]"]) simp

lemma step_ok_one:
  "changes (delta st') = changes (delta st) @ [c] \<Longrightarrow> (exact (delta st') \<Longrightarrow> exact (delta st)) \<Longrightarrow>
     (exact (delta st') \<Longrightarrow> view fs fl (fs_state st') = apply_change c (view fs fl (fs_state st))) \<Longrightarrow>
     (exact (delta st') \<Longrightarrow> undo_change c (view fs fl (fs_state st')) = view fs fl (fs_state st)) \<Longrightarrow>
     step_ok fs fl st st'"
  unfolding step_ok_def by (intro exI [of _ "[c]"]) simp

lemma step_ok_trans:
  assumes "step_ok fs fl st st'" "step_ok fs fl st' st''"
  shows "step_ok fs fl st st''"
proof -
  from assms obtain cs ds where
    "changes (delta st') = changes (delta st) @ cs" "changes (delta st'') = changes (delta st') @ ds"
    "exact (delta st') \<longrightarrow> exact (delta st)
       \<and> fold apply_change cs (view fs fl (fs_state st)) = view fs fl (fs_state st')
       \<and> foldr undo_change cs (view fs fl (fs_state st')) = view fs fl (fs_state st)"
    "exact (delta st'') \<longrightarrow> exact (delta st')
       \<and> fold apply_change ds (view fs fl (fs_state st')) = view fs fl (fs_state st'')
       \<and> foldr undo_change ds (view fs fl (fs_state st'')) = view fs fl (fs_state st')"
    unfolding step_ok_def by blast
  then show ?thesis unfolding step_ok_def by (intro exI [of _ "cs @ ds"]) auto
qed

section \<open>The helpers keep their promises\<close>

lemma state_simps [simp]:
  "fs_state (set_exact b st) = fs_state st" "changes (delta (set_exact b st)) = changes (delta st)"
  "exact (delta (set_exact b st)) = b" "affected (set_exact b st) = affected st"
  "fs_state (record_change c st) = fs_state st"
  "changes (delta (record_change c st)) = changes (delta st) @ [c]"
  "exact (delta (record_change c st)) = exact (delta st)"
  "affected (record_change c st) = affected st"
  "fs_state (note_modified p st) = fs_state st" "delta (note_modified p st) = delta st"
  by (simp_all add: set_exact_def record_change_def push_change_def note_modified_def)

lemma write_with_context_view:
  assumes "fs_laws fs fl" "write_file_with_context fs paths fl p (into_bytes c) s = (Inr u, s')"
  shows "view fs fl s' = (view fs fl s)(p \<mapsto> c)"
  using assms
  by (auto simp: fs_laws_def write_law_def write_file_with_context_def split: prod.splits sum.splits)

lemma write_retry_view:
  assumes "fs_laws fs fl"
    "write_file_with_missing_parent_retry fs paths fl p (into_bytes c) s = (Inr u, s')"
  shows "view fs fl s' = (view fs fl s)(p \<mapsto> c)"
proof -
  obtain r s1 where w: "fs_write_file fs s p (into_bytes c) fl = (r, s1)" by fastforce
  show ?thesis
  proof (cases r)
    case (Inr x)
    with assms w show ?thesis
      by (auto simp: fs_laws_def write_law_def write_file_with_missing_parent_retry_def)
  next
    case (Inl e)
    with assms(2) w obtain s2 where e: "io_kind e = NotFound"
      and d: "path_parent paths p = None \<and> s2 = s1 \<or>
        (\<exists>q u. path_parent paths p = Some q \<and> fs_create_directory fs s1 q True fl = (Inr u, s2))"
      and w2: "write_file_with_context fs paths fl p (into_bytes c) s2 = (Inr u, s')"
      by (auto simp: write_file_with_missing_parent_retry_def split: if_splits option.splits
          prod.splits sum.splits)
    have "view fs fl s1 = view fs fl s"
      using assms(1) w Inl e unfolding fs_laws_def write_law_def by blast
    moreover have "view fs fl s2 = view fs fl s1"
      using assms(1) d unfolding fs_laws_def directory_law_def by metis
    ultimately show ?thesis using write_with_context_view [OF assms(1) w2] by simp
  qed
qed

lemma note_existing_exact:
  "note_existing_path_delta_support fs fl p s ex \<Longrightarrow> ex"
  by (simp add: note_existing_path_delta_support_def split: sum.splits if_splits)

lemma read_optional_view:
  assumes "read_optional_file_text_for_delta fs fl p s ex = (ov, ex')"
  shows "ov = view fs fl s p" "ex' \<Longrightarrow> ex"
  using assms note_existing_exact
  by (auto simp: read_optional_file_text_for_delta_def view_def Let_def split: sum.splits if_splits)

lemma remove_checked_cases:
  assumes "fs_laws fs fl" "remove_file_checked fs paths fl what p expected st k = (r, st')"
  obtains (removed) s' where "k (st\<lparr>fs_state := s'\<rparr>) = (r, st')"
      "view fs fl s' = (view fs fl (fs_state st))(p := None)"
  | (failed) e where "r = Inl (Failed e)" "changes (delta st') = changes (delta st)"
      "exact (delta st') \<Longrightarrow> exact (delta st)"
      "exact (delta st') \<Longrightarrow> view fs fl (fs_state st') = view fs fl (fs_state st)"
proof (cases "ensure_not_directory fs fl p (fs_state st)")
  case (Inl e)
  with assms(2) show thesis by (auto simp: remove_file_checked_def intro: failed)
next
  case (Inr u)
  obtain q s' where q: "fs_remove fs (fs_state st) p False False fl = (q, s')" by fastforce
  show thesis
  proof (cases q)
    case (Inr u')
    then have "view fs fl s' = (view fs fl (fs_state st))(p := None)"
      using assms(1) q by (simp add: fs_laws_def remove_law_def)
    with assms(2) q \<open>q = _\<close> \<open>ensure_not_directory _ _ _ _ = _\<close> show thesis
      by (intro removed) (auto simp: remove_file_checked_def)
  next
    case (Inl e)
    have v: "view fs fl s' = view fs fl (fs_state st) \<or> view fs fl s' = (view fs fl (fs_state st))(p := None)"
      using assms(1) q Inl by (auto simp: fs_laws_def remove_law_def)
    have "view fs fl s' = view fs fl (fs_state st)"
      if "remove_failure_was_side_effect_free fs fl p expected s'"
    proof -
      have "view fs fl s' p \<noteq> None"
        using that by (auto simp: remove_failure_was_side_effect_free_def view_def split: option.splits sum.splits)
      with v show ?thesis by auto
    qed
    with assms(2) q Inl \<open>ensure_not_directory _ _ _ _ = _\<close> show thesis
      by (intro failed) (auto simp: remove_file_checked_def)
  qed
qed

section \<open>Every handler is a step\<close>

lemma try_write_cases:
  assumes "try_write w st k = (r, st')"
  obtains (wrote) s' where "w = (Inr (), s')" "k (st\<lparr>fs_state := s'\<rparr>) = (r, st')"
  | (failed) e where "r = Inl (Failed e)" "changes (delta st') = changes (delta st)"
      "\<not> exact (delta st')"
  using assms by (auto simp: try_write_def split: prod.splits sum.splits)

lemma map_upd_ident: "(m(p \<mapsto> c))(p := m p) = m"
  by auto

lemma apply_add_file_step:
  assumes "fs_laws fs (follow_symlinks opts)"
    and "apply_add_file fs paths opts p ap c st = (r, st')"
  shows "step_ok fs (follow_symlinks opts) st st'"
proof -
  let ?fl = "follow_symlinks opts"
  obtain ov ex where o: "read_optional_file_text_for_delta fs ?fl p (fs_state st) (exact (delta st)) = (ov, ex)"
    by fastforce
  note ov = read_optional_view [OF o]
  from assms(2) o have t: "try_write
      (write_file_with_missing_parent_retry fs paths ?fl p (into_bytes c) (fs_state st))
      (set_exact ex st) (\<lambda>st. (Inr (), (record_change (p, ChangeAdd c ov) st)
        \<lparr>affected := (affected st)\<lparr>added := added (affected st) @ [ap]\<rparr>\<rparr>)) = (r, st')"
    by (simp add: apply_add_file_def Let_def)
  from t show ?thesis
  proof (cases rule: try_write_cases)
    case (wrote s')
    have "view fs ?fl s' = (view fs ?fl (fs_state st))(p \<mapsto> c)"
      using wrote(1) by (rule write_retry_view [OF assms(1)])
    then show ?thesis
      using wrote(2) ov
      by (intro step_ok_one [of _ _ "(p, ChangeAdd c ov)"]) (auto simp: map_upd_ident)
  next
    case (failed e)
    then show ?thesis by (intro step_ok_none) auto
  qed
qed

lemma apply_delete_file_step:
  assumes "fs_laws fs (follow_symlinks opts)"
    and "apply_delete_file fs paths opts p ap st = (r, st')"
  shows "step_ok fs (follow_symlinks opts) st st'"
proof -
  let ?fl = "follow_symlinks opts"
  let ?dc = "case fs_read_file_text fs (fs_state st) p ?fl of Inr c \<Rightarrow> Some c | Inl _ \<Rightarrow> None"
  define ex where "ex = (if ?dc = None then False
    else note_existing_path_delta_support fs ?fl p (fs_state st) (exact (delta st)))"
  have ex: "ex \<Longrightarrow> exact (delta st)" "ex \<Longrightarrow> ?dc \<noteq> None"
    using note_existing_exact by (auto simp: ex_def split: if_splits)
  have dc: "?dc = view fs ?fl (fs_state st) p" by (simp add: view_def)
  define k :: "('a, 'b) apply_state \<Rightarrow> ('a, 'b) handler_result" where "k = (\<lambda>st.
      let st = (case ?dc of Some content \<Rightarrow> record_change (p, ChangeDelete content) st | None \<Rightarrow> st)
      in (Inr (), st\<lparr>affected := (affected st)\<lparr>deleted := deleted (affected st) @ [ap]\<rparr>\<rparr>))"
  have c: "remove_file_checked fs paths ?fl ''delete file'' p ?dc (set_exact ex st) k = (r, st')"
    using assms(2) by (simp add: apply_delete_file_def Let_def ex_def k_def)
  show ?thesis
  proof (rule remove_checked_cases [OF assms(1) c])
    fix s' assume k: "k ((set_exact ex st)\<lparr>fs_state := s'\<rparr>) = (r, st')"
      and v: "view fs ?fl s' = (view fs ?fl (fs_state (set_exact ex st)))(p := None)"
    show ?thesis
    proof (cases "view fs ?fl (fs_state st) p")
      case None
      with k dc ex show ?thesis
        by (intro step_ok_none) (auto simp: k_def Let_def)
    next
      case (Some content)
      with k dc ex v show ?thesis
        by (intro step_ok_one [of _ _ "(p, ChangeDelete content)"]) (auto simp: k_def Let_def)
    qed
  next
    fix e assume f: "changes (delta st') = changes (delta (set_exact ex st))"
      "exact (delta st') \<Longrightarrow> exact (delta (set_exact ex st))"
      "exact (delta st') \<Longrightarrow> view fs ?fl (fs_state st') = view fs ?fl (fs_state (set_exact ex st))"
    then show ?thesis using ex by (intro step_ok_none) auto
  qed
qed

lemma apply_update_in_place_step:
  assumes "fs_laws fs fl" "view fs fl (fs_state st) p = Some original"
    and "apply_update_in_place fs paths fl p ap original new st = (r, st')"
  shows "step_ok fs fl st st'"
  using assms(3) unfolding apply_update_in_place_def
proof (cases rule: try_write_cases)
  case (wrote s')
  have "view fs fl s' = (view fs fl (fs_state st))(p \<mapsto> new)"
    using wrote(1) by (rule write_with_context_view [OF assms(1)])
  then show ?thesis
    using wrote(2) assms(2)
    by (intro step_ok_one [of _ _ "(p, ChangeUpdate None original None new)"])
       (auto simp: fun_upd_idem)
next
  case (failed e)
  then show ?thesis by (intro step_ok_none) auto
qed

lemma apply_update_with_move_step:
  assumes "fs_laws fs fl" "view fs fl (fs_state st) p = Some original"
    and "apply_update_with_move fs paths fl p q ap original new st = (r, st')"
  shows "step_ok fs fl st st'"
proof -
  obtain ov ex where o: "read_optional_file_text_for_delta fs fl q (fs_state st) (exact (delta st)) = (ov, ex)"
    by fastforce
  note ov = read_optional_view [OF o]
  let ?rec = "\<lambda>st. record_change (q, ChangeAdd new ov) st"
  let ?k = "\<lambda>n st. (Inr (), note_modified ap (st\<lparr>delta := (delta st)\<lparr>changes := (changes (delta st))
      [n := (p, ChangeUpdate (Some q) original ov new)]\<rparr>\<rparr>))"
  from assms(3) o have t: "try_write
      (write_file_with_missing_parent_retry fs paths fl q (into_bytes new) (fs_state st))
      (set_exact ex st) (\<lambda>st. remove_file_checked fs paths fl ''remove original'' p (Some original)
        (?rec st) (?k (length (changes (delta st))))) = (r, st')"
    by (simp add: apply_update_with_move_def Let_def)
  from t show ?thesis
  proof (cases rule: try_write_cases)
    case (wrote s')
    let ?st1 = "?rec ((set_exact ex st)\<lparr>fs_state := s'\<rparr>)"
    have v1: "view fs fl s' = (view fs fl (fs_state st))(q \<mapsto> new)"
      using wrote(1) by (rule write_retry_view [OF assms(1)])
    from wrote(2) show ?thesis
    proof (rule remove_checked_cases [OF assms(1)])
      fix s2 assume k: "?k (length (changes (delta ((set_exact ex st)\<lparr>fs_state := s'\<rparr>))))
          (?st1\<lparr>fs_state := s2\<rparr>) = (r, st')"
        and v2: "view fs fl s2 = (view fs fl (fs_state ?st1))(p := None)"
      have "changes (delta st') = changes (delta st) @ [(p, ChangeUpdate (Some q) original ov new)]"
        "exact (delta st') = ex" "fs_state st' = s2"
        using k by auto
      then show ?thesis
        using v1 v2 ov assms(2)
        by (intro step_ok_one [of _ _ "(p, ChangeUpdate (Some q) original ov new)"]) auto
    next
      fix e assume "changes (delta st') = changes (delta ?st1)"
        "exact (delta st') \<Longrightarrow> exact (delta ?st1)"
        "exact (delta st') \<Longrightarrow> view fs fl (fs_state st') = view fs fl (fs_state ?st1)"
      then show ?thesis
        using v1 ov
        by (intro step_ok_one [of _ _ "(q, ChangeAdd new ov)"]) (auto simp: map_upd_ident)
    qed
  next
    case (failed e)
    then show ?thesis by (intro step_ok_none) auto
  qed
qed

lemma derive_new_contents_Inr:
  assumes "derive_new_contents_from_chunks fs paths opts p chunks s = Inr (original, new)"
  shows "view fs (follow_symlinks opts) s p = Some original"
    "new_contents_from_chunks original (native_path_string paths p) chunks (update_file_mode opts) = Inr new"
  using assms
  by (auto simp: derive_new_contents_from_chunks_def view_def split: sum.splits fault.splits)

lemma apply_update_file_step:
  assumes "fs_laws fs (follow_symlinks opts)"
    and "apply_update_file fs paths opts cwd p ap mv chunks st = (r, st')"
  shows "step_ok fs (follow_symlinks opts) st st'"
proof -
  let ?fl = "follow_symlinks opts"
  let ?st = "set_exact (note_existing_path_delta_support fs ?fl p (fs_state st) (exact (delta st))) st"
  have first: "step_ok fs ?fl st ?st" using note_existing_exact by (intro step_ok_none) auto
  have "step_ok fs ?fl ?st st'"
  proof (cases "derive_new_contents_from_chunks fs paths opts p chunks (fs_state st)")
    case (Inl f)
    with assms(2) show ?thesis by (auto simp: apply_update_file_def Let_def intro: step_ok_none)
  next
    case (Inr d)
    obtain original new where d: "d = (original, new)" by fastforce
    have v: "view fs ?fl (fs_state ?st) p = Some original"
      using derive_new_contents_Inr [OF Inr [unfolded d]] by simp
    from assms(2) Inr d v show ?thesis
      by (auto simp: apply_update_file_def Let_def split: option.splits sum.splits
          intro: step_ok_none apply_update_in_place_step [OF assms(1)]
            apply_update_with_move_step [OF assms(1)])
  qed
  with first show ?thesis by (rule step_ok_trans)
qed

lemma apply_hunk_step:
  assumes "fs_laws fs (follow_symlinks opts)" "apply_hunk fs paths opts cwd h st = (r, st')"
  shows "step_ok fs (follow_symlinks opts) st st'"
  using assms(2)
  by (auto simp: apply_hunk_def split: sum.splits Hunk.splits
      intro: step_ok_none apply_add_file_step [OF assms(1)] apply_delete_file_step [OF assms(1)]
        apply_update_file_step [OF assms(1)])

lemma apply_hunk_list_step:
  assumes "fs_laws fs (follow_symlinks opts)" "apply_hunk_list fs paths opts cwd hs st = (r, st')"
  shows "step_ok fs (follow_symlinks opts) st st'"
  using assms(2)
proof (induction hs arbitrary: st)
  case Nil
  then show ?case by (auto intro: step_ok_none)
next
  case (Cons h hs)
  obtain q st1 where h: "apply_hunk fs paths opts cwd h st = (q, st1)" by fastforce
  note s1 = apply_hunk_step [OF assms(1) h]
  show ?case
  proof (cases q)
    case (Inl e)
    with Cons.prems h s1 show ?thesis by simp
  next
    case (Inr u)
    with Cons.prems h have "step_ok fs (follow_symlinks opts) st1 st'" by (intro Cons.IH) simp
    with s1 show ?thesis by (rule step_ok_trans)
  qed
qed

section \<open>The effect of a hunk on the files\<close>

definition hunk_effect ::
  "'p path_ops \<Rightarrow> ApplyPatchOptions \<Rightarrow> 'p \<Rightarrow> Hunk \<Rightarrow> ('p \<Rightarrow> rstr option) \<Rightarrow> ('p \<Rightarrow> rstr option) option" where
  "hunk_effect paths opts cwd h m =
     (case path_join paths cwd (hunk_source_path h) of
        Inl _ \<Rightarrow> None
      | Inr p \<Rightarrow>
          (case h of
             AddFile _ contents \<Rightarrow> Some (m(p \<mapsto> contents))
           | DeleteFile _ \<Rightarrow> Some (m(p := None))
           | UpdateFile _ mv chunks \<Rightarrow>
               (case m p of
                  None \<Rightarrow> None
                | Some original \<Rightarrow>
                    (case new_contents_from_chunks original (native_path_string paths p) chunks
                            (update_file_mode opts) of
                       Inl _ \<Rightarrow> None
                     | Inr new \<Rightarrow>
                         (case mv of
                            None \<Rightarrow> Some (m(p \<mapsto> new))
                          | Some dest \<Rightarrow>
                              (case path_join paths cwd dest of
                                 Inl _ \<Rightarrow> None
                               | Inr q \<Rightarrow> Some ((m(q \<mapsto> new))(p := None))))))))"

fun hunks_effect ::
  "'p path_ops \<Rightarrow> ApplyPatchOptions \<Rightarrow> 'p \<Rightarrow> Hunk list \<Rightarrow> ('p \<Rightarrow> rstr option) \<Rightarrow> ('p \<Rightarrow> rstr option) option" where
  "hunks_effect paths opts cwd [] m = Some m"
| "hunks_effect paths opts cwd (h # hs) m =
     (case hunk_effect paths opts cwd h m of
        None \<Rightarrow> None | Some m' \<Rightarrow> hunks_effect paths opts cwd hs m')"

lemma try_write_Inr:
  assumes "try_write w st k = (Inr u, st')"
  obtains s' where "w = (Inr (), s')" "k (st\<lparr>fs_state := s'\<rparr>) = (Inr u, st')"
  using assms by (auto simp: try_write_def split: prod.splits sum.splits)

lemma remove_checked_Inr:
  assumes "fs_laws fs fl" "remove_file_checked fs paths fl what p expected st k = (Inr u, st')"
  obtains s' where "k (st\<lparr>fs_state := s'\<rparr>) = (Inr u, st')"
      "view fs fl s' = (view fs fl (fs_state st))(p := None)"
  using assms(2) by (rule remove_checked_cases [OF assms(1)]) (use that in auto)

lemma apply_add_file_effect:
  assumes "fs_laws fs (follow_symlinks opts)" "apply_add_file fs paths opts p ap c st = (Inr u, st')"
  shows "view fs (follow_symlinks opts) (fs_state st') =
      (view fs (follow_symlinks opts) (fs_state st))(p \<mapsto> c)"
    and "affected st' = (affected st)\<lparr>added := added (affected st) @ [ap]\<rparr>"
  using assms(2) write_retry_view [OF assms(1)]
  by (auto simp: apply_add_file_def Let_def split: prod.splits elim!: try_write_Inr)

lemma apply_delete_file_effect:
  assumes "fs_laws fs (follow_symlinks opts)" "apply_delete_file fs paths opts p ap st = (Inr u, st')"
  shows "view fs (follow_symlinks opts) (fs_state st') =
      (view fs (follow_symlinks opts) (fs_state st))(p := None)"
    and "affected st' = (affected st)\<lparr>deleted := deleted (affected st) @ [ap]\<rparr>"
  using assms(2)
  by (auto simp: apply_delete_file_def Let_def split: option.splits sum.splits
      elim!: remove_checked_Inr [OF assms(1)])

lemma apply_update_file_effect:
  assumes "fs_laws fs (follow_symlinks opts)"
    and "apply_update_file fs paths opts cwd p ap mv chunks st = (Inr u, st')"
  shows "\<exists>original new. view fs (follow_symlinks opts) (fs_state st) p = Some original
    \<and> new_contents_from_chunks original (native_path_string paths p) chunks (update_file_mode opts) = Inr new
    \<and> (case mv of
         None \<Rightarrow> view fs (follow_symlinks opts) (fs_state st') =
           (view fs (follow_symlinks opts) (fs_state st))(p \<mapsto> new)
       | Some dest \<Rightarrow> \<exists>q. path_join paths cwd dest = Inr q \<and> view fs (follow_symlinks opts) (fs_state st') =
           ((view fs (follow_symlinks opts) (fs_state st))(q \<mapsto> new))(p := None))
    \<and> affected st' = (affected st)\<lparr>modified := modified (affected st) @ [ap]\<rparr>"
proof -
  let ?fl = "follow_symlinks opts"
  let ?st = "set_exact (note_existing_path_delta_support fs ?fl p (fs_state st) (exact (delta st))) st"
  from assms(2) obtain original new
    where d: "derive_new_contents_from_chunks fs paths opts p chunks (fs_state st) = Inr (original, new)"
    by (auto simp: apply_update_file_def Let_def split: sum.splits)
  note dd = derive_new_contents_Inr [OF d]
  show ?thesis
  proof (cases mv)
    case None
    with assms(2) d have "apply_update_in_place fs paths ?fl p ap original new ?st = (Inr u, st')"
      by (simp add: apply_update_file_def Let_def)
    then show ?thesis
      using write_with_context_view [OF assms(1)] dd None
      by (auto simp: apply_update_in_place_def note_modified_def elim!: try_write_Inr)
  next
    case (Some dest)
    with assms(2) d obtain q where q: "path_join paths cwd dest = Inr q"
      and m: "apply_update_with_move fs paths ?fl p q ap original new ?st = (Inr u, st')"
      by (auto simp: apply_update_file_def Let_def split: sum.splits)
    have "view fs ?fl (fs_state st') = ((view fs ?fl (fs_state st))(q \<mapsto> new))(p := None)
        \<and> affected st' = (affected st)\<lparr>modified := modified (affected st) @ [ap]\<rparr>"
      using m write_retry_view [OF assms(1)]
      by (auto simp: apply_update_with_move_def Let_def note_modified_def split: prod.splits
          elim!: try_write_Inr remove_checked_Inr [OF assms(1)])
    with q dd Some show ?thesis by auto
  qed
qed

text \<open>The summary a successful run reports: the paths of each kind of hunk, in order.\<close>

definition affected_by :: "Hunk list \<Rightarrow> AffectedPaths \<Rightarrow> AffectedPaths" where
  "affected_by hs a =
     \<lparr>added = added a @ map hunk_path (filter (\<lambda>h. case h of AddFile _ _ \<Rightarrow> True | _ \<Rightarrow> False) hs),
      modified = modified a @ map hunk_path (filter (\<lambda>h. case h of UpdateFile _ _ _ \<Rightarrow> True | _ \<Rightarrow> False) hs),
      deleted = deleted a @ map hunk_path (filter (\<lambda>h. case h of DeleteFile _ \<Rightarrow> True | _ \<Rightarrow> False) hs)\<rparr>"

lemma apply_hunk_effect:
  assumes "fs_laws fs (follow_symlinks opts)" "apply_hunk fs paths opts cwd h st = (Inr u, st')"
  shows "hunk_effect paths opts cwd h (view fs (follow_symlinks opts) (fs_state st)) =
      Some (view fs (follow_symlinks opts) (fs_state st'))"
    and "affected st' = affected_by [h] (affected st)"
proof -
  from assms(2) obtain p where p: "path_join paths cwd (hunk_source_path h) = Inr p"
    by (auto simp: apply_hunk_def split: sum.splits)
  have "hunk_effect paths opts cwd h (view fs (follow_symlinks opts) (fs_state st)) =
      Some (view fs (follow_symlinks opts) (fs_state st'))
    \<and> affected st' = affected_by [h] (affected st)"
  proof (cases h)
    case (AddFile path contents)
    with assms(2) p apply_add_file_effect [OF assms(1), of paths p path contents st u st']
    show ?thesis by (simp add: apply_hunk_def hunk_effect_def affected_by_def)
  next
    case (DeleteFile path)
    with assms(2) p apply_delete_file_effect [OF assms(1), of paths p path st u st']
    show ?thesis by (simp add: apply_hunk_def hunk_effect_def affected_by_def)
  next
    case (UpdateFile path mv chunks)
    with assms(2) p apply_update_file_effect [OF assms(1), of paths cwd p "hunk_path h" mv chunks st u st']
    show ?thesis
      by (auto simp: apply_hunk_def hunk_effect_def affected_by_def split: option.splits)
  qed
  then show "hunk_effect paths opts cwd h (view fs (follow_symlinks opts) (fs_state st)) =
      Some (view fs (follow_symlinks opts) (fs_state st'))"
    and "affected st' = affected_by [h] (affected st)"
    by auto
qed

lemma affected_by_Cons: "affected_by hs (affected_by [h] a) = affected_by (h # hs) a"
  by (cases h) (simp_all add: affected_by_def)

lemma apply_hunk_list_effect:
  assumes "fs_laws fs (follow_symlinks opts)" "apply_hunk_list fs paths opts cwd hs st = (Inr u, st')"
  shows "hunks_effect paths opts cwd hs (view fs (follow_symlinks opts) (fs_state st)) =
      Some (view fs (follow_symlinks opts) (fs_state st')) \<and> affected st' = affected_by hs (affected st)"
  using assms(2)
proof (induction hs arbitrary: st)
  case Nil
  then show ?case by (cases "affected st") (auto simp: affected_by_def)
next
  case (Cons h hs)
  then obtain v st1 where h: "apply_hunk fs paths opts cwd h st = (Inr v, st1)"
    and rest: "apply_hunk_list fs paths opts cwd hs st1 = (Inr u, st')"
    by (auto split: prod.splits sum.splits)
  from Cons.IH [OF rest] apply_hunk_effect [OF assms(1) h] show ?case
    by (simp add: affected_by_Cons)
qed

section \<open>A file system that keeps the laws\<close>

text \<open>A map from paths to the bytes of their files, for the examples.\<close>

fun decode_utf8 :: "int list \<Rightarrow> rstr" where
  "decode_utf8 [] = []"
| "decode_utf8 (b # bs) =
     (if b < 128 then b # decode_utf8 bs
      else if b < 224 then (case bs of
          x # r \<Rightarrow> ((b - 192) * 64 + (x - 128)) # decode_utf8 r
        | _ \<Rightarrow> [])
      else if b < 240 then (case bs of
          x # y # r \<Rightarrow> ((b - 224) * 4096 + (x - 128) * 64 + (y - 128)) # decode_utf8 r
        | _ \<Rightarrow> [])
      else (case bs of
          x # y # z # r \<Rightarrow>
            ((b - 240) * 262144 + (x - 128) * 4096 + (y - 128) * 64 + (z - 128)) # decode_utf8 r
        | _ \<Rightarrow> []))"

lemma decode_simps:
  "0 \<le> a \<Longrightarrow> a < 32 \<Longrightarrow> decode_utf8 ((192 + a) # (128 + x) # bs) = (a * 64 + x) # decode_utf8 bs"
  "0 \<le> a \<Longrightarrow> a < 16 \<Longrightarrow> decode_utf8 ((224 + a) # (128 + x) # (128 + y) # bs) =
     (a * 4096 + x * 64 + y) # decode_utf8 bs"
  "0 \<le> a \<Longrightarrow> decode_utf8 ((240 + a) # (128 + x) # (128 + y) # (128 + z) # bs) =
     (a * 262144 + x * 4096 + y * 64 + z) # decode_utf8 bs"
  by simp_all

lemma decode_encode: "decode_utf8 (encode_utf8 c @ bs) = c # decode_utf8 bs"
proof -
  have d: "c div 4096 = c div 64 div 64" "c div 262144 = c div 64 div 64 div 64"
    by (simp_all flip: zdiv_zmult2_eq)
  have e: "c = 64 * (c div 64) + c mod 64"
    "c div 64 = 64 * (c div 64 div 64) + c div 64 mod 64"
    "c div 64 div 64 = 64 * (c div 64 div 64 div 64) + c div 64 div 64 mod 64"
    by simp_all
  have f: "c div 64 * 64 + c mod 64 = c"
    "c div 4096 * 4096 + c div 64 mod 64 * 64 + c mod 64 = c"
    "c div 262144 * 262144 + c div 4096 mod 64 * 4096 + c div 64 mod 64 * 64 + c mod 64 = c"
    unfolding d using e by linarith+
  have b: "c < 2048 \<Longrightarrow> c div 64 < 32" "c < 65536 \<Longrightarrow> c div 4096 < 16"
    "\<not> c < 128 \<Longrightarrow> 0 \<le> c div 64" "\<not> c < 2048 \<Longrightarrow> 0 \<le> c div 4096"
    "\<not> c < 65536 \<Longrightarrow> 0 \<le> c div 262144"
    by linarith+
  consider "c < 128" | "\<not> c < 128" "c < 2048" | "\<not> c < 2048" "c < 65536" | "\<not> c < 65536" by linarith
  then show ?thesis
  proof cases
    case 1
    then show ?thesis by (simp add: encode_utf8_def)
  next
    case 2
    then have enc: "encode_utf8 c = [192 + c div 64, 128 + c mod 64]" by (simp add: encode_utf8_def)
    show ?thesis
      using decode_simps(1) [OF b(3) [OF 2(1)] b(1) [OF 2(2)], of "c mod 64" bs]
      unfolding enc f append.simps .
  next
    case 3
    then have enc: "encode_utf8 c = [224 + c div 4096, 128 + c div 64 mod 64, 128 + c mod 64]"
      by (simp add: encode_utf8_def)
    show ?thesis
      using decode_simps(2) [OF b(4) [OF 3(1)] b(2) [OF 3(2)], of "c div 64 mod 64" "c mod 64" bs]
      unfolding enc f append.simps .
  next
    case 4
    then have enc: "encode_utf8 c =
        [240 + c div 262144, 128 + c div 4096 mod 64, 128 + c div 64 mod 64, 128 + c mod 64]"
      by (simp add: encode_utf8_def)
    show ?thesis
      using decode_simps(3) [OF b(5) [OF 4], of "c div 4096 mod 64" "c div 64 mod 64" "c mod 64" bs]
      unfolding enc f append.simps .
  qed
qed

lemma decode_into_bytes [simp]: "decode_utf8 (into_bytes s) = s"
  by (induction s) (simp_all add: into_bytes_def decode_encode)

definition mem_fs :: "(rstr, rstr \<Rightarrow> int list option) file_system" where
  "mem_fs = \<lparr>
     fs_get_metadata = (\<lambda>s p fl. case s p of
        None \<Rightarrow> Inl \<lparr>io_kind = NotFound, io_message = []\<rparr>
      | Some c \<Rightarrow> Inr \<lparr>is_file = True, is_directory = False, is_symlink = False\<rparr>),
     fs_read_file_text = (\<lambda>s p fl. case s p of
        None \<Rightarrow> Inl \<lparr>io_kind = NotFound, io_message = []\<rparr>
      | Some c \<Rightarrow> Inr (decode_utf8 c)),
     fs_write_file = (\<lambda>s p c fl. (Inr (), s(p \<mapsto> c))),
     fs_create_directory = (\<lambda>s p rec fl. (Inr (), s)),
     fs_remove = (\<lambda>s p rec force fl. (Inr (), s(p := None)))\<rparr>"

definition flat_paths :: "rstr path_ops" where
  "flat_paths = \<lparr>path_join = (\<lambda>cwd p. Inr (cwd @ p)), path_parent = (\<lambda>p. None),
     native_path_string = (\<lambda>p. p)\<rparr>"

lemma mem_fs_laws: "fs_laws mem_fs fl"
  by (auto simp: fs_laws_def write_law_def directory_law_def remove_law_def mem_fs_def view_def)

section \<open>Properties\<close>

text \<open>C1: the committed delta is truthful, whether the patch succeeded or stopped in the
  middle with an error. As long as the delta is marked exact, replaying its changes on the
  files as they were gives the files as they are, and undoing them from the last to the first
  with the recorded old contents gives back the files as they were.\<close>

theorem exact_delta_replays_and_undoes:
  assumes "fs_laws fs (follow_symlinks opts)"
    and "apply_hunks_to_files fs paths opts cwd hs s = (r, st)"
    and "exact (delta st)"
  shows "fold apply_change (changes (delta st)) (view fs (follow_symlinks opts) s) =
      view fs (follow_symlinks opts) (fs_state st)
    \<and> foldr undo_change (changes (delta st)) (view fs (follow_symlinks opts) (fs_state st)) =
      view fs (follow_symlinks opts) s"
proof -
  have "step_ok fs (follow_symlinks opts) (initial_state s) st"
  proof (cases "hs = []")
    case True
    with assms(2) show ?thesis by (auto simp: apply_hunks_to_files_def intro: step_ok_none)
  next
    case False
    with assms(2) show ?thesis
      by (auto simp: apply_hunks_to_files_def intro: apply_hunk_list_step [OF assms(1)])
  qed
  with assms(3) show ?thesis by (auto simp: step_ok_def initial_state_def empty_delta_def)
qed

text \<open>C2: applying a patch refines the effect of its hunks. When it succeeds, the files are
  what the hunks, taken one after the other, make of the files before, no other file has
  changed, and the summary lists exactly the paths of the hunks by kind and in order.\<close>

theorem apply_hunks_refines_effect:
  assumes "fs_laws fs (follow_symlinks opts)"
    and "apply_hunks_to_files fs paths opts cwd hs s = (Inr (), st)"
  shows "hunks_effect paths opts cwd hs (view fs (follow_symlinks opts) s) =
      Some (view fs (follow_symlinks opts) (fs_state st))
    \<and> affected st = affected_by hs \<lparr>added = [], modified = [], deleted = []\<rparr>"
  using assms(2) apply_hunk_list_effect [OF assms(1), of paths cwd hs "initial_state s" "()" st]
  by (auto simp: apply_hunks_to_files_def initial_state_def split: if_splits)

lemma apply_hunk_not_panicked:
  assumes "hunk_ok h"
  shows "fst (apply_hunk fs paths opts cwd h st) \<noteq> Inl Panicked"
proof -
  have w: "fst (try_write w st k) \<noteq> Inl Panicked"
    if "\<And>st. fst (k st) \<noteq> Inl Panicked" for w st and k :: "('a, 'b) apply_state \<Rightarrow> ('a, 'b) handler_result"
    using that by (auto simp: try_write_def split: prod.splits sum.splits)
  have c: "fst (remove_file_checked fs paths fl what p e st k) \<noteq> Inl Panicked"
    if "\<And>st. fst (k st) \<noteq> Inl Panicked" for fl what p e st and k :: "('a, 'b) apply_state \<Rightarrow> ('a, 'b) handler_result"
    using that by (auto simp: remove_file_checked_def split: prod.splits sum.splits)
  have d: "derive_new_contents_from_chunks fs paths opts p chunks s \<noteq> Inl Panicked"
    if "\<forall>c \<in> set chunks. chunk_ok c" for p chunks s
    using new_contents_never_panics [OF that]
    by (auto simp: derive_new_contents_from_chunks_def split: sum.splits fault.splits)
  show ?thesis
    using assms d
    by (cases h)
       (auto simp: apply_hunk_def apply_add_file_def apply_delete_file_def apply_update_file_def
         apply_update_in_place_def apply_update_with_move_def Let_def w c
         split: sum.splits prod.splits option.splits)
qed

lemma apply_hunk_list_not_panicked:
  "\<forall>h \<in> set hs. hunk_ok h \<Longrightarrow> fst (apply_hunk_list fs paths opts cwd hs st) \<noteq> Inl Panicked"
proof (induction hs arbitrary: st)
  case (Cons h hs)
  with apply_hunk_not_panicked [of h fs paths opts cwd st] show ?case
    by (auto split: prod.splits sum.splits)
qed simp


definition sample_files :: "rstr \<Rightarrow> int list option" where
  "sample_files = (\<lambda>_. None)(lit ''a'' \<mapsto> into_bytes (lit ''x'' @ [nl]), lit ''d'' \<mapsto> [])"

definition sample_hunks :: "Hunk list" where
  "sample_hunks =
     [AddFile (lit ''n'') (lit ''new'' @ [nl]), DeleteFile (lit ''d''),
      UpdateFile (lit ''a'') (Some (lit ''b''))
        [default_chunk\<lparr>old_lines := [lit ''x''], new_lines := [lit ''y'']\<rparr>]]"

lemma sample_run:
  "\<exists>st. apply_hunks_to_files mem_fs flat_paths default_options [] sample_hunks sample_files = (Inr (), st)
     \<and> exact (delta st) \<and> length (changes (delta st)) = 3
     \<and> affected st = \<lparr>added = [lit ''n''], modified = [lit ''b''], deleted = [lit ''d'']\<rparr>"
proof -
  let ?r = "apply_hunks_to_files mem_fs flat_paths default_options [] sample_hunks sample_files"
  have "(case fst ?r of Inr _ \<Rightarrow> True | Inl _ \<Rightarrow> False) \<and> exact (delta (snd ?r))
      \<and> length (changes (delta (snd ?r))) = 3
      \<and> affected (snd ?r) = \<lparr>added = [lit ''n''], modified = [lit ''b''], deleted = [lit ''d'']\<rparr>"
    by code_simp
  then show ?thesis by (cases ?r) (auto split: sum.splits)
qed

theorem exact_delta_replays_and_undoes_witness:
  "\<exists>st. apply_hunks_to_files mem_fs flat_paths default_options [] sample_hunks sample_files = (Inr (), st)
     \<and> length (changes (delta st)) = 3
     \<and> foldr undo_change (changes (delta st)) (view mem_fs True (fs_state st)) = view mem_fs True sample_files"
proof -
  obtain st where st: "apply_hunks_to_files mem_fs flat_paths default_options [] sample_hunks sample_files
      = (Inr (), st)" "exact (delta st)" "length (changes (delta st)) = 3"
    using sample_run by blast
  with exact_delta_replays_and_undoes [OF mem_fs_laws st(1,2)] show ?thesis
    by (auto simp: default_options_def)
qed

theorem apply_hunks_refines_effect_witness:
  "\<exists>st. apply_hunks_to_files mem_fs flat_paths default_options [] sample_hunks sample_files = (Inr (), st)
     \<and> hunks_effect flat_paths default_options [] sample_hunks (view mem_fs True sample_files) =
         Some (view mem_fs True (fs_state st))"
proof -
  obtain st where st: "apply_hunks_to_files mem_fs flat_paths default_options [] sample_hunks sample_files
      = (Inr (), st)"
    using sample_run by blast
  from apply_hunks_refines_effect [OF mem_fs_laws st] st show ?thesis
    by (auto simp: default_options_def)
qed

end
