(* ===== verification/Patch_Roundtrip.thy ===== *)
theory Patch_Roundtrip
  imports Patch_Parse
begin

text \<open>
  The round trip of the patch format: parsing a rendered syntax tree gives the hunks the
  tree denotes. The proof follows the rendered lines through the state machine, one lemma
  per kind of line, then per chunk, per hunk and for the whole text.
\<close>

section \<open>Telling lines apart\<close>

definition no_header :: "rstr \<Rightarrow> bool" where
  "no_header u \<longleftrightarrow> u = [] \<or> hd u \<noteq> 42"

lemma marker_Cons:
  "\<exists>r. ADD_FILE_MARKER = 42 # r" "\<exists>r. DELETE_FILE_MARKER = 42 # r"
  "\<exists>r. UPDATE_FILE_MARKER = 42 # r" "\<exists>r. END_PATCH_MARKER = 42 # r"
  "\<exists>r. MOVE_TO_MARKER = 42 # r" "\<exists>r. EOF_MARKER = 42 # r"
  "\<exists>r. ENVIRONMENT_ID_MARKER = 42 # r" "\<exists>r. CHANGE_CONTEXT_MARKER = 64 # r"
  "\<exists>r. EMPTY_CHANGE_CONTEXT_MARKER = 64 # r"
  by (simp_all add: marker_defs lit_def)

lemma no_header_strip:
  assumes "no_header u" "\<exists>r. m = 42 # r"
  shows "strip_prefix m u = None" "\<not> starts_with m u" "u \<noteq> m"
proof -
  from assms(2) obtain r where m: "m = 42 # r" by blast
  show n: "strip_prefix m u = None" using assms(1) by (cases u) (auto simp: m no_header_def)
  then show "\<not> starts_with m u" by (simp add: starts_with_def)
  show "u \<noteq> m" using n by auto
qed

text \<open>A line that is no header leaves the decision to the mode's own lines.\<close>

definition plain :: "rstr \<Rightarrow> bool" where
  "plain u \<longleftrightarrow> strip_prefix ADD_FILE_MARKER u = None \<and> strip_prefix DELETE_FILE_MARKER u = None
     \<and> strip_prefix UPDATE_FILE_MARKER u = None \<and> u \<noteq> END_PATCH_MARKER"

lemma headers_or_plain:
  "plain u \<Longrightarrow> p_mode p \<noteq> StartedPatch \<Longrightarrow> headers_or p u rest = rest"
  by (simp add: plain_def headers_or_def handle_hunk_headers_and_end_patch_def)

lemma no_header_plain [simp]: "no_header u \<Longrightarrow> plain u"
  by (simp add: plain_def no_header_strip marker_Cons)

text \<open>Different headers do not start alike, and a header is no other marker.\<close>

lemma header_disjoint [simp]:
  "strip_prefix ADD_FILE_MARKER (DELETE_FILE_MARKER @ r) = None"
  "strip_prefix ADD_FILE_MARKER (UPDATE_FILE_MARKER @ r) = None"
  "strip_prefix DELETE_FILE_MARKER (UPDATE_FILE_MARKER @ r) = None"
  "\<not> starts_with ENVIRONMENT_ID_MARKER (ADD_FILE_MARKER @ r)"
  "\<not> starts_with ENVIRONMENT_ID_MARKER (DELETE_FILE_MARKER @ r)"
  "\<not> starts_with ENVIRONMENT_ID_MARKER (UPDATE_FILE_MARKER @ r)"
  "ADD_FILE_MARKER @ r \<noteq> END_PATCH_MARKER" "DELETE_FILE_MARKER @ r \<noteq> END_PATCH_MARKER"
  "UPDATE_FILE_MARKER @ r \<noteq> END_PATCH_MARKER"
  by (simp_all add: marker_defs lit_def starts_with_def)

lemma other_lines_plain [simp]: "plain (MOVE_TO_MARKER @ r)" "plain EOF_MARKER"
  by (simp_all add: plain_def marker_defs lit_def)

lemma context_marker_simps [simp]:
  "is_context_marker EMPTY_CHANGE_CONTEXT_MARKER"
  "is_context_marker (CHANGE_CONTEXT_MARKER @ r)"
  "\<not> is_context_marker EOF_MARKER"
  "\<not> is_context_marker (MOVE_TO_MARKER @ r)"
  "\<not> starts_with MOVE_TO_MARKER EMPTY_CHANGE_CONTEXT_MARKER"
  "\<not> starts_with MOVE_TO_MARKER (CHANGE_CONTEXT_MARKER @ r)"
  "\<not> starts_with MOVE_TO_MARKER EOF_MARKER"
  "starts_with MOVE_TO_MARKER (MOVE_TO_MARKER @ r)"
  "strip_prefix CHANGE_CONTEXT_MARKER EOF_MARKER = None"
  "EOF_MARKER \<noteq> EMPTY_CHANGE_CONTEXT_MARKER"
  "r \<noteq> [] \<Longrightarrow> CHANGE_CONTEXT_MARKER @ r \<noteq> EMPTY_CHANGE_CONTEXT_MARKER"
  "EMPTY_CHANGE_CONTEXT_MARKER \<noteq> []" "EOF_MARKER \<noteq> []" "CHANGE_CONTEXT_MARKER \<noteq> []"
  by (simp_all add: is_context_marker_def marker_defs lit_def starts_with_def)

lemma trim_end_markers [simp]:
  "trim_end EMPTY_CHANGE_CONTEXT_MARKER = EMPTY_CHANGE_CONTEXT_MARKER"
  "trim_end EOF_MARKER = EOF_MARKER"
  "trim END_PATCH_MARKER = END_PATCH_MARKER"
  "trim BEGIN_PATCH_MARKER = BEGIN_PATCH_MARKER"
  by (simp_all add: marker_defs eval_defs)

lemma trim_label:
  assumes "label_ok l"
  shows "trim_end (m @ l) = m @ l" "m \<noteq> [] \<Longrightarrow> \<not> is_whitespace (hd m) \<Longrightarrow> trim (m @ l) = m @ l"
  using assms by (auto simp: label_ok_def intro!: trim_end_ident trim_ident)

lemma marker_heads [simp]:
  "ADD_FILE_MARKER \<noteq> []" "DELETE_FILE_MARKER \<noteq> []" "UPDATE_FILE_MARKER \<noteq> []"
  "\<not> is_whitespace (hd ADD_FILE_MARKER)" "\<not> is_whitespace (hd DELETE_FILE_MARKER)"
  "\<not> is_whitespace (hd UPDATE_FILE_MARKER)" "END_PATCH_MARKER \<noteq> []"
  by (simp_all add: marker_defs lit_def is_whitespace_def)

section \<open>Lines of an update hunk\<close>

definition in_update ::
  "StreamingPatchParser \<Rightarrow> Hunk list \<Rightarrow> rstr \<Rightarrow> rstr option \<Rightarrow> UpdateFileChunk list \<Rightarrow> bool" where
  "in_update p hs path mv cs \<longleftrightarrow>
     (\<exists>n. p_mode p = InUpdateFile n) \<and> p_hunks p = hs @ [UpdateFile path mv cs]"

definition same_frame :: "StreamingPatchParser \<Rightarrow> StreamingPatchParser \<Rightarrow> bool" where
  "same_frame p q \<longleftrightarrow> line_buffer q = line_buffer p
     \<and> environment_id (state q) = environment_id (state p)"

lemma same_frame_refl [simp]: "same_frame p p"
  by (simp add: same_frame_def)

lemma same_frame_trans: "same_frame p q \<Longrightarrow> same_frame q r \<Longrightarrow> same_frame p r"
  by (simp add: same_frame_def)

definition runs_to ::
  "StreamingPatchParser \<Rightarrow> rstr list \<Rightarrow> (StreamingPatchParser \<Rightarrow> bool) \<Rightarrow> bool" where
  "runs_to p ls P \<longleftrightarrow> (\<exists>q. run_lines p ls = (Inr (), q) \<and> same_frame p q \<and> P q)"

lemma runs_to_Nil: "P p \<Longrightarrow> runs_to p [] P"
  by (simp add: runs_to_def)

lemma runs_to_append:
  assumes "runs_to p ls P" "\<And>q. P q \<Longrightarrow> runs_to q ms Q"
  shows "runs_to p (ls @ ms) Q"
  using assms unfolding runs_to_def run_lines_append by (force intro: same_frame_trans)

lemma runs_to_mono: "runs_to p ls P \<Longrightarrow> (\<And>q. P q \<Longrightarrow> Q q) \<Longrightarrow> runs_to p ls Q"
  by (auto simp: runs_to_def)

lemma runs_to_line:
  assumes "\<And>n. \<exists>q. process_line (p\<lparr>line_number := n\<rparr>) l = (Inr (), q) \<and> same_frame p q \<and> P q"
  shows "runs_to p [l] P"
  using assms [of "Suc (line_number p)"] by (auto simp: runs_to_def)

lemma update_step:
  assumes "in_update p hs path mv cs"
    and "plain (trim_end l)"
    and "\<And>n. update_hunk_line n l mv cs = Inr (mv', cs')"
  shows "runs_to p [l] (\<lambda>q. in_update q hs path mv' cs')"
proof (rule runs_to_line)
  fix n
  let ?p = "p\<lparr>line_number := n\<rparr>"
  from assms(1) obtain k where k: "p_mode p = InUpdateFile k" "p_hunks p = hs @ [UpdateFile path mv cs]"
    by (auto simp: in_update_def)
  have h: "headers_or ?p (trim_end l) rest = rest" for rest :: step_result
    using assms(2) k by (intro headers_or_plain) simp_all
  show "\<exists>q. process_line ?p l = (Inr (), q) \<and> same_frame p q \<and> in_update q hs path mv' cs'"
    using k assms(3) by (simp add: process_line_def process_update_file_def h in_update_def same_frame_def)
qed

lemma no_header_trim_end: "c \<noteq> 42 \<Longrightarrow> no_header (trim_end (c # l))"
  by (simp add: no_header_def trim_end_Cons)

definition last_usable :: "UpdateFileChunk list \<Rightarrow> bool" where
  "last_usable cs \<longleftrightarrow> cs \<noteq> [] \<and> \<not> is_end_of_file (last cs)"

lemma edit_line_step:
  assumes "last_usable cs"
  shows "update_hunk_line n (render_edit e) mv cs = Inr (mv, map_last (apply_edit e) cs)"
proof -
  have m: "\<not> is_context_marker (trim_end (c # l)) \<and> trim_end (c # l) \<noteq> EMPTY_CHANGE_CONTEXT_MARKER
      \<and> strip_prefix CHANGE_CONTEXT_MARKER (trim_end (c # l)) = None \<and> trim_end (c # l) \<noteq> EOF_MARKER"
    if "c \<in> {32, 43, 45}" for c l
    using that
    by (auto simp: trim_end_Cons is_context_marker_def starts_with_def marker_defs lit_def)
  have o: "\<not> opt_is_some_and is_end_of_file (list_last cs)" "cs \<noteq> []"
    using assms by (auto simp: last_usable_def list_last_def)
  have eta: "apply_edit (Keep l) = push_context_line l"
    "apply_edit (Insert l) = (\<lambda>k. k\<lparr>new_lines := new_lines k @ [l]\<rparr>)"
    "apply_edit (Remove l) = (\<lambda>k. k\<lparr>old_lines := old_lines k @ [l]\<rparr>)" for l
    by (simp_all add: fun_eq_iff)
  show ?thesis
    using m [of 32] m [of 43] m [of 45] o
    by (cases e) (simp_all add: update_hunk_line_def Let_def lit_def edit_chunk_def eta del: apply_edit.simps)
qed

lemma render_edit_no_header: "no_header (trim_end (render_edit e))"
  by (cases e) (simp_all add: lit_def no_header_trim_end)

lemma map_last_keeps_usable:
  "last_usable cs \<Longrightarrow> last_usable (map_last (apply_edit e) cs)"
  by (cases cs rule: rev_cases; cases e) (auto simp: last_usable_def push_context_line_def)

lemma run_edits:
  assumes "in_update p hs path mv cs" "last_usable cs"
  shows "runs_to p (map render_edit es)
           (\<lambda>q. in_update q hs path mv (map_last (fold apply_edit es) cs))"
  using assms
proof (induction es arbitrary: p cs)
  case Nil
  then show ?case by (cases cs rule: rev_cases) (auto simp: last_usable_def intro: runs_to_Nil)
next
  case (Cons e es)
  have "runs_to p [render_edit e] (\<lambda>q. in_update q hs path mv (map_last (apply_edit e) cs))"
    by (rule update_step [OF Cons.prems(1)])
       (simp_all add: edit_line_step [OF Cons.prems(2)] render_edit_no_header)
  then have "runs_to p ([render_edit e] @ map render_edit es)
      (\<lambda>q. in_update q hs path mv (map_last (fold apply_edit es) (map_last (apply_edit e) cs)))"
    by (rule runs_to_append) (simp add: Cons.IH map_last_keeps_usable Cons.prems)
  then show ?case by (simp add: map_last_map_last comp_def)
qed

lemma apply_edit_not_empty: "\<not> chunk_is_empty (apply_edit e c)"
  by (cases e) (simp_all add: chunk_is_empty_def push_context_line_def)

lemma fold_apply_edit_not_empty: "es \<noteq> [] \<Longrightarrow> \<not> chunk_is_empty (fold apply_edit es c)"
  by (induction es rule: rev_induct) (simp_all add: apply_edit_not_empty)

lemma fold_apply_edit_eof: "is_end_of_file (fold apply_edit es c) = is_end_of_file c"
proof (induction es arbitrary: c)
  case (Cons e es)
  then show ?case by (cases e) (simp_all add: push_context_line_def)
qed simp

definition last_filled :: "UpdateFileChunk list \<Rightarrow> bool" where
  "last_filled cs \<longleftrightarrow> \<not> opt_is_some_and chunk_is_empty (list_last cs)"

lemma run_chunk_start:
  assumes "in_update p hs path mv cs" "last_filled cs"
    and "case ctx of None \<Rightarrow> True | Some c \<Rightarrow> label_ok c"
  shows "runs_to p [case ctx of None \<Rightarrow> EMPTY_CHANGE_CONTEXT_MARKER | Some c \<Rightarrow> CHANGE_CONTEXT_MARKER @ c]
           (\<lambda>q. in_update q hs path mv (cs @ [default_chunk\<lparr>change_context := ctx\<rparr>]))"
proof (cases ctx)
  case None
  have d: "default_chunk\<lparr>change_context := None\<rparr> = default_chunk" by (simp add: default_chunk_def)
  have "no_header EMPTY_CHANGE_CONTEXT_MARKER" by (simp add: no_header_def marker_defs lit_def)
  moreover have "update_hunk_line n EMPTY_CHANGE_CONTEXT_MARKER mv cs = Inr (mv, cs @ [default_chunk])" for n
    using assms by (simp add: update_hunk_line_def Let_def last_filled_def)
  ultimately show ?thesis
    using assms None d by (auto intro!: update_step)
next
  case (Some c)
  with assms have c: "label_ok c" by simp
  have "no_header (CHANGE_CONTEXT_MARKER @ c)" by (simp add: no_header_def marker_defs lit_def)
  moreover have "update_hunk_line n (CHANGE_CONTEXT_MARKER @ c) mv cs =
      Inr (mv, cs @ [default_chunk\<lparr>change_context := Some c\<rparr>])" for n
    using assms c by (simp add: update_hunk_line_def Let_def trim_label last_filled_def label_ok_def)
  ultimately show ?thesis
    using assms Some c by (auto simp: trim_label intro!: update_step)
qed

lemma run_chunk:
  assumes "in_update p hs path mv cs" "last_filled cs" "chunk_ast_ok a"
  shows "runs_to p (render_chunk a)
           (\<lambda>q. in_update q hs path mv (cs @ [denote_chunk a]))"
proof -
  let ?c = "default_chunk\<lparr>change_context := ast_context a\<rparr>"
  let ?d = "fold apply_edit (ast_edits a) ?c"
  have d: "\<not> chunk_is_empty ?d" "\<not> is_end_of_file ?d"
    using assms(3) by (simp_all add: chunk_ast_ok_def fold_apply_edit_not_empty fold_apply_edit_eof
        default_chunk_def)
  have start: "runs_to p [case ast_context a of None \<Rightarrow> EMPTY_CHANGE_CONTEXT_MARKER
        | Some c \<Rightarrow> CHANGE_CONTEXT_MARKER @ c] (\<lambda>q. in_update q hs path mv (cs @ [?c]))"
    using assms by (intro run_chunk_start) (auto simp: chunk_ast_ok_def)
  have edits: "runs_to q (map render_edit (ast_edits a)) (\<lambda>q. in_update q hs path mv (cs @ [?d]))"
    if "in_update q hs path mv (cs @ [?c])" for q
    using run_edits [OF that] by (simp add: last_usable_def default_chunk_def)
  have eof: "runs_to q (if ast_eof a then [EOF_MARKER] else [])
      (\<lambda>q. in_update q hs path mv (cs @ [denote_chunk a]))"
    if "in_update q hs path mv (cs @ [?d])" for q
  proof (cases "ast_eof a")
    case True
    have "update_hunk_line n EOF_MARKER mv (cs @ [?d]) = Inr (mv, cs @ [denote_chunk a])" for n
      using d True by (simp add: update_hunk_line_def Let_def denote_chunk_def)
    then show ?thesis using that True by (auto intro!: update_step)
  next
    case False
    have "denote_chunk a = ?d" using d(2) False by (simp add: denote_chunk_def)
    with that False show ?thesis by (simp add: runs_to_Nil)
  qed
  show ?thesis
    using runs_to_append [OF start runs_to_append [OF edits eof]]
    by (simp add: render_chunk_def)
qed

lemma denote_chunk_filled: "chunk_ast_ok a \<Longrightarrow> last_filled (cs @ [denote_chunk a])"
  by (simp add: last_filled_def denote_chunk_def chunk_ok_context_only chunk_ast_ok_def
      fold_apply_edit_not_empty)

lemma run_chunks:
  assumes "in_update p hs path mv cs" "last_filled cs" "\<forall>a \<in> set as. chunk_ast_ok a"
  shows "runs_to p (concat (map render_chunk as))
           (\<lambda>q. in_update q hs path mv (cs @ map denote_chunk as))"
  using assms
proof (induction as arbitrary: p cs)
  case Nil
  then show ?case by (simp add: runs_to_Nil)
next
  case (Cons a as)
  then have "runs_to p (render_chunk a) (\<lambda>q. in_update q hs path mv (cs @ [denote_chunk a]))"
    by (simp add: run_chunk)
  moreover have "runs_to q (concat (map render_chunk as))
      (\<lambda>q. in_update q hs path mv ((cs @ [denote_chunk a]) @ map denote_chunk as))"
    if "in_update q hs path mv (cs @ [denote_chunk a])" for q
    using that Cons.prems by (intro Cons.IH) (simp_all add: denote_chunk_filled)
  ultimately have "runs_to p (render_chunk a @ concat (map render_chunk as))
      (\<lambda>q. in_update q hs path mv ((cs @ [denote_chunk a]) @ map denote_chunk as))"
    by (rule runs_to_append)
  then show ?case by simp
qed

section \<open>Hunks\<close>

text \<open>The parser is between two hunks, or after the last.\<close>

definition ready :: "StreamingPatchParser \<Rightarrow> Hunk list \<Rightarrow> bool" where
  "ready p hs \<longleftrightarrow> p_hunks p = hs \<and> p_mode p \<noteq> NotStarted \<and> p_mode p \<noteq> EndedPatch
     \<and> (\<forall>n l. ensure_update_hunk_is_not_empty (p\<lparr>line_number := n\<rparr>) l = Inr ())"

definition in_add :: "StreamingPatchParser \<Rightarrow> Hunk list \<Rightarrow> rstr \<Rightarrow> rstr \<Rightarrow> bool" where
  "in_add p hs path contents \<longleftrightarrow>
     p_mode p = InAddFile \<and> p_hunks p = hs @ [AddFile path contents]"

lemma in_add_ready: "in_add p hs path c \<Longrightarrow> ready p (hs @ [AddFile path c])"
  by (simp add: in_add_def ready_def ensure_update_hunk_is_not_empty_def)

lemma in_update_ready:
  "in_update p hs path mv cs \<Longrightarrow> cs \<noteq> [] \<Longrightarrow> last_filled cs \<Longrightarrow>
     ready p (hs @ [UpdateFile path mv cs])"
  by (auto simp: in_update_def ready_def ensure_update_hunk_is_not_empty_def last_filled_def
      split: list.splits)

lemma ready_header_line:
  assumes "ready p hs" "label_ok path"
    and "m \<in> {ADD_FILE_MARKER, DELETE_FILE_MARKER, UPDATE_FILE_MARKER}"
  shows "\<exists>rest. process_line p (m @ path) = headers_or p (m @ path) rest"
proof -
  have t: "trim (m @ path) = m @ path" "trim_end (m @ path) = m @ path"
    using assms(2,3) by (auto simp: trim_label)
  show ?thesis
    using assms(1)
    by (cases "p_mode p")
       (simp_all add: ready_def process_line_def process_started_def process_add_file_def
         process_delete_file_def process_update_file_def t del: split_paired_Ex, blast+)
qed

lemma ready_line_number [simp]: "ready (p\<lparr>line_number := n\<rparr>) hs = ready p hs"
  by (simp add: ready_def)

lemma ready_start_hunk:
  assumes "ready p hs"
  shows "start_hunk p l new m = (Inr True, set_mode m (set_hunks (hs @ new) p))"
proof -
  have "ensure_update_hunk_is_not_empty (p\<lparr>line_number := line_number p\<rparr>) l = Inr ()"
    using assms unfolding ready_def by blast
  with assms show ?thesis by (simp add: start_hunk_def ready_def)
qed

lemma run_header:
  assumes "ready p hs" "label_ok path"
  shows "runs_to p [ADD_FILE_MARKER @ path] (\<lambda>q. in_add q hs path [])"
    and "runs_to p [DELETE_FILE_MARKER @ path] (\<lambda>q. ready q (hs @ [DeleteFile path]))"
    and "runs_to p [UPDATE_FILE_MARKER @ path] (\<lambda>q. in_update q hs path None [])"
proof -
  have r: "ready (p\<lparr>line_number := n\<rparr>) hs" for n using assms(1) by simp
  note h = ready_header_line [OF r assms(2)] and sh = ready_start_hunk [OF r]
  note d = headers_or_def handle_hunk_headers_and_end_patch_def sh same_frame_def
  show "runs_to p [ADD_FILE_MARKER @ path] (\<lambda>q. in_add q hs path [])"
  proof (rule runs_to_line)
    fix n
    from h [of ADD_FILE_MARKER n]
    show "\<exists>q. process_line (p\<lparr>line_number := n\<rparr>) (ADD_FILE_MARKER @ path) = (Inr (), q)
        \<and> same_frame p q \<and> in_add q hs path []"
      by (auto simp: d in_add_def)
  qed
  show "runs_to p [DELETE_FILE_MARKER @ path] (\<lambda>q. ready q (hs @ [DeleteFile path]))"
  proof (rule runs_to_line)
    fix n
    from h [of DELETE_FILE_MARKER n]
    show "\<exists>q. process_line (p\<lparr>line_number := n\<rparr>) (DELETE_FILE_MARKER @ path) = (Inr (), q)
        \<and> same_frame p q \<and> ready q (hs @ [DeleteFile path])"
      by (auto simp: d ready_def ensure_update_hunk_is_not_empty_def)
  qed
  show "runs_to p [UPDATE_FILE_MARKER @ path] (\<lambda>q. in_update q hs path None [])"
  proof (rule runs_to_line)
    fix n
    from h [of UPDATE_FILE_MARKER n]
    show "\<exists>q. process_line (p\<lparr>line_number := n\<rparr>) (UPDATE_FILE_MARKER @ path) = (Inr (), q)
        \<and> same_frame p q \<and> in_update q hs path None []"
      by (auto simp: d in_update_def)
  qed
qed

lemma trim_plus_no_header: "no_header (trim (43 # l))"
  by (simp add: trim_def trim_start_def is_whitespace_def no_header_def trim_end_Cons)

lemma run_add_line:
  assumes "in_add p hs path c"
  shows "runs_to p [lit ''+'' @ l] (\<lambda>q. in_add q hs path (c @ l @ [nl]))"
proof (rule runs_to_line)
  fix n
  let ?p = "p\<lparr>line_number := n\<rparr>"
  have h: "headers_or ?p (trim (43 # l)) rest = rest" for rest :: step_result
    using assms trim_plus_no_header [of l] by (intro headers_or_plain) (simp_all add: in_add_def)
  show "\<exists>q. process_line ?p (lit ''+'' @ l) = (Inr (), q) \<and> same_frame p q
      \<and> in_add q hs path (c @ l @ [nl])"
    using assms by (simp add: process_line_def process_add_file_def in_add_def lit_def h same_frame_def)
qed

lemma run_add_lines:
  assumes "in_add p hs path c"
  shows "runs_to p (map (\<lambda>l. lit ''+'' @ l) ls)
           (\<lambda>q. in_add q hs path (c @ concat (map (\<lambda>l. l @ [nl]) ls)))"
  using assms
proof (induction ls arbitrary: p c)
  case Nil
  then show ?case by (simp add: runs_to_Nil)
next
  case (Cons l ls)
  have "runs_to p ([lit ''+'' @ l] @ map (\<lambda>l. lit ''+'' @ l) ls)
      (\<lambda>q. in_add q hs path ((c @ l @ [nl]) @ concat (map (\<lambda>l. l @ [nl]) ls)))"
    by (rule runs_to_append [OF run_add_line [OF Cons.prems] Cons.IH])
  then show ?case by simp
qed

lemma run_move:
  assumes "in_update p hs path None []" "case mv of None \<Rightarrow> True | Some dest \<Rightarrow> label_ok dest"
  shows "runs_to p (case mv of None \<Rightarrow> [] | Some dest \<Rightarrow> [MOVE_TO_MARKER @ dest])
           (\<lambda>q. in_update q hs path mv [])"
proof (cases mv)
  case None
  with assms show ?thesis by (simp add: runs_to_Nil)
next
  case (Some dest)
  then have d: "label_ok dest" using assms(2) by simp
  have "update_hunk_line n (MOVE_TO_MARKER @ dest) None [] = Inr (Some dest, [])" for n
    using d by (simp add: update_hunk_line_def Let_def trim_label)
  with assms(1) Some d show ?thesis by (auto simp: trim_label intro!: update_step)
qed

lemma run_hunk:
  assumes "ready p hs" "hunk_ast_ok a"
  shows "runs_to p (render_hunk a) (\<lambda>q. ready q (hs @ [denote_hunk a]))"
proof (cases a)
  case (AstAdd path ls)
  with assms have "runs_to p ([ADD_FILE_MARKER @ path] @ map (\<lambda>l. lit ''+'' @ l) ls)
      (\<lambda>q. in_add q hs path ([] @ concat (map (\<lambda>l. l @ [nl]) ls)))"
    by (intro runs_to_append [OF run_header(1) run_add_lines]) simp_all
  with AstAdd show ?thesis by (auto elim: runs_to_mono intro: in_add_ready)
next
  case (AstDelete path)
  with assms show ?thesis by (simp add: run_header(2))
next
  case (AstUpdate path mv cs)
  have "runs_to p ([UPDATE_FILE_MARKER @ path]
        @ (case mv of None \<Rightarrow> [] | Some dest \<Rightarrow> [MOVE_TO_MARKER @ dest]) @ concat (map render_chunk cs))
      (\<lambda>q. in_update q hs path mv ([] @ map denote_chunk cs))"
    using assms AstUpdate
    by (intro runs_to_append [OF run_header(3)] runs_to_append [OF run_move] run_chunks)
       (simp_all add: last_filled_def)
  moreover have "cs \<noteq> []" "last_filled (map denote_chunk cs)"
    using assms(2) AstUpdate denote_chunk_filled by (cases cs rule: rev_cases; auto)+
  ultimately show ?thesis
    using AstUpdate by (auto elim: runs_to_mono intro: in_update_ready)
qed

lemma run_hunks:
  "ready p hs \<Longrightarrow> \<forall>a \<in> set as. hunk_ast_ok a \<Longrightarrow>
     runs_to p (concat (map render_hunk as)) (\<lambda>q. ready q (hs @ map denote_hunk as))"
proof (induction as arbitrary: p hs)
  case Nil
  then show ?case by (simp add: runs_to_Nil)
next
  case (Cons a as)
  have "runs_to p (render_hunk a @ concat (map render_hunk as))
      (\<lambda>q. ready q ((hs @ [denote_hunk a]) @ map denote_hunk as))"
    using Cons.prems by (intro runs_to_append [OF run_hunk Cons.IH]) simp_all
  then show ?case by simp
qed

section \<open>The whole text\<close>

lemma label_line_ok: "label_ok l \<Longrightarrow> nl \<notin> set m \<Longrightarrow> line_ok (m @ l)"
  by (auto simp: line_ok_def label_ok_def is_whitespace_def)

lemma markers_no_nl [simp]:
  "nl \<notin> set ADD_FILE_MARKER" "nl \<notin> set DELETE_FILE_MARKER" "nl \<notin> set UPDATE_FILE_MARKER"
  "nl \<notin> set MOVE_TO_MARKER" "nl \<notin> set CHANGE_CONTEXT_MARKER" "nl \<notin> set END_PATCH_MARKER"
  "line_ok EMPTY_CHANGE_CONTEXT_MARKER" "line_ok EOF_MARKER" "line_ok BEGIN_PATCH_MARKER"
  "line_ok END_PATCH_MARKER"
  by (simp_all add: marker_defs lit_def line_ok_def)

lemma render_edit_line_ok: "line_ok (edit_line e) \<Longrightarrow> line_ok (render_edit e)"
  by (cases e) (auto simp: line_ok_def lit_def)

lemma render_chunk_line_ok: "chunk_ast_ok a \<Longrightarrow> l \<in> set (render_chunk a) \<Longrightarrow> line_ok l"
  by (auto simp: render_chunk_def chunk_ast_ok_def render_edit_line_ok label_line_ok
      split: option.splits if_splits)

lemma render_hunk_line_ok: "hunk_ast_ok a \<Longrightarrow> l \<in> set (render_hunk a) \<Longrightarrow> line_ok l"
proof (cases a)
  case (AstAdd path ls)
  assume a: "hunk_ast_ok a" "l \<in> set (render_hunk a)"
  have "line_ok (lit ''+'' @ k)" if "line_ok k" for k
    using that by (auto simp: line_ok_def lit_def)
  with a AstAdd show ?thesis by (auto simp: label_line_ok)
qed (auto simp: label_line_ok render_chunk_line_ok split: option.splits)

lemma render_patch_lines:
  assumes "\<forall>h \<in> set hs. hunk_ast_ok h"
  shows "trim (render_patch hs) = render_patch hs"
    and "str_lines (render_patch hs) =
      BEGIN_PATCH_MARKER # concat (map render_hunk hs) @ [END_PATCH_MARKER]"
proof -
  let ?ls = "BEGIN_PATCH_MARKER # concat (map render_hunk hs)"
  have ok: "\<forall>l \<in> set (?ls @ [END_PATCH_MARKER]). line_ok l"
    using assms render_hunk_line_ok by auto
  have "render_patch hs = join [nl] ?ls @ [nl] @ END_PATCH_MARKER"
    using join_append [of ?ls "[END_PATCH_MARKER]" "[nl]"] by (simp add: render_patch_def)
  moreover have "\<exists>r. join [nl] ?ls = BEGIN_PATCH_MARKER @ r" by (simp add: join_Cons)
  ultimately obtain r where r: "render_patch hs = BEGIN_PATCH_MARKER @ r @ [nl] @ END_PATCH_MARKER"
    by auto
  show "trim (render_patch hs) = render_patch hs"
    unfolding r by (rule trim_ident) (simp_all add: marker_defs lit_def is_whitespace_def)
  show "str_lines (render_patch hs) = BEGIN_PATCH_MARKER # concat (map render_hunk hs) @ [END_PATCH_MARKER]"
    using ok str_lines_join [of ?ls END_PATCH_MARKER]
    by (simp add: render_patch_def line_ok_def)
qed

lemma boundaries_ok:
  "check_patch_boundaries_lenient (BEGIN_PATCH_MARKER # ls @ [END_PATCH_MARKER]) =
     Inr (BEGIN_PATCH_MARKER # ls @ [END_PATCH_MARKER])"
  by (cases ls) (simp_all add: check_patch_boundaries_lenient_def check_patch_boundaries_strict_def
      check_start_and_end_lines_strict_def)

lemma run_begin:
  "runs_to default_parser [BEGIN_PATCH_MARKER] (\<lambda>q. ready q [])"
  by (rule runs_to_line)
     (simp add: process_line_def process_not_started_def default_parser_def same_frame_def ready_def
       ensure_update_hunk_is_not_empty_def)

lemma ensure_line_buffer [simp]:
  "ensure_update_hunk_is_not_empty (p\<lparr>line_buffer := b\<rparr>) l = ensure_update_hunk_is_not_empty p l"
  unfolding ensure_update_hunk_is_not_empty_def by (cases p) (simp only: StreamingPatchParser.simps)

lemma finish_ready:
  assumes "ready p hs"
  shows "\<exists>q. finish (p\<lparr>line_buffer := END_PATCH_MARKER\<rparr>) = (Inr hs, q)
    \<and> environment_id (state q) = environment_id (state p)"
proof -
  have "ensure_update_hunk_is_not_empty (p\<lparr>line_number := n\<rparr>) l = Inr ()" for n l
    using assms by (simp add: ready_def)
  then have "ensure_update_hunk_is_not_empty (p\<lparr>line_buffer := [], line_number := n\<rparr>) l = Inr ()" for n l
    using ensure_line_buffer [of "[]" "p\<lparr>line_number := n\<rparr>" l] by (cases p) simp
  moreover have "END_PATCH_MARKER \<noteq> []" by (simp add: marker_defs lit_def)
  ultimately show ?thesis
    using assms by (simp add: finish_def finish_last_line_def Let_def ready_def)
qed

lemma parse_rendered:
  assumes "\<forall>h \<in> set hs. hunk_ast_ok h"
  shows "parse_patch (render_patch hs) =
    Inr \<lparr>args_patch = render_patch hs, args_hunks = map denote_hunk hs, args_workdir = None,
         args_environment_id = None\<rparr>"
proof -
  let ?ls = "BEGIN_PATCH_MARKER # concat (map render_hunk hs)"
  have "runs_to default_parser ([BEGIN_PATCH_MARKER] @ concat (map render_hunk hs))
      (\<lambda>q. ready q ([] @ map denote_hunk hs))"
    by (rule runs_to_append [OF run_begin run_hunks]) (use assms in simp_all)
  then obtain p where p: "run_lines default_parser ?ls = (Inr (), p)"
      "same_frame default_parser p" "ready p (map denote_hunk hs)"
    by (auto simp: runs_to_def)
  have "\<forall>l \<in> set ?ls. line_ok l" using assms render_hunk_line_ok by auto
  then have push: "push_delta default_parser (render_patch hs) =
      (Inr (p_hunks p), p\<lparr>line_buffer := END_PATCH_MARKER\<rparr>)"
    using push_delta_lines [of ?ls default_parser END_PATCH_MARKER] p
    by (simp add: render_patch_def default_parser_def)
  obtain q where q: "finish (p\<lparr>line_buffer := END_PATCH_MARKER\<rparr>) = (Inr (map denote_hunk hs), q)"
      "environment_id (state q) = environment_id (state p)"
    using finish_ready [OF p(3)] by blast
  have "environment_id (state q) = None" using q(2) p(2) by (simp add: same_frame_def default_parser_def)
  with push q(1) show ?thesis
    using assms
    by (simp add: parse_patch_def parse_patch_text_def PARSE_IN_STRICT_MODE_def render_patch_lines
        boundaries_ok Let_def render_patch_def [symmetric])
qed

text \<open>A heredoc around the patch, as models sometimes send it.\<close>

definition heredoc :: "rstr \<Rightarrow> rstr \<Rightarrow> rstr" where
  "heredoc start body = start @ [nl] @ body @ [nl] @ lit ''EOF''"

lemma heredoc_starts:
  assumes "start \<in> set HEREDOC_STARTS"
  shows "line_ok start" "start \<noteq> []" "\<not> is_whitespace (hd start)" "trim start = start" "start \<noteq> BEGIN_PATCH_MARKER"
  using assms
  by (auto simp: HEREDOC_STARTS_def lit_def line_ok_def is_whitespace_def marker_defs quoted_def
      intro!: trim_ident)

lemma heredoc_lines:
  assumes "\<forall>h \<in> set hs. hunk_ast_ok h" "start \<in> set HEREDOC_STARTS"
  shows "trim (heredoc start (render_patch hs)) = heredoc start (render_patch hs)"
    and "str_lines (heredoc start (render_patch hs)) =
      start # (BEGIN_PATCH_MARKER # concat (map render_hunk hs) @ [END_PATCH_MARKER]) @ [lit ''EOF'']"
proof -
  note st = heredoc_starts [OF assms(2)]
  show "trim (heredoc start (render_patch hs)) = heredoc start (render_patch hs)"
    using st by (intro trim_ident) (simp_all add: heredoc_def lit_def is_whitespace_def)
  let ?ls = "start # BEGIN_PATCH_MARKER # concat (map render_hunk hs) @ [END_PATCH_MARKER]"
  have "heredoc start (render_patch hs) = join [nl] (?ls @ [lit ''EOF''])"
    using join_append [of "BEGIN_PATCH_MARKER # concat (map render_hunk hs) @ [END_PATCH_MARKER]"
        "[lit ''EOF'']" "[nl]"]
    by (simp add: heredoc_def render_patch_def join_Cons)
  moreover have "\<forall>l \<in> set ?ls. line_ok l" using assms(1) st(1) render_hunk_line_ok by auto
  then have "str_lines (join [nl] (?ls @ [lit ''EOF''])) = ?ls @ [lit ''EOF'']"
    by (intro str_lines_join) (simp_all add: line_ok_def lit_def)
  ultimately show "str_lines (heredoc start (render_patch hs)) =
      start # (BEGIN_PATCH_MARKER # concat (map render_hunk hs) @ [END_PATCH_MARKER]) @ [lit ''EOF'']"
    by simp
qed

lemma heredoc_boundaries:
  assumes "start \<in> set HEREDOC_STARTS"
  shows "check_patch_boundaries_lenient
      (start # (BEGIN_PATCH_MARKER # ls @ [END_PATCH_MARKER]) @ [lit ''EOF'']) =
    Inr (BEGIN_PATCH_MARKER # ls @ [END_PATCH_MARKER])"
proof -
  have s: "check_patch_boundaries_strict (BEGIN_PATCH_MARKER # ls @ [END_PATCH_MARKER]) =
      Inr (BEGIN_PATCH_MARKER # ls @ [END_PATCH_MARKER])"
    by (cases ls) (simp_all add: check_patch_boundaries_strict_def check_start_and_end_lines_strict_def)
  have "check_patch_boundaries_strict (start # (BEGIN_PATCH_MARKER # ls @ [END_PATCH_MARKER]) @ [lit ''EOF''])
      = Inl FIRST_LINE_ERROR"
    using heredoc_starts [OF assms]
    by (simp add: check_patch_boundaries_strict_def check_start_and_end_lines_strict_def)
  moreover have "ends_with (lit ''EOF'') (lit ''EOF'')" by (simp add: ends_with_iff)
  ultimately show ?thesis
    using assms s by (simp add: check_patch_boundaries_lenient_def butlast_append)
qed

text \<open>C3: the parser inverts the writer of the patch grammar. For every syntax tree the
  grammar can write, parsing its text succeeds and gives exactly the hunks the tree stands
  for, in order, with the text unchanged and no environment id.\<close>

theorem parse_patch_render:
  assumes "\<forall>h \<in> set hs. hunk_ast_ok h"
  shows "parse_patch (render_patch hs) =
    Inr \<lparr>args_patch = render_patch hs, args_hunks = map denote_hunk hs, args_workdir = None,
         args_environment_id = None\<rparr>"
  using assms by (rule parse_rendered)

text \<open>A patch inside a heredoc, with any of the three spellings of its first line, is
  parsed as the patch itself in the lenient mode, and is an error in the strict mode.\<close>

theorem parse_patch_heredoc:
  assumes "\<forall>h \<in> set hs. hunk_ast_ok h" "start \<in> set HEREDOC_STARTS"
  shows "parse_patch_text (heredoc start (render_patch hs)) Lenient =
      Inr \<lparr>args_patch = render_patch hs, args_hunks = map denote_hunk hs, args_workdir = None,
           args_environment_id = None\<rparr>
    \<and> parse_patch_text (heredoc start (render_patch hs)) Strict = Inl FIRST_LINE_ERROR"
proof
  have "parse_patch_text (heredoc start (render_patch hs)) Lenient =
      parse_patch_text (render_patch hs) Lenient"
    unfolding parse_patch_text_def
    by (simp add: heredoc_lines [OF assms] heredoc_boundaries [OF assms(2), simplified]
        render_patch_lines [OF assms(1)] boundaries_ok)
  also have "\<dots> = parse_patch (render_patch hs)" by (simp add: parse_patch_def PARSE_IN_STRICT_MODE_def)
  finally show "parse_patch_text (heredoc start (render_patch hs)) Lenient =
      Inr \<lparr>args_patch = render_patch hs, args_hunks = map denote_hunk hs, args_workdir = None,
           args_environment_id = None\<rparr>"
    by (simp add: parse_rendered [OF assms(1)])
  show "parse_patch_text (heredoc start (render_patch hs)) Strict = Inl FIRST_LINE_ERROR"
    using heredoc_starts [OF assms(2)]
    by (simp add: parse_patch_text_def heredoc_lines [OF assms] check_patch_boundaries_strict_def
        check_start_and_end_lines_strict_def)
qed

definition sample_ast :: "hunk_ast list" where
  "sample_ast =
     [AstAdd (lit ''new.txt'') [lit ''one'', []],
      AstUpdate (lit ''a.rs'') (Some (lit ''b.rs''))
        [\<lparr>ast_context = Some (lit ''fn f''),
          ast_edits = [Keep (lit ''x''), Remove (lit ''y''), Insert (lit ''z'')], ast_eof = False\<rparr>,
         \<lparr>ast_context = None, ast_edits = [Insert []], ast_eof = True\<rparr>],
      AstDelete (lit ''old.txt'')]"

theorem parse_patch_render_witness:
  "parse_patch (render_patch sample_ast) =
    Inr \<lparr>args_patch = render_patch sample_ast, args_hunks = map denote_hunk sample_ast,
         args_workdir = None, args_environment_id = None\<rparr>"
  by (rule parse_patch_render)
     (simp add: sample_ast_def label_ok_def chunk_ast_ok_def line_ok_def lit_def is_whitespace_def)

theorem parse_patch_heredoc_witness:
  "parse_patch_text (heredoc (lit ''<<EOF'') (render_patch sample_ast)) Lenient =
    Inr \<lparr>args_patch = render_patch sample_ast, args_hunks = map denote_hunk sample_ast,
         args_workdir = None, args_environment_id = None\<rparr>"
  using parse_patch_heredoc [of sample_ast "lit ''<<EOF''"]
  by (simp add: HEREDOC_STARTS_def)
    (simp add: sample_ast_def label_ok_def chunk_ast_ok_def line_ok_def lit_def is_whitespace_def)

theorem finished_hunks_well_formed_witness:
  "\<exists>p p'. parser_reachable p \<and> finish p = (Inr (map denote_hunk sample_ast), p')
     \<and> (\<forall>h \<in> set (map denote_hunk sample_ast). hunk_ok h)"
proof -
  have "parse_patch_text (render_patch sample_ast) Lenient =
      Inr \<lparr>args_patch = render_patch sample_ast, args_hunks = map denote_hunk sample_ast,
           args_workdir = None, args_environment_id = None\<rparr>"
    using parse_rendered [of sample_ast] unfolding parse_patch_def PARSE_IN_STRICT_MODE_def
    by (simp add: sample_ast_def label_ok_def chunk_ast_ok_def line_ok_def lit_def is_whitespace_def)
  then obtain q parser hs parser' where q: "push_delta default_parser q = (Inr hs, parser)"
    "finish parser = (Inr (map denote_hunk sample_ast), parser')"
    by (rule parse_patch_text_Inr) simp
  have "parser_reachable parser"
    using parser_reachable.delta [OF parser_reachable.start, of q] q(1) by simp
  with finished_hunks_well_formed [OF this q(2)] q(2) show ?thesis by blast
qed

end
