(* ===== verification/Head_Tail_Buffer.thy ===== *)
theory Head_Tail_Buffer
  imports Rust_Prelude
begin

text \<open>
  \<open>core/src/unified_exec/head_tail_buffer.rs\<close>: the capped buffer that keeps the first
  and the last bytes of a process's output. The specification is \<open>summary\<close>, the buffer
  that a whole output would leave behind; every operation of the code is shown to compute
  it, however the output was cut into chunks and whichever buffers were joined.
  The byte type is left open (\<open>'a\<close>); \<open>max_bytes\<close> is the const parameter \<open>MAX_BYTES\<close>.
\<close>

section \<open>The interface of an output sink\<close>

text \<open>
  What the readers of a process rely on: bytes pushed in chunks leave the same state as
  the bytes pushed at once.
\<close>

locale byte_sink =
  fixes empty_sink :: "'s"
    and push :: "'s \<Rightarrow> 'a list \<Rightarrow> 's"
    and after :: "'a list \<Rightarrow> 's"
  assumes after_Nil: "after [] = empty_sink"
    and push_after: "push (after xs) ys = after (xs @ ys)"
begin

lemma fold_push_after: "fold (\<lambda>c s. push s c) cs (after xs) = after (xs @ concat cs)"
  by (induction cs arbitrary: xs) (simp_all add: push_after)

lemma fold_push_empty: "fold (\<lambda>c s. push s c) cs empty_sink = after (concat cs)"
  using fold_push_after [of cs "[]"] by (simp add: after_Nil)

end

section \<open>The buffer and its operations\<close>

record 'a HeadTailBuffer =
  head :: "'a list"
  tail :: "'a list"
  omitted_bytes :: nat

definition empty_buffer :: "'a HeadTailBuffer" where
  "empty_buffer = \<lparr>head = [], tail = [], omitted_bytes = 0\<rparr>"

definition HEAD_BUDGET :: "nat \<Rightarrow> nat" where
  "HEAD_BUDGET max_bytes = max_bytes div 2"

definition TAIL_BUDGET :: "nat \<Rightarrow> nat" where
  "TAIL_BUDGET max_bytes = max_bytes - HEAD_BUDGET max_bytes"

definition retained_bytes :: "'a HeadTailBuffer \<Rightarrow> nat" where
  "retained_bytes b = sat_add (length (head b)) (length (tail b))"

definition total_bytes :: "'a HeadTailBuffer \<Rightarrow> nat" where
  "total_bytes b = sat_add (retained_bytes b) (omitted_bytes b)"

definition fill_head :: "nat \<Rightarrow> 'a HeadTailBuffer \<Rightarrow> 'a list \<Rightarrow> 'a HeadTailBuffer \<times> 'a list" where
  "fill_head m b chunk =
     (let remaining_head = HEAD_BUDGET m - length (head b);
          (chunk_head, chunk_tail) =
            (if remaining_head \<le> length chunk
             then (take remaining_head chunk, drop remaining_head chunk) else (chunk, []))
      in (b\<lparr>head := head b @ chunk_head\<rparr>, chunk_tail))"

definition push_tail :: "nat \<Rightarrow> 'a HeadTailBuffer \<Rightarrow> 'a list \<Rightarrow> 'a HeadTailBuffer" where
  "push_tail m b chunk =
     (let remaining_tail = TAIL_BUDGET m - length (tail b);
          excess_tail = length chunk - remaining_tail;
          (tail', chunk') =
            (if excess_tail < length (tail b) then (drop excess_tail (tail b), chunk)
             else ([], drop (excess_tail - length (tail b)) chunk))
      in b\<lparr>omitted_bytes := sat_add (omitted_bytes b) excess_tail, tail := tail' @ chunk'\<rparr>)"

definition push_chunk :: "nat \<Rightarrow> 'a HeadTailBuffer \<Rightarrow> 'a list \<Rightarrow> 'a HeadTailBuffer" where
  "push_chunk m b chunk = (let (b', rest) = fill_head m b chunk in push_tail m b' rest)"

definition to_bytes :: "'a HeadTailBuffer \<Rightarrow> 'a list" where
  "to_bytes b = head b @ tail b"

definition format_output_omission_marker :: "nat \<Rightarrow> rstr" where
  "format_output_omission_marker n = lit ''... '' @ dec n @ lit '' bytes omitted ...''"

definition to_bytes_with_omission_marker :: "int HeadTailBuffer \<Rightarrow> int list" where
  "to_bytes_with_omission_marker b =
     (if omitted_bytes b = 0 then to_bytes b
      else head b @ [nl] @ into_bytes (format_output_omission_marker (omitted_bytes b)) @ [nl]
           @ tail b)"

text \<open>
  \<open>VecDeque::as_slices\<close> cuts the source tail where the ring buffer wraps: \<open>wrap\<close> is
  that position, on which nothing may depend.
\<close>

definition push_buffer ::
  "nat \<Rightarrow> nat \<Rightarrow> 'a HeadTailBuffer \<Rightarrow> 'a HeadTailBuffer \<Rightarrow> 'a HeadTailBuffer" where
  "push_buffer wrap m self buffer =
     (let self = self\<lparr>omitted_bytes := sat_add (omitted_bytes self) (omitted_bytes buffer)\<rparr>;
          (self, overflow) =
            (if head self = [] then (self\<lparr>head := head buffer\<rparr>, [])
             else fill_head m self (head buffer))
      in if length (tail buffer) = TAIL_BUDGET m
         then self\<lparr>omitted_bytes :=
                     sat_add (sat_add (omitted_bytes self) (length (tail self))) (length overflow),
                   tail := tail buffer\<rparr>
         else let self = push_tail m self overflow
              in if tail self = [] then self\<lparr>tail := tail buffer\<rparr>
                 else push_tail m (push_tail m self (take wrap (tail buffer)))
                        (drop wrap (tail buffer)))"

section \<open>Specification: the summary of an output\<close>

definition suffix_of :: "nat \<Rightarrow> 'a list \<Rightarrow> 'a list" where
  "suffix_of n xs = drop (length xs - n) xs"

definition summary :: "nat \<Rightarrow> 'a list \<Rightarrow> 'a HeadTailBuffer" where
  "summary m xs =
     \<lparr>head = take (HEAD_BUDGET m) xs,
      tail = suffix_of (TAIL_BUDGET m) (drop (HEAD_BUDGET m) xs),
      omitted_bytes = min (length xs - m) usize_max\<rparr>"

lemma length_suffix_of [simp]: "length (suffix_of n xs) = min n (length xs)"
  by (simp add: suffix_of_def)

lemma suffix_of_short [simp]: "length xs \<le> n \<Longrightarrow> suffix_of n xs = xs"
  by (simp add: suffix_of_def)

lemma suffix_of_append_long: "n \<le> length ys \<Longrightarrow> suffix_of n (xs @ ys) = suffix_of n ys"
  by (simp add: suffix_of_def)

lemma suffix_of_append:
  "suffix_of n (xs @ ys) = suffix_of n (suffix_of n xs @ ys)"
proof (cases "length xs \<le> n")
  case True
  then show ?thesis by simp
next
  case False
  then show ?thesis by (simp add: suffix_of_def add.commute)
qed

lemma budgets: "HEAD_BUDGET m + TAIL_BUDGET m = m"
  by (simp add: HEAD_BUDGET_def TAIL_BUDGET_def)

lemma fill_head_eq:
  "fill_head m b chunk =
     (b\<lparr>head := head b @ take (HEAD_BUDGET m - length (head b)) chunk\<rparr>,
      drop (HEAD_BUDGET m - length (head b)) chunk)"
  by (simp add: fill_head_def Let_def)

lemma push_tail_eq:
  assumes "length (tail b) \<le> TAIL_BUDGET m"
  shows "push_tail m b chunk =
    b\<lparr>tail := suffix_of (TAIL_BUDGET m) (tail b @ chunk),
      omitted_bytes :=
        sat_add (omitted_bytes b) (length (tail b @ chunk) - TAIL_BUDGET m)\<rparr>"
proof -
  have e: "length chunk - (TAIL_BUDGET m - length (tail b))
         = length (tail b @ chunk) - TAIL_BUDGET m"
    using assms by simp
  show ?thesis
    unfolding push_tail_def Let_def e by (simp add: suffix_of_def)
qed

lemma push_chunk_summary: "push_chunk m (summary m xs) ys = summary m (xs @ ys)"
proof -
  let ?H = "HEAD_BUDGET m" and ?T = "TAIL_BUDGET m"
  let ?rest = "drop (?H - length xs) ys"
  have H: "take ?H xs @ take (?H - min (length xs) ?H) ys = take ?H (xs @ ys)"
    by (simp add: min_def)
  have r: "?H - min (length xs) ?H = ?H - length xs" by simp
  have d: "drop ?H (xs @ ys) = drop ?H xs @ ?rest" by simp
  have t: "suffix_of ?T (suffix_of ?T (drop ?H xs) @ ?rest) = suffix_of ?T (drop ?H (xs @ ys))"
    unfolding d by (rule suffix_of_append [symmetric])
  have o': "(length xs - m) + (min ?T (length xs - ?H) + (length ys - (?H - length xs)) - ?T)
        = length xs + length ys - m"
    using budgets [of m] by linarith
  show ?thesis
    using H t o' unfolding push_chunk_def summary_def fill_head_eq Let_def
    by (simp add: push_tail_eq sat_add_min r)
qed

interpretation htb: byte_sink "empty_buffer" "push_chunk m" "summary m" for m
proof
  show "summary m [] = empty_buffer"
    by (simp add: summary_def empty_buffer_def suffix_of_def)
  show "push_chunk m (summary m xs) ys = summary m (xs @ ys)" for xs ys :: "'a list"
    by (rule push_chunk_summary)
qed

lemma push_tail_append:
  assumes "length (tail b) \<le> TAIL_BUDGET m"
  shows "push_tail m (push_tail m b x) y = push_tail m b (x @ y)"
proof -
  let ?T = "TAIL_BUDGET m"
  have "suffix_of ?T (suffix_of ?T (tail b @ x) @ y) = suffix_of ?T (tail b @ x @ y)"
    using suffix_of_append [of ?T "tail b @ x" y] by simp
  moreover have "(length (tail b @ x) - ?T) + (length (suffix_of ?T (tail b @ x) @ y) - ?T)
      = length (tail b @ x @ y) - ?T"
    by simp
  ultimately show ?thesis using assms by (simp add: push_tail_eq sat_add_assoc)
qed

text \<open>The code's shortcut for an empty destination head is the general case.\<close>

lemma fill_head_shortcut:
  assumes "length h \<le> HEAD_BUDGET m"
  shows "(if head b = [] then (b\<lparr>head := h\<rparr>, []) else fill_head m b h) = fill_head m b h"
  using assms by (simp add: fill_head_eq)

lemma push_tail_shortcut:
  assumes "length (tail b) \<le> TAIL_BUDGET m" "length t \<le> TAIL_BUDGET m"
    and "omitted_bytes b \<le> usize_max"
  shows "(if tail b = [] then b\<lparr>tail := t\<rparr>
          else push_tail m (push_tail m b (take k t)) (drop k t)) = push_tail m b t"
  using assms by (simp add: push_tail_append) (simp add: push_tail_eq sat_add_def)

lemma push_buffer_partial:
  assumes "length (drop (HEAD_BUDGET m) ys) < TAIL_BUDGET m"
  shows "push_buffer wrap m (summary m xs) (summary m ys)
       = push_chunk m (summary m xs) ys"
proof -
  let ?H = "HEAD_BUDGET m" and ?T = "TAIL_BUDGET m"
  let ?b = "fst (fill_head m (summary m xs) (take ?H ys))"
  let ?o = "snd (fill_head m (summary m xs) (take ?H ys))"
  define t where "t = drop ?H ys"
  have lt: "length t < ?T" using assms by (simp add: t_def)
  have part: "(length t = ?T) = False" using lt by simp
  have om: "length ys - m = 0" using assms budgets [of m] by simp
  have "suffix_of ?T (drop ?H ys) = drop ?H ys" using assms by simp
  then have buf: "summary m ys = \<lparr>head = take ?H ys, tail = t, omitted_bytes = 0\<rparr>"
    using om by (simp add: summary_def t_def)
  have keep: "(summary m xs)\<lparr>omitted_bytes := sat_add (omitted_bytes (summary m xs)) 0\<rparr>
            = summary m xs"
    by (simp add: summary_def sat_add_def)
  have sc: "(if head (summary m xs) = []
      then ((summary m xs)\<lparr>head := take ?H ys\<rparr>, [])
      else fill_head m (summary m xs) (take ?H ys)) = (?b, ?o)"
    by (simp only: fill_head_shortcut length_take min.cobounded2 prod.collapse)
  have tb: "length (tail ?b) \<le> ?T" by (simp add: fill_head_eq summary_def)
  have tp: "length (tail (push_tail m ?b ?o)) \<le> ?T"
    using tb by (simp add: push_tail_eq)
  have op: "omitted_bytes (push_tail m ?b ?o) \<le> usize_max"
    using tb by (simp add: push_tail_eq sat_add_def)
  have "push_buffer wrap m (summary m xs) (summary m ys)
      = (if tail (push_tail m ?b ?o) = [] then (push_tail m ?b ?o)\<lparr>tail := t\<rparr>
         else push_tail m (push_tail m (push_tail m ?b ?o) (take wrap t)) (drop wrap t))"
    by (simp only: push_buffer_def Let_def buf keep sc prod.case HeadTailBuffer.select_convs
        part if_False)
  also have "\<dots> = push_tail m (push_tail m ?b ?o) t"
    using lt tp op by (intro push_tail_shortcut) simp_all
  also have "\<dots> = push_tail m (push_tail m ?b ?o) (drop ?H ys)"
    by (simp add: t_def)
  also have "\<dots> = push_tail m ?b (?o @ drop ?H ys)"
    using tb by (rule push_tail_append)
  also have "\<dots> = push_chunk m (summary m xs) ys"
    using drop_take_drop [of "?H - length (head (summary m xs))" ?H ys]
    by (simp add: push_chunk_def fill_head_eq min_absorb1)
  finally show ?thesis .
qed

lemma push_buffer_full:
  assumes "length (suffix_of (TAIL_BUDGET m) (drop (HEAD_BUDGET m) ys)) = TAIL_BUDGET m"
  shows "push_buffer wrap m (summary m xs) (summary m ys) = summary m (xs @ ys)"
proof -
  let ?H = "HEAD_BUDGET m" and ?T = "TAIL_BUDGET m"
  have HT: "?H \<le> ?T" by (simp add: HEAD_BUDGET_def TAIL_BUDGET_def)
  have long: "m \<le> length ys" using assms HT budgets [of m] by (simp add: min_def split: if_splits)
  have tl: "suffix_of ?T (drop ?H (xs @ ys)) = suffix_of ?T (drop ?H ys)"
  proof (cases "?H \<le> length xs")
    case True
    have "?T \<le> length (drop ?H ys)" using long budgets [of m] by simp
    then have "suffix_of ?T ((drop ?H xs @ take ?H ys) @ drop ?H ys) = suffix_of ?T (drop ?H ys)"
      by (rule suffix_of_append_long)
    with True show ?thesis by simp
  next
    case False
    then have "drop ?H ys = drop (length xs) (drop (?H - length xs) ys)" by (simp add: add.commute)
    moreover have "drop ?H (xs @ ys) = drop (?H - length xs) ys" using False by simp
    moreover have "?T \<le> length (drop ?H ys)" using long budgets [of m] by simp
    ultimately show ?thesis by (metis append_take_drop_id suffix_of_append_long)
  qed
  have hd: "take ?H xs @ take (?H - min (length xs) ?H) ys = take ?H (xs @ ys)"
    by (simp add: min_def)
  have om: "(length xs - m) + (length ys - m) + min ?T (length xs - ?H)
        + (min (length ys) ?H - (?H - min (length xs) ?H)) = length xs + length ys - m"
    using long budgets [of m] by linarith
  have full: "length (tail (summary m ys)) = ?T" using assms by (simp add: summary_def)
  let ?o = "sat_add (min (length xs - m) usize_max) (min (length ys - m) usize_max)"
  have "push_buffer wrap m (summary m xs) (summary m ys) =
      \<lparr>head = take ?H xs @ take (?H - min (length xs) ?H) (take ?H ys),
       tail = tail (summary m ys),
       omitted_bytes = sat_add (sat_add ?o (min ?T (length xs - ?H)))
          (min (length ys) ?H - (?H - min (length xs) ?H))\<rparr>"
    using full unfolding push_buffer_def Let_def
    by (simp add: fill_head_shortcut) (simp add: summary_def fill_head_eq)
  also have "sat_add (sat_add ?o (min ?T (length xs - ?H)))
          (min (length ys) ?H - (?H - min (length xs) ?H)) = min (length xs + length ys - m) usize_max"
    unfolding om [symmetric] by (subst sat_add_min2) (simp only: sat_add_min)
  also have "take ?H xs @ take (?H - min (length xs) ?H) (take ?H ys) = take ?H (xs @ ys)"
    using hd by (simp add: min_def)
  finally show ?thesis using tl by (simp add: summary_def)
qed

section \<open>Properties\<close>

text \<open>C29: however the output of a process is cut into chunks, the buffer ends up as the summary
  of the whole output: the head is its first bytes, the tail its last, and the omitted
  count is exact (up to the saturation at \<open>usize::MAX\<close>).
\<close>

theorem push_chunks_summary:
  "fold (\<lambda>c b. push_chunk m b c) chunks empty_buffer = summary m (concat chunks)"
  by (rule htb.fold_push_empty)

text \<open>Appending a later buffer with the same budget gives the summary of the concatenated
  output, omission count included, wherever the source's ring buffer wraps.
\<close>

theorem push_buffer_summary:
  "push_buffer wrap m (summary m xs) (summary m ys) = summary m (xs @ ys)"
proof (cases "length (drop (HEAD_BUDGET m) ys) < TAIL_BUDGET m")
  case True
  then show ?thesis by (simp only: push_buffer_partial push_chunk_summary)
next
  case False
  then show ?thesis by (intro push_buffer_full) simp
qed

end
