(* ===== verification/Exec_Rule.thy ===== *)
theory Exec_Rule
  imports Rust_Prelude
begin

text \<open>
  \<open>execpolicy/src/decision.rs\<close>, \<open>rule.rs\<close>, \<open>executable_name.rs\<close> and \<open>error.rs\<close>: decisions
  and their order, command prefixes and the rules that match them, and the host names of
  network rules. Where an error of the code carries the \<open>Debug\<close> rendering of rules or a
  quoted command line, the model carries the rules and the command.
\<close>

section \<open>Decisions\<close>

datatype Decision = Allow | Prompt | Forbidden

text \<open>The derived order of the enum.\<close>

fun decision_rank :: "Decision \<Rightarrow> nat" where
  "decision_rank Allow = 0"
| "decision_rank Prompt = 1"
| "decision_rank Forbidden = 2"

instantiation Decision :: linorder
begin

definition less_eq_Decision :: "Decision \<Rightarrow> Decision \<Rightarrow> bool" where
  "less_eq_Decision a b \<longleftrightarrow> decision_rank a \<le> decision_rank b"

definition less_Decision :: "Decision \<Rightarrow> Decision \<Rightarrow> bool" where
  "less_Decision a b \<longleftrightarrow> decision_rank a < decision_rank b"

instance
proof
  fix a b :: Decision
  show "a \<le> b \<Longrightarrow> b \<le> a \<Longrightarrow> a = b"
    by (cases a; cases b) (simp_all add: less_eq_Decision_def)
qed (auto simp: less_eq_Decision_def less_Decision_def)

end

lemma decision_bounds [simp]: "Allow \<le> d" "d \<le> Forbidden"
  by (cases d; simp add: less_eq_Decision_def)+

section \<open>Prefix rules\<close>

datatype PatternToken = Single rstr | Alts "rstr list"

fun token_matches :: "PatternToken \<Rightarrow> rstr \<Rightarrow> bool" where
  "token_matches (Single expected) token = (expected = token)"
| "token_matches (Alts alternatives) token = list_ex (\<lambda>alt. alt = token) alternatives"

fun token_alternatives :: "PatternToken \<Rightarrow> rstr list" where
  "token_alternatives (Single expected) = [expected]"
| "token_alternatives (Alts alternatives) = alternatives"

record PrefixPattern =
  pat_first :: rstr
  pat_rest :: "PatternToken list"

definition matches_prefix :: "PrefixPattern \<Rightarrow> rstr list \<Rightarrow> rstr list option" where
  "matches_prefix p cmd =
     (let pattern_length = length (pat_rest p) + 1
      in if length cmd < pattern_length \<or> cmd ! 0 \<noteq> pat_first p then None
         else if list_all (\<lambda>(t, c). token_matches t c)
                   (zip (pat_rest p) (drop 1 (take pattern_length cmd)))
         then Some (take pattern_length cmd)
         else None)"

datatype 'a RuleMatch =
    PrefixRuleMatch "rstr list" Decision "'a option" "rstr option"
  | HeuristicsRuleMatch "rstr list" Decision

fun match_decision :: "'a RuleMatch \<Rightarrow> Decision" where
  "match_decision (PrefixRuleMatch _ d _ _) = d"
| "match_decision (HeuristicsRuleMatch _ d) = d"

fun with_resolved_program :: "'a \<Rightarrow> 'a RuleMatch \<Rightarrow> 'a RuleMatch" where
  "with_resolved_program p (PrefixRuleMatch prefix d _ j) = PrefixRuleMatch prefix d (Some p) j"
| "with_resolved_program p m = m"

record PrefixRule =
  rule_pattern :: PrefixPattern
  rule_decision :: Decision
  rule_justification :: "rstr option"

definition rule_program :: "PrefixRule \<Rightarrow> rstr" where
  "rule_program r = pat_first (rule_pattern r)"

definition rule_matches :: "PrefixRule \<Rightarrow> rstr list \<Rightarrow> 'a RuleMatch option" where
  "rule_matches r cmd =
     map_option (\<lambda>prefix. PrefixRuleMatch prefix (rule_decision r) None (rule_justification r))
       (matches_prefix (rule_pattern r) cmd)"

text \<open>What a rule stands for: its tokens match the first tokens of the command.\<close>

definition pattern_tokens :: "PrefixPattern \<Rightarrow> PatternToken list" where
  "pattern_tokens p = Single (pat_first p) # pat_rest p"

definition is_prefix_match :: "PatternToken list \<Rightarrow> rstr list \<Rightarrow> bool" where
  "is_prefix_match ts cmd \<longleftrightarrow>
     length ts \<le> length cmd \<and> list_all2 token_matches ts (take (length ts) cmd)"

lemma matches_prefix_iff:
  "matches_prefix p cmd = Some m \<longleftrightarrow>
     is_prefix_match (pattern_tokens p) cmd \<and> m = take (length (pattern_tokens p)) cmd"
proof (cases cmd)
  case Nil
  then show ?thesis by (simp add: matches_prefix_def is_prefix_match_def pattern_tokens_def)
next
  case (Cons c cs)
  have "list_all (\<lambda>(t, c). token_matches t c) (zip (pat_rest p) (take (length (pat_rest p)) cs))
      \<longleftrightarrow> list_all2 token_matches (pat_rest p) (take (length (pat_rest p)) cs)"
    if "length (pat_rest p) \<le> length cs"
    using that by (auto simp: list_all2_iff list_all_iff)
  with Cons show ?thesis
    by (auto simp: matches_prefix_def is_prefix_match_def pattern_tokens_def Let_def)
qed

lemma matches_prefix_None:
  "matches_prefix p cmd = None \<longleftrightarrow> \<not> is_prefix_match (pattern_tokens p) cmd"
  by (metis matches_prefix_iff not_None_eq)

lemma rule_matches_None:
  "rule_matches r cmd = None \<longleftrightarrow> \<not> is_prefix_match (pattern_tokens (rule_pattern r)) cmd"
  by (simp add: rule_matches_def matches_prefix_None)

lemma rule_matches_decision: "rule_matches r cmd = Some m \<Longrightarrow> match_decision m = rule_decision r"
  by (auto simp: rule_matches_def)

section \<open>Errors\<close>

record ErrorLocation =
  loc_path :: rstr
  loc_start :: "nat \<times> nat"
  loc_end :: "nat \<times> nat"

datatype policy_error =
    InvalidDecision rstr
  | InvalidPattern rstr
  | InvalidExample rstr
  | InvalidRule rstr
  | ExampleDidNotMatch "PrefixRule list" "rstr list list" "ErrorLocation option"
  | ExampleDidMatch rstr "rstr list" "ErrorLocation option"

fun with_location :: "ErrorLocation \<Rightarrow> policy_error \<Rightarrow> policy_error" where
  "with_location l (ExampleDidNotMatch rs es None) = ExampleDidNotMatch rs es (Some l)"
| "with_location l (ExampleDidMatch r e None) = ExampleDidMatch r e (Some l)"
| "with_location l e = e"

definition parse_decision :: "rstr \<Rightarrow> policy_error + Decision" where
  "parse_decision raw =
     (if raw = lit ''allow'' then Inr Allow
      else if raw = lit ''prompt'' then Inr Prompt
      else if raw = lit ''forbidden'' then Inr Forbidden
      else Inl (InvalidDecision raw))"

section \<open>Network rules\<close>

datatype NetworkRuleProtocol = Http | Https | Socks5Tcp | Socks5Udp

definition parse_protocol :: "rstr \<Rightarrow> policy_error + NetworkRuleProtocol" where
  "parse_protocol raw =
     (if raw = lit ''http'' then Inr Http
      else if raw \<in> {lit ''https'', lit ''https_connect'', lit ''http-connect''} then Inr Https
      else if raw = lit ''socks5_tcp'' then Inr Socks5Tcp
      else if raw = lit ''socks5_udp'' then Inr Socks5Udp
      else Inl (InvalidRule (lit ''network_rule protocol must be one of http, https, socks5_tcp, socks5_udp (got ''
             @ raw @ lit '')'')))"

fun as_policy_string :: "NetworkRuleProtocol \<Rightarrow> rstr" where
  "as_policy_string Http = lit ''http''"
| "as_policy_string Https = lit ''https''"
| "as_policy_string Socks5Tcp = lit ''socks5_tcp''"
| "as_policy_string Socks5Udp = lit ''socks5_udp''"

record NetworkRule =
  nr_host :: rstr
  nr_protocol :: NetworkRuleProtocol
  nr_decision :: Decision
  nr_justification :: "rstr option"

definition port_digits :: "rstr \<Rightarrow> bool" where
  "port_digits port \<longleftrightarrow> port \<noteq> [] \<and> list_all is_ascii_digit port"

text \<open>The host without brackets and port.\<close>

definition strip_host_port :: "rstr \<Rightarrow> rstr \<Rightarrow> policy_error + rstr" where
  "strip_host_port raw host =
     (case strip_prefix [91] host of
        Some stripped \<Rightarrow>
          (case split_once [93] stripped of
             None \<Rightarrow> Inl (InvalidRule (lit ''network_rule host has an invalid bracketed IPv6 literal''))
           | Some (inside, rest) \<Rightarrow>
               (let port_ok = opt_is_some_and port_digits (strip_prefix [58] rest)
                in if rest \<noteq> [] \<and> \<not> port_ok
                   then Inl (InvalidRule (lit ''network_rule host contains an unsupported suffix: '' @ raw))
                   else Inr inside))
      | None \<Rightarrow>
          (if length (filter (\<lambda>c. c = 58) host) = 1
           then (case rsplit_once 58 host of
                   Some (candidate, port) \<Rightarrow>
                     (if candidate \<noteq> [] \<and> port_digits port then Inr candidate else Inr host)
                 | None \<Rightarrow> Inr host)
           else Inr host))"

definition normalize_network_rule_host :: "rstr \<Rightarrow> policy_error + rstr" where
  "normalize_network_rule_host raw =
     (let host = trim raw
      in if host = [] then Inl (InvalidRule (lit ''network_rule host cannot be empty''))
         else if contains (lit ''://'') host \<or> 47 \<in> set host \<or> 63 \<in> set host \<or> 35 \<in> set host
         then Inl (InvalidRule (lit ''network_rule host must be a hostname or IP literal (without scheme or path)''))
         else bind_result (strip_host_port raw host) (\<lambda>host.
           let normalized = to_ascii_lowercase (trim (trim_end_matches (\<lambda>c. c = 46) host))
           in if normalized = [] then Inl (InvalidRule (lit ''network_rule host cannot be empty''))
              else if 42 \<in> set normalized
              then Inl (InvalidRule (lit ''network_rule host must be a specific host; wildcards are not allowed''))
              else if list_ex is_whitespace normalized
              then Inl (InvalidRule (lit ''network_rule host cannot contain whitespace''))
              else Inr normalized))"

section \<open>Executable names\<close>

definition WINDOWS_EXECUTABLE_SUFFIXES :: "rstr list" where
  "WINDOWS_EXECUTABLE_SUFFIXES = [lit ''.exe'', lit ''.cmd'', lit ''.bat'', lit ''.com'']"

fun strip_executable_suffix :: "rstr list \<Rightarrow> rstr \<Rightarrow> rstr" where
  "strip_executable_suffix [] raw = raw"
| "strip_executable_suffix (suffix # suffixes) raw =
     (case strip_suffix suffix raw of
        Some stripped \<Rightarrow> stripped
      | None \<Rightarrow> strip_executable_suffix suffixes raw)"

definition executable_lookup_key :: "bool \<Rightarrow> rstr \<Rightarrow> rstr" where
  "executable_lookup_key windows raw =
     (if windows then strip_executable_suffix WINDOWS_EXECUTABLE_SUFFIXES (to_ascii_lowercase raw)
      else raw)"

text \<open>
  The paths of the host: how a string becomes an absolute path, and the last component of
  one. These are the operations of \<open>AbsolutePathBuf\<close> and \<open>std::path\<close> the policy uses.
\<close>

record 'a host_paths =
  on_windows :: bool
  absolute_path :: "rstr \<Rightarrow> 'a option"
  path_file_name :: "'a \<Rightarrow> rstr option"

definition executable_path_lookup_key :: "'a host_paths \<Rightarrow> 'a \<Rightarrow> rstr option" where
  "executable_path_lookup_key hp p =
     map_option (executable_lookup_key (on_windows hp)) (path_file_name hp p)"

section \<open>Lemmas on hosts\<close>

lemma set_strip_host_port:
  assumes "strip_host_port raw host = Inr h"
  shows "set h \<subseteq> set host"
proof (cases "strip_prefix [91] host")
  case (Some s)
  then have s: "set s \<subseteq> set host" by (auto simp: strip_prefix_Some)
  from assms Some obtain rest where "split_once [93] s = Some (h, rest)"
    by (auto simp: strip_host_port_def Let_def split: option.splits if_splits)
  then have "set h \<subseteq> set s"
    by (auto simp: split_once_def split: option.splits dest: in_set_takeD)
  with s show ?thesis by blast
next
  case None
  have "set a \<subseteq> set host" if "rsplit_once 58 host = Some (a, b)" for a b
    using that
    by (auto simp: rsplit_once_def split_once_def split: option.splits dest!: in_set_dropD)
  with assms None show ?thesis
    by (auto simp: strip_host_port_def split: option.splits if_splits)
qed

lemma to_ascii_lower_other:
  "\<not> (97 \<le> d \<and> d \<le> 122) \<Longrightarrow> to_ascii_lower c = d \<Longrightarrow> c = d"
  by (auto simp: to_ascii_lower_def split: if_splits)

lemma normalized_host_facts:
  assumes "normalize_network_rule_host raw = Inr h"
  shows "h \<noteq> [] \<and> to_ascii_lowercase h = h
    \<and> (\<forall>c \<in> set h. \<not> is_whitespace c \<and> c \<noteq> 42 \<and> c \<noteq> 47 \<and> c \<noteq> 63 \<and> c \<noteq> 35)"
proof -
  from assms obtain host where host: "strip_host_port raw (trim raw) = Inr host"
    and safe: "47 \<notin> set (trim raw)" "63 \<notin> set (trim raw)" "35 \<notin> set (trim raw)"
    and h: "h = to_ascii_lowercase (trim (trim_end_matches (\<lambda>c. c = 46) host))" "h \<noteq> []"
      "42 \<notin> set h" "\<not> list_ex is_whitespace h"
    by (auto simp: normalize_network_rule_host_def Let_def bind_result_Inr split: if_splits)
  have sub: "set (trim (trim_end_matches (\<lambda>c. c = 46) host)) \<subseteq> set (trim raw)"
    using set_trim set_trim_end_matches set_strip_host_port [OF host] by blast
  have "d \<notin> set h" if "d \<in> {47, 63, 35}" for d
  proof
    assume "d \<in> set h"
    then obtain c where "c \<in> set (trim raw)" "to_ascii_lower c = d"
      using sub by (auto simp: h(1) to_ascii_lowercase_def)
    with that safe to_ascii_lower_other [of d c] show False by auto
  qed
  with h show ?thesis by (auto simp: list_ex_iff)
qed

text \<open>What an accepted network-rule host looks like. It is not empty, in lower case,
  and holds no wildcard, no white space, no slash, question mark or hash sign.\<close>

theorem normalized_host_is_specific:
  assumes "normalize_network_rule_host raw = Inr h"
  shows "h \<noteq> [] \<and> to_ascii_lowercase h = h
    \<and> (\<forall>c \<in> set h. \<not> is_whitespace c \<and> c \<noteq> 42 \<and> c \<noteq> 47 \<and> c \<noteq> 63 \<and> c \<noteq> 35)"
  using assms by (rule normalized_host_facts)

theorem normalized_host_is_specific_witness:
  "normalize_network_rule_host (lit '' API.Example.COM.:443 '') = Inr (lit ''api.example.com'')
    \<and> to_ascii_lowercase (lit ''api.example.com'') = lit ''api.example.com''"
proof -
  have "normalize_network_rule_host (lit '' API.Example.COM.:443 '') = Inr (lit ''api.example.com'')"
    by code_simp
  with normalized_host_is_specific [OF this] show ?thesis by blast
qed

end
