(* ===== verification/Exec_Policy.thy ===== *)
theory Exec_Policy
  imports Exec_Rule "HOL-Library.List_Lexorder" "HOL-Library.Multiset"
begin

text \<open>
  \<open>execpolicy/src/policy.rs\<close>: a policy indexes its rules by the first token of the commands
  they match, evaluates commands against them, and compiles network rules to two lists of
  hosts. A \<open>MultiMap\<close> is a list of keys with their values in insertion order, the order of
  the keys standing for the unspecified order of the hash map; a \<open>HashMap\<close> is a map. The
  \<open>expect\<close> of \<open>Evaluation::from_matches\<close> is the value None.
\<close>

section \<open>Multimaps\<close>

type_synonym ('k, 'v) multimap = "('k \<times> 'v list) list"

fun mm_insert :: "'k \<Rightarrow> 'v \<Rightarrow> ('k, 'v) multimap \<Rightarrow> ('k, 'v) multimap" where
  "mm_insert k v [] = [(k, [v])]"
| "mm_insert k v ((k', vs) # m) =
     (if k = k' then (k', vs @ [v]) # m else (k', vs) # mm_insert k v m)"

definition mm_get_vec :: "('k, 'v) multimap \<Rightarrow> 'k \<Rightarrow> 'v list option" where
  "mm_get_vec m k = map_of m k"

definition mm_values :: "('k, 'v) multimap \<Rightarrow> 'k \<Rightarrow> 'v list" where
  "mm_values m k = (case mm_get_vec m k of None \<Rightarrow> [] | Some vs \<Rightarrow> vs)"

definition mm_ok :: "('k, 'v) multimap \<Rightarrow> bool" where
  "mm_ok m \<longleftrightarrow> distinct (map fst m)"

text \<open>Insert the values of another multimap, key by key.\<close>

definition mm_insert_all :: "('k, 'v) multimap \<Rightarrow> ('k, 'v) multimap \<Rightarrow> ('k, 'v) multimap" where
  "mm_insert_all m other = fold (\<lambda>(k, vs) m. fold (\<lambda>v m. mm_insert k v m) vs m) other m"

lemma mm_values_insert:
  "mm_values (mm_insert k v m) k' = (if k' = k then mm_values m k @ [v] else mm_values m k')"
  by (induction k v m rule: mm_insert.induct) (auto simp: mm_values_def mm_get_vec_def)

lemma mm_values_insert_ex:
  "(\<exists>k'. r \<in> set (mm_values (mm_insert k v m) k')) \<longleftrightarrow> r = v \<or> (\<exists>k'. r \<in> set (mm_values m k'))"
proof
  assume "r = v \<or> (\<exists>k'. r \<in> set (mm_values m k'))"
  then show "\<exists>k'. r \<in> set (mm_values (mm_insert k v m) k')"
  proof
    assume "r = v"
    then show ?thesis by (intro exI [of _ k]) (simp add: mm_values_insert)
  next
    assume "\<exists>k'. r \<in> set (mm_values m k')"
    then obtain k' where "r \<in> set (mm_values m k')" by blast
    then show ?thesis by (intro exI [of _ k']) (auto simp: mm_values_insert)
  qed
qed (auto simp: mm_values_insert split: if_splits)

lemma mm_insert_keys: "fst ` set (mm_insert k v m) = insert k (fst ` set m)"
  by (induction k v m rule: mm_insert.induct) auto

lemma mm_ok_insert: "mm_ok m \<Longrightarrow> mm_ok (mm_insert k v m)"
  by (induction k v m rule: mm_insert.induct) (auto simp: mm_ok_def mm_insert_keys)

lemma mm_values_fold_insert:
  "mm_values (fold (\<lambda>v m. mm_insert k v m) vs m) k' = (if k' = k then mm_values m k @ vs else mm_values m k')"
  by (induction vs arbitrary: m) (auto simp: mm_values_insert)

lemma mm_values_Cons:
  "mm_values ((k, vs) # m) k' = (if k' = k then vs else mm_values m k')"
  by (simp add: mm_values_def mm_get_vec_def)

lemma mm_values_absent: "k \<notin> fst ` set m \<Longrightarrow> mm_values m k = []"
  by (induction m) (auto simp: mm_values_def mm_get_vec_def)

lemma mm_values_insert_all:
  "mm_ok other \<Longrightarrow> mm_values (mm_insert_all m other) k = mm_values m k @ mm_values other k"
proof (induction other arbitrary: m)
  case Nil
  then show ?case by (simp add: mm_insert_all_def mm_values_def mm_get_vec_def)
next
  case (Cons kv other)
  obtain k' vs where kv: "kv = (k', vs)" by fastforce
  from Cons have "k' \<notin> fst ` set other" "mm_ok other" by (auto simp: mm_ok_def kv)
  with Cons.IH [of "fold (\<lambda>v m. mm_insert k' v m) vs m"] show ?case
    by (auto simp: mm_insert_all_def kv mm_values_fold_insert mm_values_Cons mm_values_absent)
qed

lemma mm_ok_insert_all: "mm_ok m \<Longrightarrow> mm_ok (mm_insert_all m other)"
proof (induction other arbitrary: m)
  case (Cons kv other)
  obtain k vs where kv: "kv = (k, vs)" by fastforce
  have "mm_ok (fold (\<lambda>v m. mm_insert k v m) vs m)" using Cons.prems
    by (induction vs arbitrary: m) (auto intro: mm_ok_insert)
  then show ?case using Cons.IH by (simp add: mm_insert_all_def kv)
qed (simp add: mm_insert_all_def)

section \<open>The interface of a rule\<close>

text \<open>
  The trait \<open>Rule\<close>: the program a rule is filed under and how it matches a command. The
  index by program is complete because a rule only matches commands of its program.
\<close>

locale exec_rule =
  fixes program :: "'r \<Rightarrow> rstr"
    and applies :: "'r \<Rightarrow> rstr list \<Rightarrow> 'm option"
  assumes applies_program: "applies r cmd = Some m \<Longrightarrow> cmd \<noteq> [] \<and> hd cmd = program r"
begin

definition filed :: "(rstr, 'r) multimap \<Rightarrow> bool" where
  "filed m \<longleftrightarrow> mm_ok m \<and> (\<forall>(k, rs) \<in> set m. \<forall>r \<in> set rs. program r = k)"

lemma filed_Nil: "filed []"
  by (simp add: filed_def mm_ok_def)

lemma filed_insert: "filed m \<Longrightarrow> filed (mm_insert (program r) r m)"
proof -
  have "\<forall>(k, rs) \<in> set (mm_insert p r m). \<forall>r \<in> set rs. program r = k"
    if "\<forall>(k, rs) \<in> set m. \<forall>r \<in> set rs. program r = k" "p = program r" for p
    using that by (induction p r m rule: mm_insert.induct) auto
  then show "filed m \<Longrightarrow> filed (mm_insert (program r) r m)"
    by (auto simp: filed_def mm_ok_insert)
qed

lemma filed_fold_insert:
  "filed m \<Longrightarrow> \<forall>r \<in> set rs. program r = k \<Longrightarrow> filed (fold (\<lambda>v m. mm_insert k v m) rs m)"
proof (induction rs arbitrary: m)
  case (Cons r rs)
  then have "filed (mm_insert k r m)" using filed_insert [of m r] by simp
  with Cons show ?case by simp
qed simp

lemma filed_insert_all: "filed m \<Longrightarrow> filed other \<Longrightarrow> filed (mm_insert_all m other)"
proof (induction other arbitrary: m)
  case (Cons kv other)
  obtain k rs where kv: "kv = (k, rs)" by fastforce
  have "filed (fold (\<lambda>v m. mm_insert k v m) rs m)"
    using Cons.prems by (intro filed_fold_insert) (auto simp: filed_def kv)
  moreover have "filed other" using Cons.prems(2) by (auto simp: filed_def mm_ok_def)
  ultimately show ?case using Cons.IH by (simp add: mm_insert_all_def kv)
qed (simp add: mm_insert_all_def)

lemma bucket_complete:
  assumes "filed m" "(k, rs) \<in> set m" "r \<in> set rs" "applies r cmd = Some x"
  shows "cmd \<noteq> [] \<and> r \<in> set (mm_values m (hd cmd))"
proof -
  have "program r = k" using assms(1-3) by (auto simp: filed_def)
  moreover have "map_of m k = Some rs"
    using assms(1,2) by (simp add: filed_def mm_ok_def)
  ultimately show ?thesis
    using assms(3) applies_program [OF assms(4)] by (simp add: mm_values_def mm_get_vec_def)
qed

lemma bucket_sound:
  "r \<in> set (mm_values m k) \<Longrightarrow> \<exists>rs. (k, rs) \<in> set m \<and> r \<in> set rs"
  by (cases "map_of m k") (auto simp: mm_values_def mm_get_vec_def dest: map_of_SomeD)

end

interpretation prefix_rule: exec_rule rule_program rule_matches
proof
  show "cmd \<noteq> [] \<and> hd cmd = rule_program r" if "rule_matches r cmd = Some m" for r cmd and m :: "'a RuleMatch"
  proof (cases cmd)
    case Nil
    with that show ?thesis by (simp add: rule_matches_def matches_prefix_def)
  next
    case (Cons c cs)
    with that show ?thesis
      by (auto simp: rule_matches_def rule_program_def matches_prefix_iff is_prefix_match_def
          pattern_tokens_def)
  qed
qed

section \<open>Policies\<close>

record MatchOptions =
  resolve_host_executables :: bool

definition default_match_options :: MatchOptions where
  "default_match_options = \<lparr>resolve_host_executables = False\<rparr>"

record 'a Policy =
  rules_by_program :: "(rstr, PrefixRule) multimap"
  network_rules :: "NetworkRule list"
  host_executables_by_name :: "rstr \<Rightarrow> 'a list option"

definition policy_from_parts ::
  "(rstr, PrefixRule) multimap \<Rightarrow> NetworkRule list \<Rightarrow> (rstr \<Rightarrow> 'a list option) \<Rightarrow> 'a Policy" where
  "policy_from_parts rules network hosts =
     \<lparr>rules_by_program = rules, network_rules = network, host_executables_by_name = hosts\<rparr>"

definition new_policy :: "(rstr, PrefixRule) multimap \<Rightarrow> 'a Policy" where
  "new_policy rules = policy_from_parts rules [] (\<lambda>_. None)"

definition empty_policy :: "'a Policy" where
  "empty_policy = new_policy []"

definition render_pattern_token :: "PatternToken \<Rightarrow> rstr" where
  "render_pattern_token t =
     (case t of Single v \<Rightarrow> v | Alts as \<Rightarrow> lit ''['' @ join (lit ''|'') as @ lit '']'')"

definition allowed_prefix :: "PrefixRule \<Rightarrow> rstr list" where
  "allowed_prefix r = pat_first (rule_pattern r) # map render_pattern_token (pat_rest (rule_pattern r))"

definition all_rules :: "'a Policy \<Rightarrow> PrefixRule list" where
  "all_rules p = concat (map snd (rules_by_program p))"

definition get_allowed_prefixes :: "'a Policy \<Rightarrow> rstr list list" where
  "get_allowed_prefixes p =
     remdups_adj (sort (map allowed_prefix (filter (\<lambda>r. rule_decision r = Allow) (all_rules p))))"

definition add_prefix_rule :: "rstr list \<Rightarrow> Decision \<Rightarrow> 'a Policy \<Rightarrow> policy_error + 'a Policy" where
  "add_prefix_rule prefix decision p =
     (case prefix of
        [] \<Rightarrow> Inl (InvalidPattern (lit ''prefix cannot be empty''))
      | first_token # rest \<Rightarrow>
          Inr (p\<lparr>rules_by_program := mm_insert first_token
                 \<lparr>rule_pattern = \<lparr>pat_first = first_token, pat_rest = map Single rest\<rparr>,
                  rule_decision = decision, rule_justification = None\<rparr> (rules_by_program p)\<rparr>))"

definition blank_justification :: "rstr option \<Rightarrow> bool" where
  "blank_justification j = opt_is_some_and (\<lambda>raw. trim raw = []) j"

definition add_network_rule ::
  "rstr \<Rightarrow> NetworkRuleProtocol \<Rightarrow> Decision \<Rightarrow> rstr option \<Rightarrow> 'a Policy \<Rightarrow> policy_error + 'a Policy" where
  "add_network_rule host protocol decision justification p =
     bind_result (normalize_network_rule_host host) (\<lambda>host.
       if blank_justification justification
       then Inl (InvalidRule (lit ''justification cannot be empty''))
       else Inr (p\<lparr>network_rules := network_rules p @ [\<lparr>nr_host = host, nr_protocol = protocol,
              nr_decision = decision, nr_justification = justification\<rparr>]\<rparr>))"

definition set_host_executable_paths :: "rstr \<Rightarrow> 'a list \<Rightarrow> 'a Policy \<Rightarrow> 'a Policy" where
  "set_host_executable_paths name paths p =
     p\<lparr>host_executables_by_name := (host_executables_by_name p)(name \<mapsto> paths)\<rparr>"

definition merge_overlay :: "'a Policy \<Rightarrow> 'a Policy \<Rightarrow> 'a Policy" where
  "merge_overlay p overlay =
     policy_from_parts
       (mm_insert_all (rules_by_program p) (rules_by_program overlay))
       (network_rules p @ network_rules overlay)
       (host_executables_by_name p ++ host_executables_by_name overlay)"

definition upsert_domain :: "rstr list \<Rightarrow> rstr \<Rightarrow> rstr list" where
  "upsert_domain entries host = filter (\<lambda>e. e \<noteq> host) entries @ [host]"

definition compile_network_rule :: "NetworkRule \<Rightarrow> rstr list \<times> rstr list \<Rightarrow> rstr list \<times> rstr list" where
  "compile_network_rule rule acc =
     (let (allowed, denied) = acc
      in case nr_decision rule of
           Allow \<Rightarrow> (upsert_domain allowed (nr_host rule), filter (\<lambda>e. e \<noteq> nr_host rule) denied)
         | Forbidden \<Rightarrow> (filter (\<lambda>e. e \<noteq> nr_host rule) allowed, upsert_domain denied (nr_host rule))
         | Prompt \<Rightarrow> (allowed, denied))"

definition compiled_network_domains :: "'a Policy \<Rightarrow> rstr list \<times> rstr list" where
  "compiled_network_domains p = fold compile_network_rule (network_rules p) ([], [])"

section \<open>Evaluation\<close>

definition match_exact_rules :: "'a Policy \<Rightarrow> rstr list \<Rightarrow> 'a RuleMatch list option" where
  "match_exact_rules p cmd =
     (case cmd of
        [] \<Rightarrow> None
      | first # _ \<Rightarrow>
          Some (case mm_get_vec (rules_by_program p) first of
                  None \<Rightarrow> []
                | Some rules \<Rightarrow> List.map_filter (\<lambda>r. rule_matches r cmd) rules))"

definition match_host_executable_rules ::
  "'a host_paths \<Rightarrow> 'a Policy \<Rightarrow> rstr list \<Rightarrow> 'a RuleMatch list" where
  "match_host_executable_rules hp p cmd =
     (case cmd of
        [] \<Rightarrow> []
      | first # args \<Rightarrow>
          (case absolute_path hp first of
             None \<Rightarrow> []
           | Some program \<Rightarrow>
               (case executable_path_lookup_key hp program of
                  None \<Rightarrow> []
                | Some basename \<Rightarrow>
                    (case mm_get_vec (rules_by_program p) basename of
                       None \<Rightarrow> []
                     | Some rules \<Rightarrow>
                         (if opt_is_some_and (\<lambda>paths. program \<notin> set paths)
                               (host_executables_by_name p basename)
                          then []
                          else map (with_resolved_program program)
                                 (List.map_filter (\<lambda>r. rule_matches r (basename # args)) rules))))))"

definition non_empty :: "'b list option \<Rightarrow> 'b list option" where
  "non_empty x = (case x of Some (y # ys) \<Rightarrow> Some (y # ys) | _ \<Rightarrow> None)"

definition matches_for_command_with_options ::
  "'a host_paths \<Rightarrow> 'a Policy \<Rightarrow> rstr list \<Rightarrow> (rstr list \<Rightarrow> Decision) option \<Rightarrow> MatchOptions
   \<Rightarrow> 'a RuleMatch list" where
  "matches_for_command_with_options hp p cmd heuristics_fallback options =
     (let matched_rules =
            (case non_empty (match_exact_rules p cmd) of
               Some ms \<Rightarrow> ms
             | None \<Rightarrow>
                 (case (if resolve_host_executables options
                        then non_empty (Some (match_host_executable_rules hp p cmd)) else None) of
                    Some ms \<Rightarrow> ms
                  | None \<Rightarrow> []))
      in case heuristics_fallback of
           Some fallback \<Rightarrow>
             (if matched_rules = [] then [HeuristicsRuleMatch cmd (fallback cmd)] else matched_rules)
         | None \<Rightarrow> matched_rules)"

definition matches_for_command ::
  "'a host_paths \<Rightarrow> 'a Policy \<Rightarrow> rstr list \<Rightarrow> (rstr list \<Rightarrow> Decision) option \<Rightarrow> 'a RuleMatch list" where
  "matches_for_command hp p cmd fallback =
     matches_for_command_with_options hp p cmd fallback default_match_options"

record 'a Evaluation =
  ev_decision :: Decision
  ev_matched_rules :: "'a RuleMatch list"

definition is_match :: "'a Evaluation \<Rightarrow> bool" where
  "is_match e =
     list_ex (\<lambda>m. case m of HeuristicsRuleMatch _ _ \<Rightarrow> False | _ \<Rightarrow> True) (ev_matched_rules e)"

fun max_decision :: "Decision list \<Rightarrow> Decision option" where
  "max_decision [] = None"
| "max_decision (d # ds) = (case max_decision ds of None \<Rightarrow> Some d | Some e \<Rightarrow> Some (max d e))"

definition evaluation_from_matches :: "'a RuleMatch list \<Rightarrow> 'a Evaluation option" where
  "evaluation_from_matches ms =
     map_option (\<lambda>d. \<lparr>ev_decision = d, ev_matched_rules = ms\<rparr>) (max_decision (map match_decision ms))"

definition check_with_options ::
  "'a host_paths \<Rightarrow> 'a Policy \<Rightarrow> rstr list \<Rightarrow> (rstr list \<Rightarrow> Decision) \<Rightarrow> MatchOptions
   \<Rightarrow> 'a Evaluation option" where
  "check_with_options hp p cmd fallback options =
     evaluation_from_matches (matches_for_command_with_options hp p cmd (Some fallback) options)"

definition policy_check ::
  "'a host_paths \<Rightarrow> 'a Policy \<Rightarrow> rstr list \<Rightarrow> (rstr list \<Rightarrow> Decision) \<Rightarrow> 'a Evaluation option" where
  "policy_check hp p cmd fallback = check_with_options hp p cmd fallback default_match_options"

definition check_multiple_with_options ::
  "'a host_paths \<Rightarrow> 'a Policy \<Rightarrow> rstr list list \<Rightarrow> (rstr list \<Rightarrow> Decision) \<Rightarrow> MatchOptions
   \<Rightarrow> 'a Evaluation option" where
  "check_multiple_with_options hp p cmds fallback options =
     evaluation_from_matches
       (concat (map (\<lambda>cmd. matches_for_command_with_options hp p cmd (Some fallback) options) cmds))"

definition check_multiple ::
  "'a host_paths \<Rightarrow> 'a Policy \<Rightarrow> rstr list list \<Rightarrow> (rstr list \<Rightarrow> Decision) \<Rightarrow> 'a Evaluation option" where
  "check_multiple hp p cmds fallback =
     check_multiple_with_options hp p cmds fallback default_match_options"

text \<open>The fingerprint of a requirements policy; \<open>render\<close> stands for the derived \<open>Debug\<close>.\<close>

definition fingerprint :: "(PrefixRule \<Rightarrow> rstr) \<Rightarrow> 'a Policy \<Rightarrow> rstr list" where
  "fingerprint render p =
     sort (concat (map (\<lambda>(program, rules). map (\<lambda>r. program @ lit '':'' @ render r) rules)
            (rules_by_program p)))"

section \<open>Lemmas\<close>

definition policy_ok :: "'a Policy \<Rightarrow> bool" where
  "policy_ok p \<longleftrightarrow> prefix_rule.filed (rules_by_program p)"

text \<open>The rules of a policy that match a command.\<close>

definition applicable :: "'a Policy \<Rightarrow> rstr list \<Rightarrow> PrefixRule set" where
  "applicable p cmd = {r \<in> set (all_rules p). is_prefix_match (pattern_tokens (rule_pattern r)) cmd}"

definition exact_matches :: "'a Policy \<Rightarrow> rstr list \<Rightarrow> 'a RuleMatch list" where
  "exact_matches p cmd = (case match_exact_rules p cmd of None \<Rightarrow> [] | Some ms \<Rightarrow> ms)"

lemma exact_matches_eq:
  "exact_matches p cmd = (if cmd = [] then [] else
     List.map_filter (\<lambda>r. rule_matches r cmd) (mm_values (rules_by_program p) (hd cmd)))"
  by (cases cmd) (simp_all add: exact_matches_def match_exact_rules_def mm_values_def
      map_filter_def split: option.split)

lemma set_map_filter: "set (List.map_filter f xs) = {y. \<exists>x \<in> set xs. f x = Some y}"
  by (induction xs) (auto simp: map_filter_simps split: option.split)

lemma exact_matches_applicable:
  assumes "policy_ok p"
  shows "match_decision ` set (exact_matches p cmd) = rule_decision ` applicable p cmd"
proof
  show "match_decision ` set (exact_matches p cmd) \<subseteq> rule_decision ` applicable p cmd"
  proof
    fix d assume "d \<in> match_decision ` set (exact_matches p cmd)"
    then obtain r and m :: "'a RuleMatch" where r: "cmd \<noteq> []" "r \<in> set (mm_values (rules_by_program p) (hd cmd))"
      "rule_matches r cmd = Some m" "d = match_decision m"
      by (auto simp: exact_matches_eq set_map_filter split: if_splits)
    have "\<not> \<not> is_prefix_match (pattern_tokens (rule_pattern r)) cmd"
      using r(3) rule_matches_None by (metis option.distinct(1))
    moreover have "r \<in> set (all_rules p)"
      using prefix_rule.bucket_sound [OF r(2)] by (force simp: all_rules_def)
    ultimately show "d \<in> rule_decision ` applicable p cmd"
      using r(3,4) by (auto simp: applicable_def rule_matches_decision)
  qed
next
  show "rule_decision ` applicable p cmd \<subseteq> match_decision ` set (exact_matches p cmd)"
  proof
    fix d assume "d \<in> rule_decision ` applicable p cmd"
    then obtain r where r: "r \<in> set (all_rules p)" "is_prefix_match (pattern_tokens (rule_pattern r)) cmd"
      "d = rule_decision r" by (auto simp: applicable_def)
    then obtain m :: "'a RuleMatch" where m: "rule_matches r cmd = Some m"
      using rule_matches_None by (metis not_None_eq)
    from r(1) obtain k rs where k: "(k, rs) \<in> set (rules_by_program p)" "r \<in> set rs"
      by (auto simp: all_rules_def)
    have "cmd \<noteq> [] \<and> r \<in> set (mm_values (rules_by_program p) (hd cmd))"
      using assms k m by (intro prefix_rule.bucket_complete [of _ k rs]) (auto simp: policy_ok_def)
    then have "m \<in> set (exact_matches p cmd)" using m by (auto simp: exact_matches_eq set_map_filter)
    with r(3) rule_matches_decision [OF m] show "d \<in> match_decision ` set (exact_matches p cmd)"
      by (metis image_eqI)
  qed
qed

lemma exact_matches_Nil: "policy_ok p \<Longrightarrow> exact_matches p cmd = [] \<longleftrightarrow> applicable p cmd = {}"
  using exact_matches_applicable [of p cmd] by auto

lemma exact_matches_not_heuristic:
  "m \<in> set (exact_matches p cmd) \<Longrightarrow> (case m of HeuristicsRuleMatch _ _ \<Rightarrow> False | _ \<Rightarrow> True)"
  by (auto simp: exact_matches_eq set_map_filter rule_matches_def split: if_splits)

lemma max_decision_Max: "ds \<noteq> [] \<Longrightarrow> max_decision ds = Some (Max (set ds))"
proof (induction ds)
  case (Cons d ds)
  then show ?case by (cases "ds = []") auto
qed simp

lemma Max_Union_image:
  fixes f :: "'b \<Rightarrow> 'c::linorder set"
  assumes "finite A" "A \<noteq> {}" "\<forall>a \<in> A. finite (f a) \<and> f a \<noteq> {}"
  shows "Max (\<Union>a \<in> A. f a) = Max ((\<lambda>a. Max (f a)) ` A)"
proof (rule Max_eqI)
  show "finite (\<Union>a \<in> A. f a)" using assms by blast
  fix y assume "y \<in> (\<Union>a \<in> A. f a)"
  then obtain a where "a \<in> A" "y \<in> f a" by blast
  with assms have "y \<le> Max (f a)" "Max (f a) \<le> Max ((\<lambda>a. Max (f a)) ` A)" by auto
  then show "y \<le> Max ((\<lambda>a. Max (f a)) ` A)" by order
next
  have "Max ((\<lambda>a. Max (f a)) ` A) \<in> (\<lambda>a. Max (f a)) ` A" using assms by (intro Max_in) auto
  then obtain a where "a \<in> A" "Max ((\<lambda>a. Max (f a)) ` A) = Max (f a)" by blast
  moreover from this assms have "Max (f a) \<in> f a" by (intro Max_in) auto
  ultimately show "Max ((\<lambda>a. Max (f a)) ` A) \<in> (\<Union>a \<in> A. f a)" by (metis UN_I)
qed

lemma max_decision_None [simp]: "max_decision ds = None \<longleftrightarrow> ds = []"
  by (cases ds) (auto split: option.split)

lemma evaluation_from_matches_eq:
  "ms \<noteq> [] \<Longrightarrow> evaluation_from_matches ms =
     Some \<lparr>ev_decision = Max (match_decision ` set ms), ev_matched_rules = ms\<rparr>"
  by (simp add: evaluation_from_matches_def max_decision_Max)

lemma non_empty_None [simp]: "non_empty x = None \<longleftrightarrow> x = None \<or> x = Some []"
  by (auto simp: non_empty_def split: option.splits list.splits)

lemma matches_for_command_eq:
  "matches_for_command hp p cmd (Some f) =
     (if exact_matches p cmd = [] then [HeuristicsRuleMatch cmd (f cmd)] else exact_matches p cmd)"
proof (cases "match_exact_rules p cmd")
  case None
  then show ?thesis
    by (simp add: matches_for_command_def matches_for_command_with_options_def non_empty_def
        default_match_options_def exact_matches_def)
next
  case (Some ms)
  then show ?thesis
    by (cases ms) (simp_all add: matches_for_command_def matches_for_command_with_options_def
        non_empty_def default_match_options_def exact_matches_def)
qed

lemma matches_with_fallback_not_Nil:
  "matches_for_command_with_options hp p cmd (Some f) options \<noteq> []"
  by (simp add: matches_for_command_with_options_def Let_def)

lemma policy_check_eq:
  assumes "policy_ok p"
  shows "\<exists>ev. policy_check hp p cmd fallback = Some ev
    \<and> ev_decision ev = (if applicable p cmd = {} then fallback cmd
                        else Max (rule_decision ` applicable p cmd))
    \<and> (is_match ev \<longleftrightarrow> applicable p cmd \<noteq> {})"
proof (cases "exact_matches p cmd = []")
  case True
  then have "policy_check hp p cmd fallback =
      Some \<lparr>ev_decision = fallback cmd, ev_matched_rules = [HeuristicsRuleMatch cmd (fallback cmd)]\<rparr>"
    using matches_for_command_eq [of hp p cmd fallback]
    by (simp add: policy_check_def check_with_options_def matches_for_command_def
        evaluation_from_matches_eq)
  then show ?thesis using True assms by (simp add: exact_matches_Nil is_match_def)
next
  case False
  then have "policy_check hp p cmd fallback =
      Some \<lparr>ev_decision = Max (match_decision ` set (exact_matches p cmd)),
            ev_matched_rules = exact_matches p cmd\<rparr>"
    using matches_for_command_eq [of hp p cmd fallback]
    by (simp add: policy_check_def check_with_options_def matches_for_command_def
        evaluation_from_matches_eq)
  moreover have "list_ex (\<lambda>m. case m of HeuristicsRuleMatch _ _ \<Rightarrow> False | _ \<Rightarrow> True) (exact_matches p cmd)"
    using False exact_matches_not_heuristic [of "hd (exact_matches p cmd)" p cmd]
    by (auto simp: list_ex_iff intro: bexI [of _ "hd (exact_matches p cmd)"])
  ultimately show ?thesis
    using False assms by (simp add: exact_matches_Nil exact_matches_applicable is_match_def)
qed

lemma policy_check_decision:
  "policy_ok p \<Longrightarrow> ev_decision (the (policy_check hp p cmd fallback)) =
     (if applicable p cmd = {} then fallback cmd else Max (rule_decision ` applicable p cmd))"
  by (drule policy_check_eq [of p hp cmd fallback]) (elim exE, simp)

section \<open>Properties\<close>

text \<open>C7: evaluating a command never panics, and its decision is the strictest among all
  rules of the policy whose pattern matches the command's first tokens, wherever they are filed;
  the heuristics decide exactly when no rule matches.\<close>

theorem policy_check_spec:
  assumes "policy_ok p"
  shows "\<exists>ev. policy_check hp p cmd fallback = Some ev
    \<and> ev_decision ev = (if applicable p cmd = {} then fallback cmd
                        else Max (rule_decision ` applicable p cmd))
    \<and> (is_match ev \<longleftrightarrow> applicable p cmd \<noteq> {})"
  using assms by (rule policy_check_eq)

text \<open>Checking several commands panics exactly when there are none, and otherwise
  decides as strictly as the strictest of the single evaluations.\<close>

theorem check_multiple_spec:
  "check_multiple_with_options hp p cmds fallback options =
    (if cmds = [] then None else Some
       \<lparr>ev_decision = Max ((\<lambda>cmd. ev_decision (the (check_with_options hp p cmd fallback options))) ` set cmds),
        ev_matched_rules = concat (map (\<lambda>cmd.
          ev_matched_rules (the (check_with_options hp p cmd fallback options))) cmds)\<rparr>)"
proof (cases "cmds = []")
  case True
  then show ?thesis by (simp add: check_multiple_with_options_def evaluation_from_matches_def)
next
  case False
  let ?m = "\<lambda>cmd. matches_for_command_with_options hp p cmd (Some fallback) options"
  have one: "check_with_options hp p cmd fallback options =
      Some \<lparr>ev_decision = Max (match_decision ` set (?m cmd)), ev_matched_rules = ?m cmd\<rparr>" for cmd
    by (simp add: check_with_options_def evaluation_from_matches_eq matches_with_fallback_not_Nil)
  have ne: "concat (map ?m cmds) \<noteq> []"
    using False by (cases cmds) (simp_all add: matches_with_fallback_not_Nil)
  have "Max (match_decision ` set (concat (map ?m cmds))) =
      Max (\<Union>cmd \<in> set cmds. match_decision ` set (?m cmd))"
    by (simp add: image_UN)
  also have "\<dots> = Max ((\<lambda>cmd. Max (match_decision ` set (?m cmd))) ` set cmds)"
    using False by (intro Max_Union_image) (auto simp: matches_with_fallback_not_Nil)
  finally show ?thesis
    using ne False
    by (simp add: check_multiple_with_options_def evaluation_from_matches_eq one)
qed

lemma all_rules_values:
  "mm_ok (rules_by_program p) \<Longrightarrow>
     r \<in> set (all_rules p) \<longleftrightarrow> (\<exists>k. r \<in> set (mm_values (rules_by_program p) k))"
  by (force simp: all_rules_def mm_ok_def mm_values_def mm_get_vec_def split: option.splits
      dest: map_of_SomeD)

lemma policy_ok_mm: "policy_ok p \<Longrightarrow> mm_ok (rules_by_program p)"
  by (simp add: policy_ok_def prefix_rule.filed_def)

lemma merge_overlay_rules:
  "rules_by_program (merge_overlay p q) = mm_insert_all (rules_by_program p) (rules_by_program q)"
  by (simp add: merge_overlay_def policy_from_parts_def)

lemma policy_ok_merge: "policy_ok p \<Longrightarrow> policy_ok q \<Longrightarrow> policy_ok (merge_overlay p q)"
  by (simp add: policy_ok_def merge_overlay_rules prefix_rule.filed_insert_all)

lemma applicable_merge:
  assumes "policy_ok p" "policy_ok q"
  shows "applicable (merge_overlay p q) cmd = applicable p cmd \<union> applicable q cmd"
proof -
  note ok = policy_ok_mm [OF assms(1)] policy_ok_mm [OF assms(2)] policy_ok_mm [OF policy_ok_merge [OF assms]]
  have "set (all_rules (merge_overlay p q)) = set (all_rules p) \<union> set (all_rules q)"
    using all_rules_values [OF ok(1)] all_rules_values [OF ok(2)] all_rules_values [OF ok(3)]
    by (auto simp: merge_overlay_rules mm_values_insert_all [OF ok(2)])
  then show ?thesis by (auto simp: applicable_def)
qed

lemma finite_applicable [simp]: "finite (applicable p cmd)"
  by (simp add: applicable_def)


lemma is_prefix_match_literal:
  "is_prefix_match (map Single prefix) cmd \<longleftrightarrow> take (length prefix) cmd = prefix"
proof -
  have "list_all2 token_matches (map Single prefix) ts \<longleftrightarrow> ts = prefix" for ts
    by (auto simp: list_all2_conv_all_nth list_eq_iff_nth_eq)
  moreover have len: "length prefix \<le> length cmd" if "take (length prefix) cmd = prefix"
    using arg_cong [OF that, of length] by simp
  ultimately show ?thesis by (auto simp: is_prefix_match_def)
qed

text \<open>A prefix rule added to a policy governs exactly the commands that start with its
  tokens: such a command gets at least its decision, and every other command is evaluated as
  before.\<close>

theorem add_prefix_rule_spec:
  assumes "policy_ok p" "add_prefix_rule prefix decision p = Inr p'"
  shows "policy_ok p'
    \<and> (take (length prefix) cmd = prefix \<longrightarrow> decision \<le> ev_decision (the (policy_check hp p' cmd fallback)))
    \<and> (take (length prefix) cmd \<noteq> prefix \<longrightarrow>
         ev_decision (the (policy_check hp p' cmd fallback)) = ev_decision (the (policy_check hp p cmd fallback)))"
proof -
  from assms(2) obtain t ts where prefix: "prefix = t # ts" by (auto simp: add_prefix_rule_def split: list.splits)
  let ?r = "\<lparr>rule_pattern = \<lparr>pat_first = t, pat_rest = map Single ts\<rparr>, rule_decision = decision,
    rule_justification = None\<rparr>"
  from assms(2) prefix have p': "rules_by_program p' = mm_insert t ?r (rules_by_program p)"
    by (auto simp: add_prefix_rule_def)
  have prog: "rule_program ?r = t" by (simp add: rule_program_def)
  have ok: "policy_ok p'"
    using prefix_rule.filed_insert [of "rules_by_program p" ?r] assms(1)
    by (simp add: policy_ok_def p' prog)
  have rules: "set (all_rules p') = insert ?r (set (all_rules p))"
    using all_rules_values [OF policy_ok_mm [OF assms(1)]] all_rules_values [OF policy_ok_mm [OF ok]]
    by (auto simp: p' mm_values_insert_ex)
  have tokens: "pattern_tokens \<lparr>pat_first = t, pat_rest = map Single ts\<rparr> = map Single prefix"
    by (simp add: pattern_tokens_def prefix)
  show ?thesis
  proof (intro conjI impI ok)
    assume m: "take (length prefix) cmd = prefix"
    then have "?r \<in> applicable p' cmd"
      using rules by (simp add: applicable_def tokens is_prefix_match_literal del: map_eq_Cons_conv)
    moreover from this have "rule_decision ?r \<le> Max (rule_decision ` applicable p' cmd)"
      by (intro Max_ge) (simp_all only: finite_imageI finite_applicable imageI)
    moreover have "applicable p' cmd \<noteq> {}" using calculation(1) by blast
    then have "ev_decision (the (policy_check hp p' cmd fallback)) = Max (rule_decision ` applicable p' cmd)"
      by (simp add: policy_check_decision ok)
    ultimately show "decision \<le> ev_decision (the (policy_check hp p' cmd fallback))" by simp
  next
    assume m: "take (length prefix) cmd \<noteq> prefix"
    then have "applicable p' cmd = applicable p cmd"
      using rules by (auto simp: applicable_def tokens is_prefix_match_literal)
    then show "ev_decision (the (policy_check hp p' cmd fallback)) = ev_decision (the (policy_check hp p cmd fallback))"
      by (simp add: policy_check_decision ok assms(1))
  qed
qed

text \<open>The decision of the last allowing or forbidding rule for a host.\<close>

definition last_verdict :: "NetworkRule list \<Rightarrow> rstr \<Rightarrow> Decision option" where
  "last_verdict rules host =
     list_last (map nr_decision (filter (\<lambda>r. nr_host r = host \<and> nr_decision r \<noteq> Prompt) rules))"

text \<open>The compiled domain lists hold each host at most once, share no host, and hold
  exactly the hosts whose last allowing or forbidding rule allows or forbids them.\<close>

theorem compiled_network_domains_spec:
  fixes p :: "'a Policy"
  defines "allowed \<equiv> fst (compiled_network_domains p)"
  defines "denied \<equiv> snd (compiled_network_domains p)"
  shows "distinct allowed \<and> distinct denied \<and> set allowed \<inter> set denied = {}
    \<and> (host \<in> set allowed \<longleftrightarrow> last_verdict (network_rules p) host = Some Allow)
    \<and> (host \<in> set denied \<longleftrightarrow> last_verdict (network_rules p) host = Some Forbidden)"
proof -
  have "case fold compile_network_rule rules ([], []) of (al, de) \<Rightarrow>
      distinct al \<and> distinct de \<and> (\<forall>h. (h \<in> set al \<longleftrightarrow> last_verdict rules h = Some Allow)
        \<and> (h \<in> set de \<longleftrightarrow> last_verdict rules h = Some Forbidden))" for rules
  proof (induction rules rule: rev_induct)
    case Nil
    then show ?case by (simp add: last_verdict_def)
  next
    case (snoc r rules)
    have "last_verdict (rules @ [r]) h = (if nr_host r = h \<and> nr_decision r \<noteq> Prompt
        then Some (nr_decision r) else last_verdict rules h)" for h
      by (simp add: last_verdict_def)
    with snoc show ?case
      by (cases "nr_decision r")
         (auto simp: compile_network_rule_def upsert_domain_def split: prod.splits)
  qed
  from this [of "network_rules p"] show ?thesis
    by (auto simp: allowed_def denied_def compiled_network_domains_def split: prod.splits)
qed

lemma sort_eq_iff_mset: "sort xs = sort ys \<longleftrightarrow> mset xs = mset ys"
proof
  assume "sort xs = sort ys"
  then have "mset (sort xs) = mset (sort ys)" by simp
  then show "mset xs = mset ys" by simp
next
  assume "mset xs = mset ys"
  then show "sort xs = sort ys" by (intro properties_for_sort) simp_all
qed

text \<open>Two requirements policies have the same fingerprint exactly when they hold the same
  rendered rules with the same multiplicities, in whatever order their maps iterate.\<close>

lemma fingerprint_order_independent:
  "fingerprint render p = fingerprint render q \<longleftrightarrow>
     mset (concat (map (\<lambda>(program, rules). map (\<lambda>r. program @ lit '':'' @ render r) rules) (rules_by_program p)))
   = mset (concat (map (\<lambda>(program, rules). map (\<lambda>r. program @ lit '':'' @ render r) rules) (rules_by_program q)))"
  unfolding fingerprint_def by (rule sort_eq_iff_mset)

section \<open>Examples\<close>

definition sample_rule :: "rstr list \<Rightarrow> Decision \<Rightarrow> PrefixRule" where
  "sample_rule prefix d = \<lparr>rule_pattern = \<lparr>pat_first = hd prefix, pat_rest = map Single (tl prefix)\<rparr>,
     rule_decision = d, rule_justification = None\<rparr>"

definition sample_policy :: "rstr Policy" where
  "sample_policy = new_policy
     [(lit ''git'', [sample_rule [lit ''git''] Allow, sample_rule [lit ''git'', lit ''push''] Prompt])]"

definition sample_overlay :: "rstr Policy" where
  "sample_overlay = new_policy
     [(lit ''git'', [sample_rule [lit ''git'', lit ''push'', lit ''-f''] Forbidden])]"

definition sample_paths :: "rstr host_paths" where
  "sample_paths = \<lparr>on_windows = False, absolute_path = (\<lambda>_. None), path_file_name = Some\<rparr>"

lemma sample_policy_ok: "policy_ok sample_policy" "policy_ok sample_overlay"
  by (simp_all add: policy_ok_def prefix_rule.filed_def mm_ok_def sample_policy_def sample_overlay_def
      new_policy_def policy_from_parts_def sample_rule_def rule_program_def)

theorem policy_check_spec_witness:
  "\<exists>ev. policy_check sample_paths sample_policy [lit ''git'', lit ''push''] (\<lambda>_. Forbidden) = Some ev
     \<and> is_match ev \<and> ev_decision ev = Prompt"
proof -
  let ?cmd = "[lit ''git'', lit ''push'']"
  have "map match_decision (exact_matches sample_policy ?cmd) = [Allow, Prompt]" by code_simp
  then have "rule_decision ` applicable sample_policy ?cmd = set [Allow, Prompt]"
    unfolding exact_matches_applicable [OF sample_policy_ok(1), symmetric] by (metis list.set_map)
  then have a: "applicable sample_policy ?cmd \<noteq> {}" "Max (rule_decision ` applicable sample_policy ?cmd) = Prompt"
    by (auto simp: max_def less_eq_Decision_def)
  from policy_check_spec [OF sample_policy_ok(1), of sample_paths ?cmd "\<lambda>_. Forbidden"] a
  show ?thesis by auto
qed


theorem add_prefix_rule_spec_witness:
  "\<exists>p'. add_prefix_rule [lit ''git'', lit ''log''] Forbidden sample_policy = Inr p'
     \<and> Forbidden \<le> ev_decision (the (policy_check sample_paths p' [lit ''git'', lit ''log'', lit ''-p''] (\<lambda>_. Allow)))"
proof -
  obtain p' where p': "add_prefix_rule [lit ''git'', lit ''log''] Forbidden sample_policy = Inr p'"
    by (simp add: add_prefix_rule_def)
  with add_prefix_rule_spec [OF sample_policy_ok(1) p', of "[lit ''git'', lit ''log'', lit ''-p'']"]
  show ?thesis by auto
qed

end
