(* ===== verification/Exec_Parser.thy ===== *)
theory Exec_Parser
  imports Exec_Policy
begin

text \<open>
  \<open>execpolicy/src/parser.rs\<close> with the example checks of \<open>rule.rs\<close>: the builtins a policy
  file calls, the builder they fill, and the validation of the examples. Evaluating the
  Starlark text is the external interpreter's work: a policy file is the list of builtin calls
  it makes, with its values seen through \<open>unpack_str\<close>, \<open>ListRef\<close> and \<open>get_type\<close>.
  \<open>shlex::split\<close> and the path functions are arguments.
\<close>

section \<open>Values and external functions\<close>

datatype star_value = StarStr rstr | StarList "star_value list" | StarOther rstr

fun unpack_str :: "star_value \<Rightarrow> rstr option" where
  "unpack_str (StarStr s) = Some s"
| "unpack_str _ = None"

fun get_type :: "star_value \<Rightarrow> rstr" where
  "get_type (StarStr _) = lit ''string''"
| "get_type (StarList _) = lit ''list''"
| "get_type (StarOther t) = t"

record 'a parse_env =
  env_paths :: "'a host_paths"
  shlex_split :: "rstr \<Rightarrow> rstr list option"
  is_absolute :: "rstr \<Rightarrow> bool"
  absolute_path_error :: "rstr \<Rightarrow> rstr"
  component_count :: "rstr \<Rightarrow> nat"
  file_name_str :: "rstr \<Rightarrow> rstr option"

section \<open>Parsing arguments\<close>

definition string_token :: "(rstr \<Rightarrow> policy_error) \<Rightarrow> string \<Rightarrow> star_value \<Rightarrow> policy_error + rstr" where
  "string_token err what v =
     (case unpack_str v of
        Some s \<Rightarrow> Inr s
      | None \<Rightarrow> Inl (err (lit what @ lit '' (got '' @ get_type v @ lit '')'')))"

fun parse_pattern_token :: "star_value \<Rightarrow> policy_error + PatternToken" where
  "parse_pattern_token (StarStr s) = Inr (Single s)"
| "parse_pattern_token (StarList vs) =
     bind_result (collect_results (string_token InvalidPattern ''pattern alternative must be a string'') vs)
       (\<lambda>tokens. case tokens of
          [] \<Rightarrow> Inl (InvalidPattern (lit ''pattern alternatives cannot be empty''))
        | [single] \<Rightarrow> Inr (Single single)
        | _ \<Rightarrow> Inr (Alts tokens))"
| "parse_pattern_token v =
     Inl (InvalidPattern (lit ''pattern element must be a string or list of strings (got ''
            @ get_type v @ lit '')''))"

definition parse_pattern :: "star_value list \<Rightarrow> policy_error + PatternToken list" where
  "parse_pattern items =
     bind_result (collect_results parse_pattern_token items) (\<lambda>tokens.
       if tokens = [] then Inl (InvalidPattern (lit ''pattern cannot be empty'')) else Inr tokens)"

definition parse_string_example :: "'a parse_env \<Rightarrow> rstr \<Rightarrow> policy_error + rstr list" where
  "parse_string_example env raw =
     (case shlex_split env raw of
        None \<Rightarrow> Inl (InvalidExample (lit ''example string has invalid shell syntax''))
      | Some tokens \<Rightarrow>
          (if tokens = [] then Inl (InvalidExample (lit ''example cannot be an empty string''))
           else Inr tokens))"

definition parse_list_example :: "star_value list \<Rightarrow> policy_error + rstr list" where
  "parse_list_example vs =
     bind_result (collect_results (string_token InvalidExample ''example tokens must be strings'') vs)
       (\<lambda>tokens. if tokens = [] then Inl (InvalidExample (lit ''example cannot be an empty list''))
                 else Inr tokens)"

fun parse_example :: "'a parse_env \<Rightarrow> star_value \<Rightarrow> policy_error + rstr list" where
  "parse_example env (StarStr raw) = parse_string_example env raw"
| "parse_example env (StarList vs) = parse_list_example vs"
| "parse_example env v =
     Inl (InvalidExample (lit ''example must be a string or list of strings (got ''
            @ get_type v @ lit '')''))"

definition parse_examples :: "'a parse_env \<Rightarrow> star_value list \<Rightarrow> policy_error + rstr list list" where
  "parse_examples env items = collect_results (parse_example env) items"

text \<open>An optional list of examples: \<open>map(parse_examples).transpose()?.unwrap_or_default()\<close>.\<close>

definition parse_examples_arg ::
  "'a parse_env \<Rightarrow> star_value list option \<Rightarrow> policy_error + rstr list list" where
  "parse_examples_arg env x = (case x of None \<Rightarrow> Inr [] | Some items \<Rightarrow> parse_examples env items)"

definition parse_literal_absolute_path :: "'a parse_env \<Rightarrow> rstr \<Rightarrow> policy_error + 'a" where
  "parse_literal_absolute_path env raw =
     (if \<not> is_absolute env raw
      then Inl (InvalidRule (lit ''host_executable paths must be absolute (got '' @ raw @ lit '')''))
      else case absolute_path (env_paths env) raw of
        Some p \<Rightarrow> Inr p
      | None \<Rightarrow> Inl (InvalidRule (lit ''invalid absolute path `'' @ raw @ lit ''`: ''
                  @ absolute_path_error env raw)))"

definition validate_host_executable_name :: "'a parse_env \<Rightarrow> rstr \<Rightarrow> policy_error + unit" where
  "validate_host_executable_name env name =
     (if name = [] then Inl (InvalidRule (lit ''host_executable name cannot be empty''))
      else if component_count env name \<noteq> 1 \<or> file_name_str env name \<noteq> Some name
      then Inl (InvalidRule (lit ''host_executable name must be a bare executable name (got ''
                 @ name @ lit '')''))
      else Inr ())"

definition parse_network_rule_decision :: "rstr \<Rightarrow> policy_error + Decision" where
  "parse_network_rule_decision raw = (if raw = lit ''deny'' then Inr Forbidden else parse_decision raw)"

definition parse_justification :: "rstr option \<Rightarrow> policy_error + rstr option" where
  "parse_justification j =
     (if blank_justification j then Inl (InvalidRule (lit ''justification cannot be empty'')) else Inr j)"

section \<open>The builder\<close>

record PendingExampleValidation =
  pv_rules :: "PrefixRule list"
  pv_matches :: "rstr list list"
  pv_not_matches :: "rstr list list"
  pv_location :: "ErrorLocation option"

record 'a PolicyBuilder =
  b_rules_by_program :: "(rstr, PrefixRule) multimap"
  b_network_rules :: "NetworkRule list"
  b_host_executables_by_name :: "rstr \<Rightarrow> 'a list option"
  pending_example_validations :: "PendingExampleValidation list"

definition new_builder :: "'a PolicyBuilder" where
  "new_builder = \<lparr>b_rules_by_program = [], b_network_rules = [],
     b_host_executables_by_name = (\<lambda>_. None), pending_example_validations = []\<rparr>"

definition add_rule :: "PrefixRule \<Rightarrow> 'a PolicyBuilder \<Rightarrow> 'a PolicyBuilder" where
  "add_rule r b = b\<lparr>b_rules_by_program := mm_insert (rule_program r) r (b_rules_by_program b)\<rparr>"

definition builder_add_network_rule :: "NetworkRule \<Rightarrow> 'a PolicyBuilder \<Rightarrow> 'a PolicyBuilder" where
  "builder_add_network_rule r b = b\<lparr>b_network_rules := b_network_rules b @ [r]\<rparr>"

definition add_host_executable :: "rstr \<Rightarrow> 'a list \<Rightarrow> 'a PolicyBuilder \<Rightarrow> 'a PolicyBuilder" where
  "add_host_executable name paths b =
     b\<lparr>b_host_executables_by_name := (b_host_executables_by_name b)(name \<mapsto> paths)\<rparr>"

definition add_pending_example_validation ::
  "PendingExampleValidation \<Rightarrow> 'a PolicyBuilder \<Rightarrow> 'a PolicyBuilder" where
  "add_pending_example_validation v b =
     b\<lparr>pending_example_validations := pending_example_validations b @ [v]\<rparr>"

definition build_policy :: "'a PolicyBuilder \<Rightarrow> 'a Policy" where
  "build_policy b =
     policy_from_parts (b_rules_by_program b) (b_network_rules b) (b_host_executables_by_name b)"

section \<open>Validating examples\<close>

definition example_options :: MatchOptions where
  "example_options = \<lparr>resolve_host_executables = True\<rparr>"

definition validate_match_examples ::
  "'a host_paths \<Rightarrow> 'a Policy \<Rightarrow> PrefixRule list \<Rightarrow> rstr list list \<Rightarrow> policy_error + unit" where
  "validate_match_examples hp p rules examples =
     (let unmatched = filter (\<lambda>e. matches_for_command_with_options hp p e None example_options = []) examples
      in if unmatched = [] then Inr () else Inl (ExampleDidNotMatch rules unmatched None))"

text \<open>The error names the first match; \<open>render\<close> stands for its derived \<open>Debug\<close>.\<close>

fun validate_not_match_examples ::
  "'a host_paths \<Rightarrow> 'a Policy \<Rightarrow> ('a RuleMatch \<Rightarrow> rstr) \<Rightarrow> rstr list list \<Rightarrow> policy_error + unit" where
  "validate_not_match_examples hp p render [] = Inr ()"
| "validate_not_match_examples hp p render (e # es) =
     (case matches_for_command_with_options hp p e None example_options of
        m # _ \<Rightarrow> Inl (ExampleDidMatch (render m) e None)
      | [] \<Rightarrow> validate_not_match_examples hp p render es)"

definition attach_validation_location :: "ErrorLocation option \<Rightarrow> policy_error \<Rightarrow> policy_error" where
  "attach_validation_location l e = (case l of Some loc \<Rightarrow> with_location loc e | None \<Rightarrow> e)"

definition map_error :: "('e \<Rightarrow> 'f) \<Rightarrow> 'e + 'x \<Rightarrow> 'f + 'x" where
  "map_error f r = (case r of Inl e \<Rightarrow> Inl (f e) | Inr x \<Rightarrow> Inr x)"

definition validation_policy :: "(rstr \<Rightarrow> 'a list option) \<Rightarrow> PendingExampleValidation \<Rightarrow> 'a Policy" where
  "validation_policy hosts v =
     policy_from_parts (fold (\<lambda>r m. mm_insert (rule_program r) r m) (pv_rules v) []) [] hosts"

definition validate_one ::
  "'a host_paths \<Rightarrow> ('a RuleMatch \<Rightarrow> rstr) \<Rightarrow> (rstr \<Rightarrow> 'a list option)
   \<Rightarrow> PendingExampleValidation \<Rightarrow> policy_error + unit" where
  "validate_one hp render hosts v =
     (let p = validation_policy hosts v; at = map_error (attach_validation_location (pv_location v))
      in bind_result (at (validate_not_match_examples hp p render (pv_not_matches v))) (\<lambda>_.
           at (validate_match_examples hp p (pv_rules v) (pv_matches v))))"

fun validate_all ::
  "'a host_paths \<Rightarrow> ('a RuleMatch \<Rightarrow> rstr) \<Rightarrow> (rstr \<Rightarrow> 'a list option)
   \<Rightarrow> PendingExampleValidation list \<Rightarrow> policy_error + unit" where
  "validate_all hp render hosts [] = Inr ()"
| "validate_all hp render hosts (v # vs) =
     bind_result (validate_one hp render hosts v) (\<lambda>_. validate_all hp render hosts vs)"

definition validate_pending_examples_from ::
  "'a host_paths \<Rightarrow> ('a RuleMatch \<Rightarrow> rstr) \<Rightarrow> nat \<Rightarrow> 'a PolicyBuilder \<Rightarrow> policy_error + unit" where
  "validate_pending_examples_from hp render start b =
     validate_all hp render (b_host_executables_by_name b) (drop start (pending_example_validations b))"

section \<open>Builtins\<close>

type_synonym 'a builtin_result = "(policy_error + unit) \<times> 'a PolicyBuilder"

definition rules_for_pattern ::
  "PatternToken list \<Rightarrow> Decision \<Rightarrow> rstr option \<Rightarrow> PrefixRule list" where
  "rules_for_pattern tokens decision justification =
     map (\<lambda>head. \<lparr>rule_pattern = \<lparr>pat_first = head, pat_rest = tl tokens\<rparr>,
                  rule_decision = decision, rule_justification = justification\<rparr>)
       (token_alternatives (hd tokens))"

definition parse_decision_arg :: "rstr option \<Rightarrow> policy_error + Decision" where
  "parse_decision_arg d = (case d of Some raw \<Rightarrow> parse_decision raw | None \<Rightarrow> Inr Allow)"

definition prefix_rule_builtin ::
  "'a parse_env \<Rightarrow> star_value list \<Rightarrow> rstr option \<Rightarrow> star_value list option \<Rightarrow> star_value list option
   \<Rightarrow> rstr option \<Rightarrow> ErrorLocation option \<Rightarrow> 'a PolicyBuilder \<Rightarrow> 'a builtin_result" where
  "prefix_rule_builtin env pattern decision match_arg not_match_arg justification location b =
     (case bind_result (parse_decision_arg decision) (\<lambda>d.
            bind_result (parse_justification justification) (\<lambda>j.
            bind_result (parse_pattern pattern) (\<lambda>tokens.
            bind_result (parse_examples_arg env match_arg) (\<lambda>ms.
            bind_result (parse_examples_arg env not_match_arg) (\<lambda>nms.
              Inr (rules_for_pattern tokens d j, ms, nms)))))) of
        Inl e \<Rightarrow> (Inl e, b)
      | Inr (rules, ms, nms) \<Rightarrow>
          (Inr (), fold add_rule rules (add_pending_example_validation
             \<lparr>pv_rules = rules, pv_matches = ms, pv_not_matches = nms, pv_location = location\<rparr> b)))"

definition network_rule_builtin ::
  "rstr \<Rightarrow> rstr \<Rightarrow> rstr \<Rightarrow> rstr option \<Rightarrow> 'a PolicyBuilder \<Rightarrow> 'a builtin_result" where
  "network_rule_builtin host protocol decision justification b =
     (case bind_result (parse_protocol protocol) (\<lambda>p.
            bind_result (parse_network_rule_decision decision) (\<lambda>d.
            bind_result (parse_justification justification) (\<lambda>j.
            bind_result (normalize_network_rule_host host) (\<lambda>h.
              Inr \<lparr>nr_host = h, nr_protocol = p, nr_decision = d, nr_justification = j\<rparr>)))) of
        Inl e \<Rightarrow> (Inl e, b)
      | Inr rule \<Rightarrow> (Inr (), builder_add_network_rule rule b))"

definition basename_error :: "rstr \<Rightarrow> rstr \<Rightarrow> policy_error" where
  "basename_error raw name =
     InvalidRule (lit ''host_executable path `'' @ raw @ lit ''` must have basename `'' @ name @ lit ''`'')"

fun parse_host_paths ::
  "'a parse_env \<Rightarrow> rstr \<Rightarrow> star_value list \<Rightarrow> 'a list \<Rightarrow> policy_error + 'a list" where
  "parse_host_paths env name [] parsed = Inr parsed"
| "parse_host_paths env name (v # vs) parsed =
     (case unpack_str v of
        None \<Rightarrow> Inl (InvalidRule (lit ''host_executable paths must be strings (got '' @ get_type v @ lit '')''))
      | Some raw \<Rightarrow>
          bind_result (parse_literal_absolute_path env raw) (\<lambda>path.
            case executable_path_lookup_key (env_paths env) path of
              None \<Rightarrow> Inl (basename_error raw name)
            | Some path_name \<Rightarrow>
                (if path_name \<noteq> executable_lookup_key (on_windows (env_paths env)) name
                 then Inl (basename_error raw name)
                 else parse_host_paths env name vs
                        (if path \<in> set parsed then parsed else parsed @ [path]))))"

definition host_executable_builtin ::
  "'a parse_env \<Rightarrow> rstr \<Rightarrow> star_value list \<Rightarrow> 'a PolicyBuilder \<Rightarrow> 'a builtin_result" where
  "host_executable_builtin env name paths b =
     (case bind_result (validate_host_executable_name env name)
             (\<lambda>_. parse_host_paths env name paths []) of
        Inl e \<Rightarrow> (Inl e, b)
      | Inr parsed \<Rightarrow>
          (Inr (), add_host_executable (executable_lookup_key (on_windows (env_paths env)) name) parsed b))"

section \<open>A policy file\<close>

datatype builtin_call =
    CallPrefixRule "star_value list" "rstr option" "star_value list option" "star_value list option"
      "rstr option" "ErrorLocation option"
  | CallNetworkRule rstr rstr rstr "rstr option"
  | CallHostExecutable rstr "star_value list"

fun run_builtin :: "'a parse_env \<Rightarrow> builtin_call \<Rightarrow> 'a PolicyBuilder \<Rightarrow> 'a builtin_result" where
  "run_builtin env (CallPrefixRule pattern d m nm j loc) b = prefix_rule_builtin env pattern d m nm j loc b"
| "run_builtin env (CallNetworkRule host protocol d j) b = network_rule_builtin host protocol d j b"
| "run_builtin env (CallHostExecutable name paths) b = host_executable_builtin env name paths b"

fun eval_module :: "'a parse_env \<Rightarrow> builtin_call list \<Rightarrow> 'a PolicyBuilder \<Rightarrow> 'a builtin_result" where
  "eval_module env [] b = (Inr (), b)"
| "eval_module env (c # cs) b =
     (case run_builtin env c b of (Inl e, b') \<Rightarrow> (Inl e, b') | (Inr _, b') \<Rightarrow> eval_module env cs b')"

definition parse_policy ::
  "'a parse_env \<Rightarrow> ('a RuleMatch \<Rightarrow> rstr) \<Rightarrow> builtin_call list \<Rightarrow> 'a PolicyBuilder \<Rightarrow> 'a builtin_result" where
  "parse_policy env render calls b =
     (let pending_validation_count = length (pending_example_validations b);
          (r, b') = eval_module env calls b
      in case r of
           Inl e \<Rightarrow> (Inl e, b')
         | Inr _ \<Rightarrow>
             (validate_pending_examples_from (env_paths env) render pending_validation_count b', b'))"

section \<open>What every builder satisfies\<close>

inductive builder_reachable ::
  "'a parse_env \<Rightarrow> ('a RuleMatch \<Rightarrow> rstr) \<Rightarrow> 'a PolicyBuilder \<Rightarrow> bool"
  for env :: "'a parse_env" and render :: "'a RuleMatch \<Rightarrow> rstr" where
  fresh: "builder_reachable env render new_builder"
| parse: "builder_reachable env render b \<Longrightarrow> builder_reachable env render (snd (parse_policy env render calls b))"

definition filed_rule :: "'a PolicyBuilder \<Rightarrow> PrefixRule \<Rightarrow> bool" where
  "filed_rule b r \<longleftrightarrow> r \<in> set (mm_values (b_rules_by_program b) (rule_program r))"

definition hosts_ok :: "'a parse_env \<Rightarrow> (rstr \<Rightarrow> 'a list option) \<Rightarrow> bool" where
  "hosts_ok env hosts \<longleftrightarrow> (\<forall>name paths. hosts name = Some paths \<longrightarrow> distinct paths
     \<and> (\<forall>p \<in> set paths. executable_path_lookup_key (env_paths env) p = Some name))"

definition builder_inv :: "'a parse_env \<Rightarrow> 'a PolicyBuilder \<Rightarrow> bool" where
  "builder_inv env b \<longleftrightarrow> prefix_rule.filed (b_rules_by_program b)
     \<and> (\<forall>v \<in> set (pending_example_validations b). \<forall>r \<in> set (pv_rules v). filed_rule b r)
     \<and> hosts_ok env (b_host_executables_by_name b)"

lemma filed_rule_add: "filed_rule b r \<Longrightarrow> filed_rule (add_rule q b) r" "filed_rule (add_rule r b) r"
  by (auto simp: filed_rule_def add_rule_def mm_values_insert)

lemma add_rules_frame:
  "pending_example_validations (fold add_rule rs b) = pending_example_validations b"
  "b_host_executables_by_name (fold add_rule rs b) = b_host_executables_by_name b"
  by (induction rs arbitrary: b) (simp_all add: add_rule_def)

lemma filed_rule_add_rules: "filed_rule b r \<or> r \<in> set rs \<Longrightarrow> filed_rule (fold add_rule rs b) r"
  by (induction rs arbitrary: b) (auto intro: filed_rule_add)

lemma filed_add_rules:
  "prefix_rule.filed (b_rules_by_program b) \<Longrightarrow> prefix_rule.filed (b_rules_by_program (fold add_rule rs b))"
proof (induction rs arbitrary: b)
  case (Cons r rs)
  then have "prefix_rule.filed (b_rules_by_program (add_rule r b))"
    by (simp add: add_rule_def prefix_rule.filed_insert)
  with Cons.IH show ?case by simp
qed simp

lemma filed_rule_pending [simp]:
  "filed_rule (add_pending_example_validation v b) r = filed_rule b r"
  by (simp add: filed_rule_def add_pending_example_validation_def)

lemma add_pending_frame [simp]:
  "b_rules_by_program (add_pending_example_validation v b) = b_rules_by_program b"
  "b_host_executables_by_name (add_pending_example_validation v b) = b_host_executables_by_name b"
  "pending_example_validations (add_pending_example_validation v b) = pending_example_validations b @ [v]"
  by (simp_all add: add_pending_example_validation_def)

lemma add_rules_with_examples_inv:
  assumes "builder_inv env b"
  shows "builder_inv env (fold add_rule (pv_rules v) (add_pending_example_validation v b))"
  unfolding builder_inv_def
proof (intro conjI ballI)
  let ?b = "add_pending_example_validation v b"
  show "prefix_rule.filed (b_rules_by_program (fold add_rule (pv_rules v) ?b))"
    using assms by (intro filed_add_rules) (simp add: builder_inv_def)
  show "hosts_ok env (b_host_executables_by_name (fold add_rule (pv_rules v) ?b))"
    using assms by (simp add: add_rules_frame builder_inv_def)
  fix w r
  assume "w \<in> set (pending_example_validations (fold add_rule (pv_rules v) ?b))" "r \<in> set (pv_rules w)"
  then show "filed_rule (fold add_rule (pv_rules v) ?b) r"
    using assms by (intro filed_rule_add_rules) (auto simp: add_rules_frame builder_inv_def)
qed

lemma prefix_rule_builtin_cases:
  obtains (error) e where "prefix_rule_builtin env pattern d m nm j loc b = (Inl e, b)"
  | (ok) v ms nms where "prefix_rule_builtin env pattern d m nm j loc b =
        (Inr (), fold add_rule (pv_rules v) (add_pending_example_validation v b))"
      "parse_examples_arg env m = Inr ms" "pv_matches v = ms"
      "parse_examples_arg env nm = Inr nms" "pv_not_matches v = nms"
proof (cases "prefix_rule_builtin env pattern d m nm j loc b")
  case (Pair r b')
  show thesis
  proof (cases r)
    case (Inl e)
    with Pair show thesis by (auto simp: prefix_rule_builtin_def split: sum.splits intro: error)
  next
    case (Inr u)
    with Pair obtain rules ms nms where "parse_examples_arg env m = Inr ms"
      "parse_examples_arg env nm = Inr nms"
      "b' = fold add_rule rules (add_pending_example_validation
        \<lparr>pv_rules = rules, pv_matches = ms, pv_not_matches = nms, pv_location = loc\<rparr> b)"
      by (auto simp: prefix_rule_builtin_def bind_result_Inr split: sum.splits)
    with Pair Inr show thesis
      by (intro ok [of "\<lparr>pv_rules = rules, pv_matches = ms, pv_not_matches = nms, pv_location = loc\<rparr>"])
         simp_all
  qed
qed

lemma prefix_rule_builtin_inv:
  assumes "builder_inv env b"
  shows "builder_inv env (snd (prefix_rule_builtin env pattern d m nm j loc b))"
proof (cases rule: prefix_rule_builtin_cases [of env pattern d m nm j loc b])
  case (error e)
  with assms show ?thesis by simp
next
  case (ok v ms nms)
  with add_rules_with_examples_inv [OF assms, of v] show ?thesis by simp
qed

lemma network_rule_builtin_inv:
  "builder_inv env b \<Longrightarrow> builder_inv env (snd (network_rule_builtin host protocol d j b))"
  by (auto simp: network_rule_builtin_def builder_add_network_rule_def builder_inv_def filed_rule_def
      split: sum.splits)

lemma parse_host_paths_ok:
  assumes "parse_host_paths env name vs parsed = Inr paths" "distinct parsed"
    and "\<forall>p \<in> set parsed. executable_path_lookup_key (env_paths env) p =
      Some (executable_lookup_key (on_windows (env_paths env)) name)"
  shows "distinct paths \<and> (\<forall>p \<in> set paths. executable_path_lookup_key (env_paths env) p =
      Some (executable_lookup_key (on_windows (env_paths env)) name))"
  using assms
proof (induction vs arbitrary: parsed)
  case (Cons v vs)
  from Cons.prems(1) obtain raw path where key: "executable_path_lookup_key (env_paths env) path =
      Some (executable_lookup_key (on_windows (env_paths env)) name)"
    and rest: "parse_host_paths env name vs (if path \<in> set parsed then parsed else parsed @ [path]) = Inr paths"
    by (auto simp: bind_result_Inr split: option.splits if_splits)
  show ?case
    by (rule Cons.IH [OF rest]) (use Cons.prems(2,3) key in auto)
qed simp

lemma host_executable_builtin_inv:
  assumes "builder_inv env b"
  shows "builder_inv env (snd (host_executable_builtin env name paths b))"
proof (cases "bind_result (validate_host_executable_name env name) (\<lambda>_. parse_host_paths env name paths [])")
  case (Inl e)
  with assms show ?thesis by (simp add: host_executable_builtin_def)
next
  case (Inr parsed)
  then have "parse_host_paths env name paths [] = Inr parsed" by (auto simp: bind_result_Inr)
  from parse_host_paths_ok [OF this] assms Inr show ?thesis
    by (auto simp: host_executable_builtin_def builder_inv_def add_host_executable_def hosts_ok_def
        filed_rule_def)
qed

lemma run_builtin_inv: "builder_inv env b \<Longrightarrow> builder_inv env (snd (run_builtin env c b))"
  by (cases c) (simp_all add: prefix_rule_builtin_inv network_rule_builtin_inv host_executable_builtin_inv)

lemma eval_module_inv: "builder_inv env b \<Longrightarrow> builder_inv env (snd (eval_module env cs b))"
proof (induction cs arbitrary: b)
  case (Cons c cs)
  from run_builtin_inv [OF Cons.prems, of c] Cons.IH show ?case
    by (auto split: prod.splits sum.splits)
qed simp

lemma parse_policy_snd: "snd (parse_policy env render calls b) = snd (eval_module env calls b)"
  by (simp add: parse_policy_def Let_def split_beta split: sum.split)

lemma builder_reachable_inv: "builder_reachable env render b \<Longrightarrow> builder_inv env b"
proof (induction rule: builder_reachable.induct)
  case fresh
  show ?case by (simp add: builder_inv_def new_builder_def prefix_rule.filed_Nil hosts_ok_def)
qed (simp add: parse_policy_snd eval_module_inv)

text \<open>C10: whatever policy files were parsed, successfully or not, the policy built from them
  files every rule under its own program, and lists for each executable name distinct absolute
  paths whose file name is that name: the assumptions under which evaluation is exact.\<close>

theorem built_policy_ok:
  assumes "builder_reachable env render b"
  shows "policy_ok (build_policy b)
    \<and> (\<forall>name paths. host_executables_by_name (build_policy b) name = Some paths \<longrightarrow>
         distinct paths \<and> (\<forall>p \<in> set paths. executable_path_lookup_key (env_paths env) p = Some name))"
  using builder_reachable_inv [OF assms]
  by (simp add: builder_inv_def policy_ok_def build_policy_def policy_from_parts_def hosts_ok_def)

section \<open>Examples hold in the built policy\<close>

text \<open>Whether a command is matched at all, exactly or by the name of its executable.\<close>

definition matched :: "'a host_paths \<Rightarrow> 'a Policy \<Rightarrow> rstr list \<Rightarrow> bool" where
  "matched hp p cmd \<longleftrightarrow> matches_for_command_with_options hp p cmd None example_options \<noteq> []"

lemma map_filter_not_Nil: "List.map_filter f xs \<noteq> [] \<longleftrightarrow> (\<exists>x \<in> set xs. f x \<noteq> None)"
  by (induction xs) (auto simp: map_filter_simps split: option.split)

lemma matched_iff:
  "matched hp p cmd \<longleftrightarrow> exact_matches p cmd \<noteq> [] \<or> match_host_executable_rules hp p cmd \<noteq> []"
  by (auto simp: matched_def matches_for_command_with_options_def example_options_def exact_matches_def
      non_empty_def Let_def split: option.splits list.splits)

lemma exact_matches_not_Nil:
  "exact_matches p cmd \<noteq> [] \<longleftrightarrow> cmd \<noteq> [] \<and>
     (\<exists>r \<in> set (mm_values (rules_by_program p) (hd cmd)). rule_matches r cmd \<noteq> (None :: 'a RuleMatch option))"
  for p :: "'a Policy"
  by (simp add: exact_matches_eq map_filter_not_Nil)

lemma host_matches_not_Nil:
  fixes p :: "'a Policy"
  shows "match_host_executable_rules hp p cmd \<noteq> [] \<longleftrightarrow>
    (\<exists>first args program basename. cmd = first # args \<and> absolute_path hp first = Some program
       \<and> executable_path_lookup_key hp program = Some basename
       \<and> \<not> opt_is_some_and (\<lambda>paths. program \<notin> set paths) (host_executables_by_name p basename)
       \<and> (\<exists>r \<in> set (mm_values (rules_by_program p) basename).
            rule_matches r (basename # args) \<noteq> (None :: 'a RuleMatch option)))"
  by (cases cmd) (auto simp: match_host_executable_rules_def mm_values_def map_filter_not_Nil
      split: option.splits)

text \<open>More rules, with the same host executables, match no fewer commands.\<close>

lemma matched_mono:
  fixes p :: "'a Policy"
  assumes "matched hp p cmd"
    and "\<And>k. set (mm_values (rules_by_program p) k) \<subseteq> set (mm_values (rules_by_program q) k)"
    and "host_executables_by_name q = host_executables_by_name p"
  shows "matched hp q cmd"
proof (cases "exact_matches p cmd = []")
  case False
  then have "exact_matches q cmd \<noteq> []"
    using assms(2) [of "hd cmd"] unfolding exact_matches_not_Nil by auto
  then show ?thesis by (simp add: matched_iff)
next
  case True
  with assms(1) have "match_host_executable_rules hp p cmd \<noteq> []" by (simp add: matched_iff)
  then obtain first args program basename r where f: "cmd = first # args" "absolute_path hp first = Some program"
    "executable_path_lookup_key hp program = Some basename"
    "\<not> opt_is_some_and (\<lambda>paths. program \<notin> set paths) (host_executables_by_name p basename)"
    and r: "r \<in> set (mm_values (rules_by_program p) basename)"
      "rule_matches r (basename # args) \<noteq> (None :: 'a RuleMatch option)"
    unfolding host_matches_not_Nil by blast
  from r(1) assms(2) have "r \<in> set (mm_values (rules_by_program q) basename)" by blast
  with f r(2) assms(3) have "match_host_executable_rules hp q cmd \<noteq> []"
    unfolding host_matches_not_Nil by auto
  then show ?thesis by (simp add: matched_iff)
qed

lemma validate_match_examples_Inr:
  "validate_match_examples hp p rules es = Inr () \<longleftrightarrow> (\<forall>e \<in> set es. matched hp p e)"
  by (auto simp: validate_match_examples_def matched_def filter_empty_conv Let_def)

lemma validate_not_match_examples_Inr:
  "validate_not_match_examples hp p render es = Inr () \<longleftrightarrow> (\<forall>e \<in> set es. \<not> matched hp p e)"
  by (induction hp p render es rule: validate_not_match_examples.induct)
     (auto simp: matched_def split: list.splits)

lemma map_error_Inr [simp]: "map_error f r = Inr x \<longleftrightarrow> r = Inr x"
  by (cases r) (simp_all add: map_error_def)

lemma validate_all_Inr:
  "validate_all hp render hosts vs = Inr () \<longleftrightarrow>
     (\<forall>v \<in> set vs. (\<forall>e \<in> set (pv_not_matches v). \<not> matched hp (validation_policy hosts v) e)
       \<and> (\<forall>e \<in> set (pv_matches v). matched hp (validation_policy hosts v) e))"
  by (induction vs) (auto simp: validate_one_def bind_result_Inr Let_def
      validate_match_examples_Inr validate_not_match_examples_Inr)

lemma mm_values_rules:
  "r \<in> set (mm_values (fold (\<lambda>r m. mm_insert (rule_program r) r m) rs m) k) \<longleftrightarrow>
     r \<in> set (mm_values m k) \<or> (r \<in> set rs \<and> rule_program r = k)"
  by (induction rs arbitrary: m) (auto simp: mm_values_insert split: if_splits)

lemma validation_policy_mono:
  assumes "builder_inv env b" "v \<in> set (pending_example_validations b)"
    and "matched hp (validation_policy (b_host_executables_by_name b) v) e"
  shows "matched hp (build_policy b) e"
  using assms(3)
proof (rule matched_mono)
  show "set (mm_values (rules_by_program (validation_policy (b_host_executables_by_name b) v)) k)
      \<subseteq> set (mm_values (rules_by_program (build_policy b)) k)" for k
    using assms(1,2)
    by (auto simp: validation_policy_def policy_from_parts_def build_policy_def mm_values_rules
        builder_inv_def filed_rule_def mm_values_def [of "[]"] mm_get_vec_def [of "[]"])
qed (simp add: validation_policy_def policy_from_parts_def build_policy_def)

lemma run_builtin_pending:
  assumes "run_builtin env c b = (Inr (), b')"
  shows "\<exists>vs. pending_example_validations b' = pending_example_validations b @ vs
    \<and> (\<forall>pattern d m nm j loc. c = CallPrefixRule pattern d m nm j loc \<longrightarrow>
         (\<exists>v \<in> set vs. parse_examples_arg env m = Inr (pv_matches v)
            \<and> parse_examples_arg env nm = Inr (pv_not_matches v)))"
proof (cases c)
  case (CallPrefixRule pattern d m nm j loc)
  with assms show ?thesis
    by (cases rule: prefix_rule_builtin_cases [of env pattern d m nm j loc b])
       (auto simp: add_rules_frame)
next
  case (CallNetworkRule host protocol d j)
  with assms show ?thesis
    by (auto simp: network_rule_builtin_def builder_add_network_rule_def split: sum.splits)
next
  case (CallHostExecutable name paths)
  with assms show ?thesis
    by (auto simp: host_executable_builtin_def add_host_executable_def split: sum.splits)
qed

lemma eval_module_pending:
  assumes "eval_module env cs b = (Inr (), b')"
  shows "\<exists>vs. pending_example_validations b' = pending_example_validations b @ vs
    \<and> (\<forall>pattern d m nm j loc. CallPrefixRule pattern d m nm j loc \<in> set cs \<longrightarrow>
         (\<exists>v \<in> set vs. parse_examples_arg env m = Inr (pv_matches v)
            \<and> parse_examples_arg env nm = Inr (pv_not_matches v)))"
  using assms
proof (induction cs arbitrary: b)
  case Nil
  then show ?case by simp
next
  case (Cons c cs)
  then obtain b1 where c: "run_builtin env c b = (Inr (), b1)" and rest: "eval_module env cs b1 = (Inr (), b')"
    by (auto split: prod.splits sum.splits)
  obtain vs where vs: "pending_example_validations b1 = pending_example_validations b @ vs"
    "\<forall>pattern d m nm j loc. c = CallPrefixRule pattern d m nm j loc \<longrightarrow>
       (\<exists>v \<in> set vs. parse_examples_arg env m = Inr (pv_matches v)
          \<and> parse_examples_arg env nm = Inr (pv_not_matches v))"
    using run_builtin_pending [OF c] by blast
  obtain ws where ws: "pending_example_validations b' = pending_example_validations b1 @ ws"
    "\<forall>pattern d m nm j loc. CallPrefixRule pattern d m nm j loc \<in> set cs \<longrightarrow>
       (\<exists>v \<in> set ws. parse_examples_arg env m = Inr (pv_matches v)
          \<and> parse_examples_arg env nm = Inr (pv_not_matches v))"
    using Cons.IH [OF rest] by blast
  show ?case
    using vs ws by (intro exI [of _ "vs @ ws"]) fastforce
qed

text \<open>C9: the examples of a policy file are theorems about the policy. When parsing succeeds,
  every \<open>match\<close> example of every \<open>prefix_rule\<close> call of the file is matched by the built policy,
  however many other rules it holds.\<close>

theorem parsed_examples_match:
  assumes "builder_reachable env render b" "parse_policy env render calls b = (Inr (), b')"
    and "CallPrefixRule pattern d m nm j loc \<in> set calls"
  shows "\<exists>examples. parse_examples_arg env m = Inr examples
    \<and> (\<forall>e \<in> set examples. matched (env_paths env) (build_policy b') e)"
proof -
  from assms(2) have eval: "eval_module env calls b = (Inr (), b')"
    and valid: "validate_pending_examples_from (env_paths env) render
      (length (pending_example_validations b)) b' = Inr ()"
    by (auto simp: parse_policy_def Let_def split: prod.splits sum.splits)
  from eval_module_pending [OF eval] assms(3) obtain vs v
    where p: "pending_example_validations b' = pending_example_validations b @ vs"
      and v: "v \<in> set vs" "parse_examples_arg env m = Inr (pv_matches v)" by blast
  have inv: "builder_inv env b'"
    using eval_module_inv [OF builder_reachable_inv [OF assms(1)], of calls] eval by simp
  have "\<forall>e \<in> set (pv_matches v). matched (env_paths env) (validation_policy (b_host_executables_by_name b') v) e"
    using valid v(1) by (simp add: validate_pending_examples_from_def p validate_all_Inr)
  then have "\<forall>e \<in> set (pv_matches v). matched (env_paths env) (build_policy b') e"
    using validation_policy_mono [OF inv] v(1) p by auto
  with v(2) show ?thesis by blast
qed

section \<open>Examples\<close>

definition sample_env :: "rstr parse_env" where
  "sample_env = \<lparr>env_paths = sample_paths, shlex_split = (\<lambda>s. Some (split_char 32 s)),
     is_absolute = starts_with (lit ''/''), absolute_path_error = (\<lambda>_. []), component_count = (\<lambda>_. 1),
     file_name_str = Some\<rparr>"

definition sample_calls :: "builtin_call list" where
  "sample_calls =
     [CallPrefixRule [StarStr (lit ''git''), StarList [StarStr (lit ''log''), StarStr (lit ''show'')]]
        (Some (lit ''allow'')) (Some [StarStr (lit ''git show HEAD'')]) (Some [StarList [StarStr (lit ''git'')]])
        None None,
      CallNetworkRule (lit ''Example.COM'') (lit ''https'') (lit ''deny'') None]"

theorem parsed_examples_match_witness:
  "\<exists>b'. parse_policy sample_env (\<lambda>_. []) sample_calls new_builder = (Inr (), b')
     \<and> matched sample_paths (build_policy b') [lit ''git'', lit ''show'', lit ''HEAD'']"
proof -
  have "fst (parse_policy sample_env (\<lambda>_. []) sample_calls new_builder) = Inr ()" by code_simp
  then obtain b' where b': "parse_policy sample_env (\<lambda>_. []) sample_calls new_builder = (Inr (), b')"
    by (cases "parse_policy sample_env (\<lambda>_. []) sample_calls new_builder") simp
  have ex: "parse_examples_arg sample_env (Some [StarStr (lit ''git show HEAD'')])
      = Inr [[lit ''git'', lit ''show'', lit ''HEAD'']]"
    by code_simp
  from parsed_examples_match [OF builder_reachable.fresh b', of _ _ "Some [StarStr (lit ''git show HEAD'')]"]
  have "matched (env_paths sample_env) (build_policy b') [lit ''git'', lit ''show'', lit ''HEAD'']"
    unfolding sample_calls_def ex by (metis Inr_inject list.set_intros(1))
  with b' show ?thesis by (simp add: sample_env_def)
qed

theorem built_policy_ok_witness:
  "policy_ok (build_policy (snd (parse_policy sample_env (\<lambda>_. []) sample_calls new_builder)))"
  using built_policy_ok [OF builder_reachable.parse [OF builder_reachable.fresh]] by blast

end
