(* ===== verification/Exec_Amend.thy ===== *)
theory Exec_Amend
  imports Exec_Parser
begin

text \<open>
  \<open>execpolicy/src/amend.rs\<close> and \<open>sandbox_migration.rs\<close>: appending rules to a policy file and
  removing banned ones. The operating system is an argument: a failing call is its error
  text, and a write tells what it really appended. \<open>serde_json\<close> is an argument as well.
\<close>

section \<open>Appending a line\<close>

datatype AmendError =
    EmptyPrefix
  | InvalidNetworkRule rstr
  | MissingParent rstr
  | CreatePolicyDir rstr rstr
  | SerializePrefix rstr
  | SerializeNetworkRule rstr
  | OpenPolicyFile rstr rstr
  | WritePolicyFile rstr rstr
  | LockPolicyFile rstr rstr
  | SeekPolicyFile rstr rstr
  | ReadPolicyFile rstr rstr

record amend_os =
  os_parent :: "rstr \<Rightarrow> rstr option"
  os_create_dir :: "rstr \<Rightarrow> (bool \<times> rstr) option"
  os_open :: "rstr \<Rightarrow> rstr option"
  os_lock :: "rstr \<Rightarrow> rstr option"
  os_seek :: "rstr \<Rightarrow> rstr option"
  os_read :: "rstr \<Rightarrow> rstr option"
  os_write :: "rstr \<Rightarrow> rstr \<Rightarrow> rstr option \<times> rstr"
  json_string :: "rstr \<Rightarrow> rstr + rstr"

type_synonym amend_result = "(AmendError + unit) \<times> rstr"

definition write_all :: "amend_os \<Rightarrow> rstr \<Rightarrow> rstr \<Rightarrow> rstr \<Rightarrow> (rstr \<Rightarrow> amend_result) \<Rightarrow> amend_result" where
  "write_all os path what contents k =
     (case os_write os path what of
        (Some e, written) \<Rightarrow> (Inl (WritePolicyFile path e), contents @ written)
      | (None, written) \<Rightarrow> k (contents @ written))"

definition append_locked_line :: "amend_os \<Rightarrow> rstr \<Rightarrow> rstr \<Rightarrow> rstr \<Rightarrow> amend_result" where
  "append_locked_line os policy_path line contents =
     (case os_open os policy_path of Some e \<Rightarrow> (Inl (OpenPolicyFile policy_path e), contents)
      | None \<Rightarrow>
     (case os_lock os policy_path of Some e \<Rightarrow> (Inl (LockPolicyFile policy_path e), contents)
      | None \<Rightarrow>
     (case os_seek os policy_path of Some e \<Rightarrow> (Inl (SeekPolicyFile policy_path e), contents)
      | None \<Rightarrow>
     (case os_read os policy_path of Some e \<Rightarrow> (Inl (ReadPolicyFile policy_path e), contents)
      | None \<Rightarrow>
     (if line \<in> set (str_lines contents) then (Inr (), contents)
      else let write_line = (\<lambda>c. write_all os policy_path (line @ [nl]) c (\<lambda>c'. (Inr (), c')))
           in if contents \<noteq> [] \<and> \<not> ends_with [nl] contents
              then write_all os policy_path [nl] contents write_line
              else write_line contents)))))"

definition append_rule_line :: "amend_os \<Rightarrow> rstr \<Rightarrow> rstr \<Rightarrow> rstr \<Rightarrow> amend_result" where
  "append_rule_line os policy_path rule contents =
     (case os_parent os policy_path of
        None \<Rightarrow> (Inl (MissingParent policy_path), contents)
      | Some dir \<Rightarrow>
          (case os_create_dir os dir of
             Some (False, e) \<Rightarrow> (Inl (CreatePolicyDir dir e), contents)
           | _ \<Rightarrow> append_locked_line os policy_path rule contents))"

definition allow_prefix_rule_line :: "rstr list \<Rightarrow> rstr" where
  "allow_prefix_rule_line tokens =
     lit ''prefix_rule(pattern='' @ (lit ''['' @ join (lit '', '') tokens @ lit '']'')
       @ lit '', decision='' @ [34] @ lit ''allow'' @ [34] @ lit '')''"

definition blocking_append_allow_prefix_rule ::
  "amend_os \<Rightarrow> rstr \<Rightarrow> rstr list \<Rightarrow> rstr \<Rightarrow> amend_result" where
  "blocking_append_allow_prefix_rule os policy_path prefix contents =
     (if prefix = [] then (Inl EmptyPrefix, contents)
      else case collect_results (json_string os) prefix of
        Inl e \<Rightarrow> (Inl (SerializePrefix e), contents)
      | Inr tokens \<Rightarrow> append_rule_line os policy_path (allow_prefix_rule_line tokens) contents)"

fun amend_decision_string :: "Decision \<Rightarrow> rstr" where
  "amend_decision_string Allow = lit ''allow''"
| "amend_decision_string Prompt = lit ''prompt''"
| "amend_decision_string Forbidden = lit ''deny''"

text \<open>The display of the only error \<open>normalize_network_rule_host\<close> can return.\<close>

fun invalid_rule_display :: "policy_error \<Rightarrow> rstr" where
  "invalid_rule_display (InvalidRule m) = lit ''invalid rule: '' @ m"
| "invalid_rule_display _ = []"

definition json_field :: "amend_os \<Rightarrow> string \<Rightarrow> rstr \<Rightarrow> AmendError + rstr" where
  "json_field os name value =
     (case json_string os value of
        Inl e \<Rightarrow> Inl (SerializeNetworkRule e)
      | Inr text \<Rightarrow> Inr (lit name @ lit ''='' @ text))"

definition network_rule_line ::
  "amend_os \<Rightarrow> rstr \<Rightarrow> NetworkRuleProtocol \<Rightarrow> Decision \<Rightarrow> rstr option \<Rightarrow> AmendError + rstr" where
  "network_rule_line os host protocol decision justification =
     bind_result (json_field os ''host'' host) (\<lambda>h.
     bind_result (json_field os ''protocol'' (as_policy_string protocol)) (\<lambda>p.
     bind_result (json_field os ''decision'' (amend_decision_string decision)) (\<lambda>d.
     bind_result (case justification of
                    None \<Rightarrow> Inr []
                  | Some j \<Rightarrow> bind_result (json_field os ''justification'' j) (\<lambda>j. Inr [j])) (\<lambda>js.
       Inr (lit ''network_rule('' @ join (lit '', '') ([h, p, d] @ js) @ lit '')'')))))"

definition blocking_append_network_rule ::
  "amend_os \<Rightarrow> rstr \<Rightarrow> rstr \<Rightarrow> NetworkRuleProtocol \<Rightarrow> Decision \<Rightarrow> rstr option \<Rightarrow> rstr \<Rightarrow> amend_result" where
  "blocking_append_network_rule os policy_path host protocol decision justification contents =
     (case normalize_network_rule_host host of
        Inl e \<Rightarrow> (Inl (InvalidNetworkRule (invalid_rule_display e)), contents)
      | Inr host \<Rightarrow>
          (if blank_justification justification
           then (Inl (InvalidNetworkRule (lit ''justification cannot be empty'')), contents)
           else case network_rule_line os host protocol decision justification of
             Inl e \<Rightarrow> (Inl e, contents)
           | Inr rule \<Rightarrow> append_rule_line os policy_path rule contents))"

section \<open>The migration\<close>

definition strip_optional_suffix :: "rstr \<Rightarrow> rstr \<Rightarrow> rstr" where
  "strip_optional_suffix p s = (case strip_suffix p s of None \<Rightarrow> s | Some r \<Rightarrow> r)"

definition lowercase_tokens :: "rstr list \<Rightarrow> rstr list" where
  "lowercase_tokens prefix = map to_ascii_lowercase prefix"

definition should_remove_rule :: "(rstr \<Rightarrow> rstr list option) \<Rightarrow> rstr list set \<Rightarrow> rstr \<Rightarrow> bool" where
  "should_remove_rule json_parse banned line =
     (let line = strip_optional_suffix [nl] line;
          line = strip_optional_suffix [cr] line
      in case Option.bind (strip_prefix (lit ''prefix_rule(pattern='') line)
                (strip_suffix (lit '', decision='' @ [34] @ lit ''allow'' @ [34] @ lit '')'')) of
           None \<Rightarrow> False
         | Some pattern \<Rightarrow>
             (case json_parse pattern of
                None \<Rightarrow> False
              | Some prefix \<Rightarrow> lowercase_tokens prefix \<in> banned))"

definition strip_banned_allow_rules :: "(rstr \<Rightarrow> rstr list option) \<Rightarrow> rstr list list \<Rightarrow> rstr \<Rightarrow> rstr" where
  "strip_banned_allow_rules json_parse banned_prefixes contents =
     concat (filter (\<lambda>line. \<not> should_remove_rule json_parse (set (map lowercase_tokens banned_prefixes)) line)
       (split_inclusive nl contents))"

text \<open>The text \<open>clean_rules_file\<close> writes, if any: the file is read once without and once with
  write access, and may be missing (None) at either time.\<close>

definition clean_rules_file ::
  "(rstr \<Rightarrow> rstr list option) \<Rightarrow> rstr list list \<Rightarrow> rstr option \<Rightarrow> rstr option \<Rightarrow> rstr option" where
  "clean_rules_file json_parse banned_prefixes first_read second_read =
     (case first_read of
        None \<Rightarrow> None
      | Some contents \<Rightarrow>
          (if strip_banned_allow_rules json_parse banned_prefixes contents = contents then None
           else case second_read of
             None \<Rightarrow> None
           | Some contents \<Rightarrow>
               (let retained = strip_banned_allow_rules json_parse banned_prefixes contents
                in if retained = contents then None else Some retained)))"

section \<open>Appending: properties\<close>

text \<open>A system on which every call succeeds and writes what it is given.\<close>

definition os_works :: "amend_os \<Rightarrow> rstr \<Rightarrow> bool" where
  "os_works os path \<longleftrightarrow> os_open os path = None \<and> os_lock os path = None \<and> os_seek os path = None
     \<and> os_read os path = None \<and> (\<forall>t. os_write os path t = (None, t))"

definition plain_line :: "rstr \<Rightarrow> bool" where
  "plain_line l \<longleftrightarrow> nl \<notin> set l \<and> (l = [] \<or> last l \<noteq> cr)"

lemma str_lines_append_nl:
  "c = [] \<or> last c = nl \<Longrightarrow> str_lines (c @ d) = str_lines c @ str_lines d"
proof (cases c rule: rev_cases)
  case (snoc b x)
  assume "c = [] \<or> last c = nl"
  with snoc have "c @ d = b @ nl # d" "c = b @ [nl]" by auto
  then show ?thesis
    using split_inclusive_append_sep [of nl b d] by (simp add: str_lines_def)
qed (simp add: str_lines_def)

lemma split_inclusive_add_nl:
  "c \<noteq> [] \<Longrightarrow> last c \<noteq> d \<Longrightarrow> split_inclusive d (c @ [d]) =
     butlast (split_inclusive d c) @ [last (split_inclusive d c) @ [d]]"
proof (induction c)
  case (Cons x c)
  show ?case
  proof (cases "c = []")
    case True
    with Cons.prems show ?thesis by simp
  next
    case False
    have ne: "split_inclusive d c \<noteq> []" using False by (cases c) (auto split: list.splits)
    from False Cons have ih: "split_inclusive d (c @ [d]) =
        butlast (split_inclusive d c) @ [last (split_inclusive d c) @ [d]]" by simp
    show ?thesis
    proof (cases "x = d")
      case True
      with ih ne show ?thesis by simp
    next
      case x: False
      obtain p ps where p: "split_inclusive d c = p # ps" using ne by (cases "split_inclusive d c") auto
      with ih x show ?thesis by (cases ps rule: rev_cases) auto
    qed
  qed
qed simp

lemma last_split_inclusive: "c \<noteq> [] \<Longrightarrow> split_inclusive d c \<noteq> [] \<and> last (last (split_inclusive d c)) = last c
    \<and> last (split_inclusive d c) \<noteq> []"
proof (induction c)
  case (Cons x c)
  then show ?case by (cases "c = []") (auto split: list.splits if_splits)
qed simp

lemma str_lines_add_nl:
  assumes "c \<noteq> []" "last c \<noteq> nl" "last c \<noteq> cr"
  shows "str_lines (c @ [nl]) = str_lines c"
proof -
  let ?l = "last (split_inclusive nl c)"
  have l: "split_inclusive nl c \<noteq> []" "last ?l = last c" "?l \<noteq> []" using last_split_inclusive [OF assms(1)] by auto
  have "strip_line_end (?l @ [nl]) = ?l" using l assms(3) by (intro strip_line_end_line) simp
  moreover have "strip_line_end ?l = ?l"
    using l assms(2) by (cases ?l rule: rev_cases) (auto simp: strip_line_end_def strip_suffix_def)
  moreover have "split_inclusive nl c = butlast (split_inclusive nl c) @ [?l]" using l by simp
  ultimately show ?thesis
    unfolding str_lines_def split_inclusive_add_nl [OF assms(1,2)]
    by (metis (no_types, lifting) list.map(1) list.map(2) map_append)
qed

lemma append_locked_line_works:
  assumes "os_works os path"
  shows "append_locked_line os path line c =
    (Inr (), if line \<in> set (str_lines c) then c
             else if c \<noteq> [] \<and> last c \<noteq> nl then c @ [nl] @ line @ [nl] else c @ line @ [nl])"
  using assms
  by (cases c rule: rev_cases)
     (auto simp: append_locked_line_def os_works_def write_all_def ends_with_def strip_suffix_def Let_def)

lemma str_lines_after_append:
  assumes "plain_line line" "c = [] \<or> last c \<noteq> cr"
  shows "str_lines (if c \<noteq> [] \<and> last c \<noteq> nl then c @ [nl] @ line @ [nl] else c @ line @ [nl])
    = str_lines c @ [line]"
proof -
  have l: "str_lines (line @ [nl]) = [line]"
    using assms(1) str_lines_Cons [of line "[]"] by (simp add: plain_line_def str_lines_def)
  show ?thesis
  proof (cases "c \<noteq> [] \<and> last c \<noteq> nl")
    case True
    with assms(2) have "str_lines ((c @ [nl]) @ line @ [nl]) = str_lines c @ [line]"
      by (subst str_lines_append_nl) (auto simp: str_lines_add_nl l)
    with True show ?thesis by simp
  next
    case False
    then show ?thesis by (auto simp: str_lines_append_nl l)
  qed
qed

text \<open>Appending a rule keeps every line of the policy file, adds the rule as one more line
  unless it is already there, and is idempotent: appending it again changes nothing.\<close>

theorem append_locked_line_spec:
  assumes "os_works os path" "plain_line line" "contents = [] \<or> last contents \<noteq> cr"
  shows "\<exists>c'. append_locked_line os path line contents = (Inr (), c')
    \<and> str_lines c' = (if line \<in> set (str_lines contents) then str_lines contents
                      else str_lines contents @ [line])
    \<and> append_locked_line os path line c' = (Inr (), c')"
proof -
  let ?c = "if line \<in> set (str_lines contents) then contents
    else if contents \<noteq> [] \<and> last contents \<noteq> nl then contents @ [nl] @ line @ [nl] else contents @ line @ [nl]"
  have lines: "str_lines ?c = (if line \<in> set (str_lines contents) then str_lines contents
      else str_lines contents @ [line])"
    using str_lines_after_append [OF assms(2,3)] by simp
  then have "line \<in> set (str_lines ?c)" by simp
  then have "append_locked_line os path line ?c = (Inr (), ?c)"
    unfolding append_locked_line_works [OF assms(1), of line ?c] by simp
  with lines append_locked_line_works [OF assms(1), of line contents] show ?thesis by blast
qed

definition working_os :: amend_os where
  "working_os = \<lparr>os_parent = (\<lambda>_. Some []), os_create_dir = (\<lambda>_. Some (True, [])), os_open = (\<lambda>_. None),
     os_lock = (\<lambda>_. None), os_seek = (\<lambda>_. None), os_read = (\<lambda>_. None), os_write = (\<lambda>_ t. (None, t)),
     json_string = (\<lambda>s. Inr ([34] @ s @ [34]))\<rparr>"

theorem append_locked_line_spec_witness:
  "\<exists>c'. append_locked_line working_os [] (lit ''b'') (lit ''a'') = (Inr (), c')
     \<and> str_lines c' = [lit ''a'', lit ''b'']"
proof -
  have "os_works working_os []" by (simp add: os_works_def working_os_def)
  moreover have "str_lines (lit ''a'') = [lit ''a'']" "lit ''b'' \<notin> set [lit ''a'']" by code_simp+
  ultimately show ?thesis
    using append_locked_line_spec [of working_os "[]" "lit ''b''" "lit ''a''"]
    by (auto simp: plain_line_def lit_def)
qed

section \<open>Migration: properties\<close>

text \<open>Every piece of \<open>split_inclusive\<close> but the last ends with the separator.\<close>

fun inclusive_pieces :: "uchar \<Rightarrow> rstr list \<Rightarrow> bool" where
  "inclusive_pieces d [] = True"
| "inclusive_pieces d [p] = (p \<noteq> [] \<and> d \<notin> set (butlast p))"
| "inclusive_pieces d (p # ps) = (p \<noteq> [] \<and> d \<notin> set (butlast p) \<and> last p = d \<and> inclusive_pieces d ps)"

lemma inclusive_pieces_Cons:
  "inclusive_pieces d (p # ps) \<longleftrightarrow>
     p \<noteq> [] \<and> d \<notin> set (butlast p) \<and> (ps = [] \<or> last p = d) \<and> inclusive_pieces d ps"
  by (cases ps) auto

lemma inclusive_pieces_split: "inclusive_pieces d (split_inclusive d s)"
proof (induction s)
  case (Cons c s)
  then show ?case
    by (cases "split_inclusive d s") (auto simp: inclusive_pieces_Cons)
qed simp

lemma inclusive_pieces_filter: "inclusive_pieces d ps \<Longrightarrow> inclusive_pieces d (filter P ps)"
proof (induction ps)
  case (Cons p ps)
  then have "ps = [] \<or> last p = d" "inclusive_pieces d (filter P ps)"
    by (simp_all add: inclusive_pieces_Cons)
  moreover have "filter P ps = [] \<or> last p = d" using calculation(1) by auto
  ultimately show ?case using Cons.prems by (simp add: inclusive_pieces_Cons)
qed simp

lemma split_inclusive_pieces: "inclusive_pieces d ps \<Longrightarrow> split_inclusive d (concat ps) = ps"
proof (induction ps)
  case (Cons p ps)
  then have ih: "split_inclusive d (concat ps) = ps" by (simp add: inclusive_pieces_Cons)
  show ?case
  proof (cases "last p = d")
    case True
    then obtain q where q: "p = q @ [d]" "d \<notin> set q"
      using Cons.prems by (cases p rule: rev_cases) (auto simp: inclusive_pieces_Cons)
    then show ?thesis
      using ih split_inclusive_append_sep [of d q "concat ps"] by (simp add: split_inclusive_line)
  next
    case False
    with Cons.prems have "ps = []" "p \<noteq> []" "d \<notin> set p"
      by (auto simp: inclusive_pieces_Cons) (metis append_butlast_last_id rotate1.simps(2) set_ConsD set_rotate1)+
    then show ?thesis by (simp add: split_inclusive_no_sep)
  qed
qed simp

text \<open>The migration removes exactly the banned allow rules: the remaining lines are the
  lines it does not ban, unchanged and in order with their line ends, so a second run removes
  nothing more.\<close>

theorem strip_banned_allow_rules_spec:
  fixes json_parse banned contents
  defines "kept \<equiv> strip_banned_allow_rules json_parse banned contents"
  shows "split_inclusive nl kept =
      filter (\<lambda>line. \<not> should_remove_rule json_parse (set (map lowercase_tokens banned)) line)
        (split_inclusive nl contents)
    \<and> strip_banned_allow_rules json_parse banned kept = kept"
proof -
  have s: "split_inclusive nl kept =
      filter (\<lambda>line. \<not> should_remove_rule json_parse (set (map lowercase_tokens banned)) line)
        (split_inclusive nl contents)"
    unfolding kept_def strip_banned_allow_rules_def
    by (intro split_inclusive_pieces inclusive_pieces_filter inclusive_pieces_split)
  have "strip_banned_allow_rules json_parse banned kept = concat (split_inclusive nl kept)"
    unfolding strip_banned_allow_rules_def [of _ _ kept] s by simp
  then have "strip_banned_allow_rules json_parse banned kept = kept"
    unfolding concat_split_inclusive .
  with s show ?thesis by blast
qed

text \<open>the migration undoes what \<open>blocking_append_allow_prefix_rule\<close> saved. If
  \<open>serde_json\<close> reads back the array of strings it wrote, the line saved for a prefix is removed,
  with either line end, exactly when the prefix is banned up to ASCII case.\<close>

theorem saved_prefix_rule_is_removed:
  assumes "collect_results (json_string os) prefix = Inr tokens"
    and "json_parse (lit ''['' @ join (lit '', '') tokens @ lit '']'') = Some prefix"
    and "line_end \<in> {[], [nl], [cr, nl]}"
  shows "should_remove_rule json_parse (set (map lowercase_tokens banned))
      (allow_prefix_rule_line tokens @ line_end)
    \<longleftrightarrow> (\<exists>b \<in> set banned. lowercase_tokens b = lowercase_tokens prefix)"
proof -
  let ?l = "allow_prefix_rule_line tokens"
  have last: "\<exists>r. ?l = r @ [41]" by (simp add: allow_prefix_rule_line_def lit_def)
  then obtain r where r: "?l = r @ [41]" by blast
  have "strip_optional_suffix [cr] (strip_optional_suffix [nl] (?l @ line_end)) = ?l"
    using assms(3) unfolding r by (auto simp: strip_optional_suffix_def strip_suffix_def)
  moreover have "strip_prefix (lit ''prefix_rule(pattern='') ?l =
      Some ((lit ''['' @ join (lit '', '') tokens @ lit '']'')
        @ lit '', decision='' @ [34] @ lit ''allow'' @ [34] @ lit '')'')"
    unfolding allow_prefix_rule_line_def by (rule strip_prefix_append)
  moreover have "strip_suffix (lit '', decision='' @ [34] @ lit ''allow'' @ [34] @ lit '')'')
      ((lit ''['' @ join (lit '', '') tokens @ lit '']'')
        @ lit '', decision='' @ [34] @ lit ''allow'' @ [34] @ lit '')'')
      = Some (lit ''['' @ join (lit '', '') tokens @ lit '']'')"
    by (simp only: strip_suffix_Some)
  ultimately show ?thesis
    using assms(2) by (simp add: should_remove_rule_def Let_def) (metis (no_types, lifting) image_iff)
qed

section \<open>Reloading a saved network rule\<close>

lemma protocol_roundtrip [simp]: "parse_protocol (as_policy_string p) = Inr p"
  by (cases p) (simp_all add: parse_protocol_def lit_def)

lemma decision_roundtrip [simp]: "parse_network_rule_decision (amend_decision_string d) = Inr d"
  by (cases d) (simp_all add: parse_network_rule_decision_def parse_decision_def lit_def)

text \<open>A network rule that was saved is loaded as it was: calling the \<open>network_rule\<close>
  builtin with the strings the amendment writes adds the same protocol, decision and
  justification, provided normalizing the saved host again does not change it.\<close>

theorem saved_network_rule_reloads:
  assumes "normalize_network_rule_host h = Inr h" "\<not> blank_justification j"
  shows "network_rule_builtin h (as_policy_string p) (amend_decision_string d) j b =
    (Inr (), builder_add_network_rule
       \<lparr>nr_host = h, nr_protocol = p, nr_decision = d, nr_justification = j\<rparr> b)"
  using assms by (simp add: network_rule_builtin_def parse_justification_def)

lemma normalized_host_props:
  assumes "normalize_network_rule_host raw = Inr h"
  shows "h \<noteq> []" "to_ascii_lowercase h = h"
    "\<forall>c \<in> set h. \<not> is_whitespace c \<and> c \<noteq> 42 \<and> c \<noteq> 47 \<and> c \<noteq> 63 \<and> c \<noteq> 35"
  using normalized_host_facts [OF assms] by auto

text \<open>Normalization is stable on ordinary hosts: an accepted host with no colon (or with
  the several colons of an IPv6 address), no leading bracket and no trailing dot is accepted
  again unchanged.\<close>

theorem normalized_host_stable:
  assumes "normalize_network_rule_host raw = Inr h"
    and "length (filter (\<lambda>c. c = 58) h) \<noteq> 1" "hd h \<noteq> 91" "last h \<noteq> 46"
  shows "normalize_network_rule_host h = Inr h"
proof -
  note p = normalized_host_props [OF assms(1)]
  have trim: "trim h = h" using p by (intro trim_ident) (auto dest: hd_in_set last_in_set)
  have "strip_prefix [91] h = None" using assms(3) p(1) by (cases h) auto
  then have port: "strip_host_port h h = Inr h" using assms(2) by (simp add: strip_host_port_def)
  have dots: "trim_end_matches (\<lambda>c. c = 46) h = h" using assms(4) by (intro trim_end_matches_ident) simp
  have scheme: "\<not> contains (lit ''://'') h"
  proof
    assume "contains (lit ''://'') h"
    then obtain i where "str_find (lit ''://'') h = Some i" by (auto simp: contains_def)
    then have "set (lit ''://'') \<subseteq> set h"
      using str_find_Some set_take_subset set_drop_subset by (metis order_trans)
    with p(3) show False by (auto simp: lit_def)
  qed
  show ?thesis
    using p trim port dots scheme
    by (auto simp: normalize_network_rule_host_def Let_def list_ex_iff)
qed

text \<open>Normalization is not idempotent in general, so a saved rule can come back for another
  host: \<open>a:80.\<close> is saved as the host \<open>a:80\<close>, and loading that file makes a rule for \<open>a\<close>.\<close>

theorem saved_host_changes_on_reload:
  "normalize_network_rule_host (lit ''a:80.'') = Inr (lit ''a:80'')
   \<and> normalize_network_rule_host (lit ''a:80'') = Inr (lit ''a'')"
  by (rule conjI; code_simp)

theorem normalized_host_stable_witness:
  "normalize_network_rule_host (lit ''api.example.com'') = Inr (lit ''api.example.com'')"
proof (rule normalized_host_stable)
  show "normalize_network_rule_host (lit ''API.example.com.:443'') = Inr (lit ''api.example.com'')"
    by code_simp
qed (simp_all add: lit_def)

theorem saved_network_rule_reloads_witness:
  "network_rule_builtin (lit ''a.b'') (as_policy_string Https) (amend_decision_string Forbidden) None
     (new_builder :: rstr PolicyBuilder) =
    (Inr (), builder_add_network_rule
       \<lparr>nr_host = lit ''a.b'', nr_protocol = Https, nr_decision = Forbidden, nr_justification = None\<rparr> new_builder)"
proof (rule saved_network_rule_reloads)
  show "normalize_network_rule_host (lit ''a.b'') = Inr (lit ''a.b'')" by code_simp
qed (simp add: blank_justification_def)

theorem saved_prefix_rule_is_removed_witness:
  "should_remove_rule (\<lambda>p. if p = lit ''['' @ [34] @ lit ''Rm'' @ [34] @ lit '']'' then Some [lit ''Rm''] else None)
     (set (map lowercase_tokens [[lit ''rm'']]))
     (allow_prefix_rule_line [[34] @ lit ''Rm'' @ [34]] @ [nl])"
proof -
  have "collect_results (json_string working_os) [lit ''Rm''] = Inr [[34] @ lit ''Rm'' @ [34]]"
    by (simp add: working_os_def)
  from saved_prefix_rule_is_removed [OF this,
      of "\<lambda>p. if p = lit ''['' @ [34] @ lit ''Rm'' @ [34] @ lit '']'' then Some [lit ''Rm''] else None" "[nl]" "[[lit ''rm'']]"]
  show ?thesis by (simp add: lowercase_tokens_def lit_def to_ascii_lowercase_def to_ascii_lower_def)
qed

end
