(* ===== verification/Stream_Text.thy ===== *)
theory Stream_Text
  imports Rust_Prelude
begin

text \<open>
  The interface of the streaming text parsers
  (\<open>utils/stream-parser/src/stream_text.rs\<close>): a parser is fed a text in pieces, answers
  each with a chunk of visible text and extracted payloads, and is flushed at the end.

  The locale states what a caller relies on and the trait's documentation leaves unsaid:
  pushing a text in two pieces reaches the state that pushing it whole reaches and gives
  the same answers, joined. \<open>push\<close> is option-valued because a parser's loop has to be shown
  to end; a parser whose code has no such loop answers with \<open>Some\<close>.
\<close>

record 'x StreamTextChunk =
  visible_text :: rstr
  extracted :: "'x list"

definition default_chunk :: "'x StreamTextChunk" where
  "default_chunk = \<lparr>visible_text = [], extracted = []\<rparr>"

definition chunk_is_empty :: "'x StreamTextChunk \<Rightarrow> bool" where
  "chunk_is_empty c \<longleftrightarrow> visible_text c = [] \<and> extracted c = []"

text \<open>How callers put two answers together: \<open>push_str\<close> on the text, \<open>extend\<close> on the payloads.\<close>

definition chunk_append :: "'x StreamTextChunk \<Rightarrow> 'x StreamTextChunk \<Rightarrow> 'x StreamTextChunk" where
  "chunk_append a b =
     \<lparr>visible_text = visible_text a @ visible_text b, extracted = extracted a @ extracted b\<rparr>"

lemma chunk_is_empty_iff: "chunk_is_empty c \<longleftrightarrow> c = default_chunk"
  by (cases c) (simp add: chunk_is_empty_def default_chunk_def)

lemma default_chunk_simps [simp]:
  "visible_text default_chunk = []" "extracted default_chunk = []"
  by (simp_all add: default_chunk_def)

lemma chunk_append_simps [simp]:
  "visible_text (chunk_append a b) = visible_text a @ visible_text b"
  "extracted (chunk_append a b) = extracted a @ extracted b"
  "chunk_append default_chunk a = a"
  "chunk_append a default_chunk = a"
  by (simp_all add: chunk_append_def default_chunk_def)

lemma chunk_append_assoc: "chunk_append (chunk_append a b) c = chunk_append a (chunk_append b c)"
  by (simp add: chunk_append_def)

lemma chunk_append_cancel: "chunk_append a b = a \<longleftrightarrow> b = default_chunk"
  by (cases a; cases b) (simp add: chunk_append_def default_chunk_def)

type_synonym ('s, 'x) push_fn = "'s \<Rightarrow> rstr \<Rightarrow> ('s \<times> 'x StreamTextChunk) option"
type_synonym ('s, 'x) finish_fn = "'s \<Rightarrow> 's \<times> 'x StreamTextChunk"
type_synonym 'x join_fn = "'x StreamTextChunk \<Rightarrow> 'x StreamTextChunk \<Rightarrow> 'x StreamTextChunk"

text \<open>A caller that pushes the pieces one after the other, and one that then flushes.\<close>

fun push_chunks ::
  "('s, 'x) push_fn \<Rightarrow> 'x join_fn \<Rightarrow> 's \<Rightarrow> rstr list \<Rightarrow> ('s \<times> 'x StreamTextChunk) option" where
  "push_chunks push jn s [] = Some (s, default_chunk)"
| "push_chunks push jn s (c # cs) =
     Option.bind (push s c) (\<lambda>(s1, a). map_option (map_prod id (jn a)) (push_chunks push jn s1 cs))"

definition run_chunks ::
  "('s, 'x) push_fn \<Rightarrow> ('s, 'x) finish_fn \<Rightarrow> 'x join_fn \<Rightarrow> 's \<Rightarrow> rstr list
   \<Rightarrow> ('s \<times> 'x StreamTextChunk) option" where
  "run_chunks push fin jn s cs =
     map_option (\<lambda>(s1, a). map_prod id (jn a) (fin s1)) (push_chunks push jn s cs)"

locale stream_text_parser =
  fixes push :: "'s \<Rightarrow> rstr \<Rightarrow> ('s \<times> 'x StreamTextChunk) option"
    and inv :: "'s \<Rightarrow> bool"
    and jn :: "'x StreamTextChunk \<Rightarrow> 'x StreamTextChunk \<Rightarrow> 'x StreamTextChunk"
  assumes push_total: "inv s \<Longrightarrow> \<exists>s' out. push s c = Some (s', out) \<and> inv s'"
    and push_Nil: "inv s \<Longrightarrow> push s [] = Some (s, default_chunk)"
    and push_append: "inv s \<Longrightarrow>
          push s (a @ b) =
            Option.bind (push s a) (\<lambda>(s1, out). map_option (map_prod id (jn out)) (push s1 b))"
begin

lemma push_inv: "inv s \<Longrightarrow> push s c = Some (s', out) \<Longrightarrow> inv s'"
  using push_total [of s c] by auto

lemma push_chunks_concat: "inv s \<Longrightarrow> push_chunks push jn s cs = push s (concat cs)"
proof (induction cs arbitrary: s)
  case Nil
  then show ?case by (simp add: push_Nil)
next
  case (Cons c cs)
  obtain s1 out where one: "push s c = Some (s1, out)" "inv s1"
    using push_total [OF Cons.prems] by blast
  then show ?case using Cons.IH [OF one(2)] push_append [OF Cons.prems, of c "concat cs"] by simp
qed

lemma run_chunks_concat:
  "inv s \<Longrightarrow> run_chunks push fin jn s cs
     = map_option (\<lambda>(s1, a). map_prod id (jn a) (fin s1)) (push s (concat cs))"
  by (simp add: run_chunks_def push_chunks_concat)

lemma run_chunks_cong:
  "inv s \<Longrightarrow> concat cs = concat ds \<Longrightarrow> run_chunks push fin jn s cs = run_chunks push fin jn s ds"
  by (simp add: run_chunks_concat)

end

end
