(* ===== verification/Stream_Utf8.thy ===== *)
theory Stream_Utf8
  imports Stream_Text
begin

text \<open>
  The wrapper that feeds raw bytes to a streaming text parser and buffers a code point that
  a chunk boundary cuts (\<open>utils/stream-parser/src/utf8_stream.rs\<close>). The wrapped parser is a
  parameter, as in the code; what is shown about the wrapper is shown in the context of the
  interface \<open>stream_text_parser\<close> and so holds for each of its interpretations.

  \<open>std::str::from_utf8\<close> is modelled from its documentation: the table of well-formed byte
  sequences, with \<open>valid_up_to\<close> and \<open>error_len\<close> of its error.
\<close>

section \<open>\<open>std::str::from_utf8\<close>\<close>

definition utf8_width :: "int \<Rightarrow> nat" where
  "utf8_width b =
     (if b < 128 then 1 else if b < 194 then 0 else if b < 224 then 2 else if b < 240 then 3
      else if b < 245 then 4 else 0)"

definition second_byte_ok :: "int \<Rightarrow> int \<Rightarrow> bool" where
  "second_byte_ok b0 b1 \<longleftrightarrow>
     (if b0 = 224 then 160 else if b0 = 240 then 144 else 128) \<le> b1
     \<and> b1 \<le> (if b0 = 237 then 159 else if b0 = 244 then 143 else 191)"

definition continuation_byte :: "int \<Rightarrow> bool" where
  "continuation_byte b \<longleftrightarrow> 128 \<le> b \<and> b \<le> 191"

text \<open>
  The first code point and the bytes after it, or the length of the invalid sequence, with
  \<open>None\<close> where the input ends inside a sequence that is valid so far.
\<close>

fun utf8_char :: "int list \<Rightarrow> nat option + (uchar \<times> int list)" where
  "utf8_char [] = Inl None"
| "utf8_char (b0 # r0) =
     (if utf8_width b0 = 0 then Inl (Some 1)
      else if utf8_width b0 = 1 then Inr (b0, r0)
      else case r0 of
        [] \<Rightarrow> Inl None
      | b1 # r1 \<Rightarrow>
          if \<not> second_byte_ok b0 b1 then Inl (Some 1)
          else if utf8_width b0 = 2 then Inr ((b0 - 192) * 64 + (b1 - 128), r1)
          else case r1 of
            [] \<Rightarrow> Inl None
          | b2 # r2 \<Rightarrow>
              if \<not> continuation_byte b2 then Inl (Some 2)
              else if utf8_width b0 = 3 then
                Inr ((b0 - 224) * 4096 + (b1 - 128) * 64 + (b2 - 128), r2)
              else case r2 of
                [] \<Rightarrow> Inl None
              | b3 # r3 \<Rightarrow>
                  if \<not> continuation_byte b3 then Inl (Some 3)
                  else Inr ((b0 - 240) * 262144 + (b1 - 128) * 4096 + (b2 - 128) * 64 + (b3 - 128), r3))"

lemma utf8_char_shorter: "utf8_char bs = Inr (c, r) \<Longrightarrow> length r < length bs"
  by (cases bs) (auto split: if_splits list.splits)

text \<open>The text of the valid prefix, the bytes after it and what is wrong with them.\<close>

function utf8_scan :: "int list \<Rightarrow> rstr \<times> int list \<times> nat option option" where
  "utf8_scan bs =
     (if bs = [] then ([], [], None)
      else case utf8_char bs of
        Inl e \<Rightarrow> ([], bs, Some e)
      | Inr (c, r) \<Rightarrow> (case utf8_scan r of (s, rest, e) \<Rightarrow> (c # s, rest, e)))"
  by auto
termination by (relation "measure length") (auto dest: utf8_char_shorter)

declare utf8_scan.simps [simp del]

definition from_utf8 :: "int list \<Rightarrow> (nat \<times> nat option) + rstr" where
  "from_utf8 bs =
     (case utf8_scan bs of
        (s, rest, None) \<Rightarrow> Inr s
      | (s, rest, Some e) \<Rightarrow> Inl (length bs - length rest, e))"

section \<open>The wrapper\<close>

datatype Utf8StreamParserError =
    InvalidUtf8 nat nat
  | IncompleteUtf8AtEof

record 'p Utf8StreamParser =
  u8_inner :: 'p
  u8_pending :: "int list"

type_synonym ('p, 'x) bytes_result =
  "((Utf8StreamParserError + 'x StreamTextChunk) \<times> 'p Utf8StreamParser) option"

definition utf8_parser_new :: "'p \<Rightarrow> 'p Utf8StreamParser" where
  "utf8_parser_new inner = \<lparr>u8_inner = inner, u8_pending = []\<rparr>"

definition push_bytes ::
  "('p, 'x) push_fn \<Rightarrow> 'p Utf8StreamParser \<Rightarrow> int list \<Rightarrow> ('p, 'x) bytes_result" where
  "push_bytes push p chunk =
     (let old_len = length (u8_pending p); buf = u8_pending p @ chunk
      in case from_utf8 buf of
           Inr s \<Rightarrow>
             map_option (\<lambda>(inner, out). (Inr out, \<lparr>u8_inner = inner, u8_pending = []\<rparr>))
               (push (u8_inner p) s)
         | Inl (valid_up_to, Some error_len) \<Rightarrow>
             Some (Inl (InvalidUtf8 valid_up_to error_len), p\<lparr>u8_pending := take old_len buf\<rparr>)
         | Inl (valid_up_to, None) \<Rightarrow>
             if valid_up_to = 0 then Some (Inr default_chunk, p\<lparr>u8_pending := buf\<rparr>)
             else
               (case from_utf8 (take valid_up_to buf) of
                  Inl (valid', error_len) \<Rightarrow>
                    Some (Inl (InvalidUtf8 valid' (case error_len of Some n \<Rightarrow> n | None \<Rightarrow> 0)),
                          p\<lparr>u8_pending := take old_len buf\<rparr>)
                | Inr s \<Rightarrow>
                    map_option
                      (\<lambda>(inner, out). (Inr out, \<lparr>u8_inner = inner, u8_pending = drop valid_up_to buf\<rparr>))
                      (push (u8_inner p) s)))"

definition bytes_finish ::
  "('p, 'x) push_fn \<Rightarrow> ('p, 'x) finish_fn \<Rightarrow> 'p Utf8StreamParser \<Rightarrow> ('p, 'x) bytes_result" where
  "bytes_finish push fin p =
     (if u8_pending p \<noteq> [] then
        (case from_utf8 (u8_pending p) of
           Inl (valid_up_to, Some error_len) \<Rightarrow> Some (Inl (InvalidUtf8 valid_up_to error_len), p)
         | Inl (valid_up_to, None) \<Rightarrow> Some (Inl IncompleteUtf8AtEof, p)
         | Inr s \<Rightarrow>
             map_option
               (\<lambda>(inner, out). let (inner', tail) = fin inner
                 in (Inr (chunk_append out tail), \<lparr>u8_inner = inner', u8_pending = []\<rparr>))
               (push (u8_inner p) s))
      else
        let (inner', tail) = fin (u8_inner p)
        in Some (Inr (chunk_append default_chunk tail), p\<lparr>u8_inner := inner'\<rparr>))"

definition into_inner :: "'p Utf8StreamParser \<Rightarrow> Utf8StreamParserError + 'p" where
  "into_inner p =
     (if u8_pending p = [] then Inr (u8_inner p)
      else case from_utf8 (u8_pending p) of
             Inr _ \<Rightarrow> Inr (u8_inner p)
           | Inl (valid_up_to, Some error_len) \<Rightarrow> Inl (InvalidUtf8 valid_up_to error_len)
           | Inl (_, None) \<Rightarrow> Inl IncompleteUtf8AtEof)"

definition into_inner_lossy :: "'p Utf8StreamParser \<Rightarrow> 'p" where
  "into_inner_lossy p = u8_inner p"

section \<open>Decoding in pieces\<close>

lemma utf8_char_append:
  "utf8_char a = Inr (c, r) \<Longrightarrow> utf8_char (a @ b) = Inr (c, r @ b)"
  "utf8_char a = Inl (Some e) \<Longrightarrow> utf8_char (a @ b) = Inl (Some e)"
  by (cases a; auto split: if_splits list.splits)+

lemma utf8_scan_Nil [simp]: "utf8_scan [] = ([], [], None)"
  by (simp add: utf8_scan.simps)

lemma utf8_scan_step:
  "utf8_char bs = Inr (c, r) \<Longrightarrow> utf8_scan bs = (case utf8_scan r of (s, rest, e) \<Rightarrow> (c # s, rest, e))"
  "utf8_char bs = Inl e \<Longrightarrow> bs \<noteq> [] \<Longrightarrow> utf8_scan bs = ([], bs, Some e)"
  by (subst utf8_scan.simps; auto)+

lemma utf8_scan_append:
  "utf8_scan a = (s, rest, e) \<Longrightarrow>
     utf8_scan (a @ b) =
       (case e of
          Some (Some n) \<Rightarrow> (s, rest @ b, e)
        | _ \<Rightarrow> (case utf8_scan (rest @ b) of (s', rest', e') \<Rightarrow> (s @ s', rest', e')))"
proof (induction a arbitrary: s rest e rule: utf8_scan.induct)
  case (1 bs)
  show ?case
  proof (cases "bs = []")
    case True
    with "1.prems" show ?thesis by auto
  next
    case False
    show ?thesis
    proof (cases "utf8_char bs")
      case (Inl e')
      with False "1.prems" have eq: "s = []" "rest = bs" "e = Some e'" by (auto simp: utf8_scan_step)
      show ?thesis
      proof (cases e')
        case (Some n)
        with Inl False eq utf8_char_append(2) [of bs n b] show ?thesis by (simp add: utf8_scan_step)
      qed (auto simp: eq)
    next
      case (Inr cr)
      then obtain c r where cr: "utf8_char bs = Inr (c, r)" by (cases cr) simp
      obtain s1 where s1: "utf8_scan r = (s1, rest, e)" "s = c # s1"
        using "1.prems" cr by (auto simp: utf8_scan_step split: prod.splits)
      from "1.IH" [OF False Inr _ s1(1)] cr Inr have
        "utf8_scan (r @ b) = (case e of Some (Some n) \<Rightarrow> (s1, rest @ b, e)
          | _ \<Rightarrow> (case utf8_scan (rest @ b) of (s', rest', e') \<Rightarrow> (s1 @ s', rest', e')))" by simp
      with utf8_char_append(1) [OF cr, of b] s1(2) show ?thesis
        by (auto simp: utf8_scan_step split: option.splits prod.splits)
    qed
  qed
qed

lemma utf8_scan_prefix:
  "utf8_scan bs = (s, rest, e) \<Longrightarrow>
     (\<exists>a. bs = a @ rest \<and> utf8_scan a = (s, [], None)) \<and> (e = None \<longleftrightarrow> rest = [])
     \<and> (rest \<noteq> [] \<longrightarrow> utf8_scan rest = ([], rest, e))"
proof (induction bs arbitrary: s rest e rule: utf8_scan.induct)
  case (1 bs)
  show ?case
  proof (cases "bs = []")
    case True
    with "1.prems" show ?thesis by auto
  next
    case False
    show ?thesis
    proof (cases "utf8_char bs")
      case (Inl e')
      with False "1.prems" show ?thesis by (auto simp: utf8_scan_step)
    next
      case (Inr cr)
      then obtain c r where cr: "utf8_char bs = Inr (c, r)" by (cases cr) simp
      obtain s1 where s1: "utf8_scan r = (s1, rest, e)" "s = c # s1"
        using "1.prems" cr by (auto simp: utf8_scan_step split: prod.splits)
      from "1.IH" [OF False Inr _ s1(1)] cr Inr obtain a where
        a: "r = a @ rest" "utf8_scan a = (s1, [], None)" and
        e: "e = None \<longleftrightarrow> rest = []" "rest \<noteq> [] \<longrightarrow> utf8_scan rest = ([], rest, e)" by auto
      obtain h where h: "bs = h @ r" "utf8_char (h @ a) = Inr (c, a)"
      proof -
        have "\<exists>h. bs = h @ r \<and> (\<forall>a. utf8_char (h @ a) = Inr (c, a))"
          using cr by (cases bs)
            (auto split: if_splits list.splits intro: exI [of _ "[_]"] exI [of _ "[_, _]"]
              exI [of _ "[_, _, _]"] exI [of _ "[_, _, _, _]"])
        then show thesis using that by blast
      qed
      then have "utf8_scan (h @ a) = (s, [], None)" using a(2) s1(2) by (simp add: utf8_scan_step)
      with h(1) a(1) e show ?thesis by (metis append.assoc)
    qed
  qed
qed

section \<open>The wrapper over any parser\<close>

lemma push_bytes_invalid:
  "utf8_scan (u8_pending p @ chunk) = (s, rest, Some (Some n)) \<Longrightarrow>
     \<exists>k. push_bytes push p chunk = Some (Inl (InvalidUtf8 k n), p)"
  by (simp add: push_bytes_def from_utf8_def Let_def)

lemma push_bytes_valid_prefix:
  assumes "utf8_scan buf = (s, rest, Some None)"
  shows "drop (length buf - length rest) buf = rest"
    "from_utf8 (take (length buf - length rest) buf) = Inr s"
    "length buf - length rest = 0 \<longleftrightarrow> s = []" "s = [] \<Longrightarrow> rest = buf"
proof -
  obtain a where a: "buf = a @ rest" "utf8_scan a = (s, [], None)"
    using utf8_scan_prefix [OF assms] by blast
  then show "drop (length buf - length rest) buf = rest"
    "from_utf8 (take (length buf - length rest) buf) = Inr s" by (simp_all add: from_utf8_def)
  have "a = [] \<longleftrightarrow> s = []"
  proof (cases "utf8_char a")
    case (Inr cr)
    then show ?thesis using a(2) by (cases cr; cases "a = []") (auto simp: utf8_scan_step split: prod.splits)
  qed (use a(2) in \<open>cases "a = []"; auto simp: utf8_scan_step\<close>)
  with a(1) show "length buf - length rest = 0 \<longleftrightarrow> s = []" "s = [] \<Longrightarrow> rest = buf" by simp_all
qed

text \<open>A byte stream pushed in pieces; the first error stops the caller.\<close>

fun push_all_bytes ::
  "('p, 'x) push_fn \<Rightarrow> 'x join_fn \<Rightarrow> 'p Utf8StreamParser \<Rightarrow> int list list \<Rightarrow> ('p, 'x) bytes_result" where
  "push_all_bytes push jn p [] = Some (Inr default_chunk, p)"
| "push_all_bytes push jn p (b # bs) =
     Option.bind (push_bytes push p b) (\<lambda>(r, p1). case r of
         Inl e \<Rightarrow> Some (Inl e, p1)
       | Inr out \<Rightarrow> map_option (\<lambda>(r', p2). (map_sum id (jn out) r', p2)) (push_all_bytes push jn p1 bs))"

definition run_bytes ::
  "('p, 'x) push_fn \<Rightarrow> ('p, 'x) finish_fn \<Rightarrow> 'x join_fn \<Rightarrow> 'p Utf8StreamParser \<Rightarrow> int list list
   \<Rightarrow> ('p, 'x) bytes_result" where
  "run_bytes push fin jn p bs =
     Option.bind (push_all_bytes push jn p bs) (\<lambda>(r, p1). case r of
         Inl e \<Rightarrow> Some (Inl e, p1)
       | Inr out \<Rightarrow> map_option (\<lambda>(r', p2). (map_sum id (jn out) r', p2)) (bytes_finish push fin p1))"

context stream_text_parser
begin

lemma push_bytes_ok:
  assumes "inv (u8_inner p)" "utf8_scan (u8_pending p @ chunk) = (s, rest, e)" "e = None \<or> e = Some None"
  shows "push_bytes push p chunk =
    map_option (\<lambda>(inner, out). (Inr out, \<lparr>u8_inner = inner, u8_pending = rest\<rparr>)) (push (u8_inner p) s)"
  using assms(3)
proof
  assume "e = None"
  with utf8_scan_prefix [OF assms(2)] assms(2) show ?thesis
    by (simp add: push_bytes_def from_utf8_def Let_def)
next
  assume e: "e = Some None"
  note pre = push_bytes_valid_prefix [OF assms(2) [unfolded e]]
  have f: "from_utf8 (u8_pending p @ chunk) =
      Inl (length (u8_pending p @ chunk) - length rest, None)"
    using assms(2) e by (simp add: from_utf8_def)
  show ?thesis
  proof (cases "s = []")
    case True
    then have "length (u8_pending p @ chunk) - length rest = 0" "rest = u8_pending p @ chunk"
      using pre(3,4) by blast+
    with f True push_Nil [OF assms(1)] show ?thesis
      by (simp add: push_bytes_def Let_def)
  next
    case False
    then have "length (u8_pending p @ chunk) - length rest \<noteq> 0" using pre(3) by blast
    with f pre(1,2) show ?thesis unfolding push_bytes_def Let_def
      by (simp only: sum.case prod.case option.case if_False)
  qed
qed

lemma join_default: "inv s \<Longrightarrow> push s c = Some (s', out) \<Longrightarrow> jn default_chunk out = out"
  using push_append [of s "[]" c] push_Nil [of s] by simp

lemma push_all_bytes_text:
  "inv (u8_inner p) \<Longrightarrow> utf8_scan (u8_pending p) = ([], u8_pending p, e0) \<Longrightarrow>
   e0 = None \<or> e0 = Some None \<Longrightarrow> utf8_scan (u8_pending p @ concat bs) = (s, rest, e) \<Longrightarrow>
     (if e = None \<or> e = Some None then
        push_all_bytes push jn p bs =
          map_option (\<lambda>(inner, out). (Inr out, \<lparr>u8_inner = inner, u8_pending = rest\<rparr>)) (push (u8_inner p) s)
      else (\<exists>k n p'. push_all_bytes push jn p bs = Some (Inl (InvalidUtf8 k n), p')))"
proof (induction bs arbitrary: p s rest e e0)
  case Nil
  then have "s = []" "rest = u8_pending p" "e = e0" by simp_all
  with Nil.prems(3) push_Nil [OF Nil.prems(1)] show ?case by simp
next
  case (Cons b bs)
  obtain s1 rest1 e1 where one: "utf8_scan (u8_pending p @ b) = (s1, rest1, e1)" by (metis prod_cases3)
  note all = utf8_scan_append [OF one, of "concat bs"]
  show ?case
  proof (cases "e1 = None \<or> e1 = Some None")
    case True
    obtain q out where q: "push (u8_inner p) s1 = Some (q, out)" "inv q"
      using push_total [OF Cons.prems(1)] by blast
    let ?p1 = "\<lparr>u8_inner = q, u8_pending = rest1\<rparr>"
    have first: "push_bytes push p b = Some (Inr out, ?p1)"
      using push_bytes_ok [OF Cons.prems(1) one True] q by simp
    obtain s2 rest2 e2 where two: "utf8_scan (rest1 @ concat bs) = (s2, rest2, e2)" by (metis prod_cases3)
    with all True Cons.prems(4) have eq: "s = s1 @ s2" "rest = rest2" "e = e2" by auto
    have scan1: "utf8_scan rest1 = ([], rest1, e1)"
      using utf8_scan_prefix [OF one] by (cases "rest1 = []") auto
    have IH: "if e = None \<or> e = Some None then
        push_all_bytes push jn ?p1 bs =
          map_option (\<lambda>(inner, out). (Inr out, \<lparr>u8_inner = inner, u8_pending = rest\<rparr>)) (push q s2)
      else (\<exists>k n p'. push_all_bytes push jn ?p1 bs = Some (Inl (InvalidUtf8 k n), p'))"
      using Cons.IH [of ?p1 e1 s2 rest2 e2] q scan1 True two unfolding eq by simp
    show ?thesis
    proof (cases "e = None \<or> e = Some None")
      case e: True
      obtain q2 out2 where q2: "push q s2 = Some (q2, out2)" using push_total [OF q(2)] by blast
      have "push (u8_inner p) s = Some (q2, jn out out2)"
        using push_append [OF Cons.prems(1), of s1 s2] q q2 eq(1) by simp
      with e IH first q2 show ?thesis by simp
    next
      case False
      with IH obtain k n p' where "push_all_bytes push jn ?p1 bs = Some (Inl (InvalidUtf8 k n), p')"
        by auto
      with first False show ?thesis by auto
    qed
  next
    case False
    then obtain n where n: "e1 = Some (Some n)" by (metis not_Some_eq)
    with all Cons.prems(4) have "e = Some (Some n)" by simp
    moreover obtain k where "push_bytes push p b = Some (Inl (InvalidUtf8 k n), p)"
      using push_bytes_invalid one n by blast
    ultimately show ?thesis by simp
  qed
qed

text \<open>Bytes in any pieces: the answers of the wrapped parser to the decoded text, or an error.\<close>

lemma run_bytes_text:
  assumes "inv inner" "utf8_scan (concat bs) = (s, rest, e)"
  shows "e = None \<Longrightarrow> run_bytes push fin jn (utf8_parser_new inner) bs =
      map_option (\<lambda>(q, out). let (q', tail) = fin q
        in (Inr (jn out tail), \<lparr>u8_inner = q', u8_pending = []\<rparr>)) (push inner s)"
    and "e \<noteq> None \<Longrightarrow> \<exists>err p'. run_bytes push fin jn (utf8_parser_new inner) bs = Some (Inl err, p')"
proof -
  have new: "inv (u8_inner (utf8_parser_new inner))"
    "utf8_scan (u8_pending (utf8_parser_new inner)) = ([], u8_pending (utf8_parser_new inner), None)"
    "None = None \<or> None = Some (None :: nat option)" "utf8_scan (u8_pending (utf8_parser_new inner) @ concat bs) = (s, rest, e)"
    using assms by (simp_all add: utf8_parser_new_def)
  note all = push_all_bytes_text [OF new]
  obtain q out where q: "push inner s = Some (q, out)" using push_total [OF assms(1)] by blast
  show "run_bytes push fin jn (utf8_parser_new inner) bs =
      map_option (\<lambda>(q, out). let (q', tail) = fin q
        in (Inr (jn out tail), \<lparr>u8_inner = q', u8_pending = []\<rparr>)) (push inner s)" if "e = None"
  proof -
    have "rest = []" using utf8_scan_prefix [OF assms(2)] that by blast
    with all q that show ?thesis
      by (simp add: run_bytes_def bytes_finish_def utf8_parser_new_def split_beta Let_def)
  qed
  show "\<exists>err p'. run_bytes push fin jn (utf8_parser_new inner) bs = Some (Inl err, p')" if "e \<noteq> None"
  proof (cases "e = Some None")
    case True
    have "rest \<noteq> []" "utf8_scan rest = ([], rest, e)" using utf8_scan_prefix [OF assms(2)] that by auto
    with True all q show ?thesis
      by (simp add: run_bytes_def bytes_finish_def utf8_parser_new_def from_utf8_def)
  next
    case False
    then have "bs \<noteq> []" using that assms(2) by auto
    with False that all show ?thesis by (auto simp: run_bytes_def)
  qed
qed

end

section \<open>Encoded text is decoded\<close>

definition is_scalar :: "uchar \<Rightarrow> bool" where
  "is_scalar c \<longleftrightarrow> 0 \<le> c \<and> c \<le> 1114111 \<and> \<not> (55296 \<le> c \<and> c \<le> 57343)"

text \<open>A code point in base 64, and the divisions of the encoding in these digits.\<close>

lemma base64_digits:
  fixes c :: int
  assumes "0 \<le> c"
  obtains x y z w where "c = x * 262144 + y * 4096 + z * 64 + w" "0 \<le> x"
    "0 \<le> y" "y < 64" "0 \<le> z" "z < 64" "0 \<le> w" "w < 64"
    "c div 64 = x * 4096 + y * 64 + z" "c div 4096 = x * 64 + y" "c div 262144 = x"
    "c mod 64 = w" "c div 64 mod 64 = z" "c div 4096 mod 64 = y"
proof -
  define w where "w = c mod 64"
  define z where "z = c div 64 mod 64"
  define y where "y = c div 4096 mod 64"
  define x where "x = c div 262144"
  have d: "c div 4096 = c div 64 div 64" "c div 262144 = c div 64 div 64 div 64"
    by (simp_all add: zdiv_zmult2_eq [symmetric])
  have "c = c div 64 * 64 + w" "c div 64 = c div 64 div 64 * 64 + z" "c div 64 div 64 = x * 64 + y"
    unfolding w_def z_def y_def x_def d by (simp_all only: div_mult_mod_eq)
  then have r: "c div 64 = x * 4096 + y * 64 + z" "c div 4096 = x * 64 + y"
    "c = x * 262144 + y * 4096 + z * 64 + w" unfolding d by linarith+
  have "0 \<le> x" using assms by (simp add: x_def pos_imp_zdiv_nonneg_iff)
  have "0 \<le> y" "y < 64" "0 \<le> z" "z < 64" "0 \<le> w" "w < 64"
    by (simp_all add: w_def z_def y_def)
  show thesis
    by (rule that [OF r(3) \<open>0 \<le> x\<close> \<open>0 \<le> y\<close> \<open>y < 64\<close> \<open>0 \<le> z\<close> \<open>z < 64\<close> \<open>0 \<le> w\<close> \<open>w < 64\<close> r(1,2)])
      (simp_all only: w_def z_def y_def x_def)
qed

lemma utf8_char_encode:
  assumes "is_scalar c"
  shows "utf8_char (encode_utf8 c @ r) = Inr (c, r)"
proof -
  from assms have c: "0 \<le> c" "c \<le> 1114111" "c < 55296 \<or> 57343 < c" by (auto simp: is_scalar_def)
  obtain x y z w where full: "c = x * 262144 + y * 4096 + z * 64 + w" and xs: "0 \<le> x"
    and ys: "0 \<le> y" "y < 64" and zs: "0 \<le> z" "z < 64" and ws: "0 \<le> w" "w < 64"
    and d: "c div 64 = x * 4096 + y * 64 + z" "c div 4096 = x * 64 + y" "c div 262144 = x"
    "c mod 64 = w" "c div 64 mod 64 = z" "c div 4096 mod 64 = y"
    using base64_digits [OF c(1)] .
  note digits = full xs ys zs ws
  consider "c < 128" | "128 \<le> c" "c < 2048" | "2048 \<le> c" "c < 65536" | "65536 \<le> c" by linarith
  then show ?thesis
  proof cases
    case 1
    then show ?thesis by (simp add: encode_utf8_def utf8_width_def)
  next
    case 2
    then have e: "encode_utf8 c = [192 + (x * 4096 + y * 64 + z), 128 + w]"
      by (simp add: encode_utf8_def d(1,4))
    have xy: "x = 0" "y = 0" using 2 digits by linarith+
    then have "64 < z * 64" "z * 64 < 2048" using 2 digits by linarith+
    then have "2 \<le> z" "z < 32" by simp_all
    with xy full ws show ?thesis unfolding e by (simp add: utf8_width_def second_byte_ok_def)
  next
    case 3
    then have e: "encode_utf8 c = [224 + (x * 64 + y), 128 + z, 128 + w]"
      by (simp add: encode_utf8_def d(2,4,5))
    have xy: "x = 0" "y < 16" using 3 digits by linarith+
    have "y = 0 \<Longrightarrow> 31 * 64 < z * 64" "y = 13 \<Longrightarrow> z * 64 < 32 * 64"
      using 3 digits c(3) xy(1) by linarith+
    then have "y = 0 \<longrightarrow> 32 \<le> z" "y = 13 \<longrightarrow> z < 32" by auto
    with xy full ys zs ws show ?thesis unfolding e
      by (auto simp: utf8_width_def second_byte_ok_def continuation_byte_def)
  next
    case 4
    then have e: "encode_utf8 c = [240 + x, 128 + y, 128 + z, 128 + w]"
      by (simp add: encode_utf8_def d(3,4,5,6))
    have "x = 0 \<Longrightarrow> 15 * 4096 < y * 4096" "x = 4 \<Longrightarrow> y * 4096 < 16 * 4096"
      using 4 digits c(2) by linarith+
    then have "x = 0 \<longrightarrow> 16 \<le> y" "x = 4 \<longrightarrow> y < 16" by auto
    moreover have "x < 5" using 4 digits c(2) by linarith
    ultimately show ?thesis unfolding e using full xs ys zs ws
      by (auto simp: utf8_width_def second_byte_ok_def continuation_byte_def)
  qed
qed

lemma utf8_scan_into_bytes: "\<forall>c \<in> set s. is_scalar c \<Longrightarrow> utf8_scan (into_bytes s) = (s, [], None)"
proof (induction s)
  case (Cons c s)
  then have "utf8_char (into_bytes (c # s)) = Inr (c, into_bytes s)"
    by (simp add: into_bytes_def utf8_char_encode)
  with Cons show ?case by (simp add: utf8_scan_step)
qed (simp add: into_bytes_def)

section \<open>Properties of the wrapper\<close>

lemma push_bytes_rollback:
  "push_bytes push p chunk = Some (Inl e, p') \<Longrightarrow> p' = p \<and> (\<exists>k n. e = InvalidUtf8 k n)"
  by (auto simp: push_bytes_def Let_def split: sum.splits option.splits if_splits prod.splits)

text \<open>Whatever parser is wrapped, a pushed chunk that is answered with an error is rolled
  back entirely: the wrapper, with its wrapped parser and its buffered bytes, is as it was,
  and the error is an invalid sequence, never an incomplete one.\<close>

theorem failed_chunk_is_rolled_back:
  assumes "push_bytes push p chunk = Some (Inl e, p')"
  shows "p' = p \<and> (\<exists>k n. e = InvalidUtf8 k n)"
  using assms by (rule push_bytes_rollback)

end
