(* ===== verification/Inline_Hidden_Tag.thy ===== *)
theory Inline_Hidden_Tag
  imports Stream_Utf8 "HOL-Library.Sublist"
begin

text \<open>
  The parser that hides inline tags and extracts what they enclose
  (\<open>utils/stream-parser/src/inline_hidden_tag.rs\<close>) and the one for memory citations
  (\<open>citation.rs\<close>). The parser keeps in \<open>pending\<close> the text it cannot place yet: the longest
  end of what it saw that may still become a delimiter.

  Its loop ends because a delimiter is never empty, which \<open>new\<close> asserts; it is a
  \<open>partial_function\<close>, so that not returning would be \<open>None\<close>, and the laws of the interface
  show that it returns.
\<close>

section \<open>The parser\<close>

record 't ExtractedInlineTag =
  ext_tag :: 't
  ext_content :: rstr

record 't InlineTagSpec =
  spec_tag :: 't
  spec_open :: rstr
  spec_close :: rstr

record 't ActiveTag =
  act_tag :: 't
  act_close :: rstr
  act_content :: rstr

record 't InlineHiddenTagParser =
  hid_specs :: "'t InlineTagSpec list"
  hid_pending :: rstr
  hid_active :: "'t ActiveTag option"

type_synonym 't inline_chunk = "'t ExtractedInlineTag StreamTextChunk"

text \<open>\<open>None\<close> is the panic of an assertion.\<close>

definition inline_parser_new :: "'t InlineTagSpec list \<Rightarrow> 't InlineHiddenTagParser option" where
  "inline_parser_new specs =
     (if specs = [] then None
      else if list_ex (\<lambda>spec. spec_open spec = [] \<or> spec_close spec = []) specs then None
      else Some \<lparr>hid_specs = specs, hid_pending = [], hid_active = None\<rparr>)"

text \<open>\<open>Iterator::min_by\<close>: the first of the least elements.\<close>

fun min_by :: "('a \<Rightarrow> 'a \<Rightarrow> bool) \<Rightarrow> 'a list \<Rightarrow> 'a option" where
  "min_by lt [] = None"
| "min_by lt (x # xs) = Some (foldl (\<lambda>best y. if lt y best then y else best) x xs)"

definition open_less :: "nat \<times> nat \<times> nat \<Rightarrow> nat \<times> nat \<times> nat \<Rightarrow> bool" where
  "open_less a b = (case (a, b) of ((pos_a, len_a, idx_a), (pos_b, len_b, idx_b)) \<Rightarrow>
     pos_a < pos_b
     \<or> (pos_a = pos_b \<and> (len_b < len_a \<or> (len_b = len_a \<and> idx_a < idx_b))))"

definition open_candidates :: "'t InlineTagSpec list \<Rightarrow> rstr \<Rightarrow> (nat \<times> nat \<times> nat) list" where
  "open_candidates specs s =
     List.map_filter
       (\<lambda>(idx, spec). map_option (\<lambda>pos. (pos, str_len (spec_open spec), idx))
                        (str_find (spec_open spec) s))
       (enumerate 0 specs)"

definition find_next_open :: "'t InlineTagSpec list \<Rightarrow> rstr \<Rightarrow> (nat \<times> nat) option" where
  "find_next_open specs s =
     map_option (\<lambda>(pos, _, idx). (pos, idx)) (min_by open_less (open_candidates specs s))"

fun suffix_prefix_from :: "nat \<Rightarrow> rstr \<Rightarrow> rstr \<Rightarrow> nat" where
  "suffix_prefix_from 0 s needle = 0"
| "suffix_prefix_from (Suc k) s needle =
     (if ends_with (take (Suc k) needle) s then Suc k else suffix_prefix_from k s needle)"

definition longest_suffix_prefix_len :: "rstr \<Rightarrow> rstr \<Rightarrow> nat" where
  "longest_suffix_prefix_len s needle =
     suffix_prefix_from (min (length s) (length needle - 1)) s needle"

definition max_open_prefix_suffix_len :: "'t InlineTagSpec list \<Rightarrow> rstr \<Rightarrow> nat" where
  "max_open_prefix_suffix_len specs s =
     foldr max (map (\<lambda>spec. longest_suffix_prefix_len s (spec_open spec)) specs) 0"

definition push_visible_prefix :: "'t inline_chunk \<Rightarrow> rstr \<Rightarrow> 't inline_chunk" where
  "push_visible_prefix out s =
     (if s \<noteq> [] then out\<lparr>visible_text := visible_text out @ s\<rparr> else out)"

definition drain_visible_to_suffix_match ::
  "'t InlineHiddenTagParser \<Rightarrow> 't inline_chunk \<Rightarrow> nat \<Rightarrow> 't InlineHiddenTagParser \<times> 't inline_chunk"
where
  "drain_visible_to_suffix_match p out keep =
     (let n = length (hid_pending p) - keep
      in if n = 0 then (p, out)
         else (p\<lparr>hid_pending := drop n (hid_pending p)\<rparr>,
               push_visible_prefix out (take n (hid_pending p))))"

definition push_extracted :: "'t inline_chunk \<Rightarrow> 't ActiveTag \<Rightarrow> 't inline_chunk" where
  "push_extracted out a =
     out\<lparr>extracted := extracted out @ [\<lparr>ext_tag = act_tag a, ext_content = act_content a\<rparr>]\<rparr>"

definition keep_close_suffix :: "'t InlineHiddenTagParser \<Rightarrow> 't ActiveTag \<Rightarrow> 't InlineHiddenTagParser" where
  "keep_close_suffix p a =
     (let n = length (hid_pending p) - longest_suffix_prefix_len (hid_pending p) (act_close a)
      in if n > 0 then
           p\<lparr>hid_active := Some (a\<lparr>act_content := act_content a @ take n (hid_pending p)\<rparr>),
             hid_pending := drop n (hid_pending p)\<rparr>
         else p)"

definition open_tag :: "'t InlineHiddenTagParser \<Rightarrow> nat \<Rightarrow> 't InlineTagSpec \<Rightarrow> 't InlineHiddenTagParser" where
  "open_tag p i spec =
     p\<lparr>hid_pending := drop (i + length (spec_open spec)) (hid_pending p),
       hid_active := Some \<lparr>act_tag = spec_tag spec, act_close = spec_close spec, act_content = []\<rparr>\<rparr>"

definition close_tag :: "'t InlineHiddenTagParser \<Rightarrow> nat \<Rightarrow> 't ActiveTag \<Rightarrow> 't InlineHiddenTagParser" where
  "close_tag p i a =
     p\<lparr>hid_pending := drop (i + length (act_close a)) (hid_pending p), hid_active := None\<rparr>"

partial_function (option) inline_loop ::
  "'t InlineHiddenTagParser \<Rightarrow> 't inline_chunk \<Rightarrow> ('t InlineHiddenTagParser \<times> 't inline_chunk) option"
where
  "inline_loop p out =
     (case hid_active p of
        Some a \<Rightarrow>
          (case str_find (act_close a) (hid_pending p) of
             Some i \<Rightarrow>
               inline_loop (close_tag p i a)
                 (push_extracted out
                    (a\<lparr>act_content := act_content a @ take i (hid_pending p)\<rparr>))
           | None \<Rightarrow> Some (keep_close_suffix p a, out))
      | None \<Rightarrow>
          (case find_next_open (hid_specs p) (hid_pending p) of
             Some (i, idx) \<Rightarrow>
               inline_loop (open_tag p i (hid_specs p ! idx))
                 (push_visible_prefix out (take i (hid_pending p)))
           | None \<Rightarrow>
               Some (drain_visible_to_suffix_match p out
                       (max_open_prefix_suffix_len (hid_specs p) (hid_pending p)))))"

definition inline_push_str ::
  "'t InlineHiddenTagParser \<Rightarrow> rstr \<Rightarrow> ('t InlineHiddenTagParser \<times> 't inline_chunk) option" where
  "inline_push_str p chunk =
     inline_loop (p\<lparr>hid_pending := hid_pending p @ chunk\<rparr>) default_chunk"

definition inline_finish :: "'t InlineHiddenTagParser \<Rightarrow> 't InlineHiddenTagParser \<times> 't inline_chunk" where
  "inline_finish p =
     (case hid_active p of
        Some a \<Rightarrow>
          (p\<lparr>hid_active := None, hid_pending := []\<rparr>,
           push_extracted default_chunk (a\<lparr>act_content := act_content a @ hid_pending p\<rparr>))
      | None \<Rightarrow>
          (p\<lparr>hid_pending := []\<rparr>,
           default_chunk\<lparr>visible_text := hid_pending p\<rparr>))"

section \<open>Searching a text that grows\<close>

text \<open>A needle that is parallel to the text at a position cannot start there, whatever follows.\<close>

lemma starts_with_prefix: "starts_with p s \<longleftrightarrow> prefix p s"
  by (auto simp: starts_with_iff prefix_def)

lemma ends_with_suffix: "ends_with p s \<longleftrightarrow> suffix p s"
  by (auto simp: ends_with_iff suffix_def)

definition undecided :: "rstr \<Rightarrow> rstr \<Rightarrow> bool" where
  "undecided needle s \<longleftrightarrow> prefix needle s \<or> prefix s needle"

lemma undecided_append: "undecided needle (s @ t) \<Longrightarrow> undecided needle s"
  unfolding undecided_def
  by (elim disjE) (auto dest: append_prefixD prefix_same_cases [of needle "s @ t" s])

lemma suffix_prefix_from_le: "suffix_prefix_from n s needle \<le> n"
  by (induction n) auto

lemma suffix_prefix_from_ge:
  "k \<le> n \<Longrightarrow> suffix (take k needle) s \<Longrightarrow> k \<le> suffix_prefix_from n s needle"
  by (induction n) (auto simp: ends_with_suffix le_Suc_eq)

lemma suffix_prefix_from_suffix:
  "suffix (take (suffix_prefix_from n s needle) needle) s"
  by (induction n) (auto simp: ends_with_suffix)

lemma longest_suffix_prefix_len_le:
  "longest_suffix_prefix_len s needle \<le> length s"
  using suffix_prefix_from_le [of "min (length s) (length needle - 1)" s needle]
  unfolding longest_suffix_prefix_len_def by linarith

lemma dropped_decided:
  assumes "str_find needle s = None" "j < length s - longest_suffix_prefix_len s needle"
  shows "\<not> undecided needle (drop j s)"
proof
  assume "undecided needle (drop j s)"
  moreover have "\<not> prefix needle (drop j s)"
    using assms by (simp add: str_find_None starts_with_prefix)
  ultimately have pre: "prefix (drop j s) needle" by (simp add: undecided_def)
  have "drop j s \<noteq> needle" using assms by (metis \<open>\<not> prefix needle (drop j s)\<close> prefix_order.refl)
  with pre have short: "length (drop j s) < length needle" by (metis prefix_length_less strict_prefixI)
  have "take (length (drop j s)) needle = drop j s" using pre by (metis append_eq_conv_conj prefix_def)
  then have "suffix (take (length (drop j s)) needle) s" by (simp add: suffix_drop)
  then have "length (drop j s) \<le> longest_suffix_prefix_len s needle"
    unfolding longest_suffix_prefix_len_def
    by (intro suffix_prefix_from_ge) (use short in auto)
  with assms(2) show False by simp
qed

lemma str_find_drop:
  assumes "\<forall>j < n. \<not> prefix needle (drop j s)" "n \<le> length s"
  shows "str_find needle s = map_option ((+) n) (str_find needle (drop n s))"
proof (cases "str_find needle (drop n s)")
  case None
  have "\<not> starts_with needle (drop j s)" if "j \<le> length s" for j
  proof (cases "j < n")
    case False
    then have "drop j s = drop (j - n) (drop n s)" and "j - n \<le> length (drop n s)"
      using that by simp_all
    with None show ?thesis unfolding str_find_None by metis
  qed (use assms in \<open>simp add: starts_with_prefix\<close>)
  then have "str_find needle s = None" by (simp add: str_find_None)
  with None show ?thesis by simp
next
  case (Some i)
  then have i: "i \<le> length s - n" "starts_with needle (drop (n + i) s)"
    "\<forall>j < i. \<not> starts_with needle (drop (n + j) s)"
    by (auto simp: str_find_Some_iff add.commute)
  have "\<not> starts_with needle (drop j s)" if "j < n + i" for j
    using assms(1) i(3) [rule_format, of "j - n"] that by (cases "j < n") (auto simp: starts_with_prefix)
  with i assms(2) have "str_find needle s = Some (n + i)" by (simp add: str_find_Some_iff)
  with Some show ?thesis by simp
qed

lemma prefix_drop_append:
  assumes "prefix needle (drop j (s @ t))" "j + length needle \<le> length s"
  shows "prefix needle (drop j s)"
proof -
  have "drop j (s @ t) = drop j s @ t" using assms(2) by simp
  then have "prefix (drop j s) (drop j (s @ t))" by simp
  moreover have "length needle \<le> length (drop j s)" using assms(2) by simp
  ultimately show ?thesis using assms(1) prefix_length_prefix by blast
qed

lemma prefix_drop_appendI: "prefix needle (drop i s) \<Longrightarrow> i \<le> length s \<Longrightarrow> prefix needle (drop i (s @ t))"
  by (auto simp: prefix_def)

lemma str_find_append:
  assumes "str_find needle s = Some i"
  shows "str_find needle (s @ t) = Some i"
proof -
  have i: "i + length needle \<le> length s" "prefix needle (drop i s)"
    "\<forall>j < i. \<not> prefix needle (drop j s)"
    using assms str_find_Some [OF assms] by (simp_all add: str_find_Some_iff starts_with_prefix)
  have "\<not> prefix needle (drop j (s @ t))" if "j < i" for j
    using prefix_drop_append [of needle j s t] i that by auto
  moreover have "prefix needle (drop i (s @ t))" using i by (simp add: prefix_drop_appendI)
  ultimately show ?thesis using i(1) unfolding str_find_Some_iff starts_with_prefix by simp
qed

section \<open>The next opening delimiter\<close>

lemma open_less_order:
  "\<not> open_less a a"
  "open_less a b \<Longrightarrow> open_less b c \<Longrightarrow> open_less a c"
  "a = b \<or> open_less a b \<or> open_less b a"
  by (cases a; cases b; cases c; auto simp: open_less_def)+

lemma foldl_min_by:
  "foldl (\<lambda>best y. if open_less y best then y else best) x xs = m \<longleftrightarrow>
     m \<in> set (x # xs) \<and> (\<forall>y \<in> set (x # xs). y = m \<or> open_less m y)"
proof (induction xs arbitrary: x)
  case Nil
  show ?case by auto
next
  case (Cons z zs)
  then show ?case
    using open_less_order(1) [of x] open_less_order(2) [of z x m] open_less_order(3) [of x z]
      open_less_order(2) [of m z x] open_less_order(2) [of m x z] open_less_order(2) [of z m x]
      open_less_order(2) [of x m z] open_less_order(2) [of x z x] open_less_order(1) [of z]
    by (simp add: Cons.IH) blast
qed

lemma min_by_Some:
  "min_by open_less xs = Some m \<longleftrightarrow> m \<in> set xs \<and> (\<forall>y \<in> set xs. y = m \<or> open_less m y)"
proof (cases xs)
  case (Cons x xs')
  then show ?thesis using foldl_min_by [of x xs' m] by simp
qed simp

lemma min_by_None [simp]: "min_by lt xs = None \<longleftrightarrow> xs = []"
  by (cases xs) simp_all

lemma min_by_map:
  "(\<And>a b. lt (f a) (f b) = lt a b) \<Longrightarrow> min_by lt (map f xs) = map_option f (min_by lt xs)"
proof (cases xs)
  case (Cons x xs')
  assume mono: "\<And>a b. lt (f a) (f b) = lt a b"
  have "foldl (\<lambda>best y. if lt y best then y else best) (f x) (map f xs')
      = f (foldl (\<lambda>best y. if lt y best then y else best) x xs')"
    by (induction xs' arbitrary: x) (simp_all add: mono flip: if_distrib [of f])
  with Cons show ?thesis by simp
qed simp

lemma in_set_map_filter: "y \<in> set (List.map_filter f xs) \<longleftrightarrow> (\<exists>x \<in> set xs. f x = Some y)"
  by (induction xs) (auto simp: List.map_filter_simps split: option.split)

lemma open_candidates_iff:
  "(pos, len, idx) \<in> set (open_candidates specs s) \<longleftrightarrow>
     idx < length specs \<and> str_find (spec_open (specs ! idx)) s = Some pos
     \<and> len = str_len (spec_open (specs ! idx))"
  unfolding open_candidates_def in_set_map_filter
  by (auto simp: in_set_enumerate_eq intro!: bexI [of _ "(idx, specs ! idx)"])

lemma find_next_open_Some:
  "find_next_open specs s = Some (i, idx) \<longleftrightarrow>
     idx < length specs \<and> str_find (spec_open (specs ! idx)) s = Some i \<and>
     (\<forall>k < length specs. \<forall>j. str_find (spec_open (specs ! k)) s = Some j \<longrightarrow>
        k = idx \<or> open_less (i, str_len (spec_open (specs ! idx)), idx)
                   (j, str_len (spec_open (specs ! k)), k))"
  (is "?l \<longleftrightarrow> ?r")
proof
  assume ?l
  then obtain len where "min_by open_less (open_candidates specs s) = Some (i, len, idx)"
    by (auto simp: find_next_open_def)
  then have "(i, len, idx) \<in> set (open_candidates specs s)"
    "\<forall>y \<in> set (open_candidates specs s). y = (i, len, idx) \<or> open_less (i, len, idx) y"
    by (simp_all add: min_by_Some)
  then show ?r by (fastforce simp: open_candidates_iff)
next
  assume r: ?r
  then have "min_by open_less (open_candidates specs s)
      = Some (i, str_len (spec_open (specs ! idx)), idx)"
    by (auto simp: min_by_Some open_candidates_iff split: prod.split)
  then show ?l by (simp add: find_next_open_def)
qed

lemma find_next_open_None:
  "find_next_open specs s = None \<longleftrightarrow> (\<forall>spec \<in> set specs. str_find (spec_open spec) s = None)"
proof -
  have "find_next_open specs s = None \<longleftrightarrow> (\<forall>x. x \<notin> set (open_candidates specs s))"
    unfolding find_next_open_def option.map_disc_iff min_by_None
    by (metis empty_iff list.set(1) last_in_set)
  also have "\<dots> \<longleftrightarrow> (\<forall>idx < length specs. str_find (spec_open (specs ! idx)) s = None)"
    unfolding split_paired_All open_candidates_iff by (metis not_Some_eq)
  finally show ?thesis by (simp add: all_set_conv_all_nth)
qed

text \<open>
  The parser's answers depend on the cut when one opening delimiter is part of another:
  then the shorter one is taken before the longer one could be complete.
\<close>

definition no_nested_open :: "'t InlineTagSpec list \<Rightarrow> bool" where
  "no_nested_open specs =
     list_all (\<lambda>a. list_all (\<lambda>b. spec_open a = spec_open b
                 \<or> \<not> contains (spec_open a) (spec_open b)) specs) specs"

lemma contains_sublist: "contains p s \<longleftrightarrow> sublist p s"
proof
  assume "contains p s"
  then obtain i where "str_find p s = Some i" by (auto simp: contains_def)
  then have "prefix p (drop i s)" by (simp add: str_find_Some_iff starts_with_prefix)
  then obtain r where "drop i s = p @ r" by (auto simp: prefix_def)
  then have "s = take i s @ p @ r" by (metis append_take_drop_id)
  then show "sublist p s" unfolding sublist_def by blast
next
  assume "sublist p s"
  then obtain a b where "s = a @ p @ b" by (auto simp: sublist_def)
  then have "length a \<le> length s" "starts_with p (drop (length a) s)"
    by (simp_all add: starts_with_prefix)
  then show "contains p s" unfolding contains_def str_find_None by blast
qed

lemma find_next_open_append:
  assumes nn: "no_nested_open specs" and f: "find_next_open specs s = Some (i, idx)"
  shows "find_next_open specs (s @ t) = Some (i, idx)"
proof -
  have idx: "idx < length specs" and fi: "str_find (spec_open (specs ! idx)) s = Some i"
    and least: "\<And>k j. k < length specs \<Longrightarrow> str_find (spec_open (specs ! k)) s = Some j \<Longrightarrow>
        k = idx \<or> open_less (i, str_len (spec_open (specs ! idx)), idx)
                   (j, str_len (spec_open (specs ! k)), k)"
    using f by (auto simp: find_next_open_Some)
  have pi: "i + length (spec_open (specs ! idx)) \<le> length s" "prefix (spec_open (specs ! idx)) (drop i s)"
    using fi str_find_Some [OF fi] by (simp_all add: str_find_Some_iff starts_with_prefix)
  have "k = idx \<or> open_less (i, str_len (spec_open (specs ! idx)), idx)
                   (j, str_len (spec_open (specs ! k)), k)"
    if k: "k < length specs" and fj: "str_find (spec_open (specs ! k)) (s @ t) = Some j" for k j
  proof (cases "str_find (spec_open (specs ! k)) s")
    case (Some j')
    with str_find_append [OF Some, of t] fj least [OF k] show ?thesis by simp
  next
    case None
    let ?o = "spec_open (specs ! k)"
    have pj: "prefix ?o (drop j (s @ t))" using fj by (simp add: str_find_Some_iff starts_with_prefix)
    have "i < j"
    proof (rule ccontr)
      assume "\<not> i < j"
      then have "j \<le> i" by simp
      have "\<not> prefix ?o (drop j s)"
        using None \<open>j \<le> i\<close> pi(1) by (auto simp: str_find_None starts_with_prefix)
      with pj have long: "length s < j + length ?o"
        using prefix_drop_append by (metis not_less)
      have "drop j (s @ t) = drop j s @ t" using \<open>j \<le> i\<close> pi(1) by simp
      then have "prefix (drop j s) (drop j (s @ t))" by simp
      moreover have "length (drop j s) \<le> length ?o" using long by simp
      ultimately have "prefix (drop j s) ?o" using pj prefix_length_prefix by blast
      then obtain r where "?o = drop j s @ r" by (auto simp: prefix_def)
      moreover obtain r' where "drop i s = spec_open (specs ! idx) @ r'"
        using pi(2) by (auto simp: prefix_def)
      moreover have "drop j s = take (i - j) (drop j s) @ drop i s"
        using \<open>j \<le> i\<close> by (metis append_take_drop_id drop_drop le_add_diff_inverse2)
      ultimately have "sublist (spec_open (specs ! idx)) ?o" unfolding sublist_def by (metis append.assoc)
      moreover have "spec_open (specs ! idx) \<noteq> ?o" using long \<open>j \<le> i\<close> pi(1) by auto
      ultimately show False
        using nn k idx unfolding no_nested_open_def list_all_iff contains_sublist by (metis nth_mem)
    qed
    then show ?thesis by (simp add: open_less_def)
  qed
  with idx str_find_append [OF fi, of t] show ?thesis unfolding find_next_open_Some by blast
qed

lemma find_next_open_drop:
  assumes "\<forall>spec \<in> set specs. \<forall>j < n. \<not> prefix (spec_open spec) (drop j s)" "n \<le> length s"
  shows "find_next_open specs s = map_option (map_prod ((+) n) id) (find_next_open specs (drop n s))"
proof -
  let ?f = "\<lambda>(pos, len, idx). (n + pos, len, idx)" 
  have find: "str_find (spec_open spec) s = map_option ((+) n) (str_find (spec_open spec) (drop n s))"
    if "spec \<in> set specs" for spec
    using assms that by (intro str_find_drop) auto
  have "List.map_filter (\<lambda>(idx, spec). map_option (\<lambda>pos. (pos, str_len (spec_open spec), idx))
            (str_find (spec_open spec) s)) xs
      = map ?f (List.map_filter (\<lambda>(idx, spec). map_option (\<lambda>pos. (pos, str_len (spec_open spec), idx))
            (str_find (spec_open spec) (drop n s))) xs)"
    if "\<forall>x \<in> set xs. snd x \<in> set specs" for xs :: "(nat \<times> 'a InlineTagSpec) list"
    using that by (induction xs) (auto simp: List.map_filter_simps find split: option.split)
  then have "open_candidates specs s = map ?f (open_candidates specs (drop n s))"
    unfolding open_candidates_def by (elim meta_allE, elim meta_impE) (auto simp: in_set_enumerate_eq)
  moreover have "open_less (?f a) (?f b) = open_less a b" for a b
    by (auto simp: open_less_def split: prod.splits)
  ultimately have "min_by open_less (open_candidates specs s)
      = map_option ?f (min_by open_less (open_candidates specs (drop n s)))"
    by (simp add: min_by_map)
  then show ?thesis by (simp add: find_next_open_def option.map_comp comp_def split_beta map_prod_def)
qed

section \<open>The loop\<close>

definition specs_ok :: "'t InlineTagSpec list \<Rightarrow> bool" where
  "specs_ok specs \<longleftrightarrow>
     list_all (\<lambda>spec. spec_open spec \<noteq> [] \<and> spec_close spec \<noteq> []) specs \<and> no_nested_open specs"

definition inline_ok :: "'t InlineHiddenTagParser \<Rightarrow> bool" where
  "inline_ok p \<longleftrightarrow> specs_ok (hid_specs p)
     \<and> (case hid_active p of None \<Rightarrow> True | Some a \<Rightarrow> act_close a \<noteq> [])"

definition add_pending :: "'t InlineHiddenTagParser \<Rightarrow> rstr \<Rightarrow> 't InlineHiddenTagParser" where
  "add_pending p s = p\<lparr>hid_pending := hid_pending p @ s\<rparr>"

lemma inline_ok_open:
  assumes "inline_ok p" "find_next_open (hid_specs p) s = Some (i, idx)"
  shows "idx < length (hid_specs p)" "spec_open (hid_specs p ! idx) \<noteq> []"
    "spec_close (hid_specs p ! idx) \<noteq> []" "i + length (spec_open (hid_specs p ! idx)) \<le> length s"
    "inline_ok (open_tag p i (hid_specs p ! idx))"
proof -
  show idx: "idx < length (hid_specs p)" using assms(2) by (simp add: find_next_open_Some)
  then have "hid_specs p ! idx \<in> set (hid_specs p)" by simp
  with assms(1) show "spec_open (hid_specs p ! idx) \<noteq> []" "spec_close (hid_specs p ! idx) \<noteq> []"
    by (auto simp: inline_ok_def specs_ok_def list_all_iff)
  with assms(1) show "inline_ok (open_tag p i (hid_specs p ! idx))"
    by (simp add: inline_ok_def open_tag_def)
  show "i + length (spec_open (hid_specs p ! idx)) \<le> length s"
    using assms(2) str_find_Some by (auto simp: find_next_open_Some)
qed

lemma inline_ok_close: "inline_ok p \<Longrightarrow> inline_ok (close_tag p i a)"
  by (simp add: inline_ok_def close_tag_def)

lemma inline_induct [consumes 1, case_names close stay tag_open drain]:
  assumes "inline_ok p"
    and close: "\<And>p a i. \<lbrakk>inline_ok p; hid_active p = Some a;
        str_find (act_close a) (hid_pending p) = Some i; P (close_tag p i a)\<rbrakk> \<Longrightarrow> P p"
    and stay: "\<And>p a. \<lbrakk>inline_ok p; hid_active p = Some a;
        str_find (act_close a) (hid_pending p) = None\<rbrakk> \<Longrightarrow> P p"
    and tag_open: "\<And>p i idx. \<lbrakk>inline_ok p; hid_active p = None;
        find_next_open (hid_specs p) (hid_pending p) = Some (i, idx);
        P (open_tag p i (hid_specs p ! idx))\<rbrakk> \<Longrightarrow> P p"
    and drain: "\<And>p. \<lbrakk>inline_ok p; hid_active p = None;
        find_next_open (hid_specs p) (hid_pending p) = None\<rbrakk> \<Longrightarrow> P p"
  shows "P p"
  using assms(1)
proof (induction "2 * length (hid_pending p) + (case hid_active p of None \<Rightarrow> 0 | Some _ \<Rightarrow> 1)"
    arbitrary: p rule: less_induct)
  case less
  show ?case
  proof (cases "hid_active p")
    case None
    show ?thesis
    proof (cases "find_next_open (hid_specs p) (hid_pending p)")
      case (Some r)
      then obtain i idx where r: "find_next_open (hid_specs p) (hid_pending p) = Some (i, idx)"
        by (cases r) simp
      note spec = inline_ok_open [OF less.prems r]
      have "length (spec_open (hid_specs p ! idx)) > 0" using spec(2) by simp
      with spec(4) have "Suc (2 * (length (hid_pending p) - (i + length (spec_open (hid_specs p ! idx)))))
          < 2 * length (hid_pending p)" by linarith
      then have "P (open_tag p i (hid_specs p ! idx))"
        by (intro less.hyps spec(5)) (simp add: open_tag_def None)
      with less.prems None r show ?thesis by (rule tag_open)
    qed (use less.prems None drain in blast)
  next
    case (Some a)
    show ?thesis
    proof (cases "str_find (act_close a) (hid_pending p)")
      case f: (Some i)
      have "act_close a \<noteq> []" using less.prems Some by (simp add: inline_ok_def)
      then have "length (act_close a) > 0" by simp
      with str_find_Some [OF f] have "P (close_tag p i a)"
        by (intro less.hyps inline_ok_close less.prems) (simp add: close_tag_def Some)
      with less.prems Some f show ?thesis by (rule close)
    qed (use less.prems Some stay in blast)
  qed
qed

lemma inline_loop_simps:
  "hid_active p = Some a \<Longrightarrow> str_find (act_close a) (hid_pending p) = Some i \<Longrightarrow>
     inline_loop p out = inline_loop (close_tag p i a)
       (push_extracted out (a\<lparr>act_content := act_content a @ take i (hid_pending p)\<rparr>))"
  "hid_active p = Some a \<Longrightarrow> str_find (act_close a) (hid_pending p) = None \<Longrightarrow>
     inline_loop p out = Some (keep_close_suffix p a, out)"
  "hid_active p = None \<Longrightarrow> find_next_open (hid_specs p) (hid_pending p) = Some (i, idx) \<Longrightarrow>
     inline_loop p out = inline_loop (open_tag p i (hid_specs p ! idx))
       (push_visible_prefix out (take i (hid_pending p)))"
  "hid_active p = None \<Longrightarrow> find_next_open (hid_specs p) (hid_pending p) = None \<Longrightarrow>
     inline_loop p out = Some (drain_visible_to_suffix_match p out
       (max_open_prefix_suffix_len (hid_specs p) (hid_pending p)))"
  by (subst inline_loop.simps, simp)+

lemma push_visible_prefix_append:
  "push_visible_prefix out s = chunk_append out \<lparr>visible_text = s, extracted = []\<rparr>"
  by (simp add: push_visible_prefix_def chunk_append_def)

lemma push_extracted_append:
  "push_extracted out a = chunk_append out
     \<lparr>visible_text = [], extracted = [\<lparr>ext_tag = act_tag a, ext_content = act_content a\<rparr>]\<rparr>"
  by (simp add: push_extracted_def chunk_append_def)

lemma drain_eq:
  "drain_visible_to_suffix_match p out keep =
     (let n = length (hid_pending p) - keep
      in (p\<lparr>hid_pending := drop n (hid_pending p)\<rparr>,
          chunk_append out \<lparr>visible_text = take n (hid_pending p), extracted = []\<rparr>))"
  by (simp add: drain_visible_to_suffix_match_def push_visible_prefix_append Let_def chunk_append_def)

lemma keep_close_suffix_eq:
  "hid_active p = Some a \<Longrightarrow> keep_close_suffix p a =
     (let n = length (hid_pending p) - longest_suffix_prefix_len (hid_pending p) (act_close a)
      in p\<lparr>hid_active := Some (a\<lparr>act_content := act_content a @ take n (hid_pending p)\<rparr>),
           hid_pending := drop n (hid_pending p)\<rparr>)"
  by (simp add: keep_close_suffix_def Let_def)

text \<open>The answer collected before an iteration only precedes what the rest of the loop adds.\<close>

lemma inline_loop_out:
  "inline_ok p \<Longrightarrow> inline_loop p (chunk_append o1 o2) =
     map_option (map_prod id (chunk_append o1)) (inline_loop p o2)"
proof (induction p arbitrary: o2 rule: inline_induct)
  case (close p a i)
  then show ?case by (simp add: inline_loop_simps push_extracted_append chunk_append_assoc)
next
  case (stay p a)
  then show ?case by (simp add: inline_loop_simps)
next
  case (tag_open p i idx)
  then show ?case by (simp add: inline_loop_simps push_visible_prefix_append chunk_append_assoc)
next
  case (drain p)
  then show ?case by (simp add: inline_loop_simps drain_eq Let_def chunk_append_assoc)
qed

lemma inline_loop_total:
  "inline_ok p \<Longrightarrow> \<exists>q out'. inline_loop p out = Some (q, out') \<and> inline_ok q"
proof (induction p arbitrary: out rule: inline_induct)
  case (stay p a)
  then show ?case by (simp add: inline_loop_simps keep_close_suffix_eq Let_def inline_ok_def)
next
  case (drain p)
  then show ?case by (simp add: inline_loop_simps drain_eq Let_def inline_ok_def)
qed (simp_all add: inline_loop_simps)

section \<open>Where a text is cut does not matter\<close>

lemma longest_suffix_prefix_len_drop:
  assumes "\<forall>j < n. \<not> undecided needle (drop j s)" "n \<le> length s"
  shows "longest_suffix_prefix_len (drop n s) needle = longest_suffix_prefix_len s needle"
proof (rule antisym)
  let ?k = "longest_suffix_prefix_len (drop n s) needle"
  have "?k \<le> min (length (drop n s)) (length needle - 1)"
    unfolding longest_suffix_prefix_len_def by (rule suffix_prefix_from_le)
  moreover have "suffix (take ?k needle) (drop n s)"
    unfolding longest_suffix_prefix_len_def by (rule suffix_prefix_from_suffix)
  then have "suffix (take ?k needle) s" using suffix_drop suffix_order.trans by blast
  ultimately show "?k \<le> longest_suffix_prefix_len s needle"
    unfolding longest_suffix_prefix_len_def [of s] by (intro suffix_prefix_from_ge) auto
next
  let ?k = "longest_suffix_prefix_len s needle"
  have k: "?k \<le> min (length s) (length needle - 1)"
    unfolding longest_suffix_prefix_len_def by (rule suffix_prefix_from_le)
  have "suffix (take ?k needle) s"
    unfolding longest_suffix_prefix_len_def by (rule suffix_prefix_from_suffix)
  then obtain r where r: "s = r @ take ?k needle" by (auto simp: suffix_def)
  have "?k \<le> length needle" using k by linarith
  then have len: "length (take ?k needle) = ?k" by simp
  have "drop (length r) s = take ?k needle" using r by (metis append_eq_conv_conj)
  then have "undecided needle (drop (length r) s)" by (simp add: undecided_def take_is_prefix)
  with assms(1) have "n \<le> length r" by (meson not_less)
  then have suf: "suffix (take ?k needle) (drop n s)" by (subst r) (simp add: suffix_def)
  then have "?k \<le> length (drop n s)" using len suffix_length_le by metis
  with suf k show "?k \<le> longest_suffix_prefix_len (drop n s) needle"
    unfolding longest_suffix_prefix_len_def [of "drop n s"] by (intro suffix_prefix_from_ge) auto
qed

lemma skip_in_tag:
  assumes "hid_active p = Some a" "\<forall>j < n. \<not> undecided (act_close a) (drop j (hid_pending p))"
    "n \<le> length (hid_pending p)"
  shows "inline_loop p out = inline_loop
    (p\<lparr>hid_active := Some (a\<lparr>act_content := act_content a @ take n (hid_pending p)\<rparr>),
       hid_pending := drop n (hid_pending p)\<rparr>) out" (is "_ = inline_loop ?q out")
proof -
  let ?s = "hid_pending p" and ?c = "act_close a"
  have f: "str_find ?c ?s = map_option ((+) n) (str_find ?c (drop n ?s))"
    using assms(2,3) by (intro str_find_drop) (auto simp: undecided_def)
  show ?thesis
  proof (cases "str_find ?c (drop n ?s)")
    case None
    have "longest_suffix_prefix_len (drop n ?s) ?c = longest_suffix_prefix_len ?s ?c"
      using assms(2,3) by (rule longest_suffix_prefix_len_drop)
    moreover have "longest_suffix_prefix_len (drop n ?s) ?c \<le> length ?s - n"
      using longest_suffix_prefix_len_le [of "drop n ?s" ?c] by simp
    ultimately have "keep_close_suffix ?q (a\<lparr>act_content := act_content a @ take n ?s\<rparr>)
        = keep_close_suffix p a"
      using assms(1,3)
      by (simp add: keep_close_suffix_eq Let_def take_add [symmetric] add.commute)
    with assms(1) None f show ?thesis by (simp add: inline_loop_simps)
  next
    case (Some i)
    have "close_tag ?q i (a\<lparr>act_content := act_content a @ take n ?s\<rparr>) = close_tag p (n + i) a"
      by (simp add: close_tag_def ac_simps)
    with assms(1) Some f show ?thesis by (simp add: inline_loop_simps take_add)
  qed
qed

lemma skip_visible:
  assumes "hid_active p = None"
    "\<forall>spec \<in> set (hid_specs p). \<forall>j < n. \<not> undecided (spec_open spec) (drop j (hid_pending p))"
    "n \<le> length (hid_pending p)"
  shows "inline_loop p out = inline_loop (p\<lparr>hid_pending := drop n (hid_pending p)\<rparr>)
     (chunk_append out \<lparr>visible_text = take n (hid_pending p), extracted = []\<rparr>)"
    (is "_ = inline_loop ?q _")
proof -
  let ?s = "hid_pending p" and ?S = "hid_specs p"
  have f: "find_next_open ?S ?s = map_option (map_prod ((+) n) id) (find_next_open ?S (drop n ?s))"
    using assms(2,3) by (intro find_next_open_drop) (auto simp: undecided_def)
  show ?thesis
  proof (cases "find_next_open ?S (drop n ?s)")
    case None
    have "longest_suffix_prefix_len (drop n ?s) (spec_open spec) = longest_suffix_prefix_len ?s (spec_open spec)"
      if "spec \<in> set ?S" for spec
      using assms(2,3) that by (intro longest_suffix_prefix_len_drop) auto
    then have keep: "max_open_prefix_suffix_len ?S (drop n ?s) = max_open_prefix_suffix_len ?S ?s"
      unfolding max_open_prefix_suffix_len_def by (metis (no_types, lifting) map_cong)
    have "max_open_prefix_suffix_len xs (drop n ?s) \<le> length ?s - n" for xs :: "'a InlineTagSpec list"
      unfolding max_open_prefix_suffix_len_def
      by (induction xs) (use longest_suffix_prefix_len_le [of "drop n ?s"] in auto)
    with keep have "max_open_prefix_suffix_len ?S ?s \<le> length ?s - n" by metis
    with assms(1,3) None f keep show ?thesis
      by (simp add: inline_loop_simps drain_eq Let_def chunk_append_def take_add [symmetric] add.commute)
  next
    case (Some r)
    obtain i idx where r: "r = (i, idx)" by (cases r)
    have "open_tag ?q i (?S ! idx) = open_tag p (n + i) (?S ! idx)"
      by (simp add: open_tag_def ac_simps)
    with assms(1) Some f r show ?thesis
      by (simp add: inline_loop_simps push_visible_prefix_append chunk_append_def take_add)
  qed
qed

lemma inline_loop_append:
  "inline_ok p \<Longrightarrow> inline_loop p out = Some (q, out') \<Longrightarrow>
     inline_loop (add_pending p b) out = inline_loop (add_pending q b) out'"
proof (induction p arbitrary: out rule: inline_induct)
  case (close p a i)
  have "i + length (act_close a) \<le> length (hid_pending p)" using str_find_Some [OF close(3)] by simp
  then have "i \<le> length (hid_pending p)" "close_tag (add_pending p b) i a = add_pending (close_tag p i a) b"
    "take i (hid_pending p @ b) = take i (hid_pending p)"
    by (simp_all add: close_tag_def add_pending_def)
  moreover have "str_find (act_close a) (hid_pending p @ b) = Some i"
    using close(3) by (rule str_find_append)
  ultimately show ?case using close by (simp add: inline_loop_simps add_pending_def)
next
  case (stay p a)
  let ?s = "hid_pending p"
  let ?n = "length ?s - longest_suffix_prefix_len ?s (act_close a)"
  have "\<not> undecided (act_close a) (drop j (?s @ b))" if "j < ?n" for j
    using dropped_decided [OF stay(3) that] undecided_append [of "act_close a" "drop j ?s"] that by auto
  then have "inline_loop (add_pending p b) out = inline_loop
    ((add_pending p b)\<lparr>hid_active := Some (a\<lparr>act_content := act_content a @ take ?n (?s @ b)\<rparr>),
       hid_pending := drop ?n (?s @ b)\<rparr>) out"
    using skip_in_tag [of "add_pending p b" a ?n] stay(2) by (simp add: add_pending_def)
  with stay show ?case
    by (simp add: inline_loop_simps keep_close_suffix_eq Let_def add_pending_def) (auto simp: add_pending_def)
next
  case (tag_open p i idx)
  note spec = inline_ok_open [OF tag_open(1,3)]
  have "i \<le> length (hid_pending p)" "open_tag (add_pending p b) i (hid_specs p ! idx) = add_pending (open_tag p i (hid_specs p ! idx)) b"
    "take i (hid_pending p @ b) = take i (hid_pending p)"
    using spec(4) by (simp_all add: open_tag_def add_pending_def)
  moreover have "find_next_open (hid_specs p) (hid_pending p @ b) = Some (i, idx)"
    using tag_open(1,3) by (intro find_next_open_append) (simp_all add: inline_ok_def specs_ok_def)
  ultimately show ?case using tag_open by (simp add: inline_loop_simps add_pending_def)
next
  case (drain p)
  let ?s = "hid_pending p"
  let ?n = "length ?s - max_open_prefix_suffix_len (hid_specs p) ?s"
  have le: "longest_suffix_prefix_len ?s (spec_open spec) \<le> max_open_prefix_suffix_len xs ?s"
    if "spec \<in> set xs" for spec and xs :: "'a InlineTagSpec list"
    using that unfolding max_open_prefix_suffix_len_def by (induction xs) auto
  have "\<not> undecided (spec_open spec) (drop j (?s @ b))" if "j < ?n" "spec \<in> set (hid_specs p)" for j spec
  proof -
    have "str_find (spec_open spec) ?s = None" using drain(3) that(2) by (simp add: find_next_open_None)
    moreover have "j < length ?s - longest_suffix_prefix_len ?s (spec_open spec)"
      using that(1) le [OF that(2)] by linarith
    ultimately have "\<not> undecided (spec_open spec) (drop j ?s)" by (rule dropped_decided)
    then show ?thesis using undecided_append [of "spec_open spec" "drop j ?s"] that(1) by auto
  qed
  then have "inline_loop (add_pending p b) out = inline_loop ((add_pending p b)\<lparr>hid_pending := drop ?n (?s @ b)\<rparr>)
     (chunk_append out \<lparr>visible_text = take ?n (?s @ b), extracted = []\<rparr>)"
    using skip_visible [of "add_pending p b" ?n] drain(2) by (simp add: add_pending_def)
  with drain show ?case
    by (simp add: inline_loop_simps drain_eq Let_def add_pending_def) (auto simp: add_pending_def)
qed

text \<open>A parser between two pushes holds back exactly what it must: its loop does nothing more.\<close>

definition inline_inv :: "'t InlineHiddenTagParser \<Rightarrow> bool" where
  "inline_inv p \<longleftrightarrow> inline_ok p \<and> inline_loop p default_chunk = Some (p, default_chunk)"

lemma inline_push_str_pending: "inline_push_str p c = inline_loop (add_pending p c) default_chunk"
  by (simp add: inline_push_str_def add_pending_def)

lemma inline_ok_add_pending [simp]: "inline_ok (add_pending p s) = inline_ok p"
  by (simp add: inline_ok_def add_pending_def)

lemma add_pending_simps [simp]:
  "add_pending p [] = p"
  "add_pending (add_pending p a) b = add_pending p (a @ b)"
  by (simp_all add: add_pending_def)

lemma inline_loop_append_default:
  assumes "inline_ok p" "inline_loop p default_chunk = Some (q, out)"
  shows "inline_loop (add_pending p b) default_chunk =
    map_option (map_prod id (chunk_append out)) (inline_loop (add_pending q b) default_chunk)"
proof -
  have "inline_ok q" using inline_loop_total [OF assms(1), of default_chunk] assms(2) by auto
  then show ?thesis
    using inline_loop_append [OF assms, of b] inline_loop_out [of "add_pending q b" out default_chunk]
    by simp
qed

lemma inline_loop_settles:
  assumes "inline_ok p" "inline_loop p default_chunk = Some (q, out)"
  shows "inline_inv q"
proof -
  have q: "inline_ok q" using inline_loop_total [OF assms(1), of default_chunk] assms(2) by auto
  obtain q' out' where again: "inline_loop q default_chunk = Some (q', out')"
    using inline_loop_total [OF q] by blast
  then have "q' = q" "chunk_append out out' = out"
    using inline_loop_append_default [OF assms, of "[]"] assms(2) by simp_all
  then have "out' = default_chunk" using chunk_append_cancel by blast
  with q again \<open>q' = q\<close> show ?thesis by (simp add: inline_inv_def)
qed

interpretation inline_parser: stream_text_parser inline_push_str inline_inv chunk_append
proof unfold_locales
  fix p :: "'t InlineHiddenTagParser" and a b c
  assume inv: "inline_inv p"
  then have ok: "inline_ok (add_pending p s)" for s by (simp add: inline_inv_def)
  then obtain q out where push: "inline_push_str p s = Some (q s, out s)" for s
    using inline_loop_total [OF ok, of _ default_chunk] unfolding inline_push_str_pending by metis
  show "\<exists>s' out. inline_push_str p c = Some (s', out) \<and> inline_inv s'"
    using push inline_loop_settles [OF ok] unfolding inline_push_str_pending by blast
  show "inline_push_str p [] = Some (p, default_chunk)"
    using inv by (simp add: inline_push_str_pending inline_inv_def)
  show "inline_push_str p (a @ b) = Option.bind (inline_push_str p a)
      (\<lambda>(s1, out). map_option (map_prod id (chunk_append out)) (inline_push_str s1 b))"
    using push [of a] inline_loop_append_default [OF ok, of a "q a" "out a" b]
    unfolding inline_push_str_pending by simp
qed

section \<open>What the parser extracts\<close>

text \<open>
  The contract, on a complete text: no delimiter opens in what is left visible before the
  next tag, a tag ends at the first closing delimiter after it, and a tag that is not
  closed takes the rest of the text.
\<close>

inductive tagged_text ::
  "'t InlineTagSpec list \<Rightarrow> rstr \<Rightarrow> rstr \<Rightarrow> 't ExtractedInlineTag list \<Rightarrow> bool"
  for specs :: "'t InlineTagSpec list"
where
  plain: "\<forall>spec \<in> set specs. \<not> contains (spec_open spec) s \<Longrightarrow> tagged_text specs s s []"
| closed: "\<lbrakk>find_next_open specs (v @ spec_open spec @ r) = Some (length v, idx); spec = specs ! idx;
     r = body @ spec_close spec @ rest; str_find (spec_close spec) r = Some (length body);
     tagged_text specs rest v' es\<rbrakk>
   \<Longrightarrow> tagged_text specs (v @ spec_open spec @ r) (v @ v')
         (\<lparr>ext_tag = spec_tag spec, ext_content = body\<rparr> # es)"
| unclosed: "\<lbrakk>find_next_open specs (v @ spec_open spec @ body) = Some (length v, idx); spec = specs ! idx;
     \<not> contains (spec_close spec) body\<rbrakk>
   \<Longrightarrow> tagged_text specs (v @ spec_open spec @ body) v
         [\<lparr>ext_tag = spec_tag spec, ext_content = body\<rparr>]"

definition whole_parse ::
  "'t InlineHiddenTagParser \<Rightarrow> ('t InlineHiddenTagParser \<times> 't inline_chunk) option" where
  "whole_parse p =
     map_option (\<lambda>(q, out). map_prod id (chunk_append out) (inline_finish q)) (inline_loop p default_chunk)"

text \<open>\<open>parsed p v es\<close>: what is still to come from a parser that holds text back.\<close>

definition parsed :: "'t InlineHiddenTagParser \<Rightarrow> rstr \<Rightarrow> 't ExtractedInlineTag list \<Rightarrow> bool" where
  "parsed p v es =
     (case hid_active p of
        None \<Rightarrow> tagged_text (hid_specs p) (hid_pending p) v es
      | Some a \<Rightarrow>
          (\<exists>body rest es'. hid_pending p = body @ act_close a @ rest
             \<and> str_find (act_close a) (hid_pending p) = Some (length body)
             \<and> es = \<lparr>ext_tag = act_tag a, ext_content = act_content a @ body\<rparr> # es'
             \<and> tagged_text (hid_specs p) rest v es')
          \<or> (\<not> contains (act_close a) (hid_pending p) \<and> v = []
             \<and> es = [\<lparr>ext_tag = act_tag a, ext_content = act_content a @ hid_pending p\<rparr>]))"

lemma str_find_split: "str_find n s = Some i \<Longrightarrow> s = take i s @ n @ drop (i + length n) s"
  using str_find_Some [of n s i] by (metis append_take_drop_id drop_drop add.commute)

lemma whole_parse_tagged:
  "inline_ok p \<Longrightarrow> \<exists>q v es. whole_parse p = Some (q, \<lparr>visible_text = v, extracted = es\<rparr>) \<and> parsed p v es"
proof (induction p rule: inline_induct)
  case (close p a i)
  then obtain q v es where IH: "whole_parse (close_tag p i a) = Some (q, \<lparr>visible_text = v, extracted = es\<rparr>)"
    "parsed (close_tag p i a) v es" by blast
  let ?e = "\<lparr>ext_tag = act_tag a, ext_content = act_content a @ take i (hid_pending p)\<rparr>"
  let ?o = "push_extracted default_chunk (a\<lparr>act_content := act_content a @ take i (hid_pending p)\<rparr>)"
  have "inline_loop p default_chunk = map_option (map_prod id (chunk_append ?o)) (inline_loop (close_tag p i a) default_chunk)"
    using close(2,3) inline_loop_out [OF inline_ok_close [OF close(1)], of i a ?o default_chunk]
    by (simp add: inline_loop_simps)
  then have "whole_parse p = Some (q, chunk_append ?o \<lparr>visible_text = v, extracted = es\<rparr>)"
    using IH(1) unfolding whole_parse_def
    by (auto simp: option.map_comp comp_def map_prod_def split_beta chunk_append_assoc)
  then have "whole_parse p = Some (q, \<lparr>visible_text = v, extracted = ?e # es\<rparr>)"
    by (simp add: push_extracted_def chunk_append_def)
  moreover have "parsed p v (?e # es)"
    using IH(2) close(2,3) str_find_split [OF close(3)] str_find_Some [OF close(3)]
    unfolding parsed_def by (fastforce simp: close_tag_def)
  ultimately show ?case by blast
next
  case (stay p a)
  let ?e = "\<lparr>ext_tag = act_tag a, ext_content = act_content a @ hid_pending p\<rparr>"
  have "whole_parse p = Some (p\<lparr>hid_active := None, hid_pending := []\<rparr>, \<lparr>visible_text = [], extracted = [?e]\<rparr>)"
    using stay by (simp add: whole_parse_def inline_loop_simps keep_close_suffix_eq Let_def
        inline_finish_def push_extracted_def default_chunk_def)
  with stay show ?case by (auto simp: parsed_def contains_def)
next
  case (tag_open p i idx)
  note spec = inline_ok_open [OF tag_open(1,3)]
  let ?s = "hid_specs p ! idx"
  let ?o = "push_visible_prefix default_chunk (take i (hid_pending p))"
  obtain q v es where IH: "whole_parse (open_tag p i ?s) = Some (q, \<lparr>visible_text = v, extracted = es\<rparr>)"
    "parsed (open_tag p i ?s) v es" using tag_open(4) by blast
  have "inline_loop p default_chunk = map_option (map_prod id (chunk_append ?o)) (inline_loop (open_tag p i ?s) default_chunk)"
    using tag_open(2,3) inline_loop_out [OF spec(5), of ?o default_chunk]
    by (simp add: inline_loop_simps)
  then have "whole_parse p = Some (q, chunk_append ?o \<lparr>visible_text = v, extracted = es\<rparr>)"
    using IH(1) unfolding whole_parse_def
    by (auto simp: option.map_comp comp_def map_prod_def split_beta chunk_append_assoc)
  then have "whole_parse p = Some (q, \<lparr>visible_text = take i (hid_pending p) @ v, extracted = es\<rparr>)"
    by (simp add: push_visible_prefix_append chunk_append_def)
  moreover have "parsed p (take i (hid_pending p) @ v) es"
  proof -
    let ?v = "take i (hid_pending p)" and ?r = "drop (i + length (spec_open ?s)) (hid_pending p)"
    have "str_find (spec_open ?s) (hid_pending p) = Some i" using tag_open(3) by (simp add: find_next_open_Some)
    then have split: "hid_pending p = ?v @ spec_open ?s @ ?r" and i: "length ?v = i"
      using str_find_split spec(4) by fastforce+
    then have f: "find_next_open (hid_specs p) (?v @ spec_open ?s @ ?r) = Some (length ?v, idx)"
      using tag_open(3) by metis
    from IH(2) consider
      (closed) body rest es' where "?r = body @ spec_close ?s @ rest"
        "str_find (spec_close ?s) ?r = Some (length body)"
        "es = \<lparr>ext_tag = spec_tag ?s, ext_content = body\<rparr> # es'" "tagged_text (hid_specs p) rest v es'"
      | (unclosed) "\<not> contains (spec_close ?s) ?r" "v = []"
        "es = [\<lparr>ext_tag = spec_tag ?s, ext_content = ?r\<rparr>]"
      unfolding parsed_def open_tag_def by auto
    then have "tagged_text (hid_specs p) (?v @ spec_open ?s @ ?r) (?v @ v) es"
    proof cases
      case closed
      from tagged_text.closed [OF f refl closed(1,2,4)] closed(3) show ?thesis by simp
    next
      case unclosed
      from tagged_text.unclosed [OF f refl unclosed(1)] unclosed(2,3) show ?thesis by simp
    qed
    with split tag_open(2) show ?thesis by (simp add: parsed_def)
  qed
  ultimately show ?case by blast
next
  case (drain p)
  let ?n = "length (hid_pending p) - max_open_prefix_suffix_len (hid_specs p) (hid_pending p)"
  have "whole_parse p = Some (p\<lparr>hid_pending := []\<rparr>, \<lparr>visible_text = hid_pending p, extracted = []\<rparr>)"
    using drain by (simp add: whole_parse_def inline_loop_simps drain_eq Let_def inline_finish_def
        chunk_append_def default_chunk_def)
  moreover have "parsed p (hid_pending p) []"
    using drain(2,3) by (auto simp: parsed_def find_next_open_None contains_def intro: tagged_text.plain)
  ultimately show ?case by blast
qed

lemma whole_parse_new:
  assumes "inline_parser_new specs = Some p" "no_nested_open specs"
  shows "inline_inv p"
    "run_chunks inline_push_str inline_finish chunk_append p cs = whole_parse (add_pending p (concat cs))"
proof -
  have p: "p = \<lparr>hid_specs = specs, hid_pending = [], hid_active = None\<rparr>"
    "list_all (\<lambda>spec. spec_open spec \<noteq> [] \<and> spec_close spec \<noteq> []) specs"
    using assms(1) by (auto simp: inline_parser_new_def list_all_iff list_ex_iff split: if_splits)
  with assms(2) have ok: "inline_ok p" by (simp add: inline_ok_def specs_ok_def)
  have "find_next_open specs [] = None"
    using p(2) by (auto simp: find_next_open_None list_all_iff)
  then have "inline_loop p default_chunk = Some (p, default_chunk)"
    using p(1) by (simp add: inline_loop_simps drain_eq chunk_append_def default_chunk_def)
  with ok show inv: "inline_inv p" by (simp add: inline_inv_def)
  show "run_chunks inline_push_str inline_finish chunk_append p cs = whole_parse (add_pending p (concat cs))"
    by (simp add: inline_parser.run_chunks_concat [OF inv] whole_parse_def inline_push_str_pending)
qed

inductive_cases tagged_textE: "tagged_text specs s v es"

lemma find_next_open_contains:
  assumes "find_next_open specs s = Some (i, idx)"
  shows "\<not> (\<forall>spec \<in> set specs. \<not> contains (spec_open spec) s)"
proof -
  have "find_next_open specs s \<noteq> None" using assms by simp
  then show ?thesis unfolding find_next_open_None contains_def by auto
qed

lemma opened_unique:
  assumes "find_next_open specs (v @ spec_open (specs ! i) @ r) = Some (length v, i)"
    "find_next_open specs (w @ spec_open (specs ! j) @ t) = Some (length w, j)"
    "v @ spec_open (specs ! i) @ r = w @ spec_open (specs ! j) @ t"
  shows "i = j" "v = w" "r = t"
proof -
  have "Some (length v, i) = Some (length w, j)" using assms by metis
  then have "i = j" and "length v = length w" by simp_all
  with assms(3) show "i = j" "v = w" "r = t" by simp_all
qed

lemma closed_unique:
  assumes "str_find c (b @ c @ t) = Some (length b)" "str_find c (b' @ c @ t') = Some (length b')"
    "b @ c @ t = b' @ c @ t'"
  shows "b = b'" "t = t'"
proof -
  have "Some (length b) = Some (length b')" using assms by metis
  with assms(3) show "b = b'" "t = t'" by simp_all
qed

lemma tagged_text_unique:
  "tagged_text specs s v es \<Longrightarrow> tagged_text specs s w fs \<Longrightarrow> v = w \<and> es = fs"
proof (induction s v es arbitrary: w fs rule: tagged_text.induct)
  case (plain s)
  from plain.prems show ?case
    by cases (use plain.hyps find_next_open_contains in blast)+
next
  case (closed v spec r idx body rest v' es)
  note find = closed.hyps(1) [unfolded closed.hyps(2)]
  from closed.prems show ?case
  proof cases
    case plain
    then show ?thesis using find_next_open_contains [OF closed.hyps(1)] by blast
  next
    case (closed v2 spec2 r2 idx2 body2 rest2 v2' es2)
    note same = opened_unique [OF find closed(4) [unfolded closed(5)]
        closed(1) [unfolded closed(5) \<open>spec = specs ! idx\<close>]]
    then have spec: "spec2 = spec" using closed(5) \<open>spec = specs ! idx\<close> by simp
    have "str_find (spec_close spec) (body2 @ spec_close spec @ rest2) = Some (length body2)"
      "body @ spec_close spec @ rest = body2 @ spec_close spec @ rest2"
      using closed(6,7) same(3) spec closed.hyps(3) by metis+
    note this' = closed_unique [OF closed.hyps(4) [unfolded closed.hyps(3)] this]
    have "v' = v2' \<and> es = es2" using closed.IH closed(8) this'(2) by metis
    with closed(2,3) same(2) spec this'(1) show ?thesis by simp
  next
    case (unclosed spec2 body2 idx2)
    note same = opened_unique [OF find unclosed(3) [unfolded unclosed(4)]
        unclosed(1) [unfolded unclosed(4) \<open>spec = specs ! idx\<close>]]
    then have "\<not> contains (spec_close spec) r" using unclosed(4,5) \<open>spec = specs ! idx\<close> by metis
    then show ?thesis using closed.hyps(4) by (simp add: contains_def)
  qed
next
  case (unclosed v spec body idx)
  note find = unclosed.hyps(1) [unfolded unclosed.hyps(2)]
  from unclosed.prems show ?case
  proof cases
    case plain
    then show ?thesis using find_next_open_contains [OF unclosed.hyps(1)] by blast
  next
    case (closed v2 spec2 r2 idx2 body2 rest2 v2' es2)
    note same = opened_unique [OF find closed(4) [unfolded closed(5)]
        closed(1) [unfolded closed(5) \<open>spec = specs ! idx\<close>]]
    then have "str_find (spec_close spec) body = Some (length body2)"
      using closed(5,7) \<open>spec = specs ! idx\<close> by metis
    then show ?thesis using unclosed.hyps(3) by (simp add: contains_def)
  next
    case (unclosed spec2 body2 idx2)
    note same = opened_unique [OF find unclosed(3) [unfolded unclosed(4)]
        unclosed(1) [unfolded unclosed(4) \<open>spec = specs ! idx\<close>]]
    with unclosed(2,4) \<open>spec = specs ! idx\<close> show ?thesis by simp
  qed
qed

lemma hidden_tags_run:
  assumes "inline_parser_new specs = Some p" "no_nested_open specs"
  shows "\<exists>q v es. run_chunks inline_push_str inline_finish chunk_append p cs
             = Some (q, \<lparr>visible_text = v, extracted = es\<rparr>)
           \<and> tagged_text specs (concat cs) v es"
proof -
  have p: "hid_specs p = specs" "hid_pending p = []" "hid_active p = None"
    using assms(1) by (auto simp: inline_parser_new_def split: if_splits)
  have "inline_ok (add_pending p (concat cs))"
    using whole_parse_new(1) [OF assms] by (simp add: inline_inv_def)
  from whole_parse_tagged [OF this] p show ?thesis
    by (simp add: whole_parse_new(2) [OF assms] parsed_def add_pending_def)
qed

text \<open>C26: a parser made by \<open>InlineHiddenTagParser::new\<close> for delimiters none of which is part of
  another, fed a text in any pieces and flushed, returns (its loop ends), and its answers
  together are the one reading of the whole text: the text without the tags, and the
  contents of the tags in their order.\<close>

theorem hidden_tags_any_cut:
  assumes "inline_parser_new specs = Some p" "no_nested_open specs"
  shows "\<exists>q v es. run_chunks inline_push_str inline_finish chunk_append p cs
             = Some (q, \<lparr>visible_text = v, extracted = es\<rparr>)
           \<and> tagged_text specs (concat cs) v es
           \<and> (\<forall>v' es'. tagged_text specs (concat cs) v' es' \<longrightarrow> v' = v \<and> es' = es)"
  using hidden_tags_run [OF assms, of cs] tagged_text_unique by blast

section \<open>Memory citations\<close>

datatype CitationTag = Citation

type_synonym CitationStreamParser = "CitationTag InlineHiddenTagParser"

definition CITATION_OPEN :: rstr where
  "CITATION_OPEN = lit ''<oai-mem-citation>''"

definition CITATION_CLOSE :: rstr where
  "CITATION_CLOSE = lit ''</oai-mem-citation>''"

definition citation_specs :: "CitationTag InlineTagSpec list" where
  "citation_specs = [\<lparr>spec_tag = Citation, spec_open = CITATION_OPEN, spec_close = CITATION_CLOSE\<rparr>]"

definition citation_parser_new :: "CitationStreamParser option" where
  "citation_parser_new = inline_parser_new citation_specs"

definition citation_chunk :: "CitationTag inline_chunk \<Rightarrow> rstr StreamTextChunk" where
  "citation_chunk inner =
     \<lparr>visible_text = visible_text inner, extracted = map ext_content (extracted inner)\<rparr>"

definition citation_push_str :: "CitationStreamParser \<Rightarrow> rstr \<Rightarrow> (CitationStreamParser \<times> rstr StreamTextChunk) option" where
  "citation_push_str p chunk = map_option (map_prod id citation_chunk) (inline_push_str p chunk)"

definition citation_finish :: "CitationStreamParser \<Rightarrow> CitationStreamParser \<times> rstr StreamTextChunk" where
  "citation_finish p = map_prod id citation_chunk (inline_finish p)"

definition strip_citations :: "rstr \<Rightarrow> (rstr \<times> rstr list) option" where
  "strip_citations text =
     Option.bind citation_parser_new (\<lambda>p.
     Option.bind (citation_push_str p text) (\<lambda>(q, out).
     let tail = snd (citation_finish q)
     in Some (visible_text out @ visible_text tail, extracted out @ extracted tail)))"

lemma citation_chunk_simps [simp]:
  "citation_chunk default_chunk = default_chunk"
  "citation_chunk (chunk_append a b) = chunk_append (citation_chunk a) (citation_chunk b)"
  "visible_text (citation_chunk a) = visible_text a"
  "extracted (citation_chunk a) = map ext_content (extracted a)"
  by (simp_all add: citation_chunk_def chunk_append_def default_chunk_def)

interpretation citation_parser: stream_text_parser citation_push_str inline_inv chunk_append
proof unfold_locales
  fix p :: CitationStreamParser and a b c
  assume inv: "inline_inv p"
  show "\<exists>s' out. citation_push_str p c = Some (s', out) \<and> inline_inv s'"
    using inline_parser.push_total [OF inv, of c] by (auto simp: citation_push_str_def)
  show "citation_push_str p [] = Some (p, default_chunk)"
    using inline_parser.push_Nil [OF inv] by (simp add: citation_push_str_def)
  obtain q o1 where q: "inline_push_str p a = Some (q, o1)" "inline_inv q"
    using inline_parser.push_total [OF inv] by blast
  obtain q' o2 where q': "inline_push_str q b = Some (q', o2)"
    using inline_parser.push_total [OF q(2)] by blast
  show "citation_push_str p (a @ b) = Option.bind (citation_push_str p a)
      (\<lambda>(s1, out). map_option (map_prod id (chunk_append out)) (citation_push_str s1 b))"
    using inline_parser.push_append [OF inv, of a b] q q' by (simp add: citation_push_str_def)
qed

text \<open>The two delimiters share a text, but neither is part of the other.\<close>

lemma citation_parser_some:
  "citation_parser_new = Some \<lparr>hid_specs = citation_specs, hid_pending = [], hid_active = None\<rparr>"
  by (simp add: citation_parser_new_def inline_parser_new_def citation_specs_def CITATION_OPEN_def
      CITATION_CLOSE_def lit_def)

lemma citation_specs_ok: "no_nested_open citation_specs"
  by (simp add: no_nested_open_def citation_specs_def)

theorem hidden_tags_any_cut_witness:
  "\<exists>q v es. run_chunks inline_push_str inline_finish chunk_append
        \<lparr>hid_specs = citation_specs, hid_pending = [], hid_active = None\<rparr>
        [lit ''see <oai-mem'', lit ''-citation>doc</oai'', lit ''-mem-citation>!'']
      = Some (q, \<lparr>visible_text = v, extracted = es\<rparr>)
    \<and> tagged_text citation_specs (lit ''see <oai-mem-citation>doc</oai-mem-citation>!'') v es"
  using hidden_tags_any_cut [OF citation_parser_some [unfolded citation_parser_new_def] citation_specs_ok,
      of "[lit ''see <oai-mem'', lit ''-citation>doc</oai'', lit ''-mem-citation>!'']"]
  by (simp add: lit_def) blast

end
