(* ===== verification/Tagged_Line.thy ===== *)
theory Tagged_Line
  imports Stream_Utf8 "HOL-Library.Sublist"
begin

text \<open>
  The line-based tag parser (\<open>utils/stream-parser/src/tagged_line_parser.rs\<close>) and the
  proposed-plan parser over it (\<open>proposed_plan.rs\<close>). The parser works character by
  character and holds a line back for as long as it can still be a tag line; the reference
  it is compared with reads the text line by line.
\<close>

section \<open>The parser\<close>

record 't TagSpec =
  tl_open :: rstr
  tl_close :: rstr
  tl_tag :: 't

datatype 't TaggedLineSegment =
    Normal rstr
  | TagStart 't
  | TagDelta 't rstr
  | TagEnd 't

record 't TaggedLineParser =
  tl_specs :: "'t TagSpec list"
  tl_active :: "'t option"
  tl_detect :: bool
  tl_buffer :: rstr

definition tagged_line_parser_new :: "'t TagSpec list \<Rightarrow> 't TaggedLineParser" where
  "tagged_line_parser_new specs =
     \<lparr>tl_specs = specs, tl_active = None, tl_detect = True, tl_buffer = []\<rparr>"

fun push_segment :: "'t TaggedLineSegment list \<Rightarrow> 't TaggedLineSegment \<Rightarrow> 't TaggedLineSegment list" where
  "push_segment segments (Normal delta) =
     (if delta = [] then segments
      else case list_last segments of
             Some (Normal existing) \<Rightarrow> butlast segments @ [Normal (existing @ delta)]
           | _ \<Rightarrow> segments @ [Normal delta])"
| "push_segment segments (TagDelta tag delta) =
     (if delta = [] then segments
      else case list_last segments of
             Some (TagDelta existing_tag existing) \<Rightarrow>
               if existing_tag = tag then butlast segments @ [TagDelta existing_tag (existing @ delta)]
               else segments @ [TagDelta tag delta]
           | _ \<Rightarrow> segments @ [TagDelta tag delta])"
| "push_segment segments (TagStart tag) = segments @ [TagStart tag]"
| "push_segment segments (TagEnd tag) = segments @ [TagEnd tag]"

definition text_segment :: "'t option \<Rightarrow> rstr \<Rightarrow> 't TaggedLineSegment" where
  "text_segment active s = (case active of Some tag \<Rightarrow> TagDelta tag s | None \<Rightarrow> Normal s)"

definition push_text ::
  "'t TaggedLineParser \<Rightarrow> rstr \<Rightarrow> 't TaggedLineSegment list \<Rightarrow> 't TaggedLineSegment list" where
  "push_text p s segments = push_segment segments (text_segment (tl_active p) s)"

definition is_tag_prefix :: "'t TaggedLineParser \<Rightarrow> rstr \<Rightarrow> bool" where
  "is_tag_prefix p slug =
     list_ex (\<lambda>spec. starts_with (trim_end slug) (tl_open spec) \<or> starts_with (trim_end slug) (tl_close spec))
       (tl_specs p)"

definition match_open :: "'t TagSpec list \<Rightarrow> rstr \<Rightarrow> 't option" where
  "match_open specs slug = map_option tl_tag (find (\<lambda>spec. tl_open spec = slug) specs)"

definition match_close :: "'t TagSpec list \<Rightarrow> rstr \<Rightarrow> 't option" where
  "match_close specs slug = map_option tl_tag (find (\<lambda>spec. tl_close spec = slug) specs)"

definition line_slug :: "rstr \<Rightarrow> rstr" where
  "line_slug line =
     trim_end (trim_start (case strip_suffix [nl] line of Some l \<Rightarrow> l | None \<Rightarrow> line))"

definition finish_line ::
  "'t TaggedLineParser \<Rightarrow> 't TaggedLineSegment list \<Rightarrow> 't TaggedLineParser \<times> 't TaggedLineSegment list" where
  "finish_line p0 segments =
     (let line = tl_buffer p0; p = p0\<lparr>tl_buffer := []\<rparr>; slug = line_slug line;
          opened = match_open (tl_specs p) slug; closed = match_close (tl_specs p) slug
      in if opened \<noteq> None \<and> tl_active p = None then
           (p\<lparr>tl_active := opened, tl_detect := True\<rparr>, push_segment segments (TagStart (the opened)))
         else if closed \<noteq> None \<and> tl_active p = closed then
           (p\<lparr>tl_active := None, tl_detect := True\<rparr>, push_segment segments (TagEnd (the closed)))
         else (p\<lparr>tl_detect := True\<rparr>, push_text p line segments))"

text \<open>One iteration of \<open>parse\<close>: the parser, the run of text not yet pushed, the segments.\<close>

fun parse_char ::
  "'t TaggedLineParser \<times> rstr \<times> 't TaggedLineSegment list \<Rightarrow> uchar
   \<Rightarrow> 't TaggedLineParser \<times> rstr \<times> 't TaggedLineSegment list" where
  "parse_char (p, run, segments) ch =
     (if tl_detect p then
        let segments = (if run \<noteq> [] then push_text p run segments else segments);
            p = p\<lparr>tl_buffer := tl_buffer p @ [ch]\<rparr>
        in if ch = nl then (let (p', segs) = finish_line p segments in (p', [], segs))
           else let slug = trim_start (tl_buffer p)
             in if slug = [] \<or> is_tag_prefix p slug then (p, [], segments)
                else let buffered = tl_buffer p; p = p\<lparr>tl_buffer := [], tl_detect := False\<rparr>
                  in (p, [], push_text p buffered segments)
      else if ch = nl then (p\<lparr>tl_detect := True\<rparr>, [], push_text p (run @ [ch]) segments)
      else (p, run @ [ch], segments))"

definition tagged_parse ::
  "'t TaggedLineParser \<Rightarrow> rstr \<Rightarrow> 't TaggedLineParser \<times> 't TaggedLineSegment list" where
  "tagged_parse p delta =
     (let (p', run, segments) = foldl parse_char (p, [], []) delta
      in (p', if run \<noteq> [] then push_text p' run segments else segments))"

definition tagged_finish ::
  "'t TaggedLineParser \<Rightarrow> 't TaggedLineParser \<times> 't TaggedLineSegment list" where
  "tagged_finish p0 =
     (let (p1, segments) =
        (if tl_buffer p0 \<noteq> [] then
           let buffered = tl_buffer p0; p = p0\<lparr>tl_buffer := []\<rparr>; slug = line_slug buffered;
               opened = match_open (tl_specs p) slug; closed = match_close (tl_specs p) slug
           in if opened \<noteq> None \<and> tl_active p = None then
                (p\<lparr>tl_active := opened\<rparr>, push_segment [] (TagStart (the opened)))
              else if closed \<noteq> None \<and> tl_active p = closed then
                (p\<lparr>tl_active := None\<rparr>, push_segment [] (TagEnd (the closed)))
              else (p, push_text p buffered [])
         else (p0, []));
        segments = (case tl_active p1 of Some tag \<Rightarrow> push_segment segments (TagEnd tag)
                    | None \<Rightarrow> segments)
      in (p1\<lparr>tl_active := None, tl_detect := True\<rparr>, segments))"

section \<open>Segments up to the cuts in their text\<close>

text \<open>
  The segments of two answers are joined as the parser joins them within one answer: the
  text of neighbouring segments of one kind is one segment. Segment lists are compared by
  what they add to any list.
\<close>

definition merge_segments ::
  "'t TaggedLineSegment list \<Rightarrow> 't TaggedLineSegment list \<Rightarrow> 't TaggedLineSegment list" where
  "merge_segments xs ys = foldl push_segment xs ys"

definition same_segments :: "'t TaggedLineSegment list \<Rightarrow> 't TaggedLineSegment list \<Rightarrow> bool" where
  "same_segments xs ys \<longleftrightarrow> (\<forall>segs. merge_segments segs xs = merge_segments segs ys)"

lemma merge_segments_simps [simp]:
  "merge_segments xs [] = xs"
  "merge_segments xs (y # ys) = merge_segments (push_segment xs y) ys"
  "merge_segments xs (ys @ zs) = merge_segments (merge_segments xs ys) zs"
  by (simp_all add: merge_segments_def)

lemma push_segment_join:
  "push_segment (push_segment segs (Normal a)) (Normal b) = push_segment segs (Normal (a @ b))"
  "push_segment (push_segment segs (TagDelta t a)) (TagDelta t b) = push_segment segs (TagDelta t (a @ b))"
proof -
  show "push_segment (push_segment segs (Normal a)) (Normal b) = push_segment segs (Normal (a @ b))"
  proof (cases segs rule: rev_cases)
    case (snoc ys y)
    then show ?thesis by (cases y) (simp_all add: list_last_def butlast_append)
  qed (simp add: list_last_def)
  show "push_segment (push_segment segs (TagDelta t a)) (TagDelta t b) = push_segment segs (TagDelta t (a @ b))"
  proof (cases segs rule: rev_cases)
    case (snoc ys y)
    then show ?thesis by (cases y) (simp_all add: list_last_def butlast_append)
  qed (simp add: list_last_def)
qed

lemma push_segment_snoc: "push_segment (ys @ [y]) z = ys @ push_segment [y] z"
  by (cases z; cases y) (simp_all add: list_last_def)

lemma push_segment_single:
  "push_segment [y] z = [y, z]
   \<or> push_segment [y] z = [y] \<and> (z = Normal [] \<or> (\<exists>t. z = TagDelta t []))
   \<or> (\<exists>a b. y = Normal a \<and> z = Normal b \<and> push_segment [y] z = [Normal (a @ b)])
   \<or> (\<exists>t a b. y = TagDelta t a \<and> z = TagDelta t b \<and> push_segment [y] z = [TagDelta t (a @ b)])"
  by (cases z; cases y) (simp_all add: list_last_def)

lemma push_segment_empty [simp]:
  "push_segment segs (Normal []) = segs" "push_segment segs (TagDelta t []) = segs"
  by simp_all

lemma push_text_join: "push_segment (push_segment segs (text_segment a s)) (text_segment a t)
    = push_segment segs (text_segment a (s @ t))"
  unfolding text_segment_def by (cases a) (simp_all only: option.simps push_segment_join)

lemma push_text_empty [simp]: "push_segment segs (text_segment a []) = segs"
  by (cases a) (simp_all add: text_segment_def)

lemma merge_push_segment:
  "merge_segments xs (push_segment ys z) = push_segment (merge_segments xs ys) z"
proof (cases ys rule: rev_cases)
  case Nil
  then show ?thesis by (cases z) auto
next
  case (snoc ys' y)
  have "merge_segments zs (push_segment [y] z) = push_segment (push_segment zs y) z" for zs
    using push_segment_single [of y z]
    by (elim disjE exE conjE) (simp_all only: merge_segments_simps push_segment_join push_segment_empty)
  then show ?thesis unfolding snoc push_segment_snoc by simp
qed

lemma merge_segments_assoc:
  "merge_segments xs (merge_segments ys zs) = merge_segments (merge_segments xs ys) zs"
  by (induction zs rule: rev_induct) (simp_all add: merge_push_segment)

lemma same_segments_refl [simp]: "same_segments xs xs"
  by (simp add: same_segments_def)

lemma same_segments_append:
  "same_segments xs ys \<Longrightarrow> same_segments us vs \<Longrightarrow> same_segments (xs @ us) (ys @ vs)"
  by (simp add: same_segments_def)

lemma same_segments_text: "same_segments [text_segment a s, text_segment a t] [text_segment a (s @ t)]"
  by (simp add: same_segments_def push_text_join)

lemma same_segments_snoc:
  "same_segments r [text_segment a s] \<Longrightarrow> same_segments (r @ [text_segment a t]) [text_segment a (s @ t)]"
  by (simp add: same_segments_def push_text_join)

lemma same_segments_trans: "same_segments xs ys \<Longrightarrow> same_segments ys zs \<Longrightarrow> same_segments xs zs"
  by (simp add: same_segments_def)

section \<open>The segments a character adds\<close>

text \<open>
  The same parser with the run of text pushed at once and the segments listed one by one,
  before neighbours are joined.
\<close>

definition line_segments :: "'t TagSpec list \<Rightarrow> 't option \<Rightarrow> rstr \<Rightarrow> 't TaggedLineSegment list \<times> 't option" where
  "line_segments specs active line =
     (let slug = line_slug line;
          opened = match_open specs slug; closed = match_close specs slug
      in if opened \<noteq> None \<and> active = None then ([TagStart (the opened)], opened)
         else if closed \<noteq> None \<and> active = closed then ([TagEnd (the closed)], None)
         else ([text_segment active line], active))"

definition raw_char ::
  "'t TaggedLineParser \<Rightarrow> uchar \<Rightarrow> 't TaggedLineParser \<times> 't TaggedLineSegment list" where
  "raw_char p ch =
     (if tl_detect p then
        let line = tl_buffer p @ [ch]
        in if ch = nl then
             (let (segs, active) = line_segments (tl_specs p) (tl_active p) line
              in (p\<lparr>tl_buffer := [], tl_active := active\<rparr>, segs))
           else if trim_start line = [] \<or> is_tag_prefix p (trim_start line) then (p\<lparr>tl_buffer := line\<rparr>, [])
           else (p\<lparr>tl_buffer := [], tl_detect := False\<rparr>, [text_segment (tl_active p) line])
      else (p\<lparr>tl_detect := (ch = nl)\<rparr>, [text_segment (tl_active p) [ch]]))"

fun raw_text ::
  "'t TaggedLineParser \<Rightarrow> rstr \<Rightarrow> 't TaggedLineParser \<times> 't TaggedLineSegment list" where
  "raw_text p [] = (p, [])"
| "raw_text p (c # cs) =
     (let (p1, r1) = raw_char p c; (p2, r2) = raw_text p1 cs in (p2, r1 @ r2))"

lemma raw_text_append:
  "raw_text p (a @ b) = (let (p1, r1) = raw_text p a; (p2, r2) = raw_text p1 b in (p2, r1 @ r2))"
  by (induction a arbitrary: p) (simp_all add: split_beta Let_def)

lemma is_tag_prefix_cong: "tl_specs p = tl_specs q \<Longrightarrow> is_tag_prefix p slug = is_tag_prefix q slug"
  by (simp add: is_tag_prefix_def)

lemma is_tag_prefix_update [simp]:
  "is_tag_prefix (p\<lparr>tl_buffer := x\<rparr>) slug = is_tag_prefix p slug"
  "is_tag_prefix (p\<lparr>tl_active := y\<rparr>) slug = is_tag_prefix p slug"
  "is_tag_prefix (p\<lparr>tl_detect := d\<rparr>) slug = is_tag_prefix p slug"
  by (simp_all add: is_tag_prefix_def)

lemma finish_line_segments:
  "finish_line p segs =
     (let (r, active) = line_segments (tl_specs p) (tl_active p) (tl_buffer p)
      in (p\<lparr>tl_buffer := [], tl_active := active, tl_detect := True\<rparr>, merge_segments segs r))"
  by (simp add: finish_line_def line_segments_def Let_def push_text_def)

lemma parse_char_raw:
  assumes "parse_char (p, run, segs) ch = (p', run', segs')"
  shows "raw_char p ch = (p', snd (raw_char p ch))"
    "push_text p' run' segs' = merge_segments (push_text p run segs) (snd (raw_char p ch))"
proof -
  have "raw_char p ch = (p', snd (raw_char p ch))
    \<and> push_text p' run' segs' = merge_segments (push_text p run segs) (snd (raw_char p ch))"
    using assms
    by (cases "tl_detect p"; cases "ch = nl"; cases "run = []")
      (auto simp: raw_char_def Let_def finish_line_segments push_text_def push_text_join
        split: if_splits prod.splits)
  then show "raw_char p ch = (p', snd (raw_char p ch))"
    "push_text p' run' segs' = merge_segments (push_text p run segs) (snd (raw_char p ch))" by blast+
qed

lemma tagged_parse_raw:
  "tagged_parse p delta = map_prod id (merge_segments []) (raw_text p delta)"
proof -
  have "case foldl parse_char (p, run, segs) delta of (p', run', segs') \<Rightarrow>
      p' = fst (raw_text p delta)
      \<and> push_text p' run' segs' = merge_segments (push_text p run segs) (snd (raw_text p delta))" for run segs
  proof (induction delta arbitrary: p run segs)
    case Nil
    show ?case by simp
  next
    case (Cons c cs)
    obtain p1 run1 segs1 where step: "parse_char (p, run, segs) c = (p1, run1, segs1)"
      by (metis prod_cases3)
    with parse_char_raw [OF step] Cons.IH [of p1 run1 segs1] show ?case
      by (auto simp: split_beta Let_def simp del: parse_char.simps) (metis fst_conv)+
  qed
  from this [of "[]" "[]"] show ?thesis
    by (auto simp: tagged_parse_def push_text_def split_beta map_prod_def)
qed

section \<open>A line is held back exactly as long as it can be a tag\<close>

lemma trim_end_append_prefix: "prefix (trim_end s) (trim_end (s @ t))"
proof (induction t rule: rev_induct)
  case (snoc c t)
  have "prefix (trim_end s) (s @ t)"
    using trim_end_matches_prefix [of s is_whitespace] by (metis prefixI trim_end_def append.assoc)
  with snoc show ?case
    by (auto simp: trim_end_def trim_end_matches_snoc simp flip: append_assoc)
qed simp

lemma slug_append_prefix:
  "trim_start s \<noteq> [] \<Longrightarrow> prefix (trim_end (trim_start s)) (trim (s @ t))"
  using trim_end_append_prefix [of "trim_start s" t]
  by (simp add: trim_def trim_start_def dropWhile_append_nonempty)

definition is_tag :: "'t TagSpec list \<Rightarrow> rstr \<Rightarrow> bool" where
  "is_tag specs slug = list_ex (\<lambda>spec. tl_open spec = slug \<or> tl_close spec = slug) specs"

lemma is_tag_prefix_of_tag:
  assumes "is_tag (tl_specs p) (trim (s @ t))" "trim_start s \<noteq> []"
  shows "is_tag_prefix p (trim_start s)"
  using assms(1) slug_append_prefix [OF assms(2), of t]
  unfolding is_tag_def is_tag_prefix_def list_ex_iff starts_with_iff prefix_def by metis

lemma line_slug_simps:
  "line_slug (l @ [nl]) = trim l"
  "nl \<notin> set l \<Longrightarrow> line_slug l = trim l"
proof -
  have "strip_suffix [nl] (l @ [nl]) = Some l" by (simp add: strip_suffix_Some)
  then show "line_slug (l @ [nl]) = trim l" by (simp add: line_slug_def trim_def)
  assume "nl \<notin> set l"
  then have "strip_suffix [nl] l = None"
    using strip_suffix_Some by (metis in_set_conv_decomp not_Some_eq)
  then show "line_slug l = trim l" by (simp add: line_slug_def trim_def)
qed

lemma line_segments_text:
  "\<not> is_tag specs (line_slug line) \<Longrightarrow> line_segments specs active line = ([text_segment active line], active)"
proof -
  assume "\<not> is_tag specs (line_slug line)"
  then have "find (\<lambda>spec. tl_open spec = line_slug line) specs = None"
    "find (\<lambda>spec. tl_close spec = line_slug line) specs = None"
    by (auto simp: is_tag_def list_ex_iff find_None_iff)
  then show ?thesis by (simp add: line_segments_def match_open_def match_close_def Let_def)
qed

definition fresh :: "'t TaggedLineParser \<Rightarrow> bool" where
  "fresh p \<longleftrightarrow> tl_detect p \<and> tl_buffer p = []"

lemma raw_text_in_line:
  assumes "fresh p" "nl \<notin> set l"
  shows "raw_text p l = (p\<lparr>tl_buffer := l\<rparr>, [])
    \<or> (\<exists>r. raw_text p l = (p\<lparr>tl_detect := False\<rparr>, r) \<and> same_segments r [text_segment (tl_active p) l]
         \<and> l \<noteq> [] \<and> (\<forall>t. \<not> is_tag (tl_specs p) (trim (l @ t))))"
  using assms(2)
proof (induction l rule: rev_induct)
  case Nil
  then show ?case using assms(1) by (simp add: fresh_def)
next
  case (snoc c l)
  then have "c \<noteq> nl" and "nl \<notin> set l" by auto
  from snoc.IH [OF this(2)] show ?case
  proof (elim disjE exE conjE)
    assume raw: "raw_text p l = (p\<lparr>tl_buffer := l\<rparr>, [])"
    let ?line = "l @ [c]"
    show ?thesis
    proof (cases "trim_start ?line = [] \<or> is_tag_prefix p (trim_start ?line)")
      case True
      with raw assms(1) \<open>c \<noteq> nl\<close> show ?thesis by (simp add: raw_text_append raw_char_def fresh_def)
    next
      case False
      then have "\<not> is_tag (tl_specs p) (trim (?line @ t))" for t
        using is_tag_prefix_of_tag [of p ?line t] by blast
      moreover have "raw_text p ?line = (p\<lparr>tl_detect := False\<rparr>, [text_segment (tl_active p) ?line])"
        using False raw assms(1) \<open>c \<noteq> nl\<close> by (simp add: raw_text_append raw_char_def fresh_def)
      ultimately show ?thesis by auto
    qed
  next
    fix r
    assume r: "raw_text p l = (p\<lparr>tl_detect := False\<rparr>, r)" "same_segments r [text_segment (tl_active p) l]"
      "\<forall>t. \<not> is_tag (tl_specs p) (trim (l @ t))"
    then have "raw_text p (l @ [c]) = (p\<lparr>tl_detect := False\<rparr>, r @ [text_segment (tl_active p) [c]])"
      using \<open>c \<noteq> nl\<close> by (simp add: raw_text_append raw_char_def)
    moreover have "same_segments (r @ [text_segment (tl_active p) [c]]) [text_segment (tl_active p) (l @ [c])]"
      using r(2) by (rule same_segments_snoc)
    moreover have "\<not> is_tag (tl_specs p) (trim ((l @ [c]) @ t))" for t using r(3) by simp
    ultimately show ?thesis by auto
  qed
qed

lemma raw_text_line:
  assumes "fresh p" "nl \<notin> set l"
  obtains r where "raw_text p (l @ [nl]) =
      (p\<lparr>tl_active := snd (line_segments (tl_specs p) (tl_active p) (l @ [nl]))\<rparr>, r)"
    "same_segments r (fst (line_segments (tl_specs p) (tl_active p) (l @ [nl])))"
  using raw_text_in_line [OF assms]
proof (elim disjE exE conjE)
  assume "raw_text p l = (p\<lparr>tl_buffer := l\<rparr>, [])"
  moreover have "p\<lparr>tl_buffer := []\<rparr> = p" using assms(1) by (simp add: fresh_def)
  ultimately show thesis using assms(1)
    by (intro that [of "fst (line_segments (tl_specs p) (tl_active p) (l @ [nl]))"])
      (simp_all add: raw_text_append raw_char_def fresh_def split_beta Let_def)
next
  fix r
  assume r: "raw_text p l = (p\<lparr>tl_detect := False\<rparr>, r)" "same_segments r [text_segment (tl_active p) l]"
    "\<forall>t. \<not> is_tag (tl_specs p) (trim (l @ t))"
  have plain: "line_segments (tl_specs p) (tl_active p) (l @ [nl]) = ([text_segment (tl_active p) (l @ [nl])], tl_active p)"
    using r(3) [rule_format, of "[]"] by (intro line_segments_text) (simp add: line_slug_simps)
  have "same_segments (r @ [text_segment (tl_active p) [nl]]) [text_segment (tl_active p) (l @ [nl])]"
    using r(2) by (rule same_segments_snoc)
  with r(1) assms(1) plain show thesis
    by (intro that [of "r @ [text_segment (tl_active p) [nl]]"])
      (simp_all add: raw_text_append raw_char_def fresh_def)
qed

section \<open>The reference: line by line\<close>

fun lines_segments :: "'t TagSpec list \<Rightarrow> 't option \<Rightarrow> rstr list \<Rightarrow> 't TaggedLineSegment list" where
  "lines_segments specs active [] = (case active of Some tag \<Rightarrow> [TagEnd tag] | None \<Rightarrow> [])"
| "lines_segments specs active (l # ls) =
     (let (segs, active') = line_segments specs active l in segs @ lines_segments specs active' ls)"

definition raw_finish :: "'t TaggedLineParser \<Rightarrow> 't TaggedLineSegment list" where
  "raw_finish p = lines_segments (tl_specs p) (tl_active p) (if tl_buffer p = [] then [] else [tl_buffer p])"

lemma tagged_finish_raw:
  "tagged_finish p = (p\<lparr>tl_active := None, tl_buffer := [], tl_detect := True\<rparr>, merge_segments [] (raw_finish p))"
  by (auto simp: tagged_finish_def raw_finish_def line_segments_def Let_def push_text_def split: option.splits)

lemma raw_text_lines:
  "fresh p \<Longrightarrow> raw_text p s = (q, r) \<Longrightarrow>
     same_segments (r @ raw_finish q) (lines_segments (tl_specs p) (tl_active p) (split_inclusive nl s))"
proof (induction s arbitrary: p q r rule: length_induct)
  case (1 s)
  show ?case
  proof (cases "nl \<in> set s")
    case True
    then obtain l rest where s_eq: "s = l @ nl # rest" "nl \<notin> set l" by (metis split_list_first)
    let ?ls = "line_segments (tl_specs p) (tl_active p) (l @ [nl])"
    obtain r1 where r1: "raw_text p (l @ [nl]) = (p\<lparr>tl_active := snd ?ls\<rparr>, r1)" "same_segments r1 (fst ?ls)"
      using raw_text_line [OF "1.prems"(1) s_eq(2)] .
    obtain q2 r2 where r2: "raw_text (p\<lparr>tl_active := snd ?ls\<rparr>) rest = (q2, r2)" by fastforce
    have "raw_text p ((l @ [nl]) @ rest) = (q2, r1 @ r2)"
      by (simp only: raw_text_append [of p "l @ [nl]" rest] r1(1) r2 Let_def prod.case)
    with "1.prems"(2) s_eq(1) have qr: "q = q2" "r = r1 @ r2" by simp_all
    have "same_segments (r2 @ raw_finish q2) (lines_segments (tl_specs p) (snd ?ls) (split_inclusive nl rest))"
      using "1.IH" [rule_format, OF _ _ r2] "1.prems"(1) s_eq(1) by (simp add: fresh_def)
    from same_segments_append [OF r1(2) this] show ?thesis
      using split_inclusive_append_sep [of nl l rest] s_eq split_inclusive_line [of nl l] qr
      by (simp add: split_beta)
  next
    case False
    show ?thesis
      using raw_text_in_line [OF "1.prems"(1) False]
    proof (elim disjE exE conjE)
      assume "raw_text p s = (p\<lparr>tl_buffer := s\<rparr>, [])"
      with "1.prems"(2) have "q = p\<lparr>tl_buffer := s\<rparr>" "r = []" by simp_all
      with False show ?thesis by (simp add: raw_finish_def split_inclusive_no_sep)
    next
      fix r'
      assume r': "raw_text p s = (p\<lparr>tl_detect := False\<rparr>, r')" "same_segments r' [text_segment (tl_active p) s]"
        "s \<noteq> []" "\<forall>t. \<not> is_tag (tl_specs p) (trim (s @ t))"
      have "line_segments (tl_specs p) (tl_active p) s = ([text_segment (tl_active p) s], tl_active p)"
        using r'(4) [rule_format, of "[]"] False by (intro line_segments_text) (simp add: line_slug_simps)
      with r' "1.prems" False same_segments_append [OF r'(2) same_segments_refl] show ?thesis
        by (auto simp: raw_finish_def split_inclusive_no_sep fresh_def)
    qed
  qed
qed

fun tagged_chunks ::
  "'t TaggedLineParser \<Rightarrow> rstr list \<Rightarrow> 't TaggedLineParser \<times> 't TaggedLineSegment list" where
  "tagged_chunks p [] = (p, [])"
| "tagged_chunks p (c # cs) =
     (let (p1, s1) = tagged_parse p c; (p2, s2) = tagged_chunks p1 cs in (p2, merge_segments s1 s2))"

lemma merge_segments_raw: "merge_segments xs (merge_segments [] ys) = merge_segments xs ys"
  by (simp add: merge_segments_assoc)

lemma tagged_parse_append:
  "tagged_parse p (a @ b) =
     (let (p1, s1) = tagged_parse p a; (p2, s2) = tagged_parse p1 b in (p2, merge_segments s1 s2))"
  by (simp add: tagged_parse_raw raw_text_append split_beta Let_def merge_segments_raw)

lemma tagged_chunks_raw:
  "tagged_chunks p cs = map_prod id (merge_segments []) (raw_text p (concat cs))"
proof (induction cs arbitrary: p)
  case (Cons c cs)
  then show ?case
    by (simp add: tagged_parse_raw raw_text_append split_beta Let_def merge_segments_raw)
qed simp

lemma tagged_lines_run:
  assumes "tagged_chunks (tagged_line_parser_new specs) cs = (p, segs)"
  shows "merge_segments segs (snd (tagged_finish p))
      = merge_segments [] (lines_segments specs None (split_inclusive nl (concat cs)))"
proof -
  let ?p = "tagged_line_parser_new specs"
  obtain r where r: "raw_text ?p (concat cs) = (p, r)" "segs = merge_segments [] r"
    using assms by (cases "raw_text ?p (concat cs)") (simp add: tagged_chunks_raw)
  have "fresh ?p" by (simp add: fresh_def tagged_line_parser_new_def)
  from raw_text_lines [OF this r(1)] r(2) show ?thesis
    by (simp add: same_segments_def tagged_finish_raw merge_segments_raw tagged_line_parser_new_def)
qed

text \<open>C27: however a text is cut, the segments a tagged-line parser answers, joined, are those
  of reading the text line by line: a line that is an opening tag outside a block or the
  closing tag of the block it stands in is a marker, every other line is text of the block
  it stands in or normal text, and an open block is closed at the end.\<close>

theorem tagged_lines_any_cut:
  "let (p, segs) = tagged_chunks (tagged_line_parser_new specs) cs
   in merge_segments segs (snd (tagged_finish p))
      = merge_segments [] (lines_segments specs None (split_inclusive nl (concat cs)))"
  by (simp add: split_beta tagged_lines_run)

section \<open>Proposed plans\<close>

datatype PlanTag = ProposedPlan

datatype ProposedPlanSegment =
    NormalText rstr
  | ProposedPlanStart
  | ProposedPlanDelta rstr
  | ProposedPlanEnd

type_synonym ProposedPlanParser = "PlanTag TaggedLineParser"

definition OPEN_TAG :: rstr where
  "OPEN_TAG = lit ''<proposed_plan>''"

definition CLOSE_TAG :: rstr where
  "CLOSE_TAG = lit ''</proposed_plan>''"

definition plan_specs :: "PlanTag TagSpec list" where
  "plan_specs = [\<lparr>tl_open = OPEN_TAG, tl_close = CLOSE_TAG, tl_tag = ProposedPlan\<rparr>]"

definition plan_parser_new :: ProposedPlanParser where
  "plan_parser_new = tagged_line_parser_new plan_specs"

fun plan_segment :: "PlanTag TaggedLineSegment \<Rightarrow> ProposedPlanSegment" where
  "plan_segment (Normal s) = NormalText s"
| "plan_segment (TagStart ProposedPlan) = ProposedPlanStart"
| "plan_segment (TagDelta ProposedPlan s) = ProposedPlanDelta s"
| "plan_segment (TagEnd ProposedPlan) = ProposedPlanEnd"

definition map_segments ::
  "PlanTag TaggedLineSegment list \<Rightarrow> ProposedPlanSegment StreamTextChunk" where
  "map_segments segments =
     foldl (\<lambda>out segment.
         let mapped = plan_segment segment;
             out = (case mapped of NormalText s \<Rightarrow> out\<lparr>visible_text := visible_text out @ s\<rparr> | _ \<Rightarrow> out)
         in out\<lparr>extracted := extracted out @ [mapped]\<rparr>)
       default_chunk segments"

definition plan_push_str ::
  "ProposedPlanParser \<Rightarrow> rstr \<Rightarrow> ProposedPlanParser \<times> ProposedPlanSegment StreamTextChunk" where
  "plan_push_str p chunk = map_prod id map_segments (tagged_parse p chunk)"

definition plan_finish ::
  "ProposedPlanParser \<Rightarrow> ProposedPlanParser \<times> ProposedPlanSegment StreamTextChunk" where
  "plan_finish p = map_prod id map_segments (tagged_finish p)"

definition strip_proposed_plan_blocks :: "rstr \<Rightarrow> rstr" where
  "strip_proposed_plan_blocks s =
     (let (p, out) = plan_push_str plan_parser_new s
      in visible_text out @ visible_text (snd (plan_finish p)))"

definition plan_text_step :: "rstr \<times> bool \<Rightarrow> ProposedPlanSegment \<Rightarrow> rstr \<times> bool" where
  "plan_text_step st segment =
     (case segment of
        ProposedPlanStart \<Rightarrow> ([], True)
      | ProposedPlanDelta delta \<Rightarrow> (fst st @ delta, snd st)
      | ProposedPlanEnd \<Rightarrow> st
      | NormalText _ \<Rightarrow> st)"

definition extract_proposed_plan_text :: "rstr \<Rightarrow> rstr option" where
  "extract_proposed_plan_text s =
     (let (p, out) = plan_push_str plan_parser_new s;
          (plan_text, saw_plan_block) =
            foldl plan_text_step ([], False) (extracted out @ extracted (snd (plan_finish p)))
      in if saw_plan_block then Some plan_text else None)"

text \<open>What the mapped segments say does not depend on how the text in them is divided.\<close>

fun normal_text :: "'t TaggedLineSegment list \<Rightarrow> rstr" where
  "normal_text [] = []"
| "normal_text (Normal s # segs) = s @ normal_text segs"
| "normal_text (_ # segs) = normal_text segs"

lemma normal_text_append [simp]: "normal_text (xs @ ys) = normal_text xs @ normal_text ys"
  by (induction xs rule: normal_text.induct) simp_all

lemma push_segment_cases:
  "push_segment segs z = segs @ [z]
   \<or> push_segment segs z = segs \<and> (z = Normal [] \<or> (\<exists>t. z = TagDelta t []))
   \<or> (\<exists>xs a b. segs = xs @ [Normal a] \<and> z = Normal b \<and> push_segment segs z = xs @ [Normal (a @ b)])
   \<or> (\<exists>xs t a b. segs = xs @ [TagDelta t a] \<and> z = TagDelta t b \<and> push_segment segs z = xs @ [TagDelta t (a @ b)])"
proof (cases segs rule: rev_cases)
  case Nil
  then show ?thesis by (cases z) auto
next
  case (snoc ys y)
  then show ?thesis
    using push_segment_single [of y z] unfolding snoc push_segment_snoc by fastforce
qed

lemma normal_text_push: "normal_text (push_segment segs z) = normal_text segs @ normal_text [z]"
  using push_segment_cases [of segs z] by auto

lemma normal_text_merge: "normal_text (merge_segments xs ys) = normal_text xs @ normal_text ys"
proof (induction ys arbitrary: xs)
  case (Cons y ys)
  then show ?case using normal_text_append [of "[y]" ys] by (simp add: normal_text_push)
qed simp

lemma plan_text_push:
  "foldl plan_text_step st (map plan_segment (push_segment segs z))
     = plan_text_step (foldl plan_text_step st (map plan_segment segs)) (plan_segment z)"
proof -
  have delta: "plan_segment (TagDelta t s) = ProposedPlanDelta s" for t s by (cases t) simp
  show ?thesis
    using push_segment_cases [of segs z]
    by (elim disjE exE conjE) (simp_all add: plan_text_step_def delta)
qed

lemma plan_text_merge:
  "foldl plan_text_step st (map plan_segment (merge_segments xs ys))
     = foldl plan_text_step (foldl plan_text_step st (map plan_segment xs)) (map plan_segment ys)"
  by (induction ys arbitrary: xs) (simp_all add: plan_text_push)

lemma map_segments_eq:
  "map_segments segs = \<lparr>visible_text = normal_text segs, extracted = map plan_segment segs\<rparr>"
proof (induction segs rule: rev_induct)
  case Nil
  show ?case by (simp add: map_segments_def default_chunk_def)
next
  case (snoc s segs)
  have "map_segments (segs @ [s]) =
    (let out = map_segments segs; mapped = plan_segment s;
         out = (case mapped of NormalText s \<Rightarrow> out\<lparr>visible_text := visible_text out @ s\<rparr> | _ \<Rightarrow> out)
     in out\<lparr>extracted := extracted out @ [mapped]\<rparr>)"
    by (simp add: map_segments_def Let_def)
  with snoc show ?case by (cases s rule: plan_segment.cases) simp_all
qed

fun plan_unsegment :: "ProposedPlanSegment \<Rightarrow> PlanTag TaggedLineSegment" where
  "plan_unsegment (NormalText s) = Normal s"
| "plan_unsegment ProposedPlanStart = TagStart ProposedPlan"
| "plan_unsegment (ProposedPlanDelta s) = TagDelta ProposedPlan s"
| "plan_unsegment ProposedPlanEnd = TagEnd ProposedPlan"

lemma plan_unsegment_segment [simp]: "plan_unsegment (plan_segment z) = z"
  by (cases z rule: plan_segment.cases) simp_all

lemma plan_unsegment_map [simp]: "map plan_unsegment (map plan_segment segs) = segs"
  by (induction segs) simp_all

definition plan_join ::
  "ProposedPlanSegment StreamTextChunk \<Rightarrow> ProposedPlanSegment StreamTextChunk
   \<Rightarrow> ProposedPlanSegment StreamTextChunk" where
  "plan_join a b =
     \<lparr>visible_text = visible_text a @ visible_text b,
      extracted = map plan_segment
        (merge_segments (map plan_unsegment (extracted a)) (map plan_unsegment (extracted b)))\<rparr>"

lemma plan_join_segments:
  "plan_join (map_segments xs) (map_segments ys) = map_segments (merge_segments xs ys)"
  unfolding plan_join_def map_segments_eq by (simp only: StreamTextChunk.simps plan_unsegment_map normal_text_merge)

interpretation plan_parser:
  stream_text_parser "\<lambda>p chunk. Some (plan_push_str p chunk)" "\<lambda>_. True" plan_join
proof unfold_locales
  fix p :: ProposedPlanParser and a b
  show "Some (plan_push_str p []) = Some (p, default_chunk)"
    by (simp add: plan_push_str_def tagged_parse_raw map_segments_def)
  show "Some (plan_push_str p (a @ b)) = Option.bind (Some (plan_push_str p a))
     (\<lambda>(s1, out). map_option (map_prod id (plan_join out)) (Some (plan_push_str s1 b)))"
    by (simp add: plan_push_str_def tagged_parse_append split_beta Let_def map_prod_def plan_join_segments)
qed (simp add: plan_push_str_def split_beta map_prod_def)

lemma plan_segments_read:
  "case tagged_parse plan_parser_new s of (p, segs) \<Rightarrow>
     merge_segments segs (snd (tagged_finish p))
       = merge_segments [] (lines_segments plan_specs None (split_inclusive nl s))"
proof -
  have "tagged_chunks p [s] = tagged_parse p s" for p :: ProposedPlanParser
    by (simp add: tagged_chunks_raw tagged_parse_raw)
  then show ?thesis
    using tagged_lines_run [of plan_specs "[s]"] by (auto simp: plan_parser_new_def split: prod.split)
qed

lemma strip_proposed_plan_blocks_lines:
  "strip_proposed_plan_blocks s = normal_text (lines_segments plan_specs None (split_inclusive nl s))"
proof -
  obtain p segs where p: "tagged_parse plan_parser_new s = (p, segs)" by fastforce
  have "strip_proposed_plan_blocks s = normal_text (merge_segments segs (snd (tagged_finish p)))"
    by (simp add: strip_proposed_plan_blocks_def plan_push_str_def p plan_finish_def map_segments_eq
        normal_text_merge)
  with plan_segments_read [of s] p show ?thesis by (simp add: normal_text_merge)
qed

lemma extract_proposed_plan_text_lines:
  "extract_proposed_plan_text s =
     (case foldl plan_text_step ([], False)
             (map plan_segment (lines_segments plan_specs None (split_inclusive nl s))) of
        (plan_text, saw) \<Rightarrow> if saw then Some plan_text else None)"
proof -
  obtain p segs where p: "tagged_parse plan_parser_new s = (p, segs)" by fastforce
  have "foldl plan_text_step ([], False) (map plan_segment segs @ map plan_segment (snd (tagged_finish p)))
      = foldl plan_text_step ([], False) (map plan_segment (merge_segments segs (snd (tagged_finish p))))"
    by (simp add: plan_text_merge)
  also have "\<dots> = foldl plan_text_step ([], False)
      (map plan_segment (lines_segments plan_specs None (split_inclusive nl s)))"
    using plan_segments_read [of s] p by (simp add: plan_text_merge)
  finally show ?thesis
    by (simp add: extract_proposed_plan_text_def plan_push_str_def p plan_finish_def map_segments_eq split_beta)
qed

definition unlines :: "rstr list \<Rightarrow> rstr" where
  "unlines ls = concat (map (\<lambda>l. l @ [nl]) ls)"

definition plain_line :: "rstr \<Rightarrow> bool" where
  "plain_line l \<longleftrightarrow> nl \<notin> set l \<and> trim l \<noteq> OPEN_TAG \<and> trim l \<noteq> CLOSE_TAG"

lemma split_inclusive_unlines:
  "\<forall>l \<in> set ls. nl \<notin> set l \<Longrightarrow> split_inclusive nl (unlines ls) = map (\<lambda>l. l @ [nl]) ls"
proof (induction ls)
  case (Cons l ls)
  then show ?case using split_inclusive_append_sep [of nl l "unlines ls"]
    by (simp add: unlines_def split_inclusive_line)
qed (simp add: unlines_def)

lemma lines_segments_plain:
  "\<forall>l \<in> set ls. plain_line l \<Longrightarrow>
     lines_segments plan_specs active (map (\<lambda>l. l @ [nl]) ls @ rest)
       = map (\<lambda>l. text_segment active (l @ [nl])) ls @ lines_segments plan_specs active rest"
proof (induction ls)
  case (Cons l ls)
  then have "line_segments plan_specs active (l @ [nl]) = ([text_segment active (l @ [nl])], active)"
    by (intro line_segments_text) (auto simp: is_tag_def plan_specs_def plain_line_def line_slug_simps)
  with Cons show ?case by simp
qed simp

lemma tag_delims: "trim OPEN_TAG = OPEN_TAG" "trim CLOSE_TAG = CLOSE_TAG" "OPEN_TAG \<noteq> CLOSE_TAG"
  "nl \<notin> set OPEN_TAG" "nl \<notin> set CLOSE_TAG"
  by (simp_all add: OPEN_TAG_def CLOSE_TAG_def eval_defs)

lemma plan_tag_lines:
  "line_segments plan_specs None (OPEN_TAG @ [nl]) = ([TagStart ProposedPlan], Some ProposedPlan)"
  "line_segments plan_specs (Some ProposedPlan) (CLOSE_TAG @ [nl]) = ([TagEnd ProposedPlan], None)"
  using tag_delims
  by (simp_all add: line_segments_def line_slug_simps match_open_def match_close_def plan_specs_def)

lemma normal_text_lines:
  "normal_text (map (\<lambda>l. text_segment None (l @ [nl])) ls) = unlines ls"
  "normal_text (map (\<lambda>l. text_segment (Some t) (l @ [nl])) ls) = []"
  by (induction ls) (simp_all add: unlines_def text_segment_def)

lemma plan_text_lines:
  "foldl plan_text_step st (map (\<lambda>l. plan_segment (text_segment None (l @ [nl]))) ls) = st"
  "foldl plan_text_step st (map (\<lambda>l. plan_segment (text_segment (Some ProposedPlan) (l @ [nl]))) ls)
     = (fst st @ unlines ls, snd st)"
  by (induction ls arbitrary: st) (simp_all add: unlines_def text_segment_def plan_text_step_def)

definition plan_message :: "rstr list \<Rightarrow> rstr list \<Rightarrow> rstr list \<Rightarrow> rstr" where
  "plan_message pre plan post = unlines (pre @ [OPEN_TAG] @ plan @ [CLOSE_TAG] @ post)"

lemma plan_message_segments:
  assumes "\<forall>l \<in> set (pre @ plan @ post). plain_line l"
  shows "lines_segments plan_specs None (split_inclusive nl (plan_message pre plan post))
    = map (\<lambda>l. text_segment None (l @ [nl])) pre @ [TagStart ProposedPlan]
      @ map (\<lambda>l. text_segment (Some ProposedPlan) (l @ [nl])) plan @ [TagEnd ProposedPlan]
      @ map (\<lambda>l. text_segment None (l @ [nl])) post"
proof -
  have "split_inclusive nl (plan_message pre plan post) =
    map (\<lambda>l. l @ [nl]) pre @ (OPEN_TAG @ [nl]) # map (\<lambda>l. l @ [nl]) plan @ (CLOSE_TAG @ [nl]) # map (\<lambda>l. l @ [nl]) post @ []"
    unfolding plan_message_def using assms tag_delims
    by (subst split_inclusive_unlines) (auto simp: plain_line_def)
  with assms lines_segments_plain [of post None "[]"] show ?thesis
    by (simp add: lines_segments_plain plan_tag_lines del: append_Nil2)
qed

lemma plan_message_parsed:
  assumes "\<forall>l \<in> set (pre @ plan @ post). plain_line l"
  shows "extract_proposed_plan_text (plan_message pre plan post) = Some (unlines plan)"
    "strip_proposed_plan_blocks (plan_message pre plan post) = unlines (pre @ post)"
proof -
  show "extract_proposed_plan_text (plan_message pre plan post) = Some (unlines plan)"
    using plan_text_lines plan_message_segments [OF assms]
    by (simp add: extract_proposed_plan_text_lines comp_def) (simp add: plan_text_step_def)
  show "strip_proposed_plan_blocks (plan_message pre plan post) = unlines (pre @ post)"
    by (simp add: strip_proposed_plan_blocks_lines plan_message_segments [OF assms] normal_text_lines)
      (simp add: unlines_def)
qed

text \<open>A message with one plan block, each tag alone on its line and no other line a tag,
  gives back exactly the lines of the plan and, stripped, exactly the lines around it.\<close>

theorem plan_block_roundtrip:
  assumes "\<forall>l \<in> set (pre @ plan @ post). plain_line l"
  shows "extract_proposed_plan_text (plan_message pre plan post) = Some (unlines plan)
    \<and> strip_proposed_plan_blocks (plan_message pre plan post) = unlines (pre @ post)"
  using plan_message_parsed [OF assms] by blast

theorem plan_block_roundtrip_witness:
  "extract_proposed_plan_text (plan_message [lit ''Intro''] [lit ''- one'', []] [lit ''<proposed_plan> no'']) =
     Some (unlines [lit ''- one'', []])
   \<and> strip_proposed_plan_blocks (plan_message [lit ''Intro''] [lit ''- one'', []] [lit ''<proposed_plan> no'']) =
     unlines [lit ''Intro'', lit ''<proposed_plan> no'']"
proof -
  have "\<forall>l \<in> set ([lit ''Intro''] @ [lit ''- one'', []] @ [lit ''<proposed_plan> no'']). plain_line l"
    by (simp add: plain_line_def OPEN_TAG_def CLOSE_TAG_def eval_defs)
  from plan_block_roundtrip [OF this] show ?thesis by simp
qed

end
