(* ===== verification/Assistant_Text.thy ===== *)
theory Assistant_Text
  imports Inline_Hidden_Tag Tagged_Line
begin

text \<open>
  The parser of an assistant message (\<open>utils/stream-parser/src/assistant_text.rs\<close>): memory
  citations are stripped first, and in plan mode what is left visible is read for
  proposed-plan blocks. The properties of the composition rest on the interpretations of
  \<open>stream_text_parser\<close> for the two parsers.
\<close>

record AssistantTextChunk =
  at_visible_text :: rstr
  at_citations :: "rstr list"
  at_plan_segments :: "ProposedPlanSegment list"

record AssistantTextStreamParser =
  at_plan_mode :: bool
  at_citation_parser :: CitationStreamParser
  at_plan_parser :: ProposedPlanParser

definition assistant_chunk_default :: AssistantTextChunk where
  "assistant_chunk_default = \<lparr>at_visible_text = [], at_citations = [], at_plan_segments = []\<rparr>"

definition assistant_chunk_is_empty :: "AssistantTextChunk \<Rightarrow> bool" where
  "assistant_chunk_is_empty c \<longleftrightarrow>
     at_visible_text c = [] \<and> at_citations c = [] \<and> at_plan_segments c = []"

definition assistant_parser_new :: "bool \<Rightarrow> AssistantTextStreamParser option" where
  "assistant_parser_new plan_mode =
     map_option (\<lambda>c. \<lparr>at_plan_mode = plan_mode, at_citation_parser = c, at_plan_parser = plan_parser_new\<rparr>)
       citation_parser_new"

definition parse_visible_text ::
  "AssistantTextStreamParser \<Rightarrow> rstr \<Rightarrow> AssistantTextStreamParser \<times> AssistantTextChunk" where
  "parse_visible_text p s =
     (if \<not> at_plan_mode p then (p, assistant_chunk_default\<lparr>at_visible_text := s\<rparr>)
      else let (plan, plan_chunk) = plan_push_str (at_plan_parser p) s
        in (p\<lparr>at_plan_parser := plan\<rparr>,
            assistant_chunk_default
              \<lparr>at_visible_text := visible_text plan_chunk, at_plan_segments := extracted plan_chunk\<rparr>))"

definition assistant_push_str ::
  "AssistantTextStreamParser \<Rightarrow> rstr \<Rightarrow> (AssistantTextStreamParser \<times> AssistantTextChunk) option" where
  "assistant_push_str p chunk =
     map_option (\<lambda>(c, citation_chunk).
         let (p, out) = parse_visible_text (p\<lparr>at_citation_parser := c\<rparr>) (visible_text citation_chunk)
         in (p, out\<lparr>at_citations := extracted citation_chunk\<rparr>))
       (citation_push_str (at_citation_parser p) chunk)"

definition assistant_finish ::
  "AssistantTextStreamParser \<Rightarrow> AssistantTextStreamParser \<times> AssistantTextChunk" where
  "assistant_finish p0 =
     (let (c, citation_chunk) = citation_finish (at_citation_parser p0);
          (p, out) = parse_visible_text (p0\<lparr>at_citation_parser := c\<rparr>) (visible_text citation_chunk);
          (p, out) =
            (if at_plan_mode p then
               let (plan, tail) = plan_finish (at_plan_parser p); p = p\<lparr>at_plan_parser := plan\<rparr>
               in if \<not> chunk_is_empty tail then
                    (p, out\<lparr>at_visible_text := at_visible_text out @ visible_text tail,
                            at_plan_segments := at_plan_segments out @ extracted tail\<rparr>)
                  else (p, out)
             else (p, out))
      in (p, out\<lparr>at_citations := extracted citation_chunk\<rparr>))"

section \<open>A whole message\<close>

text \<open>
  How the answers to a streamed message add up: texts and citations are appended, and the
  segments of a plan are joined as within one answer.
\<close>

definition join_plan_segments ::
  "ProposedPlanSegment list \<Rightarrow> ProposedPlanSegment list \<Rightarrow> ProposedPlanSegment list" where
  "join_plan_segments xs ys =
     map plan_segment (merge_segments (map plan_unsegment xs) (map plan_unsegment ys))"

definition assistant_join :: "AssistantTextChunk \<Rightarrow> AssistantTextChunk \<Rightarrow> AssistantTextChunk" where
  "assistant_join a b =
     \<lparr>at_visible_text = at_visible_text a @ at_visible_text b,
      at_citations = at_citations a @ at_citations b,
      at_plan_segments = join_plan_segments (at_plan_segments a) (at_plan_segments b)\<rparr>"

fun assistant_chunks ::
  "AssistantTextStreamParser \<Rightarrow> rstr list \<Rightarrow> (AssistantTextStreamParser \<times> AssistantTextChunk) option" where
  "assistant_chunks p [] = Some (p, assistant_chunk_default)"
| "assistant_chunks p (c # cs) =
     Option.bind (assistant_push_str p c) (\<lambda>(p1, a).
       map_option (map_prod id (assistant_join a)) (assistant_chunks p1 cs))"

definition assistant_run :: "bool \<Rightarrow> rstr list \<Rightarrow> AssistantTextChunk option" where
  "assistant_run plan_mode cs =
     Option.bind (assistant_parser_new plan_mode) (\<lambda>p.
       map_option (\<lambda>(p1, a). assistant_join a (snd (assistant_finish p1))) (assistant_chunks p cs))"

lemma assistant_chunks_text:
  assumes "inline_inv (at_citation_parser p)"
    "citation_push_str (at_citation_parser p) (concat cs) = Some (q, out)"
    "at_plan_mode p \<Longrightarrow> plan_push_str (at_plan_parser p) (visible_text out) = (pl, po)"
  shows "assistant_chunks p cs = Some
    (if at_plan_mode p then
       (p\<lparr>at_citation_parser := q, at_plan_parser := pl\<rparr>,
        \<lparr>at_visible_text = visible_text po, at_citations = extracted out, at_plan_segments = extracted po\<rparr>)
     else (p\<lparr>at_citation_parser := q\<rparr>,
        \<lparr>at_visible_text = visible_text out, at_citations = extracted out, at_plan_segments = []\<rparr>))"
  using assms
proof (induction cs arbitrary: p q out pl po)
  case Nil
  then have "q = at_citation_parser p" "out = default_chunk"
    using citation_parser.push_Nil [OF Nil.prems(1)] by simp_all
  moreover have "plan_push_str (at_plan_parser p) [] = (at_plan_parser p, default_chunk)"
    using plan_parser.push_Nil by simp
  ultimately show ?case using Nil.prems(3) by (auto simp: assistant_chunk_default_def)
next
  case (Cons c cs)
  obtain q1 o1 where one: "citation_push_str (at_citation_parser p) c = Some (q1, o1)" "inline_inv q1"
    using citation_parser.push_total [OF Cons.prems(1)] by blast
  obtain o2 where rest: "citation_push_str q1 (concat cs) = Some (q, o2)" "out = chunk_append o1 o2"
    using Cons.prems(2) one citation_parser.push_append [OF Cons.prems(1), of c "concat cs"] by auto
  show ?case
  proof (cases "at_plan_mode p")
    case False
    with Cons.IH [of "p\<lparr>at_citation_parser := q1\<rparr>" q o2] one rest show ?thesis
      by (simp add: assistant_push_str_def parse_visible_text_def assistant_join_def
          assistant_chunk_default_def join_plan_segments_def)
  next
    case True
    obtain pl1 po1 where pl1: "plan_push_str (at_plan_parser p) (visible_text o1) = (pl1, po1)" by fastforce
    obtain pl2 po2 where pl2: "plan_push_str pl1 (visible_text o2) = (pl2, po2)" by fastforce
    have "pl = pl2" "po = plan_join po1 po2"
      using Cons.prems(3) [OF True] rest(2) pl1 pl2
        plan_parser.push_append [of "at_plan_parser p" "visible_text o1" "visible_text o2"] by simp_all
    with Cons.IH [of "p\<lparr>at_citation_parser := q1, at_plan_parser := pl1\<rparr>" q o2 pl2 po2] one rest pl1 pl2 True
    show ?thesis
      by (simp add: assistant_push_str_def parse_visible_text_def assistant_join_def
          assistant_chunk_default_def join_plan_segments_def plan_join_def)
  qed
qed

lemma strip_citations_run:
  "\<exists>p q out. citation_parser_new = Some p \<and> inline_inv p \<and> citation_push_str p s = Some (q, out)
     \<and> strip_citations s = Some (visible_text out @ visible_text (snd (citation_finish q)),
                                 extracted out @ extracted (snd (citation_finish q)))"
proof -
  have inv: "inline_inv \<lparr>hid_specs = citation_specs, hid_pending = [], hid_active = None\<rparr>"
    using whole_parse_new(1) citation_parser_some citation_specs_ok
    unfolding citation_parser_new_def by blast
  obtain q out where
    "citation_push_str \<lparr>hid_specs = citation_specs, hid_pending = [], hid_active = None\<rparr> s = Some (q, out)"
    using citation_parser.push_total [OF inv] by blast
  with inv show ?thesis by (simp add: strip_citations_def citation_parser_some Let_def)
qed

definition message_reading :: "bool \<Rightarrow> rstr \<Rightarrow> rstr list \<Rightarrow> AssistantTextChunk" where
  "message_reading plan_mode v cits =
     \<lparr>at_visible_text = (if plan_mode then strip_proposed_plan_blocks v else v),
      at_citations = cits,
      at_plan_segments =
        (if plan_mode then
           map plan_segment (merge_segments [] (lines_segments plan_specs None (split_inclusive nl v)))
         else [])\<rparr>"

lemma plan_push_str_segments:
  "plan_push_str p s = (q, out) \<Longrightarrow> \<exists>segs. tagged_parse p s = (q, segs) \<and> out = map_segments segs"
  by (cases "tagged_parse p s") (simp add: plan_push_str_def)

lemma plan_finish_segments:
  "plan_finish p = (q, out) \<Longrightarrow> \<exists>segs. tagged_finish p = (q, segs) \<and> out = map_segments segs"
  by (cases "tagged_finish p") (simp add: plan_finish_def)

lemma plan_message_joined:
  assumes "plan_push_str plan_parser_new v1 = (pl, po)" "plan_push_str pl v2 = (pl2, po2)"
    "plan_finish pl2 = (pl3, tail)"
  shows "strip_proposed_plan_blocks (v1 @ v2) = visible_text po @ visible_text po2 @ visible_text tail"
    "join_plan_segments (extracted po) (extracted po2 @ extracted tail)
       = map plan_segment (merge_segments [] (lines_segments plan_specs None (split_inclusive nl (v1 @ v2))))"
proof -
  obtain s1 s2 where s1: "tagged_parse plan_parser_new v1 = (pl, s1)" "po = map_segments s1"
    and s2: "tagged_parse pl v2 = (pl2, s2)" "po2 = map_segments s2"
    using assms(1,2) plan_push_str_segments by metis
  obtain s3 where s3: "tagged_finish pl2 = (pl3, s3)" "tail = map_segments s3"
    using plan_finish_segments [OF assms(3)] by blast
  have whole: "tagged_parse plan_parser_new (v1 @ v2) = (pl2, merge_segments s1 s2)"
    using s1 s2 by (simp add: tagged_parse_append)
  then show "strip_proposed_plan_blocks (v1 @ v2) = visible_text po @ visible_text po2 @ visible_text tail"
    using s1(2) s2(2) assms(3)
    by (simp add: strip_proposed_plan_blocks_def plan_push_str_def map_segments_eq normal_text_merge)
  have un: "map plan_unsegment (extracted (map_segments segs)) = segs" for segs
    by (simp only: map_segments_eq StreamTextChunk.simps plan_unsegment_map)
  from plan_segments_read [of "v1 @ v2"] whole s3(1)
  have "merge_segments s1 (s2 @ s3)
      = merge_segments [] (lines_segments plan_specs None (split_inclusive nl (v1 @ v2)))" by simp
  then show "join_plan_segments (extracted po) (extracted po2 @ extracted tail)
       = map plan_segment (merge_segments [] (lines_segments plan_specs None (split_inclusive nl (v1 @ v2))))"
    by (simp only: join_plan_segments_def map_append s1(2) s2(2) s3(2) un)
qed

lemma assistant_message:
  "\<exists>v cits. strip_citations (concat cs) = Some (v, cits)
     \<and> assistant_run plan_mode cs = Some (message_reading plan_mode v cits)"
proof -
  obtain p q out where p: "citation_parser_new = Some p" "inline_inv p"
    "citation_push_str p (concat cs) = Some (q, out)" and
    strip: "strip_citations (concat cs) = Some (visible_text out @ visible_text (snd (citation_finish q)),
              extracted out @ extracted (snd (citation_finish q)))"
    using strip_citations_run [of "concat cs"] by blast
  obtain q' ct where fin: "citation_finish q = (q', ct)" by fastforce
  obtain pl po where pl: "plan_push_str plan_parser_new (visible_text out) = (pl, po)" by fastforce
  obtain pl2 po2 where pl2: "plan_push_str pl (visible_text ct) = (pl2, po2)" by fastforce
  obtain pl3 tail where pl3: "plan_finish pl2 = (pl3, tail)" by fastforce
  let ?p = "\<lparr>at_plan_mode = plan_mode, at_citation_parser = p, at_plan_parser = plan_parser_new\<rparr>"
  have chunks: "assistant_chunks ?p cs = Some
    (if plan_mode then (?p\<lparr>at_citation_parser := q, at_plan_parser := pl\<rparr>,
        \<lparr>at_visible_text = visible_text po, at_citations = extracted out, at_plan_segments = extracted po\<rparr>)
     else (?p\<lparr>at_citation_parser := q\<rparr>,
        \<lparr>at_visible_text = visible_text out, at_citations = extracted out, at_plan_segments = []\<rparr>))"
    using assistant_chunks_text [of ?p cs q out pl po] p(2,3) pl by simp
  have run: "assistant_run plan_mode cs =
      map_option (\<lambda>(p1, a). assistant_join a (snd (assistant_finish p1))) (assistant_chunks ?p cs)"
    by (simp add: assistant_run_def assistant_parser_new_def p(1))
  have "assistant_run plan_mode cs
      = Some (message_reading plan_mode (visible_text out @ visible_text ct) (extracted out @ extracted ct))"
  proof (cases plan_mode)
    case False
    have "snd (assistant_finish (?p\<lparr>at_citation_parser := q\<rparr>))
        = \<lparr>at_visible_text = visible_text ct, at_citations = extracted ct, at_plan_segments = []\<rparr>"
      using False fin by (simp add: assistant_finish_def parse_visible_text_def assistant_chunk_default_def)
    with False show ?thesis unfolding run chunks
      by (simp add: assistant_join_def message_reading_def join_plan_segments_def)
  next
    case True
    have "snd (assistant_finish (?p\<lparr>at_citation_parser := q, at_plan_parser := pl\<rparr>))
        = \<lparr>at_visible_text = visible_text po2 @ visible_text tail, at_citations = extracted ct,
           at_plan_segments = extracted po2 @ extracted tail\<rparr>"
      using True fin pl2 pl3
      by (cases "chunk_is_empty tail")
        (simp_all add: assistant_finish_def parse_visible_text_def assistant_chunk_default_def
          chunk_is_empty_def)
    with True plan_message_joined [OF pl pl2 pl3] show ?thesis unfolding run chunks
      by (simp add: assistant_join_def message_reading_def)
  qed
  with strip fin show ?thesis by simp
qed

text \<open>C25: however an assistant message is cut, the parser returns, and its answers together
  are: the citations of the whole message in order; the message without its citations and,
  in plan mode, without its plan blocks; and, in plan mode, the plan segments of the message
  without its citations, read line by line.\<close>

theorem assistant_message_any_cut:
  "\<exists>v cits. strip_citations (concat cs) = Some (v, cits)
     \<and> assistant_run plan_mode cs = Some (message_reading plan_mode v cits)"
  by (rule assistant_message)

section \<open>Citations of a byte stream\<close>

lemma strip_citations_tagged:
  "\<exists>v es. strip_citations s = Some (v, map ext_content es) \<and> tagged_text citation_specs s v es"
proof -
  let ?p = "\<lparr>hid_specs = citation_specs, hid_pending = [], hid_active = None\<rparr>"
  have new: "inline_parser_new citation_specs = Some ?p"
    using citation_parser_some by (simp add: citation_parser_new_def)
  obtain q v es where run: "run_chunks inline_push_str inline_finish chunk_append ?p [s]
      = Some (q, \<lparr>visible_text = v, extracted = es\<rparr>)" "tagged_text citation_specs s v es"
    using hidden_tags_run [OF new citation_specs_ok, of "[s]"] by auto
  from run(1) whole_parse_new(1) [OF new citation_specs_ok]
  obtain q1 o1 where one: "inline_push_str ?p s = Some (q1, o1)"
    "chunk_append o1 (snd (inline_finish q1)) = \<lparr>visible_text = v, extracted = es\<rparr>"
    by (auto simp: inline_parser.run_chunks_concat split_beta map_prod_def)
  have "strip_citations s = Some (v, map ext_content es)"
    using one by (simp add: strip_citations_def citation_parser_some citation_push_str_def
        citation_finish_def Let_def chunk_append_def split_beta flip: map_append)
  with run(2) show ?thesis by blast
qed

lemma utf8_citations:
  assumes "concat bs = into_bytes s" "\<forall>c \<in> set s. is_scalar c" "citation_parser_new = Some p"
  shows "\<exists>v es p'. run_bytes citation_push_str citation_finish chunk_append (utf8_parser_new p) bs
         = Some (Inr \<lparr>visible_text = v, extracted = map ext_content es\<rparr>, p')
       \<and> tagged_text citation_specs s v es"
proof -
  obtain q out where q: "inline_inv p" "citation_push_str p s = Some (q, out)" and
    strip: "strip_citations s = Some (visible_text out @ visible_text (snd (citation_finish q)),
              extracted out @ extracted (snd (citation_finish q)))"
    using strip_citations_run [of s] assms(3) by (metis option.inject)
  have "utf8_scan (concat bs) = (s, [], None)" using assms(1,2) utf8_scan_into_bytes by simp
  from citation_parser.run_bytes_text(1) [OF q(1) this refl, of citation_finish] q(2)
  obtain p' where "run_bytes citation_push_str citation_finish chunk_append (utf8_parser_new p) bs
      = Some (Inr (chunk_append out (snd (citation_finish q))), p')"
    by (auto simp: split_beta)
  with strip strip_citations_tagged [of s] show ?thesis by (auto simp: chunk_append_def)
qed

text \<open>The citation parser over the UTF-8 wrapper, fed the encoding of any text in byte
  chunks cut anywhere, inside code points too, answers no error, and its answers together
  are the text without its citations and the citations.\<close>

theorem utf8_citations_any_cut:
  assumes "concat bs = into_bytes s" "\<forall>c \<in> set s. is_scalar c" "citation_parser_new = Some p"
  shows "\<exists>v es p'. run_bytes citation_push_str citation_finish chunk_append (utf8_parser_new p) bs
         = Some (Inr \<lparr>visible_text = v, extracted = map ext_content es\<rparr>, p')
       \<and> tagged_text citation_specs s v es"
  using assms by (rule utf8_citations)

text \<open>C28: bytes that are not UTF-8 never pass as text: in whatever pieces they come, a push or
  the final flush answers an error, for the citation parser and the plan parser alike.\<close>

theorem invalid_bytes_are_reported:
  assumes "from_utf8 (concat bs) = Inl err" "citation_parser_new = Some p"
  shows "(\<exists>e p'. run_bytes citation_push_str citation_finish chunk_append (utf8_parser_new p) bs
            = Some (Inl e, p'))
       \<and> (\<exists>e p'. run_bytes (\<lambda>p c. Some (plan_push_str p c)) plan_finish plan_join
                   (utf8_parser_new plan_parser_new) bs = Some (Inl e, p'))"
proof -
  obtain s rest e where scan: "utf8_scan (concat bs) = (s, rest, e)" by (metis prod_cases3)
  then have e: "e \<noteq> None" using assms(1) by (cases e) (simp_all add: from_utf8_def)
  have "inline_inv p" using strip_citations_run assms(2) by (metis option.inject)
  from citation_parser.run_bytes_text(2) [OF this scan e] plan_parser.run_bytes_text(2) [OF TrueI scan e]
  show ?thesis by blast
qed

section \<open>Witnesses\<close>

theorem utf8_citations_any_cut_witness:
  "\<exists>v es p'. run_bytes citation_push_str citation_finish chunk_append
       (utf8_parser_new \<lparr>hid_specs = citation_specs, hid_pending = [], hid_active = None\<rparr>) [[195], [169, 33]]
     = Some (Inr \<lparr>visible_text = v, extracted = map ext_content es\<rparr>, p')
   \<and> tagged_text citation_specs [233, 33] v es"
  by (rule utf8_citations_any_cut)
    (simp_all add: citation_parser_some into_bytes_def encode_utf8_def is_scalar_def)

theorem invalid_bytes_are_reported_witness:
  "\<exists>e p'. run_bytes citation_push_str citation_finish chunk_append
       (utf8_parser_new \<lparr>hid_specs = citation_specs, hid_pending = [], hid_active = None\<rparr>) [[97, 195], [97]]
     = Some (Inl e, p')"
proof -
  have "from_utf8 (concat [[97, 195], [97]]) = Inl (1, Some 1)"
    by (simp add: from_utf8_def utf8_scan.simps utf8_width_def second_byte_ok_def)
  from invalid_bytes_are_reported [OF this citation_parser_some] show ?thesis by blast
qed

theorem failed_chunk_is_rolled_back_witness:
  "push_bytes (\<lambda>p c. Some (plan_push_str p c)) (utf8_parser_new plan_parser_new) [255]
     = Some (Inl (InvalidUtf8 0 1), utf8_parser_new plan_parser_new)
   \<and> utf8_parser_new plan_parser_new = utf8_parser_new plan_parser_new
   \<and> (\<exists>k n. InvalidUtf8 0 1 = InvalidUtf8 k n)"
proof -
  have fails: "push_bytes (\<lambda>p c. Some (plan_push_str p c)) (utf8_parser_new plan_parser_new) [255]
     = Some (Inl (InvalidUtf8 0 1), utf8_parser_new plan_parser_new)"
    by (simp add: push_bytes_def utf8_parser_new_def from_utf8_def utf8_scan.simps utf8_width_def)
  from failed_chunk_is_rolled_back [OF this] fails show ?thesis by blast
qed

end
