(* ===== verification/Response_Item.thy ===== *)
theory Response_Item
  imports Rust_Prelude
begin

text \<open>
  The items of a conversation with the model (\<open>protocol/src/models.rs\<close>), the envelope the
  history keeps them in (\<open>history/src/lib.rs\<close>) and the content classifications
  (\<open>context-fragments/src/annotated_content.rs\<close>). A constructor's arguments are the fields of
  the source's variant in their order; the variants of the three content enums have the same
  names in the source and are told apart here by a prefix.

  JSON values and numbers belong to \<open>serde_json\<close>; their types are left open.
\<close>

typedecl json_value
typedecl json_number

type_synonym ResponseItemId = rstr
type_synonym ContentItemKind = rstr

datatype ImageDetail = DetailAuto | DetailLow | DetailHigh | DetailOriginal

datatype ContentItem =
    Content_InputText rstr
  | Content_InputImage rstr "ImageDetail option"
  | Content_InputAudio rstr
  | Content_OutputText rstr

datatype AgentMessageInputContent =
    Agent_InputText rstr
  | Agent_EncryptedContent rstr

datatype FunctionCallOutputContentItem =
    Output_InputText rstr
  | Output_InputImage rstr "ImageDetail option"
  | Output_InputAudio rstr
  | Output_EncryptedContent rstr

datatype FunctionCallOutputBody =
    Body_Text rstr
  | Body_ContentItems "FunctionCallOutputContentItem list"

record FunctionCallOutputPayload =
  fco_body :: FunctionCallOutputBody
  fco_success :: "bool option"

definition payload_from_text :: "rstr \<Rightarrow> FunctionCallOutputPayload" where
  "payload_from_text content = \<lparr>fco_body = Body_Text content, fco_success = None\<rparr>"

datatype MessagePhase = Commentary | FinalAnswer

datatype LocalShellStatus = LS_Completed | LS_InProgress | LS_Incomplete

record LocalShellExecAction =
  exec_command :: "rstr list"
  exec_timeout_ms :: "nat option"
  exec_working_directory :: "rstr option"
  exec_env :: "(rstr \<rightharpoonup> rstr) option"
  exec_user :: "rstr option"

datatype LocalShellAction = LS_Exec LocalShellExecAction

datatype WebSearchAction =
    WS_Search "rstr option" "rstr list option"
  | WS_OpenPage "rstr option"
  | WS_FindInPage "rstr option" "rstr option"
  | WS_Other

datatype ReasoningItemReasoningSummary = SummaryText rstr

datatype ReasoningItemContent = ReasoningText rstr | Reasoning_Text rstr

datatype ReasoningEffort =
    Effort_None | Effort_Minimal | Effort_Low | Effort_Medium | Effort_High | Effort_XHigh
  | Effort_Max | Effort_Ultra | Effort_Persistent | Effort_Custom rstr

record ConfigurationReasoning =
  cfg_effort :: ReasoningEffort

record ToolResultSource =
  trs_type :: rstr
  trs_id :: rstr

datatype ToolResultSourcesValue = ParseFailed | Sources "ToolResultSource list"

record ExecutedToolCallTruncation =
  tct_original_bytes :: nat
  tct_max_bytes :: nat
  tct_omitted_calls :: "nat option"
  tct_original_name_bytes :: "nat option"

datatype ExecutedToolCallArguments =
    Arguments_Raw json_value
  | Arguments_Truncated ExecutedToolCallTruncation

record ExecutedToolCall =
  etc_name :: rstr
  etc_arguments :: ExecutedToolCallArguments
  etc_tool_result_sources :: "ToolResultSourcesValue option"

record InternalChatMessageMetadataPassthrough =
  md_turn_id :: "rstr option"
  md_create_time :: "json_number option"
  md_content_item_kinds :: "ContentItemKind list option"
  md_cell_id :: "rstr option"
  md_executed_tool_calls :: "ExecutedToolCall list option"
  md_tool_calls_complete :: "bool option"

type_synonym passthrough = InternalChatMessageMetadataPassthrough

definition default_passthrough :: passthrough where
  "default_passthrough =
     \<lparr>md_turn_id = None, md_create_time = None, md_content_item_kinds = None, md_cell_id = None,
      md_executed_tool_calls = None, md_tool_calls_complete = None\<rparr>"

datatype (plugins only: code size) ResponseItem =
    AdditionalTools "ResponseItemId option" rstr "json_value list"
  | Message "ResponseItemId option" rstr "ContentItem list" "MessagePhase option" "passthrough option"
  | AgentMessage "ResponseItemId option" rstr rstr "AgentMessageInputContent list" "passthrough option"
  | Reasoning "ResponseItemId option" "ReasoningItemReasoningSummary list"
      "ReasoningItemContent list option" "rstr option" "passthrough option"
  | LocalShellCall "ResponseItemId option" "rstr option" LocalShellStatus LocalShellAction
      "passthrough option"
  | FunctionCall "ResponseItemId option" rstr "rstr option" rstr "rstr list option" rstr
      "passthrough option"
  | ToolSearchCall "ResponseItemId option" "rstr option" "rstr option" rstr json_value
      "passthrough option"
  | FunctionCallOutput "ResponseItemId option" "rstr option" "rstr option" "rstr option"
      FunctionCallOutputPayload "passthrough option"
  | CustomToolCall "ResponseItemId option" "rstr option" rstr rstr "rstr option" rstr
      "passthrough option"
  | CustomToolCallOutput "ResponseItemId option" rstr "rstr option" FunctionCallOutputPayload
      "passthrough option"
  | ToolSearchOutput "ResponseItemId option" "rstr option" rstr rstr "json_value list"
      "passthrough option"
  | WebSearchCall "ResponseItemId option" "rstr option" "WebSearchAction option" "passthrough option"
  | ImageGenerationCall "ResponseItemId option" rstr "rstr option" rstr "passthrough option"
  | Compaction "ResponseItemId option" rstr "passthrough option"
  | ConfigurationUpdate ConfigurationReasoning
  | CompactionTrigger
  | ContextCompaction "ResponseItemId option" "rstr option" "passthrough option"
  | OtherItem

section \<open>The envelope\<close>

record CodexHarnessMetadata =
  hm_client_authored :: bool
  hm_fallback_token_limit_override :: "nat option"
  hm_harness_authored_configuration :: bool
  hm_compaction_model_hash :: "rstr option"
  hm_user_input_order :: "nat option"
  hm_inherited_user_message :: bool

record ResponseItemEnvelope =
  env_item :: ResponseItem
  env_metadata :: "CodexHarnessMetadata option"

definition envelope_new :: "ResponseItem \<Rightarrow> ResponseItemEnvelope" where
  "envelope_new item = \<lparr>env_item = item, env_metadata = None\<rparr>"

section \<open>Content with its classification\<close>

record AnnotatedContent =
  ann_content :: ContentItem
  ann_kind :: ContentItemKind

text \<open>
  \<open>to_annotated_content\<close> takes the content and the kinds out of the item and pairs them, a
  missing kind being \<open>unknown\<close>; the item keeps an empty content and no kinds.
\<close>

definition unknown_kind :: ContentItemKind where
  "unknown_kind = lit ''unknown''"

definition to_annotated_content ::
  "ResponseItem \<Rightarrow> (AnnotatedContent list \<times> ResponseItem) option" where
  "to_annotated_content item =
     (case item of
        Message iid role content phase md \<Rightarrow>
          let kinds = (case md of None \<Rightarrow> [] | Some m \<Rightarrow>
                         (case md_content_item_kinds m of None \<Rightarrow> [] | Some ks \<Rightarrow> ks));
              md' = map_option (\<lambda>m. m\<lparr>md_content_item_kinds := None\<rparr>) md
          in Some (map (\<lambda>(c, k). \<lparr>ann_content = c, ann_kind = k\<rparr>)
                     (zip content (kinds @ replicate (length content) unknown_kind)),
                   Message iid role [] phase md')
      | _ \<Rightarrow> None)"

definition set_annotated_content ::
  "ResponseItem \<Rightarrow> AnnotatedContent list \<Rightarrow> ResponseItem option" where
  "set_annotated_content item annotated =
     (case item of
        Message iid role content phase md \<Rightarrow>
          let m = (case md of None \<Rightarrow> default_passthrough | Some m \<Rightarrow> m)
          in Some (Message iid role (map ann_content annotated) phase
                     (Some (m\<lparr>md_content_item_kinds := Some (map ann_kind annotated)\<rparr>)))
      | _ \<Rightarrow> None)"

end
