(* ===== verification/Output_Truncation.thy ===== *)
theory Output_Truncation
  imports Response_Item "HOL-Library.Sublist"
begin

text \<open>
  Truncation of large outputs (\<open>utils/string/src/truncate.rs\<close>,
  \<open>utils/output-truncation/src/lib.rs\<close> and \<open>TruncationPolicy\<close> of \<open>protocol/src/protocol.rs\<close>):
  the middle of a text is replaced by a marker, within a budget of bytes or of approximate
  tokens (four bytes each).

  Here the byte positions matter: a position is a number of bytes, and a slice of a text at
  a position that is no character boundary is a panic, \<open>None\<close>. The estimate of the tokens of
  an audio item is a parameter, as in the code.
\<close>

section \<open>Budgets\<close>

definition APPROX_BYTES_PER_TOKEN :: nat where
  "APPROX_BYTES_PER_TOKEN = 4"

definition approx_token_count :: "rstr \<Rightarrow> nat" where
  "approx_token_count s =
     sat_add (str_len s) (APPROX_BYTES_PER_TOKEN - 1) div APPROX_BYTES_PER_TOKEN"

definition approx_bytes_for_tokens :: "nat \<Rightarrow> nat" where
  "approx_bytes_for_tokens tokens = sat_mul tokens APPROX_BYTES_PER_TOKEN"

definition approx_tokens_from_byte_count :: "nat \<Rightarrow> nat" where
  "approx_tokens_from_byte_count bytes =
     sat_add bytes (APPROX_BYTES_PER_TOKEN - 1) div APPROX_BYTES_PER_TOKEN"

definition approx_tokens_from_byte_count_i64 :: "int \<Rightarrow> int" where
  "approx_tokens_from_byte_count_i64 bytes =
     (if bytes \<le> 0 then 0
      else min (int (approx_tokens_from_byte_count (nat bytes))) 9223372036854775807)"

datatype TruncationPolicy = Bytes nat | Tokens nat

fun token_budget :: "TruncationPolicy \<Rightarrow> nat" where
  "token_budget (Bytes bytes) = approx_tokens_from_byte_count bytes"
| "token_budget (Tokens tokens) = tokens"

fun byte_budget :: "TruncationPolicy \<Rightarrow> nat" where
  "byte_budget (Bytes bytes) = bytes"
| "byte_budget (Tokens tokens) = approx_bytes_for_tokens tokens"

section \<open>Cutting the middle of a text\<close>

text \<open>\<open>&s[..n]\<close> and \<open>&s[n..]\<close>.\<close>

fun slice_to :: "nat \<Rightarrow> rstr \<Rightarrow> rstr option" where
  "slice_to n [] = (if n = 0 then Some [] else None)"
| "slice_to n (c # cs) =
     (if n = 0 then Some []
      else if len_utf8 c \<le> n then map_option ((#) c) (slice_to (n - len_utf8 c) cs) else None)"

fun slice_from :: "nat \<Rightarrow> rstr \<Rightarrow> rstr option" where
  "slice_from n [] = (if n = 0 then Some [] else None)"
| "slice_from n (c # cs) =
     (if n = 0 then Some (c # cs)
      else if len_utf8 c \<le> n then slice_from (n - len_utf8 c) cs else None)"

record split_state =
  sp_prefix_end :: nat
  sp_suffix_start :: nat
  sp_removed_chars :: nat
  sp_suffix_started :: bool

definition split_char_step :: "nat \<Rightarrow> nat \<Rightarrow> nat \<Rightarrow> uchar \<Rightarrow> split_state \<Rightarrow> split_state" where
  "split_char_step beginning_bytes tail_start_target idx ch st =
     (let char_end = idx + len_utf8 ch
      in if char_end \<le> beginning_bytes then st\<lparr>sp_prefix_end := char_end\<rparr>
         else if idx \<ge> tail_start_target then
           (if \<not> sp_suffix_started st then st\<lparr>sp_suffix_start := idx, sp_suffix_started := True\<rparr>
            else st)
         else st\<lparr>sp_removed_chars := sat_add (sp_removed_chars st) 1\<rparr>)"

fun split_chars :: "nat \<Rightarrow> nat \<Rightarrow> nat \<Rightarrow> rstr \<Rightarrow> split_state \<Rightarrow> split_state" where
  "split_chars beginning_bytes tail_start_target idx [] st = st"
| "split_chars beginning_bytes tail_start_target idx (c # cs) st =
     split_chars beginning_bytes tail_start_target (idx + len_utf8 c) cs
       (split_char_step beginning_bytes tail_start_target idx c st)"

definition split_string :: "rstr \<Rightarrow> nat \<Rightarrow> nat \<Rightarrow> (nat \<times> rstr \<times> rstr) option" where
  "split_string s beginning_bytes end_bytes =
     (if s = [] then Some (0, [], [])
      else
        let len = str_len s; tail_start_target = len - end_bytes;
            st = split_chars beginning_bytes tail_start_target 0 s
                   \<lparr>sp_prefix_end = 0, sp_suffix_start = len, sp_removed_chars = 0,
                    sp_suffix_started = False\<rparr>;
            suffix_start = (if sp_suffix_start st < sp_prefix_end st then sp_prefix_end st
                            else sp_suffix_start st)
        in Option.bind (slice_to (sp_prefix_end st) s) (\<lambda>before.
           Option.bind (slice_from suffix_start s) (\<lambda>after.
             Some (sp_removed_chars st, before, after))))"

definition split_budget :: "nat \<Rightarrow> nat \<times> nat" where
  "split_budget budget = (budget div 2, budget - budget div 2)"

abbreviation ellipsis :: uchar where "ellipsis \<equiv> 8230"

definition format_truncation_marker :: "bool \<Rightarrow> nat \<Rightarrow> rstr" where
  "format_truncation_marker use_tokens removed_count =
     (if use_tokens then [ellipsis] @ dec removed_count @ lit '' tokens truncated'' @ [ellipsis]
      else [ellipsis] @ dec removed_count @ lit '' chars truncated'' @ [ellipsis])"

definition removed_units :: "bool \<Rightarrow> nat \<Rightarrow> nat \<Rightarrow> nat" where
  "removed_units use_tokens removed_bytes removed_chars =
     (if use_tokens then approx_tokens_from_byte_count removed_bytes else removed_chars)"

definition assemble_truncated_output :: "rstr \<Rightarrow> rstr \<Rightarrow> rstr \<Rightarrow> rstr" where
  "assemble_truncated_output pre suf marker = pre @ marker @ suf"

definition truncate_with_byte_estimate :: "rstr \<Rightarrow> nat \<Rightarrow> bool \<Rightarrow> rstr option" where
  "truncate_with_byte_estimate s max_bytes use_tokens =
     (if s = [] then Some []
      else if max_bytes = 0 then
        Some (format_truncation_marker use_tokens (removed_units use_tokens (str_len s) (length s)))
      else if str_len s \<le> max_bytes then Some s
      else
        let (left_budget, right_budget) = split_budget max_bytes
        in Option.bind (split_string s left_budget right_budget) (\<lambda>(removed_chars, left, right).
             Some (assemble_truncated_output left right
               (format_truncation_marker use_tokens
                 (removed_units use_tokens (str_len s - max_bytes) removed_chars)))))"

definition truncate_middle_chars :: "rstr \<Rightarrow> nat \<Rightarrow> rstr option" where
  "truncate_middle_chars s max_bytes = truncate_with_byte_estimate s max_bytes False"

definition truncate_middle_with_token_budget :: "rstr \<Rightarrow> nat \<Rightarrow> (rstr \<times> nat option) option" where
  "truncate_middle_with_token_budget s max_tokens =
     (if s = [] then Some ([], None)
      else if max_tokens > 0 \<and> str_len s \<le> approx_bytes_for_tokens max_tokens then Some (s, None)
      else
        map_option (\<lambda>truncated.
            let total_tokens = approx_token_count s
            in if truncated = s then (truncated, None) else (truncated, Some total_tokens))
          (truncate_with_byte_estimate s (approx_bytes_for_tokens max_tokens) True))"

definition truncate_text :: "rstr \<Rightarrow> TruncationPolicy \<Rightarrow> rstr option" where
  "truncate_text content policy =
     (case policy of
        Bytes bytes \<Rightarrow> truncate_middle_chars content bytes
      | Tokens tokens \<Rightarrow> map_option fst (truncate_middle_with_token_budget content tokens))"

definition formatted_truncate_text :: "rstr \<Rightarrow> TruncationPolicy \<Rightarrow> rstr option" where
  "formatted_truncate_text content policy =
     (if str_len content \<le> byte_budget policy then Some content
      else map_option (\<lambda>result.
          lit ''Warning: truncated output (original token count: '' @ dec (approx_token_count content)
          @ lit '')'' @ [nl] @ lit ''Total output lines: '' @ dec (length (str_lines content))
          @ [nl, nl] @ result)
        (truncate_text content policy))"

section \<open>Positions in a text\<close>

lemma len_utf8_pos [simp]: "0 < len_utf8 c"
  by (simp add: len_utf8_def)

lemma str_len_simps [simp]:
  "str_len [] = 0" "str_len (c # s) = len_utf8 c + str_len s" "str_len (s @ t) = str_len s + str_len t"
  by (simp_all add: str_len_def)

lemma slice_append [simp]:
  "slice_to (str_len a) (a @ b) = Some a"
  "slice_from (str_len a) (a @ b) = Some b"
  by (induction a; cases b; simp)+

lemma split_chars_prefix:
  "idx + str_len l \<le> b \<Longrightarrow>
     split_chars b t idx (l @ r) st =
       split_chars b t (idx + str_len l) r
         (if l = [] then st else st\<lparr>sp_prefix_end := idx + str_len l\<rparr>)"
proof (induction l arbitrary: idx st)
  case (Cons c l)
  then show ?case by (simp add: split_char_step_def Let_def add.assoc)
qed simp

lemma split_chars_middle:
  "(\<forall>c r. m = c # r \<longrightarrow> b < idx + len_utf8 c) \<Longrightarrow> idx + str_len (butlast m) < t \<Longrightarrow>
   sp_removed_chars st + length m \<le> usize_max \<Longrightarrow>
     split_chars b t idx (m @ r) st =
       split_chars b t (idx + str_len m) r (st\<lparr>sp_removed_chars := sp_removed_chars st + length m\<rparr>)"
proof (induction m arbitrary: idx st)
  case (Cons c m)
  then have step: "split_char_step b t idx c st = st\<lparr>sp_removed_chars := sp_removed_chars st + 1\<rparr>"
    by (auto simp: split_char_step_def Let_def sat_add_def)
  show ?case
  proof (cases m)
    case Nil
    with step show ?thesis by simp
  next
    case (Cons d n)
    have "b < idx + len_utf8 c" using Cons.prems(1) by simp
    then have "split_chars b t (idx + len_utf8 c) (m @ r) (st\<lparr>sp_removed_chars := sp_removed_chars st + 1\<rparr>)
      = split_chars b t (idx + len_utf8 c + str_len m) r
          (st\<lparr>sp_removed_chars := sp_removed_chars st + 1 + length m\<rparr>)"
      using Cons.IH [of "idx + len_utf8 c" "st\<lparr>sp_removed_chars := sp_removed_chars st + 1\<rparr>"] Cons.prems(2,3)
      by (simp add: Cons)
    with step show ?thesis by (simp add: add.assoc)
  qed
qed simp

lemma split_chars_suffix:
  "t \<le> idx \<Longrightarrow> b \<le> idx \<Longrightarrow>
     split_chars b t idx s st =
       (if s = [] \<or> sp_suffix_started st then st
        else st\<lparr>sp_suffix_start := idx, sp_suffix_started := True\<rparr>)"
proof (induction s arbitrary: idx st)
  case (Cons c s)
  have "\<not> idx + len_utf8 c \<le> b" using Cons.prems(2) len_utf8_pos [of c] by linarith
  with Cons show ?case by (simp add: split_char_step_def Let_def)
qed simp

lemma prefix_within:
  "\<exists>l x. s = l @ x \<and> str_len l \<le> b \<and> (\<forall>c r. x = c # r \<longrightarrow> b < str_len l + len_utf8 c)"
proof (induction s arbitrary: b)
  case (Cons c s)
  show ?case
  proof (cases "len_utf8 c \<le> b")
    case True
    obtain l x where l: "s = l @ x" "str_len l \<le> b - len_utf8 c"
      "\<forall>d r. x = d # r \<longrightarrow> b - len_utf8 c < str_len l + len_utf8 d" using Cons.IH by blast
    with True show ?thesis by (intro exI [of _ "c # l"] exI [of _ x]) auto
  next
    case False
    then show ?thesis by (intro exI [of _ "[]"] exI [of _ "c # s"]) auto
  qed
qed simp

lemma suffix_within:
  "\<exists>m r. s = m @ r \<and> str_len r \<le> e \<and> (m \<noteq> [] \<longrightarrow> e < str_len r + len_utf8 (last m))"
proof (induction s arbitrary: e rule: rev_induct)
  case (snoc c s)
  show ?case
  proof (cases "len_utf8 c \<le> e")
    case True
    obtain m r where l: "s = m @ r" "str_len r \<le> e - len_utf8 c"
      "m \<noteq> [] \<longrightarrow> e - len_utf8 c < str_len r + len_utf8 (last m)" using snoc.IH by blast
    with True show ?thesis by (intro exI [of _ m] exI [of _ "r @ [c]"]) auto
  next
    case False
    then show ?thesis by (intro exI [of _ "s @ [c]"] exI [of _ "[]"]) auto
  qed
qed simp

text \<open>
  A cut that fits: what is kept is a beginning and an end within their budgets, neither
  could take one more character, and the removed middle is counted exactly.
\<close>

definition cut_within :: "nat \<Rightarrow> nat \<Rightarrow> rstr \<Rightarrow> rstr \<Rightarrow> rstr \<Rightarrow> rstr \<Rightarrow> bool" where
  "cut_within b e s l m r \<longleftrightarrow>
     s = l @ m @ r \<and> m \<noteq> [] \<and> str_len l \<le> b \<and> str_len r \<le> e
     \<and> b < str_len l + len_utf8 (hd m) \<and> e < str_len r + len_utf8 (last m)"

lemma length_le_str_len: "length s \<le> str_len s"
proof (induction s)
  case (Cons c s)
  have "0 < len_utf8 c" by simp
  with Cons show ?case by (simp del: len_utf8_pos)
qed simp

lemma split_string_cut:
  assumes "b + e < str_len s" "str_len s \<le> usize_max"
  obtains l m r where "cut_within b e s l m r" "split_string s b e = Some (length m, l, r)"
proof -
  obtain l x where l: "s = l @ x" "str_len l \<le> b" "\<forall>c r. x = c # r \<longrightarrow> b < str_len l + len_utf8 c"
    using prefix_within by blast
  obtain m r where m: "x = m @ r" "str_len r \<le> e" "m \<noteq> [] \<longrightarrow> e < str_len r + len_utf8 (last m)"
    using suffix_within by blast
  have len: "str_len s = str_len l + str_len m + str_len r" using l(1) m(1) by simp
  with assms(1) l(2) m(2) have "m \<noteq> []" by auto
  then obtain c m' where cm: "m = c # m'" by (cases m) auto
  have cut: "cut_within b e s l m r"
    using l m cm by (simp add: cut_within_def)
  have last: "str_len m = str_len (butlast m) + len_utf8 (last m)"
    using \<open>m \<noteq> []\<close> by (subst append_butlast_last_id [symmetric, of m]) (simp_all del: append_butlast_last_id)
  let ?t = "str_len s - e"
  let ?st = "\<lparr>sp_prefix_end = 0, sp_suffix_start = str_len s, sp_removed_chars = 0, sp_suffix_started = False\<rparr>"
  let ?st1 = "?st\<lparr>sp_prefix_end := str_len l\<rparr>"
  have "split_chars b ?t 0 (l @ m @ r) ?st = split_chars b ?t (str_len l) (m @ r) ?st1"
    using split_chars_prefix [of 0 l b ?t "m @ r" ?st] l(2) by simp
  also have "\<dots> = split_chars b ?t (str_len l + str_len m) r (?st1\<lparr>sp_removed_chars := length m\<rparr>)"
  proof (subst split_chars_middle)
    show "\<forall>c r. m = c # r \<longrightarrow> b < str_len l + len_utf8 c" using l(3) m(1) by auto
    show "str_len l + str_len (butlast m) < ?t" using len last m(3) \<open>m \<noteq> []\<close> by linarith
    show "sp_removed_chars ?st1 + length m \<le> usize_max"
      using length_le_str_len [of m] len assms(2) by simp
  qed simp
  also have "\<dots> = \<lparr>sp_prefix_end = str_len l, sp_suffix_start = str_len l + str_len m,
      sp_removed_chars = length m, sp_suffix_started = (r \<noteq> [])\<rparr>"
  proof (subst split_chars_suffix)
    show "?t \<le> str_len l + str_len m" using len m(2) by linarith
    show "b \<le> str_len l + str_len m" using l(3) m(1) cm by auto
  qed (use len in auto)
  finally have st: "split_chars b ?t 0 s ?st = \<lparr>sp_prefix_end = str_len l,
      sp_suffix_start = str_len l + str_len m, sp_removed_chars = length m, sp_suffix_started = (r \<noteq> [])\<rparr>"
    using l(1) m(1) by simp
  have "slice_from (str_len l + str_len m) s = Some r"
    using slice_append(2) [of "l @ m" r] l(1) m(1) by simp
  then have "split_string s b e = Some (length m, l, r)"
    using l(1) cm m(1) st by (simp add: split_string_def Let_def)
  with cut show thesis by (rule that)
qed

text \<open>What truncation to a positive number of bytes does, in characters and in tokens.\<close>

lemma truncate_cut:
  assumes "0 < n" "n < str_len s" "str_len s \<le> usize_max"
  obtains l m r where "cut_within (n div 2) (n - n div 2) s l m r"
    "truncate_with_byte_estimate s n use_tokens =
       Some (l @ format_truncation_marker use_tokens
                  (removed_units use_tokens (str_len s - n) (length m)) @ r)"
proof -
  have "n div 2 + (n - n div 2) < str_len s" using assms(2) by simp
  then obtain l m r where cut: "cut_within (n div 2) (n - n div 2) s l m r"
    "split_string s (n div 2) (n - n div 2) = Some (length m, l, r)"
    using split_string_cut assms(3) by blast
  moreover have "s \<noteq> []" using assms(2) by auto
  ultimately show thesis
    using assms by (intro that [of l m r])
      (simp_all add: truncate_with_byte_estimate_def split_budget_def assemble_truncated_output_def)
qed

lemma truncate_text_simps:
  "truncate_text s (Bytes n) = truncate_with_byte_estimate s n False"
  "truncate_text s (Tokens k) =
     (if s = [] \<or> (0 < k \<and> str_len s \<le> approx_bytes_for_tokens k) then Some s
      else truncate_with_byte_estimate s (approx_bytes_for_tokens k) True)"
proof -
  show "truncate_text s (Bytes n) = truncate_with_byte_estimate s n False"
    by (simp add: truncate_text_def truncate_middle_chars_def)
  show "truncate_text s (Tokens k) =
     (if s = [] \<or> (0 < k \<and> str_len s \<le> approx_bytes_for_tokens k) then Some s
      else truncate_with_byte_estimate s (approx_bytes_for_tokens k) True)"
    by (cases "truncate_with_byte_estimate s (approx_bytes_for_tokens k) True")
      (auto simp: truncate_text_def truncate_middle_with_token_budget_def Let_def)
qed

lemma truncate_text_total:
  assumes "str_len s \<le> usize_max"
  shows "truncate_text s policy \<noteq> None"
proof -
  have "truncate_with_byte_estimate s n use_tokens \<noteq> None" for n use_tokens
  proof (cases "s = [] \<or> n = 0 \<or> str_len s \<le> n")
    case False
    then show ?thesis using truncate_cut [of n s] assms by (metis neq0_conv not_le option.discI)
  qed (auto simp: truncate_with_byte_estimate_def)
  then show ?thesis by (cases policy) (simp_all add: truncate_text_simps del: not_None_eq)
qed

definition is_tokens :: "TruncationPolicy \<Rightarrow> bool" where
  "is_tokens policy = (case policy of Bytes _ \<Rightarrow> False | Tokens _ \<Rightarrow> True)"

lemma truncate_text_shape:
  assumes "0 < byte_budget policy" "str_len s \<le> usize_max"
  shows "if str_len s \<le> byte_budget policy then truncate_text s policy = Some s
    else \<exists>l m r. cut_within (byte_budget policy div 2) (byte_budget policy - byte_budget policy div 2) s l m r
      \<and> truncate_text s policy =
          Some (l @ format_truncation_marker (is_tokens policy)
                     (removed_units (is_tokens policy) (str_len s - byte_budget policy) (length m)) @ r)"
proof (cases "str_len s \<le> byte_budget policy")
  case True
  with assms(1) show ?thesis
    by (cases policy)
      (auto simp: truncate_text_simps truncate_with_byte_estimate_def approx_bytes_for_tokens_def sat_mul_def)
next
  case False
  then obtain l m r where cut: "cut_within (byte_budget policy div 2) (byte_budget policy - byte_budget policy div 2) s l m r"
    "truncate_with_byte_estimate s (byte_budget policy) (is_tokens policy) =
       Some (l @ format_truncation_marker (is_tokens policy)
                  (removed_units (is_tokens policy) (str_len s - byte_budget policy) (length m)) @ r)"
    using truncate_cut [of "byte_budget policy" s "is_tokens policy"] assms by (metis not_le)
  have "s \<noteq> []" using False by auto
  with cut(2) False have "truncate_text s policy = truncate_with_byte_estimate s (byte_budget policy) (is_tokens policy)"
    by (cases policy) (auto simp: truncate_text_simps is_tokens_def)
  with cut False show ?thesis by auto
qed

text \<open>C20: with a budget of at least one byte, a text within it is left as it is, and a longer
  text keeps a beginning of at most half the budget and an end of at most the other half,
  each as long as whole characters allow, around a marker that counts what was removed
  between them; truncation never cuts inside a character.\<close>

theorem truncation_keeps_both_ends:
  assumes "0 < byte_budget policy" "str_len s \<le> usize_max"
  shows "if str_len s \<le> byte_budget policy then truncate_text s policy = Some s
    else \<exists>l m r. cut_within (byte_budget policy div 2) (byte_budget policy - byte_budget policy div 2) s l m r
      \<and> truncate_text s policy =
          Some (l @ format_truncation_marker (is_tokens policy)
                     (removed_units (is_tokens policy) (str_len s - byte_budget policy) (length m)) @ r)"
  using assms by (rule truncate_text_shape)

theorem truncation_keeps_both_ends_witness:
  "\<exists>l m r. cut_within 2 2 (lit ''abcdefgh'') l m r
     \<and> truncate_text (lit ''abcdefgh'') (Tokens 1) = Some (l @ format_truncation_marker True 1 @ r)"
proof -
  have "0 < byte_budget (Tokens 1)" "str_len (lit ''abcdefgh'') \<le> usize_max"
    by (simp_all add: approx_bytes_for_tokens_def sat_mul_def APPROX_BYTES_PER_TOKEN_def usize_max_def
        lit_def len_utf8_def)
  from truncation_keeps_both_ends [OF this] show ?thesis
    by (simp add: approx_bytes_for_tokens_def sat_mul_def APPROX_BYTES_PER_TOKEN_def usize_max_def
        lit_def len_utf8_def is_tokens_def removed_units_def approx_tokens_from_byte_count_def sat_add_def)
qed

text \<open>
  The marker is not part of the budget: a text that is cut has at least six approximate
  tokens, also where one was asked for.
\<close>

lemma marker_len: "24 \<le> str_len (format_truncation_marker True n)"
proof -
  have "1 \<le> length (dec n)" by (simp add: Suc_le_eq)
  then have "1 \<le> str_len (dec n)" using length_le_str_len [of "dec n"] by linarith
  then show ?thesis by (simp add: format_truncation_marker_def lit_def len_utf8_def)
qed

lemma truncation_can_exceed_budget:
  assumes "0 < k" "approx_bytes_for_tokens k < str_len s" "str_len s \<le> usize_max"
  shows "\<exists>t. truncate_text s (Tokens k) = Some t \<and> 6 \<le> approx_token_count t"
proof -
  have "0 < byte_budget (Tokens k)"
    using assms(1) by (simp add: approx_bytes_for_tokens_def sat_mul_def APPROX_BYTES_PER_TOKEN_def usize_max_def)
  from truncate_text_shape [OF this assms(3)] assms(2) obtain l n r where
    "truncate_text s (Tokens k) = Some (l @ format_truncation_marker True n @ r)"
    by (auto simp: is_tokens_def)
  moreover have "24 \<le> str_len (l @ format_truncation_marker True n @ r)"
    using marker_len [of n] by simp
  then have "6 \<le> approx_token_count (l @ format_truncation_marker True n @ r)"
    by (simp add: approx_token_count_def sat_add_def APPROX_BYTES_PER_TOKEN_def usize_max_def del: str_len_simps)
  ultimately show ?thesis by blast
qed

section \<open>Tool outputs\<close>

text \<open>One pass of the loop over the items of an output; the panic of a slice is \<open>None\<close>.\<close>

record items_state =
  it_out :: "FunctionCallOutputContentItem list"
  it_remaining_budget :: nat
  it_omitted_text_items :: nat
  it_omitted_audio_items :: nat

definition snippet_policy :: "TruncationPolicy \<Rightarrow> nat \<Rightarrow> TruncationPolicy" where
  "snippet_policy policy remaining =
     (case policy of Bytes _ \<Rightarrow> Bytes remaining | Tokens _ \<Rightarrow> Tokens remaining)"

definition text_cost :: "TruncationPolicy \<Rightarrow> rstr \<Rightarrow> nat" where
  "text_cost policy s = (case policy of Bytes _ \<Rightarrow> str_len s | Tokens _ \<Rightarrow> approx_token_count s)"

definition audio_cost :: "TruncationPolicy \<Rightarrow> (rstr \<Rightarrow> nat) \<Rightarrow> rstr \<Rightarrow> nat" where
  "audio_cost policy estimate url =
     (case policy of Bytes _ \<Rightarrow> approx_bytes_for_tokens (estimate url) | Tokens _ \<Rightarrow> estimate url)"

definition truncate_item_step ::
  "TruncationPolicy \<Rightarrow> (rstr \<Rightarrow> nat) \<Rightarrow> FunctionCallOutputContentItem \<Rightarrow> items_state \<Rightarrow> items_state option"
where
  "truncate_item_step policy estimate item st =
     (case item of
        Output_InputText s \<Rightarrow>
          if s = [] then Some st
          else if it_remaining_budget st = 0 then
            Some (st\<lparr>it_omitted_text_items := it_omitted_text_items st + 1\<rparr>)
          else if text_cost policy s \<le> it_remaining_budget st then
            Some (st\<lparr>it_out := it_out st @ [Output_InputText s],
                     it_remaining_budget := it_remaining_budget st - text_cost policy s\<rparr>)
          else
            map_option (\<lambda>snippet.
                (if snippet = [] then st\<lparr>it_omitted_text_items := it_omitted_text_items st + 1\<rparr>
                 else st\<lparr>it_out := it_out st @ [Output_InputText snippet]\<rparr>)
                \<lparr>it_remaining_budget := 0\<rparr>)
              (truncate_text s (snippet_policy policy (it_remaining_budget st)))
      | Output_InputImage url detail \<Rightarrow> Some (st\<lparr>it_out := it_out st @ [Output_InputImage url detail]\<rparr>)
      | Output_InputAudio url \<Rightarrow>
          if audio_cost policy estimate url \<le> it_remaining_budget st then
            Some (st\<lparr>it_out := it_out st @ [Output_InputAudio url],
                     it_remaining_budget := it_remaining_budget st - audio_cost policy estimate url\<rparr>)
          else Some (st\<lparr>it_omitted_audio_items := it_omitted_audio_items st + 1\<rparr>)
      | Output_EncryptedContent c \<Rightarrow> Some (st\<lparr>it_out := it_out st @ [Output_EncryptedContent c]\<rparr>))"

fun truncate_items ::
  "TruncationPolicy \<Rightarrow> (rstr \<Rightarrow> nat) \<Rightarrow> FunctionCallOutputContentItem list \<Rightarrow> items_state \<Rightarrow> items_state option"
where
  "truncate_items policy estimate [] st = Some st"
| "truncate_items policy estimate (i # is) st =
     Option.bind (truncate_item_step policy estimate i st) (truncate_items policy estimate is)"

definition omitted_note :: "nat \<Rightarrow> string \<Rightarrow> FunctionCallOutputContentItem list" where
  "omitted_note n what =
     (if n > 0 then [Output_InputText (lit ''[omitted '' @ dec n @ lit what)] else [])"

definition truncate_function_output_items_with_policy ::
  "FunctionCallOutputContentItem list \<Rightarrow> TruncationPolicy \<Rightarrow> (rstr \<Rightarrow> nat)
   \<Rightarrow> FunctionCallOutputContentItem list option" where
  "truncate_function_output_items_with_policy items policy estimate =
     map_option (\<lambda>st. it_out st @ omitted_note (it_omitted_text_items st) '' text items ...]''
                             @ omitted_note (it_omitted_audio_items st) '' audio items ...]'')
       (truncate_items policy estimate items
          \<lparr>it_out = [],
           it_remaining_budget =
             (case policy of Bytes _ \<Rightarrow> byte_budget policy | Tokens _ \<Rightarrow> token_budget policy),
           it_omitted_text_items = 0, it_omitted_audio_items = 0\<rparr>)"

definition truncate_function_output_payload ::
  "FunctionCallOutputPayload \<Rightarrow> TruncationPolicy \<Rightarrow> (rstr \<Rightarrow> nat) \<Rightarrow> FunctionCallOutputPayload option" where
  "truncate_function_output_payload output policy estimate =
     (case fco_body output of
        Body_Text s \<Rightarrow> map_option (\<lambda>t. output\<lparr>fco_body := Body_Text t\<rparr>) (truncate_text s policy)
      | Body_ContentItems items \<Rightarrow>
          map_option (\<lambda>out. output\<lparr>fco_body := Body_ContentItems out\<rparr>)
            (truncate_function_output_items_with_policy items policy estimate))"

fun output_text :: "FunctionCallOutputContentItem \<Rightarrow> rstr option" where
  "output_text (Output_InputText s) = Some s"
| "output_text _ = None"

definition combine_text_segments :: "rstr list \<Rightarrow> rstr" where
  "combine_text_segments segments =
     foldl (\<lambda>combined s. (if combined \<noteq> [] then combined @ [nl] else combined) @ s) [] segments"

definition formatted_truncate_text_content_items_with_policy ::
  "FunctionCallOutputContentItem list \<Rightarrow> TruncationPolicy
   \<Rightarrow> (FunctionCallOutputContentItem list \<times> nat option) option" where
  "formatted_truncate_text_content_items_with_policy items policy =
     (let segments = List.map_filter output_text items
      in if segments = [] then Some (items, None)
         else let combined = combine_text_segments segments
           in if str_len combined \<le> byte_budget policy then Some (items, None)
              else map_option (\<lambda>formatted.
                  (Output_InputText formatted # filter (\<lambda>i. output_text i = None) items,
                   Some (approx_token_count combined)))
                (formatted_truncate_text combined policy))"

section \<open>What happens to the items of a tool output\<close>

fun item_cost :: "TruncationPolicy \<Rightarrow> (rstr \<Rightarrow> nat) \<Rightarrow> FunctionCallOutputContentItem \<Rightarrow> nat" where
  "item_cost policy estimate (Output_InputText s) = text_cost policy s"
| "item_cost policy estimate (Output_InputAudio url) = audio_cost policy estimate url"
| "item_cost policy estimate _ = 0"

fun never_cut :: "FunctionCallOutputContentItem \<Rightarrow> bool" where
  "never_cut (Output_InputImage url detail) = True"
| "never_cut (Output_EncryptedContent c) = True"
| "never_cut _ = False"

definition text_in_range :: "FunctionCallOutputContentItem \<Rightarrow> bool" where
  "text_in_range i = (case output_text i of None \<Rightarrow> True | Some s \<Rightarrow> str_len s \<le> usize_max)"

lemma text_cost_pos:
  assumes "s \<noteq> []"
  shows "0 < text_cost policy s"
proof -
  obtain c s' where "s = c # s'" using assms by (cases s) auto
  moreover have "0 < len_utf8 c" by simp
  ultimately have "0 < str_len s" by simp
  then show ?thesis
    by (cases policy) (auto simp: text_cost_def approx_token_count_def sat_add_def APPROX_BYTES_PER_TOKEN_def
        usize_max_def div_greater_zero_iff)
qed

lemma truncate_item_step_total:
  "text_in_range i \<Longrightarrow> truncate_item_step policy estimate i st \<noteq> None"
  using truncate_text_total
  by (cases i) (auto simp: truncate_item_step_def text_in_range_def)

lemma truncate_items_total:
  "\<forall>i \<in> set items. text_in_range i \<Longrightarrow> truncate_items policy estimate items st \<noteq> None"
proof (induction items arbitrary: st)
  case (Cons i items)
  obtain st' where "truncate_item_step policy estimate i st = Some st'"
    using Cons.prems truncate_item_step_total by (metis list.set_intros(1) not_None_eq)
  with Cons show ?case by simp
qed simp

lemma truncate_item_step_media:
  "truncate_item_step policy estimate i st = Some st' \<Longrightarrow>
     filter never_cut (it_out st') = filter never_cut (it_out st) @ filter never_cut [i]"
  by (cases i) (auto simp: truncate_item_step_def split: if_splits)

lemma truncate_items_media:
  "truncate_items policy estimate items st = Some st' \<Longrightarrow>
     filter never_cut (it_out st') = filter never_cut (it_out st) @ filter never_cut items"
proof (induction items arbitrary: st)
  case (Cons i items)
  then obtain st1 where one: "truncate_item_step policy estimate i st = Some st1"
    "truncate_items policy estimate items st1 = Some st'" by (auto simp: bind_eq_Some_conv)
  from truncate_item_step_media [OF one(1)] Cons.IH [OF one(2)] show ?case by auto
qed simp

lemma truncate_items_within:
  "sum_list (map (item_cost policy estimate) items) \<le> it_remaining_budget st \<Longrightarrow>
     truncate_items policy estimate items st =
       Some (st\<lparr>it_out := it_out st @ filter (\<lambda>i. i \<noteq> Output_InputText []) items,
                it_remaining_budget :=
                  it_remaining_budget st - sum_list (map (item_cost policy estimate) items)\<rparr>)"
proof (induction items arbitrary: st)
  case (Cons i items)
  show ?case
  proof (cases i)
    case (Output_InputText s)
    have "s \<noteq> [] \<Longrightarrow> it_remaining_budget st \<noteq> 0"
      using text_cost_pos [of s policy] Cons.prems Output_InputText by auto
    moreover have "text_cost policy [] = 0"
      by (cases policy) (simp_all add: text_cost_def approx_token_count_def sat_add_def
          APPROX_BYTES_PER_TOKEN_def usize_max_def)
    ultimately show ?thesis using Cons by (auto simp: truncate_item_step_def Output_InputText)
  qed (use Cons in \<open>simp_all add: truncate_item_step_def\<close>)
qed simp

definition policy_budget :: "TruncationPolicy \<Rightarrow> nat" where
  "policy_budget policy =
     (case policy of Bytes _ \<Rightarrow> byte_budget policy | Tokens _ \<Rightarrow> token_budget policy)"

lemma tool_output_items:
  assumes "\<forall>i \<in> set items. text_in_range i"
  obtains out where "truncate_function_output_items_with_policy items policy estimate = Some out"
    "filter never_cut out = filter never_cut items"
    "sum_list (map (item_cost policy estimate) items) \<le> policy_budget policy
       \<Longrightarrow> out = filter (\<lambda>i. i \<noteq> Output_InputText []) items"
proof -
  let ?st = "\<lparr>it_out = [], it_remaining_budget = policy_budget policy, it_omitted_text_items = 0,
              it_omitted_audio_items = 0\<rparr>"
  obtain st' where st': "truncate_items policy estimate items ?st = Some st'"
    using truncate_items_total [OF assms] by blast
  let ?out = "it_out st' @ omitted_note (it_omitted_text_items st') '' text items ...]''
                @ omitted_note (it_omitted_audio_items st') '' audio items ...]''"
  have "truncate_function_output_items_with_policy items policy estimate = Some ?out"
    using st' by (simp add: truncate_function_output_items_with_policy_def policy_budget_def)
  moreover have "filter never_cut ?out = filter never_cut items"
    using truncate_items_media [OF st'] by (simp add: omitted_note_def)
  moreover have "?out = filter (\<lambda>i. i \<noteq> Output_InputText []) items"
    if "sum_list (map (item_cost policy estimate) items) \<le> policy_budget policy"
    using truncate_items_within [of policy estimate items ?st] that st' by (auto simp: omitted_note_def)
  ultimately show thesis by (rule that)
qed

text \<open>Truncating the items of a tool output always succeeds and keeps every image and every
  encrypted item, in order; when the text and the audio cost no more than the budget, it
  keeps everything but empty texts.\<close>

theorem tool_output_within_budget_is_kept:
  assumes "\<forall>i \<in> set items. text_in_range i"
  shows "\<exists>out. truncate_function_output_items_with_policy items policy estimate = Some out
     \<and> filter never_cut out = filter never_cut items
     \<and> (sum_list (map (item_cost policy estimate) items) \<le> policy_budget policy
          \<longrightarrow> out = filter (\<lambda>i. i \<noteq> Output_InputText []) items)"
  using tool_output_items [OF assms, of policy estimate] by metis

theorem tool_output_within_budget_is_kept_witness:
  "truncate_function_output_items_with_policy
       [Output_InputText (lit ''ok''), Output_InputText [], Output_InputImage (lit ''u'') None] (Bytes 5) (\<lambda>_. 0)
     = Some [Output_InputText (lit ''ok''), Output_InputImage (lit ''u'') None]"
proof -
  have "\<forall>i \<in> set [Output_InputText (lit ''ok''), Output_InputText [], Output_InputImage (lit ''u'') None].
     text_in_range i"
    by (simp add: text_in_range_def lit_def len_utf8_def usize_max_def)
  from tool_output_within_budget_is_kept [OF this, of "Bytes 5" "\<lambda>_. 0"] show ?thesis
    by (simp add: text_cost_def policy_budget_def lit_def len_utf8_def)
qed

end
