(* ===== verification/Context_Normalize.thy ===== *)
theory Context_Normalize
  imports Response_Item
begin

text \<open>
  The normalization of the history that is sent to the model
  (\<open>core/src/context_manager/normalize.rs\<close> and the operations of
  \<open>core/src/context_manager/history.rs\<close> that call it): every call gets an output, an output
  without a call is dropped, and media the model does not support are replaced by a text.

  \<open>error_or_panic\<close> panics in a debug build and logs otherwise; the build is the parameter
  \<open>debug\<close> and the panic is \<open>None\<close>. \<open>Uuid::new_v5\<close> belongs to the \<open>uuid\<close> crate: the suffix it
  gives for a name is the parameter \<open>v5\<close>.
\<close>

datatype InputModality = ModText | ModImage | ModAudio

section \<open>Calls get outputs\<close>

fun function_output_id :: "ResponseItem \<Rightarrow> rstr option" where
  "function_output_id (FunctionCallOutput _ (Some call_id) _ _ _ _) = Some call_id"
| "function_output_id _ = None"

fun tool_search_output_id :: "ResponseItem \<Rightarrow> rstr option" where
  "tool_search_output_id (ToolSearchOutput _ (Some call_id) _ _ _ _) = Some call_id"
| "tool_search_output_id _ = None"

fun custom_tool_output_id :: "ResponseItem \<Rightarrow> rstr option" where
  "custom_tool_output_id (CustomToolCallOutput _ call_id _ _ _) = Some call_id"
| "custom_tool_output_id _ = None"

definition collect_ids :: "(ResponseItem \<Rightarrow> rstr option) \<Rightarrow> ResponseItemEnvelope list \<Rightarrow> rstr set" where
  "collect_ids id_of items = set (List.map_filter (\<lambda>e. id_of (env_item e)) items)"

definition synthetic_output_id ::
  "(rstr \<Rightarrow> rstr) \<Rightarrow> rstr \<Rightarrow> ResponseItemId option \<Rightarrow> ResponseItemId option" where
  "synthetic_output_id v5 pre item_id =
     (case item_id of
        None \<Rightarrow> None
      | Some source_id \<Rightarrow>
          if source_id = [] then None
          else Some (pre @ lit ''_'' @ v5 (pre @ lit '':'' @ source_id)))"

definition aborted_payload :: FunctionCallOutputPayload where
  "aborted_payload = payload_from_text (lit ''aborted'')"

text \<open>The output made up for a call that has none, and whether making it up is an error.\<close>

fun missing_output ::
  "(rstr \<Rightarrow> rstr) \<Rightarrow> rstr set \<Rightarrow> rstr set \<Rightarrow> rstr set \<Rightarrow> ResponseItem \<Rightarrow> (bool \<times> ResponseItem) option"
where
  "missing_output v5 fos tsos ctos (FunctionCall iid name namespace args enc call_id md) =
     (if call_id \<notin> fos then
        Some (False, FunctionCallOutput (synthetic_output_id v5 (lit ''fco'') iid) (Some call_id)
                       None None aborted_payload None)
      else None)"
| "missing_output v5 fos tsos ctos (ToolSearchCall iid (Some call_id) status execution args md) =
     (if call_id \<notin> tsos then
        Some (False, ToolSearchOutput (synthetic_output_id v5 (lit ''tso'') iid) (Some call_id)
                       (lit ''completed'') (lit ''client'') [] None)
      else None)"
| "missing_output v5 fos tsos ctos (CustomToolCall iid status call_id name namespace inp md) =
     (if call_id \<notin> ctos then
        Some (True, CustomToolCallOutput (synthetic_output_id v5 (lit ''ctco'') iid) call_id
                      None aborted_payload None)
      else None)"
| "missing_output v5 fos tsos ctos (LocalShellCall iid (Some call_id) status action md) =
     (if call_id \<notin> fos then
        Some (True, FunctionCallOutput (synthetic_output_id v5 (lit ''fco'') iid) (Some call_id)
                      None None aborted_payload None)
      else None)"
| "missing_output v5 fos tsos ctos _ = None"

definition vec_insert :: "nat \<Rightarrow> 'a \<Rightarrow> 'a list \<Rightarrow> 'a list" where
  "vec_insert n x xs = take n xs @ x # drop n xs"

definition missing_outputs_to_insert ::
  "(rstr \<Rightarrow> rstr) \<Rightarrow> ResponseItemEnvelope list \<Rightarrow> (nat \<times> bool \<times> ResponseItemEnvelope) list" where
  "missing_outputs_to_insert v5 items =
     (let fos = collect_ids function_output_id items;
          tsos = collect_ids tool_search_output_id items;
          ctos = collect_ids custom_tool_output_id items
      in List.map_filter
           (\<lambda>(idx, e). map_option (\<lambda>(is_error, out). (idx, is_error, envelope_new out))
                         (missing_output v5 fos tsos ctos (env_item e)))
           (enumerate 0 items))"

definition ensure_call_outputs_present ::
  "bool \<Rightarrow> (rstr \<Rightarrow> rstr) \<Rightarrow> ResponseItemEnvelope list \<Rightarrow> ResponseItemEnvelope list option" where
  "ensure_call_outputs_present debug v5 items =
     (let missing = missing_outputs_to_insert v5 items
      in if debug \<and> list_ex (\<lambda>(_, is_error, _). is_error) missing then None
         else Some (foldl (\<lambda>its (idx, _, e). vec_insert (idx + 1) e its) items (rev missing)))"

section \<open>Outputs without a call are dropped\<close>

fun function_call_id :: "ResponseItem \<Rightarrow> rstr option" where
  "function_call_id (FunctionCall _ _ _ _ _ call_id _) = Some call_id"
| "function_call_id (LocalShellCall _ (Some call_id) _ _ _) = Some call_id"
| "function_call_id _ = None"

fun tool_search_call_id :: "ResponseItem \<Rightarrow> rstr option" where
  "tool_search_call_id (ToolSearchCall _ (Some call_id) _ _ _ _) = Some call_id"
| "tool_search_call_id _ = None"

fun custom_tool_call_id :: "ResponseItem \<Rightarrow> rstr option" where
  "custom_tool_call_id (CustomToolCall _ _ call_id _ _ _ _) = Some call_id"
| "custom_tool_call_id _ = None"

fun is_orphan :: "rstr set \<Rightarrow> rstr set \<Rightarrow> rstr set \<Rightarrow> ResponseItem \<Rightarrow> bool" where
  "is_orphan fcs tscs ctcs (FunctionCallOutput _ (Some call_id) _ _ _ _) = (call_id \<notin> fcs)"
| "is_orphan fcs tscs ctcs (CustomToolCallOutput _ call_id _ _ _) = (call_id \<notin> ctcs)"
| "is_orphan fcs tscs ctcs (ToolSearchOutput _ (Some call_id) _ execution _ _) =
     (execution \<noteq> lit ''server'' \<and> call_id \<notin> tscs)"
| "is_orphan fcs tscs ctcs _ = False"

text \<open>\<open>Vec::retain\<close> with the iterator over the positions to drop.\<close>

fun retain_positions :: "nat list \<Rightarrow> nat \<Rightarrow> 'a list \<Rightarrow> 'a list" where
  "retain_positions orphans position [] = []"
| "retain_positions [] position (x # xs) = x # retain_positions [] (position + 1) xs"
| "retain_positions (o1 # os) position (x # xs) =
     (if o1 \<noteq> position then x # retain_positions (o1 # os) (position + 1) xs
      else retain_positions os (position + 1) xs)"

definition remove_orphan_outputs ::
  "bool \<Rightarrow> ResponseItemEnvelope list \<Rightarrow> ResponseItemEnvelope list option" where
  "remove_orphan_outputs debug items =
     (let fcs = collect_ids function_call_id items;
          tscs = collect_ids tool_search_call_id items;
          ctcs = collect_ids custom_tool_call_id items;
          orphan_positions =
            List.map_filter (\<lambda>(position, e). if is_orphan fcs tscs ctcs (env_item e) then Some position else None)
              (enumerate 0 items)
      in if debug \<and> orphan_positions \<noteq> [] then None
         else if orphan_positions \<noteq> [] then Some (retain_positions orphan_positions 0 items)
         else Some items)"

section \<open>Removing the counterpart of an item\<close>

fun remove_first_matching :: "(ResponseItem \<Rightarrow> bool) \<Rightarrow> ResponseItemEnvelope list \<Rightarrow> ResponseItemEnvelope list" where
  "remove_first_matching P [] = []"
| "remove_first_matching P (e # es) = (if P (env_item e) then es else e # remove_first_matching P es)"

fun is_function_call :: "rstr \<Rightarrow> ResponseItem \<Rightarrow> bool" where
  "is_function_call call_id (FunctionCall _ _ _ _ _ existing _) = (existing = call_id)"
| "is_function_call call_id _ = False"

fun is_local_shell_call :: "rstr \<Rightarrow> ResponseItem \<Rightarrow> bool" where
  "is_local_shell_call call_id (LocalShellCall _ (Some existing) _ _ _) = (existing = call_id)"
| "is_local_shell_call call_id _ = False"

fun remove_corresponding_for :: "ResponseItemEnvelope list \<Rightarrow> ResponseItem \<Rightarrow> ResponseItemEnvelope list" where
  "remove_corresponding_for items (FunctionCall _ _ _ _ _ call_id _) =
     remove_first_matching (\<lambda>i. function_output_id i = Some call_id) items"
| "remove_corresponding_for items (FunctionCallOutput _ (Some call_id) _ _ _ _) =
     (if list_ex (\<lambda>e. is_function_call call_id (env_item e)) items then
        remove_first_matching (is_function_call call_id) items
      else remove_first_matching (is_local_shell_call call_id) items)"
| "remove_corresponding_for items (ToolSearchCall _ (Some call_id) _ _ _ _) =
     remove_first_matching (\<lambda>i. tool_search_output_id i = Some call_id) items"
| "remove_corresponding_for items (ToolSearchOutput _ (Some call_id) _ _ _ _) =
     remove_first_matching (\<lambda>i. tool_search_call_id i = Some call_id) items"
| "remove_corresponding_for items (CustomToolCall _ _ call_id _ _ _ _) =
     remove_first_matching (\<lambda>i. custom_tool_output_id i = Some call_id) items"
| "remove_corresponding_for items (CustomToolCallOutput _ call_id _ _ _) =
     remove_first_matching (\<lambda>i. custom_tool_call_id i = Some call_id) items"
| "remove_corresponding_for items (LocalShellCall _ (Some call_id) _ _ _) =
     remove_first_matching (\<lambda>i. function_output_id i = Some call_id) items"
| "remove_corresponding_for items _ = items"

section \<open>Unsupported media\<close>

definition UNSUPPORTED_IMAGE :: AnnotatedContent where
  "UNSUPPORTED_IMAGE =
     \<lparr>ann_content = Content_InputText (lit ''image content omitted because you do not support image input''),
      ann_kind = lit ''images.unsupported''\<rparr>"

definition UNSUPPORTED_AUDIO :: AnnotatedContent where
  "UNSUPPORTED_AUDIO =
     \<lparr>ann_content = Content_InputText (lit ''audio content omitted because you do not support audio input''),
      ann_kind = lit ''audio.unsupported''\<rparr>"

definition annotated_text :: "AnnotatedContent \<Rightarrow> rstr" where
  "annotated_text a = (case ann_content a of Content_InputText s \<Rightarrow> s | _ \<Rightarrow> [])"

fun is_content_image :: "ContentItem \<Rightarrow> bool" where
  "is_content_image (Content_InputImage url detail) = True"
| "is_content_image _ = False"

fun is_content_audio :: "ContentItem \<Rightarrow> bool" where
  "is_content_audio (Content_InputAudio url) = True"
| "is_content_audio _ = False"

fun is_output_image :: "FunctionCallOutputContentItem \<Rightarrow> bool" where
  "is_output_image (Output_InputImage url detail) = True"
| "is_output_image _ = False"

fun is_output_audio :: "FunctionCallOutputContentItem \<Rightarrow> bool" where
  "is_output_audio (Output_InputAudio url) = True"
| "is_output_audio _ = False"

definition strip_message :: "(ContentItem \<Rightarrow> bool) \<Rightarrow> AnnotatedContent \<Rightarrow> ResponseItem \<Rightarrow> ResponseItem" where
  "strip_message unsupported replacement item =
     (case to_annotated_content item of
        None \<Rightarrow> item
      | Some (content, item') \<Rightarrow>
          (case set_annotated_content item'
                  (map (\<lambda>c. if unsupported (ann_content c) then replacement else c) content) of
             None \<Rightarrow> item' | Some item'' \<Rightarrow> item''))"

definition strip_payload ::
  "(FunctionCallOutputContentItem \<Rightarrow> bool) \<Rightarrow> rstr \<Rightarrow> FunctionCallOutputPayload \<Rightarrow> FunctionCallOutputPayload"
where
  "strip_payload unsupported replacement output =
     (case fco_body output of
        Body_Text s \<Rightarrow> output
      | Body_ContentItems items \<Rightarrow>
          output\<lparr>fco_body := Body_ContentItems
             (map (\<lambda>c. if unsupported c then Output_InputText replacement else c) items)\<rparr>)"

definition strip_item_images :: "ResponseItem \<Rightarrow> ResponseItem" where
  "strip_item_images item =
     (case item of
        Message _ _ _ _ _ \<Rightarrow> strip_message is_content_image UNSUPPORTED_IMAGE item
      | FunctionCallOutput iid call_id name namespace output md \<Rightarrow>
          FunctionCallOutput iid call_id name namespace
            (strip_payload is_output_image (annotated_text UNSUPPORTED_IMAGE) output) md
      | CustomToolCallOutput iid call_id name output md \<Rightarrow>
          CustomToolCallOutput iid call_id name
            (strip_payload is_output_image (annotated_text UNSUPPORTED_IMAGE) output) md
      | ImageGenerationCall iid status revised_prompt result md \<Rightarrow>
          ImageGenerationCall iid status revised_prompt [] md
      | _ \<Rightarrow> item)"

definition strip_item_audio :: "ResponseItem \<Rightarrow> ResponseItem" where
  "strip_item_audio item =
     (case item of
        Message _ _ _ _ _ \<Rightarrow> strip_message is_content_audio UNSUPPORTED_AUDIO item
      | FunctionCallOutput iid call_id name namespace output md \<Rightarrow>
          FunctionCallOutput iid call_id name namespace
            (strip_payload is_output_audio (annotated_text UNSUPPORTED_AUDIO) output) md
      | CustomToolCallOutput iid call_id name output md \<Rightarrow>
          CustomToolCallOutput iid call_id name
            (strip_payload is_output_audio (annotated_text UNSUPPORTED_AUDIO) output) md
      | _ \<Rightarrow> item)"

definition map_item :: "(ResponseItem \<Rightarrow> ResponseItem) \<Rightarrow> ResponseItemEnvelope \<Rightarrow> ResponseItemEnvelope" where
  "map_item f e = e\<lparr>env_item := f (env_item e)\<rparr>"

definition strip_images_when_unsupported ::
  "InputModality list \<Rightarrow> ResponseItemEnvelope list \<Rightarrow> ResponseItemEnvelope list" where
  "strip_images_when_unsupported modalities items =
     (if ModImage \<in> set modalities then items else map (map_item strip_item_images) items)"

definition strip_audio_when_unsupported ::
  "InputModality list \<Rightarrow> ResponseItemEnvelope list \<Rightarrow> ResponseItemEnvelope list" where
  "strip_audio_when_unsupported modalities items =
     (if ModAudio \<in> set modalities then items else map (map_item strip_item_audio) items)"

definition normalize_history ::
  "bool \<Rightarrow> (rstr \<Rightarrow> rstr) \<Rightarrow> InputModality list \<Rightarrow> ResponseItemEnvelope list
   \<Rightarrow> ResponseItemEnvelope list option" where
  "normalize_history debug v5 modalities items =
     Option.bind (ensure_call_outputs_present debug v5 items) (\<lambda>items.
     Option.bind (remove_orphan_outputs debug items) (\<lambda>items.
       Some (strip_audio_when_unsupported modalities
              (strip_images_when_unsupported modalities items))))"

text \<open>
  The history. The operations here read and write the items and the baseline of the world state;
  the types of the fields they carry along are parameters.
\<close>

record ('review, 'retained, 'guardian, 'tokens, 'turn, 'world) ContextManager =
  cm_items :: "ResponseItemEnvelope list"
  cm_review_history :: "'review option"
  cm_retained_context :: 'retained
  cm_guardian_context_mode :: 'guardian
  cm_retain_inherited_user_messages :: bool
  cm_history_version :: nat
  cm_user_message_revision :: nat
  cm_token_info :: "'tokens option"
  cm_reference_context_item :: "'turn option"
  cm_world_state_baseline :: "'world option"

definition for_prompt_annotated ::
  "bool \<Rightarrow> (rstr \<Rightarrow> rstr) \<Rightarrow> ('r, 'c, 'g, 't, 'u, 'w) ContextManager \<Rightarrow> InputModality list \<Rightarrow> ResponseItemEnvelope list option" where
  "for_prompt_annotated debug v5 cm modalities = normalize_history debug v5 modalities (cm_items cm)"

definition for_prompt ::
  "bool \<Rightarrow> (rstr \<Rightarrow> rstr) \<Rightarrow> ('r, 'c, 'g, 't, 'u, 'w) ContextManager \<Rightarrow> InputModality list \<Rightarrow> ResponseItem list option" where
  "for_prompt debug v5 cm modalities =
     map_option (map env_item) (for_prompt_annotated debug v5 cm modalities)"

definition remove_first_item :: "('r, 'c, 'g, 't, 'u, 'w) ContextManager \<Rightarrow> ('r, 'c, 'g, 't, 'u, 'w) ContextManager" where
  "remove_first_item cm =
     (case cm_items cm of
        [] \<Rightarrow> cm
      | removed # rest \<Rightarrow>
          cm\<lparr>cm_items := remove_corresponding_for rest (env_item removed),
             cm_world_state_baseline := None\<rparr>)"

section \<open>The keys that pair calls with outputs\<close>

datatype call_kind = KFunction | KSearch | KCustom

definition key_of ::
  "(ResponseItem \<Rightarrow> rstr option) \<Rightarrow> (ResponseItem \<Rightarrow> rstr option) \<Rightarrow> (ResponseItem \<Rightarrow> rstr option)
   \<Rightarrow> ResponseItem \<Rightarrow> (call_kind \<times> rstr) option" where
  "key_of f t c i =
     (case f i of Some x \<Rightarrow> Some (KFunction, x)
      | None \<Rightarrow> (case t i of Some x \<Rightarrow> Some (KSearch, x)
      | None \<Rightarrow> map_option (Pair KCustom) (c i)))"

definition call_key :: "ResponseItem \<Rightarrow> (call_kind \<times> rstr) option" where
  "call_key = key_of function_call_id tool_search_call_id custom_tool_call_id"

definition output_key :: "ResponseItem \<Rightarrow> (call_kind \<times> rstr) option" where
  "output_key = key_of function_output_id tool_search_output_id custom_tool_output_id"

fun server_output :: "ResponseItem \<Rightarrow> bool" where
  "server_output (ToolSearchOutput _ _ _ execution _ _) = (execution = lit ''server'')"
| "server_output _ = False"

definition keys :: "(ResponseItem \<Rightarrow> (call_kind \<times> rstr) option) \<Rightarrow> ResponseItemEnvelope list \<Rightarrow> (call_kind \<times> rstr) list" where
  "keys key items = List.map_filter (\<lambda>e. key (env_item e)) items"

definition key_in :: "rstr set \<Rightarrow> rstr set \<Rightarrow> rstr set \<Rightarrow> call_kind \<times> rstr \<Rightarrow> bool" where
  "key_in fs ts cs k = (case k of (KFunction, x) \<Rightarrow> x \<in> fs | (KSearch, x) \<Rightarrow> x \<in> ts | (KCustom, x) \<Rightarrow> x \<in> cs)"

definition orphan :: "ResponseItemEnvelope list \<Rightarrow> ResponseItemEnvelope \<Rightarrow> bool" where
  "orphan items e \<longleftrightarrow>
     (case output_key (env_item e) of
        None \<Rightarrow> False
      | Some k \<Rightarrow> \<not> (server_output (env_item e) \<and> fst k = KSearch) \<and> k \<notin> set (keys call_key items))"

text \<open>
  What the documentation of \<open>normalize_history\<close> promises: every call has an output, and every
  output has a call or is the server's own.
\<close>

definition paired :: "ResponseItemEnvelope list \<Rightarrow> bool" where
  "paired items \<longleftrightarrow>
     list_all (\<lambda>k. k \<in> set (keys output_key items)) (keys call_key items)
     \<and> list_all (\<lambda>e. \<not> orphan items e) items"

lemma call_key_eq:
  "call_key i = (case i of
      FunctionCall _ _ _ _ _ c _ \<Rightarrow> Some (KFunction, c)
    | LocalShellCall _ (Some c) _ _ _ \<Rightarrow> Some (KFunction, c)
    | ToolSearchCall _ (Some c) _ _ _ _ \<Rightarrow> Some (KSearch, c)
    | CustomToolCall _ _ c _ _ _ _ \<Rightarrow> Some (KCustom, c)
    | _ \<Rightarrow> None)"
  by (cases i) (auto simp: call_key_def key_of_def split: option.split)

lemma output_key_eq:
  "output_key i = (case i of
      FunctionCallOutput _ (Some c) _ _ _ _ \<Rightarrow> Some (KFunction, c)
    | ToolSearchOutput _ (Some c) _ _ _ _ \<Rightarrow> Some (KSearch, c)
    | CustomToolCallOutput _ c _ _ _ \<Rightarrow> Some (KCustom, c)
    | _ \<Rightarrow> None)"
  by (cases i) (auto simp: output_key_def key_of_def split: option.split)

lemma key_ids:
  "function_call_id i = Some c \<longleftrightarrow> call_key i = Some (KFunction, c)"
  "tool_search_call_id i = Some c \<longleftrightarrow> call_key i = Some (KSearch, c)"
  "custom_tool_call_id i = Some c \<longleftrightarrow> call_key i = Some (KCustom, c)"
  "function_output_id i = Some c \<longleftrightarrow> output_key i = Some (KFunction, c)"
  "tool_search_output_id i = Some c \<longleftrightarrow> output_key i = Some (KSearch, c)"
  "custom_tool_output_id i = Some c \<longleftrightarrow> output_key i = Some (KCustom, c)"
  by (cases i; auto simp: call_key_eq output_key_eq split: option.splits)+

lemma in_map_filter: "y \<in> set (List.map_filter f xs) \<longleftrightarrow> (\<exists>x \<in> set xs. f x = Some y)"
  by (induction xs) (auto simp: List.map_filter_simps split: option.split)

lemma keys_iff: "k \<in> set (keys key items) \<longleftrightarrow> (\<exists>e \<in> set items. key (env_item e) = Some k)"
  by (simp add: keys_def in_map_filter)

lemma key_in_collect:
  "key_in (collect_ids function_call_id items) (collect_ids tool_search_call_id items)
     (collect_ids custom_tool_call_id items) k \<longleftrightarrow> k \<in> set (keys call_key items)"
  "key_in (collect_ids function_output_id items) (collect_ids tool_search_output_id items)
     (collect_ids custom_tool_output_id items) k \<longleftrightarrow> k \<in> set (keys output_key items)"
  by (auto simp: key_in_def collect_ids_def keys_iff in_map_filter key_ids split: prod.split call_kind.split)

lemma missing_output_cases:
  "case missing_output v5 fs ts cs i of
     None \<Rightarrow> (\<forall>k. call_key i = Some k \<longrightarrow> key_in fs ts cs k)
   | Some (is_error, out) \<Rightarrow>
       (\<exists>k. call_key i = Some k \<and> \<not> key_in fs ts cs k \<and> output_key out = Some k) \<and> call_key out = None"
  by (cases i) (auto simp: call_key_eq output_key_eq key_in_def split: option.split)

lemma is_orphan_iff:
  "is_orphan fs ts cs i \<longleftrightarrow>
     (\<exists>k. output_key i = Some k \<and> \<not> (server_output i \<and> fst k = KSearch) \<and> \<not> key_in fs ts cs k)"
  by (cases i) (auto simp: output_key_eq key_in_def split: option.split)

section \<open>What the two passes do to the list\<close>

lemma insert_after_calls:
  "length pre = n \<Longrightarrow>
     foldr (\<lambda>(idx, _, e) its. vec_insert (idx + 1) e its)
       (List.map_filter (\<lambda>(idx, e). map_option (\<lambda>(b, y). (idx, b, y)) (m e)) (enumerate n xs)) (pre @ xs)
     = pre @ concat (map (\<lambda>e. e # (case m e of None \<Rightarrow> [] | Some (_, y) \<Rightarrow> [y])) xs)"
proof (induction xs arbitrary: pre n)
  case (Cons x xs)
  then show ?case
    using Cons.IH [of "pre @ [x]" "Suc n"]
    by (auto simp: List.map_filter_simps vec_insert_def split: option.split)
qed (simp add: List.map_filter_simps)

lemma retain_positions_filter:
  "retain_positions (List.map_filter (\<lambda>(pos, e). if P e then Some pos else None) (enumerate n xs)) n xs
     = filter (\<lambda>e. \<not> P e) xs"
proof (induction xs arbitrary: n)
  case (Cons x xs)
  let ?os = "List.map_filter (\<lambda>(pos, e). if P e then Some pos else None) (enumerate (Suc n) xs)"
  have "\<forall>p \<in> set ?os. n < p" by (auto simp: in_map_filter in_set_enumerate_eq split: if_splits)
  then have "retain_positions ?os n (x # xs) = x # retain_positions ?os (Suc n) xs"
    by (cases ?os) auto
  with Cons [of "Suc n"] show ?case by (simp add: List.map_filter_simps)
qed (simp add: List.map_filter_simps)

definition output_for :: "(rstr \<Rightarrow> rstr) \<Rightarrow> ResponseItemEnvelope list \<Rightarrow> ResponseItemEnvelope \<Rightarrow> ResponseItemEnvelope list" where
  "output_for v5 items e =
     (case missing_output v5 (collect_ids function_output_id items) (collect_ids tool_search_output_id items)
             (collect_ids custom_tool_output_id items) (env_item e) of
        None \<Rightarrow> [] | Some (_, out) \<Rightarrow> [envelope_new out])"

definition complete_calls :: "(rstr \<Rightarrow> rstr) \<Rightarrow> ResponseItemEnvelope list \<Rightarrow> ResponseItemEnvelope list" where
  "complete_calls v5 items = concat (map (\<lambda>e. e # output_for v5 items e) items)"

lemma missing_outputs_eq:
  "missing_outputs_to_insert v5 items =
     List.map_filter (\<lambda>(idx, e). map_option (\<lambda>(b, y). (idx, b, y))
       (map_option (\<lambda>(b, out). (b, envelope_new out))
         (missing_output v5 (collect_ids function_output_id items) (collect_ids tool_search_output_id items)
            (collect_ids custom_tool_output_id items) (env_item e)))) (enumerate 0 items)"
  by (simp add: missing_outputs_to_insert_def Let_def option.map_comp comp_def case_prod_unfold)

lemma ensure_call_outputs_present_eq:
  "ensure_call_outputs_present False v5 items = Some (complete_calls v5 items)"
proof -
  let ?m = "\<lambda>e. map_option (\<lambda>(b, out). (b, envelope_new out))
    (missing_output v5 (collect_ids function_output_id items) (collect_ids tool_search_output_id items)
             (collect_ids custom_tool_output_id items) (env_item e))"
  have step: "(\<lambda>its (idx, _, e). vec_insert (idx + 1) e its)
      = (\<lambda>its y. (\<lambda>(idx, _, e) its. vec_insert (idx + 1) e its) y its)"
    by (auto simp: fun_eq_iff)
  have "complete_calls v5 items =
      concat (map (\<lambda>e. e # (case ?m e of None \<Rightarrow> [] | Some (_, y) \<Rightarrow> [y])) items)"
    unfolding complete_calls_def output_for_def
    by (intro arg_cong [of _ _ concat] map_cong refl) (simp split: option.split)
  then show ?thesis
    using insert_after_calls [of "[]" 0 ?m items]
    unfolding ensure_call_outputs_present_def Let_def missing_outputs_eq step foldr_conv_foldl
    by simp
qed

lemma remove_orphan_outputs_eq:
  "remove_orphan_outputs False items = Some (filter (\<lambda>e. \<not> orphan items e) items)"
proof -
  let ?P = "\<lambda>e. is_orphan (collect_ids function_call_id items) (collect_ids tool_search_call_id items)
    (collect_ids custom_tool_call_id items) (env_item e)"
  let ?os = "List.map_filter (\<lambda>(pos, e). if ?P e then Some pos else None) (enumerate 0 items)"
  have P: "?P e = orphan items e" for e
    by (simp add: is_orphan_iff orphan_def key_in_collect split: option.split)
  have "filter (\<lambda>e. \<not> ?P e) items = items" if "?os = []"
  proof -
    have "\<not> ?P e" if e: "e \<in> set items" for e
    proof
      assume "?P e"
      obtain n where "n < length items" "items ! n = e" using e by (auto simp: in_set_conv_nth)
      then have "(n, e) \<in> set (enumerate 0 items)" by (simp add: in_set_enumerate_eq)
      with \<open>?P e\<close> have "n \<in> set ?os" by (force simp: in_map_filter)
      with \<open>?os = []\<close> show False by simp
    qed
    then show ?thesis by (simp add: filter_id_conv)
  qed
  with retain_positions_filter [of ?P 0 items] show ?thesis
    by (simp add: remove_orphan_outputs_def Let_def P)
qed

lemma key_disjoint: "call_key i = Some k \<Longrightarrow> output_key i = None" "output_key i = Some k \<Longrightarrow> call_key i = None"
  by (cases i; simp add: call_key_eq output_key_eq split: option.splits)+

lemma paired_iff:
  "paired items \<longleftrightarrow> set (keys call_key items) \<subseteq> set (keys output_key items) \<and> (\<forall>e \<in> set items. \<not> orphan items e)"
  by (auto simp: paired_def list_all_iff)

lemma keys_simps [simp]:
  "keys key [] = []"
  "keys key (e # es) = (case key (env_item e) of None \<Rightarrow> keys key es | Some k \<Rightarrow> k # keys key es)"
  "keys key (xs @ ys) = keys key xs @ keys key ys"
  by (simp_all add: keys_def List.map_filter_def split: option.split)

lemma keys_filter:
  "keys key (filter P es) = List.map_filter (\<lambda>e. if P e then key (env_item e) else None) es"
  by (induction es) (auto simp: List.map_filter_simps keys_def split: option.split)

lemma output_for_cases:
  obtains (none) "output_for v5 items e = []"
      "call_key (env_item e) = None \<or> (\<exists>k \<in> set (keys output_key items). call_key (env_item e) = Some k)"
    | (made) k out where "output_for v5 items e = [envelope_new out]" "call_key (env_item e) = Some k"
      "k \<notin> set (keys output_key items)" "output_key out = Some k" "call_key out = None"
proof -
  let ?m = "missing_output v5 (collect_ids function_output_id items) (collect_ids tool_search_output_id items)
             (collect_ids custom_tool_output_id items) (env_item e)"
  note C = missing_output_cases [of "env_item e" "collect_ids function_output_id items"
      "collect_ids tool_search_output_id items" "collect_ids custom_tool_output_id items" v5,
      unfolded key_in_collect]
  show thesis
  proof (cases ?m)
    case None
    with C show thesis by (cases "call_key (env_item e)") (auto simp: output_for_def intro: none)
  next
    case (Some p)
    with C show thesis by (cases p) (auto simp: output_for_def intro: made)
  qed
qed

lemma envelope_new_item [simp]: "env_item (envelope_new i) = i"
  by (simp add: envelope_new_def)

lemma complete_calls_keys:
  "keys call_key (complete_calls v5 items) = keys call_key items"
  "set (keys output_key (complete_calls v5 items)) = set (keys output_key items) \<union> set (keys call_key items)"
proof -
  have "keys call_key (concat (map (\<lambda>e. e # output_for v5 items e) xs)) = keys call_key xs" for xs
  proof (induction xs)
    case (Cons e xs)
    then show ?case by (cases rule: output_for_cases [of v5 items e]) (auto split: option.split)
  qed simp
  then show "keys call_key (complete_calls v5 items) = keys call_key items" by (simp add: complete_calls_def)
  have "set (keys output_key (concat (map (\<lambda>e. e # output_for v5 items e) xs)))
      = set (keys output_key xs) \<union> (set (keys call_key xs) - set (keys output_key items))" for xs
  proof (induction xs)
    case (Cons e xs)
    show ?case
    proof (cases rule: output_for_cases [of v5 items e])
      case none
      then show ?thesis
        by (cases "call_key (env_item e)"; cases "output_key (env_item e)") (simp_all add: Cons.IH insert_Diff_if)
    next
      case (made k out)
      then show ?thesis using key_disjoint(1) [OF made(2)] by (simp add: Cons.IH insert_Diff_if)
    qed
  qed simp
  from this [of items] show
    "set (keys output_key (complete_calls v5 items)) = set (keys output_key items) \<union> set (keys call_key items)"
    unfolding complete_calls_def by blast
qed

lemma orphan_cong: "set (keys call_key xs) = set (keys call_key ys) \<Longrightarrow> orphan xs e = orphan ys e"
  by (simp add: orphan_def split: option.split)

lemma orphan_no_call: "orphan items e \<Longrightarrow> call_key (env_item e) = None"
  by (auto simp: orphan_def split: option.splits dest: key_disjoint)

lemma orphan_key: "orphan items e \<Longrightarrow> output_key (env_item e) = Some k \<Longrightarrow> k \<notin> set (keys call_key items)"
  by (simp add: orphan_def)

lemma keys_filter_none:
  "(\<And>e. e \<in> set es \<Longrightarrow> \<not> P e \<Longrightarrow> key (env_item e) = None) \<Longrightarrow> keys key (filter P es) = keys key es"
  by (induction es) (auto split: option.split)

definition settled :: "(rstr \<Rightarrow> rstr) \<Rightarrow> ResponseItemEnvelope list \<Rightarrow> ResponseItemEnvelope list" where
  "settled v5 items = filter (\<lambda>e. \<not> orphan items e) (complete_calls v5 items)"

lemma settled_calls [simp]: "keys call_key (settled v5 items) = keys call_key items"
  unfolding settled_def complete_calls_keys(1) [of v5 items, symmetric]
  by (rule keys_filter_none) (auto dest: orphan_no_call)

lemma settled_paired: "paired (settled v5 items)"
proof -
  have "k \<in> set (keys output_key (settled v5 items))" if k: "k \<in> set (keys call_key items)" for k
  proof -
    obtain e where "e \<in> set (complete_calls v5 items)" "output_key (env_item e) = Some k"
      using k complete_calls_keys(2) [of v5 items] keys_iff [of k output_key "complete_calls v5 items"] by auto
    moreover from this k have "\<not> orphan items e" using orphan_key by blast
    ultimately show ?thesis by (auto simp: settled_def keys_iff)
  qed
  moreover have "orphan (settled v5 items) e = orphan items e" for e by (rule orphan_cong) simp
  moreover have "\<not> orphan items e" if "e \<in> set (settled v5 items)" for e using that by (simp add: settled_def)
  ultimately show ?thesis unfolding paired_iff settled_calls by (simp add: subset_iff)
qed

lemma complete_calls_paired:
  assumes "paired items"
  shows "complete_calls v5 items = items"
proof -
  have "output_for v5 items e = []" if "e \<in> set items" for e
  proof (cases rule: output_for_cases [of v5 items e])
    case (made k out)
    then have "k \<in> set (keys call_key items)" using that by (auto simp: keys_iff)
    with made assms show ?thesis by (auto simp: paired_iff)
  qed
  then have "map (\<lambda>e. e # output_for v5 items e) items = map (\<lambda>e. [e]) items" by simp
  then show ?thesis unfolding complete_calls_def by (simp only:) simp
qed

lemma settled_of_paired: "paired items \<Longrightarrow> settled v5 items = items"
  by (simp add: settled_def complete_calls_paired filter_id_conv) (simp add: paired_iff)

definition strip_unsupported :: "InputModality list \<Rightarrow> ResponseItemEnvelope list \<Rightarrow> ResponseItemEnvelope list" where
  "strip_unsupported modalities items =
     strip_audio_when_unsupported modalities (strip_images_when_unsupported modalities items)"

lemma normalize_history_eq:
  "normalize_history False v5 modalities items = Some (strip_unsupported modalities (settled v5 items))"
proof -
  have "orphan (complete_calls v5 items) e = orphan items e" for e
    by (rule orphan_cong) (simp add: complete_calls_keys)
  then show ?thesis
    by (simp add: normalize_history_def ensure_call_outputs_present_eq remove_orphan_outputs_eq
        strip_unsupported_def settled_def)
qed

section \<open>Stripping keeps the pairing\<close>

lemma strip_keys [simp]:
  "call_key (strip_item_images i) = call_key i" "output_key (strip_item_images i) = output_key i"
  "call_key (strip_item_audio i) = call_key i" "output_key (strip_item_audio i) = output_key i"
  "server_output (strip_item_images i) = server_output i" "server_output (strip_item_audio i) = server_output i"
  by (cases i; simp add: strip_item_images_def strip_item_audio_def strip_message_def to_annotated_content_def
      set_annotated_content_def Let_def call_key_eq output_key_eq)+

definition same_keys :: "(ResponseItem \<Rightarrow> ResponseItem) \<Rightarrow> bool" where
  "same_keys f \<longleftrightarrow> (\<forall>i. call_key (f i) = call_key i \<and> output_key (f i) = output_key i
      \<and> server_output (f i) = server_output i)"

lemma same_keys_map:
  assumes "same_keys f"
  shows "keys call_key (map (map_item f) items) = keys call_key items"
    and "keys output_key (map (map_item f) items) = keys output_key items"
    and "paired (map (map_item f) items) = paired items"
proof -
  show C: "keys call_key (map (map_item f) items) = keys call_key items" for items
    using assms by (induction items) (simp_all add: map_item_def same_keys_def split: option.split)
  show O: "keys output_key (map (map_item f) items) = keys output_key items" for items
    using assms by (induction items) (simp_all add: map_item_def same_keys_def split: option.split)
  have "orphan (map (map_item f) items) (map_item f e) = orphan items e" for e
    using assms by (simp add: orphan_def C map_item_def same_keys_def split: option.split)
  then show "paired (map (map_item f) items) = paired items"
    by (simp add: paired_def C O list.pred_map comp_def)
qed

lemma strip_same_keys: "same_keys strip_item_images" "same_keys strip_item_audio"
  by (simp_all add: same_keys_def)

lemma strip_unsupported_keys:
  "keys call_key (strip_unsupported modalities items) = keys call_key items"
  "keys output_key (strip_unsupported modalities items) = keys output_key items"
  "paired (strip_unsupported modalities items) = paired items"
  by (simp_all add: strip_unsupported_def strip_audio_when_unsupported_def strip_images_when_unsupported_def
      same_keys_map strip_same_keys)

section \<open>Stripping removes the media and is stable\<close>

fun payload_has :: "(FunctionCallOutputContentItem \<Rightarrow> bool) \<Rightarrow> FunctionCallOutputPayload \<Rightarrow> bool" where
  "payload_has u output = (case fco_body output of Body_Text s \<Rightarrow> False | Body_ContentItems items \<Rightarrow> list_ex u items)"

fun has_image :: "ResponseItem \<Rightarrow> bool" where
  "has_image (Message _ _ content _ _) = list_ex is_content_image content"
| "has_image (FunctionCallOutput _ _ _ _ output _) = payload_has is_output_image output"
| "has_image (CustomToolCallOutput _ _ _ output _) = payload_has is_output_image output"
| "has_image (ImageGenerationCall _ _ _ result _) = (result \<noteq> [])"
| "has_image _ = False"

fun has_audio :: "ResponseItem \<Rightarrow> bool" where
  "has_audio (Message _ _ content _ _) = list_ex is_content_audio content"
| "has_audio (FunctionCallOutput _ _ _ _ output _) = payload_has is_output_audio output"
| "has_audio (CustomToolCallOutput _ _ _ output _) = payload_has is_output_audio output"
| "has_audio _ = False"

definition media_supported :: "InputModality list \<Rightarrow> ResponseItemEnvelope list \<Rightarrow> bool" where
  "media_supported modalities items \<longleftrightarrow>
     (ModImage \<in> set modalities \<or> list_all (\<lambda>e. \<not> has_image (env_item e)) items)
     \<and> (ModAudio \<in> set modalities \<or> list_all (\<lambda>e. \<not> has_audio (env_item e)) items)"

text \<open>A message whose classifications are there for every piece of its content.\<close>

fun classified :: "ResponseItem \<Rightarrow> bool" where
  "classified (Message _ _ content _ (Some m)) =
     (case md_content_item_kinds m of Some ks \<Rightarrow> length ks = length content | None \<Rightarrow> False)"
| "classified (Message _ _ _ _ None) = False"
| "classified _ = True"

definition kinds_or_unknown :: "passthrough option \<Rightarrow> nat \<Rightarrow> ContentItemKind list" where
  "kinds_or_unknown md n =
     take n ((case md of None \<Rightarrow> [] | Some m \<Rightarrow> (case md_content_item_kinds m of None \<Rightarrow> [] | Some ks \<Rightarrow> ks))
             @ replicate n unknown_kind)"

lemma length_kinds_or_unknown [simp]: "length (kinds_or_unknown md n) = n"
  by (simp add: kinds_or_unknown_def)

lemma kinds_or_unknown_known:
  "md_content_item_kinds m = Some ks \<Longrightarrow> length ks = n \<Longrightarrow> kinds_or_unknown (Some m) n = ks"
  by (simp add: kinds_or_unknown_def)

lemma zip_take: "zip xs ys = zip xs (take (length xs) ys)"
proof (induction xs arbitrary: ys)
  case (Cons x xs)
  then show ?case by (cases ys) auto
qed simp

lemma map_fst_zip: "length xs \<le> length ys \<Longrightarrow> map (\<lambda>(x, y). f x) (zip xs ys) = map f xs"
proof (induction xs arbitrary: ys)
  case (Cons x xs)
  then show ?case by (cases ys) auto
qed simp

lemma strip_message_Message:
  "strip_message u r (Message iid role content phase md) =
     Message iid role (map (\<lambda>c. if u c then ann_content r else c) content) phase
       (Some ((case md of None \<Rightarrow> default_passthrough | Some m \<Rightarrow> m)\<lparr>md_content_item_kinds :=
          Some (map2 (\<lambda>c k. if u c then ann_kind r else k) content (kinds_or_unknown md (length content)))\<rparr>))"
proof -
  let ?f = "\<lambda>c. if u c then ann_content r else c"
  have c: "map (\<lambda>p. ?f (fst p)) (zip content (ks @ replicate (length content) unknown_kind)) = map ?f content" for ks
    using map_fst_zip [of content "ks @ replicate (length content) unknown_kind" ?f] by (simp add: split_def)
  note c' = c [of "[]", simplified]
  show ?thesis
    by (cases md) (simp_all add: strip_message_def to_annotated_content_def set_annotated_content_def Let_def
      kinds_or_unknown_def zip_take [symmetric] comp_def split_def if_distrib c c' cong: if_cong
      del: take_append)
qed

lemma strip_message_stable:
  assumes "\<not> list_ex u content" "classified (Message iid role content phase md)"
  shows "strip_message u r (Message iid role content phase md) = Message iid role content phase md"
proof -
  obtain m ks where m: "md = Some m" "md_content_item_kinds m = Some ks" "length ks = length content"
    using assms(2) by (cases md) (auto split: option.splits)
  have "map (\<lambda>c. if u c then ann_content r else c) content = content"
    using assms(1) by (auto simp: list_ex_iff intro: map_idI)
  moreover have "map2 (\<lambda>c k. if u c then ann_kind r else k) content ks = ks"
    using assms(1) m(3)
  proof (induction content arbitrary: ks)
    case (Cons c content)
    then show ?case by (cases ks) auto
  qed simp
  ultimately show ?thesis
    using m by (simp add: strip_message_Message kinds_or_unknown_known)
qed

lemma strip_payload_stable: "\<not> payload_has u output \<Longrightarrow> strip_payload u t output = output"
  by (cases "output") (auto simp: strip_payload_def list_ex_iff intro!: map_idI split: FunctionCallOutputBody.splits)

lemma strip_images_stable: "\<not> has_image i \<Longrightarrow> classified i \<Longrightarrow> strip_item_images i = i"
  by (cases i) (simp_all add: strip_item_images_def strip_message_stable strip_payload_stable del: payload_has.simps)

lemma strip_audio_stable: "\<not> has_audio i \<Longrightarrow> classified i \<Longrightarrow> strip_item_audio i = i"
  by (cases i) (simp_all add: strip_item_audio_def strip_message_stable strip_payload_stable del: payload_has.simps)

lemma payload_has_strip:
  "\<not> u (Output_InputText t) \<Longrightarrow>
     payload_has u (strip_payload v t output) \<longleftrightarrow> payload_has (\<lambda>c. u c \<and> \<not> v c) output"
  by (cases "output") (auto simp: strip_payload_def list_ex_iff split: FunctionCallOutputBody.splits if_splits)

lemma list_ex_replace:
  "\<not> u t \<Longrightarrow> list_ex u (map (\<lambda>c. if v c then t else c) xs) = list_ex (\<lambda>c. u c \<and> \<not> v c) xs"
  by (auto simp: list_ex_iff)

lemma payload_has_mono: "payload_has (\<lambda>c. u c \<and> P c) output \<Longrightarrow> payload_has u output"
  by (auto simp: list_ex_iff split: FunctionCallOutputBody.splits)

lemma payload_has_none: "\<not> payload_has (\<lambda>c. False) output"
  by (auto simp: list_ex_iff split: FunctionCallOutputBody.splits)

lemma list_ex_none: "\<not> list_ex (\<lambda>c. False) xs"
  by (simp add: list_ex_iff)

lemma list_ex_mono: "list_ex (\<lambda>c. u c \<and> P c) xs \<Longrightarrow> list_ex u xs"
  by (auto simp: list_ex_iff)

lemma unsupported_texts:
  "ann_content UNSUPPORTED_IMAGE = Content_InputText (annotated_text UNSUPPORTED_IMAGE)"
  "ann_content UNSUPPORTED_AUDIO = Content_InputText (annotated_text UNSUPPORTED_AUDIO)"
  by (simp_all add: UNSUPPORTED_IMAGE_def UNSUPPORTED_AUDIO_def annotated_text_def)

lemmas strip_media = strip_item_images_def strip_item_audio_def strip_message_Message payload_has_strip
  list_ex_replace unsupported_texts payload_has_none list_ex_none

lemma has_image_strip_images: "\<not> has_image (strip_item_images i)"
  by (cases i) (simp_all only: strip_media ResponseItem.simps has_image.simps is_content_image.simps
      is_output_image.simps simp_thms)

lemma has_audio_strip_audio: "\<not> has_audio (strip_item_audio i)"
  by (cases i) (simp_all only: strip_media ResponseItem.simps has_audio.simps is_content_audio.simps
      is_output_audio.simps simp_thms)

lemma has_image_strip_audio: "has_image (strip_item_audio i) \<Longrightarrow> has_image i"
  by (cases i) (simp_all add: strip_media payload_has_mono list_ex_mono del: payload_has.simps)

lemma classified_strip: "classified (strip_item_images i)" "classified (strip_item_audio i)"
  by (cases i; simp add: strip_item_images_def strip_item_audio_def strip_message_Message)+

lemma map_item_stable: "f (env_item e) = env_item e \<Longrightarrow> map_item f e = e"
  by (simp add: map_item_def)

lemma strips_stable:
  "strip_item_images (strip_item_images i) = strip_item_images i"
  "strip_item_audio (strip_item_audio i) = strip_item_audio i"
  "strip_item_images (strip_item_audio (strip_item_images i)) = strip_item_audio (strip_item_images i)"
  using has_image_strip_audio [of "strip_item_images i"]
  by (auto intro: strip_images_stable strip_audio_stable
      simp: has_image_strip_images has_audio_strip_audio classified_strip)

lemma strip_unsupported_twice: "strip_unsupported m (strip_unsupported m items) = strip_unsupported m items"
  by (simp add: strip_unsupported_def strip_images_when_unsupported_def strip_audio_when_unsupported_def
      comp_def map_item_def strips_stable)

lemma has_image_strip_both: "\<not> has_image (strip_item_audio (strip_item_images i))"
  using has_image_strip_audio [of "strip_item_images i"] has_image_strip_images [of i] by blast

lemma strip_unsupported_supported: "media_supported m (strip_unsupported m items)"
  by (auto simp: media_supported_def strip_unsupported_def strip_images_when_unsupported_def
      strip_audio_when_unsupported_def list_all_iff map_item_def has_image_strip_images has_audio_strip_audio
      has_image_strip_both)

lemma normalize_history_result:
  "\<exists>items'. normalize_history False v5 modalities items = Some items'
     \<and> paired items' \<and> media_supported modalities items'
     \<and> keys call_key items' = keys call_key items
     \<and> normalize_history False v5 modalities items' = Some items'"
proof -
  let ?r = "strip_unsupported modalities (settled v5 items)"
  have "paired ?r" by (simp add: strip_unsupported_keys settled_paired)
  then have "normalize_history False v5 modalities ?r = Some ?r"
    by (simp add: normalize_history_eq settled_of_paired strip_unsupported_twice)
  then show ?thesis
    by (simp add: normalize_history_eq strip_unsupported_keys settled_paired strip_unsupported_supported)
qed

section \<open>Dropping the oldest item keeps the pairing\<close>

lemma remove_first_matching_none: "\<not> list_ex (\<lambda>e. P (env_item e)) es \<Longrightarrow> remove_first_matching P es = es"
  by (induction es) auto

lemma remove_first_matching_unique:
  assumes "distinct (keys key es)" "\<And>i. P i \<Longrightarrow> key i = Some k" "list_ex (\<lambda>e. P (env_item e)) es"
  shows "remove_first_matching P es = filter (\<lambda>e. key (env_item e) \<noteq> Some k) es"
  using assms(1,3)
proof (induction es)
  case (Cons e es)
  have rest: "filter (\<lambda>e. key (env_item e) \<noteq> Some k) es = es" if "k \<notin> set (keys key es)"
    using that by (auto simp: filter_id_conv keys_iff)
  show ?case
  proof (cases "P (env_item e)")
    case True
    with Cons.prems assms(2) [of "env_item e"] show ?thesis by (simp add: rest)
  next
    case False
    then have ex: "list_ex (\<lambda>e. P (env_item e)) es" using Cons.prems by simp
    then have "k \<in> set (keys key es)" using assms(2) by (auto simp: list_ex_iff keys_iff)
    then have "key (env_item e) \<noteq> Some k" using Cons.prems(1) by auto
    with False ex Cons show ?thesis by (simp split: option.splits)
  qed
qed simp

lemma remove_first_matching_key:
  assumes "distinct (keys key es)"
  shows "remove_first_matching (\<lambda>i. key i = Some k) es = filter (\<lambda>e. key (env_item e) \<noteq> Some k) es"
proof (cases "list_ex (\<lambda>e. key (env_item e) = Some k) es")
  case True
  then show ?thesis by (intro remove_first_matching_unique assms) auto
next
  case False
  then show ?thesis
    using remove_first_matching_none [OF False]
    by (simp add: list_ex_iff filter_id_conv)
qed

lemma function_call_split:
  "call_key i = Some (KFunction, c) \<longleftrightarrow> is_function_call c i \<or> is_local_shell_call c i"
  by (cases i) (auto simp: call_key_eq split: option.split)

lemma remove_corresponding_call:
  "call_key i = Some k \<Longrightarrow> distinct (keys output_key es) \<Longrightarrow>
     remove_corresponding_for es i = filter (\<lambda>e. output_key (env_item e) \<noteq> Some k) es"
  by (cases "(es, i)" rule: remove_corresponding_for.cases)
    (auto simp: call_key_eq key_ids remove_first_matching_key split: option.splits)

lemma remove_corresponding_output:
  assumes "output_key i = Some k" "distinct (keys call_key es)"
  shows "remove_corresponding_for es i = filter (\<lambda>e. call_key (env_item e) \<noteq> Some k) es"
proof -
  have fn: "(if list_ex (\<lambda>e. is_function_call c (env_item e)) es then remove_first_matching (is_function_call c) es
      else remove_first_matching (is_local_shell_call c) es)
      = filter (\<lambda>e. call_key (env_item e) \<noteq> Some (KFunction, c)) es" for c
  proof (cases "list_ex (\<lambda>e. is_function_call c (env_item e)) es")
    case True
    then show ?thesis
      using assms(2) by (simp add: remove_first_matching_unique [where k = "(KFunction, c)"] function_call_split)
  next
    case False
    then have "remove_first_matching (is_local_shell_call c) es
        = remove_first_matching (\<lambda>i. call_key i = Some (KFunction, c)) es"
      by (induction es) (auto simp: function_call_split)
    with False show ?thesis using assms(2) by (simp add: remove_first_matching_key)
  qed
  show ?thesis
    using assms
    by (cases "(es, i)" rule: remove_corresponding_for.cases)
      (auto simp: output_key_eq key_ids remove_first_matching_key fn split: option.splits)
qed

lemma remove_corresponding_other:
  "call_key i = None \<Longrightarrow> output_key i = None \<Longrightarrow> remove_corresponding_for es i = es"
  by (cases "(es, i)" rule: remove_corresponding_for.cases) (auto simp: call_key_eq output_key_eq split: option.splits)

definition unique_keys :: "ResponseItemEnvelope list \<Rightarrow> bool" where
  "unique_keys items \<longleftrightarrow> distinct (keys call_key items) \<and> distinct (keys output_key items)"

lemma keys_filter_other:
  "\<forall>e \<in> set es. other (env_item e) = Some k \<longrightarrow> key (env_item e) = None \<Longrightarrow>
     keys key (filter (\<lambda>e. other (env_item e) \<noteq> Some k) es) = keys key es"
  by (rule keys_filter_none) auto

lemma keys_filter_same: "keys key (filter (\<lambda>e. key (env_item e) \<noteq> Some k) es) = filter (\<lambda>x. x \<noteq> k) (keys key es)"
  by (induction es) (auto split: option.split)

lemma orphan_eq_on: "(\<forall>k. output_key (env_item e) = Some k \<longrightarrow> k \<in> set (keys call_key xs) \<longleftrightarrow> k \<in> set (keys call_key ys))
    \<Longrightarrow> orphan xs e = orphan ys e"
  by (simp add: orphan_def split: option.split)

lemma remove_corresponding_paired:
  assumes P: "paired (e # es)" and U: "unique_keys (e # es)"
  defines "rest \<equiv> remove_corresponding_for es (env_item e)"
  shows "paired rest \<and> unique_keys rest"
proof -
  consider (call) k where "call_key (env_item e) = Some k" "output_key (env_item e) = None"
    | (out) k where "output_key (env_item e) = Some k" "call_key (env_item e) = None"
    | (neither) "call_key (env_item e) = None" "output_key (env_item e) = None"
    using key_disjoint(2) by (cases "call_key (env_item e)"; cases "output_key (env_item e)") fastforce+
  then show ?thesis
  proof cases
    case call
    have rest: "rest = filter (\<lambda>e. output_key (env_item e) \<noteq> Some k) es"
      using U call by (simp add: rest_def remove_corresponding_call unique_keys_def)
    have ks: "keys call_key rest = keys call_key es" "keys output_key rest = filter (\<lambda>x. x \<noteq> k) (keys output_key es)"
      unfolding rest by (auto intro!: keys_filter_other simp: key_disjoint keys_filter_same)
    have "orphan rest x = orphan (e # es) x" if "x \<in> set rest" for x
      using that call by (intro orphan_eq_on) (auto simp: ks, auto simp: rest)
    with P U call ks show ?thesis
      by (auto simp: paired_iff unique_keys_def rest)
  next
    case out
    have rest: "rest = filter (\<lambda>e. call_key (env_item e) \<noteq> Some k) es"
      using U out by (simp add: rest_def remove_corresponding_output unique_keys_def)
    have ks: "keys output_key rest = keys output_key es" "keys call_key rest = filter (\<lambda>x. x \<noteq> k) (keys call_key es)"
      unfolding rest by (auto intro!: keys_filter_other simp: key_disjoint keys_filter_same)
    have "k \<notin> set (keys output_key es)" using U out by (simp add: unique_keys_def)
    then have "orphan rest x = orphan (e # es) x" if "x \<in> set rest" for x
      using that out by (intro orphan_eq_on) (auto simp: ks, auto simp: rest keys_iff)
    with P U out ks show ?thesis
      by (auto simp: paired_iff unique_keys_def rest)
  next
    case neither
    have "orphan es x = orphan (e # es) x" for x by (rule orphan_cong) (simp add: neither)
    with P U neither show ?thesis
      by (auto simp: rest_def remove_corresponding_other paired_iff unique_keys_def)
  qed
qed

lemma remove_first_item_keeps:
  assumes "paired (cm_items cm)" "unique_keys (cm_items cm)"
  shows "paired (cm_items (remove_first_item cm)) \<and> unique_keys (cm_items (remove_first_item cm))"
  using assms
  by (cases "cm_items cm") (auto simp: remove_first_item_def dest: remove_corresponding_paired)

section \<open>The debug build\<close>

text \<open>
  A debug build panics exactly on the histories with a broken entry: an orphan output, or a custom
  tool call or local shell call without output. A function call or tool search without output is
  completed silently in both builds.
\<close>

fun loud_call :: "ResponseItem \<Rightarrow> bool" where
  "loud_call (CustomToolCall _ _ _ _ _ _ _) = True"
| "loud_call (LocalShellCall _ _ _ _ _) = True"
| "loud_call _ = False"

definition broken_entry :: "ResponseItemEnvelope list \<Rightarrow> ResponseItemEnvelope \<Rightarrow> bool" where
  "broken_entry items e \<longleftrightarrow>
     orphan items e
     \<or> loud_call (env_item e)
       \<and> (case call_key (env_item e) of None \<Rightarrow> False | Some k \<Rightarrow> k \<notin> set (keys output_key items))"

lemma in_enumerate: "(\<exists>n. (n, e) \<in> set (enumerate k xs)) \<longleftrightarrow> e \<in> set xs"
proof
  assume "e \<in> set xs"
  then obtain n where "n < length xs" "xs ! n = e" by (auto simp: in_set_conv_nth)
  then have "(k + n, e) \<in> set (enumerate k xs)" by (simp add: in_set_enumerate_eq)
  then show "\<exists>n. (n, e) \<in> set (enumerate k xs)" ..
qed (auto simp: in_set_enumerate_eq)

lemma missing_output_loud:
  "(\<exists>out. missing_output v5 fs ts cs i = Some (True, out)) \<longleftrightarrow>
     loud_call i \<and> (case call_key i of None \<Rightarrow> False | Some k \<Rightarrow> \<not> key_in fs ts cs k)"
  by (cases "(v5, fs, ts, cs, i)" rule: missing_output.cases) (auto simp: call_key_eq key_in_def)

lemma missing_outputs_loud:
  "list_ex (\<lambda>(_, is_error, _). is_error) (missing_outputs_to_insert v5 items) \<longleftrightarrow>
     list_ex (\<lambda>e. loud_call (env_item e)
       \<and> (case call_key (env_item e) of None \<Rightarrow> False | Some k \<Rightarrow> k \<notin> set (keys output_key items))) items"
proof -
  let ?m = "\<lambda>e. missing_output v5 (collect_ids function_output_id items) (collect_ids tool_search_output_id items)
             (collect_ids custom_tool_output_id items) (env_item e)"
  have "list_ex (\<lambda>(_, is_error, _). is_error) (missing_outputs_to_insert v5 items)
      \<longleftrightarrow> (\<exists>e. (\<exists>n. (n, e) \<in> set (enumerate 0 items)) \<and> (\<exists>out. ?m e = Some (True, out)))"
    unfolding missing_outputs_eq list_ex_iff Bex_def in_map_filter by (fastforce simp: case_prod_unfold)
  then show ?thesis
    unfolding in_enumerate missing_output_loud key_in_collect list_ex_iff Bex_def .
qed

lemma ensure_call_outputs_present_debug:
  "ensure_call_outputs_present True v5 items =
     (if list_ex (\<lambda>e. loud_call (env_item e)
         \<and> (case call_key (env_item e) of None \<Rightarrow> False | Some k \<Rightarrow> k \<notin> set (keys output_key items))) items
      then None else Some (complete_calls v5 items))"
  using ensure_call_outputs_present_eq [of v5 items]
  by (simp only: ensure_call_outputs_present_def Let_def missing_outputs_loud simp_thms if_False)

lemma remove_orphan_outputs_debug:
  "remove_orphan_outputs True items =
     (if list_ex (orphan items) items then None else Some (filter (\<lambda>e. \<not> orphan items e) items))"
proof -
  let ?os = "List.map_filter (\<lambda>(pos, e). if is_orphan (collect_ids function_call_id items)
    (collect_ids tool_search_call_id items) (collect_ids custom_tool_call_id items) (env_item e)
    then Some pos else None) (enumerate 0 items)"
  have P: "is_orphan (collect_ids function_call_id items) (collect_ids tool_search_call_id items)
    (collect_ids custom_tool_call_id items) (env_item e) = orphan items e" for e
    by (simp add: is_orphan_iff orphan_def key_in_collect split: option.split)
  have "?os \<noteq> [] \<longleftrightarrow> (\<exists>e. (\<exists>n. (n, e) \<in> set (enumerate 0 items)) \<and> orphan items e)"
    unfolding set_empty [symmetric] ex_in_conv [symmetric] in_map_filter P
    by (rule iffI) (fastforce split: if_splits, force)
  then have "?os \<noteq> [] \<longleftrightarrow> list_ex (orphan items) items"
    unfolding in_enumerate list_ex_iff Bex_def .
  then show ?thesis
    using remove_orphan_outputs_eq [of items]
    by (auto simp: remove_orphan_outputs_def Let_def)
qed

lemma complete_calls_orphans: "list_ex (orphan items) (complete_calls v5 items) = list_ex (orphan items) items"
proof -
  have "\<not> orphan items x" if e: "e \<in> set items" and x: "x \<in> set (output_for v5 items e)" for e x
    using x
  proof (cases rule: output_for_cases [of v5 items e])
    case (made k out)
    have "k \<in> set (keys call_key items)" using e made by (auto simp: keys_iff)
    with made x show ?thesis by (simp add: orphan_def)
  qed simp
  then show ?thesis by (auto simp: list_ex_iff complete_calls_def)
qed

lemma normalize_history_debug_eq:
  "normalize_history True v5 modalities items =
     (if list_ex (broken_entry items) items then None else normalize_history False v5 modalities items)"
proof -
  have "orphan (complete_calls v5 items) = orphan items"
    by (rule ext) (rule orphan_cong, simp add: complete_calls_keys)
  moreover have "list_ex (broken_entry items) items \<longleftrightarrow> list_ex (orphan items) items
      \<or> list_ex (\<lambda>e. loud_call (env_item e)
         \<and> (case call_key (env_item e) of None \<Rightarrow> False | Some k \<Rightarrow> k \<notin> set (keys output_key items))) items"
    by (auto simp: broken_entry_def list_ex_iff)
  ultimately show ?thesis
    by (simp add: normalize_history_def ensure_call_outputs_present_debug remove_orphan_outputs_debug
        ensure_call_outputs_present_eq remove_orphan_outputs_eq complete_calls_orphans)
qed

text \<open>C18: In a release build the normalization of any history gives a list in which every call has
  an output and every output has a call (or is the server's), no image or audio is left that the
  model does not support, the calls are the same in the same order, and normalizing that list
  again changes nothing.\<close>

theorem normalize_history_release:
  "\<exists>items'. normalize_history False v5 modalities items = Some items'
     \<and> paired items' \<and> media_supported modalities items'
     \<and> keys call_key items' = keys call_key items
     \<and> normalize_history False v5 modalities items' = Some items'"
  by (rule normalize_history_result)

text \<open>C19: Dropping the oldest item of a paired history whose calls and outputs have distinct ids,
  together with its counterpart, leaves a paired history with distinct ids, so that no
  normalization is needed afterwards.\<close>

theorem remove_first_item_keeps_pairs:
  assumes "paired (cm_items cm)" "unique_keys (cm_items cm)"
  shows "paired (cm_items (remove_first_item cm)) \<and> unique_keys (cm_items (remove_first_item cm))"
  using assms by (rule remove_first_item_keeps)

text \<open>A debug build panics exactly on a history with a broken entry, and otherwise gives the
  list of the release build.\<close>

theorem normalize_history_debug:
  "normalize_history True v5 modalities items =
     (if list_ex (broken_entry items) items then None else normalize_history False v5 modalities items)"
  by (rule normalize_history_debug_eq)

definition sample_history :: "(unit, unit, unit, unit, unit, unit) ContextManager" where
  "sample_history =
     \<lparr>cm_items = map envelope_new
        [FunctionCall None (lit ''shell'') None (lit ''x'') None (lit ''c1'') None,
         CustomToolCall None None (lit ''c2'') (lit ''t'') None (lit ''y'') None,
         FunctionCallOutput None (Some (lit ''c1'')) None None aborted_payload None,
         CustomToolCallOutput None (lit ''c2'') None aborted_payload None],
      cm_review_history = None, cm_retained_context = (), cm_guardian_context_mode = (),
      cm_retain_inherited_user_messages = False, cm_history_version = 0, cm_user_message_revision = 0,
      cm_token_info = None, cm_reference_context_item = None, cm_world_state_baseline = Some ()\<rparr>"

lemma sample_history_ok: "paired (cm_items sample_history)" "unique_keys (cm_items sample_history)"
  by (simp_all add: sample_history_def paired_def unique_keys_def orphan_def call_key_eq output_key_eq
      envelope_new_def)

theorem remove_first_item_keeps_pairs_witness:
  "paired (cm_items (remove_first_item sample_history)) \<and> length (cm_items (remove_first_item sample_history)) = 2"
  using remove_first_item_keeps_pairs [OF sample_history_ok]
  by (simp add: sample_history_def remove_first_item_def envelope_new_def)

end
