(* ===== verification/Agent_Path.thy ===== *)
theory Agent_Path
  imports Rust_Prelude
begin

text \<open>
  The paths that name the agents of a session (\<open>protocol/src/agent_path.rs\<close>): their
  validation, the joining of a child name and the resolution of a reference.

  An \<open>AgentPath\<close> wraps a string; the model uses the string. The conversions
  (\<open>TryFrom\<close>, \<open>FromStr\<close>, \<open>Display\<close>, \<open>Deref\<close>) are \<open>from_string\<close> and the identity.
\<close>

type_synonym AgentPath = rstr

abbreviation slash :: uchar where "slash \<equiv> 47"

definition ROOT :: AgentPath where
  "ROOT = lit ''/root''"

definition MORPHEUS :: AgentPath where
  "MORPHEUS = lit ''/morpheus''"

definition ROOT_SEGMENT :: rstr where
  "ROOT_SEGMENT = lit ''root''"

definition is_root :: "AgentPath \<Rightarrow> bool" where
  "is_root p \<longleftrightarrow> p = ROOT"

definition is_agent_name_char :: "uchar \<Rightarrow> bool" where
  "is_agent_name_char c \<longleftrightarrow> (97 \<le> c \<and> c \<le> 122) \<or> is_ascii_digit c \<or> c = 95"

definition validate_agent_name :: "rstr \<Rightarrow> rstr + unit" where
  "validate_agent_name name =
     (if name = [] then Inl (lit ''agent_name must not be empty'')
      else if name = ROOT_SEGMENT then Inl (lit ''agent_name `root` is reserved'')
      else if name = lit ''.'' \<or> name = lit ''..'' then
        Inl (lit ''agent_name `'' @ name @ lit ''` is reserved'')
      else if slash \<in> set name then Inl (lit ''agent_name must not contain `/`'')
      else if \<not> list_all is_agent_name_char name then
        Inl (lit ''agent_name must use only lowercase letters, digits, and underscores'')
      else Inr ())"

text \<open>The loops over the segments: the first error ends them.\<close>

fun validate_segments :: "rstr list \<Rightarrow> rstr + unit" where
  "validate_segments [] = Inr ()"
| "validate_segments (s # ss) = bind_result (validate_agent_name s) (\<lambda>_. validate_segments ss)"

definition validate_absolute_path :: "rstr \<Rightarrow> rstr + unit" where
  "validate_absolute_path path =
     (if path = MORPHEUS then Inr ()
      else case strip_prefix [slash] path of
        None \<Rightarrow> Inl (lit ''absolute agent paths must start with `/root` or be `/morpheus`'')
      | Some stripped \<Rightarrow>
          (case split_char slash stripped of
             [] \<Rightarrow> Inl (lit ''absolute agent path must not be empty'')
           | root # segments \<Rightarrow>
               if root \<noteq> ROOT_SEGMENT then
                 Inl (lit ''absolute agent paths must start with `/root` or be `/morpheus`'')
               else if ends_with [slash] stripped then
                 Inl (lit ''absolute agent path must not end with `/`'')
               else validate_segments segments))"

definition validate_relative_reference :: "rstr \<Rightarrow> rstr + unit" where
  "validate_relative_reference reference =
     (if ends_with [slash] reference then Inl (lit ''relative agent path must not end with `/`'')
      else validate_segments (split_char slash reference))"

definition from_string :: "rstr \<Rightarrow> rstr + AgentPath" where
  "from_string path = bind_result (validate_absolute_path path) (\<lambda>_. Inr path)"

definition agent_path_name :: "AgentPath \<Rightarrow> rstr" where
  "agent_path_name p =
     (if is_root p then ROOT_SEGMENT
      else let segment = last (split_char slash p) in if segment \<noteq> [] then segment else ROOT_SEGMENT)"

definition agent_path_join :: "AgentPath \<Rightarrow> rstr \<Rightarrow> rstr + AgentPath" where
  "agent_path_join p agent_name =
     bind_result (validate_agent_name agent_name) (\<lambda>_. from_string (p @ [slash] @ agent_name))"

definition agent_path_resolve :: "AgentPath \<Rightarrow> rstr \<Rightarrow> rstr + AgentPath" where
  "agent_path_resolve p reference =
     (if reference = [] then Inl (lit ''agent path must not be empty'')
      else if reference = ROOT then Inr ROOT
      else if starts_with [slash] reference then from_string reference
      else bind_result (validate_relative_reference reference)
             (\<lambda>_. from_string (p @ [slash] @ reference)))"

section \<open>The paths are the nodes of a tree\<close>

definition agent_name_ok :: "rstr \<Rightarrow> bool" where
  "agent_name_ok n \<longleftrightarrow> n \<noteq> [] \<and> n \<noteq> ROOT_SEGMENT \<and> list_all is_agent_name_char n"

text \<open>The path of the agent reached from the root by the names \<open>ns\<close>.\<close>

definition tree_path :: "rstr list \<Rightarrow> AgentPath" where
  "tree_path ns = join [slash] ([] # ROOT_SEGMENT # ns)"

lemma slash_not_name_char: "\<not> is_agent_name_char slash"
  by (simp add: is_agent_name_char_def is_ascii_digit_def)

lemma agent_name_no_slash: "agent_name_ok n \<Longrightarrow> slash \<notin> set n"
  using slash_not_name_char by (auto simp: agent_name_ok_def list_all_iff)

lemma validate_agent_name_ok: "validate_agent_name n = Inr () \<longleftrightarrow> agent_name_ok n"
proof -
  have "\<not> list_all is_agent_name_char (lit ''.'')" "\<not> list_all is_agent_name_char (lit ''..'')"
    by (simp_all add: lit_def is_agent_name_char_def is_ascii_digit_def)
  moreover have "\<not> list_all is_agent_name_char n" if "slash \<in> set n"
    using that slash_not_name_char by (auto simp: list_all_iff)
  ultimately show ?thesis by (auto simp: validate_agent_name_def agent_name_ok_def)
qed

lemma validate_segments_ok: "validate_segments ss = Inr () \<longleftrightarrow> list_all agent_name_ok ss"
  by (induction ss) (auto simp: bind_result_Inr validate_agent_name_ok)

lemma root_segment_no_slash: "slash \<notin> set ROOT_SEGMENT"
  by (simp add: ROOT_SEGMENT_def lit_def)

lemma split_tree_path: "list_all agent_name_ok ns \<Longrightarrow> split_char slash (tree_path ns) = [] # ROOT_SEGMENT # ns"
  unfolding tree_path_def
  by (rule split_char_join) (auto simp: list_all_iff agent_name_no_slash root_segment_no_slash)

lemma tree_path_Cons: "tree_path ns = slash # join [slash] (ROOT_SEGMENT # ns)"
  by (simp add: tree_path_def)

lemma tree_path_Nil: "tree_path [] = ROOT"
  by (simp add: tree_path_def ROOT_def ROOT_SEGMENT_def lit_def)

lemma tree_path_snoc: "tree_path (ns @ [n]) = tree_path ns @ [slash] @ n"
  using join_append [of "[] # ROOT_SEGMENT # ns" "[n]" "[slash]"] by (simp add: tree_path_def)

lemma tree_path_append: "ms \<noteq> [] \<Longrightarrow> tree_path (ns @ ms) = tree_path ns @ [slash] @ join [slash] ms"
  using join_append [of "[] # ROOT_SEGMENT # ns" ms "[slash]"] by (simp add: tree_path_def)

lemma ends_with_sep: "ends_with [d] s \<Longrightarrow> last (split_char d s) = []"
  by (auto simp: ends_with_iff split_char_append)

lemma tree_path_not_morpheus: "tree_path ns \<noteq> MORPHEUS"
proof
  assume "tree_path ns = MORPHEUS"
  moreover have "split_char slash MORPHEUS = [[], lit ''morpheus'']"
    by (simp add: MORPHEUS_def lit_def)
  moreover have "split_char slash (tree_path ns) = [] # ROOT_SEGMENT # concat (map (split_char slash) ns)"
    by (induction ns rule: rev_induct)
      (simp_all add: tree_path_Nil tree_path_snoc split_char_append, simp add: ROOT_def ROOT_SEGMENT_def lit_def)
  ultimately show False by (simp add: ROOT_SEGMENT_def lit_def)
qed

lemma from_string_iff:
  "from_string p = Inr q \<longleftrightarrow> q = p \<and> (p = MORPHEUS \<or> (\<exists>ns. list_all agent_name_ok ns \<and> p = tree_path ns))"
proof -
  have tree: "validate_absolute_path p = Inr () \<longleftrightarrow> (\<exists>ns. list_all agent_name_ok ns \<and> p = tree_path ns)"
    if nm: "p \<noteq> MORPHEUS"
  proof
    assume v: "validate_absolute_path p = Inr ()"
    then obtain s root ss where p: "p = slash # s" "split_char slash s = root # ss"
      using nm by (auto simp: validate_absolute_path_def strip_prefix_Some split: option.splits list.splits)
    with v nm have "root = ROOT_SEGMENT" "list_all agent_name_ok ss"
      by (auto simp: validate_absolute_path_def validate_segments_ok split: if_splits)
    moreover have "p = tree_path ss"
      using join_split_char [of slash s] p calculation by (simp add: tree_path_Cons)
    ultimately show "\<exists>ns. list_all agent_name_ok ns \<and> p = tree_path ns" by blast
  next
    assume "\<exists>ns. list_all agent_name_ok ns \<and> p = tree_path ns"
    then obtain ns where ns: "list_all agent_name_ok ns" "p = tree_path ns" by blast
    have "split_char slash (join [slash] (ROOT_SEGMENT # ns)) = ROOT_SEGMENT # ns"
      using ns(1) by (intro split_char_join) (auto simp: list_all_iff agent_name_no_slash root_segment_no_slash)
    moreover have "last (ROOT_SEGMENT # ns) \<noteq> []"
      using ns(1) by (auto simp: list_all_iff agent_name_ok_def ROOT_SEGMENT_def lit_def)
    ultimately show "validate_absolute_path p = Inr ()"
      using ns nm ends_with_sep [of slash "join [slash] (ROOT_SEGMENT # ns)"]
      by (auto simp: validate_absolute_path_def tree_path_Cons validate_segments_ok)
  qed
  show ?thesis
    using tree by (auto simp: from_string_def bind_result_Inr, auto simp: validate_absolute_path_def)
qed

lemma agent_path_join_tree:
  "agent_path_join (tree_path ns) n = Inr q \<longleftrightarrow>
     agent_name_ok n \<and> from_string (tree_path (ns @ [n])) = Inr q"
  by (simp add: agent_path_join_def bind_result_Inr validate_agent_name_ok tree_path_snoc)

fun agent_path_joins :: "AgentPath \<Rightarrow> rstr list \<Rightarrow> rstr + AgentPath" where
  "agent_path_joins p [] = Inr p"
| "agent_path_joins p (n # ns) = bind_result (agent_path_join p n) (\<lambda>p. agent_path_joins p ns)"

lemma from_string_tree: "list_all agent_name_ok ns \<Longrightarrow> from_string (tree_path ns) = Inr (tree_path ns)"
  by (auto simp: from_string_iff)

lemma agent_path_joins_tree:
  "list_all agent_name_ok ns \<Longrightarrow>
     agent_path_joins (tree_path ns) ms = Inr q \<longleftrightarrow> list_all agent_name_ok ms \<and> q = tree_path (ns @ ms)"
proof (induction ms arbitrary: ns)
  case (Cons m ms)
  show ?case
  proof (cases "agent_name_ok m")
    case True
    then have j: "agent_path_join (tree_path ns) m = Inr (tree_path (ns @ [m]))"
      using Cons.prems by (simp add: agent_path_join_tree from_string_tree)
    show ?thesis using Cons.IH [of "ns @ [m]"] Cons.prems True by (simp add: j)
  qed (simp add: bind_result_Inr agent_path_join_tree)
qed auto

lemma resolve_tree:
  assumes ns: "list_all agent_name_ok ns"
  shows "agent_path_resolve (tree_path ns) reference = Inr q \<longleftrightarrow>
    (if starts_with [slash] reference then from_string reference = Inr q
     else list_all agent_name_ok (split_char slash reference)
          \<and> q = tree_path (ns @ split_char slash reference))"
proof -
  have root: "starts_with [slash] ROOT" "from_string ROOT = Inr ROOT"
    using from_string_tree [of "[]"] by (auto simp: tree_path_Nil starts_with_iff ROOT_def lit_def)
  have rel: "validate_relative_reference reference = Inr () \<longleftrightarrow> list_all agent_name_ok (split_char slash reference)"
  proof (cases "ends_with [slash] reference")
    case True
    then have "[] \<in> set (split_char slash reference)"
      using ends_with_sep [of slash reference] last_in_set [of "split_char slash reference"] by simp
    with True show ?thesis by (auto simp: validate_relative_reference_def list_all_iff agent_name_ok_def)
  qed (simp add: validate_relative_reference_def validate_segments_ok)
  have path: "tree_path (ns @ split_char slash reference) = tree_path ns @ [slash] @ reference"
    by (simp add: tree_path_append join_split_char)
  have empty: "\<not> list_all agent_name_ok (split_char slash [])" by (simp add: agent_name_ok_def)
  have tp: "from_string (tree_path ns @ [slash] @ reference) = Inr (tree_path ns @ [slash] @ reference)"
    if "list_all agent_name_ok (split_char slash reference)"
    using from_string_tree [of "ns @ split_char slash reference"] ns that by (simp add: path)
  show ?thesis
    using root empty tp
    by (auto simp: agent_path_resolve_def bind_result_Inr rel path starts_with_iff)
qed

text \<open>An agent resolves a relative reference to the agent reached by joining its names one
  after the other, and an absolute one to that path, and fails exactly where the joins (or the
  validation of the absolute path) fail.\<close>

theorem resolve_walks_the_tree:
  assumes "from_string p = Inr p" "p \<noteq> MORPHEUS"
  shows "agent_path_resolve p reference = Inr q \<longleftrightarrow>
    (if starts_with [slash] reference then from_string reference = Inr q
     else agent_path_joins p (split_char slash reference) = Inr q)"
proof -
  obtain ns where "list_all agent_name_ok ns" "p = tree_path ns"
    using assms by (auto simp: from_string_iff)
  then show ?thesis by (simp add: resolve_tree agent_path_joins_tree)
qed

theorem resolve_walks_the_tree_witness:
  "agent_path_resolve (lit ''/root/a'') (lit ''b/c'') = Inr (lit ''/root/a/b/c'')"
proof -
  have "from_string (lit ''/root/a'') = Inr (lit ''/root/a'')" "lit ''/root/a'' \<noteq> MORPHEUS"
    by code_simp+
  then have "agent_path_resolve (lit ''/root/a'') (lit ''b/c'') = Inr (lit ''/root/a/b/c'') \<longleftrightarrow>
      agent_path_joins (lit ''/root/a'') (split_char slash (lit ''b/c'')) = Inr (lit ''/root/a/b/c'')"
    using resolve_walks_the_tree [of "lit ''/root/a''" "lit ''b/c''" "lit ''/root/a/b/c''"]
    by (simp add: starts_with_iff lit_def)
  also have \<dots> by code_simp
  finally show ?thesis by simp
qed

end
