(* ===== verification/Agent_Registry.thy ===== *)
theory Agent_Registry
  imports Agent_Path Transition_System
begin

text \<open>
  The registry of the agents of a session (\<open>core/src/agent/registry.rs\<close>): the slots that limit
  how many agents run, the paths and nicknames they hold, and the reservations that give a slot
  back when a spawn fails.

  Each operation that holds the lock of \<open>active_agents\<close> is one function on \<open>ActiveAgents\<close>. The
  counter is an atomic \<open>usize\<close>, a 64-bit word that wraps around, changed outside the lock; the
  tasks that use the registry at the same time are interleaved by \<open>agent_step\<close>, one rule per
  atomic access. The text of a thread id belongs to the \<open>uuid\<close> crate and is the parameter
  \<open>uuid_str\<close>; the draws of \<open>rand\<close> are arguments; the environments saved for an evicted agent are
  of any type.
\<close>

type_synonym ThreadId = "128 word"

datatype CodexErr = AgentLimitReached "64 word" | UnsupportedOperation rstr

record AgentMetadata =
  am_id :: "ThreadId option"
  am_path :: "AgentPath option"
  am_nickname :: "rstr option"
  am_role :: "rstr option"

definition default_metadata :: AgentMetadata where
  "default_metadata = \<lparr>am_id = None, am_path = None, am_nickname = None, am_role = None\<rparr>"

record 'env RegisteredAgent =
  ra_path :: rstr
  ra_evicted_environments :: "'env list option"

definition registered_agent_new :: "rstr \<Rightarrow> 'env RegisteredAgent" where
  "registered_agent_new path = \<lparr>ra_path = path, ra_evicted_environments = None\<rparr>"

record 'env ActiveAgents =
  agent_tree :: "rstr \<rightharpoonup> AgentMetadata"
  thread_paths :: "ThreadId \<rightharpoonup> 'env RegisteredAgent"
  used_agent_nicknames :: "rstr set"
  nickname_reset_count :: nat

record 'env AgentRegistry =
  active_agents :: "'env ActiveAgents"
  total_count :: "64 word"

definition registry_default :: "'env AgentRegistry" where
  "registry_default =
     \<lparr>active_agents = \<lparr>agent_tree = Map.empty, thread_paths = Map.empty,
        used_agent_nicknames = {}, nickname_reset_count = 0\<rparr>, total_count = 0\<rparr>"

record SpawnReservation =
  active :: bool
  reserved_agent_nickname :: "rstr option"
  reserved_agent_path :: "AgentPath option"

section \<open>Where a session comes from\<close>

datatype InternalSessionSource = InternalMemoryConsolidation | InternalGuardian

datatype SubAgentSource =
    SubAgentReview
  | SubAgentCompact
  | ThreadSpawn ThreadId int "AgentPath option" "rstr option" "rstr option"
  | SubAgentMemoryConsolidation
  | SubAgentOther rstr

datatype SessionSource =
    SourceCli
  | SourceVSCode
  | SourceExec
  | SourceMcp
  | SourceCustom rstr
  | SourceInternal InternalSessionSource
  | SubAgent SubAgentSource
  | SourceUnknown

definition session_depth :: "SessionSource \<Rightarrow> int" where
  "session_depth session_source =
     (case session_source of
        SubAgent (ThreadSpawn _ depth _ _ _) \<Rightarrow> depth
      | SubAgent _ \<Rightarrow> 0
      | _ \<Rightarrow> 0)"

text \<open>\<open>i32::saturating_add\<close> of 1.\<close>

definition next_thread_spawn_depth :: "SessionSource \<Rightarrow> int" where
  "next_thread_spawn_depth session_source = min (session_depth session_source + 1) (2 ^ 31 - 1)"

definition exceeds_thread_spawn_depth_limit :: "int \<Rightarrow> int \<Rightarrow> bool" where
  "exceeds_thread_spawn_depth_limit depth max_depth \<longleftrightarrow> depth > max_depth"

section \<open>Nicknames\<close>

definition ordinal_suffix :: "nat \<Rightarrow> rstr" where
  "ordinal_suffix value =
     (if 11 \<le> value mod 100 \<and> value mod 100 \<le> 13 then lit ''th''
      else if value mod 10 = 1 then lit ''st''
      else if value mod 10 = 2 then lit ''nd''
      else if value mod 10 = 3 then lit ''rd''
      else lit ''th'')"

definition format_agent_nickname :: "rstr \<Rightarrow> nat \<Rightarrow> rstr" where
  "format_agent_nickname name reset_count =
     (if reset_count = 0 then name
      else name @ lit '' the '' @ dec (reset_count + 1) @ ordinal_suffix (reset_count + 1))"

text \<open>\<open>IndexedRandom::choose\<close> with the drawn number as an argument.\<close>

definition choose_by :: "nat \<Rightarrow> 'a list \<Rightarrow> 'a option" where
  "choose_by draw xs = (if xs = [] then None else Some (xs ! (draw mod length xs)))"

definition registry_reserve_nickname ::
  "nat \<Rightarrow> nat \<Rightarrow> rstr list \<Rightarrow> rstr option \<Rightarrow> 'env ActiveAgents \<Rightarrow> rstr option \<times> 'env ActiveAgents" where
  "registry_reserve_nickname draw1 draw2 names preferred aa =
     (case preferred of
        Some p \<Rightarrow> (Some p, aa\<lparr>used_agent_nicknames := insert p (used_agent_nicknames aa)\<rparr>)
      | None \<Rightarrow>
          if names = [] then (None, aa)
          else
            let available = filter (\<lambda>n. n \<notin> used_agent_nicknames aa)
                  (map (\<lambda>n. format_agent_nickname n (nickname_reset_count aa)) names)
            in case choose_by draw1 available of
                 Some n \<Rightarrow> (Some n, aa\<lparr>used_agent_nicknames := insert n (used_agent_nicknames aa)\<rparr>)
               | None \<Rightarrow>
                   let aa' = aa\<lparr>used_agent_nicknames := {},
                                nickname_reset_count := nickname_reset_count aa + 1\<rparr>
                   in case choose_by draw2 names of
                        None \<Rightarrow> (None, aa')
                      | Some name \<Rightarrow>
                          let n = format_agent_nickname name (nickname_reset_count aa')
                          in (Some n, aa'\<lparr>used_agent_nicknames := insert n (used_agent_nicknames aa')\<rparr>))"

section \<open>The operations under the lock\<close>

definition registry_reserve_path ::
  "AgentPath \<Rightarrow> 'env ActiveAgents \<Rightarrow> CodexErr + 'env ActiveAgents" where
  "registry_reserve_path p aa =
     (case agent_tree aa p of
        Some _ \<Rightarrow> Inl (UnsupportedOperation (lit ''agent path `'' @ p @ lit ''` already exists''))
      | None \<Rightarrow> Inr (aa\<lparr>agent_tree := (agent_tree aa)(p \<mapsto> default_metadata\<lparr>am_path := Some p\<rparr>)\<rparr>))"

definition release_reserved_agent_path :: "AgentPath \<Rightarrow> 'env ActiveAgents \<Rightarrow> 'env ActiveAgents" where
  "release_reserved_agent_path p aa =
     (if opt_is_some_and (\<lambda>m. am_id m = None) (agent_tree aa p) then
        aa\<lparr>agent_tree := (agent_tree aa)(p := None)\<rparr>
      else aa)"

definition agent_key :: "(ThreadId \<Rightarrow> rstr) \<Rightarrow> AgentMetadata \<Rightarrow> ThreadId \<Rightarrow> rstr" where
  "agent_key uuid_str m t = (case am_path m of Some p \<Rightarrow> p | None \<Rightarrow> lit ''thread:'' @ uuid_str t)"

definition register_spawned_thread ::
  "(ThreadId \<Rightarrow> rstr) \<Rightarrow> AgentMetadata \<Rightarrow> 'env ActiveAgents \<Rightarrow> 'env ActiveAgents" where
  "register_spawned_thread uuid_str m aa =
     (case am_id m of
        None \<Rightarrow> aa
      | Some t \<Rightarrow>
          let key = agent_key uuid_str m t;
              used = (case am_nickname m of None \<Rightarrow> used_agent_nicknames aa
                      | Some n \<Rightarrow> insert n (used_agent_nicknames aa));
              paths = (thread_paths aa)(t \<mapsto> registered_agent_new key);
              tree = (case thread_paths aa t of
                        Some previous \<Rightarrow>
                          if ra_path previous \<noteq> key then (agent_tree aa)(ra_path previous := None)
                          else agent_tree aa
                      | None \<Rightarrow> agent_tree aa);
              paths' = (case Option.bind (tree key) am_id of
                          Some t' \<Rightarrow> if t' \<noteq> t then paths(t' := None) else paths
                        | None \<Rightarrow> paths)
          in aa\<lparr>agent_tree := tree(key \<mapsto> m), thread_paths := paths', used_agent_nicknames := used\<rparr>)"

text \<open>The locked part of \<open>release_spawned_thread\<close>, and whether the counter is to be decremented.\<close>

definition remove_thread :: "ThreadId \<Rightarrow> 'env ActiveAgents \<Rightarrow> 'env ActiveAgents \<times> bool" where
  "remove_thread t aa =
     (case thread_paths aa t of
        None \<Rightarrow> (aa, False)
      | Some agent \<Rightarrow>
          let paths = (thread_paths aa)(t := None)
          in (case agent_tree aa (ra_path agent) of
                None \<Rightarrow> (aa\<lparr>thread_paths := paths\<rparr>, False)
              | Some m \<Rightarrow>
                  (aa\<lparr>thread_paths := paths, agent_tree := (agent_tree aa)(ra_path agent := None)\<rparr>,
                   \<not> opt_is_some_and is_root (am_path m))))"

definition register_root_thread :: "ThreadId \<Rightarrow> 'env ActiveAgents \<Rightarrow> 'env ActiveAgents" where
  "register_root_thread t aa =
     (let m = (case agent_tree aa ROOT of
                 Some m \<Rightarrow> m
               | None \<Rightarrow> default_metadata\<lparr>am_id := Some t, am_path := Some ROOT\<rparr>);
          aa' = aa\<lparr>agent_tree := (agent_tree aa)(ROOT \<mapsto> m)\<rparr>
      in case am_id m of
           Some root \<Rightarrow>
             aa'\<lparr>thread_paths := (thread_paths aa')(root \<mapsto> registered_agent_new ROOT)\<rparr>
         | None \<Rightarrow> aa')"

definition agent_id_for_path :: "AgentPath \<Rightarrow> 'env ActiveAgents \<Rightarrow> ThreadId option" where
  "agent_id_for_path p aa = Option.bind (agent_tree aa p) am_id"

definition agent_metadata_for_thread :: "ThreadId \<Rightarrow> 'env ActiveAgents \<Rightarrow> AgentMetadata option" where
  "agent_metadata_for_thread t aa = Option.bind (thread_paths aa t) (\<lambda>a. agent_tree aa (ra_path a))"

definition set_evicted :: "ThreadId \<Rightarrow> 'env list option \<Rightarrow> 'env ActiveAgents \<Rightarrow> 'env ActiveAgents" where
  "set_evicted t environments aa =
     (case thread_paths aa t of
        None \<Rightarrow> aa
      | Some agent \<Rightarrow>
          aa\<lparr>thread_paths := (thread_paths aa)(t \<mapsto> agent\<lparr>ra_evicted_environments := environments\<rparr>)\<rparr>)"

definition save_evicted_environments :: "ThreadId \<Rightarrow> 'env list \<Rightarrow> 'env ActiveAgents \<Rightarrow> 'env ActiveAgents" where
  "save_evicted_environments t environments = set_evicted t (Some environments)"

definition clear_evicted_environments :: "ThreadId \<Rightarrow> 'env ActiveAgents \<Rightarrow> 'env ActiveAgents" where
  "clear_evicted_environments t = set_evicted t None"

definition evicted_environments :: "ThreadId \<Rightarrow> 'env ActiveAgents \<Rightarrow> 'env list option" where
  "evicted_environments t aa = Option.bind (thread_paths aa t) ra_evicted_environments"

text \<open>The values of the tree come in no particular order.\<close>

definition live_agents :: "'env ActiveAgents \<Rightarrow> AgentMetadata set" where
  "live_agents aa =
     {m \<in> ran (agent_tree aa). am_id m \<noteq> None \<and> \<not> opt_is_some_and is_root (am_path m)}"

section \<open>Reservations\<close>

definition reservation_new :: SpawnReservation where
  "reservation_new = \<lparr>active = True, reserved_agent_nickname = None, reserved_agent_path = None\<rparr>"

definition reserve_nickname_with_preference ::
  "nat \<Rightarrow> nat \<Rightarrow> rstr list \<Rightarrow> rstr option \<Rightarrow> SpawnReservation \<Rightarrow> 'env ActiveAgents
   \<Rightarrow> (CodexErr + SpawnReservation) \<times> 'env ActiveAgents" where
  "reserve_nickname_with_preference draw1 draw2 names preferred r aa =
     (let (nickname, aa') = registry_reserve_nickname draw1 draw2 names preferred aa
      in case nickname of
           None \<Rightarrow> (Inl (UnsupportedOperation (lit ''no available agent nicknames'')), aa')
         | Some n \<Rightarrow> (Inr (r\<lparr>reserved_agent_nickname := Some n\<rparr>), aa'))"

definition reserve_agent_path ::
  "AgentPath \<Rightarrow> SpawnReservation \<Rightarrow> 'env ActiveAgents \<Rightarrow> CodexErr + (SpawnReservation \<times> 'env ActiveAgents)" where
  "reserve_agent_path p r aa =
     bind_result (registry_reserve_path p aa) (\<lambda>aa'. Inr (r\<lparr>reserved_agent_path := Some p\<rparr>, aa'))"

definition commit ::
  "(ThreadId \<Rightarrow> rstr) \<Rightarrow> AgentMetadata \<Rightarrow> SpawnReservation \<Rightarrow> 'env ActiveAgents
   \<Rightarrow> SpawnReservation \<times> 'env ActiveAgents" where
  "commit uuid_str m r aa =
     (r\<lparr>reserved_agent_nickname := None, reserved_agent_path := None, active := False\<rparr>,
      register_spawned_thread uuid_str m aa)"

text \<open>The locked part of \<open>drop\<close>, and whether the counter is to be decremented.\<close>

definition drop_reservation :: "SpawnReservation \<Rightarrow> 'env ActiveAgents \<Rightarrow> 'env ActiveAgents \<times> bool" where
  "drop_reservation r aa =
     (if active r then
        (case reserved_agent_path r of
           Some p \<Rightarrow> (release_reserved_agent_path p aa, True)
         | None \<Rightarrow> (aa, True))
      else (aa, False))"

section \<open>Tasks that share the registry\<close>

text \<open>
  A task in \<open>try_increment_spawned\<close> has the limit and the value it read last; one that holds a
  reservation has it until it is dropped; one that has left the lock may still have to decrement
  the counter.
\<close>

datatype agent_task =
    Idle
  | Trying "64 word" "64 word"
  | Holding SpawnReservation
  | Decrementing

record 'env agent_system =
  sy_registry :: "'env AgentRegistry"
  sy_tasks :: "nat \<Rightarrow> agent_task"

abbreviation sy_agents :: "'env agent_system \<Rightarrow> 'env ActiveAgents" where
  "sy_agents s \<equiv> active_agents (sy_registry s)"

abbreviation sy_total :: "'env agent_system \<Rightarrow> 64 word" where
  "sy_total s \<equiv> total_count (sy_registry s)"

definition set_task :: "nat \<Rightarrow> agent_task \<Rightarrow> 'env agent_system \<Rightarrow> 'env agent_system" where
  "set_task i task s = s\<lparr>sy_tasks := (sy_tasks s)(i := task)\<rparr>"

definition set_agents :: "'env ActiveAgents \<Rightarrow> 'env agent_system \<Rightarrow> 'env agent_system" where
  "set_agents aa s = s\<lparr>sy_registry := (sy_registry s)\<lparr>active_agents := aa\<rparr>\<rparr>"

definition set_total :: "64 word \<Rightarrow> 'env agent_system \<Rightarrow> 'env agent_system" where
  "set_total n s = s\<lparr>sy_registry := (sy_registry s)\<lparr>total_count := n\<rparr>\<rparr>"

definition initial_system :: "'env agent_system" where
  "initial_system = \<lparr>sy_registry = registry_default, sy_tasks = (\<lambda>_. Idle)\<rparr>"

text \<open>
  What the callers in \<open>core/src/agent/control.rs\<close> and \<open>control/spawn.rs\<close> do with a
  reservation: they ask for one path, a valid one other than the root's, and commit a thread that is
  not registered yet under the path they reserved, or under none. \<open>limit\<close> is the session's
  \<open>agent_max_threads\<close>. A \<open>compare_exchange_weak\<close> may fail without reason.
\<close>

inductive agent_step ::
  "(ThreadId \<Rightarrow> rstr) \<Rightarrow> 64 word option \<Rightarrow> 'env agent_system \<Rightarrow> 'env agent_system \<Rightarrow> bool"
  for uuid_str :: "ThreadId \<Rightarrow> rstr" and limit :: "64 word option"
where
  load: "sy_tasks s i = Idle \<Longrightarrow> limit = Some max_threads \<Longrightarrow>
     agent_step uuid_str limit s (set_task i (Trying max_threads (sy_total s)) s)"
| limit_reached: "sy_tasks s i = Trying max_threads current \<Longrightarrow> max_threads \<le> current \<Longrightarrow>
     agent_step uuid_str limit s (set_task i Idle s)"
| exchange: "sy_tasks s i = Trying max_threads current \<Longrightarrow> current < max_threads \<Longrightarrow> sy_total s = current \<Longrightarrow>
     agent_step uuid_str limit s (set_task i (Holding reservation_new) (set_total (current + 1) s))"
| exchange_failed: "sy_tasks s i = Trying max_threads current \<Longrightarrow> current < max_threads \<Longrightarrow>
     agent_step uuid_str limit s (set_task i (Trying max_threads (sy_total s)) s)"
| unlimited: "sy_tasks s i = Idle \<Longrightarrow> limit = None \<Longrightarrow>
     agent_step uuid_str limit s (set_task i (Holding reservation_new) (set_total (sy_total s + 1) s))"
| nickname: "sy_tasks s i = Holding r \<Longrightarrow>
     reserve_nickname_with_preference d1 d2 names preferred r (sy_agents s) = (Inr r', aa) \<Longrightarrow>
     agent_step uuid_str limit s (set_task i (Holding r') (set_agents aa s))"
| no_nickname: "sy_tasks s i = Holding r \<Longrightarrow>
     reserve_nickname_with_preference d1 d2 names preferred r (sy_agents s) = (Inl err, aa) \<Longrightarrow>
     agent_step uuid_str limit s (set_agents aa s)"
| path: "sy_tasks s i = Holding r \<Longrightarrow> active r \<Longrightarrow> reserved_agent_path r = None \<Longrightarrow>
     from_string p = Inr p \<Longrightarrow> \<not> is_root p \<Longrightarrow>
     reserve_agent_path p r (sy_agents s) = Inr (r', aa) \<Longrightarrow>
     agent_step uuid_str limit s (set_task i (Holding r') (set_agents aa s))"
| commit_spawn: "sy_tasks s i = Holding r \<Longrightarrow> active r \<Longrightarrow> am_id m = Some t \<Longrightarrow>
     thread_paths (sy_agents s) t = None \<Longrightarrow> am_path m = reserved_agent_path r \<Longrightarrow>
     commit uuid_str m r (sy_agents s) = (r', aa) \<Longrightarrow>
     agent_step uuid_str limit s (set_task i (Holding r') (set_agents aa s))"
| drop_spawn: "sy_tasks s i = Holding r \<Longrightarrow> drop_reservation r (sy_agents s) = (aa, counted) \<Longrightarrow>
     agent_step uuid_str limit s (set_task i (if counted then Decrementing else Idle) (set_agents aa s))"
| decrement: "sy_tasks s i = Decrementing \<Longrightarrow>
     agent_step uuid_str limit s (set_task i Idle (set_total (sy_total s - 1) s))"
| release: "sy_tasks s i = Idle \<Longrightarrow> remove_thread t (sy_agents s) = (aa, counted) \<Longrightarrow>
     agent_step uuid_str limit s (set_task i (if counted then Decrementing else Idle) (set_agents aa s))"
| root: "agent_tree (sy_agents s) ROOT \<noteq> None \<or> thread_paths (sy_agents s) t = None \<Longrightarrow>
     agent_step uuid_str limit s (set_agents (register_root_thread t (sy_agents s)) s)"
| save_environments:
     "agent_step uuid_str limit s (set_agents (save_evicted_environments t es (sy_agents s)) s)"
| clear_environments:
     "agent_step uuid_str limit s (set_agents (clear_evicted_environments t (sy_agents s)) s)"

definition agent_reachable ::
  "(ThreadId \<Rightarrow> rstr) \<Rightarrow> 64 word option \<Rightarrow> 'env agent_system \<Rightarrow> bool" where
  "agent_reachable uuid_str limit s \<longleftrightarrow> (agent_step uuid_str limit)\<^sup>*\<^sup>* initial_system s"

lemma agent_reachable_intros:
  "agent_reachable uuid_str limit initial_system"
  "agent_reachable uuid_str limit s \<Longrightarrow> agent_step uuid_str limit s s' \<Longrightarrow> agent_reachable uuid_str limit s'"
  by (auto simp: agent_reachable_def intro: rtranclp.rtrancl_into_rtrancl)

end
