(* ===== verification/Agent_Slots.thy ===== *)
theory Agent_Slots
  imports Agent_Registry
begin

text \<open>
  What holds of the agent registry in every reachable state: threads and paths are matched one to
  one, every reserved path belongs to one reservation, and the counter is the number of live
  agents and of slots that are held, so that the limit is never passed and no slot is lost.
\<close>

section \<open>The invariant\<close>

definition path_of :: "'env ActiveAgents \<Rightarrow> ThreadId \<Rightarrow> rstr option" where
  "path_of aa t = map_option ra_path (thread_paths aa t)"

definition thread_of :: "'env ActiveAgents \<Rightarrow> rstr \<Rightarrow> ThreadId option" where
  "thread_of aa k = Option.bind (agent_tree aa k) am_id"

definition matched :: "'env ActiveAgents \<Rightarrow> bool" where
  "matched aa \<longleftrightarrow> (\<forall>t k. path_of aa t = Some k \<longleftrightarrow> thread_of aa k = Some t)"

definition keyed :: "(ThreadId \<Rightarrow> rstr) \<Rightarrow> 'env ActiveAgents \<Rightarrow> bool" where
  "keyed uuid_str aa \<longleftrightarrow>
     (\<forall>k m. agent_tree aa k = Some m \<longrightarrow>
        (case am_path m of
           Some p \<Rightarrow> p = k \<and> starts_with [slash] k
         | None \<Rightarrow> (\<exists>t. am_id m = Some t \<and> k = lit ''thread:'' @ uuid_str t)))"

fun reserved_path :: "agent_task \<Rightarrow> rstr option" where
  "reserved_path (Holding r) = (if active r then reserved_agent_path r else None)"
| "reserved_path _ = None"

fun holds_slot :: "agent_task \<Rightarrow> bool" where
  "holds_slot (Holding r) = active r"
| "holds_slot Decrementing = True"
| "holds_slot _ = False"

definition reservations_ok :: "'env ActiveAgents \<Rightarrow> (nat \<Rightarrow> agent_task) \<Rightarrow> bool" where
  "reservations_ok aa tasks \<longleftrightarrow>
     (\<forall>k. (\<exists>m. agent_tree aa k = Some m \<and> am_id m = None) = (\<exists>i. reserved_path (tasks i) = Some k))
     \<and> (\<forall>i j k. reserved_path (tasks i) = Some k \<and> reserved_path (tasks j) = Some k \<longrightarrow> i = j)
     \<and> (\<forall>i. reserved_path (tasks i) \<noteq> Some ROOT)"

definition live_entry :: "rstr \<Rightarrow> AgentMetadata option \<Rightarrow> bool" where
  "live_entry k e \<longleftrightarrow> k \<noteq> ROOT \<and> opt_is_some_and (\<lambda>m. am_id m \<noteq> None) e"

definition live_paths :: "'env ActiveAgents \<Rightarrow> rstr set" where
  "live_paths aa = {k. live_entry k (agent_tree aa k)}"

definition held_slots :: "(nat \<Rightarrow> agent_task) \<Rightarrow> nat set" where
  "held_slots tasks = {i. holds_slot (tasks i)}"

definition slots :: "'env agent_system \<Rightarrow> nat" where
  "slots s = card (live_paths (sy_agents s)) + card (held_slots (sy_tasks s))"

definition within_limit :: "64 word option \<Rightarrow> 'env agent_system \<Rightarrow> bool" where
  "within_limit limit s \<longleftrightarrow>
     (\<forall>max. limit = Some max \<longrightarrow> slots s \<le> unat max
        \<and> (\<forall>i max' current. sy_tasks s i = Trying max' current \<longrightarrow> max' = max))"

definition agent_invariant ::
  "(ThreadId \<Rightarrow> rstr) \<Rightarrow> 64 word option \<Rightarrow> 'env agent_system \<Rightarrow> bool" where
  "agent_invariant uuid_str limit s \<longleftrightarrow>
     matched (sy_agents s) \<and> keyed uuid_str (sy_agents s) \<and> reservations_ok (sy_agents s) (sy_tasks s)
     \<and> finite (live_paths (sy_agents s)) \<and> finite (held_slots (sy_tasks s))
     \<and> sy_total s = of_nat (slots s) \<and> within_limit limit s"

section \<open>How the operations change it\<close>

lemma unat_lt_size: "unat (w :: 64 word) < 2 ^ 64"
  using unsigned_less [of w] by simp

lemma live_paths_update:
  assumes "agent_tree aa' = (agent_tree aa)(k := e)" "finite (live_paths aa)"
  shows "card (live_paths aa') + of_bool (live_entry k (agent_tree aa k))
           = card (live_paths aa) + of_bool (live_entry k e)"
    and "finite (live_paths aa')"
  using card_update [of live_entry "agent_tree aa" k e] assms by (simp_all add: live_paths_def)

lemma held_slots_update:
  assumes "finite (held_slots tasks)"
  shows "card (held_slots (tasks(i := x))) + of_bool (holds_slot (tasks i))
           = card (held_slots tasks) + of_bool (holds_slot x)"
    and "finite (held_slots (tasks(i := x)))"
  using card_update [of "\<lambda>_. holds_slot" tasks i x] assms by (simp_all add: held_slots_def)

lemma matched_same:
  "matched aa \<Longrightarrow> path_of aa' = path_of aa \<Longrightarrow> thread_of aa' = thread_of aa \<Longrightarrow> matched aa'"
  by (simp add: matched_def)

lemma reserve_path_effect:
  assumes "registry_reserve_path p aa = Inr aa'"
  shows "agent_tree aa p = None" "agent_tree aa' = (agent_tree aa)(p \<mapsto> default_metadata\<lparr>am_path := Some p\<rparr>)"
    "path_of aa' = path_of aa" "thread_of aa' = thread_of aa"
  using assms
  by (auto simp: registry_reserve_path_def path_of_def thread_of_def default_metadata_def fun_eq_iff
      split: option.splits)

lemma release_path_effect:
  shows "agent_tree (release_reserved_agent_path p aa) =
           (if opt_is_some_and (\<lambda>m. am_id m = None) (agent_tree aa p) then (agent_tree aa)(p := None)
            else agent_tree aa)"
    "path_of (release_reserved_agent_path p aa) = path_of aa"
    "thread_of (release_reserved_agent_path p aa) = thread_of aa"
  by (auto simp: release_reserved_agent_path_def path_of_def thread_of_def opt_is_some_and_def fun_eq_iff
      split: option.splits)

lemma register_effect:
  assumes "am_id m = Some t" "thread_paths aa t = None" "thread_of aa (agent_key uuid_str m t) = None"
  shows "agent_tree (register_spawned_thread uuid_str m aa) = (agent_tree aa)(agent_key uuid_str m t \<mapsto> m)"
    and "path_of (register_spawned_thread uuid_str m aa) = (path_of aa)(t \<mapsto> agent_key uuid_str m t)"
    and "thread_of (register_spawned_thread uuid_str m aa) = (thread_of aa)(agent_key uuid_str m t \<mapsto> t)"
  using assms
  by (auto simp: register_spawned_thread_def path_of_def thread_of_def registered_agent_new_def Let_def
      fun_eq_iff)

lemma remove_thread_effect:
  assumes "matched aa" "remove_thread t aa = (aa', counted)"
  shows "path_of aa t = None \<and> aa' = aa \<and> \<not> counted
    \<or> (\<exists>k m. path_of aa t = Some k \<and> agent_tree aa k = Some m \<and> am_id m = Some t
         \<and> agent_tree aa' = (agent_tree aa)(k := None)
         \<and> path_of aa' = (path_of aa)(t := None) \<and> thread_of aa' = (thread_of aa)(k := None)
         \<and> counted = (\<not> opt_is_some_and is_root (am_path m)))"
proof (cases "thread_paths aa t")
  case None
  with assms(2) show ?thesis by (simp add: remove_thread_def path_of_def)
next
  case (Some a)
  then have p: "path_of aa t = Some (ra_path a)" by (simp add: path_of_def)
  with assms(1) have "thread_of aa (ra_path a) = Some t" by (simp add: matched_def)
  then obtain m where m: "agent_tree aa (ra_path a) = Some m" "am_id m = Some t"
    by (auto simp: thread_of_def bind_eq_Some_conv)
  then show ?thesis
    using assms(2) Some p
    by (auto simp: remove_thread_def Let_def path_of_def thread_of_def fun_eq_iff)
qed

lemma register_root_effect:
  fixes aa :: "'env ActiveAgents"
  assumes "matched aa" "agent_tree aa ROOT \<noteq> None \<or> thread_paths aa t = None"
  defines "aa' \<equiv> register_root_thread t aa"
  shows "agent_tree aa ROOT \<noteq> None \<and> agent_tree aa' = agent_tree aa \<and> path_of aa' = path_of aa
      \<and> thread_of aa' = thread_of aa
    \<or> agent_tree aa ROOT = None
      \<and> agent_tree aa' = (agent_tree aa)(ROOT \<mapsto> default_metadata\<lparr>am_id := Some t, am_path := Some ROOT\<rparr>)
      \<and> path_of aa' = (path_of aa)(t \<mapsto> ROOT) \<and> thread_of aa' = (thread_of aa)(ROOT \<mapsto> t)"
proof (cases "agent_tree aa ROOT")
  case None
  then show ?thesis
    by (auto simp: aa'_def register_root_thread_def Let_def path_of_def thread_of_def registered_agent_new_def
        fun_eq_iff)
next
  case (Some m)
  have "path_of aa r = Some ROOT" if "am_id m = Some r" for r
    using assms(1) Some that by (simp add: matched_def thread_of_def)
  then show ?thesis
    using Some
    by (auto simp: aa'_def register_root_thread_def Let_def path_of_def thread_of_def registered_agent_new_def
        fun_eq_iff split: option.split)
qed

lemma set_evicted_effect:
  "agent_tree (set_evicted t es aa) = agent_tree aa" "path_of (set_evicted t es aa) = path_of aa"
  "thread_of (set_evicted t es aa) = thread_of aa"
  by (auto simp: set_evicted_def path_of_def thread_of_def fun_eq_iff split: option.split)

lemma nickname_effect:
  assumes "reserve_nickname_with_preference d1 d2 names preferred r aa = (res, aa')"
  shows "agent_tree aa' = agent_tree aa" "thread_paths aa' = thread_paths aa"
    "res = Inr r' \<Longrightarrow> active r' = active r \<and> reserved_agent_path r' = reserved_agent_path r"
  using assms
  by (auto simp: reserve_nickname_with_preference_def registry_reserve_nickname_def Let_def
      split: option.splits if_splits)

section \<open>Every step keeps the invariant\<close>

lemma set_simps [simp]:
  "sy_agents (set_task i x s) = sy_agents s" "sy_total (set_task i x s) = sy_total s"
  "sy_tasks (set_task i x s) = (sy_tasks s)(i := x)"
  "sy_agents (set_agents aa s) = aa" "sy_total (set_agents aa s) = sy_total s"
  "sy_tasks (set_agents aa s) = sy_tasks s"
  "sy_agents (set_total n s) = sy_agents s" "sy_total (set_total n s) = n"
  "sy_tasks (set_total n s) = sy_tasks s"
  by (simp_all add: set_task_def set_agents_def set_total_def)

lemma set_same [simp]:
  "set_agents (sy_agents s) s = s" "set_task i (sy_tasks s i) s = s"
  "sy_tasks s i = x \<Longrightarrow> set_task i x s = s"
  by (auto simp: set_task_def set_agents_def)

lemma invariant_task:
  assumes "agent_invariant uuid_str limit s"
    and "reserved_path x = reserved_path (sy_tasks s i)" "holds_slot x = holds_slot (sy_tasks s i)"
    and "\<And>max' current. x = Trying max' current \<Longrightarrow> limit = None \<or> limit = Some max'"
  shows "agent_invariant uuid_str limit (set_task i x s)"
proof -
  have "\<And>j. reserved_path (((sy_tasks s)(i := x)) j) = reserved_path (sy_tasks s j)"
    and held: "held_slots ((sy_tasks s)(i := x)) = held_slots (sy_tasks s)"
    using assms(2,3) by (auto simp: held_slots_def)
  then have "reservations_ok (sy_agents s) ((sy_tasks s)(i := x)) = reservations_ok (sy_agents s) (sy_tasks s)"
    unfolding reservations_ok_def by simp
  moreover have "slots (set_task i x s) = slots s" by (simp add: slots_def held)
  ultimately show ?thesis
    using assms(1,4) held by (auto simp: agent_invariant_def within_limit_def)
qed

lemma invariant_agents:
  assumes "agent_invariant uuid_str limit s"
    and "agent_tree aa = agent_tree (sy_agents s)" "path_of aa = path_of (sy_agents s)"
  shows "agent_invariant uuid_str limit (set_agents aa s)"
proof -
  have "thread_of aa = thread_of (sy_agents s)" using assms(2) by (simp add: thread_of_def fun_eq_iff)
  moreover have "live_paths aa = live_paths (sy_agents s)" using assms(2) by (simp add: live_paths_def)
  moreover from this have "slots (set_agents aa s) = slots s" by (simp add: slots_def)
  ultimately show ?thesis
    using assms by (auto simp: agent_invariant_def within_limit_def keyed_def reservations_ok_def intro: matched_same)
qed

lemma invariant_slot_taken:
  assumes I: "agent_invariant uuid_str limit s"
    and i: "reserved_path (sy_tasks s i) = None" "\<not> holds_slot (sy_tasks s i)"
    and room: "\<And>max. limit = Some max \<Longrightarrow> sy_total s < max"
  shows "agent_invariant uuid_str limit (set_task i (Holding reservation_new) (set_total (sy_total s + 1) s))"
    (is "agent_invariant _ _ ?s'")
proof -
  have fin: "finite (held_slots (sy_tasks s))" using I by (simp add: agent_invariant_def)
  have n: "slots ?s' = slots s + 1"
    using held_slots_update(1) [OF fin, of i "Holding reservation_new"] i(2)
    by (simp add: slots_def reservation_new_def)
  have "\<And>j. reserved_path (((sy_tasks s)(i := Holding reservation_new)) j) = reserved_path (sy_tasks s j)"
    using i(1) by (auto simp: reservation_new_def)
  then have "reservations_ok (sy_agents s) ((sy_tasks s)(i := Holding reservation_new))"
    using I by (simp add: agent_invariant_def reservations_ok_def)
  moreover have "within_limit limit ?s'"
    unfolding within_limit_def
  proof (intro allI impI conjI)
    fix max
    assume l: "limit = Some max"
    have "sy_total s = of_nat (slots s)" "slots s \<le> unat max"
      using I l by (auto simp: agent_invariant_def within_limit_def)
    moreover from this have "unat (sy_total s) = slots s"
      using unat_lt_size [of max] by (simp add: unsigned_of_nat take_bit_nat_eq_self)
    ultimately show "slots ?s' \<le> unat max" using room [OF l] n by (simp add: word_less_nat_alt)
  next
    fix max j max' current
    assume "limit = Some max" "sy_tasks ?s' j = Trying max' current"
    then show "max' = max" using I by (auto simp: agent_invariant_def within_limit_def split: if_splits)
  qed
  ultimately show ?thesis
    using I n held_slots_update(2) [OF fin, of i "Holding reservation_new"]
    by (simp add: agent_invariant_def)
qed

lemma invariant_decrement:
  assumes I: "agent_invariant uuid_str limit s" and i: "sy_tasks s i = Decrementing"
  shows "agent_invariant uuid_str limit (set_task i Idle (set_total (sy_total s - 1) s))"
    (is "agent_invariant _ _ ?s'")
proof -
  have fin: "finite (held_slots (sy_tasks s))" using I by (simp add: agent_invariant_def)
  have n: "slots s = slots ?s' + 1"
    using held_slots_update(1) [OF fin, of i Idle] i by (simp add: slots_def)
  have "\<And>j. reserved_path (((sy_tasks s)(i := Idle)) j) = reserved_path (sy_tasks s j)"
    using i by auto
  then have "reservations_ok (sy_agents s) ((sy_tasks s)(i := Idle))"
    using I by (simp add: agent_invariant_def reservations_ok_def)
  moreover have "within_limit limit ?s'"
    using I n by (auto simp: agent_invariant_def within_limit_def)
  moreover obtain k where "slots ?s' = k" "slots s = Suc k" using n by simp
  ultimately show ?thesis
    using I held_slots_update(2) [OF fin, of i Idle] by (simp add: agent_invariant_def)
qed

lemma invariant_tree_update:
  fixes s :: "'env agent_system"
  assumes I: "agent_invariant uuid_str limit s"
    and tree: "agent_tree aa = (agent_tree (sy_agents s))(k := e)"
    and same: "of_bool (live_entry k e) + of_bool (holds_slot x)
      = (of_bool (live_entry k (agent_tree (sy_agents s) k)) + of_bool (holds_slot (sy_tasks s i)) :: nat)"
    and parts: "matched aa" "keyed uuid_str aa" "reservations_ok aa ((sy_tasks s)(i := x))"
    and x: "\<And>max' current. x \<noteq> Trying max' current"
  shows "agent_invariant uuid_str limit (set_task i x (set_agents aa s))"
proof -
  have fin: "finite (live_paths (sy_agents s))" "finite (held_slots (sy_tasks s))"
    using I by (simp_all add: agent_invariant_def)
  have n: "slots (set_task i x (set_agents aa s)) = slots s"
    using live_paths_update(1) [OF tree fin(1)] held_slots_update(1) [OF fin(2), of i x] same
    by (simp add: slots_def)
  then have "within_limit limit (set_task i x (set_agents aa s))"
    using I x by (auto simp: agent_invariant_def within_limit_def)
  then show ?thesis
    using I n parts live_paths_update(2) [OF tree fin(1)] held_slots_update(2) [OF fin(2), of i x]
    by (simp add: agent_invariant_def)
qed

lemma from_string_slash: "from_string p = Inr p \<Longrightarrow> starts_with [slash] p"
  by (auto simp: from_string_iff starts_with_iff tree_path_Cons MORPHEUS_def lit_def)

lemma root_slash: "starts_with [slash] ROOT"
  by (simp add: starts_with_iff ROOT_def lit_def)

lemma thread_key_slash: "\<not> starts_with [slash] (lit ''thread:'' @ s)"
  by (simp add: starts_with_iff lit_def)

lemma keyed_reserved:
  assumes "keyed uuid_str aa" "agent_tree aa k = Some m" "am_id m = None"
  shows "am_path m = Some k \<and> starts_with [slash] k"
  using assms by (cases "am_path m") (force simp: keyed_def)+

lemma keyed_thread:
  assumes "keyed uuid_str aa" "inj uuid_str" "agent_tree aa (lit ''thread:'' @ uuid_str t) = Some m"
  shows "am_id m = Some t"
proof (cases "am_path m")
  case None
  with assms show ?thesis unfolding keyed_def by (force simp: inj_eq)
next
  case (Some p)
  with assms(1,3) have "starts_with [slash] (lit ''thread:'' @ uuid_str t)" by (force simp: keyed_def)
  then show ?thesis by (simp add: thread_key_slash)
qed

lemma keyed_root:
  assumes "keyed uuid_str aa" "agent_tree aa k = Some m"
  shows "opt_is_some_and is_root (am_path m) = (k = ROOT)"
proof (cases "am_path m")
  case None
  with assms obtain t where "k = lit ''thread:'' @ uuid_str t" by (force simp: keyed_def)
  with None show ?thesis using root_slash thread_key_slash [of "uuid_str t"] by auto
next
  case (Some p)
  with assms have "p = k" by (force simp: keyed_def)
  with Some show ?thesis by (simp add: is_root_def)
qed

lemma reservations_cong:
  "(\<And>k. (\<exists>m. agent_tree aa' k = Some m \<and> am_id m = None) = (\<exists>m. agent_tree aa k = Some m \<and> am_id m = None)) \<Longrightarrow>
     reservations_ok aa tasks \<Longrightarrow> reservations_ok aa' tasks"
  by (simp add: reservations_ok_def)

lemma no_thread: "matched aa \<Longrightarrow> path_of aa t = None \<Longrightarrow> thread_of aa k \<noteq> Some t"
  unfolding matched_def by (metis option.distinct(1))

lemma invariant_path:
  assumes I: "agent_invariant uuid_str limit s" and i: "sy_tasks s i = Holding r" "active r"
    and r: "reserved_agent_path r = None" and p: "from_string p = Inr p" "\<not> is_root p"
    and step: "reserve_agent_path p r (sy_agents s) = Inr (r', aa)"
  shows "agent_invariant uuid_str limit (set_task i (Holding r') (set_agents aa s))"
proof -
  have e: "registry_reserve_path p (sy_agents s) = Inr aa" and r': "r' = r\<lparr>reserved_agent_path := Some p\<rparr>"
    using step by (auto simp: reserve_agent_path_def bind_result_Inr)
  note E = reserve_path_effect [OF e]
  have O: "reservations_ok (sy_agents s) (sy_tasks s)" "matched (sy_agents s)" "keyed uuid_str (sy_agents s)"
    using I by (simp_all add: agent_invariant_def)
  have free: "reserved_path (sy_tasks s j) \<noteq> Some p" for j
    using O(1) E(1) by (force simp: reservations_ok_def)
  have new: "reserved_path (((sy_tasks s)(i := Holding r')) j) = (if j = i then Some p else reserved_path (sy_tasks s j))" for j
    using i by (simp add: r')
  show ?thesis
  proof (rule invariant_tree_update [OF I E(2)])
    show "reservations_ok aa ((sy_tasks s)(i := Holding r'))"
      unfolding reservations_ok_def new E(2)
    proof (intro conjI allI impI)
      fix k
      show "(\<exists>m. ((agent_tree (sy_agents s))(p \<mapsto> default_metadata\<lparr>am_path := Some p\<rparr>)) k = Some m \<and> am_id m = None) =
          (\<exists>j. (if j = i then Some p else reserved_path (sy_tasks s j)) = Some k)"
      proof (cases "k = p")
        case True
        then show ?thesis by (auto simp: default_metadata_def)
      next
        case False
        moreover have "(\<exists>j. (if j = i then Some p else reserved_path (sy_tasks s j)) = Some k)
            = (\<exists>j. reserved_path (sy_tasks s j) = Some k)"
          using False i r by (metis option.distinct(1) option.inject reserved_path.simps(1))
        ultimately show ?thesis using O(1) by (simp add: reservations_ok_def)
      qed
    qed (use O(1) free p(2) in \<open>auto simp: reservations_ok_def is_root_def split: if_splits\<close>)
    show "keyed uuid_str aa"
      using O(3) from_string_slash [OF p(1)] by (simp add: keyed_def E(2) default_metadata_def)
    show "matched aa" using O(2) E(3,4) by (rule matched_same)
  qed (use E(1) i in \<open>simp_all add: live_entry_def default_metadata_def r'\<close>)
qed

lemma invariant_commit:
  assumes I: "agent_invariant uuid_str limit s" and inj: "inj uuid_str"
    and i: "sy_tasks s i = Holding r" "active r"
    and m: "am_id m = Some t" "thread_paths (sy_agents s) t = None" "am_path m = reserved_agent_path r"
    and step: "commit uuid_str m r (sy_agents s) = (r', aa)"
  shows "agent_invariant uuid_str limit (set_task i (Holding r') (set_agents aa s))"
proof -
  let ?k = "agent_key uuid_str m t"
  have aa: "aa = register_spawned_thread uuid_str m (sy_agents s)" and r': "\<not> active r'"
    using step by (auto simp: commit_def)
  have O: "reservations_ok (sy_agents s) (sy_tasks s)" "matched (sy_agents s)" "keyed uuid_str (sy_agents s)"
    using I by (simp_all add: agent_invariant_def)
  have noid: "path_of (sy_agents s) t = None" using m(2) by (simp add: path_of_def)
  have own: "reserved_path (sy_tasks s i) = am_path m" using i m(3) by simp
  have entry: "case am_path m of Some p \<Rightarrow> \<exists>m'. agent_tree (sy_agents s) p = Some m' \<and> am_id m' = None \<and> p \<noteq> ROOT
      \<and> starts_with [slash] p | None \<Rightarrow> agent_tree (sy_agents s) ?k = None"
  proof (cases "am_path m")
    case (Some p)
    then have "reserved_path (sy_tasks s i) = Some p" using own by simp
    then obtain m' where "agent_tree (sy_agents s) p = Some m'" "am_id m' = None" "p \<noteq> ROOT"
      using O(1) unfolding reservations_ok_def by metis
    moreover from this have "starts_with [slash] p" using keyed_reserved [OF O(3)] by blast
    ultimately show ?thesis using Some by simp
  next
    case None
    then have k: "?k = lit ''thread:'' @ uuid_str t" by (simp add: agent_key_def)
    have "agent_tree (sy_agents s) ?k = None"
    proof (rule ccontr)
      assume "agent_tree (sy_agents s) ?k \<noteq> None"
      then obtain m' where m': "agent_tree (sy_agents s) ?k = Some m'" by auto
      then have "am_id m' = Some t"
        using keyed_thread [OF O(3) inj] by (simp add: k)
      then have "path_of (sy_agents s) t = Some ?k"
        using O(2) m' by (simp add: matched_def thread_of_def)
      with noid show False by simp
    qed
    then show ?thesis using None by simp
  qed
  have kn: "thread_of (sy_agents s) ?k = None" and kr: "?k \<noteq> ROOT"
    and dead: "\<not> live_entry ?k (agent_tree (sy_agents s) ?k)"
    using entry root_slash thread_key_slash [of "uuid_str t"]
    by (cases "am_path m"; force simp: thread_of_def agent_key_def live_entry_def)+
  note E = register_effect [OF m(1,2) kn, folded aa]
  have new: "reserved_path (((sy_tasks s)(i := Holding r')) j) = (if j = i then None else reserved_path (sy_tasks s j))" for j
    using r' by simp
  show ?thesis
  proof (rule invariant_tree_update [OF I E(1)])
    show "reservations_ok aa ((sy_tasks s)(i := Holding r'))"
      unfolding reservations_ok_def new E(1)
    proof (intro conjI allI impI)
      fix k
      show "(\<exists>m'. ((agent_tree (sy_agents s))(?k \<mapsto> m)) k = Some m' \<and> am_id m' = None) =
          (\<exists>j. (if j = i then None else reserved_path (sy_tasks s j)) = Some k)"
      proof (cases "k = ?k")
        case True
        have "\<not> (\<exists>j. j \<noteq> i \<and> reserved_path (sy_tasks s j) = Some ?k)"
        proof (cases "am_path m")
          case None
          then show ?thesis using O(1) entry by (force simp: reservations_ok_def)
        next
          case (Some p)
          then show ?thesis using O(1) own by (auto simp: reservations_ok_def agent_key_def)
        qed
        then show ?thesis using True m(1) by (auto split: if_splits)
      next
        case False
        have "reserved_path (sy_tasks s i) \<noteq> Some k"
          using False own by (auto simp: agent_key_def)
        then have "(\<exists>j. (if j = i then None else reserved_path (sy_tasks s j)) = Some k)
            = (\<exists>j. reserved_path (sy_tasks s j) = Some k)" by auto
        with False show ?thesis using O(1) by (simp add: reservations_ok_def)
      qed
    qed (use O(1) in \<open>auto simp: reservations_ok_def split: if_splits\<close>)
    show "keyed uuid_str aa"
      using O(3) entry m(1) by (auto simp: keyed_def E(1) agent_key_def split: option.splits)
    show "matched aa"
      using O(2) noid kn no_thread [OF O(2) noid] by (auto simp: matched_def E(2,3) split: if_splits)
  qed (use dead kr m(1) i r' in \<open>simp_all add: live_entry_def\<close>)
qed

lemma invariant_drop:
  assumes I: "agent_invariant uuid_str limit s" and i: "sy_tasks s i = Holding r"
    and step: "drop_reservation r (sy_agents s) = (aa, counted)"
  shows "agent_invariant uuid_str limit
    (set_task i (if counted then Decrementing else Idle) (set_agents aa s))"
proof (cases "active r")
  case False
  then have "aa = sy_agents s" "\<not> counted" using step by (simp_all add: drop_reservation_def)
  then show ?thesis using invariant_task [OF I, of Idle i] i False by simp
next
  case True
  have counted: "counted" using step True by (auto simp: drop_reservation_def split: option.splits)
  have O: "reservations_ok (sy_agents s) (sy_tasks s)" "matched (sy_agents s)" "keyed uuid_str (sy_agents s)"
    using I by (simp_all add: agent_invariant_def)
  show ?thesis
  proof (cases "reserved_agent_path r")
    case None
    then have "aa = sy_agents s" using step True by (simp add: drop_reservation_def)
    then show ?thesis using invariant_task [OF I, of Decrementing i] i True None counted by simp
  next
    case (Some p)
    then have aa: "aa = release_reserved_agent_path p (sy_agents s)"
      using step True by (simp add: drop_reservation_def)
    have own: "reserved_path (sy_tasks s i) = Some p" using i True Some by simp
    then obtain m where m: "agent_tree (sy_agents s) p = Some m" "am_id m = None"
      using O(1) unfolding reservations_ok_def by metis
    then have tree: "agent_tree aa = (agent_tree (sy_agents s))(p := None)"
      by (simp add: aa release_path_effect)
    have new: "reserved_path (((sy_tasks s)(i := Decrementing)) j) = (if j = i then None else reserved_path (sy_tasks s j))" for j
      by simp
    have "agent_invariant uuid_str limit (set_task i Decrementing (set_agents aa s))"
    proof (rule invariant_tree_update [OF I tree])
      show "reservations_ok aa ((sy_tasks s)(i := Decrementing))"
        unfolding reservations_ok_def new tree
      proof (intro conjI allI impI)
        fix k
        show "(\<exists>m'. ((agent_tree (sy_agents s))(p := None)) k = Some m' \<and> am_id m' = None) =
            (\<exists>j. (if j = i then None else reserved_path (sy_tasks s j)) = Some k)"
        proof (cases "k = p")
          case True
          then show ?thesis using O(1) own by (auto simp: reservations_ok_def)
        next
          case False
          then have "(\<exists>j. (if j = i then None else reserved_path (sy_tasks s j)) = Some k)
              = (\<exists>j. reserved_path (sy_tasks s j) = Some k)"
            using own by (metis option.inject option.distinct(1))
          with False show ?thesis using O(1) by (simp add: reservations_ok_def)
        qed
      qed (use O(1) in \<open>auto simp: reservations_ok_def split: if_splits\<close>)
      show "keyed uuid_str aa" using O(3) by (simp add: keyed_def tree)
      show "matched aa" unfolding aa by (rule matched_same [OF O(2) release_path_effect(2,3)])
    qed (use m i True in \<open>simp_all add: live_entry_def\<close>)
    with counted show ?thesis by simp
  qed
qed

lemma invariant_release:
  assumes I: "agent_invariant uuid_str limit s" and i: "sy_tasks s i = Idle"
    and step: "remove_thread t (sy_agents s) = (aa, counted)"
  shows "agent_invariant uuid_str limit
    (set_task i (if counted then Decrementing else Idle) (set_agents aa s))"
proof -
  have O: "reservations_ok (sy_agents s) (sy_tasks s)" "matched (sy_agents s)" "keyed uuid_str (sy_agents s)"
    using I by (simp_all add: agent_invariant_def)
  from remove_thread_effect [OF O(2) step] show ?thesis
  proof (elim disjE conjE exE)
    assume "aa = sy_agents s" "\<not> counted"
    then show ?thesis using I i by simp
  next
    fix k m
    assume p: "path_of (sy_agents s) t = Some k" "agent_tree (sy_agents s) k = Some m" "am_id m = Some t"
      and E: "agent_tree aa = (agent_tree (sy_agents s))(k := None)"
        "path_of aa = (path_of (sy_agents s))(t := None)" "thread_of aa = (thread_of (sy_agents s))(k := None)"
      and counted: "counted = (\<not> opt_is_some_and is_root (am_path m))"
    let ?x = "if counted then Decrementing else Idle"
    have rooted: "opt_is_some_and is_root (am_path m) = (k = ROOT)"
      by (rule keyed_root [OF O(3) p(2)])
    have new: "reserved_path (((sy_tasks s)(i := ?x)) j) = reserved_path (sy_tasks s j)" for j
      using i by simp
    show ?thesis
    proof (rule invariant_tree_update [OF I E(1)])
      have "(\<exists>m'. agent_tree aa k' = Some m' \<and> am_id m' = None)
          = (\<exists>m'. agent_tree (sy_agents s) k' = Some m' \<and> am_id m' = None)" for k'
        using p(2,3) by (auto simp: E(1))
      then have "reservations_ok aa (sy_tasks s)" using O(1) reservations_cong by blast
      then show "reservations_ok aa ((sy_tasks s)(i := ?x))"
        unfolding reservations_ok_def new .
      show "keyed uuid_str aa" using O(3) by (simp add: keyed_def E(1))
      show "matched aa"
        using O(2) p(1) unfolding matched_def E(2,3) by (metis fun_upd_apply option.distinct(1) option.inject)
    qed (use p i counted rooted in \<open>auto simp: live_entry_def\<close>)
  qed
qed

lemma invariant_root:
  assumes I: "agent_invariant uuid_str limit s"
    and t: "agent_tree (sy_agents s) ROOT \<noteq> None \<or> thread_paths (sy_agents s) t = None"
  shows "agent_invariant uuid_str limit (set_agents (register_root_thread t (sy_agents s)) s)"
proof -
  let ?aa = "register_root_thread t (sy_agents s)"
  have O: "reservations_ok (sy_agents s) (sy_tasks s)" "matched (sy_agents s)" "keyed uuid_str (sy_agents s)"
    using I by (simp_all add: agent_invariant_def)
  from register_root_effect [OF O(2) t] show ?thesis
  proof (elim disjE conjE)
    assume "agent_tree ?aa = agent_tree (sy_agents s)" "path_of ?aa = path_of (sy_agents s)"
    then show ?thesis by (rule invariant_agents [OF I])
  next
    assume free: "agent_tree (sy_agents s) ROOT = None"
      and E: "agent_tree ?aa = (agent_tree (sy_agents s))(ROOT \<mapsto> default_metadata\<lparr>am_id := Some t, am_path := Some ROOT\<rparr>)"
        "path_of ?aa = (path_of (sy_agents s))(t \<mapsto> ROOT)" "thread_of ?aa = (thread_of (sy_agents s))(ROOT \<mapsto> t)"
    have noid: "path_of (sy_agents s) t = None" using t free by (simp add: path_of_def)
    have nor: "thread_of (sy_agents s) ROOT = None" using free by (simp add: thread_of_def)
    have live: "live_paths ?aa = live_paths (sy_agents s)"
      by (auto simp: live_paths_def E(1) live_entry_def)
    have "(\<exists>m. agent_tree ?aa k = Some m \<and> am_id m = None)
        = (\<exists>m. agent_tree (sy_agents s) k = Some m \<and> am_id m = None)" for k
      using free by (auto simp: E(1))
    then have "reservations_ok ?aa (sy_tasks s)" using O(1) reservations_cong by blast
    moreover have "keyed uuid_str ?aa" using O(3) root_slash by (simp add: keyed_def E(1))
    moreover have "matched ?aa"
      using O(2) noid nor no_thread [OF O(2) noid] by (auto simp: matched_def E(2,3) split: if_splits)
    moreover have "slots (set_agents ?aa s) = slots s" by (simp add: slots_def live)
    ultimately show ?thesis using I live by (simp add: agent_invariant_def within_limit_def)
  qed
qed

lemma agent_step_invariant:
  assumes "agent_step uuid_str limit s s'" "inj uuid_str" "agent_invariant uuid_str limit s"
  shows "agent_invariant uuid_str limit s'"
  using assms(1,3,2)
proof (induction rule: agent_step.induct)
  case (load s i max_threads)
  then show ?case by (intro invariant_task) auto
next
  case (limit_reached s i max_threads current)
  then show ?case by (intro invariant_task) auto
next
  case (exchange s i max_threads current)
  then have "sy_total s < max" if "limit = Some max" for max
    using that by (auto simp: agent_invariant_def within_limit_def)
  with exchange show ?case using invariant_slot_taken [of uuid_str limit s i] by simp
next
  case (exchange_failed s i max_threads current)
  then show ?case
    by (intro invariant_task; cases limit) (auto simp: agent_invariant_def within_limit_def)
next
  case (unlimited s i)
  then show ?case by (intro invariant_slot_taken) auto
next
  case (nickname s i r d1 d2 names preferred r' aa)
  note E = nickname_effect [OF nickname(2)]
  have "agent_invariant uuid_str limit (set_agents aa s)"
    by (rule invariant_agents [OF nickname(3)]) (simp_all add: E fun_eq_iff path_of_def)
  then show ?case using nickname(1) E(3) by (intro invariant_task) auto
next
  case (no_nickname s i r d1 d2 names preferred err aa)
  show ?case
    by (rule invariant_agents [OF no_nickname(3)]) (simp_all add: nickname_effect [OF no_nickname(2)] fun_eq_iff path_of_def)
next
  case (path s i r p r' aa)
  then show ?case by (intro invariant_path)
next
  case (commit_spawn s i r m t r' aa)
  then show ?case by (intro invariant_commit)
next
  case (drop_spawn s i r aa counted)
  then show ?case by (intro invariant_drop)
next
  case (decrement s i)
  then show ?case by (intro invariant_decrement)
next
  case (release s i t aa counted)
  then show ?case by (intro invariant_release)
next
  case (root s t)
  then show ?case by (intro invariant_root)
next
  case (save_environments s t es)
  then show ?case by (intro invariant_agents) (simp_all add: save_evicted_environments_def set_evicted_effect)
next
  case (clear_environments s t)
  then show ?case by (intro invariant_agents) (simp_all add: clear_evicted_environments_def set_evicted_effect)
qed

lemma initial_invariant: "agent_invariant uuid_str limit initial_system"
  by (simp add: agent_invariant_def initial_system_def registry_default_def matched_def keyed_def
      reservations_ok_def path_of_def thread_of_def live_paths_def live_entry_def held_slots_def slots_def
      within_limit_def)

interpretation agents: invariant_system initial_system "agent_step uuid_str limit"
    "\<lambda>s. inj uuid_str \<longrightarrow> agent_invariant uuid_str limit s" for uuid_str limit
  by unfold_locales (auto intro: initial_invariant agent_step_invariant)

lemma agent_reachable_invariant:
  "agent_reachable uuid_str limit s \<Longrightarrow> inj uuid_str \<Longrightarrow> agent_invariant uuid_str limit s"
  unfolding agent_reachable_def using agents.inv_reachable by blast

section \<open>The guarantees\<close>

lemma live_agents_image:
  assumes "keyed uuid_str aa"
  shows "live_agents aa = (\<lambda>k. the (agent_tree aa k)) ` live_paths aa"
proof -
  have "live_entry k (agent_tree aa k) \<longleftrightarrow>
      (\<exists>m. agent_tree aa k = Some m \<and> am_id m \<noteq> None \<and> \<not> opt_is_some_and is_root (am_path m))" for k
    using keyed_root [OF assms, of k] by (cases "agent_tree aa k") (auto simp: live_entry_def)
  then show ?thesis by (auto simp: live_agents_def live_paths_def ran_def image_iff) force+
qed

lemma card_live_agents:
  assumes "matched aa" "keyed uuid_str aa"
  shows "card (live_agents aa) = card (live_paths aa)"
proof -
  have "inj_on (\<lambda>k. the (agent_tree aa k)) (live_paths aa)"
  proof (rule inj_onI)
    fix k k'
    assume "k \<in> live_paths aa" "k' \<in> live_paths aa" and same: "the (agent_tree aa k) = the (agent_tree aa k')"
    then obtain m m' t where "agent_tree aa k = Some m" "agent_tree aa k' = Some m'" "am_id m = Some t"
      by (auto simp: live_paths_def live_entry_def opt_is_some_and_def split: option.splits)
    with same have "thread_of aa k = Some t" "thread_of aa k' = Some t" by (simp_all add: thread_of_def)
    with assms(1) show "k = k'" unfolding matched_def by (metis option.inject)
  qed
  then show ?thesis using live_agents_image [OF assms(2)] by (simp add: card_image)
qed

lemma reachable_slots:
  assumes "agent_reachable uuid_str limit s" "inj uuid_str"
  shows "slots s = card (live_agents (sy_agents s)) + card (held_slots (sy_tasks s))"
    and "sy_total s = of_nat (slots s)" and "limit = Some cap \<Longrightarrow> slots s \<le> unat cap"
    and "limit = Some cap \<Longrightarrow> unat (sy_total s) = slots s"
proof -
  have I: "agent_invariant uuid_str limit s" using assms by (rule agent_reachable_invariant)
  then show "slots s = card (live_agents (sy_agents s)) + card (held_slots (sy_tasks s))"
    using card_live_agents [of "sy_agents s" uuid_str] by (simp add: slots_def agent_invariant_def)
  show total: "sy_total s = of_nat (slots s)" using I by (simp add: agent_invariant_def)
  show le: "slots s \<le> unat cap" if "limit = Some cap" for cap
    using I that by (simp add: agent_invariant_def within_limit_def)
  show "unat (sy_total s) = slots s" if "limit = Some cap"
    using le [OF that] unat_lt_size [of cap] by (simp add: total unsigned_of_nat take_bit_nat_eq_self)
qed

text \<open>A run used by the witnesses: a task takes a slot and commits a thread.\<close>

definition example_uuid_str :: "ThreadId \<Rightarrow> rstr" where
  "example_uuid_str t = [uint t]"

definition example_metadata :: AgentMetadata where
  "example_metadata = default_metadata\<lparr>am_id := Some 7\<rparr>"

definition example_spawned :: "unit agent_system" where
  "example_spawned =
     set_task 0 (Holding (fst (commit example_uuid_str example_metadata reservation_new
                                 (active_agents (registry_default :: unit AgentRegistry)))))
       (set_agents (snd (commit example_uuid_str example_metadata reservation_new
                           (active_agents registry_default)))
         (set_task 0 (Holding reservation_new) (set_total 1 (set_task 0 (Trying 2 0) initial_system))))"

lemma example_inj: "inj example_uuid_str"
  by (auto simp: inj_def example_uuid_str_def intro: unsigned_word_eqI)

lemma example_reachable: "agent_reachable example_uuid_str (Some 2) example_spawned"
proof -
  let ?s1 = "set_task 0 (Trying 2 0) (initial_system :: unit agent_system)"
  let ?s2 = "set_task 0 (Holding reservation_new) (set_total 1 ?s1)"
  have 0: "sy_total (initial_system :: unit agent_system) = 0" "sy_tasks (initial_system :: unit agent_system) 0 = Idle"
    "sy_agents (initial_system :: unit agent_system) = active_agents registry_default"
    by (simp_all add: initial_system_def registry_default_def)
  have "agent_step example_uuid_str (Some 2) initial_system ?s1"
    using agent_step.load [of "initial_system :: unit agent_system" 0 "Some 2" 2 example_uuid_str] 0 by simp
  moreover have "agent_step example_uuid_str (Some 2) ?s1 ?s2"
    using agent_step.exchange [of ?s1 0 2 0 example_uuid_str "Some 2"] 0 by simp
  moreover have "agent_step example_uuid_str (Some 2) ?s2 example_spawned"
    unfolding example_spawned_def
    by (rule agent_step.commit_spawn [where t = 7])
      (simp_all add: 0 reservation_new_def example_metadata_def default_metadata_def registry_default_def)
  ultimately show ?thesis by (blast intro: agent_reachable_intros)
qed

text \<open>C21: with a limit on the number of agents, in every state the spawns, releases and drops of
  any number of tasks can reach, in any interleaving and whatever compare-exchanges fail, the live
  agents and the slots that are reserved or about to be given back do not exceed the limit.\<close>

theorem agents_within_limit:
  assumes "agent_reachable uuid_str (Some cap) s" "inj uuid_str"
  shows "card (live_agents (sy_agents s)) + card (held_slots (sy_tasks s)) \<le> unat cap"
  using reachable_slots(1,3) [OF assms] by simp

theorem agents_within_limit_witness:
  "card (live_agents (sy_agents example_spawned)) + card (held_slots (sy_tasks example_spawned)) \<le> 2"
  using agents_within_limit [OF example_reachable example_inj] by simp





end
