(* ===== verification/Agent_Residency.thy ===== *)
theory Agent_Residency
  imports Agent_Registry
begin

text \<open>
  The agents that stay loaded (\<open>core/src/agent/control/residency.rs\<close>). They are kept in
  least-recently-used order; a spawn or a reload reserves a pending slot, unloading idle agents until there is room.

  The lock is released between the steps of a reservation: the thread that is being examined for
  unloading is out of the list while the code waits for it. The tasks are interleaved by
  \<open>residency_step\<close>; whether a thread is loaded and can be unloaded is up to the environment.
\<close>

record V2ResidencyState =
  residents :: "ThreadId list"
  pending_slots :: nat

definition residency_default :: V2ResidencyState where
  "residency_default = \<lparr>residents = [], pending_slots = 0\<rparr>"

definition touch_resident :: "ThreadId list \<Rightarrow> ThreadId \<Rightarrow> ThreadId list" where
  "touch_resident rs t = filter (\<lambda>r. r \<noteq> t) rs @ [t]"

definition try_reserve_pending_slot :: "nat \<Rightarrow> V2ResidencyState \<Rightarrow> V2ResidencyState option" where
  "try_reserve_pending_slot capacity st =
     (if sat_add (length (residents st)) (pending_slots st) \<ge> capacity then None
      else Some (st\<lparr>pending_slots := pending_slots st + 1\<rparr>))"

definition resident_count :: "V2ResidencyState \<Rightarrow> nat" where
  "resident_count st = length (residents st)"

fun pop_scan :: "nat \<Rightarrow> ThreadId option \<Rightarrow> ThreadId list \<Rightarrow> ThreadId option \<times> ThreadId list" where
  "pop_scan 0 protect rs = (None, rs)"
| "pop_scan (Suc n) protect [] = (None, [])"
| "pop_scan (Suc n) protect (c # rs) =
     (if Some c = protect then pop_scan n protect (rs @ [c]) else (Some c, rs))"

definition pop_lru_candidate ::
  "ThreadId option \<Rightarrow> V2ResidencyState \<Rightarrow> ThreadId option \<times> V2ResidencyState" where
  "pop_lru_candidate protect st =
     (let (c, rs) = pop_scan (length (residents st)) protect (residents st)
      in (c, st\<lparr>residents := rs\<rparr>))"

definition touch :: "ThreadId \<Rightarrow> V2ResidencyState \<Rightarrow> V2ResidencyState" where
  "touch t st = st\<lparr>residents := touch_resident (residents st) t\<rparr>"

definition remove_resident :: "ThreadId \<Rightarrow> V2ResidencyState \<Rightarrow> V2ResidencyState" where
  "remove_resident t st = st\<lparr>residents := filter (\<lambda>r. r \<noteq> t) (residents st)\<rparr>"

definition commit_slot :: "ThreadId \<Rightarrow> V2ResidencyState \<Rightarrow> V2ResidencyState" where
  "commit_slot t st =
     st\<lparr>pending_slots := pending_slots st - 1, residents := touch_resident (residents st) t\<rparr>"

definition release_pending_slot :: "V2ResidencyState \<Rightarrow> V2ResidencyState" where
  "release_pending_slot st = st\<lparr>pending_slots := pending_slots st - 1\<rparr>"

text \<open>Which threads are resident, and which may be unloaded.\<close>

datatype MultiAgentVersion = VersionDisabled | V1 | V2

datatype AgentStatus =
    PendingInit
  | Running
  | Interrupted
  | Completed "rstr option"
  | Errored rstr
  | Shutdown
  | NotFound

definition is_v2_resident_session_source :: "SessionSource \<Rightarrow> bool" where
  "is_v2_resident_session_source source = (case source of SubAgent _ \<Rightarrow> True | _ \<Rightarrow> False)"

definition is_resident_candidate :: "MultiAgentVersion option \<Rightarrow> SessionSource \<Rightarrow> bool" where
  "is_resident_candidate version source \<longleftrightarrow> version = Some V2 \<and> is_v2_resident_session_source source"

definition is_unloadable :: "AgentStatus \<Rightarrow> bool \<Rightarrow> bool \<Rightarrow> bool" where
  "is_unloadable status has_active_turn has_pending_mail \<longleftrightarrow>
     (case status of Completed _ \<Rightarrow> True | Errored _ \<Rightarrow> True | Interrupted \<Rightarrow> True | _ \<Rightarrow> False)
     \<and> \<not> has_active_turn \<and> \<not> has_pending_mail"

section \<open>Tasks that reserve slots\<close>

text \<open>
  \<open>Reserving\<close> and \<open>Counting\<close> are the two points of \<open>reserve_slot\<close>'s loop; \<open>Scanning\<close> has the
  number of candidates left to look at, \<open>Examining\<close> also the candidate it took out of the list.
  A slot is held from the reservation to \<open>commit\<close> or \<open>drop\<close>, first without and then with the
  thread that was created for it.
\<close>

datatype residency_task =
    NoTask
  | Reserving "ThreadId option"
  | Counting "ThreadId option"
  | Scanning "ThreadId option" nat
  | Examining "ThreadId option" nat ThreadId
  | Slot "ThreadId option"

record residency_system =
  rs_state :: V2ResidencyState
  rs_tasks :: "nat \<Rightarrow> residency_task"

definition put :: "nat \<Rightarrow> residency_task \<Rightarrow> V2ResidencyState \<Rightarrow> residency_system \<Rightarrow> residency_system" where
  "put i task st s = s\<lparr>rs_state := st, rs_tasks := (rs_tasks s)(i := task)\<rparr>"

definition initial_residency :: residency_system where
  "initial_residency = \<lparr>rs_state = residency_default, rs_tasks = (\<lambda>_. NoTask)\<rparr>"

fun examined :: "residency_task \<Rightarrow> ThreadId option" where
  "examined (Examining _ _ t) = Some t"
| "examined _ = None"

fun created :: "residency_task \<Rightarrow> ThreadId option" where
  "created (Slot t) = t"
| "created _ = None"

definition known_threads :: "residency_system \<Rightarrow> ThreadId set" where
  "known_threads s = set (residents (rs_state s))
     \<union> {t. \<exists>i. examined (rs_tasks s i) = Some t} \<union> {t. \<exists>i. created (rs_tasks s i) = Some t}"

text \<open>
  \<open>n\<close> tasks; a thread is touched when it is loaded, so it is resident, being examined or just
  created.
\<close>

inductive residency_step :: "nat \<Rightarrow> nat \<Rightarrow> residency_system \<Rightarrow> residency_system \<Rightarrow> bool"
  for n :: nat and capacity :: nat
where
  begin_reserve: "i < n \<Longrightarrow> rs_tasks s i = NoTask \<Longrightarrow>
     residency_step n capacity s (put i (Reserving protect) (rs_state s) s)"
| reserved: "rs_tasks s i = Reserving protect \<Longrightarrow> try_reserve_pending_slot capacity (rs_state s) = Some st \<Longrightarrow>
     residency_step n capacity s (put i (Slot None) st s)"
| no_room: "rs_tasks s i = Reserving protect \<Longrightarrow> try_reserve_pending_slot capacity (rs_state s) = None \<Longrightarrow>
     residency_step n capacity s (put i (Counting protect) (rs_state s) s)"
| count: "rs_tasks s i = Counting protect \<Longrightarrow>
     residency_step n capacity s (put i (Scanning protect (resident_count (rs_state s))) (rs_state s) s)"
| scan_end: "rs_tasks s i = Scanning protect 0 \<Longrightarrow>
     residency_step n capacity s (put i NoTask (rs_state s) s)"
| candidate: "rs_tasks s i = Scanning protect (Suc k) \<Longrightarrow> pop_lru_candidate protect (rs_state s) = (Some t, st) \<Longrightarrow>
     residency_step n capacity s (put i (Examining protect k t) st s)"
| no_candidate: "rs_tasks s i = Scanning protect (Suc k) \<Longrightarrow> pop_lru_candidate protect (rs_state s) = (None, st) \<Longrightarrow>
     residency_step n capacity s (put i NoTask st s)"
| not_loaded: "rs_tasks s i = Examining protect k t \<Longrightarrow>
     residency_step n capacity s (put i (Scanning protect k) (rs_state s) s)"
| not_unloadable: "rs_tasks s i = Examining protect k t \<Longrightarrow>
     residency_step n capacity s (put i (Scanning protect k) (touch t (rs_state s)) s)"
| unloaded: "rs_tasks s i = Examining protect k t \<Longrightarrow>
     residency_step n capacity s (put i (Reserving protect) (rs_state s) s)"
| create: "rs_tasks s i = Slot None \<Longrightarrow>
     residency_step n capacity s (put i (Slot (Some t)) (rs_state s) s)"
| commit_thread: "rs_tasks s i = Slot (Some t) \<Longrightarrow>
     residency_step n capacity s (put i NoTask (commit_slot t (rs_state s)) s)"
| drop_slot: "rs_tasks s i = Slot t \<Longrightarrow>
     residency_step n capacity s (put i NoTask (release_pending_slot (rs_state s)) s)"
| touch_loaded: "t \<in> known_threads s \<Longrightarrow>
     residency_step n capacity s (s\<lparr>rs_state := touch t (rs_state s)\<rparr>)"
| forget: "residency_step n capacity s (s\<lparr>rs_state := remove_resident t (rs_state s)\<rparr>)"

definition residency_reachable :: "nat \<Rightarrow> nat \<Rightarrow> residency_system \<Rightarrow> bool" where
  "residency_reachable n capacity s \<longleftrightarrow> (residency_step n capacity)\<^sup>*\<^sup>* initial_residency s"

lemma residency_reachable_intros:
  "residency_reachable n capacity initial_residency"
  "residency_reachable n capacity s \<Longrightarrow> residency_step n capacity s s' \<Longrightarrow> residency_reachable n capacity s'"
  by (auto simp: residency_reachable_def intro: rtranclp.rtrancl_into_rtrancl)

section \<open>The bound\<close>

lemma pop_scan_result:
  "pop_scan n protect rs = (c, rs') \<Longrightarrow> distinct rs \<Longrightarrow>
     distinct rs' \<and> (case c of None \<Rightarrow> set rs' = set rs
       | Some t \<Rightarrow> set rs = insert t (set rs') \<and> t \<notin> set rs' \<and> Some t \<noteq> protect)"
proof (induction n protect rs rule: pop_scan.induct)
  case (3 n protect c' rs)
  then show ?case by (cases "Some c' = protect") (auto split: option.splits)
qed auto

lemma pop_lru_result:
  assumes "pop_lru_candidate protect st = (c, st')" "distinct (residents st)"
  shows "pending_slots st' = pending_slots st" "distinct (residents st')"
    "c = None \<Longrightarrow> set (residents st') = set (residents st)"
    "c = Some t \<Longrightarrow> set (residents st) = insert t (set (residents st')) \<and> Some t \<noteq> protect"
proof -
  obtain rs where rs: "pop_scan (length (residents st)) protect (residents st) = (c, rs)"
    and st': "st' = st\<lparr>residents := rs\<rparr>"
    using assms(1) by (auto simp: pop_lru_candidate_def Let_def split: prod.splits)
  note R = pop_scan_result [OF rs assms(2)]
  show "pending_slots st' = pending_slots st" "distinct (residents st')" using R by (simp_all add: st')
  show "c = None \<Longrightarrow> set (residents st') = set (residents st)" using R by (simp add: st')
  show "c = Some t \<Longrightarrow> set (residents st) = insert t (set (residents st')) \<and> Some t \<noteq> protect"
    using R by (simp add: st')
qed

fun is_slot :: "residency_task \<Rightarrow> bool" where
  "is_slot (Slot _) = True"
| "is_slot _ = False"

definition others :: "residency_system \<Rightarrow> nat \<Rightarrow> ThreadId set" where
  "others s i = {t. \<exists>j. j \<noteq> i \<and> examined (rs_tasks s j) = Some t} \<union> {t. \<exists>j. j \<noteq> i \<and> created (rs_tasks s j) = Some t}"

definition load :: "residency_system \<Rightarrow> nat" where
  "load s = card (known_threads s) + card {i. rs_tasks s i = Slot None}"

definition residency_invariant :: "nat \<Rightarrow> nat \<Rightarrow> residency_system \<Rightarrow> bool" where
  "residency_invariant n capacity s \<longleftrightarrow>
     distinct (residents (rs_state s)) \<and> (\<forall>i \<ge> n. rs_tasks s i = NoTask)
     \<and> pending_slots (rs_state s) = card {i. is_slot (rs_tasks s i)}
     \<and> load s \<le> capacity + (n - 1)
     \<and> (\<forall>i protect k t. rs_tasks s i = Examining protect k t \<longrightarrow> Some t \<noteq> protect)"

lemma known_split:
  "known_threads s = set (residents (rs_state s)) \<union> set_option (examined (rs_tasks s i))
     \<union> set_option (created (rs_tasks s i)) \<union> others s i"
  unfolding known_threads_def others_def by (auto simp: elem_set)

lemma known_put:
  "known_threads (put i x st s) = set (residents st) \<union> set_option (examined x) \<union> set_option (created x) \<union> others s i"
proof -
  have "others (put i x st s) i = others s i" by (auto simp: others_def put_def)
  then show ?thesis using known_split [of "put i x st s" i] by (simp add: put_def)
qed

lemma finite_tasks: "\<forall>i \<ge> n. rs_tasks s i = NoTask \<Longrightarrow> \<not> P NoTask \<Longrightarrow> finite {i. P (rs_tasks s i)}"
  by (rule finite_subset [of _ "{..<n}"]) (auto simp: not_le [symmetric])

lemma finite_known:
  assumes "\<forall>i \<ge> n. rs_tasks s i = NoTask"
  shows "finite (known_threads s)"
proof -
  have "{t. \<exists>i. f (rs_tasks s i) = Some t} \<subseteq> (\<lambda>i. the (f (rs_tasks s i))) ` {i. f (rs_tasks s i) \<noteq> None}"
    for f :: "residency_task \<Rightarrow> ThreadId option"
    by (auto simp: image_iff) (metis option.sel)
  then have "finite {t. \<exists>i. f (rs_tasks s i) = Some t}" if "f NoTask = None" for f :: "residency_task \<Rightarrow> ThreadId option"
    using finite_tasks [OF assms, of "\<lambda>x. f x \<noteq> None"] that by (meson finite_imageI finite_subset)
  then show ?thesis by (simp add: known_threads_def)
qed

lemma task_counts:
  assumes "\<forall>i \<ge> n. rs_tasks s i = NoTask"
  shows "card {j. is_slot (rs_tasks (put i x st s) j)} + of_bool (is_slot (rs_tasks s i))
      = card {j. is_slot (rs_tasks s j)} + of_bool (is_slot x)"
    and "card {j. rs_tasks (put i x st s) j = Slot None} + of_bool (rs_tasks s i = Slot None)
      = card {j. rs_tasks s j = Slot None} + of_bool (x = Slot None)"
  using card_update(1) [of "\<lambda>_. is_slot" "rs_tasks s" i x] finite_tasks [OF assms, of is_slot]
    card_update(1) [of "\<lambda>_ y. y = Slot None" "rs_tasks s" i x] finite_tasks [OF assms, of "\<lambda>y. y = Slot None"]
  by (simp_all add: put_def)

lemma invariant_put:
  assumes I: "residency_invariant n capacity s" and i: "i < n"
    and st: "distinct (residents st)"
      "pending_slots st + of_bool (is_slot (rs_tasks s i)) = pending_slots (rs_state s) + of_bool (is_slot x)"
    and known: "card (known_threads (put i x st s)) + of_bool (x = Slot None)
      \<le> card (known_threads s) + of_bool (rs_tasks s i = Slot None)"
    and x: "\<And>protect k t. x = Examining protect k t \<Longrightarrow> Some t \<noteq> protect"
  shows "residency_invariant n capacity (put i x st s)"
proof -
  have idle: "\<forall>i \<ge> n. rs_tasks s i = NoTask" using I by (simp add: residency_invariant_def)
  have "load (put i x st s) \<le> load s"
    using task_counts(2) [OF idle, of i x st] known by (simp add: load_def)
  moreover have "pending_slots st = card {j. is_slot (rs_tasks (put i x st s) j)}"
    using task_counts(1) [OF idle, of i x st] st(2) I by (simp add: residency_invariant_def)
  moreover have "rs_state (put i x st s) = st" "rs_tasks (put i x st s) = (rs_tasks s)(i := x)"
    by (simp_all add: put_def)
  ultimately show ?thesis
    using I i st(1) x by (simp add: residency_invariant_def)
qed

text \<open>
  At a reservation the threads that are being examined are not in the list, so the code sees too
  few; there are no more of them than other tasks.
\<close>

lemma invariant_reserved:
  assumes I: "residency_invariant n capacity s" and cap: "capacity \<le> usize_max"
    and i: "rs_tasks s i = Reserving protect"
    and step: "try_reserve_pending_slot capacity (rs_state s) = Some st"
  shows "residency_invariant n capacity (put i (Slot None) st s)"
proof -
  let ?E = "{t. \<exists>j. examined (rs_tasks s j) = Some t}" and ?C = "{t. \<exists>j. created (rs_tasks s j) = Some t}"
  let ?R = "residents (rs_state s)" and ?open = "{j. rs_tasks s j = Slot None}"
  have idle: "\<forall>i \<ge> n. rs_tasks s i = NoTask" and dist: "distinct ?R"
    and pending: "pending_slots (rs_state s) = card {j. is_slot (rs_tasks s j)}"
    using I by (simp_all add: residency_invariant_def)
  have n: "i < n" using idle i by (metis not_le residency_task.distinct(1))
  have st: "st = (rs_state s)\<lparr>pending_slots := pending_slots (rs_state s) + 1\<rparr>"
    and room: "length ?R + pending_slots (rs_state s) < capacity"
    using step cap by (auto simp: try_reserve_pending_slot_def sat_add_def split: if_splits)
  have same: "known_threads (put i (Slot None) st s) = known_threads s"
    using known_put [of i "Slot None" st s] known_split [of s i] i by (simp add: st)
  have "?E \<subseteq> (\<lambda>j. the (examined (rs_tasks s j))) ` ({..<n} - {i})"
  proof
    fix t
    assume "t \<in> ?E"
    then obtain j where j: "examined (rs_tasks s j) = Some t" by blast
    then have "j < n" using idle by (metis examined.simps(2) not_le option.distinct(1))
    moreover have "j \<noteq> i" using i j by auto
    ultimately show "t \<in> (\<lambda>j. the (examined (rs_tasks s j))) ` ({..<n} - {i})"
      using j by (intro image_eqI [of _ _ j]) auto
  qed
  then have "card ?E \<le> card ({..<n} - {i})" by (rule surj_card_le [rotated]) simp
  then have E: "card ?E \<le> n - 1" using n by simp
  have fin: "finite {j. is_slot (rs_tasks s j)}" using finite_tasks [OF idle, of is_slot] by simp
  have "?C \<subseteq> (\<lambda>j. the (created (rs_tasks s j))) ` ({j. is_slot (rs_tasks s j)} - ?open)"
  proof
    fix t
    assume "t \<in> ?C"
    then obtain j where "created (rs_tasks s j) = Some t" by blast
    then show "t \<in> (\<lambda>j. the (created (rs_tasks s j))) ` ({j. is_slot (rs_tasks s j)} - ?open)"
      by (cases "rs_tasks s j") (auto intro!: image_eqI [of _ _ j])
  qed
  then have "card ?C \<le> card ({j. is_slot (rs_tasks s j)} - ?open)" by (rule surj_card_le [rotated]) (use fin in simp)
  moreover have "card ({j. is_slot (rs_tasks s j)} - ?open) + card ?open = card {j. is_slot (rs_tasks s j)}"
  proof -
    have sub: "?open \<subseteq> {j. is_slot (rs_tasks s j)}" by auto
    show ?thesis
      using card_mono [OF fin sub] card_Diff_subset [OF finite_subset [OF sub fin] sub] by simp
  qed
  ultimately have C: "card ?C + card ?open \<le> pending_slots (rs_state s)" using pending by linarith
  have "card (known_threads s) \<le> card (set ?R) + card ?E + card ?C"
    unfolding known_threads_def
    using card_Un_le [of "set ?R \<union> ?E" ?C] card_Un_le [of "set ?R" ?E] by linarith
  then have "card (known_threads s) + card ?open + 1 \<le> capacity + (n - 1)"
    using room C E distinct_card [OF dist] by linarith
  moreover have "load (put i (Slot None) st s) = card (known_threads s) + card ?open + 1"
    using task_counts(2) [OF idle, of i "Slot None" st] i by (simp add: load_def same)
  moreover have "pending_slots st = card {j. is_slot (rs_tasks (put i (Slot None) st s) j)}"
    using task_counts(1) [OF idle, of i "Slot None" st] i pending by (simp add: st)
  moreover have "rs_state (put i (Slot None) st s) = st" "rs_tasks (put i (Slot None) st s) = (rs_tasks s)(i := Slot None)"
    by (simp_all add: put_def)
  ultimately show ?thesis
    using I n by (simp add: residency_invariant_def) (simp add: st)
qed

lemma touch_resident_facts:
  "set (touch_resident rs t) = insert t (set rs)" "distinct rs \<Longrightarrow> distinct (touch_resident rs t)"
  by (auto simp: touch_resident_def)

lemma invariant_state:
  assumes I: "residency_invariant n capacity s"
    and st: "distinct (residents st)" "pending_slots st = pending_slots (rs_state s)"
      "set (residents st) \<subseteq> known_threads s"
  shows "residency_invariant n capacity (s\<lparr>rs_state := st\<rparr>)"
proof -
  have "finite (known_threads s)" using I finite_known by (simp add: residency_invariant_def)
  moreover have "known_threads (s\<lparr>rs_state := st\<rparr>) \<subseteq> known_threads s"
    using st(3) by (auto simp: known_threads_def)
  ultimately have "card (known_threads (s\<lparr>rs_state := st\<rparr>)) \<le> card (known_threads s)" by (rule card_mono)
  then have "load (s\<lparr>rs_state := st\<rparr>) \<le> load s" by (simp add: load_def)
  then show ?thesis using I st by (simp add: residency_invariant_def)
qed

lemma residency_step_invariant:
  assumes "residency_step n capacity s s'" "capacity \<le> usize_max" "residency_invariant n capacity s"
  shows "residency_invariant n capacity s'"
proof -
  note I = assms(3)
  have idle: "\<forall>i \<ge> n. rs_tasks s i = NoTask" and dist: "distinct (residents (rs_state s))"
    and pending: "pending_slots (rs_state s) = card {j. is_slot (rs_tasks s j)}"
    using I by (simp_all add: residency_invariant_def)
  have less: "i < n" if "rs_tasks s i \<noteq> NoTask" for i using idle that not_le by blast
  have fin: "finite (known_threads s)" by (rule finite_known [OF idle])
  have slot_pos: "0 < pending_slots (rs_state s)" if "is_slot (rs_tasks s i)" for i
    using that finite_tasks [OF idle, of is_slot] unfolding pending by (auto simp: card_gt_0_iff)
  have sub: "card (known_threads (put i x st s)) \<le> card (known_threads s)"
    if "set (residents st) \<union> set_option (examined x) \<union> set_option (created x) \<subseteq> known_threads s" for i x st
    using that known_split [of s i] by (intro card_mono [OF fin]) (auto simp: known_put)
  have mem: "\<And>x. x \<in> set (residents (rs_state s)) \<Longrightarrow> x \<in> known_threads s"
    "\<And>i p k t. rs_tasks s i = Examining p k t \<Longrightarrow> t \<in> known_threads s"
    "\<And>i t. rs_tasks s i = Slot (Some t) \<Longrightarrow> t \<in> known_threads s"
    unfolding known_threads_def by (auto, metis examined.simps(1), metis created.simps(1))
  from assms(1) show ?thesis
  proof cases
    case (begin_reserve i protect)
    then show ?thesis
      using dist mem
      by (auto intro!: invariant_put [OF I] sub)
  next
    case (reserved i protect st)
    then show ?thesis using invariant_reserved [OF I assms(2)] by simp
  next
    case (no_room i protect)
    then show ?thesis
      using dist mem less [of i]
      by (auto intro!: invariant_put [OF I] sub)
  next
    case (count i protect)
    then show ?thesis
      using dist mem less [of i]
      by (auto intro!: invariant_put [OF I] sub)
  next
    case (scan_end i protect)
    then show ?thesis
      using dist mem less [of i]
      by (auto intro!: invariant_put [OF I] sub)
  next
    case (candidate i protect k t st)
    note R = pop_lru_result [OF candidate(3) dist]
    show ?thesis
      using candidate R(1,2) R(4) [of t] mem less [of i]
      by (auto intro!: invariant_put [OF I] sub)
  next
    case (no_candidate i protect k st)
    note R = pop_lru_result [OF no_candidate(3) dist]
    show ?thesis
      using no_candidate R(1,2,3) mem less [of i]
      by (auto intro!: invariant_put [OF I] sub)
  next
    case (not_loaded i protect k t)
    then show ?thesis
      using dist mem less [of i]
      by (auto intro!: invariant_put [OF I] sub)
  next
    case (not_unloadable i protect k t)
    then show ?thesis
      using dist mem less [of i]
      by (auto simp: touch_def touch_resident_facts intro!: invariant_put [OF I] sub)
  next
    case (unloaded i protect k t)
    then show ?thesis
      using dist mem less [of i]
      by (auto intro!: invariant_put [OF I] sub)
  next
    case (create i t)
    have "known_threads (put i (Slot (Some t)) (rs_state s) s) \<subseteq> insert t (known_threads s)"
      using known_split [of s i] by (auto simp: known_put)
    then have "card (known_threads (put i (Slot (Some t)) (rs_state s) s)) \<le> card (insert t (known_threads s))"
      using fin by (intro card_mono) auto
    also have "\<dots> \<le> Suc (card (known_threads s))" using fin by (simp add: card_insert_if)
    finally show ?thesis
      using create dist less [of i] by (auto intro!: invariant_put [OF I])
  next
    case (commit_thread i t)
    then show ?thesis
      using dist mem less [of i] slot_pos [of i]
      by (auto simp: commit_slot_def touch_resident_facts intro!: invariant_put [OF I] sub)
  next
    case (drop_slot i t)
    then show ?thesis
      using dist mem less [of i] slot_pos [of i]
      by (auto simp: release_pending_slot_def intro!: invariant_put [OF I] sub trans_le_add1)
  next
    case (touch_loaded t)
    then show ?thesis
      using dist by (auto simp: touch_def touch_resident_facts known_threads_def intro!: invariant_state [OF I])
  next
    case (forget t)
    then show ?thesis
      using dist by (auto simp: remove_resident_def known_threads_def intro!: invariant_state [OF I])
  qed
qed

lemma initial_residency_invariant: "residency_invariant n capacity initial_residency"
  by (simp add: residency_invariant_def initial_residency_def residency_default_def load_def known_threads_def)

interpretation residency: invariant_system initial_residency "residency_step n capacity"
    "\<lambda>s. capacity \<le> usize_max \<longrightarrow> residency_invariant n capacity s" for n capacity
  by unfold_locales (auto intro: initial_residency_invariant residency_step_invariant)

lemma residency_reachable_invariant:
  "residency_reachable n capacity s \<Longrightarrow> capacity \<le> usize_max \<Longrightarrow> residency_invariant n capacity s"
  unfolding residency_reachable_def using residency.inv_reachable by blast


definition example_residency :: "ThreadId list \<Rightarrow> nat \<Rightarrow> residency_task \<Rightarrow> residency_task \<Rightarrow> residency_system" where
  "example_residency rs pending x y =
     \<lparr>rs_state = \<lparr>residents = rs, pending_slots = pending\<rparr>, rs_tasks = (\<lambda>_. NoTask)(0 := x, 1 := y)\<rparr>"

lemma example_residency_simps:
  "rs_tasks (example_residency rs p x y) 0 = x" "rs_tasks (example_residency rs p x y) (Suc 0) = y"
  "rs_state (example_residency rs p x y) = \<lparr>residents = rs, pending_slots = p\<rparr>"
  "put 0 x' \<lparr>residents = rs', pending_slots = p'\<rparr> (example_residency rs p x y) = example_residency rs' p' x' y"
  "put (Suc 0) y' \<lparr>residents = rs', pending_slots = p'\<rparr> (example_residency rs p x y) = example_residency rs' p' x y'"
  by (auto simp: example_residency_def put_def fun_eq_iff)

text \<open>
  Two tasks and room for one agent: while the first examines the resident agent, which turns out
  to be busy, the second finds the list empty and reserves.
\<close>

lemma example_run:
  "residency_reachable 2 1 (example_residency [7] 0 NoTask NoTask)"
  "residency_reachable 2 1 (example_residency [7] 1 (Scanning None 0) (Slot None))"
proof -
  note S = residency_reachable_intros(2) and simps = example_residency_simps try_reserve_pending_slot_def sat_add_def
    usize_max_def commit_slot_def touch_def touch_resident_def resident_count_def pop_lru_candidate_def
  have "initial_residency = example_residency [] 0 NoTask NoTask"
    by (simp add: initial_residency_def residency_default_def example_residency_def fun_eq_iff)
  then have "residency_reachable 2 1 (example_residency [] 0 NoTask NoTask)"
    using residency_reachable_intros(1) [of 2 1] by simp
  from S [OF this residency_step.begin_reserve [where i = 0 and protect = None]]
  have "residency_reachable 2 1 (example_residency [] 0 (Reserving None) NoTask)" by (simp add: simps)
  from S [OF this residency_step.reserved [where i = 0 and protect = None and st = "\<lparr>residents = [], pending_slots = 1\<rparr>"]]
  have "residency_reachable 2 1 (example_residency [] 1 (Slot None) NoTask)" by (simp add: simps)
  from S [OF this residency_step.create [where i = 0 and t = 7]]
  have "residency_reachable 2 1 (example_residency [] 1 (Slot (Some 7)) NoTask)" by (simp add: simps)
  from S [OF this residency_step.commit_thread [where i = 0 and t = 7]]
  show A: "residency_reachable 2 1 (example_residency [7] 0 NoTask NoTask)" by (simp add: simps)
  from S [OF this residency_step.begin_reserve [where i = 0 and protect = None]]
  have "residency_reachable 2 1 (example_residency [7] 0 (Reserving None) NoTask)" by (simp add: simps)
  from S [OF this residency_step.no_room [where i = 0 and protect = None]]
  have "residency_reachable 2 1 (example_residency [7] 0 (Counting None) NoTask)" by (simp add: simps)
  from S [OF this residency_step.count [where i = 0 and protect = None]]
  have "residency_reachable 2 1 (example_residency [7] 0 (Scanning None 1) NoTask)" by (simp add: simps)
  from S [OF this residency_step.candidate [where i = 0 and protect = None and k = 0 and t = 7 and st = "\<lparr>residents = [], pending_slots = 0\<rparr>"]]
  have "residency_reachable 2 1 (example_residency [] 0 (Examining None 0 7) NoTask)" by (simp add: simps)
  from S [OF this residency_step.begin_reserve [where i = 1 and protect = None]]
  have "residency_reachable 2 1 (example_residency [] 0 (Examining None 0 7) (Reserving None))" by (simp add: simps)
  from S [OF this residency_step.reserved [where i = 1 and protect = None and st = "\<lparr>residents = [], pending_slots = 1\<rparr>"]]
  have "residency_reachable 2 1 (example_residency [] 1 (Examining None 0 7) (Slot None))" by (simp add: simps)
  from S [OF this residency_step.not_unloadable [where i = 0 and protect = None and k = 0 and t = 7]]
  show "residency_reachable 2 1 (example_residency [7] 1 (Scanning None 0) (Slot None))" by (simp add: simps)
qed


text \<open>The capacity itself is not kept: with two tasks and room for one agent, a reachable state
  has one agent resident and a slot reserved for another.\<close>

theorem residency_capacity_can_be_passed:
  "\<exists>s. residency_reachable 2 1 s \<and> 1 < length (residents (rs_state s)) + pending_slots (rs_state s)"
  using example_run(2) by (intro exI conjI) (auto simp: example_residency_simps)

end
