(* ===== verification/Reverse_Jsonl.thy ===== *)
theory Reverse_Jsonl
  imports Rust_Prelude
begin

text \<open>
  The scanner that reads the records of a rollout file from its end
  (\<open>rollout/src/reverse_jsonl_scanner.rs\<close>): it reads chunks backwards, collects the bytes of a
  record in reverse and skips blank and oversized records.

  The reader is the parameter \<open>read\<close>: \<open>read offset n\<close> seeks to the offset and reads exactly \<open>n\<close>
  bytes, or fails. \<open>serde_json\<close> is the parameter \<open>parse\<close>. Offsets are \<^typ>\<open>nat\<close>: no file is
  longer than \<open>u64\<close> counts. The loop of \<open>scan_next\<close> consumes bytes, which ends it.
\<close>

definition READ_CHUNK_SIZE :: nat where
  "READ_CHUNK_SIZE = 64 * 1024"

datatype ('t, 'e) ScanOutcome = Parsed 't | Rejected 'e

record ReverseJsonlScanner =
  next_chunk_end :: nat
  chunk_position :: nat
  chunk_bytes :: "int list"
  record_reversed :: "int list"
  max_record_bytes :: "nat option"
  discarding_oversized_record :: bool

definition scanner_new_at :: "nat \<Rightarrow> nat \<Rightarrow> ReverseJsonlScanner option" where
  "scanner_new_at file_len end_byte_offset =
     (if end_byte_offset > file_len then None
      else Some \<lparr>next_chunk_end = end_byte_offset, chunk_position = 0,
             chunk_bytes = replicate READ_CHUNK_SIZE 0, record_reversed = [], max_record_bytes = None,
             discarding_oversized_record = False\<rparr>)"

definition scanner_new :: "nat \<Rightarrow> ReverseJsonlScanner option" where
  "scanner_new file_len = scanner_new_at file_len file_len"

definition with_max_record_bytes :: "nat \<Rightarrow> ReverseJsonlScanner \<Rightarrow> ReverseJsonlScanner" where
  "with_max_record_bytes n s = s\<lparr>max_record_bytes := Some n\<rparr>"

text \<open>\<open>u8::is_ascii_whitespace\<close>: space, tab, line feed, form feed and carriage return.\<close>

definition is_ascii_whitespace :: "int \<Rightarrow> bool" where
  "is_ascii_whitespace b \<longleftrightarrow> b = 32 \<or> b = 9 \<or> b = 10 \<or> b = 12 \<or> b = 13"

definition finish_record ::
  "(int list \<Rightarrow> 'e + 't) \<Rightarrow> ReverseJsonlScanner \<Rightarrow> ('t, 'e) ScanOutcome option \<times> ReverseJsonlScanner" where
  "finish_record parse s =
     (let bytes = rev (record_reversed s);
          outcome = (if list_all is_ascii_whitespace bytes then None
                     else Some (case parse bytes of Inr v \<Rightarrow> Parsed v | Inl e \<Rightarrow> Rejected e))
      in (outcome, s\<lparr>record_reversed := []\<rparr>))"

text \<open>\<open>iter().rposition(..)\<close> of a newline.\<close>

fun rposition :: "('a \<Rightarrow> bool) \<Rightarrow> 'a list \<Rightarrow> nat option" where
  "rposition P [] = None"
| "rposition P (x # xs) =
     (case rposition P xs of Some n \<Rightarrow> Some (Suc n) | None \<Rightarrow> if P x then Some 0 else None)"

text \<open>A fragment of the record goes into the buffer, unless it makes the record too long.\<close>

definition take_fragment :: "int list \<Rightarrow> ReverseJsonlScanner \<Rightarrow> ReverseJsonlScanner" where
  "take_fragment fragment s =
     (if discarding_oversized_record s then s
      else if opt_is_some_and (\<lambda>m. sat_add (length (record_reversed s)) (length fragment) > m)
                (max_record_bytes s) then
        s\<lparr>record_reversed := [], discarding_oversized_record := True\<rparr>
      else s\<lparr>record_reversed := record_reversed s @ rev fragment\<rparr>)"

text \<open>Reading the chunk before the last one; after a failure the scanner has moved before it.\<close>

definition fill_chunk ::
  "(nat \<Rightarrow> nat \<Rightarrow> 'io + int list) \<Rightarrow> ReverseJsonlScanner \<Rightarrow> 'io option \<times> ReverseJsonlScanner" where
  "fill_chunk read s =
     (let read_size = min (next_chunk_end s) READ_CHUNK_SIZE;
          s = s\<lparr>next_chunk_end := next_chunk_end s - read_size\<rparr>
      in case read (next_chunk_end s) read_size of
           Inl e \<Rightarrow> (Some e, s)
         | Inr bytes \<Rightarrow>
             (None, s\<lparr>chunk_bytes := bytes @ drop read_size (chunk_bytes s), chunk_position := read_size\<rparr>))"

text \<open>One pass of the loop with a chunk to look at: go on, or return an outcome.\<close>

definition scan_chunk ::
  "(int list \<Rightarrow> 'e + 't) \<Rightarrow> ReverseJsonlScanner \<Rightarrow> ('t, 'e) ScanOutcome option \<times> ReverseJsonlScanner" where
  "scan_chunk parse s =
     (let chunk = take (chunk_position s) (chunk_bytes s)
      in case rposition (\<lambda>b. b = nl) chunk of
           Some newline_position \<Rightarrow>
             let s = take_fragment (drop (newline_position + 1) chunk) s;
                 s = s\<lparr>chunk_position := newline_position\<rparr>
             in if discarding_oversized_record s then (None, s\<lparr>discarding_oversized_record := False\<rparr>)
                else finish_record parse s
         | None \<Rightarrow> (None, (take_fragment chunk s)\<lparr>chunk_position := 0\<rparr>))"

lemma rposition_less: "rposition P xs = Some n \<Longrightarrow> n < length xs"
  by (induction xs arbitrary: n) (auto split: option.splits if_splits)

lemma rposition_None: "rposition P xs = None \<longleftrightarrow> list_all (\<lambda>x. \<not> P x) xs"
  by (induction xs) (auto split: option.splits)

lemma take_fragment_simps [simp]:
  "next_chunk_end (take_fragment f s) = next_chunk_end s" "chunk_position (take_fragment f s) = chunk_position s"
  "chunk_bytes (take_fragment f s) = chunk_bytes s" "max_record_bytes (take_fragment f s) = max_record_bytes s"
  by (simp_all add: take_fragment_def)

definition bytes_left :: "ReverseJsonlScanner \<Rightarrow> nat" where
  "bytes_left s = next_chunk_end s + chunk_position s"

lemma scan_chunk_decreases:
  "0 < chunk_position s \<Longrightarrow> bytes_left (snd (scan_chunk parse s)) < bytes_left s"
  by (auto simp: scan_chunk_def Let_def finish_record_def bytes_left_def split: option.split dest: rposition_less)

lemma fill_chunk_keeps:
  "fill_chunk read s = (None, s') \<Longrightarrow> chunk_position s = 0 \<Longrightarrow> next_chunk_end s \<noteq> 0 \<Longrightarrow>
     bytes_left s' = bytes_left s \<and> 0 < chunk_position s'"
  by (auto simp: fill_chunk_def Let_def bytes_left_def READ_CHUNK_SIZE_def split: sum.splits)

function scan_next ::
  "(nat \<Rightarrow> nat \<Rightarrow> 'io + int list) \<Rightarrow> (int list \<Rightarrow> 'e + 't) \<Rightarrow> ReverseJsonlScanner
   \<Rightarrow> ('io + ('t, 'e) ScanOutcome option) \<times> ReverseJsonlScanner" where
  "scan_next read parse s =
     (if chunk_position s = 0 \<and> next_chunk_end s = 0 then
        if discarding_oversized_record s then (Inr None, s\<lparr>discarding_oversized_record := False\<rparr>)
        else let (outcome, s) = finish_record parse s in (Inr outcome, s)
      else case (if chunk_position s = 0 then fill_chunk read s else (None, s)) of
             (Some e, s') \<Rightarrow> (Inl e, s')
           | (None, s') \<Rightarrow>
               let (outcome, s'') = scan_chunk parse s'
               in case outcome of Some res \<Rightarrow> (Inr (Some res), s'') | None \<Rightarrow> scan_next read parse s'')"
  by pat_completeness auto
termination
proof (relation "measure (\<lambda>(_, _, s). bytes_left s)", goal_cases)
  case (2 read parse s x s' xa outcome s'')
  then have "bytes_left s' = bytes_left s \<and> 0 < chunk_position s'"
    using fill_chunk_keeps [of read s s'] by (auto split: if_splits)
  moreover have "snd (scan_chunk parse s') = s''" using 2 by (metis snd_conv)
  ultimately show ?case using scan_chunk_decreases [of s' parse] by simp
qed simp

declare scan_next.simps [simp del]

text \<open>\<open>scan_next_rollout_line\<close>: a JSON value goes through the decoder of rollout lines.\<close>

definition scan_next_rollout_line ::
  "(nat \<Rightarrow> nat \<Rightarrow> 'io + int list) \<Rightarrow> (int list \<Rightarrow> 'e + 'v) \<Rightarrow> ('v \<Rightarrow> 'e + 't) \<Rightarrow> ReverseJsonlScanner
   \<Rightarrow> ('io + ('t, 'e) ScanOutcome option) \<times> ReverseJsonlScanner" where
  "scan_next_rollout_line read parse decode_rollout_line s =
     (let (r, s) = scan_next read parse s
      in (case r of Inl e \<Rightarrow> Inl e
            | Inr outcome \<Rightarrow> Inr (map_option (\<lambda>oc. case oc of
                Parsed value \<Rightarrow> (case decode_rollout_line value of Inr line \<Rightarrow> Parsed line | Inl err \<Rightarrow> Rejected err)
              | Rejected err \<Rightarrow> Rejected err) outcome), s))"

section \<open>The records of a file, from its end\<close>

text \<open>
  The reader of a file, and the records the scan is to return: the lines of the file that are
  not blank and not longer than the limit, the last one first.
\<close>

definition file_reader :: "'io \<Rightarrow> int list \<Rightarrow> nat \<Rightarrow> nat \<Rightarrow> 'io + int list" where
  "file_reader eof file offset n =
     (if offset + n \<le> length file then Inr (take n (drop offset file)) else Inl eof)"

definition within_limit :: "nat option \<Rightarrow> int list \<Rightarrow> bool" where
  "within_limit limit r \<longleftrightarrow> \<not> opt_is_some_and (\<lambda>m. m < min (length r) usize_max) limit"

definition kept_record :: "nat option \<Rightarrow> int list \<Rightarrow> bool" where
  "kept_record limit r \<longleftrightarrow> \<not> list_all is_ascii_whitespace r \<and> within_limit limit r"

definition records_from_end :: "nat option \<Rightarrow> int list \<Rightarrow> int list list" where
  "records_from_end limit file = filter (kept_record limit) (rev (split_char nl file))"

definition outcome_of :: "(int list \<Rightarrow> 'e + 't) \<Rightarrow> int list \<Rightarrow> ('t, 'e) ScanOutcome" where
  "outcome_of parse r = (case parse r of Inr v \<Rightarrow> Parsed v | Inl e \<Rightarrow> Rejected e)"

text \<open>\<open>n\<close> calls of \<^const>\<open>scan_next\<close>, one after the other.\<close>

primrec scan_calls where
  "scan_calls read parse 0 s = []"
| "scan_calls read parse (Suc n) s =
     (let (r, s) = scan_next read parse s in r # scan_calls read parse n s)"

text \<open>What a scanner has still to return: the unread bytes, with the record begun.\<close>

definition unread :: "int list \<Rightarrow> ReverseJsonlScanner \<Rightarrow> int list" where
  "unread file s = take (next_chunk_end s) file @ take (chunk_position s) (chunk_bytes s)"

definition remaining :: "int list \<Rightarrow> ReverseJsonlScanner \<Rightarrow> int list list" where
  "remaining file s =
     filter (kept_record (max_record_bytes s))
       (rev (if discarding_oversized_record s then butlast (split_char nl (unread file s))
             else map_last (\<lambda>p. p @ rev (record_reversed s)) (split_char nl (unread file s))))"

definition scanner_inv :: "int list \<Rightarrow> ReverseJsonlScanner \<Rightarrow> bool" where
  "scanner_inv file s \<longleftrightarrow>
     next_chunk_end s \<le> length file \<and> chunk_position s \<le> length (chunk_bytes s)
     \<and> (discarding_oversized_record s \<longrightarrow> record_reversed s = [])
     \<and> (\<not> discarding_oversized_record s \<longrightarrow> within_limit (max_record_bytes s) (record_reversed s))"

lemma within_limit_length: "within_limit l r \<Longrightarrow> length q \<le> length r \<Longrightarrow> within_limit l q"
  by (cases l) (auto simp: within_limit_def)

lemma within_limit_Nil [simp]: "within_limit l []"
  by (cases l) (auto simp: within_limit_def)

lemma split_char_append_no_sep:
  "d \<notin> set t \<Longrightarrow> split_char d (s @ t) = map_last (\<lambda>p. p @ t) (split_char d s)"
proof (induction s)
  case Nil
  then show ?case by (simp add: split_char_no_sep map_last_def)
next
  case (Cons c s)
  then show ?case by (cases "split_char d s") (auto simp: map_last_def)
qed

lemma rposition_Some:
  "rposition P xs = Some n \<Longrightarrow> P (xs ! n) \<and> list_all (\<lambda>x. \<not> P x) (drop (n + 1) xs)"
  by (induction xs arbitrary: n) (auto split: option.splits if_splits simp: rposition_None)

lemma chunk_split:
  "rposition (\<lambda>b. b = d) chunk = Some n \<Longrightarrow> split_char d (x @ chunk) = split_char d (x @ take n chunk) @ [drop (n + 1) chunk]"
proof -
  assume r: "rposition (\<lambda>b. b = d) chunk = Some n"
  then have "x @ chunk = (x @ take n chunk) @ d # drop (n + 1) chunk"
    using rposition_Some [OF r] id_take_nth_drop [OF rposition_less [OF r]] by simp
  moreover have "d \<notin> set (drop (n + 1) chunk)"
    using rposition_Some [OF r] by (auto simp: list_all_iff)
  ultimately show ?thesis
    using split_char_append [of d "x @ take n chunk" "drop (n + 1) chunk"] by (simp add: split_char_no_sep)
qed

lemma take_fragment_cases:
  "take_fragment f s =
    (if discarding_oversized_record s then s
     else if within_limit (max_record_bytes s) (record_reversed s @ rev f) then
       s\<lparr>record_reversed := record_reversed s @ rev f\<rparr>
     else s\<lparr>record_reversed := [], discarding_oversized_record := True\<rparr>)"
  by (cases "max_record_bytes s") (auto simp: take_fragment_def within_limit_def sat_add_def)

lemma finish_record_eq:
  "finish_record parse s =
     (if list_all is_ascii_whitespace (rev (record_reversed s)) then None
      else Some (outcome_of parse (rev (record_reversed s))), s\<lparr>record_reversed := []\<rparr>)"
  by (simp add: finish_record_def outcome_of_def Let_def)

text \<open>One pass of the loop takes at most one record from what remains, the last one.\<close>

lemma scan_chunk_step:
  assumes "scanner_inv file s" "scan_chunk parse s = (outcome, s')"
  shows "scanner_inv file s' \<and> max_record_bytes s' = max_record_bytes s \<and>
         (case outcome of None \<Rightarrow> remaining file s' = remaining file s
          | Some oc \<Rightarrow> \<exists>r rs. remaining file s = r # rs \<and> oc = outcome_of parse r \<and> remaining file s' = rs)"
proof (cases "rposition (\<lambda>b. b = nl) (take (chunk_position s) (chunk_bytes s))")
  case None
  let ?chunk = "take (chunk_position s) (chunk_bytes s)" and ?m = "max_record_bytes s"
  from None have "nl \<notin> set ?chunk" by (auto simp: rposition_None list_all_iff)
  then have split: "split_char nl (unread file s)
      = map_last (\<lambda>p. p @ ?chunk) (split_char nl (take (next_chunk_end s) file))"
    by (simp add: unread_def split_char_append_no_sep)
  obtain ps p where ps: "split_char nl (take (next_chunk_end s) file) = ps @ [p]"
    by (meson rev_exhaust split_char_not_Nil)
  have over: "\<not> within_limit ?m (record_reversed s @ rev ?chunk) \<Longrightarrow>
        \<not> kept_record ?m (p @ ?chunk @ rev (record_reversed s))"
    using within_limit_length [of ?m "p @ ?chunk @ rev (record_reversed s)"]
    by (auto simp: kept_record_def)
  from assms(2) None have s': "outcome = None" "s' = (take_fragment ?chunk s)\<lparr>chunk_position := 0\<rparr>"
    by (simp_all add: scan_chunk_def Let_def)
  show ?thesis
    using assms(1) over
    unfolding s' take_fragment_cases scanner_inv_def remaining_def split ps
    by (simp add: unread_def ps)
next
  case (Some n)
  let ?chunk = "take (chunk_position s) (chunk_bytes s)" and ?m = "max_record_bytes s"
  let ?x = "split_char nl (take (next_chunk_end s) file @ take n ?chunk)"
  have n: "n < chunk_position s" "n < length (chunk_bytes s)" using rposition_less [OF Some] by auto
  have split: "split_char nl (unread file s) = ?x @ [drop (n + 1) ?chunk]"
    unfolding unread_def by (rule chunk_split [OF Some])
  have rest: "chunk_position t = n \<Longrightarrow> next_chunk_end t = next_chunk_end s \<Longrightarrow> chunk_bytes t = chunk_bytes s \<Longrightarrow>
      split_char nl (unread file t) = ?x" for t :: ReverseJsonlScanner
    using n by (simp add: unread_def min_def)
  have id: "map_last (\<lambda>p. p) xs = xs" for xs :: "int list list" by (simp add: map_last_def)
  have len: "within_limit ?m (record_reversed s @ rev (drop (n + 1) ?chunk))
      = within_limit ?m (drop (n + 1) ?chunk @ rev (record_reversed s))"
    by (cases ?m) (simp_all add: within_limit_def add.commute)
  have keep: "kept_record ?m (drop (n + 1) ?chunk @ rev (record_reversed s)) \<longleftrightarrow>
      within_limit ?m (record_reversed s @ rev (drop (n + 1) ?chunk))
      \<and> \<not> list_all is_ascii_whitespace (rev (record_reversed s @ rev (drop (n + 1) ?chunk)))"
    using len by (auto simp: kept_record_def list_all_iff)
  from assms(2) Some have s': "(outcome, s') =
      (let s = (take_fragment (drop (n + 1) ?chunk) s)\<lparr>chunk_position := n\<rparr>
       in if discarding_oversized_record s then (None, s\<lparr>discarding_oversized_record := False\<rparr>)
          else finish_record parse s)"
    by (simp add: scan_chunk_def Let_def)
  show ?thesis
  proof (cases "discarding_oversized_record s \<or> \<not> within_limit ?m (record_reversed s @ rev (drop (n + 1) ?chunk))")
    case True
    with assms(1) have "take_fragment (drop (n + 1) ?chunk) s
        = s\<lparr>record_reversed := [], discarding_oversized_record := True\<rparr>"
      unfolding take_fragment_cases scanner_inv_def by (cases s) auto
    with s' have "outcome = None"
      and "s' = s\<lparr>record_reversed := [], chunk_position := n, discarding_oversized_record := False\<rparr>"
      by (simp_all add: Let_def)
    with True assms(1) keep n show ?thesis
      by (auto simp: scanner_inv_def remaining_def split rest id)
  next
    case False
    let ?r = "drop (n + 1) ?chunk @ rev (record_reversed s)"
    from False have "take_fragment (drop (n + 1) ?chunk) s = s\<lparr>record_reversed := rev ?r\<rparr>"
      unfolding take_fragment_cases by simp
    with False s' have "outcome = (if list_all is_ascii_whitespace ?r then None else Some (outcome_of parse ?r))"
      and "s' = s\<lparr>record_reversed := [], chunk_position := n\<rparr>"
      by (simp_all add: Let_def finish_record_eq)
    with False assms(1) keep n show ?thesis
      by (auto simp: scanner_inv_def remaining_def split rest id)
  qed
qed

lemma fill_chunk_step:
  assumes "scanner_inv file s" "chunk_position s = 0"
  shows "\<exists>s'. fill_chunk (file_reader eof file) s = (None, s') \<and> scanner_inv file s'
           \<and> max_record_bytes s' = max_record_bytes s \<and> remaining file s' = remaining file s"
proof -
  define e where "e = next_chunk_end s - min (next_chunk_end s) READ_CHUNK_SIZE"
  have e: "e + min (next_chunk_end s) READ_CHUNK_SIZE = next_chunk_end s" by (simp add: e_def)
  have "take e file @ take (min (next_chunk_end s) READ_CHUNK_SIZE) (drop e file) = take (next_chunk_end s) file"
    by (metis e take_add)
  moreover have "next_chunk_end s \<le> length file" using assms by (simp add: scanner_inv_def)
  ultimately show ?thesis
    using assms e
    by (auto simp: fill_chunk_def file_reader_def Let_def scanner_inv_def remaining_def unread_def
        simp flip: e_def)
qed

lemma remaining_at_start:
  assumes "scanner_inv file s" "chunk_position s = 0" "next_chunk_end s = 0"
  shows "remaining file s =
    (if discarding_oversized_record s \<or> list_all is_ascii_whitespace (record_reversed s) then []
     else [rev (record_reversed s)])"
  using assms within_limit_length [of _ "record_reversed s" "rev (record_reversed s)"]
  by (auto simp: remaining_def unread_def scanner_inv_def kept_record_def map_last_def list_all_iff)

text \<open>A call of \<^const>\<open>scan_next\<close> returns the last of the remaining records.\<close>

lemma scan_next_step:
  assumes "scanner_inv file s" "scan_next (file_reader eof file) parse s = (r, s')"
  shows "scanner_inv file s' \<and> max_record_bytes s' = max_record_bytes s \<and>
         remaining file s' = tl (remaining file s) \<and>
         r = Inr (case remaining file s of [] \<Rightarrow> None | x # xs \<Rightarrow> Some (outcome_of parse x))"
  using assms
proof (induction "bytes_left s" arbitrary: s rule: less_induct)
  case less
  note inv = less.prems(1) and step = less.prems(2) [unfolded scan_next.simps [of _ _ s]]
  show ?case
  proof (cases "chunk_position s = 0 \<and> next_chunk_end s = 0")
    case True
    with step have "r = Inr (if discarding_oversized_record s then None else fst (finish_record parse s))"
      and "s' = (if discarding_oversized_record s then s\<lparr>discarding_oversized_record := False\<rparr>
                 else s\<lparr>record_reversed := []\<rparr>)"
      by (auto simp: finish_record_eq split: if_splits)
    with inv True show ?thesis
      using remaining_at_start [OF inv] remaining_at_start [of "file" "s'"]
      by (auto simp: scanner_inv_def finish_record_eq list_all_iff split: if_splits)
  next
    case False
    obtain t where t: "(if chunk_position s = 0 then fill_chunk (file_reader eof file) s else (None, s)) = (None, t)"
      and t_inv: "scanner_inv file t" "max_record_bytes t = max_record_bytes s" "remaining file t = remaining file s"
      using fill_chunk_step [OF inv, of eof] inv by (cases "chunk_position s = 0") auto
    have left: "bytes_left t = bytes_left s" "0 < chunk_position t"
      using t False fill_chunk_keeps [of "file_reader eof file" s t] by (auto split: if_splits)
    obtain oc u where u: "scan_chunk parse t = (oc, u)" by force
    note chunk = scan_chunk_step [OF t_inv(1) u]
    show ?thesis
    proof (cases oc)
      case None
      with step t u False have "scan_next (file_reader eof file) parse u = (r, s')" by simp
      moreover have "bytes_left u < bytes_left s"
        using scan_chunk_decreases [OF left(2), of parse] left(1) u by simp
      ultimately show ?thesis using less.hyps [of u] chunk None t_inv by simp
    next
      case (Some res)
      with step t u False have "r = Inr (Some res)" "s' = u" by auto
      with Some chunk t_inv show ?thesis by auto
    qed
  qed
qed

lemma scan_calls_step:
  "scanner_inv file s \<Longrightarrow>
   scan_calls (file_reader eof file) parse n s
     = map (\<lambda>x. Inr (Some (outcome_of parse x))) (take n (remaining file s))
       @ replicate (n - length (remaining file s)) (Inr None)"
proof (induction n arbitrary: s)
  case 0
  then show ?case by simp
next
  case (Suc n)
  obtain r s' where r: "scan_next (file_reader eof file) parse s = (r, s')" by force
  with Suc.IH [of s'] scan_next_step [OF Suc.prems r] show ?case
    by (cases "remaining file s") simp_all
qed

lemma scanner_start:
  fixes limit :: "nat option"
  assumes "scanner_new_at (length file) e = Some s"
  defines "t \<equiv> (case limit of None \<Rightarrow> s | Some m \<Rightarrow> with_max_record_bytes m s)"
  shows "scanner_inv file t" and "remaining file t = records_from_end limit (take e file)"
proof -
  have id: "map_last (\<lambda>p. p) xs = xs" for xs :: "int list list" by (simp add: map_last_def)
  show "scanner_inv file t" "remaining file t = records_from_end limit (take e file)"
    using assms
    by (auto simp: scanner_new_at_def scanner_inv_def remaining_def unread_def records_from_end_def
        with_max_record_bytes_def id split: if_splits option.splits)
qed

lemma scan_next_unfold:
  assumes "(if chunk_position s = 0 then fill_chunk read s else (None, s)) = (fail, t)"
    and "chunk_position s \<noteq> 0 \<or> next_chunk_end s \<noteq> 0"
  shows "scan_next read parse s =
    (case fail of Some e \<Rightarrow> (Inl e, t)
     | None \<Rightarrow> (case scan_chunk parse t of (Some res, u) \<Rightarrow> (Inr (Some res), u)
                 | (None, u) \<Rightarrow> scan_next read parse u))"
  using assms by (subst scan_next.simps) (auto split: prod.split option.split)

text \<open>The scan of rollout lines is the scan with the two decoders in sequence.\<close>

lemma scan_next_rollout_line_eq:
  "scan_next_rollout_line read parse decode s =
   scan_next read (\<lambda>bytes. bind_result (parse bytes) decode) s"
proof (induction s rule: wf_induct [OF wf_measure [of bytes_left]])
  case (1 s)
  define f where "f = (\<lambda>oc. case oc of
      Parsed value \<Rightarrow> (case decode value of Inr line \<Rightarrow> Parsed line | Inl err \<Rightarrow> Rejected err)
    | Rejected err \<Rightarrow> Rejected err)"
  have finish: "finish_record (\<lambda>bytes. bind_result (parse bytes) decode) u
      = (map_option f (fst (finish_record parse u)), snd (finish_record parse u))" for u
    by (auto simp: finish_record_eq outcome_of_def f_def split: sum.split)
  have chunk: "scan_chunk (\<lambda>bytes. bind_result (parse bytes) decode) u
      = (map_option f (fst (scan_chunk parse u)), snd (scan_chunk parse u))" for u
    by (auto simp: scan_chunk_def Let_def finish split: option.split)
  show ?case
  proof (cases "chunk_position s = 0 \<and> next_chunk_end s = 0")
    case True
    then show ?thesis
      by (simp add: scan_next_rollout_line_def scan_next.simps [of _ _ s] finish f_def [symmetric]
          split: prod.split)
  next
    case False
    obtain fail t where t: "(if chunk_position s = 0 then fill_chunk read s else (None, s)) = (fail, t)"
      by force
    obtain oc u where u: "scan_chunk parse t = (oc, u)" by force
    have "bytes_left u < bytes_left s" if "fail = None"
      using t that False fill_chunk_keeps [of read s t] scan_chunk_decreases [of t parse] u
      by (auto split: if_splits)
    with 1 show ?thesis
      using t u False chunk [of t]
      by (cases fail; cases oc)
        (simp_all add: scan_next_rollout_line_def scan_next_unfold [OF t] f_def [symmetric])
  qed
qed

section \<open>The property\<close>

text \<open>C30: successive calls of \<open>scan_next\<close> on a scanner of the first \<open>e\<close> bytes of a file return its
  records from the last to the first, each decoded on its own, and \<open>None\<close> ever after: where the
  chunks are cut does not show, blank lines and records longer than the limit are skipped, and a
  record that does not decode is reported without stopping the scan.
\<close>

theorem reverse_scan_spec:
  assumes "scanner_new_at (length file) e = Some s"
  shows "scan_calls (file_reader eof file) parse n
           (case limit of None \<Rightarrow> s | Some m \<Rightarrow> with_max_record_bytes m s)
         = map (\<lambda>r. Inr (Some (outcome_of parse r))) (take n (records_from_end limit (take e file)))
           @ replicate (n - length (records_from_end limit (take e file))) (Inr None)"
  using scan_calls_step [OF scanner_start(1) [OF assms]] scanner_start(2) [OF assms] by simp

theorem reverse_scan_spec_witness:
  "scan_calls (file_reader () [97, 10, 98, 98, 98, 10, 32, 10, 99, 99]) (\<lambda>r. if r = [97] then Inl () else Inr (length r)) 3
     (with_max_record_bytes 2 (the (scanner_new_at 10 10)))
   = [Inr (Some (Parsed 2)), Inr (Some (Rejected ())), Inr None]"
  using reverse_scan_spec [of "[97, 10, 98, 98, 98, 10, 32, 10, 99, 99]" 10 "the (scanner_new_at 10 10)"
      "()" "\<lambda>r. if r = [97] then Inl () else Inr (length r)" 3 "Some 2"]
  by (simp add: scanner_new_at_def records_from_end_def kept_record_def within_limit_def
      is_ascii_whitespace_def outcome_of_def usize_max_def)

end
