(* ===== verification/Ip_Address.thy ===== *)
theory Ip_Address
  imports Rust_Prelude
begin

text \<open>
  IP addresses as the network proxy classifies them (\<open>network-proxy/src/policy.rs\<close>), over the
  types of \<open>std::net\<close>: an \<open>Ipv4Addr\<close> is a \<^typ>\<open>32 word\<close>, an \<open>Ipv6Addr\<close> a \<^typ>\<open>128 word\<close>,
  both in network order, with the methods of the standard library that the code calls and the
  parser behind \<open>str::parse::<IpAddr>\<close>.
\<close>

unbundle bit_operations_syntax

datatype IpAddr = V4 "32 word" | V6 "128 word"

section \<open>Parsing an address\<close>

definition digit_value :: "uchar \<Rightarrow> int" where
  "digit_value c = (if 48 \<le> c \<and> c \<le> 57 then c - 48
     else if 97 \<le> c \<and> c \<le> 102 then c - 87 else if 65 \<le> c \<and> c \<le> 70 then c - 55 else 99)"

text \<open>\<open>read_number\<close>: digits of a radix, at most so many, the value at most \<open>limit\<close>.\<close>

definition read_number :: "int \<Rightarrow> nat \<Rightarrow> bool \<Rightarrow> int \<Rightarrow> rstr \<Rightarrow> (int \<times> rstr) option" where
  "read_number radix max_digits allow_zero_prefix limit s =
     (let ds = takeWhile (\<lambda>c. digit_value c < radix) s;
          n = foldl (\<lambda>a c. a * radix + digit_value c) 0 ds
      in if ds = [] \<or> length ds > max_digits \<or> n > limit
            \<or> \<not> allow_zero_prefix \<and> hd ds = 48 \<and> length ds > 1 then None
         else Some (n, drop (length ds) s))"

text \<open>\<open>read_separator\<close>: the separator stands before every element but the first.\<close>

definition read_separator :: "uchar \<Rightarrow> nat \<Rightarrow> (rstr \<Rightarrow> ('a \<times> rstr) option) \<Rightarrow> rstr \<Rightarrow> ('a \<times> rstr) option" where
  "read_separator sep index inner s =
     (if index = 0 then inner s
      else (case strip_prefix [sep] s of None \<Rightarrow> None | Some r \<Rightarrow> inner r))"

fun read_octets :: "nat \<Rightarrow> nat \<Rightarrow> rstr \<Rightarrow> (int list \<times> rstr) option" where
  "read_octets index 0 s = Some ([], s)"
| "read_octets index (Suc n) s =
     (case read_separator 46 index (read_number 10 3 False 255) s of None \<Rightarrow> None
      | Some (v, r) \<Rightarrow> map_option (\<lambda>(vs, r'). (v # vs, r')) (read_octets (Suc index) n r))"

definition read_ipv4_addr :: "rstr \<Rightarrow> (int list \<times> rstr) option" where
  "read_ipv4_addr s = read_octets 0 4 s"

text \<open>\<open>read_groups\<close>: up to \<open>n\<close> groups of 16 bits from the index on, an IPv4 address as the last two.\<close>

fun read_groups :: "nat \<Rightarrow> nat \<Rightarrow> rstr \<Rightarrow> int list \<times> bool \<times> rstr" where
  "read_groups index 0 s = ([], False, s)"
| "read_groups index (Suc n) s =
     (case (if n > 0 then read_separator 58 index read_ipv4_addr s else None) of
        Some (v, r) \<Rightarrow> ([v ! 0 * 256 + v ! 1, v ! 2 * 256 + v ! 3], True, r)
      | None \<Rightarrow>
          (case read_separator 58 index (read_number 16 4 True 65535) s of
             Some (g, r) \<Rightarrow> (let (gs, ipv4, r') = read_groups (Suc index) n r in (g # gs, ipv4, r'))
           | None \<Rightarrow> ([], False, s)))"

definition read_ipv6_addr :: "rstr \<Rightarrow> (int list \<times> rstr) option" where
  "read_ipv6_addr s =
     (let (front, front_ipv4, r) = read_groups 0 8 s
      in if length front = 8 then Some (front, r)
         else if front_ipv4 then None
         else (case strip_prefix [58, 58] r of None \<Rightarrow> None
               | Some r \<Rightarrow>
                   let (back_groups, _, r) = read_groups 0 (7 - length front) r
                   in Some (front @ replicate (8 - length front - length back_groups) 0 @ back_groups, r)))"

definition from_digits :: "int \<Rightarrow> int list \<Rightarrow> 'a::len word" where
  "from_digits base ds = word_of_int (foldl (\<lambda>a d. a * base + d) 0 ds)"

definition parse_ip :: "rstr \<Rightarrow> IpAddr option" where
  "parse_ip s =
     (case read_ipv4_addr s of
        Some (octets, r) \<Rightarrow> if r = [] then Some (V4 (from_digits 256 octets)) else None
      | None \<Rightarrow> (case read_ipv6_addr s of
          Some (groups, r) \<Rightarrow> if r = [] then Some (V6 (from_digits 65536 groups)) else None
        | None \<Rightarrow> None))"

section \<open>The methods of the standard library\<close>

text \<open>The octets of an IPv4 address and the segments of an IPv6 address.\<close>

definition octet :: "nat \<Rightarrow> 32 word \<Rightarrow> 32 word" where
  "octet i ip = drop_bit (24 - 8 * i) ip AND 255"

definition segment :: "nat \<Rightarrow> 128 word \<Rightarrow> 128 word" where
  "segment i ip = drop_bit (112 - 16 * i) ip AND 65535"

definition ipv4_from :: "int list \<Rightarrow> 32 word" where
  "ipv4_from octets = from_digits 256 octets"

definition v4_is_loopback :: "32 word \<Rightarrow> bool" where
  "v4_is_loopback ip \<longleftrightarrow> octet 0 ip = 127"

definition v4_is_private :: "32 word \<Rightarrow> bool" where
  "v4_is_private ip \<longleftrightarrow> octet 0 ip = 10 \<or> (octet 0 ip = 172 \<and> 16 \<le> octet 1 ip \<and> octet 1 ip \<le> 31)
     \<or> (octet 0 ip = 192 \<and> octet 1 ip = 168)"

definition v4_is_link_local :: "32 word \<Rightarrow> bool" where
  "v4_is_link_local ip \<longleftrightarrow> octet 0 ip = 169 \<and> octet 1 ip = 254"

definition v4_is_multicast :: "32 word \<Rightarrow> bool" where
  "v4_is_multicast ip \<longleftrightarrow> 224 \<le> octet 0 ip \<and> octet 0 ip \<le> 239"

definition v6_is_loopback :: "128 word \<Rightarrow> bool" where
  "v6_is_loopback ip \<longleftrightarrow> ip = 1"

text \<open>\<open>Ipv6Addr::to_ipv4\<close>: the embedded address of \<open>::a.b.c.d\<close> and \<open>::ffff:a.b.c.d\<close>.\<close>

definition to_ipv4 :: "128 word \<Rightarrow> 32 word option" where
  "to_ipv4 ip = (if drop_bit 32 ip = 0 \<or> drop_bit 32 ip = 65535 then Some (ucast ip) else None)"

definition ip_is_loopback :: "IpAddr \<Rightarrow> bool" where
  "ip_is_loopback ip = (case ip of V4 a \<Rightarrow> v4_is_loopback a | V6 a \<Rightarrow> v6_is_loopback a)"

section \<open>Addresses that are not public\<close>

definition ipv4_in_cidr :: "32 word \<Rightarrow> int list \<Rightarrow> nat \<Rightarrow> bool" where
  "ipv4_in_cidr ip base prefix =
     (let base = ipv4_from base;
          mask = (if prefix = 0 then 0 else push_bit (32 - prefix) (- 1))
      in (ip AND mask) = (base AND mask))"

definition is_non_public_ipv4 :: "32 word \<Rightarrow> bool" where
  "is_non_public_ipv4 ip \<longleftrightarrow>
     v4_is_loopback ip \<or> v4_is_private ip \<or> v4_is_link_local ip \<or> ip = 0 \<or> v4_is_multicast ip
     \<or> ip = 0xFFFFFFFF
     \<or> ipv4_in_cidr ip [0, 0, 0, 0] 8
     \<or> ipv4_in_cidr ip [100, 64, 0, 0] 10
     \<or> ipv4_in_cidr ip [192, 0, 0, 0] 24
     \<or> ipv4_in_cidr ip [192, 0, 2, 0] 24
     \<or> ipv4_in_cidr ip [198, 18, 0, 0] 15
     \<or> ipv4_in_cidr ip [198, 51, 100, 0] 24
     \<or> ipv4_in_cidr ip [203, 0, 113, 0] 24
     \<or> ipv4_in_cidr ip [240, 0, 0, 0] 4"

definition is_non_public_ipv6 :: "128 word \<Rightarrow> bool" where
  "is_non_public_ipv6 ip =
     (case to_ipv4 ip of
        Some v4 \<Rightarrow> is_non_public_ipv4 v4 \<or> v6_is_loopback ip
      | None \<Rightarrow> v6_is_loopback ip \<or> ip = 0
          \<or> segment 0 ip AND 0xFF00 = 0xFF00
          \<or> segment 0 ip AND 0xFE00 = 0xFC00
          \<or> segment 0 ip AND 0xFFC0 = 0xFE80)"

definition is_non_public_ip :: "IpAddr \<Rightarrow> bool" where
  "is_non_public_ip ip = (case ip of V4 a \<Rightarrow> is_non_public_ipv4 a | V6 a \<Rightarrow> is_non_public_ipv6 a)"

section \<open>The ranges behind the checks\<close>

lemma unat_octet: "unat (octet i ip) = unat ip div 2 ^ (24 - 8 * i) mod 256"
proof -
  have "octet i ip = take_bit 8 (drop_bit (24 - 8 * i) ip)"
    unfolding octet_def take_bit_eq_mask by (simp add: mask_eq_exp_minus_1)
  then have "unat (octet i ip) = take_bit 8 (drop_bit (24 - 8 * i) (unat ip))"
    by (simp only: unsigned_take_bit_eq unat_drop_bit_eq)
  then show ?thesis by (simp add: take_bit_eq_mod drop_bit_eq_div)
qed

lemma masks_agree_iff:
  fixes x y :: "'a::len word"
  shows "x AND push_bit n (- 1) = y AND push_bit n (- 1) \<longleftrightarrow> drop_bit n x = drop_bit n y"
proof
  assume "x AND push_bit n (- 1) = y AND push_bit n (- 1)"
  then have "drop_bit n (x AND push_bit n (- 1)) = drop_bit n (y AND push_bit n (- 1))" by simp
  moreover have "drop_bit n (z AND push_bit n (- 1)) = drop_bit n z" for z :: "'a word"
    by (rule bit_eqI) (auto simp: bit_simps dest: bit_imp_le_length)
  ultimately show "drop_bit n x = drop_bit n y" by simp
next
  assume eq: "drop_bit n x = drop_bit n y"
  have "bit x i = bit y i" if "n \<le> i" for i
    using arg_cong [OF eq, of "\<lambda>w. bit w (i - n)"] that by (simp add: bit_simps)
  then show "x AND push_bit n (- 1) = y AND push_bit n (- 1)"
    by (intro bit_word_eqI) (auto simp: bit_simps)
qed

lemma ipv4_in_cidr_iff:
  assumes "0 < prefix"
  shows "ipv4_in_cidr ip base prefix \<longleftrightarrow>
     unat ip div 2 ^ (32 - prefix) = unat (ipv4_from base) div 2 ^ (32 - prefix)"
proof -
  have "ipv4_in_cidr ip base prefix \<longleftrightarrow> drop_bit (32 - prefix) ip = drop_bit (32 - prefix) (ipv4_from base)"
    unfolding ipv4_in_cidr_def Let_def masks_agree_iff [symmetric] using assms by auto
  then show ?thesis by (simp only: word_unat_eq_iff unat_drop_bit_eq drop_bit_eq_div [where 'a = nat])
qed

text \<open>The ranges of addresses that are not public, by their first and their last address.\<close>

definition non_public_ipv4_ranges :: "(int list \<times> int list) list" where
  "non_public_ipv4_ranges =
     [([0, 0, 0, 0], [0, 255, 255, 255]), ([10, 0, 0, 0], [10, 255, 255, 255]),
      ([100, 64, 0, 0], [100, 127, 255, 255]), ([127, 0, 0, 0], [127, 255, 255, 255]),
      ([169, 254, 0, 0], [169, 254, 255, 255]), ([172, 16, 0, 0], [172, 31, 255, 255]),
      ([192, 0, 0, 0], [192, 0, 0, 255]), ([192, 0, 2, 0], [192, 0, 2, 255]),
      ([192, 168, 0, 0], [192, 168, 255, 255]), ([198, 18, 0, 0], [198, 19, 255, 255]),
      ([198, 51, 100, 0], [198, 51, 100, 255]), ([203, 0, 113, 0], [203, 0, 113, 255]),
      ([224, 0, 0, 0], [255, 255, 255, 255])]"

definition in_range :: "32 word \<Rightarrow> int list \<times> int list \<Rightarrow> bool" where
  "in_range ip r \<longleftrightarrow> ipv4_from (fst r) \<le> ip \<and> ip \<le> ipv4_from (snd r)"

lemma div_eq_iff:
  assumes d: "0 < d"
  shows "n div d = k \<longleftrightarrow> k * d \<le> n \<and> n < (k + 1) * (d::nat)"
proof
  assume "n div d = k"
  then show "k * d \<le> n \<and> n < (k + 1) * d"
    using div_times_less_eq_dividend [of n d] dividend_less_div_times [OF d, of n] by simp
next
  assume "k * d \<le> n \<and> n < (k + 1) * d"
  then show "n div d = k" by (intro div_nat_eqI) (simp_all add: mult.commute)
qed

lemma div_mod_eq_iff: "b < d \<Longrightarrow> q div d = a \<and> q mod d = b \<longleftrightarrow> q = a * d + (b::nat)"
  by auto

lemma unat_ipv4_from:
  "unat (ipv4_from [a, b, c, d]) = nat ((((a * 256 + b) * 256 + c) * 256 + d) mod 4294967296)"
  unfolding nat_uint_eq [symmetric] ipv4_from_def from_digits_def uint_word_of_int by simp

lemma octet_conditions:
  fixes ip :: "32 word"
  defines "n \<equiv> unat ip"
  shows "octet 0 ip = 127 \<longleftrightarrow> n div 16777216 = 127" "octet 0 ip = 10 \<longleftrightarrow> n div 16777216 = 10"
    "octet 0 ip = 172 \<and> 16 \<le> octet 1 ip \<and> octet 1 ip \<le> 31 \<longleftrightarrow> n div 1048576 = 172 * 16 + 1"
    "octet 0 ip = 192 \<and> octet 1 ip = 168 \<longleftrightarrow> n div 65536 = 192 * 256 + 168"
    "octet 0 ip = 169 \<and> octet 1 ip = 254 \<longleftrightarrow> n div 65536 = 169 * 256 + 254"
    "224 \<le> octet 0 ip \<and> octet 0 ip \<le> 239 \<longleftrightarrow> n div 268435456 = 14"
proof -
  have n: "n < 4294967296" using unsigned_less [of ip, where 'a = nat] by (simp add: n_def)
  define q where "q = n div 65536"
  have q: "n div 16777216 = q div 256" "n div 1048576 = q div 16" "n div 268435456 = q div 256 div 16"
    by (simp_all add: q_def flip: div_mult2_eq)
  have "q < 65536" using n by (simp add: q_def div_less_iff_less_mult)
  then have 0: "unat (octet 0 ip) = q div 256" by (simp add: unat_octet q flip: n_def)
  have 1: "unat (octet 1 ip) = q mod 256" by (simp add: unat_octet n_def q_def)
  show "octet 0 ip = 127 \<longleftrightarrow> n div 16777216 = 127" "octet 0 ip = 10 \<longleftrightarrow> n div 16777216 = 10"
    unfolding word_unat_eq_iff 0 q by simp_all
  show "octet 0 ip = 172 \<and> 16 \<le> octet 1 ip \<and> octet 1 ip \<le> 31 \<longleftrightarrow> n div 1048576 = 172 * 16 + 1"
  proof -
    define a m where "a = q div 256" and "m = q mod 256"
    have q16: "q div 16 = a * 16 + m div 16"
    proof -
      have "q = m + (a * 16) * 16" using div_mult_mod_eq [of q 256] by (simp add: a_def m_def)
      then show ?thesis by (metis add.commute div_mult_self1 zero_neq_numeral)
    qed
    have "16 \<le> m \<and> m \<le> 31 \<longleftrightarrow> m div 16 = 1" unfolding div_eq_iff [OF zero_less_numeral] by auto
    moreover have "a * 16 + k = 2753 \<longleftrightarrow> a = 172 \<and> k = 1" if "k < 16" for k :: nat
      using that by presburger
    moreover have "m div 16 < 16" by (simp add: m_def div_less_iff_less_mult)
    ultimately have "a = 172 \<and> 16 \<le> m \<and> m \<le> 31 \<longleftrightarrow> q div 16 = 2753" unfolding q16 by blast
    moreover have "octet 0 ip = 172 \<longleftrightarrow> a = 172" "16 \<le> octet 1 ip \<longleftrightarrow> 16 \<le> m" "octet 1 ip \<le> 31 \<longleftrightarrow> m \<le> 31"
      unfolding a_def m_def word_unat_eq_iff word_le_nat_alt 0 1 by simp_all
    ultimately show ?thesis unfolding q by simp
  qed
  show "octet 0 ip = 192 \<and> octet 1 ip = 168 \<longleftrightarrow> n div 65536 = 192 * 256 + 168"
    unfolding word_unat_eq_iff 0 1 q_def [symmetric] by (simp add: div_mod_eq_iff)
  show "octet 0 ip = 169 \<and> octet 1 ip = 254 \<longleftrightarrow> n div 65536 = 169 * 256 + 254"
    unfolding word_unat_eq_iff 0 1 q_def [symmetric] by (simp add: div_mod_eq_iff)
  show "224 \<le> octet 0 ip \<and> octet 0 ip \<le> 239 \<longleftrightarrow> n div 268435456 = 14"
    unfolding word_le_nat_alt 0 q div_eq_iff [OF zero_less_numeral] by auto
qed

lemma ipv4_bound: "unat (ip :: 32 word) < 4294967296"
  using unsigned_less [of ip, where 'a = nat] by simp

lemmas range_simps = in_range_def fst_conv snd_conv word_le_nat_alt unat_ipv4_from div_eq_iff [OF zero_less_numeral]

lemma v4_ranges:
  "v4_is_loopback ip \<longleftrightarrow> in_range ip ([127, 0, 0, 0], [127, 255, 255, 255])"
  "v4_is_private ip \<longleftrightarrow> in_range ip ([10, 0, 0, 0], [10, 255, 255, 255])
     \<or> in_range ip ([172, 16, 0, 0], [172, 31, 255, 255]) \<or> in_range ip ([192, 168, 0, 0], [192, 168, 255, 255])"
  "v4_is_link_local ip \<longleftrightarrow> in_range ip ([169, 254, 0, 0], [169, 254, 255, 255])"
  "v4_is_multicast ip \<longleftrightarrow> in_range ip ([224, 0, 0, 0], [239, 255, 255, 255])"
  unfolding v4_is_loopback_def v4_is_private_def v4_is_link_local_def v4_is_multicast_def octet_conditions
  unfolding range_simps by auto

lemma cidr_range:
  assumes "0 < prefix" "unat (ipv4_from base) div 2 ^ (32 - prefix) = k"
    and "unat (ipv4_from lo) = k * 2 ^ (32 - prefix)" "unat (ipv4_from hi) + 1 = (k + 1) * 2 ^ (32 - prefix)"
  shows "ipv4_in_cidr ip base prefix \<longleftrightarrow> in_range ip (lo, hi)"
proof -
  have pos: "0 < (2::nat) ^ (32 - prefix)" by simp
  have "n < (k + 1) * 2 ^ (32 - prefix) \<longleftrightarrow> n \<le> unat (ipv4_from hi)" for n
    unfolding assms(4) [symmetric] by auto
  then show ?thesis
    unfolding ipv4_in_cidr_iff [OF assms(1)] assms(2) div_eq_iff [OF pos] in_range_def word_le_nat_alt fst_conv
      snd_conv assms(3)
    by simp
qed

lemma cidr_ranges:
  "ipv4_in_cidr ip [0, 0, 0, 0] 8 \<longleftrightarrow> in_range ip ([0, 0, 0, 0], [0, 255, 255, 255])"
  "ipv4_in_cidr ip [100, 64, 0, 0] 10 \<longleftrightarrow> in_range ip ([100, 64, 0, 0], [100, 127, 255, 255])"
  "ipv4_in_cidr ip [192, 0, 0, 0] 24 \<longleftrightarrow> in_range ip ([192, 0, 0, 0], [192, 0, 0, 255])"
  "ipv4_in_cidr ip [192, 0, 2, 0] 24 \<longleftrightarrow> in_range ip ([192, 0, 2, 0], [192, 0, 2, 255])"
  "ipv4_in_cidr ip [198, 18, 0, 0] 15 \<longleftrightarrow> in_range ip ([198, 18, 0, 0], [198, 19, 255, 255])"
  "ipv4_in_cidr ip [198, 51, 100, 0] 24 \<longleftrightarrow> in_range ip ([198, 51, 100, 0], [198, 51, 100, 255])"
  "ipv4_in_cidr ip [203, 0, 113, 0] 24 \<longleftrightarrow> in_range ip ([203, 0, 113, 0], [203, 0, 113, 255])"
  "ipv4_in_cidr ip [240, 0, 0, 0] 4 \<longleftrightarrow> in_range ip ([240, 0, 0, 0], [255, 255, 255, 255])"
  by (rule cidr_range, simp, rule refl, simp_all add: unat_ipv4_from)+

lemma class_e_ranges:
  "in_range ip ([224, 0, 0, 0], [239, 255, 255, 255]) \<or> in_range ip ([240, 0, 0, 0], [255, 255, 255, 255])
     \<longleftrightarrow> in_range ip ([224, 0, 0, 0], [255, 255, 255, 255])"
  "in_range 0 ([0, 0, 0, 0], [0, 255, 255, 255])" "in_range 0xFFFFFFFF ([224, 0, 0, 0], [255, 255, 255, 255])"
  unfolding range_simps by auto

lemma non_public_ipv4_iff: "is_non_public_ipv4 ip \<longleftrightarrow> list_ex (in_range ip) non_public_ipv4_ranges"
  unfolding is_non_public_ipv4_def non_public_ipv4_ranges_def list_ex_iff list.set v4_ranges cidr_ranges
  using class_e_ranges by (simp only: bex_simps) metis

text \<open>The top bits of the first segment of an IPv6 address are the top bits of the address.\<close>

lemma segment_0: "segment 0 ip = drop_bit 112 ip"
proof -
  have "segment 0 ip = take_bit 16 (drop_bit 112 ip)"
    unfolding segment_def take_bit_eq_mask by (simp add: mask_eq_exp_minus_1)
  also have "\<dots> = drop_bit 112 ip"
    by (rule bit_eqI) (auto simp: bit_simps dest: bit_imp_le_length)
  finally show ?thesis .
qed

lemma segment_0_prefix:
  assumes "n \<le> 16" "c AND push_bit n (- 1) = c" "m = 65535 AND push_bit n (- 1)"
  shows "segment 0 ip AND m = c \<longleftrightarrow> unat ip div 2 ^ (112 + n) = unat c div 2 ^ n"
proof -
  have "segment 0 ip AND m = (segment 0 ip AND 65535) AND push_bit n (- 1)"
    by (simp add: assms(3) ac_simps)
  also have "segment 0 ip AND 65535 = segment 0 ip"
    unfolding segment_def by (simp add: ac_simps)
  finally have "segment 0 ip AND m = c \<longleftrightarrow> segment 0 ip AND push_bit n (- 1) = c AND push_bit n (- 1)"
    using assms(2) by simp
  also have "\<dots> \<longleftrightarrow> drop_bit (112 + n) ip = drop_bit n c"
    unfolding masks_agree_iff segment_0 drop_bit_drop_bit by (simp add: add.commute)
  finally show ?thesis
    by (simp only: word_unat_eq_iff unat_drop_bit_eq drop_bit_eq_div [where 'a = nat])
qed

definition in_range6 :: "128 word \<Rightarrow> nat \<Rightarrow> nat \<Rightarrow> bool" where
  "in_range6 ip lo hi \<longleftrightarrow> lo \<le> unat ip \<and> unat ip \<le> hi"

lemma v6_ranges:
  "segment 0 ip AND 0xFF00 = 0xFF00 \<longleftrightarrow> in_range6 ip (0xFF00 * 2 ^ 112) (0x10000 * 2 ^ 112 - 1)"
  "segment 0 ip AND 0xFE00 = 0xFC00 \<longleftrightarrow> in_range6 ip (0xFC00 * 2 ^ 112) (0xFE00 * 2 ^ 112 - 1)"
  "segment 0 ip AND 0xFFC0 = 0xFE80 \<longleftrightarrow> in_range6 ip (0xFE80 * 2 ^ 112) (0xFEC0 * 2 ^ 112 - 1)"
proof -
  have le: "a < b \<longleftrightarrow> a \<le> b - 1" if "0 < b" for a b :: nat using that by auto
  have "segment 0 ip AND 0xFF00 = 0xFF00 \<longleftrightarrow> unat ip div 2 ^ (112 + 8) = unat (0xFF00 :: 128 word) div 2 ^ 8"
    by (rule segment_0_prefix) (simp_all add: push_bit_eq_mult)
  then show "segment 0 ip AND 0xFF00 = 0xFF00 \<longleftrightarrow> in_range6 ip (0xFF00 * 2 ^ 112) (0x10000 * 2 ^ 112 - 1)"
    unfolding div_eq_iff [OF zero_less_power [OF zero_less_numeral]] in_range6_def by (simp add: le)
  have "segment 0 ip AND 0xFE00 = 0xFC00 \<longleftrightarrow> unat ip div 2 ^ (112 + 9) = unat (0xFC00 :: 128 word) div 2 ^ 9"
    by (rule segment_0_prefix) (simp_all add: push_bit_eq_mult)
  then show "segment 0 ip AND 0xFE00 = 0xFC00 \<longleftrightarrow> in_range6 ip (0xFC00 * 2 ^ 112) (0xFE00 * 2 ^ 112 - 1)"
    unfolding div_eq_iff [OF zero_less_power [OF zero_less_numeral]] in_range6_def by (simp add: le)
  have "segment 0 ip AND 0xFFC0 = 0xFE80 \<longleftrightarrow> unat ip div 2 ^ (112 + 6) = unat (0xFE80 :: 128 word) div 2 ^ 6"
    by (rule segment_0_prefix) (simp_all add: push_bit_eq_mult)
  then show "segment 0 ip AND 0xFFC0 = 0xFE80 \<longleftrightarrow> in_range6 ip (0xFE80 * 2 ^ 112) (0xFEC0 * 2 ^ 112 - 1)"
    unfolding div_eq_iff [OF zero_less_power [OF zero_less_numeral]] in_range6_def by (simp add: le)
qed

text \<open>C35: an IPv4 address is not public exactly when it lies in one of thirteen ranges, and an
  IPv6 address when the IPv4 address it embeds (\<open>::a.b.c.d\<close>, \<open>::ffff:a.b.c.d\<close>) is not, or it
  lies in \<open>fc00::/7\<close>, \<open>fe80::/10\<close> or \<open>ff00::/8\<close>.\<close>

theorem non_public_ranges:
  "is_non_public_ip (V4 a) = list_ex (in_range a) non_public_ipv4_ranges
   \<and> is_non_public_ip (V6 b) =
      (if unat b < 2 ^ 32 \<or> 0xFFFF * 2 ^ 32 \<le> unat b \<and> unat b < 0x10000 * 2 ^ 32
       then is_non_public_ip (V4 (ucast b))
       else in_range6 b (0xFC00 * 2 ^ 112) (0xFE00 * 2 ^ 112 - 1)
         \<or> in_range6 b (0xFE80 * 2 ^ 112) (0xFEC0 * 2 ^ 112 - 1)
         \<or> in_range6 b (0xFF00 * 2 ^ 112) (0x10000 * 2 ^ 112 - 1))"
proof -
  have top: "drop_bit 32 b = 0 \<longleftrightarrow> unat b < 2 ^ 32"
      "drop_bit 32 b = 65535 \<longleftrightarrow> 0xFFFF * 2 ^ 32 \<le> unat b \<and> unat b < 0x10000 * 2 ^ 32"
    by (simp_all only: word_unat_eq_iff unat_drop_bit_eq drop_bit_eq_div [where 'a = nat]
        div_eq_iff [OF zero_less_power [OF zero_less_numeral]]) simp_all
  have small: "is_non_public_ipv4 1" "\<not> 2 ^ 32 \<le> unat (1 :: 128 word)" "\<not> 2 ^ 32 \<le> unat (0 :: 128 word)"
    unfolding non_public_ipv4_iff by (simp_all add: non_public_ipv4_ranges_def range_simps)
  show ?thesis
    using small
    by (auto simp: is_non_public_ip_def non_public_ipv4_iff is_non_public_ipv6_def to_ipv4_def top v6_ranges
        v6_is_loopback_def)
qed

end
