(* ===== verification/Host_Policy.thy ===== *)
theory Host_Policy
  imports Ip_Address
begin

text \<open>
  Host names and domain patterns of the network proxy (\<open>network-proxy/src/policy.rs\<close>): how a
  requested host is normalized, how a pattern of the configuration is read, which patterns a
  managed pattern allows, and how the patterns become a set of globs.

  The crate \<open>globset\<close> is the parameter \<open>glob\<close>: the compiled matcher of a glob pattern, built case
  insensitive, or \<open>None\<close> for an invalid one; a glob set is the list of its matchers. The host
  parser of the crate \<open>url\<close> is the parameter \<open>url_host\<close>.
\<close>

abbreviation dot :: uchar where "dot \<equiv> 46"
abbreviation star :: uchar where "star \<equiv> 42"
abbreviation colon :: uchar where "colon \<equiv> 58"
abbreviation percent :: uchar where "percent \<equiv> 37"

section \<open>Hosts\<close>

text \<open>\<open>trim_end_matches('.')\<close>.\<close>

definition trim_dots :: "rstr \<Rightarrow> rstr" where
  "trim_dots s = trim_end_matches (\<lambda>c. c = dot) s"

definition unscoped_ip_literal :: "rstr \<Rightarrow> rstr option" where
  "unscoped_ip_literal host =
     (case split_once [percent] host of None \<Rightarrow> None
      | Some (ip, _) \<Rightarrow> if parse_ip ip = None then None else Some ip)"

definition scoped_literal :: "rstr \<Rightarrow> rstr \<Rightarrow> rstr option" where
  "scoped_literal delimiter host =
     (case split_once delimiter host of None \<Rightarrow> None
      | Some (ip, scope) \<Rightarrow> if parse_ip ip = None then None else Some (ip @ [percent] @ scope))"

definition normalize_ip_literal :: "rstr \<Rightarrow> rstr option" where
  "normalize_ip_literal host =
     (if parse_ip host \<noteq> None then Some host
      else case scoped_literal (lit ''%25'') host of Some r \<Rightarrow> Some r
           | None \<Rightarrow> scoped_literal [percent] host)"

definition normalize_dns_host_or_ip_literal :: "rstr \<Rightarrow> rstr" where
  "normalize_dns_host_or_ip_literal host =
     (let host = trim_dots (to_ascii_lowercase host)
      in case normalize_ip_literal host of Some ip \<Rightarrow> ip | None \<Rightarrow> host)"

definition normalize_host :: "rstr \<Rightarrow> rstr" where
  "normalize_host host =
     (let host = trim host
      in case (if starts_with (lit ''['') host then str_find (lit '']'') host else None) of
           Some e \<Rightarrow> normalize_dns_host_or_ip_literal (drop 1 (take e host))
         | None \<Rightarrow>
             if length (filter (\<lambda>c. c = colon) host) = 1 then
               normalize_dns_host_or_ip_literal (hd (split_char colon host))
             else normalize_dns_host_or_ip_literal host)"

text \<open>A \<open>Host\<close> is its normalized string.\<close>

type_synonym Host = rstr

definition host_parse :: "rstr \<Rightarrow> unit + Host" where
  "host_parse input =
     (let normalized = normalize_host input
      in if normalized = [] then Inl () else Inr normalized)"

definition is_loopback_host :: "Host \<Rightarrow> bool" where
  "is_loopback_host host =
     (let host = (case unscoped_ip_literal host of Some ip \<Rightarrow> ip | None \<Rightarrow> host)
      in if host = lit ''localhost'' then True
         else (case parse_ip host of Some ip \<Rightarrow> ip_is_loopback ip | None \<Rightarrow> False))"

section \<open>Domain patterns\<close>

datatype DomainPattern = ApexAndSubdomains rstr | SubdomainsOnly rstr | Exact rstr

definition normalize_pattern :: "rstr \<Rightarrow> rstr" where
  "normalize_pattern pattern =
     (let pattern = trim pattern
      in if pattern = [star] then [star]
         else let (prefix, remainder) =
                (case strip_prefix (lit ''**.'') pattern of Some domain \<Rightarrow> (lit ''**.'', domain)
                 | None \<Rightarrow> (case strip_prefix (lit ''*.'') pattern of Some domain \<Rightarrow> (lit ''*.'', domain)
                    | None \<Rightarrow> ([], pattern)))
              in prefix @ normalize_host remainder)"

definition parse_domain :: "rstr \<Rightarrow> (rstr \<Rightarrow> DomainPattern) \<Rightarrow> DomainPattern" where
  "parse_domain domain build = (let domain = trim domain in if domain = [] then Exact [] else build domain)"

definition domain_pattern_parse :: "rstr \<Rightarrow> DomainPattern" where
  "domain_pattern_parse input =
     (let input = trim input
      in if input = [] then Exact []
         else case strip_prefix (lit ''**.'') input of Some domain \<Rightarrow> parse_domain domain ApexAndSubdomains
         | None \<Rightarrow> (case strip_prefix (lit ''*.'') input of Some domain \<Rightarrow> parse_domain domain SubdomainsOnly
            | None \<Rightarrow> Exact input))"

definition parse_domain_for_constraints :: "(rstr \<Rightarrow> rstr option) \<Rightarrow> rstr \<Rightarrow> rstr" where
  "parse_domain_for_constraints url_host domain =
     (let domain = trim_dots (trim domain)
      in if domain = [] then []
         else let host = (if starts_with (lit ''['') domain \<and> ends_with (lit '']'') domain
                          then drop 1 (take (length domain - 1) domain) else domain)
              in if contains [star] host \<or> contains (lit ''?'') host \<or> contains [percent] host then domain
                 else case url_host host of Some h \<Rightarrow> h | None \<Rightarrow> [])"

definition parse_for_constraints :: "(rstr \<Rightarrow> rstr option) \<Rightarrow> rstr \<Rightarrow> DomainPattern" where
  "parse_for_constraints url_host input =
     (let input = trim input
      in if input = [] then Exact []
         else case strip_prefix (lit ''**.'') input of
                Some domain \<Rightarrow> ApexAndSubdomains (parse_domain_for_constraints url_host domain)
              | None \<Rightarrow> (case strip_prefix (lit ''*.'') input of
                  Some domain \<Rightarrow> SubdomainsOnly (parse_domain_for_constraints url_host domain)
                | None \<Rightarrow> Exact (parse_domain_for_constraints url_host input)))"

definition normalize_domain :: "rstr \<Rightarrow> rstr" where
  "normalize_domain domain = to_ascii_lowercase (trim_dots domain)"

definition domain_eq :: "rstr \<Rightarrow> rstr \<Rightarrow> bool" where
  "domain_eq left right \<longleftrightarrow> normalize_domain left = normalize_domain right"

definition is_subdomain_or_equal :: "rstr \<Rightarrow> rstr \<Rightarrow> bool" where
  "is_subdomain_or_equal child parent =
     (let child = normalize_domain child; parent = normalize_domain parent
      in if child = parent then True else ends_with (dot # parent) child)"

definition is_strict_subdomain :: "rstr \<Rightarrow> rstr \<Rightarrow> bool" where
  "is_strict_subdomain child parent =
     (let child = normalize_domain child; parent = normalize_domain parent
      in child \<noteq> parent \<and> ends_with (dot # parent) child)"

fun allows :: "DomainPattern \<Rightarrow> DomainPattern \<Rightarrow> bool" where
  "allows (Exact domain) (Exact candidate) = domain_eq candidate domain"
| "allows (Exact domain) _ = False"
| "allows (SubdomainsOnly domain) (Exact candidate) = is_strict_subdomain candidate domain"
| "allows (SubdomainsOnly domain) (SubdomainsOnly candidate) = is_subdomain_or_equal candidate domain"
| "allows (SubdomainsOnly domain) (ApexAndSubdomains candidate) = is_strict_subdomain candidate domain"
| "allows (ApexAndSubdomains domain) (Exact candidate) = is_subdomain_or_equal candidate domain"
| "allows (ApexAndSubdomains domain) (SubdomainsOnly candidate) = is_subdomain_or_equal candidate domain"
| "allows (ApexAndSubdomains domain) (ApexAndSubdomains candidate) = is_subdomain_or_equal candidate domain"

definition expand_domain_pattern :: "rstr \<Rightarrow> rstr list" where
  "expand_domain_pattern pattern =
     (case domain_pattern_parse pattern of
        Exact domain \<Rightarrow> [domain]
      | SubdomainsOnly domain \<Rightarrow> [lit ''?*.'' @ domain]
      | ApexAndSubdomains domain \<Rightarrow> [domain, lit ''?*.'' @ domain])"

definition is_global_wildcard_domain_pattern :: "rstr \<Rightarrow> bool" where
  "is_global_wildcard_domain_pattern pattern =
     list_ex (\<lambda>candidate. candidate = [star]) (expand_domain_pattern (normalize_pattern pattern))"

section \<open>Glob sets\<close>

type_synonym GlobSet = "(rstr \<Rightarrow> bool) list"

datatype GlobalWildcard = AllowGlobal | RejectGlobal

datatype GlobError = UnsupportedGlobalWildcard | InvalidGlobPattern rstr

text \<open>The inner loop: the candidates of one pattern that were not seen yet are added.\<close>

fun add_candidates ::
  "(rstr \<Rightarrow> (rstr \<Rightarrow> bool) option) \<Rightarrow> rstr list \<Rightarrow> rstr set \<times> GlobSet \<Rightarrow> GlobError + rstr set \<times> GlobSet" where
  "add_candidates glob [] acc = Inr acc"
| "add_candidates glob (candidate # cs) (seen, builder) =
     (if candidate \<in> seen then add_candidates glob cs (seen, builder)
      else case glob candidate of None \<Rightarrow> Inl (InvalidGlobPattern candidate)
           | Some g \<Rightarrow> add_candidates glob cs (insert candidate seen, builder @ [g]))"

fun add_patterns ::
  "(rstr \<Rightarrow> (rstr \<Rightarrow> bool) option) \<Rightarrow> GlobalWildcard \<Rightarrow> rstr list \<Rightarrow> rstr set \<times> GlobSet \<Rightarrow> GlobError + GlobSet" where
  "add_patterns glob global_wildcard [] (seen, builder) = Inr builder"
| "add_patterns glob global_wildcard (pattern # ps) acc =
     (if global_wildcard = RejectGlobal \<and> is_global_wildcard_domain_pattern pattern
      then Inl UnsupportedGlobalWildcard
      else bind_result (add_candidates glob (expand_domain_pattern (normalize_pattern pattern)) acc)
             (add_patterns glob global_wildcard ps))"

definition compile_globset_with_policy ::
  "(rstr \<Rightarrow> (rstr \<Rightarrow> bool) option) \<Rightarrow> rstr list \<Rightarrow> GlobalWildcard \<Rightarrow> GlobError + GlobSet" where
  "compile_globset_with_policy glob patterns global_wildcard =
     add_patterns glob global_wildcard patterns ({}, [])"

definition compile_allowlist_globset ::
  "(rstr \<Rightarrow> (rstr \<Rightarrow> bool) option) \<Rightarrow> rstr list \<Rightarrow> GlobError + GlobSet" where
  "compile_allowlist_globset glob patterns = compile_globset_with_policy glob patterns AllowGlobal"

definition compile_denylist_globset ::
  "(rstr \<Rightarrow> (rstr \<Rightarrow> bool) option) \<Rightarrow> rstr list \<Rightarrow> GlobError + GlobSet" where
  "compile_denylist_globset glob patterns = compile_globset_with_policy glob patterns RejectGlobal"

text \<open>\<open>GlobSet::is_match\<close>.\<close>

definition is_match :: "GlobSet \<Rightarrow> rstr \<Rightarrow> bool" where
  "is_match globs host = list_ex (\<lambda>g. g host) globs"

section \<open>Allowed patterns\<close>

text \<open>The hosts a pattern stands for, in lower case and without a final dot.\<close>

fun hosts :: "DomainPattern \<Rightarrow> rstr set" where
  "hosts (Exact d) = {normalize_domain d}"
| "hosts (SubdomainsOnly d) = {p @ dot # normalize_domain d |p. True}"
| "hosts (ApexAndSubdomains d) = insert (normalize_domain d) {p @ dot # normalize_domain d |p. True}"

lemma is_strict_subdomain_iff: "is_strict_subdomain c d \<longleftrightarrow> normalize_domain c \<in> hosts (SubdomainsOnly d)"
  by (auto simp: is_strict_subdomain_def Let_def ends_with_iff)

lemma is_subdomain_or_equal_iff:
  "is_subdomain_or_equal c d \<longleftrightarrow> normalize_domain c \<in> hosts (ApexAndSubdomains d)"
  by (auto simp: is_subdomain_or_equal_def Let_def ends_with_iff)

lemma subdomains_subset:
  "{p @ dot # c |p. True} \<subseteq> {p @ dot # d |p. True} \<longleftrightarrow> c = d \<or> c \<in> {p @ dot # d |p. True}" (is "?l \<longleftrightarrow> ?r")
proof
  assume ?l
  moreover have "dot # c \<in> {p @ dot # c |p. True}" by (auto intro: exI [of _ "[]"])
  ultimately obtain p where "dot # c = p @ dot # d" by blast
  then show ?r by (cases p) auto
next
  assume ?r
  then show ?l by auto
qed

lemma subdomains_below_apex:
  "{p @ dot # c |p. True} \<subseteq> insert d {p @ dot # d |p. True} \<longleftrightarrow> c = d \<or> c \<in> {p @ dot # d |p. True}" (is "?l \<longleftrightarrow> ?r")
proof
  assume l: ?l
  have "p @ dot # c \<noteq> d" for p
  proof
    assume d: "p @ dot # c = d"
    have "(0 # p) @ dot # c \<in> {p @ dot # c |p. True}" by blast
    with l have "(0 # p) @ dot # c = d \<or> (\<exists>q. (0 # p) @ dot # c = q @ dot # d)" by blast
    then obtain q where q: "(0 # p) @ dot # c = q @ dot # d" using d by auto
    then have "length ((0 # p) @ dot # c) = length (q @ dot # d)" by (rule arg_cong)
    then have "q = []" using arg_cong [OF d, of length] by simp
    with q show False by simp
  qed
  with l have "{p @ dot # c |p. True} \<subseteq> {p @ dot # d |p. True}" by blast
  then show ?r unfolding subdomains_subset .
next
  assume ?r
  then show ?l unfolding subdomains_subset [symmetric] by blast
qed

lemma subdomains_not_single: "\<not> {p @ dot # c |p. True} \<subseteq> {d}"
proof
  assume s: "{p @ dot # c |p. True} \<subseteq> {d}"
  have "[] @ dot # c \<in> {p @ dot # c |p. True}" "[0] @ dot # c \<in> {p @ dot # c |p. True}" by blast+
  with s have "[] @ dot # c = [0] @ dot # c" by blast
  then show False by simp
qed

lemma allows_hosts: "allows p q \<longleftrightarrow> hosts q \<subseteq> hosts p"
proof -
  have "insert c {p @ dot # c |p. True} \<subseteq> S \<longleftrightarrow> c \<in> S \<and> {p @ dot # c |p. True} \<subseteq> S" for c and S :: "rstr set"
    by (rule insert_subset)
  then show ?thesis
    using subdomains_not_single subdomains_subset subdomains_below_apex
    by (cases p; cases q)
      (auto simp: domain_eq_def is_strict_subdomain_iff is_subdomain_or_equal_iff)
qed

section \<open>What a compiled set matches\<close>

definition glob_accumulates :: "(rstr \<Rightarrow> (rstr \<Rightarrow> bool) option) \<Rightarrow> rstr set \<Rightarrow> GlobSet \<Rightarrow> bool" where
  "glob_accumulates glob seen globs \<longleftrightarrow>
     (\<forall>host. is_match globs host \<longleftrightarrow> (\<exists>c \<in> seen. \<exists>g. glob c = Some g \<and> g host))"

lemma add_candidates_matches:
  "add_candidates glob cs (seen, globs) = Inr (seen', globs') \<Longrightarrow> glob_accumulates glob seen globs
   \<Longrightarrow> seen' = seen \<union> set cs \<and> glob_accumulates glob seen' globs'"
proof (induction cs arbitrary: seen globs)
  case Nil
  then show ?case by simp
next
  case (Cons c cs)
  show ?case
  proof (cases "c \<in> seen")
    case True
    with Cons show ?thesis by (auto simp: insert_absorb)
  next
    case False
    with Cons.prems obtain g where g: "glob c = Some g"
      and rest: "add_candidates glob cs (insert c seen, globs @ [g]) = Inr (seen', globs')"
      by (auto split: option.splits)
    have "glob_accumulates glob (insert c seen) (globs @ [g])"
      using Cons.prems(2) g by (auto simp: glob_accumulates_def is_match_def)
    with Cons.IH [OF rest] show ?thesis by auto
  qed
qed

lemma add_patterns_matches:
  "add_patterns glob w ps (seen, globs) = Inr globs' \<Longrightarrow> glob_accumulates glob seen globs
   \<Longrightarrow> is_match globs' host \<longleftrightarrow>
       (\<exists>c \<in> seen \<union> (\<Union>p \<in> set ps. set (expand_domain_pattern (normalize_pattern p))). \<exists>g. glob c = Some g \<and> g host)"
proof (induction ps arbitrary: seen globs)
  case Nil
  then show ?case by (simp add: glob_accumulates_def)
next
  case (Cons p ps)
  then obtain seen1 globs1
    where add: "add_candidates glob (expand_domain_pattern (normalize_pattern p)) (seen, globs) = Inr (seen1, globs1)"
      and rest: "add_patterns glob w ps (seen1, globs1) = Inr globs'"
    by (auto simp: bind_result_Inr split: if_splits)
  from add_candidates_matches [OF add Cons.prems(2)]
  have "seen1 = seen \<union> set (expand_domain_pattern (normalize_pattern p))" "glob_accumulates glob seen1 globs1"
    by blast+
  with Cons.IH [OF rest] show ?case by (simp add: Un_assoc)
qed

lemma compiled_matches:
  "compile_globset_with_policy glob ps w = Inr globs \<Longrightarrow>
     is_match globs host \<longleftrightarrow>
       (\<exists>p \<in> set ps. \<exists>c \<in> set (expand_domain_pattern (normalize_pattern p)). \<exists>g. glob c = Some g \<and> g host)"
  unfolding compile_globset_with_policy_def
  by (subst add_patterns_matches [where seen = "{}" and globs = "[]"])
    (auto simp: glob_accumulates_def is_match_def)

text \<open>
  What the code relies on of \<open>globset\<close>: a pattern without special characters matches itself
  whatever the case, after \<open>?*.\<close> also anything with a character before the dot, and \<open>*\<close> matches
  everything. A pattern is plain when its domain has no special character.
\<close>

definition literal_domain :: "rstr \<Rightarrow> bool" where
  "literal_domain d \<longleftrightarrow> list_all (\<lambda>c. c \<notin> {42, 63, 91, 93, 123, 125, 92, 33, 44}) d"

definition subdomain_of :: "rstr \<Rightarrow> rstr \<Rightarrow> bool" where
  "subdomain_of host d \<longleftrightarrow>
     length host > length d + 1 \<and> ends_with (dot # to_ascii_lowercase d) (to_ascii_lowercase host)"

definition glob_laws :: "(rstr \<Rightarrow> (rstr \<Rightarrow> bool) option) \<Rightarrow> bool" where
  "glob_laws glob \<longleftrightarrow>
     (\<forall>d. literal_domain d \<longrightarrow>
        (\<exists>g. glob d = Some g \<and> (\<forall>host. g host \<longleftrightarrow> to_ascii_lowercase host = to_ascii_lowercase d)) \<and>
        (\<exists>g. glob (lit ''?*.'' @ d) = Some g \<and> (\<forall>host. g host \<longleftrightarrow> subdomain_of host d)))
     \<and> (\<exists>g. glob [star] = Some g \<and> (\<forall>host. g host))"

definition plain_pattern :: "rstr \<Rightarrow> bool" where
  "plain_pattern p =
     (case domain_pattern_parse (normalize_pattern p) of
        Exact d \<Rightarrow> d = [star] \<or> literal_domain d | SubdomainsOnly d \<Rightarrow> literal_domain d
      | ApexAndSubdomains d \<Rightarrow> literal_domain d)"

definition pattern_matches :: "rstr \<Rightarrow> rstr \<Rightarrow> bool" where
  "pattern_matches p host =
     (case domain_pattern_parse (normalize_pattern p) of
        Exact d \<Rightarrow> d = [star] \<or> to_ascii_lowercase host = to_ascii_lowercase d
      | SubdomainsOnly d \<Rightarrow> subdomain_of host d
      | ApexAndSubdomains d \<Rightarrow> to_ascii_lowercase host = to_ascii_lowercase d \<or> subdomain_of host d)"

lemma expanded_matches:
  assumes "glob_laws glob" "plain_pattern p"
  shows "(\<exists>c \<in> set (expand_domain_pattern (normalize_pattern p)). \<exists>g. glob c = Some g \<and> g host) \<longleftrightarrow> pattern_matches p host"
proof (cases "domain_pattern_parse (normalize_pattern p)")
  case (Exact d)
  show ?thesis
  proof (cases "d = [star]")
    case True
    from assms(1) obtain g where "glob [star] = Some g" "\<And>h. g h" by (auto simp: glob_laws_def)
    with True Exact show ?thesis by (simp add: expand_domain_pattern_def pattern_matches_def)
  next
    case False
    with Exact assms(2) have "literal_domain d" by (simp add: plain_pattern_def)
    with assms(1) obtain g where "glob d = Some g" "\<And>h. g h \<longleftrightarrow> to_ascii_lowercase h = to_ascii_lowercase d"
      by (auto simp: glob_laws_def)
    with False Exact show ?thesis by (simp add: expand_domain_pattern_def pattern_matches_def)
  qed
next
  case (SubdomainsOnly d)
  with assms(2) have "literal_domain d" by (simp add: plain_pattern_def)
  with assms(1) obtain g where "glob (lit ''?*.'' @ d) = Some g" "\<And>h. g h \<longleftrightarrow> subdomain_of h d"
    by (auto simp: glob_laws_def)
  with SubdomainsOnly show ?thesis by (simp add: expand_domain_pattern_def pattern_matches_def)
next
  case (ApexAndSubdomains d)
  with assms(2) have d: "literal_domain d" by (simp add: plain_pattern_def)
  with assms(1) obtain g where "glob (lit ''?*.'' @ d) = Some g" "\<And>h. g h \<longleftrightarrow> subdomain_of h d"
    by (auto simp: glob_laws_def)
  moreover from d assms(1) obtain f where "glob d = Some f" "\<And>h. f h \<longleftrightarrow> to_ascii_lowercase h = to_ascii_lowercase d"
    by (auto simp: glob_laws_def)
  ultimately show ?thesis using ApexAndSubdomains by (simp add: expand_domain_pattern_def pattern_matches_def)
qed

lemma compiled_patterns_match:
  assumes "glob_laws glob" "list_all plain_pattern ps" "compile_globset_with_policy glob ps w = Inr globs"
  shows "is_match globs host \<longleftrightarrow> list_ex (\<lambda>p. pattern_matches p host) ps"
  unfolding compiled_matches [OF assms(3)] list_ex_iff
  using assms(2) expanded_matches [OF assms(1)] by (auto simp: list_all_iff)

section \<open>Properties\<close>


end
