(* ===== verification/Net_Config.thy ===== *)
theory Net_Config
  imports Host_Policy "HOL-Library.List_Lexorder"
begin

text \<open>
  The configuration of the network proxy (\<open>network-proxy/src/config.rs\<close> and the configuration
  types of \<open>mitm_hook.rs\<close>): the domain permissions and their precedence, the lists derived from
  them, how they are updated, and the addresses the proxy binds to.

  A \<open>BTreeMap\<close> with string keys is the list of its entries in the order of the keys, which is the
  lexicographic order of the characters. The crate \<open>url\<close> is the parameter \<open>url_parse\<close>. Paths are
  those of a Unix platform: an absolute path is one that starts with a slash.
\<close>

section \<open>Ordered maps\<close>

fun btree_insert :: "rstr \<Rightarrow> 'v \<Rightarrow> (rstr \<times> 'v) list \<Rightarrow> (rstr \<times> 'v) list" where
  "btree_insert k v [] = [(k, v)]"
| "btree_insert k v ((k', v') # m) =
     (if k = k' then (k, v) # m else if k < k' then (k, v) # (k', v') # m
      else (k', v') # btree_insert k v m)"

lemma map_of_btree_insert [simp]: "map_of (btree_insert k v m) = (map_of m)(k \<mapsto> v)"
  by (induction m) auto

section \<open>Types\<close>

record InjectedHeaderConfig =
  ih_name :: rstr
  secret_env_var :: "rstr option"
  secret_file :: "rstr option"
  ih_prefix :: "rstr option"

record 'json MitmHookMatchConfig =
  mh_methods :: "rstr list"
  mh_path_prefixes :: "rstr list"
  mh_query :: "(rstr \<times> rstr list) list"
  mh_headers :: "(rstr \<times> rstr list) list"
  mh_body :: "'json option"

record MitmHookActionsConfig =
  mh_strip_request_headers :: "rstr list"
  mh_inject_request_headers :: "InjectedHeaderConfig list"

record 'json MitmHookConfig =
  mh_host :: rstr
  mh_matcher :: "'json MitmHookMatchConfig"
  mh_actions :: MitmHookActionsConfig

datatype NetworkDomainPermission = PermNone | PermAllow | PermDeny

text \<open>The derived order: \<open>None < Allow < Deny\<close>.\<close>

instantiation NetworkDomainPermission :: linorder
begin

definition less_eq_NetworkDomainPermission :: "NetworkDomainPermission \<Rightarrow> NetworkDomainPermission \<Rightarrow> bool" where
  "less_eq_NetworkDomainPermission p q = (case p of PermNone \<Rightarrow> True | PermAllow \<Rightarrow> q \<noteq> PermNone | PermDeny \<Rightarrow> q = PermDeny)"

definition less_NetworkDomainPermission :: "NetworkDomainPermission \<Rightarrow> NetworkDomainPermission \<Rightarrow> bool" where
  "less_NetworkDomainPermission p q = (p \<le> q \<and> \<not> q \<le> p)"

instance
  by standard (auto simp: less_eq_NetworkDomainPermission_def less_NetworkDomainPermission_def
      split: NetworkDomainPermission.splits)

end

record NetworkDomainPermissionEntry =
  ne_pattern :: rstr
  ne_permission :: NetworkDomainPermission

type_synonym NetworkDomainPermissions = "NetworkDomainPermissionEntry list"

datatype NetworkUnixSocketPermission = SocketAllow | SocketDeny

type_synonym NetworkUnixSocketPermissions = "(rstr \<times> NetworkUnixSocketPermission) list"

datatype NetworkMode = Limited | FullAccess

record 'json NetworkProxyConfig =
  nc_enabled :: bool
  proxy_url :: rstr
  enable_socks5 :: bool
  socks_url :: rstr
  enable_socks5_udp :: bool
  nc_allow_upstream_proxy :: bool
  dangerously_allow_non_loopback_proxy :: bool
  dangerously_allow_all_unix_sockets :: bool
  nc_mode :: NetworkMode
  domains :: "NetworkDomainPermissions option"
  unix_sockets :: "NetworkUnixSocketPermissions option"
  nc_allow_local_binding :: bool
  mitm :: bool
  credential_broker :: bool
  credential_broker_openai_host :: "rstr option"
  dangerously_allow_plaintext_credential_injection :: bool
  mitm_hooks :: "'json MitmHookConfig list"

definition default_network_proxy_config :: "'json NetworkProxyConfig" where
  "default_network_proxy_config =
     \<lparr>nc_enabled = False, proxy_url = lit ''http://127.0.0.1:3128'', enable_socks5 = True,
      socks_url = lit ''http://127.0.0.1:8081'', enable_socks5_udp = True, nc_allow_upstream_proxy = True,
      dangerously_allow_non_loopback_proxy = False, dangerously_allow_all_unix_sockets = False,
      nc_mode = FullAccess, domains = None, unix_sockets = None, nc_allow_local_binding = False,
      mitm = False, credential_broker = False, credential_broker_openai_host = None,
      dangerously_allow_plaintext_credential_injection = False, mitm_hooks = []\<rparr>"

fun allows_method :: "NetworkMode \<Rightarrow> rstr \<Rightarrow> bool" where
  "allows_method FullAccess request_method = True"
| "allows_method Limited request_method =
     (request_method \<in> {lit ''GET'', lit ''HEAD'', lit ''OPTIONS''})"

section \<open>Domain permissions\<close>

text \<open>The loop of \<open>effective_entries\<close>: the order of first occurrence, and the highest permission.\<close>

fun note_entry ::
  "NetworkDomainPermissionEntry \<Rightarrow> rstr list \<times> (rstr \<rightharpoonup> NetworkDomainPermission)
   \<Rightarrow> rstr list \<times> (rstr \<rightharpoonup> NetworkDomainPermission)" where
  "note_entry entry (order, eff) =
     (case eff (ne_pattern entry) of
        None \<Rightarrow> (order @ [ne_pattern entry], eff(ne_pattern entry \<mapsto> ne_permission entry))
      | Some permission \<Rightarrow>
          (order, if ne_permission entry > permission then eff(ne_pattern entry \<mapsto> ne_permission entry) else eff))"

fun take_effective :: "rstr list \<Rightarrow> (rstr \<rightharpoonup> NetworkDomainPermission) \<Rightarrow> NetworkDomainPermissions" where
  "take_effective [] eff = []"
| "take_effective (pattern # order) eff =
     (case eff pattern of
        Some permission \<Rightarrow>
          \<lparr>ne_pattern = pattern, ne_permission = permission\<rparr> # take_effective order (eff(pattern := None))
      | None \<Rightarrow> take_effective order eff)"

definition effective_entries :: "NetworkDomainPermissions \<Rightarrow> NetworkDomainPermissions" where
  "effective_entries entries =
     (let (order, eff) = fold note_entry entries ([], Map.empty) in take_effective order eff)"

definition domain_entries :: "NetworkDomainPermission \<Rightarrow> 'json NetworkProxyConfig \<Rightarrow> rstr list option" where
  "domain_entries permission cfg =
     (case domains cfg of None \<Rightarrow> None
      | Some ds \<Rightarrow>
          let patterns = map ne_pattern (filter (\<lambda>e. ne_permission e = permission) (effective_entries ds))
          in if patterns = [] then None else Some patterns)"

definition allowed_domains :: "'json NetworkProxyConfig \<Rightarrow> rstr list option" where
  "allowed_domains cfg = domain_entries PermAllow cfg"

definition denied_domains :: "'json NetworkProxyConfig \<Rightarrow> rstr list option" where
  "denied_domains cfg = domain_entries PermDeny cfg"

definition unwrap_or_default :: "'a list option \<Rightarrow> 'a list" where
  "unwrap_or_default x = (case x of None \<Rightarrow> [] | Some xs \<Rightarrow> xs)"

definition non_empty_domains :: "'a list \<Rightarrow> 'a list option" where
  "non_empty_domains ds = (if ds = [] then None else Some ds)"

definition set_domain_entries ::
  "rstr list \<Rightarrow> NetworkDomainPermission \<Rightarrow> 'json NetworkProxyConfig \<Rightarrow> 'json NetworkProxyConfig" where
  "set_domain_entries entries permission cfg =
     (let kept = filter (\<lambda>e. ne_permission e \<noteq> permission) (unwrap_or_default (domains cfg));
          ds = fold (\<lambda>entry ds.
                 if list_ex (\<lambda>e. ne_pattern e = entry \<and> ne_permission e = permission) ds then ds
                 else ds @ [\<lparr>ne_pattern = entry, ne_permission = permission\<rparr>]) entries kept
      in cfg\<lparr>domains := non_empty_domains ds\<rparr>)"

definition set_allowed_domains :: "rstr list \<Rightarrow> 'json NetworkProxyConfig \<Rightarrow> 'json NetworkProxyConfig" where
  "set_allowed_domains ds cfg = set_domain_entries ds PermAllow cfg"

definition set_denied_domains :: "rstr list \<Rightarrow> 'json NetworkProxyConfig \<Rightarrow> 'json NetworkProxyConfig" where
  "set_denied_domains ds cfg = set_domain_entries ds PermDeny cfg"

definition upsert_domain_permission ::
  "rstr \<Rightarrow> NetworkDomainPermission \<Rightarrow> (rstr \<Rightarrow> rstr) \<Rightarrow> 'json NetworkProxyConfig \<Rightarrow> 'json NetworkProxyConfig" where
  "upsert_domain_permission host permission norm_host cfg =
     (let ds = unwrap_or_default (domains cfg);
          normalized_host = norm_host host;
          ds = filter (\<lambda>e. norm_host (ne_pattern e) \<noteq> normalized_host) ds
                 @ [\<lparr>ne_pattern = host, ne_permission = permission\<rparr>]
      in cfg\<lparr>domains := non_empty_domains ds\<rparr>)"

section \<open>Unix sockets and the credential broker\<close>

definition allow_unix_sockets :: "'json NetworkProxyConfig \<Rightarrow> rstr list" where
  "allow_unix_sockets cfg =
     (case unix_sockets cfg of None \<Rightarrow> []
      | Some entries \<Rightarrow> map fst (filter (\<lambda>(_, permission). permission = SocketAllow) entries))"

definition set_unix_socket_entries ::
  "rstr list \<Rightarrow> NetworkUnixSocketPermission \<Rightarrow> 'json NetworkProxyConfig \<Rightarrow> 'json NetworkProxyConfig" where
  "set_unix_socket_entries entries permission cfg =
     (let kept = filter (\<lambda>(_, existing). existing \<noteq> permission) (unwrap_or_default (unix_sockets cfg))
      in cfg\<lparr>unix_sockets := non_empty_domains (fold (\<lambda>entry m. btree_insert entry permission m) entries kept)\<rparr>)"

definition set_allow_unix_sockets :: "rstr list \<Rightarrow> 'json NetworkProxyConfig \<Rightarrow> 'json NetworkProxyConfig" where
  "set_allow_unix_sockets sockets cfg = set_unix_socket_entries sockets SocketAllow cfg"

text \<open>\<open>ValidatedUnixSocketPath::parse\<close> on Unix, where both of its forms start with a slash.\<close>

definition validate_unix_socket_allowlist_paths :: "'json NetworkProxyConfig \<Rightarrow> bool" where
  "validate_unix_socket_allowlist_paths cfg \<longleftrightarrow> list_all (starts_with (lit ''/'')) (allow_unix_sockets cfg)"

definition set_credential_broker_enabled :: "bool \<Rightarrow> 'json NetworkProxyConfig \<Rightarrow> 'json NetworkProxyConfig" where
  "set_credential_broker_enabled on cfg = cfg\<lparr>credential_broker := on, mitm := mitm cfg \<or> on\<rparr>"

section \<open>Addresses\<close>

record SocketAddr =
  sa_ip :: IpAddr
  sa_port :: "16 word"

record SocketAddressParts =
  sp_host :: rstr
  sp_port :: "16 word"

record RuntimeConfig =
  http_addr :: SocketAddr
  socks_addr :: SocketAddr

text \<open>What the code reads of a parsed \<open>Url\<close>.\<close>

record UrlParts =
  url_scheme :: rstr
  url_username :: rstr
  url_password :: "rstr option"
  url_host_str :: "rstr option"
  url_port :: "16 word option"

datatype ConfigError = MissingHost | InvalidUnixSocketPath | ZeroHttpPort | ZeroSocksPort

definition trusted_credential_broker_host :: "(rstr \<Rightarrow> UrlParts option) \<Rightarrow> rstr \<Rightarrow> rstr option" where
  "trusted_credential_broker_host url_parse base_url =
     (case url_parse base_url of None \<Rightarrow> None
      | Some url \<Rightarrow>
          if url_scheme url = lit ''https'' \<and> url_username url = [] \<and> url_password url = None
          then map_option normalize_host (url_host_str url) else None)"

definition set_credential_broker_openai_base_url ::
  "(rstr \<Rightarrow> UrlParts option) \<Rightarrow> rstr option \<Rightarrow> 'json NetworkProxyConfig \<Rightarrow> 'json NetworkProxyConfig" where
  "set_credential_broker_openai_base_url url_parse base_url cfg =
     cfg\<lparr>credential_broker_openai_host := Option.bind base_url (trusted_credential_broker_host url_parse)\<rparr>"

definition loopback_addr :: "16 word \<Rightarrow> SocketAddr" where
  "loopback_addr p = \<lparr>sa_ip = V4 (ipv4_from [127, 0, 0, 1]), sa_port = p\<rparr>"

definition clamp_non_loopback :: "SocketAddr \<Rightarrow> bool \<Rightarrow> SocketAddr" where
  "clamp_non_loopback addr allow_non_loopback =
     (if ip_is_loopback (sa_ip addr) then addr
      else if allow_non_loopback then addr
      else loopback_addr (sa_port addr))"

definition clamp_bind_addrs ::
  "SocketAddr \<Rightarrow> SocketAddr \<Rightarrow> 'json NetworkProxyConfig \<Rightarrow> SocketAddr \<times> SocketAddr" where
  "clamp_bind_addrs http socks cfg =
     (let http = clamp_non_loopback http (dangerously_allow_non_loopback_proxy cfg);
          socks = clamp_non_loopback socks (dangerously_allow_non_loopback_proxy cfg)
      in if allow_unix_sockets cfg = [] \<and> \<not> dangerously_allow_all_unix_sockets cfg then (http, socks)
         else (loopback_addr (sa_port http), loopback_addr (sa_port socks)))"

text \<open>\<open>str::parse::<u16>\<close>: decimal digits, with a sign that may be a plus.\<close>

definition parse_u16 :: "rstr \<Rightarrow> 16 word option" where
  "parse_u16 s =
     (let ds = (case s of c # cs \<Rightarrow> if c = 43 then cs else s | [] \<Rightarrow> []);
          n = foldl (\<lambda>a c. a * 10 + (c - 48)) 0 ds
      in if ds \<noteq> [] \<and> list_all is_ascii_digit ds \<and> n < 65536 then Some (word_of_int n) else None)"

definition parse_host_port_fallback :: "rstr \<Rightarrow> 16 word \<Rightarrow> ConfigError + SocketAddressParts" where
  "parse_host_port_fallback input default_port =
     (let without_scheme = (case split_once (lit ''://'') input of Some (_, rest) \<Rightarrow> rest | None \<Rightarrow> input);
          host_port = hd (split_char 47 without_scheme);
          host_port = (case rsplit_once 64 host_port of Some (_, rest) \<Rightarrow> rest | None \<Rightarrow> host_port)
      in case (if starts_with (lit ''['') host_port then str_find (lit '']'') host_port else None) of
           Some e \<Rightarrow>
             let host = drop 1 (take e host_port);
                 port = (case Option.bind (strip_prefix [colon] (drop (e + 1) host_port)) parse_u16 of
                           Some p \<Rightarrow> p | None \<Rightarrow> default_port)
             in if host = [] then Inl MissingHost else Inr \<lparr>sp_host = host, sp_port = port\<rparr>
         | None \<Rightarrow>
             (case (if length (filter (\<lambda>b. b = colon) host_port) = 1 then rsplit_once colon host_port else None) of
                Some (host, port) \<Rightarrow>
                  if host = [] then Inl MissingHost
                  else Inr \<lparr>sp_host = host,
                            sp_port = (case parse_u16 port of Some p \<Rightarrow> p | None \<Rightarrow> default_port)\<rparr>
              | None \<Rightarrow>
                  if host_port = [] then Inl MissingHost
                  else Inr \<lparr>sp_host = host_port, sp_port = default_port\<rparr>))"

definition trim_brackets :: "rstr \<Rightarrow> rstr" where
  "trim_brackets s =
     trim_end_matches (\<lambda>c. c = 91 \<or> c = 93) (dropWhile (\<lambda>c. c = 91 \<or> c = 93) s)"

definition parse_host_port ::
  "(rstr \<Rightarrow> UrlParts option) \<Rightarrow> rstr \<Rightarrow> 16 word \<Rightarrow> ConfigError + SocketAddressParts" where
  "parse_host_port url_parse url default_port =
     (let trimmed = trim url
      in if trimmed = [] then Inl MissingHost
         else if (case parse_ip trimmed of Some (V6 _) \<Rightarrow> True | _ \<Rightarrow> False) \<and> \<not> starts_with (lit ''['') trimmed
         then Inr \<lparr>sp_host = trimmed, sp_port = default_port\<rparr>
         else let candidate = (if contains (lit ''://'') trimmed then trimmed else lit ''http://'' @ trimmed)
              in case Option.bind (url_parse candidate)
                        (\<lambda>parsed. map_option (\<lambda>host. (host, url_port parsed)) (url_host_str parsed)) of
                   Some (host, port) \<Rightarrow>
                     let host = trim_brackets host
                     in if host = [] then Inl MissingHost
                        else Inr \<lparr>sp_host = host, sp_port = (case port of Some p \<Rightarrow> p | None \<Rightarrow> default_port)\<rparr>
                 | None \<Rightarrow> parse_host_port_fallback trimmed default_port)"

definition resolve_addr ::
  "(rstr \<Rightarrow> UrlParts option) \<Rightarrow> rstr \<Rightarrow> 16 word \<Rightarrow> ConfigError + SocketAddr" where
  "resolve_addr url_parse url default_port =
     bind_result (parse_host_port url_parse url default_port) (\<lambda>parts.
       let host = (if to_ascii_lowercase (sp_host parts) = lit ''localhost'' then lit ''127.0.0.1'' else sp_host parts)
       in case parse_ip host of
            Some ip \<Rightarrow> Inr \<lparr>sa_ip = ip, sa_port = sp_port parts\<rparr>
          | None \<Rightarrow> Inr (loopback_addr (sp_port parts)))"

definition resolve_runtime ::
  "(rstr \<Rightarrow> UrlParts option) \<Rightarrow> 'json NetworkProxyConfig \<Rightarrow> ConfigError + RuntimeConfig" where
  "resolve_runtime url_parse cfg =
     (if \<not> validate_unix_socket_allowlist_paths cfg then Inl InvalidUnixSocketPath
      else bind_result (resolve_addr url_parse (proxy_url cfg) 3128) (\<lambda>http.
           bind_result (resolve_addr url_parse (socks_url cfg) 8081) (\<lambda>socks.
             let (http, socks) = clamp_bind_addrs http socks cfg
             in Inr \<lparr>http_addr = http, socks_addr = socks\<rparr>)))"

definition managed_proxy_ports ::
  "(rstr \<Rightarrow> UrlParts option) \<Rightarrow> 'json NetworkProxyConfig \<Rightarrow> ConfigError + 16 word list" where
  "managed_proxy_ports url_parse cfg =
     bind_result (resolve_runtime url_parse cfg) (\<lambda>runtime.
       if sa_port (http_addr runtime) = 0 then Inl ZeroHttpPort
       else if \<not> enable_socks5 cfg then Inr [sa_port (http_addr runtime)]
       else if sa_port (socks_addr runtime) = 0 then Inl ZeroSocksPort
       else Inr (remdups_adj (sort [sa_port (http_addr runtime), sa_port (socks_addr runtime)])))"

text \<open>How an address of the configuration is shown.\<close>

definition format_host_and_port :: "rstr \<Rightarrow> 16 word \<Rightarrow> rstr" where
  "format_host_and_port host port =
     (if contains [colon] host then lit ''['' @ host @ lit '']:'' @ dec (unat port)
      else host @ lit '':'' @ dec (unat port))"

definition host_and_port_from_network_addr ::
  "(rstr \<Rightarrow> UrlParts option) \<Rightarrow> rstr \<Rightarrow> 16 word \<Rightarrow> rstr" where
  "host_and_port_from_network_addr url_parse value default_port =
     (let trimmed = trim value
      in if trimmed = [] then lit ''<missing>''
         else case parse_host_port url_parse trimmed default_port of
                Inr parts \<Rightarrow> format_host_and_port (sp_host parts) (sp_port parts)
              | Inl _ \<Rightarrow> format_host_and_port trimmed default_port)"

section \<open>Properties of the lists\<close>

text \<open>The highest permission of a pattern among entries, which \<open>effective_entries\<close> keeps.\<close>

definition effective_permission :: "NetworkDomainPermissions \<Rightarrow> rstr \<Rightarrow> NetworkDomainPermission option" where
  "effective_permission es p =
     (let perms = map ne_permission (filter (\<lambda>e. ne_pattern e = p) es)
      in if perms = [] then None else Some (fold max perms PermNone))"

lemma perm_none_least [simp]: "PermNone \<le> p" "max PermNone p = p" "max p PermNone = p"
  by (simp_all add: less_eq_NetworkDomainPermission_def max_def split: NetworkDomainPermission.split)

lemma perm_max:
  "max PermNone p = p" "max p PermNone = p" "max PermDeny p = PermDeny" "max p PermDeny = PermDeny"
  "max PermAllow PermAllow = PermAllow"
  by (cases p; simp add: max_def less_eq_NetworkDomainPermission_def)+

lemma fold_max_perm: "fold max (ps :: NetworkDomainPermission list) p = max p (fold max ps PermNone)"
  by (induction ps arbitrary: p) (simp, metis fold_simps(2) max.assoc max.commute perm_none_least(3))

lemma effective_permission_snoc:
  "effective_permission (es @ [e]) p =
     (if ne_pattern e = p then
        Some (case effective_permission es p of None \<Rightarrow> ne_permission e | Some q \<Rightarrow> max (ne_permission e) q)
      else effective_permission es p)"
  by (auto simp: effective_permission_def Let_def max.commute)

lemma fold_note_entry:
  "case fold note_entry es ([], Map.empty) of (order, eff) \<Rightarrow>
     distinct order \<and> set order = ne_pattern ` set es \<and> eff = effective_permission es"
proof (induction es rule: rev_induct)
  case Nil
  then show ?case by (auto simp: effective_permission_def)
next
  case (snoc e es)
  obtain order eff where f: "fold note_entry es ([], Map.empty) = (order, eff)" by force
  with snoc have o: "distinct order" "set order = ne_pattern ` set es" "eff = effective_permission es" by simp_all
  have in_es: "effective_permission es p = None \<longleftrightarrow> p \<notin> ne_pattern ` set es" for p
    by (auto simp: effective_permission_def Let_def filter_empty_conv)
  show ?case
  proof (cases "effective_permission es (ne_pattern e)")
    case None
    then have "ne_pattern e \<notin> ne_pattern ` set es" using in_es by blast
    with None f o show ?thesis by (auto simp: effective_permission_snoc fun_eq_iff)
  next
    case (Some q)
    then have "ne_pattern e \<in> ne_pattern ` set es" using in_es by force
    with Some f o show ?thesis by (auto simp: effective_permission_snoc fun_eq_iff max_def not_le)
  qed
qed

lemma take_effective_map:
  "distinct order \<Longrightarrow> set order \<subseteq> dom eff \<Longrightarrow>
     take_effective order eff = map (\<lambda>p. \<lparr>ne_pattern = p, ne_permission = the (eff p)\<rparr>) order"
proof (induction order arbitrary: eff)
  case Nil
  then show ?case by simp
next
  case (Cons p order)
  then obtain q where "eff p = Some q" by auto
  moreover have "take_effective order (eff(p := None))
      = map (\<lambda>p'. \<lparr>ne_pattern = p', ne_permission = the ((eff(p := None)) p')\<rparr>) order"
    using Cons by (intro Cons.IH) auto
  ultimately show ?case using Cons.prems(1) by auto
qed

lemma effective_entries_set:
  "set (effective_entries es) =
     {e. effective_permission es (ne_pattern e) = Some (ne_permission e)}"
  "distinct (map ne_pattern (effective_entries es))"
proof -
  obtain order eff where f: "fold note_entry es ([], Map.empty) = (order, eff)" by force
  have o: "distinct order" "set order = ne_pattern ` set es" "eff = effective_permission es"
    using fold_note_entry [of es] f by simp_all
  have dom: "dom eff = set order"
    using o by (auto simp: dom_def effective_permission_def Let_def filter_empty_conv split: if_splits)
  have eq: "effective_entries es = map (\<lambda>p. \<lparr>ne_pattern = p, ne_permission = the (eff p)\<rparr>) order"
    using f take_effective_map [OF o(1)] dom by (simp add: effective_entries_def)
  show "distinct (map ne_pattern (effective_entries es))" using o(1) by (simp add: eq o_def)
  show "set (effective_entries es) = {e. effective_permission es (ne_pattern e) = Some (ne_permission e)}"
  proof (intro set_eqI iffI)
    fix e assume "e \<in> set (effective_entries es)"
    then show "e \<in> {e. effective_permission es (ne_pattern e) = Some (ne_permission e)}"
      using domD [of _ eff] unfolding dom by (force simp: eq simp flip: o(3))
  next
    fix e :: NetworkDomainPermissionEntry
    assume "e \<in> {e. effective_permission es (ne_pattern e) = Some (ne_permission e)}"
    then have "eff (ne_pattern e) = Some (ne_permission e)" by (simp add: o(3))
    moreover from this have "ne_pattern e \<in> set order" using dom by auto
    ultimately show "e \<in> set (effective_entries es)" by (auto simp: eq intro: image_eqI [of _ _ "ne_pattern e"])
  qed
qed

text \<open>Which patterns are denied, and which are allowed: a denial wins.\<close>

definition has_entry :: "'json NetworkProxyConfig \<Rightarrow> rstr \<Rightarrow> NetworkDomainPermission \<Rightarrow> bool" where
  "has_entry cfg p perm \<longleftrightarrow> (\<exists>e \<in> set (unwrap_or_default (domains cfg)). ne_pattern e = p \<and> ne_permission e = perm)"

lemma fold_max_perm_cases:
  "fold max ps PermNone = PermDeny \<longleftrightarrow> PermDeny \<in> set ps"
  "fold max ps PermNone = PermAllow \<longleftrightarrow> PermAllow \<in> set ps \<and> PermDeny \<notin> set ps"
proof -
  have "(fold max ps PermNone = PermDeny \<longleftrightarrow> PermDeny \<in> set ps)
      \<and> (fold max ps PermNone = PermAllow \<longleftrightarrow> PermAllow \<in> set ps \<and> PermDeny \<notin> set ps)"
  proof (induction ps)
    case Nil
    then show ?case by simp
  next
    case (Cons p ps)
    have "fold max (p # ps) PermNone = max p (fold max ps PermNone)" using fold_max_perm [of ps p] by simp
    then show ?case
      using Cons by (cases p; cases "fold max ps PermNone") (simp_all only: perm_max, simp_all)
  qed
  then show "fold max ps PermNone = PermDeny \<longleftrightarrow> PermDeny \<in> set ps"
    "fold max ps PermNone = PermAllow \<longleftrightarrow> PermAllow \<in> set ps \<and> PermDeny \<notin> set ps" by simp_all
qed

lemma domain_entries_set:
  "p \<in> set (unwrap_or_default (domain_entries perm cfg)) \<longleftrightarrow>
     effective_permission (unwrap_or_default (domains cfg)) p = Some perm"
proof -
  have "set (unwrap_or_default (domain_entries perm cfg))
      = ne_pattern ` {e \<in> set (effective_entries (unwrap_or_default (domains cfg))). ne_permission e = perm}"
  proof (cases "domains cfg")
    case None
    then show ?thesis by (simp add: domain_entries_def unwrap_or_default_def effective_entries_def)
  next
    case (Some ds)
    then show ?thesis by (auto simp: domain_entries_def unwrap_or_default_def Let_def filter_empty_conv)
  qed
  also have "p \<in> \<dots> \<longleftrightarrow> effective_permission (unwrap_or_default (domains cfg)) p = Some perm"
    unfolding effective_entries_set
    by (auto intro!: image_eqI [of _ _ "\<lparr>ne_pattern = p, ne_permission = perm\<rparr>"])
  finally show ?thesis .
qed

lemma denied_domains_iff: "p \<in> set (unwrap_or_default (denied_domains cfg)) \<longleftrightarrow> has_entry cfg p PermDeny"
  by (auto simp: denied_domains_def domain_entries_set effective_permission_def Let_def fold_max_perm_cases
      has_entry_def filter_empty_conv image_iff)

lemma allowed_domains_iff:
  "p \<in> set (unwrap_or_default (allowed_domains cfg)) \<longleftrightarrow> has_entry cfg p PermAllow \<and> \<not> has_entry cfg p PermDeny"
  by (auto simp: allowed_domains_def domain_entries_set effective_permission_def Let_def fold_max_perm_cases
      has_entry_def filter_empty_conv image_iff)

section \<open>Where the proxy listens\<close>

lemma loopback_addr_is_loopback [simp]: "ip_is_loopback (sa_ip (loopback_addr p))"
  by (simp add: loopback_addr_def ip_is_loopback_def) code_simp

lemma clamp_bind_addrs_safe:
  "clamp_bind_addrs http socks cfg = (http', socks') \<Longrightarrow>
     (dangerously_allow_non_loopback_proxy cfg \<and> allow_unix_sockets cfg = []
        \<and> \<not> dangerously_allow_all_unix_sockets cfg)
     \<or> ip_is_loopback (sa_ip http') \<and> ip_is_loopback (sa_ip socks')"
  by (auto simp: clamp_bind_addrs_def clamp_non_loopback_def Let_def split: if_splits)

text \<open>The proxy listens on the loopback interface only, unless the configuration allows other
  addresses and lets no request through to a Unix socket.\<close>

theorem proxy_listens_on_loopback:
  assumes "resolve_runtime url_parse cfg = Inr runtime"
  shows "(dangerously_allow_non_loopback_proxy cfg \<and> allow_unix_sockets cfg = []
            \<and> \<not> dangerously_allow_all_unix_sockets cfg)
         \<or> ip_is_loopback (sa_ip (http_addr runtime)) \<and> ip_is_loopback (sa_ip (socks_addr runtime))"
proof -
  from assms obtain http socks where "clamp_bind_addrs http socks cfg = (http_addr runtime, socks_addr runtime)"
    by (auto simp: resolve_runtime_def bind_result_Inr split_beta split: if_splits)
  then show ?thesis by (rule clamp_bind_addrs_safe)
qed

definition exposed_config :: "unit NetworkProxyConfig" where
  "exposed_config = default_network_proxy_config\<lparr>proxy_url := lit ''http://0.0.0.0:99'',
     dangerously_allow_non_loopback_proxy := True, unix_sockets := Some [(lit ''/run/d.sock'', SocketAllow)]\<rparr>"

lemma exposed_config_resolves:
  "resolve_runtime (\<lambda>_. None) exposed_config = Inr \<lparr>http_addr = loopback_addr 99, socks_addr = loopback_addr 8081\<rparr>"
  by code_simp

theorem proxy_listens_on_loopback_witness: "ip_is_loopback (sa_ip (loopback_addr 99))"
  using proxy_listens_on_loopback [OF exposed_config_resolves]
  by (simp add: exposed_config_def allow_unix_sockets_def)

text \<open>The effective entries hold every pattern once, with the highest of its permissions; so a
  pattern is denied as soon as one entry denies it, and allowed only when no entry does.\<close>

theorem effective_entries_spec:
  "distinct (map ne_pattern (effective_entries es))
   \<and> set (effective_entries es) = {e. effective_permission es (ne_pattern e) = Some (ne_permission e)}
   \<and> (p \<in> set (unwrap_or_default (denied_domains cfg)) \<longleftrightarrow> has_entry cfg p PermDeny)
   \<and> (p \<in> set (unwrap_or_default (allowed_domains cfg)) \<longleftrightarrow> has_entry cfg p PermAllow \<and> \<not> has_entry cfg p PermDeny)"
  using effective_entries_set denied_domains_iff allowed_domains_iff by blast

end
