(* ===== verification/Authorization_Path.thy ===== *)
theory Authorization_Path
  imports Rust_Prelude
begin

text \<open>
  The check that a request path means the same before and after an upstream server decodes and
  normalizes it (\<open>network-proxy/src/authorization_path.rs\<close>).
\<close>

definition decode_hex_digit :: "int \<Rightarrow> int option" where
  "decode_hex_digit byte =
     (if 48 \<le> byte \<and> byte \<le> 57 then Some (byte - 48)
      else if 97 \<le> byte \<and> byte \<le> 102 then Some (byte - 97 + 10)
      else if 65 \<le> byte \<and> byte \<le> 70 then Some (byte - 65 + 10) else None)"

text \<open>The loop over the bytes of a segment: the dots and whether there is anything else.\<close>

fun segment_loop :: "int list \<Rightarrow> nat \<Rightarrow> bool \<Rightarrow> (nat \<times> bool) option" where
  "segment_loop [] decoded_dots has_non_dot = Some (decoded_dots, has_non_dot)"
| "segment_loop (byte # rest) decoded_dots has_non_dot =
     (if byte = 46 then segment_loop rest (decoded_dots + 1) has_non_dot
      else if byte = 92 then None
      else if byte = 37 then
        (case rest of
           high # low # rest' \<Rightarrow>
             (case (decode_hex_digit high, decode_hex_digit low) of
                (Some h, Some l) \<Rightarrow>
                  let decoded = h * 16 + l
                  in if decoded = 37 \<or> decoded = 47 \<or> decoded = 92 then None
                     else if decoded = 46 then segment_loop rest' (decoded_dots + 1) has_non_dot
                     else segment_loop rest' decoded_dots True
              | _ \<Rightarrow> None)
         | _ \<Rightarrow> None)
      else segment_loop rest decoded_dots True)"

definition is_safe_segment_for_authorization :: "rstr \<Rightarrow> bool" where
  "is_safe_segment_for_authorization segment =
     (case segment_loop (into_bytes segment) 0 False of None \<Rightarrow> False
      | Some (decoded_dots, has_non_dot) \<Rightarrow> has_non_dot \<or> \<not> (decoded_dots = 1 \<or> decoded_dots = 2))"

definition is_safe_for_authorization :: "rstr \<Rightarrow> bool" where
  "is_safe_for_authorization path = list_all is_safe_segment_for_authorization (split_char 47 path)"

section \<open>What a server may make of a path\<close>

fun percent_decode :: "int list \<Rightarrow> int list option" where
  "percent_decode [] = Some []"
| "percent_decode (byte # rest) =
     (if byte = 37 then
        (case rest of
           high # low # rest' \<Rightarrow>
             (case (decode_hex_digit high, decode_hex_digit low) of
                (Some h, Some l) \<Rightarrow> map_option (Cons (h * 16 + l)) (percent_decode rest')
              | _ \<Rightarrow> None)
         | _ \<Rightarrow> None)
      else map_option (Cons byte) (percent_decode rest))"

lemma segment_loop_decode:
  "47 \<notin> set bytes \<Longrightarrow> segment_loop bytes n b =
     (case percent_decode bytes of None \<Rightarrow> None
      | Some ds \<Rightarrow> if 37 \<in> set ds \<or> 47 \<in> set ds \<or> 92 \<in> set ds then None
                   else Some (n + length (filter (\<lambda>d. d = 46) ds), b \<or> (\<exists>d \<in> set ds. d \<noteq> 46)))"
proof (induction bytes arbitrary: n b rule: percent_decode.induct)
  case 1
  then show ?case by simp
next
  case (2 byte rest)
  show ?case
  proof (cases "byte = 37")
    case False
    with 2 show ?thesis by (cases "percent_decode rest") auto
  next
    case True
    note pct = True
    show ?thesis
    proof (cases "\<exists>high low rest' h l. rest = high # low # rest' \<and> decode_hex_digit high = Some h
                    \<and> decode_hex_digit low = Some l")
      case False
      with pct show ?thesis by (auto split: list.split option.split)
    next
      case True
      then obtain high low rest' h l where r: "rest = high # low # rest'"
        and h: "decode_hex_digit high = Some h" and l: "decode_hex_digit low = Some l" by blast
      have "47 \<notin> set rest'" using 2 r by simp
      then have "segment_loop rest' n b = (case percent_decode rest' of None \<Rightarrow> None
          | Some ds \<Rightarrow> if 37 \<in> set ds \<or> 47 \<in> set ds \<or> 92 \<in> set ds then None
             else Some (n + length (filter (\<lambda>d. d = 46) ds), b \<or> (\<exists>d \<in> set ds. d \<noteq> 46)))" for n b
        using "2.IH"(1) pct r h l by auto
      with pct r h l show ?thesis by (cases "percent_decode rest'") (simp_all add: Let_def)
    qed
  qed
qed

text \<open>A segment passes exactly when it decodes to something that no server changes further.\<close>

definition plain_segment :: "int list \<Rightarrow> bool" where
  "plain_segment ds \<longleftrightarrow> 37 \<notin> set ds \<and> 47 \<notin> set ds \<and> 92 \<notin> set ds \<and> ds \<noteq> [46] \<and> ds \<noteq> [46, 46]"

lemma all_dots: "(\<forall>d \<in> set ds. d = c) \<longleftrightarrow> ds = replicate (length (filter (\<lambda>d. d = c) ds)) c"
  by (metis (mono_tags, lifting) filter_True in_set_replicate replicate_length_same)

lemma safe_segment_iff:
  assumes "47 \<notin> set (into_bytes segment)"
  shows "is_safe_segment_for_authorization segment \<longleftrightarrow>
    (\<exists>ds. percent_decode (into_bytes segment) = Some ds \<and> plain_segment ds)"
proof -
  have dots: "((\<exists>d \<in> set ds. d \<noteq> 46) \<or> \<not> (k = 1 \<or> k = 2)) \<longleftrightarrow> ds \<noteq> [46] \<and> ds \<noteq> [46, 46]"
    if "k = length (filter (\<lambda>d. d = 46) ds)" for ds :: "int list" and k
    using all_dots [of ds 46] that by (auto simp: numeral_2_eq_2)
  show ?thesis
    using dots
    by (auto simp: is_safe_segment_for_authorization_def segment_loop_decode [OF assms] plain_segment_def
        split: option.split if_splits)
qed

text \<open>Decoding goes through a path segment by segment.\<close>

lemma percent_decode_append_slash:
  "percent_decode (xs @ 47 # ys) =
     (case (percent_decode xs, percent_decode ys) of (Some ds, Some es) \<Rightarrow> Some (ds @ 47 # es) | _ \<Rightarrow> None)"
proof (induction xs rule: percent_decode.induct)
  case 1
  then show ?case by (simp split: option.split)
next
  case (2 byte rest)
  have slash: "decode_hex_digit 47 = None" by (simp add: decode_hex_digit_def)
  show ?case
  proof (cases "byte = 37")
    case False
    with 2 show ?thesis by (simp split: option.split)
  next
    case True
    consider "rest = []" | b where "rest = [b]" | high low rest' where "rest = high # low # rest'"
      by (metis list.exhaust)
    then show ?thesis
    proof cases
      case 3
      have IH: "percent_decode (rest' @ 47 # ys) =
          (case (percent_decode rest', percent_decode ys) of (Some ds, Some es) \<Rightarrow> Some (ds @ 47 # es) | _ \<Rightarrow> None)"
        if "decode_hex_digit high = Some h" "decode_hex_digit low = Some l" for h l
        using "2.IH"(1) True 3 that by auto
      show ?thesis
        using True 3 IH
        by (cases "decode_hex_digit high"; cases "decode_hex_digit low"; cases "percent_decode rest'";
            cases "percent_decode ys") simp_all
    qed (use True slash in \<open>simp_all split: list.split option.split\<close>)
  qed
qed

lemma percent_decode_join:
  "ss \<noteq> [] \<Longrightarrow> percent_decode (join [47] ss) =
     (if \<exists>s \<in> set ss. percent_decode s = None then None
      else Some (join [47] (map (\<lambda>s. the (percent_decode s)) ss)))"
  by (induction ss) (auto simp: join_Cons percent_decode_append_slash split: option.splits)

lemma length_split_join:
  "ds \<noteq> [] \<Longrightarrow> length (split_char 47 (join [47] ds)) = length ds \<longleftrightarrow> (\<forall>d \<in> set ds. 47 \<notin> set d)"
proof -
  have len: "length (split_char 47 s) = Suc (length (filter (\<lambda>c. c = 47) s))" for s
    by (induction s) (auto split: list.split)
  have "length (filter (\<lambda>c. c = 47) (join [47] ds)) + 1
      = length ds + sum_list (map (\<lambda>d. length (filter (\<lambda>c. c = 47) d)) ds)" if "ds \<noteq> []"
    using that by (induction ds) (auto simp: join_Cons)
  moreover assume "ds \<noteq> []"
  ultimately show ?thesis
    unfolding len by (auto simp: filter_empty_conv sum_list_eq_0_iff)
qed

lemma into_bytes_append: "into_bytes (s @ t) = into_bytes s @ into_bytes t"
  by (simp add: into_bytes_def)

lemma slash_in_into_bytes: "47 \<in> set (into_bytes s) \<longleftrightarrow> 47 \<in> set s"
  by (induction s) (auto simp: into_bytes_def encode_utf8_def)

lemma into_bytes_join: "into_bytes (join [47] ss) = join [47] (map into_bytes ss)"
  by (induction ss) (auto simp: join_Cons into_bytes_append into_bytes_def encode_utf8_def)

text \<open>C34: a path is safe exactly when its escapes decode to a path with as many segments, where
  nothing is left to decode, no backslash can act as a separator and no segment is \<open>.\<close> or
  \<open>..\<close>: what a hook matched is what the server reads.\<close>

theorem safe_for_authorization_iff:
  "is_safe_for_authorization path \<longleftrightarrow>
     (case percent_decode (into_bytes path) of None \<Rightarrow> False
      | Some ds \<Rightarrow> 37 \<notin> set ds \<and> 92 \<notin> set ds \<and> [46] \<notin> set (split_char 47 ds) \<and> [46, 46] \<notin> set (split_char 47 ds)
          \<and> length (split_char 47 ds) = length (split_char 47 path))"
proof -
  define ss where "ss = map into_bytes (split_char 47 path)"
  have ss: "ss \<noteq> []" and path: "into_bytes path = join [47] ss"
    using into_bytes_join [of "split_char 47 path"] by (simp_all add: ss_def join_split_char)
  have no_slash: "47 \<notin> set s" if "s \<in> set ss" for s
    using that split_char_pieces by (auto simp: ss_def slash_in_into_bytes)
  have safe: "is_safe_for_authorization path \<longleftrightarrow>
      (\<forall>s \<in> set ss. \<exists>ds. percent_decode s = Some ds \<and> plain_segment ds)"
    using no_slash by (auto simp: is_safe_for_authorization_def list_all_iff ss_def safe_segment_iff)
  show ?thesis
  proof (cases "\<exists>s \<in> set ss. percent_decode s = None")
    case True
    moreover from this have "\<not> is_safe_for_authorization path" unfolding safe by force
    ultimately show ?thesis unfolding path percent_decode_join [OF ss] by simp
  next
    case False
    define dss where "dss = map (\<lambda>s. the (percent_decode s)) ss"
    have dss: "dss \<noteq> []" "length dss = length (split_char 47 path)" using ss by (simp_all add: dss_def ss_def)
    have "is_safe_for_authorization path \<longleftrightarrow> (\<forall>d \<in> set dss. plain_segment d)"
      using False unfolding safe dss_def by auto (metis option.sel)
    moreover have "set (join [47] dss) \<subseteq> insert 47 (\<Union> (set ` set dss))" "\<Union> (set ` set dss) \<subseteq> set (join [47] dss)"
      by (induction dss) (auto simp: join_Cons split: if_splits)
    then have "c \<in> set (join [47] dss) \<longleftrightarrow> (\<exists>d \<in> set dss. c \<in> set d)" if "c \<noteq> 47" for c
      using that by blast
    moreover have "split_char 47 (join [47] dss) = dss" if "\<forall>d \<in> set dss. 47 \<notin> set d"
      using split_char_join [OF dss(1) that] .
    ultimately show ?thesis
      using False length_split_join [OF dss(1)] dss(2)
      unfolding path percent_decode_join [OF ss] dss_def [symmetric]
      by (auto simp: plain_segment_def)
  qed
qed

end
