(* ===== verification/Mitm_Hook.thy ===== *)
theory Mitm_Hook
  imports Net_Config Authorization_Path
begin

text \<open>
  Hooks on intercepted requests (\<open>network-proxy/src/mitm_hook.rs\<close>): their validation, their
  compilation with the secrets they inject, and the evaluation of a request against them.

  Parameters, gathered in the record \<open>MitmEnv\<close>: the header name and value types of the HTTP
  crate, the globs of the crate \<open>globset\<close> (with its flag \<open>literal_separator\<close>), the parser of the
  crate \<open>form_urlencoded\<close>, and the two resolvers of secrets the code itself takes as arguments.
\<close>

section \<open>Types\<close>

record CompiledGlobMatcher =
  gm_pattern :: rstr
  gm_matcher :: "rstr \<Rightarrow> bool"

datatype PathMatcher = PathPrefix rstr | PathGlob CompiledGlobMatcher
datatype ValueMatcher = ValueExact rstr | ValueGlob CompiledGlobMatcher
datatype MatcherPattern = LiteralPattern rstr | GlobPattern rstr

record QueryConstraint =
  qc_name :: rstr
  qc_allowed_values :: "ValueMatcher list"

record HeaderConstraint =
  hc_name :: rstr
  hc_allowed_values :: "ValueMatcher list"

datatype SecretSource = EnvVar rstr | SecretFile rstr

record ResolvedInjectedHeader =
  rh_name :: rstr
  rh_value :: rstr
  rh_source :: SecretSource

record MitmHookActions =
  strip_request_headers :: "rstr list"
  inject_request_headers :: "ResolvedInjectedHeader list"

record 'json MitmHookMatcher =
  hm_methods :: "rstr list"
  hm_path_prefixes :: "PathMatcher list"
  hm_query :: "QueryConstraint list"
  hm_headers :: "HeaderConstraint list"
  hm_body :: "'json option"

record 'json MitmHook =
  hook_host :: rstr
  hook_matcher :: "'json MitmHookMatcher"
  hook_actions :: MitmHookActions

type_synonym 'json MitmHooksByHost = "rstr \<rightharpoonup> 'json MitmHook list"

datatype HookEvaluation = NoHooksForHost | Matched MitmHookActions | HookedHostNoMatch

text \<open>What the code reads of a request; a header value that is not text has no string.\<close>

record Request =
  rq_method :: rstr
  rq_path :: rstr
  rq_query :: "rstr option"
  rq_headers :: "(rstr \<times> rstr option) list"

record MitmEnv =
  header_name :: "rstr \<Rightarrow> rstr option"
  header_value :: "rstr \<Rightarrow> rstr option"
  glob_with :: "bool \<Rightarrow> rstr \<Rightarrow> (rstr \<Rightarrow> bool) option"
  form_parse :: "rstr \<Rightarrow> (rstr \<times> rstr) list"
  resolve_env_var :: "rstr \<Rightarrow> rstr option"
  read_secret_file :: "rstr \<Rightarrow> rstr option"

datatype MitmError = MitmRequired | EmptyHost | WildcardHost | EmptyMethods | EmptyMethod
  | EmptyPathPrefixes | EmptyPathPrefix | EmptyGlob | InvalidGlob rstr | BodyUnsupported
  | EmptyQueryKey | NoQueryValues rstr | InvalidHeaderName rstr | EmptySecretEnvVar | EmptySecretFile
  | RelativeSecretFile rstr | SecretSourceNotUnique | MissingEnvVar rstr | UnreadableSecretFile rstr
  | InvalidHeaderValue rstr

section \<open>Patterns\<close>

definition LITERAL_PREFIX :: rstr where "LITERAL_PREFIX = lit ''literal:''"
definition PATTERN_PREFIX :: rstr where "PATTERN_PREFIX = lit ''pattern:''"

definition parse_matcher_pattern :: "rstr \<Rightarrow> MitmError + MatcherPattern" where
  "parse_matcher_pattern pattern =
     (case strip_prefix LITERAL_PREFIX pattern of Some l \<Rightarrow> Inr (LiteralPattern l)
      | None \<Rightarrow> (case strip_prefix PATTERN_PREFIX pattern of
          None \<Rightarrow> Inr (LiteralPattern pattern)
        | Some glob_pattern \<Rightarrow> if glob_pattern = [] then Inl EmptyGlob else Inr (GlobPattern glob_pattern)))"

definition compile_glob_matcher :: "MitmEnv \<Rightarrow> rstr \<Rightarrow> bool \<Rightarrow> MitmError + CompiledGlobMatcher" where
  "compile_glob_matcher env pattern literal_separator =
     (case glob_with env literal_separator pattern of
        Some g \<Rightarrow> Inr \<lparr>gm_pattern = pattern, gm_matcher = g\<rparr> | None \<Rightarrow> Inl (InvalidGlob pattern))"

definition compile_path_matcher :: "MitmEnv \<Rightarrow> rstr \<Rightarrow> MitmError + PathMatcher" where
  "compile_path_matcher env prefix =
     bind_result (parse_matcher_pattern prefix) (\<lambda>p. case p of
       LiteralPattern prefix \<Rightarrow> if prefix = [] then Inl EmptyPathPrefix else Inr (PathPrefix prefix)
     | GlobPattern glob_pattern \<Rightarrow>
         bind_result (compile_glob_matcher env glob_pattern True) (\<lambda>g. Inr (PathGlob g)))"

definition compile_path_matchers :: "MitmEnv \<Rightarrow> rstr list \<Rightarrow> MitmError + PathMatcher list" where
  "compile_path_matchers env path_prefixes = collect_results (compile_path_matcher env) path_prefixes"

definition compile_value_matcher :: "MitmEnv \<Rightarrow> rstr \<Rightarrow> MitmError + ValueMatcher" where
  "compile_value_matcher env value =
     bind_result (parse_matcher_pattern value) (\<lambda>p. case p of
       LiteralPattern value \<Rightarrow> Inr (ValueExact value)
     | GlobPattern glob_pattern \<Rightarrow>
         bind_result (compile_glob_matcher env glob_pattern False) (\<lambda>g. Inr (ValueGlob g)))"

definition compile_value_matchers :: "MitmEnv \<Rightarrow> rstr list \<Rightarrow> MitmError + ValueMatcher list" where
  "compile_value_matchers env values = collect_results (compile_value_matcher env) values"

section \<open>Names\<close>

definition to_ascii_uppercase :: "rstr \<Rightarrow> rstr" where
  "to_ascii_uppercase s = map to_ascii_upper s"

definition normalize_hook_host :: "rstr \<Rightarrow> MitmError + rstr" where
  "normalize_hook_host host =
     (let normalized = normalize_host host
      in if normalized = [] then Inl EmptyHost
         else if contains [star] normalized then Inl WildcardHost else Inr normalized)"

definition normalize_method :: "rstr \<Rightarrow> MitmError + rstr" where
  "normalize_method m =
     (let normalized = to_ascii_uppercase (trim m) in if normalized = [] then Inl EmptyMethod else Inr normalized)"

definition normalize_methods :: "rstr list \<Rightarrow> MitmError + rstr list" where
  "normalize_methods methods = collect_results normalize_method methods"

definition normalize_query_name :: "rstr \<Rightarrow> MitmError + rstr" where
  "normalize_query_name name = (if name = [] then Inl EmptyQueryKey else Inr name)"

definition parse_header_name :: "MitmEnv \<Rightarrow> rstr \<Rightarrow> MitmError + rstr" where
  "parse_header_name env name =
     (case header_name env name of Some n \<Rightarrow> Inr n | None \<Rightarrow> Inl (InvalidHeaderName name))"

definition parse_secret_file :: "rstr \<Rightarrow> MitmError + rstr" where
  "parse_secret_file path =
     (if trim path = [] then Inl EmptySecretFile
      else if \<not> starts_with (lit ''/'') path then Inl (RelativeSecretFile path) else Inr path)"

section \<open>Validation\<close>

text \<open>A loop of checks with no result of its own.\<close>

definition check_each :: "('a \<Rightarrow> 'e + 'b) \<Rightarrow> 'a list \<Rightarrow> 'e + unit" where
  "check_each f xs = bind_result (collect_results f xs) (\<lambda>_. Inr ())"

definition ensure_that :: "bool \<Rightarrow> 'e \<Rightarrow> 'e + unit" where
  "ensure_that b e = (if b then Inr () else Inl e)"

definition validate_query_constraints :: "MitmEnv \<Rightarrow> (rstr \<times> rstr list) list \<Rightarrow> MitmError + unit" where
  "validate_query_constraints env query =
     check_each (\<lambda>(name, values).
       bind_result (normalize_query_name name) (\<lambda>normalized.
       bind_result (ensure_that (normalized \<noteq> []) EmptyQueryKey) (\<lambda>_.
       bind_result (ensure_that (values \<noteq> []) (NoQueryValues name)) (\<lambda>_.
       compile_value_matchers env values)))) query"

definition validate_header_constraints :: "MitmEnv \<Rightarrow> (rstr \<times> rstr list) list \<Rightarrow> MitmError + unit" where
  "validate_header_constraints env headers =
     check_each (\<lambda>(name, values).
       bind_result (parse_header_name env name) (\<lambda>_. compile_value_matchers env values)) headers"

definition validate_strip_request_headers :: "MitmEnv \<Rightarrow> rstr list \<Rightarrow> MitmError + unit" where
  "validate_strip_request_headers env header_names = check_each (parse_header_name env) header_names"

definition validate_injected_header :: "MitmEnv \<Rightarrow> InjectedHeaderConfig \<Rightarrow> MitmError + unit" where
  "validate_injected_header env header =
     bind_result (parse_header_name env (ih_name header)) (\<lambda>_.
       case (secret_env_var header, secret_file header) of
         (Some env_var, None) \<Rightarrow> ensure_that (trim env_var \<noteq> []) EmptySecretEnvVar
       | (None, Some path) \<Rightarrow> bind_result (parse_secret_file path) (\<lambda>_. Inr ())
       | _ \<Rightarrow> Inl SecretSourceNotUnique)"

definition validate_injected_headers :: "MitmEnv \<Rightarrow> InjectedHeaderConfig list \<Rightarrow> MitmError + unit" where
  "validate_injected_headers env headers = check_each (validate_injected_header env) headers"

definition validate_hook :: "MitmEnv \<Rightarrow> 'json MitmHookConfig \<Rightarrow> MitmError + unit" where
  "validate_hook env hook =
     (let mtch = mh_matcher hook; actions = mh_actions hook in
      bind_result (normalize_hook_host (mh_host hook)) (\<lambda>host.
      bind_result (normalize_methods (mh_methods mtch)) (\<lambda>methods.
      bind_result (ensure_that (methods \<noteq> []) EmptyMethods) (\<lambda>_.
      bind_result (compile_path_matchers env (mh_path_prefixes mtch)) (\<lambda>path_prefixes.
      bind_result (ensure_that (path_prefixes \<noteq> []) EmptyPathPrefixes) (\<lambda>_.
      bind_result (ensure_that (mh_body mtch = None) BodyUnsupported) (\<lambda>_.
      bind_result (validate_query_constraints env (mh_query mtch)) (\<lambda>_.
      bind_result (validate_header_constraints env (mh_headers mtch)) (\<lambda>_.
      bind_result (validate_strip_request_headers env (mh_strip_request_headers actions)) (\<lambda>_.
      bind_result (validate_injected_headers env (mh_inject_request_headers actions)) (\<lambda>_.
      ensure_that (host \<noteq> []) EmptyHost)))))))))))"

definition validate_mitm_hook_config :: "MitmEnv \<Rightarrow> 'json NetworkProxyConfig \<Rightarrow> MitmError + unit" where
  "validate_mitm_hook_config env cfg =
     (if mitm_hooks cfg = [] then Inr ()
      else if \<not> mitm cfg then Inl MitmRequired
      else check_each (validate_hook env) (mitm_hooks cfg))"

section \<open>Compilation\<close>

definition compile_injected_header ::
  "MitmEnv \<Rightarrow> InjectedHeaderConfig \<Rightarrow> MitmError + ResolvedInjectedHeader" where
  "compile_injected_header env header =
     bind_result (parse_header_name env (ih_name header)) (\<lambda>name.
     bind_result
       (case (secret_env_var header, secret_file header) of
          (Some env_var, None) \<Rightarrow>
            (case resolve_env_var env env_var of
               Some value \<Rightarrow> Inr (value, EnvVar env_var) | None \<Rightarrow> Inl (MissingEnvVar env_var))
        | (None, Some path) \<Rightarrow>
            bind_result (parse_secret_file path) (\<lambda>path.
              case read_secret_file env path of
                Some value \<Rightarrow> Inr (value, SecretFile path) | None \<Rightarrow> Inl (UnreadableSecretFile path))
        | _ \<Rightarrow> Inl SecretSourceNotUnique) (\<lambda>(secret, source).
       case header_value env ((case ih_prefix header of Some p \<Rightarrow> p | None \<Rightarrow> []) @ secret) of
         Some value \<Rightarrow> Inr \<lparr>rh_name = name, rh_value = value, rh_source = source\<rparr>
       | None \<Rightarrow> Inl (InvalidHeaderValue (ih_name header))))"

definition compile_hook :: "MitmEnv \<Rightarrow> 'json MitmHookConfig \<Rightarrow> MitmError + 'json MitmHook" where
  "compile_hook env hook =
     (let mtch = mh_matcher hook; actions = mh_actions hook in
      bind_result (normalize_hook_host (mh_host hook)) (\<lambda>host.
      bind_result (normalize_methods (mh_methods mtch)) (\<lambda>methods.
      bind_result (compile_path_matchers env (mh_path_prefixes mtch)) (\<lambda>path_prefixes.
      bind_result (collect_results (\<lambda>(name, values).
          bind_result (normalize_query_name name) (\<lambda>name.
          bind_result (compile_value_matchers env values) (\<lambda>values.
            Inr \<lparr>qc_name = name, qc_allowed_values = values\<rparr>))) (mh_query mtch)) (\<lambda>query.
      bind_result (collect_results (\<lambda>(name, values).
          bind_result (parse_header_name env name) (\<lambda>name.
          bind_result (compile_value_matchers env values) (\<lambda>values.
            Inr \<lparr>hc_name = name, hc_allowed_values = values\<rparr>))) (mh_headers mtch)) (\<lambda>headers.
      bind_result (collect_results (parse_header_name env) (mh_strip_request_headers actions)) (\<lambda>strip.
      bind_result (collect_results (compile_injected_header env) (mh_inject_request_headers actions)) (\<lambda>inject.
        Inr \<lparr>hook_host = host,
             hook_matcher = \<lparr>hm_methods = methods, hm_path_prefixes = path_prefixes, hm_query = query, hm_headers = headers, hm_body = None\<rparr>,
             hook_actions = \<lparr>strip_request_headers = strip, inject_request_headers = inject\<rparr>\<rparr>))))))))"

text \<open>\<open>entry(host).or_default().push(hook)\<close>.\<close>

definition push_hook :: "'json MitmHook \<Rightarrow> 'json MitmHooksByHost \<Rightarrow> 'json MitmHooksByHost" where
  "push_hook hook hooks_by_host =
     hooks_by_host(hook_host hook \<mapsto> unwrap_or_default (hooks_by_host (hook_host hook)) @ [hook])"

fun compile_hooks_loop ::
  "MitmEnv \<Rightarrow> 'json MitmHookConfig list \<Rightarrow> 'json MitmHooksByHost \<Rightarrow> MitmError + 'json MitmHooksByHost" where
  "compile_hooks_loop env [] hooks_by_host = Inr hooks_by_host"
| "compile_hooks_loop env (hook # hooks) hooks_by_host =
     bind_result (compile_hook env hook) (\<lambda>h. compile_hooks_loop env hooks (push_hook h hooks_by_host))"

definition compile_mitm_hooks :: "MitmEnv \<Rightarrow> 'json NetworkProxyConfig \<Rightarrow> MitmError + 'json MitmHooksByHost" where
  "compile_mitm_hooks env cfg =
     bind_result (validate_mitm_hook_config env cfg) (\<lambda>_. compile_hooks_loop env (mitm_hooks cfg) Map.empty)"

section \<open>Evaluation\<close>

fun path_matcher_matches :: "PathMatcher \<Rightarrow> rstr \<Rightarrow> bool" where
  "path_matcher_matches (PathPrefix prefix) candidate = starts_with prefix candidate"
| "path_matcher_matches (PathGlob g) candidate = gm_matcher g candidate"

fun value_matcher_matches :: "ValueMatcher \<Rightarrow> rstr \<Rightarrow> bool" where
  "value_matcher_matches (ValueExact value) candidate = (value = candidate)"
| "value_matcher_matches (ValueGlob g) candidate = gm_matcher g candidate"

definition path_matches :: "PathMatcher list \<Rightarrow> rstr \<Rightarrow> bool" where
  "path_matches path_prefixes path = list_ex (\<lambda>m. path_matcher_matches m path) path_prefixes"

definition query_matches :: "MitmEnv \<Rightarrow> QueryConstraint list \<Rightarrow> Request \<Rightarrow> bool" where
  "query_matches env query_constraints req =
     (if query_constraints = [] then True
      else let actual = form_parse env (unwrap_or_default (rq_query req))
           in list_all (\<lambda>constraint.
                list_ex (\<lambda>(name, candidate). name = qc_name constraint
                    \<and> list_ex (\<lambda>allowed. value_matcher_matches allowed candidate) (qc_allowed_values constraint))
                  actual) query_constraints)"

definition headers_match :: "HeaderConstraint list \<Rightarrow> Request \<Rightarrow> bool" where
  "headers_match header_constraints req =
     list_all (\<lambda>constraint.
       let actual = map snd (filter (\<lambda>(name, _). name = hc_name constraint) (rq_headers req))
       in if actual = [] then False
          else if hc_allowed_values constraint = [] then True
          else list_ex (\<lambda>value. opt_is_some_and
                 (\<lambda>candidate. list_ex (\<lambda>allowed. value_matcher_matches allowed candidate) (hc_allowed_values constraint))
                 value) actual) header_constraints"

definition hook_matches :: "MitmEnv \<Rightarrow> 'json MitmHook \<Rightarrow> Request \<Rightarrow> bool" where
  "hook_matches env hook req =
     (if \<not> list_ex (\<lambda>allowed. allowed = to_ascii_uppercase (rq_method req)) (hm_methods (hook_matcher hook)) then False
      else if \<not> is_safe_for_authorization (rq_path req)
              \<or> \<not> path_matches (hm_path_prefixes (hook_matcher hook)) (rq_path req) then False
      else if \<not> query_matches env (hm_query (hook_matcher hook)) req then False
      else headers_match (hm_headers (hook_matcher hook)) req)"

fun first_matching_hook :: "MitmEnv \<Rightarrow> 'json MitmHook list \<Rightarrow> Request \<Rightarrow> HookEvaluation" where
  "first_matching_hook env [] req = HookedHostNoMatch"
| "first_matching_hook env (hook # hooks) req =
     (if hook_matches env hook req then Matched (hook_actions hook) else first_matching_hook env hooks req)"

definition evaluate_mitm_hooks :: "MitmEnv \<Rightarrow> 'json MitmHooksByHost \<Rightarrow> rstr \<Rightarrow> Request \<Rightarrow> HookEvaluation" where
  "evaluate_mitm_hooks env hooks_by_host host req =
     (case hooks_by_host (normalize_host host) of None \<Rightarrow> NoHooksForHost
      | Some hooks \<Rightarrow> first_matching_hook env hooks req)"

section \<open>Properties\<close>

lemma push_hooks_lookup:
  "fold push_hook cs m host =
     (let hs = unwrap_or_default (m host) @ filter (\<lambda>c. hook_host c = host) cs
      in if m host = None \<and> filter (\<lambda>c. hook_host c = host) cs = [] then None else Some hs)"
proof (induction cs arbitrary: m)
  case Nil
  then show ?case by (cases "m host") (simp_all add: unwrap_or_default_def)
next
  case (Cons c cs)
  then show ?case
    by (cases "m host") (auto simp: push_hook_def unwrap_or_default_def Let_def)
qed

lemma compile_hooks_loop_Inr:
  "compile_hooks_loop env hooks m = Inr m' \<longleftrightarrow>
     (\<exists>cs. list_all2 (\<lambda>h c. compile_hook env h = Inr c) hooks cs \<and> m' = fold push_hook cs m)"
proof (induction hooks arbitrary: m)
  case Nil
  then show ?case by auto
next
  case (Cons h hooks)
  have "(\<exists>cs. (\<exists>c zs. cs = c # zs \<and> P c \<and> Q zs) \<and> m' = fold push_hook cs m)
      \<longleftrightarrow> (\<exists>c zs. P c \<and> Q zs \<and> m' = fold push_hook (c # zs) m)" for P Q by blast
  then show ?case by (simp add: bind_result_Inr Cons.IH list_all2_Cons1)
qed

lemma first_matching_hook_find:
  "first_matching_hook env hooks req =
     (case find (\<lambda>c. hook_matches env c req) hooks of
        Some c \<Rightarrow> Matched (hook_actions c) | None \<Rightarrow> HookedHostNoMatch)"
  by (induction hooks) auto

lemma normalize_hook_host_Inr: "normalize_hook_host host = Inr h \<Longrightarrow> h = normalize_host host"
  by (auto simp: normalize_hook_host_def Let_def split: if_splits)

lemma normalize_methods_Inr:
  "normalize_methods ms = Inr ns \<Longrightarrow> ns = map (\<lambda>m. to_ascii_uppercase (trim m)) ms"
proof -
  have "normalize_method m = Inr n \<Longrightarrow> n = to_ascii_uppercase (trim m)" for m n
    by (auto simp: normalize_method_def Let_def split: if_splits)
  then have "list_all2 (\<lambda>m n. normalize_method m = Inr n) ms ns \<Longrightarrow> ns = map (\<lambda>m. to_ascii_uppercase (trim m)) ms"
    by (induction ms arbitrary: ns) (auto simp: list_all2_Cons1)
  then show "normalize_methods ms = Inr ns \<Longrightarrow> ns = map (\<lambda>m. to_ascii_uppercase (trim m)) ms"
    by (simp add: normalize_methods_def collect_results_Inr)
qed

lemma compile_hook_Inr:
  "compile_hook env h = Inr c \<Longrightarrow>
     hook_host c = normalize_host (mh_host h)
     \<and> hm_methods (hook_matcher c) = map (\<lambda>m. to_ascii_uppercase (trim m)) (mh_methods (mh_matcher h))"
  by (auto simp: compile_hook_def Let_def bind_result_Inr dest: normalize_hook_host_Inr normalize_methods_Inr)

text \<open>Evaluating a request against the compiled hooks finds, among the configured hooks of
  the normalized host and in their order, the first that matches; each compiled hook has the
  normalized host and methods of its configuration.\<close>

theorem mitm_evaluation_spec:
  assumes "compile_mitm_hooks env cfg = Inr hooks"
  shows "\<exists>cs. list_all2 (\<lambda>h c. compile_hook env h = Inr c \<and> hook_host c = normalize_host (mh_host h)
             \<and> hm_methods (hook_matcher c) = map (\<lambda>m. to_ascii_uppercase (trim m)) (mh_methods (mh_matcher h)))
           (mitm_hooks cfg) cs
     \<and> (\<forall>host req. evaluate_mitm_hooks env hooks host req =
          (let hs = filter (\<lambda>c. hook_host c = normalize_host host) cs
           in if hs = [] then NoHooksForHost
              else case find (\<lambda>c. hook_matches env c req) hs of
                     Some c \<Rightarrow> Matched (hook_actions c) | None \<Rightarrow> HookedHostNoMatch))"
proof -
  from assms obtain cs where cs: "list_all2 (\<lambda>h c. compile_hook env h = Inr c) (mitm_hooks cfg) cs"
    and hooks: "hooks = fold push_hook cs Map.empty"
    by (auto simp: compile_mitm_hooks_def bind_result_Inr compile_hooks_loop_Inr)
  have "list_all2 (\<lambda>h c. compile_hook env h = Inr c \<and> hook_host c = normalize_host (mh_host h)
             \<and> hm_methods (hook_matcher c) = map (\<lambda>m. to_ascii_uppercase (trim m)) (mh_methods (mh_matcher h)))
           (mitm_hooks cfg) cs"
    using cs by (rule list_all2_mono) (use compile_hook_Inr in blast)
  moreover have "evaluate_mitm_hooks env hooks host req =
          (let hs = filter (\<lambda>c. hook_host c = normalize_host host) cs
           in if hs = [] then NoHooksForHost
              else case find (\<lambda>c. hook_matches env c req) hs of
                     Some c \<Rightarrow> Matched (hook_actions c) | None \<Rightarrow> HookedHostNoMatch)" for host req
    by (simp add: evaluate_mitm_hooks_def hooks push_hooks_lookup first_matching_hook_find unwrap_or_default_def)
  ultimately show ?thesis by blast
qed

definition sample_mitm_env :: MitmEnv where
  "sample_mitm_env =
     \<lparr>header_name = (\<lambda>n. Some (to_ascii_lowercase n)), header_value = Some, glob_with = (\<lambda>_ _. None),
      form_parse = (\<lambda>_. []), resolve_env_var = (\<lambda>v. if v = lit ''TOKEN'' then Some (lit ''t0'') else None),
      read_secret_file = (\<lambda>_. None)\<rparr>"

definition sample_hook :: "unit MitmHookConfig" where
  "sample_hook =
     \<lparr>mh_host = lit ''API.example.com'',
      mh_matcher = \<lparr>mh_methods = [lit ''get''], mh_path_prefixes = [lit ''/repos/''], mh_query = [],
                    mh_headers = [], mh_body = None\<rparr>,
      mh_actions = \<lparr>mh_strip_request_headers = [lit ''Authorization''],
                    mh_inject_request_headers =
                      [\<lparr>ih_name = lit ''Authorization'', secret_env_var = Some (lit ''TOKEN''), secret_file = None,
                        ih_prefix = Some (lit ''Bearer '')\<rparr>]\<rparr>\<rparr>"

definition sample_mitm_config :: "unit NetworkProxyConfig" where
  "sample_mitm_config = default_network_proxy_config\<lparr>mitm := True, mitm_hooks := [sample_hook]\<rparr>"

theorem mitm_evaluation_spec_witness:
  "\<exists>hooks. compile_mitm_hooks sample_mitm_env sample_mitm_config = Inr hooks
     \<and> (\<forall>req. evaluate_mitm_hooks sample_mitm_env hooks (lit ''elsewhere.org'') req = NoHooksForHost)
     \<and> (\<forall>req. evaluate_mitm_hooks sample_mitm_env hooks (lit ''Api.Example.Com'') req \<noteq> NoHooksForHost)"
proof -
  have "is_ok (compile_mitm_hooks sample_mitm_env sample_mitm_config)" by code_simp
  then obtain hooks where hooks: "compile_mitm_hooks sample_mitm_env sample_mitm_config = Inr hooks"
    by (cases "compile_mitm_hooks sample_mitm_env sample_mitm_config") simp_all
  have hosts: "normalize_host (mh_host sample_hook) = lit ''api.example.com''"
    "normalize_host (lit ''elsewhere.org'') \<noteq> lit ''api.example.com''"
    "normalize_host (lit ''Api.Example.Com'') = lit ''api.example.com''" by code_simp+
  have one: "mitm_hooks sample_mitm_config = [sample_hook]" by (simp add: sample_mitm_config_def)
  from mitm_evaluation_spec [OF hooks] obtain cs
    where all: "list_all2 (\<lambda>h c. compile_hook sample_mitm_env h = Inr c \<and> hook_host c = normalize_host (mh_host h)
             \<and> hm_methods (hook_matcher c) = map (\<lambda>m. to_ascii_uppercase (trim m)) (mh_methods (mh_matcher h)))
           [sample_hook] cs"
      and eval: "\<forall>host req. evaluate_mitm_hooks sample_mitm_env hooks host req =
          (let hs = filter (\<lambda>c. hook_host c = normalize_host host) cs
           in if hs = [] then NoHooksForHost
              else case find (\<lambda>c. hook_matches sample_mitm_env c req) hs of
                     Some c \<Rightarrow> Matched (hook_actions c) | None \<Rightarrow> HookedHostNoMatch)"
    unfolding one by (elim exE conjE)
  from all obtain c where cs: "cs = [c]" and c: "hook_host c = lit ''api.example.com''"
    unfolding list_all2_Cons1 list_all2_Nil hosts(1) by (elim exE conjE) simp
  note eval = eval [unfolded cs, rule_format]
  have "evaluate_mitm_hooks sample_mitm_env hooks (lit ''elsewhere.org'') req = NoHooksForHost" for req
    using hosts(2) by (simp add: eval c)
  moreover have "evaluate_mitm_hooks sample_mitm_env hooks (lit ''Api.Example.Com'') req \<noteq> NoHooksForHost" for req
    by (simp add: eval c hosts(3) split: option.split)
  ultimately show ?thesis using hooks by blast
qed

text \<open>A valid configuration compiles unless a secret cannot be read or is no header value.\<close>

lemma is_ok_bind [simp]: "is_ok (bind_result r f) \<longleftrightarrow> (\<exists>x. r = Inr x \<and> is_ok (f x))"
  by (cases r) auto

lemma is_ok_collect: "is_ok (collect_results f xs) \<longleftrightarrow> (\<forall>x \<in> set xs. is_ok (f x))"
  by (induction xs) (auto simp: is_ok_def split: sum.splits)

lemma is_ok_check_each: "is_ok (check_each f xs) \<longleftrightarrow> (\<forall>x \<in> set xs. is_ok (f x))"
  using is_ok_collect [of f xs] by (auto simp: check_each_def is_ok_def split: sum.splits)

lemma is_ok_iff: "is_ok r \<longleftrightarrow> (\<exists>x. r = Inr x)"
  by (cases r) auto

lemma is_ok_then_Inr [simp]: "is_ok (case p of (a, b) \<Rightarrow> f a b) \<longleftrightarrow> is_ok (f (fst p) (snd p))"
  by (cases p) simp

lemma validate_query_compiles:
  assumes "is_ok (validate_query_constraints env query)"
  shows "is_ok (collect_results (\<lambda>(name, values).
          bind_result (normalize_query_name name) (\<lambda>name.
          bind_result (compile_value_matchers env values) (\<lambda>values.
            Inr \<lparr>qc_name = name, qc_allowed_values = values\<rparr>))) query)"
  using assms unfolding validate_query_constraints_def is_ok_check_each is_ok_collect
  by (fastforce simp: is_ok_iff bind_result_Inr)

lemma validate_headers_compile:
  assumes "is_ok (validate_header_constraints env headers)"
  shows "is_ok (collect_results (\<lambda>(name, values).
          bind_result (parse_header_name env name) (\<lambda>name.
          bind_result (compile_value_matchers env values) (\<lambda>values.
            Inr \<lparr>hc_name = name, hc_allowed_values = values\<rparr>))) headers)"
  using assms unfolding validate_header_constraints_def is_ok_check_each is_ok_collect
  by (fastforce simp: is_ok_iff bind_result_Inr)

lemma validated_hook_compiles:
  assumes "is_ok (validate_hook env h)"
  shows "is_ok (compile_hook env h) \<longleftrightarrow>
    list_all (\<lambda>i. is_ok (compile_injected_header env i)) (mh_inject_request_headers (mh_actions h))"
proof -
  have strip: "is_ok (validate_strip_request_headers env ns) \<longleftrightarrow> is_ok (collect_results (parse_header_name env) ns)" for ns
    by (simp add: validate_strip_request_headers_def is_ok_check_each is_ok_collect)
  have inject: "is_ok (collect_results (compile_injected_header env) hs) \<longleftrightarrow>
      list_all (\<lambda>i. is_ok (compile_injected_header env i)) hs" for hs
    by (simp add: is_ok_collect list_all_iff)
  have parts: "is_ok (normalize_hook_host (mh_host h))" "is_ok (normalize_methods (mh_methods (mh_matcher h)))"
    "is_ok (compile_path_matchers env (mh_path_prefixes (mh_matcher h)))"
    "is_ok (validate_query_constraints env (mh_query (mh_matcher h)))"
    "is_ok (validate_header_constraints env (mh_headers (mh_matcher h)))"
    "is_ok (validate_strip_request_headers env (mh_strip_request_headers (mh_actions h)))"
    using assms by (auto simp: validate_hook_def Let_def is_ok_iff bind_result_Inr)
  then show ?thesis
    using validate_query_compiles [OF parts(4)] validate_headers_compile [OF parts(5)]
    unfolding compile_hook_def Let_def strip inject [symmetric]
    by (auto simp: is_ok_iff bind_result_Inr)
qed

text \<open>Compiling the hooks of a configuration succeeds exactly when the configuration is valid
  and every secret it injects can be read and makes a header value.\<close>

theorem compile_mitm_hooks_ok_iff:
  "is_ok (compile_mitm_hooks env cfg) \<longleftrightarrow>
     is_ok (validate_mitm_hook_config env cfg)
     \<and> list_all (\<lambda>h. list_all (\<lambda>i. is_ok (compile_injected_header env i))
                       (mh_inject_request_headers (mh_actions h))) (mitm_hooks cfg)"
proof -
  have loop: "is_ok (compile_hooks_loop env hooks m) \<longleftrightarrow> list_all (\<lambda>h. is_ok (compile_hook env h)) hooks" for hooks m
    by (induction hooks arbitrary: m) (auto simp: is_ok_iff [of "compile_hook env _"])
  have "list_all (\<lambda>h. is_ok (validate_hook env h)) (mitm_hooks cfg)" if "is_ok (validate_mitm_hook_config env cfg)"
    using that by (auto simp: validate_mitm_hook_config_def is_ok_check_each list_all_iff split: if_splits)
  then show ?thesis
    by (auto simp: compile_mitm_hooks_def loop list_all_iff validated_hook_compiles is_ok_iff [of "validate_mitm_hook_config env cfg"])
qed

end
