(* ===== verification/Net_Constraints.thy ===== *)
theory Net_Constraints
  imports Mitm_Hook
begin

text \<open>
  Managed constraints on the network proxy (\<open>network-proxy/src/state.rs\<close>): how the state of the
  proxy is built from a configuration, and the check that a configuration stays within what the
  administrator allows.

  A \<open>HashSet\<close> is a set. The text of an error (the rejected value and what is allowed) is left
  out: an error is the field it is about. The record \<open>NetEnv\<close> holds the parameters: those of the
  hooks, the domain globs of \<open>globset\<close>, the host parser of \<open>url\<close>, and the certificate set-up of
  \<open>MitmState::new\<close>.
\<close>

section \<open>Types\<close>

record 'm NetEnv =
  mitm_env :: MitmEnv
  domain_glob :: "rstr \<Rightarrow> (rstr \<Rightarrow> bool) option"
  url_host :: "rstr \<Rightarrow> rstr option"
  mitm_state_new :: "bool \<Rightarrow> 'm option"

record NetworkProxyConstraints =
  cn_enabled :: "bool option"
  cn_mode :: "NetworkMode option"
  cn_allow_upstream_proxy :: "bool option"
  cn_dangerously_allow_non_loopback_proxy :: "bool option"
  cn_dangerously_allow_all_unix_sockets :: "bool option"
  cn_allowed_domains :: "rstr list option"
  cn_allowlist_expansion_enabled :: "bool option"
  cn_denied_domains :: "rstr list option"
  cn_denylist_expansion_enabled :: "bool option"
  cn_allow_unix_sockets :: "rstr list option"
  cn_allow_local_binding :: "bool option"

definition default_constraints :: NetworkProxyConstraints where
  "default_constraints =
     \<lparr>cn_enabled = None, cn_mode = None, cn_allow_upstream_proxy = None,
      cn_dangerously_allow_non_loopback_proxy = None, cn_dangerously_allow_all_unix_sockets = None,
      cn_allowed_domains = None, cn_allowlist_expansion_enabled = None, cn_denied_domains = None,
      cn_denylist_expansion_enabled = None, cn_allow_unix_sockets = None, cn_allow_local_binding = None\<rparr>"

datatype NetworkField = FieldMitmHooks | FieldDeniedDomains | FieldEnabled | FieldMode | FieldUpstreamProxy
  | FieldNonLoopback | FieldAllUnixSockets | FieldLocalBinding | FieldAllowedDomains | FieldUnixSockets

datatype NetworkProxyConstraintError = InvalidValue NetworkField

record BlockedRequest =
  bl_host :: rstr
  bl_reason :: rstr
  bl_client :: "rstr option"
  bl_method :: "rstr option"
  bl_mode :: "NetworkMode option"
  bl_protocol :: rstr
  bl_execution_id :: "rstr option"
  bl_decision :: "rstr option"
  bl_source :: "rstr option"
  bl_port :: "16 word option"
  bl_timestamp :: int

record ('json, 'm) ConfigState =
  cs_config :: "'json NetworkProxyConfig"
  brokerage_created_default_allowlist :: bool
  allow_set :: GlobSet
  deny_set :: GlobSet
  cs_mitm :: "'m option"
  cs_mitm_hooks :: "'json MitmHooksByHost"
  cs_constraints :: NetworkProxyConstraints
  blocked :: "BlockedRequest list"
  blocked_total :: nat

section \<open>The check\<close>

definition validate_non_global_wildcard_domain_patterns ::
  "NetworkField \<Rightarrow> rstr list \<Rightarrow> NetworkProxyConstraintError + unit" where
  "validate_non_global_wildcard_domain_patterns field patterns =
     (if list_ex is_global_wildcard_domain_pattern patterns then Inl (InvalidValue field) else Inr ())"

fun network_mode_rank :: "NetworkMode \<Rightarrow> nat" where
  "network_mode_rank Limited = 0"
| "network_mode_rank FullAccess = 1"

text \<open>A closure of \<open>validate\<close>: reject the field unless the condition holds.\<close>

definition require :: "NetworkField \<Rightarrow> bool \<Rightarrow> NetworkProxyConstraintError + unit" where
  "require field b = (if b then Inr () else Inl (InvalidValue field))"

definition lower_set :: "rstr list \<Rightarrow> rstr set" where
  "lower_set entries = set (map to_ascii_lowercase entries)"

definition check_allowed_domains ::
  "'m NetEnv \<Rightarrow> 'json NetworkProxyConfig \<Rightarrow> NetworkProxyConstraints \<Rightarrow> NetworkProxyConstraintError + unit" where
  "check_allowed_domains env cfg constraints =
     (let config_allowed_domains = unwrap_or_default (allowed_domains cfg);
          denied_domain_overrides = lower_set (unwrap_or_default (denied_domains cfg))
      in case cn_allowed_domains constraints of
           None \<Rightarrow> Inr ()
         | Some managed \<Rightarrow>
             bind_result (validate_non_global_wildcard_domain_patterns FieldAllowedDomains managed) (\<lambda>_.
               case cn_allowlist_expansion_enabled constraints of
                 Some True \<Rightarrow>
                   let missing = {entry \<in> lower_set managed. entry \<notin> lower_set config_allowed_domains
                                    \<and> entry \<notin> denied_domain_overrides}
                   in require FieldAllowedDomains (missing = {})
               | Some False \<Rightarrow>
                   require FieldAllowedDomains
                     (lower_set config_allowed_domains = lower_set managed - denied_domain_overrides)
               | None \<Rightarrow>
                   let managed_patterns = map (parse_for_constraints (url_host env)) managed;
                       invalid = filter (\<lambda>entry. \<not> list_ex (\<lambda>mp. allows mp (parse_for_constraints (url_host env) entry))
                                           managed_patterns) config_allowed_domains
                   in require FieldAllowedDomains (invalid = [])))"

definition check_denied_domains ::
  "'json NetworkProxyConfig \<Rightarrow> NetworkProxyConstraints \<Rightarrow> NetworkProxyConstraintError + unit" where
  "check_denied_domains cfg constraints =
     (let candidate_set = lower_set (unwrap_or_default (denied_domains cfg))
      in case cn_denied_domains constraints of
           None \<Rightarrow> Inr ()
         | Some managed \<Rightarrow>
             bind_result (validate_non_global_wildcard_domain_patterns FieldDeniedDomains managed) (\<lambda>_.
               case cn_denylist_expansion_enabled constraints of
                 Some False \<Rightarrow> require FieldDeniedDomains (candidate_set = lower_set managed)
               | _ \<Rightarrow> let missing = {entry \<in> lower_set managed. entry \<notin> candidate_set}
                     in require FieldDeniedDomains (missing = {})))"

definition check_unix_sockets ::
  "'json NetworkProxyConfig \<Rightarrow> NetworkProxyConstraints \<Rightarrow> NetworkProxyConstraintError + unit" where
  "check_unix_sockets cfg constraints =
     (case cn_allow_unix_sockets constraints of
        None \<Rightarrow> Inr ()
      | Some managed \<Rightarrow>
          let invalid = filter (\<lambda>entry. to_ascii_lowercase entry \<notin> lower_set managed) (allow_unix_sockets cfg)
          in require FieldUnixSockets (invalid = []))"

definition validate_policy_against_constraints ::
  "'m NetEnv \<Rightarrow> 'json NetworkProxyConfig \<Rightarrow> NetworkProxyConstraints \<Rightarrow> NetworkProxyConstraintError + unit" where
  "validate_policy_against_constraints env cfg constraints =
     bind_result (if is_ok (validate_mitm_hook_config (mitm_env env) cfg) then Inr ()
                  else Inl (InvalidValue FieldMitmHooks)) (\<lambda>_.
     bind_result (validate_non_global_wildcard_domain_patterns FieldDeniedDomains
                    (unwrap_or_default (denied_domains cfg))) (\<lambda>_.
     bind_result (case cn_enabled constraints of None \<Rightarrow> Inr ()
                  | Some max_enabled \<Rightarrow> require FieldEnabled (\<not> (nc_enabled cfg \<and> \<not> max_enabled))) (\<lambda>_.
     bind_result (case cn_mode constraints of None \<Rightarrow> Inr ()
                  | Some max_mode \<Rightarrow> require FieldMode
                      (\<not> network_mode_rank (nc_mode cfg) > network_mode_rank max_mode)) (\<lambda>_.
     bind_result (case cn_allow_upstream_proxy constraints of
                    Some False \<Rightarrow> require FieldUpstreamProxy (\<not> nc_allow_upstream_proxy cfg)
                  | _ \<Rightarrow> Inr ()) (\<lambda>_.
     bind_result (case cn_dangerously_allow_non_loopback_proxy constraints of
                    Some False \<Rightarrow> require FieldNonLoopback (\<not> dangerously_allow_non_loopback_proxy cfg)
                  | _ \<Rightarrow> Inr ()) (\<lambda>_.
     bind_result (let allow_all = (case cn_dangerously_allow_all_unix_sockets constraints of
                        Some b \<Rightarrow> b | None \<Rightarrow> cn_allow_unix_sockets constraints = None)
                  in require FieldAllUnixSockets (\<not> (dangerously_allow_all_unix_sockets cfg \<and> \<not> allow_all))) (\<lambda>_.
     bind_result (case cn_allow_local_binding constraints of None \<Rightarrow> Inr ()
                  | Some b \<Rightarrow> require FieldLocalBinding (\<not> (nc_allow_local_binding cfg \<and> \<not> b))) (\<lambda>_.
     bind_result (check_allowed_domains env cfg constraints) (\<lambda>_.
     bind_result (check_denied_domains cfg constraints) (\<lambda>_.
       check_unix_sockets cfg constraints))))))))))"

section \<open>Building the state\<close>

datatype BuildError = BuildUnixSocket | BuildBrokerNeedsMitm | BuildConstraint NetworkProxyConstraintError
  | BuildGlob GlobError | BuildMitm MitmError | BuildMitmState

definition lift_error :: "('e \<Rightarrow> 'f) \<Rightarrow> 'e + 'a \<Rightarrow> 'f + 'a" where
  "lift_error f r = (case r of Inl e \<Rightarrow> Inl (f e) | Inr x \<Rightarrow> Inr x)"

text \<open>The part of \<open>build_config_state\<close> that adjusts the configuration to the credential broker.\<close>

definition broker_config ::
  "'json NetworkProxyConfig \<Rightarrow> NetworkProxyConstraints \<Rightarrow> 'json NetworkProxyConfig \<times> bool" where
  "broker_config cfg constraints =
     (let cfg = (if cn_enabled constraints = Some False then cfg\<lparr>credential_broker := False\<rparr> else cfg);
          created_proxy = credential_broker cfg \<and> \<not> nc_enabled cfg;
          created_default_allowlist = created_proxy \<and> allowed_domains cfg = None \<and> cn_allowed_domains constraints = None;
          cfg = (if created_proxy then cfg\<lparr>nc_enabled := True\<rparr> else cfg);
          cfg = (if created_default_allowlist then set_allowed_domains [[star]] cfg else cfg)
      in (cfg, created_default_allowlist))"

definition build_config_state ::
  "'m NetEnv \<Rightarrow> 'json NetworkProxyConfig \<Rightarrow> NetworkProxyConstraints \<Rightarrow> BuildError + ('json, 'm) ConfigState" where
  "build_config_state env cfg constraints =
     (let (cfg, created_default_allowlist) = broker_config cfg constraints in
      bind_result (if validate_unix_socket_allowlist_paths cfg then Inr () else Inl BuildUnixSocket) (\<lambda>_.
      bind_result (if \<not> credential_broker cfg \<or> mitm cfg then Inr () else Inl BuildBrokerNeedsMitm) (\<lambda>_.
      let allowed = unwrap_or_default (allowed_domains cfg);
          denied = unwrap_or_default (denied_domains cfg) in
      bind_result (lift_error BuildConstraint
                     (validate_non_global_wildcard_domain_patterns FieldDeniedDomains denied)) (\<lambda>_.
      bind_result (lift_error BuildGlob (compile_denylist_globset (domain_glob env) denied)) (\<lambda>deny_set.
      bind_result (lift_error BuildGlob (compile_allowlist_globset (domain_glob env) allowed)) (\<lambda>allow_set.
      bind_result (lift_error BuildMitm (compile_mitm_hooks (mitm_env env) cfg)) (\<lambda>hooks.
      bind_result (if mitm cfg then
                     (case mitm_state_new env (nc_allow_upstream_proxy cfg) of
                        Some m \<Rightarrow> Inr (Some m) | None \<Rightarrow> Inl BuildMitmState)
                   else Inr None) (\<lambda>mitm_state.
        Inr \<lparr>cs_config = cfg, brokerage_created_default_allowlist = created_default_allowlist,
             allow_set = allow_set, deny_set = deny_set, cs_mitm = mitm_state, cs_mitm_hooks = hooks,
             cs_constraints = constraints, blocked = [], blocked_total = 0\<rparr>))))))))"

section \<open>What the check promises\<close>

definition within_allowed_domains ::
  "'m NetEnv \<Rightarrow> 'json NetworkProxyConfig \<Rightarrow> NetworkProxyConstraints \<Rightarrow> rstr list \<Rightarrow> bool" where
  "within_allowed_domains env cfg constraints managed \<longleftrightarrow>
     (let allowed = unwrap_or_default (allowed_domains cfg); denied = unwrap_or_default (denied_domains cfg);
          pattern_hosts = (\<lambda>p. hosts (parse_for_constraints (url_host env) p))
      in (\<forall>p \<in> set managed. \<not> is_global_wildcard_domain_pattern p)
         \<and> (case cn_allowlist_expansion_enabled constraints of
              Some True \<Rightarrow> lower_set managed \<subseteq> lower_set allowed \<union> lower_set denied
            | Some False \<Rightarrow> lower_set allowed = lower_set managed - lower_set denied
            | None \<Rightarrow> \<forall>p \<in> set allowed. \<exists>m \<in> set managed. pattern_hosts p \<subseteq> pattern_hosts m))"

definition within_denied_domains :: "'json NetworkProxyConfig \<Rightarrow> NetworkProxyConstraints \<Rightarrow> rstr list \<Rightarrow> bool" where
  "within_denied_domains cfg constraints managed \<longleftrightarrow>
     (let denied = unwrap_or_default (denied_domains cfg)
      in (\<forall>p \<in> set managed. \<not> is_global_wildcard_domain_pattern p)
         \<and> lower_set managed \<subseteq> lower_set denied
         \<and> (cn_denylist_expansion_enabled constraints = Some False \<longrightarrow> lower_set denied \<subseteq> lower_set managed))"

definition within_constraints ::
  "'m NetEnv \<Rightarrow> 'json NetworkProxyConfig \<Rightarrow> NetworkProxyConstraints \<Rightarrow> bool" where
  "within_constraints env cfg c \<longleftrightarrow>
     is_ok (validate_mitm_hook_config (mitm_env env) cfg)
     \<and> (\<forall>p \<in> set (unwrap_or_default (denied_domains cfg)). \<not> is_global_wildcard_domain_pattern p)
     \<and> (nc_enabled cfg \<longrightarrow> cn_enabled c \<noteq> Some False)
     \<and> (nc_mode cfg = FullAccess \<longrightarrow> cn_mode c \<noteq> Some Limited)
     \<and> (nc_allow_upstream_proxy cfg \<longrightarrow> cn_allow_upstream_proxy c \<noteq> Some False)
     \<and> (dangerously_allow_non_loopback_proxy cfg \<longrightarrow> cn_dangerously_allow_non_loopback_proxy c \<noteq> Some False)
     \<and> (dangerously_allow_all_unix_sockets cfg \<longrightarrow>
          cn_dangerously_allow_all_unix_sockets c = Some True
          \<or> cn_dangerously_allow_all_unix_sockets c = None \<and> cn_allow_unix_sockets c = None)
     \<and> (nc_allow_local_binding cfg \<longrightarrow> cn_allow_local_binding c \<noteq> Some False)
     \<and> (case cn_allowed_domains c of None \<Rightarrow> True | Some managed \<Rightarrow> within_allowed_domains env cfg c managed)
     \<and> (case cn_denied_domains c of None \<Rightarrow> True | Some managed \<Rightarrow> within_denied_domains cfg c managed)
     \<and> (case cn_allow_unix_sockets c of None \<Rightarrow> True
        | Some managed \<Rightarrow> lower_set (allow_unix_sockets cfg) \<subseteq> lower_set managed)"

lemma require_ok [simp]: "is_ok (require f b) \<longleftrightarrow> b" "require f b = Inr x \<longleftrightarrow> b"
  by (simp_all add: require_def)

lemma validate_patterns_ok [simp]:
  "is_ok (validate_non_global_wildcard_domain_patterns f ps) \<longleftrightarrow> (\<forall>p \<in> set ps. \<not> is_global_wildcard_domain_pattern p)"
  "validate_non_global_wildcard_domain_patterns f ps = Inr x \<longleftrightarrow> (\<forall>p \<in> set ps. \<not> is_global_wildcard_domain_pattern p)"
  by (auto simp: validate_non_global_wildcard_domain_patterns_def list_ex_iff)

lemma check_allowed_domains_ok:
  "is_ok (check_allowed_domains env cfg c) \<longleftrightarrow>
     (case cn_allowed_domains c of None \<Rightarrow> True | Some managed \<Rightarrow> within_allowed_domains env cfg c managed)"
  by (auto simp: check_allowed_domains_def within_allowed_domains_def Let_def allows_hosts list_ex_iff
      filter_empty_conv split: option.split bool.split)

lemma check_denied_domains_ok:
  "is_ok (check_denied_domains cfg c) \<longleftrightarrow>
     (case cn_denied_domains c of None \<Rightarrow> True | Some managed \<Rightarrow> within_denied_domains cfg c managed)"
  by (auto simp: check_denied_domains_def within_denied_domains_def Let_def split: option.split bool.split)

lemma check_unix_sockets_ok:
  "is_ok (check_unix_sockets cfg c) \<longleftrightarrow>
     (case cn_allow_unix_sockets c of None \<Rightarrow> True
      | Some managed \<Rightarrow> lower_set (allow_unix_sockets cfg) \<subseteq> lower_set managed)"
  by (auto simp: check_unix_sockets_def lower_set_def Let_def filter_empty_conv split: option.split)

lemma validate_policy_ok:
  "is_ok (validate_policy_against_constraints env cfg c) \<longleftrightarrow> within_constraints env cfg c"
proof -
  have seq: "is_ok (bind_result r (\<lambda>_. s)) \<longleftrightarrow> is_ok r \<and> is_ok s"
    for r s :: "NetworkProxyConstraintError + unit" by (cases r) auto
  have mode: "network_mode_rank m \<le> network_mode_rank n \<longleftrightarrow> \<not> (m = FullAccess \<and> n = Limited)" for m n
    by (cases m; cases n) simp_all
  have pieces:
    "is_ok (if b then Inr () else Inl (InvalidValue f)) \<longleftrightarrow> b"
    "is_ok (case x of None \<Rightarrow> Inr () | Some y \<Rightarrow> require f (\<not> (b \<and> \<not> y))) \<longleftrightarrow> (b \<longrightarrow> x \<noteq> Some False)"
    "is_ok (case x of Some False \<Rightarrow> require f (\<not> b) | _ \<Rightarrow> Inr ()) \<longleftrightarrow> (b \<longrightarrow> x \<noteq> Some False)"
    "is_ok (case y of None \<Rightarrow> Inr () | Some max_mode \<Rightarrow> require f (\<not> network_mode_rank md > network_mode_rank max_mode))
       \<longleftrightarrow> (md = FullAccess \<longrightarrow> y \<noteq> Some Limited)"
    "is_ok (require f (\<not> (b \<and> \<not> (case x of Some b' \<Rightarrow> b' | None \<Rightarrow> d)))) \<longleftrightarrow> (b \<longrightarrow> x = Some True \<or> x = None \<and> d)"
    for b d f x y md
    by (auto simp: not_less mode split: option.split bool.split)
  show ?thesis
    unfolding validate_policy_against_constraints_def within_constraints_def Let_def seq pieces
      check_allowed_domains_ok check_denied_domains_ok check_unix_sockets_ok validate_patterns_ok ..
qed

text \<open>A configuration passes the check exactly when it is within the managed constraints; in
  particular, without a say on the expansion of the allowlist, every host an allowed pattern lets
  through is let through by one managed pattern.\<close>

theorem validate_policy_iff:
  "is_ok (validate_policy_against_constraints env cfg c) \<longleftrightarrow> within_constraints env cfg c"
  by (rule validate_policy_ok)

end
