(* ===== verification/Net_Runtime.thy ===== *)
theory Net_Runtime
  imports Net_Constraints Transition_System
begin

text \<open>
  The shared state of the network proxy (\<open>network-proxy/src/runtime.rs\<close>): the decision on a host,
  the updates of the domain lists and of the mode, the reload of the configuration, and the buffer
  of blocked requests.

  The state is behind a lock that each operation takes for a read and again for a write, so an
  operation is a read step, which keeps what it saw in a task, and a write step, between which any
  other step can happen. The DNS lookup is the parameter \<open>lookup\<close>: the addresses of a host, or
  \<open>None\<close> when it fails or takes too long. The parameters of the record \<open>NetEnv\<close> do not change from
  step to step: what is shown of the compiled hooks holds as long as the secrets they read stay
  the same.
\<close>

definition MAX_BLOCKED_EVENTS :: nat where
  "MAX_BLOCKED_EVENTS = 200"

section \<open>The decision on a host\<close>

datatype HostBlockReason = Denied | NotAllowed | NotAllowedLocal
datatype HostBlockDecision = Allowed | Blocked HostBlockReason

definition globset_matches_host_or_unscoped :: "GlobSet \<Rightarrow> rstr \<Rightarrow> bool" where
  "globset_matches_host_or_unscoped globs host \<longleftrightarrow>
     is_match globs host \<or> opt_is_some_and (is_match globs) (unscoped_ip_literal host)"

definition is_explicit_local_allowlisted :: "rstr list \<Rightarrow> Host \<Rightarrow> bool" where
  "is_explicit_local_allowlisted allowed host =
     list_ex (\<lambda>pattern.
       let pattern = trim pattern
       in if pattern = [star] \<or> starts_with (lit ''*.'') pattern \<or> starts_with (lit ''**.'') pattern then False
          else if contains [star] pattern \<or> contains (lit ''?'') pattern then False
          else let normalized_pattern = normalize_host pattern
               in normalized_pattern = host
                  \<or> opt_is_some_and (\<lambda>ip. normalized_pattern = ip) (unscoped_ip_literal host)) allowed"

definition host_resolves_to_non_public_ip ::
  "(rstr \<Rightarrow> 16 word \<Rightarrow> IpAddr list option) \<Rightarrow> rstr \<Rightarrow> 16 word \<Rightarrow> bool" where
  "host_resolves_to_non_public_ip lookup host port =
     (case parse_ip host of
        Some ip \<Rightarrow> is_non_public_ip ip
      | None \<Rightarrow> (case lookup host port of None \<Rightarrow> True | Some addrs \<Rightarrow> list_ex is_non_public_ip addrs))"

definition is_local_literal :: "Host \<Rightarrow> bool" where
  "is_local_literal host =
     (let host_no_scope = (case unscoped_ip_literal host of Some ip \<Rightarrow> ip | None \<Rightarrow> host)
      in if is_loopback_host host then True
         else (case parse_ip host_no_scope of Some ip \<Rightarrow> is_non_public_ip ip | None \<Rightarrow> False))"

definition host_blocked ::
  "(rstr \<Rightarrow> 16 word \<Rightarrow> IpAddr list option) \<Rightarrow> ('json, 'm) ConfigState \<Rightarrow> rstr \<Rightarrow> 16 word \<Rightarrow> HostBlockDecision" where
  "host_blocked lookup cs host port =
     (case host_parse host of
        Inl _ \<Rightarrow> Blocked NotAllowed
      | Inr host \<Rightarrow>
          let allowed_domains_empty = (allowed_domains (cs_config cs) = None);
              allowed = unwrap_or_default (allowed_domains (cs_config cs))
          in if globset_matches_host_or_unscoped (deny_set cs) host then Blocked Denied
             else let is_allowlisted = globset_matches_host_or_unscoped (allow_set cs) host
             in if \<not> nc_allow_local_binding (cs_config cs) \<and> is_local_literal host
                   \<and> \<not> is_explicit_local_allowlisted allowed host then Blocked NotAllowedLocal
             else if \<not> nc_allow_local_binding (cs_config cs) \<and> \<not> is_local_literal host
                   \<and> host_resolves_to_non_public_ip lookup host port then Blocked NotAllowedLocal
             else if allowed_domains_empty \<or> \<not> is_allowlisted then Blocked NotAllowed
             else Allowed)"

section \<open>Updates\<close>

datatype DomainListKind = AllowList | DenyList

fun list_permission :: "DomainListKind \<Rightarrow> NetworkDomainPermission" where
  "list_permission AllowList = PermAllow"
| "list_permission DenyList = PermDeny"

fun list_entries :: "DomainListKind \<Rightarrow> 'json NetworkProxyConfig \<Rightarrow> rstr list" where
  "list_entries AllowList cfg = unwrap_or_default (allowed_domains cfg)"
| "list_entries DenyList cfg = unwrap_or_default (denied_domains cfg)"

fun opposite_entries :: "DomainListKind \<Rightarrow> 'json NetworkProxyConfig \<Rightarrow> rstr list" where
  "opposite_entries AllowList cfg = unwrap_or_default (denied_domains cfg)"
| "opposite_entries DenyList cfg = unwrap_or_default (allowed_domains cfg)"

datatype UpdateError = InvalidHost | ConstrainedByManaged NetworkProxyConstraintError | CompileFailed BuildError

text \<open>
  \<open>update_domain_list\<close> up to its write: nothing to do, or the new state, with the blocked requests
  of the state that was read.
\<close>

definition update_domain_list ::
  "'m NetEnv \<Rightarrow> rstr \<Rightarrow> DomainListKind \<Rightarrow> ('json, 'm) ConfigState \<Rightarrow> UpdateError + ('json, 'm) ConfigState option" where
  "update_domain_list env host target seen =
     bind_result (lift_error (\<lambda>_. InvalidHost) (host_parse host)) (\<lambda>normalized_host.
     let cfg = cs_config seen;
         target_contains = list_ex (\<lambda>entry. normalize_host entry = normalized_host) (list_entries target cfg);
         opposite_contains = list_ex (\<lambda>entry. normalize_host entry = normalized_host) (opposite_entries target cfg)
     in if target_contains \<and> \<not> opposite_contains then Inr None
        else let candidate = upsert_domain_permission normalized_host (list_permission target) normalize_host cfg in
          bind_result (lift_error ConstrainedByManaged
                         (validate_policy_against_constraints env candidate (cs_constraints seen))) (\<lambda>_.
          bind_result (lift_error CompileFailed (build_config_state env candidate (cs_constraints seen))) (\<lambda>new_state.
            Inr (Some (new_state\<lparr>blocked := blocked seen, blocked_total := blocked_total seen\<rparr>)))))"

text \<open>\<open>set_network_mode\<close>: the check against what was read, and the write.\<close>

definition check_network_mode ::
  "'m NetEnv \<Rightarrow> NetworkMode \<Rightarrow> ('json, 'm) ConfigState \<Rightarrow> NetworkProxyConstraintError + unit" where
  "check_network_mode env m seen =
     validate_policy_against_constraints env ((cs_config seen)\<lparr>nc_mode := m\<rparr>) (cs_constraints seen)"

definition write_network_mode :: "NetworkMode \<Rightarrow> ('json, 'm) ConfigState \<Rightarrow> ('json, 'm) ConfigState" where
  "write_network_mode m cs = cs\<lparr>cs_config := (cs_config cs)\<lparr>nc_mode := m\<rparr>\<rparr>"

text \<open>\<open>record_blocked\<close> and \<open>drain_blocked\<close>.\<close>

definition record_blocked :: "rstr option \<Rightarrow> BlockedRequest \<Rightarrow> ('json, 'm) ConfigState \<Rightarrow> ('json, 'm) ConfigState" where
  "record_blocked execution_id entry cs =
     (let events = blocked cs @ [entry\<lparr>bl_execution_id := execution_id\<rparr>]
      in cs\<lparr>blocked := drop (length events - MAX_BLOCKED_EVENTS) events,
            blocked_total := sat_add (blocked_total cs) 1\<rparr>)"

definition drain_blocked :: "('json, 'm) ConfigState \<Rightarrow> BlockedRequest list \<times> ('json, 'm) ConfigState" where
  "drain_blocked cs = (blocked cs, cs\<lparr>blocked := []\<rparr>)"

text \<open>The write of a reload: the blocked requests are those of the state that was read.\<close>

definition reload_state ::
  "('json, 'm) ConfigState \<Rightarrow> BlockedRequest list \<Rightarrow> nat \<Rightarrow> ('json, 'm) ConfigState" where
  "reload_state new_state events count = new_state\<lparr>blocked := events, blocked_total := count\<rparr>"

text \<open>\<open>replace_config_state\<close> takes the blocked requests under the lock of the write.\<close>

definition replace_config_state ::
  "('json, 'm) ConfigState \<Rightarrow> ('json, 'm) ConfigState \<Rightarrow> ('json, 'm) ConfigState" where
  "replace_config_state new_state cs = new_state\<lparr>blocked := blocked cs, blocked_total := blocked_total cs\<rparr>"

section \<open>The steps of concurrent operations\<close>

text \<open>What an operation remembers between its read and its write.\<close>

datatype ('json, 'm) ProxyTask =
    Idle
  | Updating "'json NetworkProxyConfig" NetworkProxyConstraints "('json, 'm) ConfigState"
  | SettingMode NetworkMode NetworkProxyConstraints
  | Reloading "('json, 'm) ConfigState" "BlockedRequest list" nat

type_synonym ('json, 'm) ProxySystem = "('json, 'm) ConfigState \<times> (nat \<Rightarrow> ('json, 'm) ProxyTask)"

text \<open>
  What the code relies on of a reloader: it delivers states that \<open>build_config_state\<close> built from a
  configuration that passed the check against its constraints.
\<close>

definition reloaded :: "'m NetEnv \<Rightarrow> ('json, 'm) ConfigState \<Rightarrow> bool" where
  "reloaded env new_state \<longleftrightarrow>
     (\<exists>cfg c. is_ok (validate_policy_against_constraints env cfg c) \<and> build_config_state env cfg c = Inr new_state)"

inductive proxy_step :: "'m NetEnv \<Rightarrow> ('json, 'm) ProxySystem \<Rightarrow> ('json, 'm) ProxySystem \<Rightarrow> bool" for env where
  update_read: "ts i = Idle \<Longrightarrow> update_domain_list env host target cs = Inr (Some new_state)
    \<Longrightarrow> proxy_step env (cs, ts) (cs, ts(i := Updating (cs_config cs) (cs_constraints cs) new_state))"
| update_write: "ts i = Updating cfg c new_state \<Longrightarrow> cs_constraints cs = c \<and> cs_config cs = cfg
    \<Longrightarrow> proxy_step env (cs, ts) (new_state, ts(i := Idle))"
| update_retry: "ts i = Updating cfg c new_state \<Longrightarrow> \<not> (cs_constraints cs = c \<and> cs_config cs = cfg)
    \<Longrightarrow> proxy_step env (cs, ts) (cs, ts(i := Idle))"
| mode_read: "ts i = Idle \<Longrightarrow> check_network_mode env m cs = Inr ()
    \<Longrightarrow> proxy_step env (cs, ts) (cs, ts(i := SettingMode m (cs_constraints cs)))"
| mode_write: "ts i = SettingMode m c \<Longrightarrow> cs_constraints cs = c
    \<Longrightarrow> proxy_step env (cs, ts) (write_network_mode m cs, ts(i := Idle))"
| mode_retry: "ts i = SettingMode m c \<Longrightarrow> cs_constraints cs \<noteq> c
    \<Longrightarrow> proxy_step env (cs, ts) (cs, ts(i := Idle))"
| reload_read: "ts i = Idle \<Longrightarrow> reloaded env new_state
    \<Longrightarrow> proxy_step env (cs, ts) (cs, ts(i := Reloading new_state (blocked cs) (blocked_total cs)))"
| reload_write: "ts i = Reloading new_state events count
    \<Longrightarrow> proxy_step env (cs, ts) (reload_state new_state events count, ts(i := Idle))"
| replace: "reloaded env new_state \<Longrightarrow> proxy_step env (cs, ts) (replace_config_state new_state cs, ts)"
| record_event: "proxy_step env (cs, ts) (record_blocked execution_id entry cs, ts)"
| drain: "proxy_step env (cs, ts) (snd (drain_blocked cs), ts)"

inductive_cases proxy_stepE: "proxy_step env (cs, ts) s'"

section \<open>The invariant\<close>

text \<open>
  The configuration stays within the constraints of the administrator, the compiled sets and
  hooks are those of the configuration, and the buffer is bounded.
\<close>

definition state_ok :: "'m NetEnv \<Rightarrow> ('json, 'm) ConfigState \<Rightarrow> bool" where
  "state_ok env s \<longleftrightarrow>
     within_constraints env (cs_config s) (cs_constraints s)
     \<and> compile_denylist_globset (domain_glob env) (unwrap_or_default (denied_domains (cs_config s))) = Inr (deny_set s)
     \<and> compile_allowlist_globset (domain_glob env) (unwrap_or_default (allowed_domains (cs_config s))) = Inr (allow_set s)
     \<and> compile_mitm_hooks (mitm_env env) (cs_config s) = Inr (cs_mitm_hooks s)
     \<and> length (blocked s) \<le> MAX_BLOCKED_EVENTS"

fun task_ok :: "'m NetEnv \<Rightarrow> ('json, 'm) ProxyTask \<Rightarrow> bool" where
  "task_ok env Idle = True"
| "task_ok env (Updating cfg c new_state) = state_ok env new_state"
| "task_ok env (SettingMode m c) = (m = FullAccess \<longrightarrow> cn_mode c \<noteq> Some Limited)"
| "task_ok env (Reloading new_state events count) =
     (state_ok env new_state \<and> length events \<le> MAX_BLOCKED_EVENTS)"

definition proxy_inv :: "'m NetEnv \<Rightarrow> ('json, 'm) ProxySystem \<Rightarrow> bool" where
  "proxy_inv env s \<longleftrightarrow> state_ok env (fst s) \<and> (\<forall>i. task_ok env (snd s i))"

lemma unwrap_non_empty [simp]: "unwrap_or_default (non_empty_domains ds) = ds"
  by (simp add: unwrap_or_default_def non_empty_domains_def)

lemma denied_after_allowing: "has_entry (set_allowed_domains ds cfg) p PermDeny \<longleftrightarrow> has_entry cfg p PermDeny"
proof -
  define f :: "rstr \<Rightarrow> NetworkDomainPermissions \<Rightarrow> NetworkDomainPermissions" where
    "f = (\<lambda>entry ds. if list_ex (\<lambda>e. ne_pattern e = entry \<and> ne_permission e = PermAllow) ds then ds
            else ds @ [\<lparr>ne_pattern = entry, ne_permission = PermAllow\<rparr>])"
  have "(\<exists>e \<in> set (fold f ds kept). ne_pattern e = p \<and> ne_permission e = PermDeny)
      \<longleftrightarrow> (\<exists>e \<in> set kept. ne_pattern e = p \<and> ne_permission e = PermDeny)" for kept
    by (induction ds arbitrary: kept) (auto simp: f_def)
  then show ?thesis
    unfolding has_entry_def set_allowed_domains_def set_domain_entries_def Let_def f_def [symmetric] by auto
qed

lemma validate_hooks_cong:
  "mitm_hooks cfg' = mitm_hooks cfg \<Longrightarrow> mitm cfg' = mitm cfg \<Longrightarrow>
     validate_mitm_hook_config env cfg' = validate_mitm_hook_config env cfg"
  by (simp add: validate_mitm_hook_config_def)

lemma domain_entries_cong: "domains cfg' = domains cfg \<Longrightarrow> domain_entries perm cfg' = domain_entries perm cfg"
  by (simp add: domain_entries_def)

text \<open>The check depends on the denied domains only as a set.\<close>

lemma within_constraints_cong:
  assumes "mitm_hooks cfg' = mitm_hooks cfg" "mitm cfg' = mitm cfg"
    and "\<And>p. has_entry cfg' p PermDeny \<longleftrightarrow> has_entry cfg p PermDeny"
    and "nc_enabled cfg' \<Longrightarrow> nc_enabled cfg \<or> cn_enabled c \<noteq> Some False"
    and "nc_mode cfg' = FullAccess \<Longrightarrow> nc_mode cfg = FullAccess \<or> cn_mode c \<noteq> Some Limited"
    and "nc_allow_upstream_proxy cfg' = nc_allow_upstream_proxy cfg"
    and "dangerously_allow_non_loopback_proxy cfg' = dangerously_allow_non_loopback_proxy cfg"
    and "dangerously_allow_all_unix_sockets cfg' = dangerously_allow_all_unix_sockets cfg"
    and "nc_allow_local_binding cfg' = nc_allow_local_binding cfg"
    and "allowed_domains cfg' = allowed_domains cfg \<or> cn_allowed_domains c = None"
    and "allow_unix_sockets cfg' = allow_unix_sockets cfg"
    and "within_constraints env cfg c"
  shows "within_constraints env cfg' c"
proof -
  have denied: "set (unwrap_or_default (denied_domains cfg')) = set (unwrap_or_default (denied_domains cfg))"
    using assms(3) by (auto simp: denied_domains_iff)
  then have lower: "lower_set (unwrap_or_default (denied_domains cfg')) = lower_set (unwrap_or_default (denied_domains cfg))"
    by (simp add: lower_set_def)
  have D: "within_denied_domains cfg' c m = within_denied_domains cfg c m" for m
    by (simp add: within_denied_domains_def Let_def lower)
  have A: "within_allowed_domains env cfg' c m = within_allowed_domains env cfg c m"
    if "allowed_domains cfg' = allowed_domains cfg" for m
    unfolding within_allowed_domains_def Let_def lower that ..
  have "(case cn_allowed_domains c of None \<Rightarrow> True | Some m \<Rightarrow> within_allowed_domains env cfg' c m)
      \<longleftrightarrow> (case cn_allowed_domains c of None \<Rightarrow> True | Some m \<Rightarrow> within_allowed_domains env cfg c m)"
    using assms(10) A by (auto split: option.split)
  then show ?thesis
    using assms(4,5,12)
    unfolding within_constraints_def denied D validate_hooks_cong [OF assms(1,2)] assms(6-9,11)
    by blast
qed

lemma set_allowed_domains_fields [simp]:
  "mitm_hooks (set_allowed_domains ds cfg) = mitm_hooks cfg" "mitm (set_allowed_domains ds cfg) = mitm cfg"
  "nc_enabled (set_allowed_domains ds cfg) = nc_enabled cfg" "nc_mode (set_allowed_domains ds cfg) = nc_mode cfg"
  "nc_allow_upstream_proxy (set_allowed_domains ds cfg) = nc_allow_upstream_proxy cfg"
  "dangerously_allow_non_loopback_proxy (set_allowed_domains ds cfg) = dangerously_allow_non_loopback_proxy cfg"
  "dangerously_allow_all_unix_sockets (set_allowed_domains ds cfg) = dangerously_allow_all_unix_sockets cfg"
  "nc_allow_local_binding (set_allowed_domains ds cfg) = nc_allow_local_binding cfg"
  "allow_unix_sockets (set_allowed_domains ds cfg) = allow_unix_sockets cfg"
  by (simp_all add: set_allowed_domains_def set_domain_entries_def allow_unix_sockets_def Let_def)

lemma config_field_updates [simp]:
  "allow_unix_sockets (cfg\<lparr>credential_broker := b\<rparr>) = allow_unix_sockets cfg"
  "allow_unix_sockets (cfg\<lparr>nc_enabled := b\<rparr>) = allow_unix_sockets cfg"
  "allow_unix_sockets (cfg\<lparr>nc_mode := m\<rparr>) = allow_unix_sockets cfg"
  "allowed_domains (cfg\<lparr>credential_broker := b\<rparr>) = allowed_domains cfg"
  "allowed_domains (cfg\<lparr>nc_enabled := b\<rparr>) = allowed_domains cfg"
  "allowed_domains (cfg\<lparr>nc_mode := m\<rparr>) = allowed_domains cfg"
  "denied_domains (cfg\<lparr>nc_mode := m\<rparr>) = denied_domains cfg"
  "has_entry (cfg\<lparr>credential_broker := b\<rparr>) = has_entry cfg" "has_entry (cfg\<lparr>nc_enabled := b\<rparr>) = has_entry cfg"
  "has_entry (cfg\<lparr>nc_mode := m\<rparr>) = has_entry cfg"
  by (simp_all add: allow_unix_sockets_def allowed_domains_def denied_domains_def domain_entries_def has_entry_def fun_eq_iff)

lemma broker_config_within:
  assumes "within_constraints env cfg c"
  shows "within_constraints env (fst (broker_config cfg c)) c"
proof (rule within_constraints_cong [OF _ _ _ _ _ _ _ _ _ _ _ assms])
  let ?cfg = "fst (broker_config cfg c)"
  show "nc_enabled ?cfg \<Longrightarrow> nc_enabled cfg \<or> cn_enabled c \<noteq> Some False"
    by (simp add: broker_config_def Let_def split: if_splits)
  show "nc_mode ?cfg = FullAccess \<Longrightarrow> nc_mode cfg = FullAccess \<or> cn_mode c \<noteq> Some Limited"
    by (simp add: broker_config_def Let_def split: if_splits)
  show "allowed_domains ?cfg = allowed_domains cfg \<or> cn_allowed_domains c = None"
    by (simp add: broker_config_def Let_def)
qed (simp_all add: broker_config_def Let_def denied_after_allowing)

lemma built_state_ok:
  assumes "within_constraints env cfg c" "build_config_state env cfg c = Inr s"
  shows "state_ok env s \<and> cs_constraints s = c"
proof -
  obtain cfg' created where cfg': "broker_config cfg c = (cfg', created)" by force
  with broker_config_within [OF assms(1)] have within: "within_constraints env cfg' c" by simp
  have lift: "lift_error f r = Inr x \<longleftrightarrow> r = Inr x" for f :: "'e \<Rightarrow> 'f" and r :: "'e + 'x" and x
    by (simp add: lift_error_def split: sum.split)
  from assms(2) show ?thesis
    unfolding build_config_state_def cfg' prod.case Let_def bind_result_Inr lift
    by (elim exE conjE) (drule Inr_inject, hypsubst, simp add: state_ok_def within MAX_BLOCKED_EVENTS_def)
qed

lemma state_ok_blocked:
  "state_ok env s \<Longrightarrow> length events \<le> MAX_BLOCKED_EVENTS \<Longrightarrow> state_ok env (s\<lparr>blocked := events, blocked_total := n\<rparr>)"
  by (simp add: state_ok_def)

lemma reloaded_ok: "reloaded env s \<Longrightarrow> state_ok env s"
  using built_state_ok by (auto simp: reloaded_def validate_policy_ok)

lemma update_domain_list_Some:
  assumes "update_domain_list env host target seen = Inr (Some new_state)"
  obtains n built where "host_parse host = Inr n"
    and "validate_policy_against_constraints env
           (upsert_domain_permission n (list_permission target) normalize_host (cs_config seen)) (cs_constraints seen) = Inr ()"
    and "build_config_state env (upsert_domain_permission n (list_permission target) normalize_host (cs_config seen))
           (cs_constraints seen) = Inr built"
    and "new_state = built\<lparr>blocked := blocked seen, blocked_total := blocked_total seen\<rparr>"
  using assms by (auto simp: update_domain_list_def Let_def bind_result_Inr lift_error_def split: if_splits sum.splits)

lemma updated_ok:
  assumes "update_domain_list env host target seen = Inr (Some new_state)" "length (blocked seen) \<le> MAX_BLOCKED_EVENTS"
  shows "state_ok env new_state" and "cs_constraints new_state = cs_constraints seen"
proof -
  from assms(1) obtain n built
    where v: "validate_policy_against_constraints env
           (upsert_domain_permission n (list_permission target) normalize_host (cs_config seen)) (cs_constraints seen) = Inr ()"
      and built: "build_config_state env (upsert_domain_permission n (list_permission target) normalize_host (cs_config seen))
           (cs_constraints seen) = Inr built"
      and new: "new_state = built\<lparr>blocked := blocked seen, blocked_total := blocked_total seen\<rparr>"
    by (rule update_domain_list_Some)
  from v have "state_ok env built \<and> cs_constraints built = cs_constraints seen"
    by (intro built_state_ok [OF _ built]) (simp flip: validate_policy_ok)
  with assms(2) show "state_ok env new_state" "cs_constraints new_state = cs_constraints seen"
    by (simp_all add: new state_ok_blocked)
qed

lemma write_network_mode_ok:
  assumes "state_ok env s" "m = FullAccess \<longrightarrow> cn_mode (cs_constraints s) \<noteq> Some Limited"
  shows "state_ok env (write_network_mode m s)"
proof -
  have within: "within_constraints env (cs_config s) (cs_constraints s)" using assms(1) by (simp add: state_ok_def)
  have "within_constraints env ((cs_config s)\<lparr>nc_mode := m\<rparr>) (cs_constraints s)"
    by (rule within_constraints_cong [OF _ _ _ _ _ _ _ _ _ _ _ within]) (use assms(2) in simp_all)
  moreover have "compile_mitm_hooks (mitm_env env) ((cs_config s)\<lparr>nc_mode := m\<rparr>) = compile_mitm_hooks (mitm_env env) (cs_config s)"
    by (simp add: compile_mitm_hooks_def validate_mitm_hook_config_def)
  ultimately show ?thesis using assms(1) by (simp add: state_ok_def write_network_mode_def)
qed

lemma check_network_mode_ok:
  "check_network_mode env m s = Inr () \<Longrightarrow> m = FullAccess \<longrightarrow> cn_mode (cs_constraints s) \<noteq> Some Limited"
  using validate_policy_ok [of env "(cs_config s)\<lparr>nc_mode := m\<rparr>" "cs_constraints s"]
  by (simp add: check_network_mode_def within_constraints_def)

lemma record_blocked_ok: "state_ok env s \<Longrightarrow> state_ok env (record_blocked execution_id entry s)"
  by (simp add: record_blocked_def Let_def state_ok_def)

lemma proxy_step_inv:
  assumes "proxy_inv env s" "proxy_step env s s'"
  shows "proxy_inv env s'"
  using assms(2,1)
proof (cases rule: proxy_step.cases)
  case (update_read ts i host target cs new_state)
  with assms(1) updated_ok [OF update_read(4)] show ?thesis by (auto simp: proxy_inv_def state_ok_def)
next
  case (update_write ts i cfg c new_state cs)
  with assms(1) show ?thesis by (auto simp: proxy_inv_def) (metis task_ok.simps(2))
next
  case (mode_read ts i m cs)
  with assms(1) check_network_mode_ok [OF mode_read(4)] show ?thesis by (auto simp: proxy_inv_def)
next
  case (mode_write ts i m c cs)
  with assms(1) have "task_ok env (SettingMode m c)" by (auto simp: proxy_inv_def) (metis task_ok.simps(3))+
  with mode_write assms(1) show ?thesis by (auto simp: proxy_inv_def write_network_mode_ok)
next
  case (reload_read ts i new_state cs)
  with assms(1) reloaded_ok show ?thesis by (auto simp: proxy_inv_def state_ok_def)
next
  case (reload_write ts i new_state events count cs)
  with assms(1) have "task_ok env (Reloading new_state events count)" by (auto simp: proxy_inv_def) (metis task_ok.simps(4))+
  with reload_write assms(1) show ?thesis by (auto simp: proxy_inv_def reload_state_def state_ok_blocked)
next
  case (replace new_state cs ts)
  with assms(1) reloaded_ok [OF replace(3)] show ?thesis
    by (auto simp: proxy_inv_def replace_config_state_def intro!: state_ok_blocked) (simp add: state_ok_def)
next
  case (record_event cs ts execution_id entry)
  with assms(1) show ?thesis by (auto simp: proxy_inv_def record_blocked_ok)
next
  case (drain cs ts)
  with assms(1) show ?thesis by (auto simp: proxy_inv_def drain_blocked_def state_ok_def)
qed (auto simp: proxy_inv_def)

lemma proxy_system:
  assumes "reloaded env start"
  shows "invariant_system (start, \<lambda>_. Idle) (proxy_step env) (proxy_inv env)"
proof
  show "proxy_inv env (start, \<lambda>_. Idle)" using reloaded_ok [OF assms] by (simp add: proxy_inv_def)
qed (rule proxy_step_inv)

lemmas proxy_reachable_inv = invariant_system.inv_reachable [OF proxy_system]

text \<open>
  A blocked request that is recorded between the read and the write of an update is lost: the
  write puts back the buffer and the counter of the state that was read.
\<close>

lemma concurrent_event_is_lost:
  assumes "update_domain_list env host target cs = Inr (Some new_state)" "ts i = Idle"
  shows "\<exists>s1 s2. proxy_step env (cs, ts) s1 \<and> proxy_step env s1 (record_blocked execution_id entry cs, snd s1)
     \<and> s2 = (new_state, ts) \<and> proxy_step env (record_blocked execution_id entry cs, snd s1) s2
     \<and> blocked new_state = blocked cs \<and> blocked_total new_state = blocked_total cs"
proof -
  let ?ts = "ts(i := Updating (cs_config cs) (cs_constraints cs) new_state)"
  let ?cs = "record_blocked execution_id entry cs"
  have "proxy_step env (cs, ts) (cs, ?ts)" using assms(2,1) by (rule proxy_step.update_read)
  moreover have "proxy_step env (cs, ?ts) (?cs, ?ts)" by (rule proxy_step.record_event)
  moreover have "proxy_step env (?cs, ?ts) (new_state, ?ts(i := Idle))"
    by (rule proxy_step.update_write [where i = i]) (auto simp: record_blocked_def Let_def)
  moreover have "?ts(i := Idle) = ts" using assms(2) by auto
  moreover have "blocked new_state = blocked cs \<and> blocked_total new_state = blocked_total cs"
    using assms(1) by (elim update_domain_list_Some) simp
  ultimately show ?thesis by (metis snd_conv)
qed

section \<open>The decision in terms of the patterns\<close>

text \<open>The names under which a host is looked up in a set: itself, and without its scope.\<close>

definition host_names :: "Host \<Rightarrow> rstr list" where
  "host_names h = h # (case unscoped_ip_literal h of Some ip \<Rightarrow> [ip] | None \<Rightarrow> [])"

definition some_pattern_matches :: "rstr list \<Rightarrow> Host \<Rightarrow> bool" where
  "some_pattern_matches patterns h = list_ex (\<lambda>p. list_ex (pattern_matches p) (host_names h)) patterns"

lemma compiled_set_decides:
  assumes "glob_laws glob" "list_all plain_pattern ps" "compile_globset_with_policy glob ps w = Inr globs"
  shows "globset_matches_host_or_unscoped globs h \<longleftrightarrow> some_pattern_matches ps h"
proof -
  note match = compiled_patterns_match [OF assms]
  show ?thesis
    by (cases "unscoped_ip_literal h")
      (auto simp: globset_matches_host_or_unscoped_def some_pattern_matches_def host_names_def match list_ex_iff)
qed

lemma state_sets_decide:
  assumes "state_ok env s" "glob_laws (domain_glob env)"
  shows "list_all plain_pattern (unwrap_or_default (denied_domains (cs_config s))) \<Longrightarrow>
       globset_matches_host_or_unscoped (deny_set s) h
         \<longleftrightarrow> some_pattern_matches (unwrap_or_default (denied_domains (cs_config s))) h"
    and "list_all plain_pattern (unwrap_or_default (allowed_domains (cs_config s))) \<Longrightarrow>
       globset_matches_host_or_unscoped (allow_set s) h
         \<longleftrightarrow> some_pattern_matches (unwrap_or_default (allowed_domains (cs_config s))) h"
  using assms compiled_set_decides
  by (auto simp: state_ok_def compile_denylist_globset_def compile_allowlist_globset_def)

text \<open>Where a connection to a host may end up, as far as the check can tell.\<close>

definition resolves_to_public ::
  "(rstr \<Rightarrow> 16 word \<Rightarrow> IpAddr list option) \<Rightarrow> Host \<Rightarrow> 16 word \<Rightarrow> bool" where
  "resolves_to_public lookup h port =
     (case parse_ip h of Some ip \<Rightarrow> \<not> is_non_public_ip ip
      | None \<Rightarrow> (case lookup h port of None \<Rightarrow> False | Some addrs \<Rightarrow> list_all (\<lambda>a. \<not> is_non_public_ip a) addrs))"

lemma host_allowed_iff:
  fixes s :: "('json, 'm) ConfigState"
  defines "allowed \<equiv> unwrap_or_default (allowed_domains (cs_config s))"
    and "denied \<equiv> unwrap_or_default (denied_domains (cs_config s))"
  assumes "state_ok env s" "glob_laws (domain_glob env)" "list_all plain_pattern allowed" "list_all plain_pattern denied"
  shows "host_blocked lookup s host port = Allowed \<longleftrightarrow>
     (\<exists>h. host_parse host = Inr h \<and> some_pattern_matches allowed h \<and> \<not> some_pattern_matches denied h
        \<and> (nc_allow_local_binding (cs_config s)
           \<or> (if is_local_literal h then is_explicit_local_allowlisted allowed h else resolves_to_public lookup h port)))"
proof (cases "host_parse host")
  case (Inl e)
  then show ?thesis by (simp add: host_blocked_def)
next
  case (Inr h)
  have public: "host_resolves_to_non_public_ip lookup h port \<longleftrightarrow> \<not> resolves_to_public lookup h port"
    by (auto simp: host_resolves_to_non_public_ip_def resolves_to_public_def list_ex_iff list_all_iff split: option.split)
  have none: "allowed_domains (cs_config s) = None \<Longrightarrow> \<not> some_pattern_matches allowed h"
    by (simp add: allowed_def some_pattern_matches_def unwrap_or_default_def)
  show ?thesis
    using Inr none state_sets_decide [OF assms(3,4)] assms(5,6)
    by (auto simp: host_blocked_def Let_def public allowed_def denied_def)
qed

text \<open>An update keeps the entry it adds: building the state never drops a denial.\<close>

lemma built_config: "build_config_state env cfg c = Inr s \<Longrightarrow> cs_config s = fst (broker_config cfg c)"
  by (auto simp: build_config_state_def bind_result_Inr Let_def split_beta)

lemma broker_config_denials: "has_entry (fst (broker_config cfg c)) p PermDeny \<longleftrightarrow> has_entry cfg p PermDeny"
  by (simp add: broker_config_def Let_def denied_after_allowing)

lemma denied_update_blocks:
  assumes "update_domain_list env host DenyList s = Inr (Some s')" "length (blocked s) \<le> MAX_BLOCKED_EVENTS"
    and "host_parse host = Inr h" "pattern_matches h h"
    and "glob_laws (domain_glob env)" "list_all plain_pattern (unwrap_or_default (denied_domains (cs_config s')))"
  shows "host_blocked lookup s' host port = Blocked Denied"
proof -
  from assms(1,3) obtain built
    where built: "build_config_state env (upsert_domain_permission h PermDeny normalize_host (cs_config s))
           (cs_constraints s) = Inr built"
      and s': "s' = built\<lparr>blocked := blocked s, blocked_total := blocked_total s\<rparr>"
    by (elim update_domain_list_Some) auto
  have "has_entry (upsert_domain_permission h PermDeny normalize_host (cs_config s)) h PermDeny"
    by (simp add: has_entry_def upsert_domain_permission_def Let_def)
  then have "has_entry (cs_config s') h PermDeny"
    by (simp add: s' built_config [OF built] broker_config_denials)
  then have "some_pattern_matches (unwrap_or_default (denied_domains (cs_config s'))) h"
    using assms(4) unfolding denied_domains_iff [symmetric]
    by (auto simp: some_pattern_matches_def host_names_def list_ex_iff)
  then have "globset_matches_host_or_unscoped (deny_set s') h"
    using state_sets_decide(1) [OF updated_ok(1) [OF assms(1,2)] assms(5,6)] by simp
  then show ?thesis by (simp add: host_blocked_def assms(3) Let_def)
qed

section \<open>An example\<close>

definition sample_glob :: "rstr \<Rightarrow> (rstr \<Rightarrow> bool) option" where
  "sample_glob c =
     (if c = [star] then Some (\<lambda>_. True)
      else case strip_prefix (lit ''?*.'') c of Some d \<Rightarrow> Some (\<lambda>h. subdomain_of h d)
           | None \<Rightarrow> Some (\<lambda>h. to_ascii_lowercase h = to_ascii_lowercase c))"

lemma sample_glob_laws: "glob_laws sample_glob"
proof -
  have "d \<noteq> [star] \<and> strip_prefix (lit ''?*.'') d = None" if "literal_domain d" for d
    using that by (cases d) (auto simp: literal_domain_def lit_def)
  moreover have "lit ''?*.'' @ d \<noteq> [star]" for d by (simp add: lit_def)
  ultimately show ?thesis by (simp add: glob_laws_def sample_glob_def)
qed

definition sample_env :: "unit NetEnv" where
  "sample_env =
     \<lparr>mitm_env = \<lparr>header_name = Some, header_value = Some, glob_with = (\<lambda>_ c. Some (\<lambda>h. h = c)),
                  form_parse = (\<lambda>_. []), resolve_env_var = (\<lambda>_. None), read_secret_file = (\<lambda>_. None)\<rparr>,
      domain_glob = sample_glob, url_host = Some, mitm_state_new = (\<lambda>_. Some ())\<rparr>"

definition sample_config :: "unit NetworkProxyConfig" where
  "sample_config = default_network_proxy_config\<lparr>domains := Some
     [\<lparr>ne_pattern = lit ''*.example.com'', ne_permission = PermAllow\<rparr>,
      \<lparr>ne_pattern = lit ''bad.example.com'', ne_permission = PermDeny\<rparr>]\<rparr>"

definition sample_state :: "(unit, unit) ConfigState" where
  "sample_state = projr (build_config_state sample_env sample_config default_constraints)"

lemma sample_reloaded: "reloaded sample_env sample_state"
proof -
  have "is_ok (validate_policy_against_constraints sample_env sample_config default_constraints)" by code_simp
  moreover have "is_ok (build_config_state sample_env sample_config default_constraints)" by code_simp
  then have "build_config_state sample_env sample_config default_constraints = Inr sample_state"
    by (auto simp: sample_state_def is_ok_iff)
  ultimately show ?thesis by (auto simp: reloaded_def)
qed

section \<open>Properties\<close>

text \<open>C31: whatever operations run and in whatever order their reads and writes interleave, the
  configuration in force stays within the managed constraints, the sets and hooks in force are
  those compiled from it, and no more than 200 blocked requests are kept.\<close>

theorem proxy_respects_constraints:
  assumes "reloaded env start" "(proxy_step env)\<^sup>*\<^sup>* (start, \<lambda>_. Idle) (s, ts)"
  shows "within_constraints env (cs_config s) (cs_constraints s)
     \<and> compile_denylist_globset (domain_glob env) (unwrap_or_default (denied_domains (cs_config s))) = Inr (deny_set s)
     \<and> compile_allowlist_globset (domain_glob env) (unwrap_or_default (allowed_domains (cs_config s))) = Inr (allow_set s)
     \<and> compile_mitm_hooks (mitm_env env) (cs_config s) = Inr (cs_mitm_hooks s)
     \<and> length (blocked s) \<le> MAX_BLOCKED_EVENTS"
  using proxy_reachable_inv [OF assms] by (simp add: proxy_inv_def state_ok_def)

definition sample_update :: "(unit, unit) ConfigState" where
  "sample_update = the (projr (update_domain_list sample_env (lit ''API.example.com:443'') DenyList sample_state))"

lemma some_updateE:
  assumes "opt_is_some_and (\<lambda>r. case r of None \<Rightarrow> False | Some _ \<Rightarrow> True) (case u of Inl _ \<Rightarrow> None | Inr r \<Rightarrow> Some r)"
  obtains r where "u = Inr (Some r)"
  using assms by (auto split: sum.splits option.splits)

lemma sample_update_eq:
  "update_domain_list sample_env (lit ''API.example.com:443'') DenyList sample_state = Inr (Some sample_update)"
proof -
  have "opt_is_some_and (\<lambda>r. case r of None \<Rightarrow> False | Some _ \<Rightarrow> True)
     (case update_domain_list sample_env (lit ''API.example.com:443'') DenyList sample_state of
        Inl _ \<Rightarrow> None | Inr r \<Rightarrow> Some r)"
    by code_simp
  then obtain r where "update_domain_list sample_env (lit ''API.example.com:443'') DenyList sample_state = Inr (Some r)"
    by (elim some_updateE)
  then show ?thesis by (simp add: sample_update_def)
qed

lemma sample_proxy_run: "(proxy_step sample_env)\<^sup>*\<^sup>* (sample_state, \<lambda>_. Idle) (sample_update, \<lambda>_. Idle)"
proof -
  let ?ts = "(\<lambda>_. Idle)(0 := Updating (cs_config sample_state) (cs_constraints sample_state) sample_update)"
  have read: "proxy_step sample_env (sample_state, \<lambda>_. Idle) (sample_state, ?ts)"
    by (rule proxy_step.update_read [OF _ sample_update_eq]) simp
  have idle: "?ts(0 := Idle) = (\<lambda>_. Idle)" by (rule ext) simp
  have "proxy_step sample_env (sample_state, ?ts) (sample_update, ?ts(0 := Idle))"
    by (rule proxy_step.update_write [where i = 0 and cfg = "cs_config sample_state" and c = "cs_constraints sample_state"])
      simp_all
  then have "proxy_step sample_env (sample_state, ?ts) (sample_update, \<lambda>_. Idle)" unfolding idle .
  with read show ?thesis by (rule converse_rtranclp_into_rtranclp [OF _ r_into_rtranclp])
qed

theorem proxy_respects_constraints_witness:
  "within_constraints sample_env (cs_config sample_update) (cs_constraints sample_update)
   \<and> length (blocked sample_update) \<le> MAX_BLOCKED_EVENTS"
  using proxy_respects_constraints [OF sample_reloaded sample_proxy_run] by blast



text \<open>Once \<open>add_denied_domain\<close> has written its update, the host it was given is denied, by
  whatever form of the name it is requested, provided the name stored for it matches itself.\<close>

theorem denied_domain_is_blocked:
  assumes "state_ok env s" "update_domain_list env host DenyList s = Inr (Some s')"
    and "host_parse host = Inr h" "host_parse request = Inr h" "pattern_matches h h"
    and "glob_laws (domain_glob env)" "list_all plain_pattern (unwrap_or_default (denied_domains (cs_config s')))"
  shows "host_blocked lookup s' request port = Blocked Denied"
proof -
  have "length (blocked s) \<le> MAX_BLOCKED_EVENTS" using assms(1) unfolding state_ok_def by blast
  from denied_update_blocks [OF assms(2) this assms(3,5,6,7)]
  have "host_blocked lookup s' host port = Blocked Denied" .
  then show ?thesis using assms(3,4) by (simp add: host_blocked_def)
qed

theorem denied_domain_is_blocked_witness:
  "host_blocked (\<lambda>_ _. None) sample_update (lit ''api.example.com'') 80 = Blocked Denied"
proof (rule denied_domain_is_blocked [OF reloaded_ok [OF sample_reloaded] sample_update_eq])
  show "host_parse (lit ''API.example.com:443'') = Inr (lit ''api.example.com'')" by code_simp
  show "host_parse (lit ''api.example.com'') = Inr (lit ''api.example.com'')" by code_simp
  show "pattern_matches (lit ''api.example.com'') (lit ''api.example.com'')" by code_simp
  show "glob_laws (domain_glob sample_env)" using sample_glob_laws by (simp add: sample_env_def)
  show "list_all plain_pattern (unwrap_or_default (denied_domains (cs_config sample_update)))" by code_simp
qed

end
