(* ===== verification/Path_Uri.thy ===== *)
theory Path_Uri
  imports Stream_Utf8 "HOL-Library.Sublist"
begin

text \<open>
  Paths as \<open>file:\<close> URIs (\<open>utils/path-uri/src/lib.rs\<close>, \<open>absolute_path_normalization.rs\<close> and the
  rendering of \<open>api_path_string.rs\<close>): a path of an executor, which may run on another system than
  the program, is looked at by its segments only.

  The type \<open>Url\<close> of the package \<open>url\<close> is, for a \<open>file:\<close> URL, its host and the segments of its
  path, percent-encoded; \<open>pop\<close> and \<open>pop_if_empty\<close> on the segments are as documented there. Adding a
  segment, which encodes it, setting a host, percent-decoding (package \<open>urlencoding\<close>) and base64 are
  the parameters of the record \<open>UriEnv\<close>. Two URLs are equal when their texts are, which is equality
  of host and segments.
\<close>

section \<open>URLs\<close>

datatype PathConvention = Posix | Windows

record Url =
  url_host :: "rstr option"
  url_segments :: "rstr list"

type_synonym PathUri = Url

record UriEnv =
  decode_binary :: "int list \<Rightarrow> int list"
  base64_decode :: "rstr \<Rightarrow> int list option"
  base64_encode :: "int list \<Rightarrow> rstr"
  push_segment :: "rstr \<Rightarrow> Url \<Rightarrow> Url"
  set_host :: "rstr \<Rightarrow> Url \<Rightarrow> Url option"

definition url_path :: "Url \<Rightarrow> rstr" where
  "url_path u = concat (map (\<lambda>s. 47 # s) (url_segments u))"

definition url_str :: "Url \<Rightarrow> rstr" where
  "url_str u = lit ''file://'' @ (case url_host u of None \<Rightarrow> [] | Some h \<Rightarrow> h) @ url_path u"

definition url_pop :: "Url \<Rightarrow> Url" where
  "url_pop u =
     (if length (url_segments u) \<le> 1 then u\<lparr>url_segments := [[]]\<rparr>
      else u\<lparr>url_segments := butlast (url_segments u)\<rparr>)"

definition url_pop_if_empty :: "Url \<Rightarrow> Url" where
  "url_pop_if_empty u =
     (if 1 < length (url_segments u) \<and> last (url_segments u) = []
      then u\<lparr>url_segments := butlast (url_segments u)\<rparr> else u)"

definition segment_count :: "Url \<Rightarrow> nat" where
  "segment_count u = length (filter (\<lambda>s. s \<noteq> []) (url_segments u))"

text \<open>\<open>urlencoding::decode\<close>: percent-decoding to a string, if it is one.\<close>

definition uri_decode :: "UriEnv \<Rightarrow> rstr \<Rightarrow> rstr option" where
  "uri_decode env s = (case from_utf8 (decode_binary env (into_bytes s)) of Inl _ \<Rightarrow> None | Inr t \<Rightarrow> Some t)"

definition decode_uri_path :: "UriEnv \<Rightarrow> rstr \<Rightarrow> rstr" where
  "decode_uri_path env path = (case uri_decode env path of Some s \<Rightarrow> s | None \<Rightarrow> path)"

section \<open>Opaque paths and conventions\<close>

definition BAD_PATH_URI_PREFIX :: rstr where
  "BAD_PATH_URI_PREFIX = lit ''file:///%00/bad/path/''"

definition decode_bad_path_uri :: "UriEnv \<Rightarrow> Url \<Rightarrow> int list option" where
  "decode_bad_path_uri env u =
     (case strip_prefix BAD_PATH_URI_PREFIX (url_str u) of None \<Rightarrow> None
      | Some encoded_path \<Rightarrow>
          if encoded_path = [] \<or> 47 \<in> set encoded_path then None
          else case base64_decode env encoded_path of None \<Rightarrow> None
               | Some path_bytes \<Rightarrow> if base64_encode env path_bytes = encoded_path then Some path_bytes else None)"

definition is_opaque :: "UriEnv \<Rightarrow> PathUri \<Rightarrow> bool" where
  "is_opaque env u \<longleftrightarrow> decode_bad_path_uri env u \<noteq> None"

definition from_opaque_path_bytes :: "UriEnv \<Rightarrow> int list \<Rightarrow> PathUri" where
  "from_opaque_path_bytes env path_bytes =
     \<lparr>url_host = None, url_segments = [lit ''%00'', lit ''bad'', lit ''path'', base64_encode env path_bytes]\<rparr>"

fun is_windows_drive_uri_segment :: "rstr \<Rightarrow> bool" where
  "is_windows_drive_uri_segment [drive, c] = (is_ascii_alphabetic drive \<and> c = 58)"
| "is_windows_drive_uri_segment [drive, c, d, e] =
     (is_ascii_alphabetic drive \<and> c = 37 \<and> d = 51 \<and> (e = 65 \<or> e = 97))"
| "is_windows_drive_uri_segment _ = False"

definition first_segment :: "Url \<Rightarrow> rstr option" where
  "first_segment u = find (\<lambda>s. s \<noteq> []) (url_segments u)"

fun wide_units :: "int list \<Rightarrow> int list" where
  "wide_units (a # b # bs) = (a + 256 * b) # wide_units bs"
| "wide_units _ = []"

definition infer_opaque_path_convention :: "int list \<Rightarrow> PathConvention option" where
  "infer_opaque_path_convention path_bytes =
     (if starts_with [47] path_bytes then Some Posix
      else if odd (length path_bytes) then None
      else case wide_units path_bytes of
             first # second # _ \<Rightarrow>
               let has_drive = first < 256 \<and> is_ascii_alphabetic first \<and> second = 58;
                   has_unc_prefix = first = 92 \<and> second = 92
               in if has_drive \<or> has_unc_prefix then Some Windows else None
           | _ \<Rightarrow> None)"

definition infer_path_convention :: "UriEnv \<Rightarrow> PathUri \<Rightarrow> PathConvention option" where
  "infer_path_convention env u =
     (case decode_bad_path_uri env u of Some path_bytes \<Rightarrow> infer_opaque_path_convention path_bytes
      | None \<Rightarrow>
          if url_host u \<noteq> None then Some Windows
          else if opt_is_some_and is_windows_drive_uri_segment (first_segment u) then Some Windows
          else Some Posix)"

text \<open>\<open>PathUri\<close>'s own equality: Windows paths differ in case and spelling only.\<close>

definition windows_identity_path_bytes :: "UriEnv \<Rightarrow> PathUri \<Rightarrow> int list option" where
  "windows_identity_path_bytes env u =
     (if infer_path_convention env u \<noteq> Some Windows \<or> decode_bad_path_uri env u \<noteq> None
         \<or> list_ex (\<lambda>s. list_ex (\<lambda>b. b = 47 \<or> b = 92) (decode_binary env (into_bytes s))) (url_segments u)
      then None else Some (decode_binary env (into_bytes (url_path u))))"

definition uri_eq :: "UriEnv \<Rightarrow> PathUri \<Rightarrow> PathUri \<Rightarrow> bool" where
  "uri_eq env u v \<longleftrightarrow>
     u = v
     \<or> (case (windows_identity_path_bytes env u, windows_identity_path_bytes env v) of
          (Some p, Some q) \<Rightarrow> url_host u = url_host v \<and> eq_ignore_ascii_case p q
        | _ \<Rightarrow> False)"

section \<open>Containment\<close>

definition containment_path_segments :: "UriEnv \<Rightarrow> Url \<Rightarrow> PathConvention \<Rightarrow> rstr list option" where
  "containment_path_segments env u convention =
     (let segments = filter (\<lambda>s. s \<noteq> []) (url_segments u)
      in if list_ex (\<lambda>s. list_ex (\<lambda>b. b = 47 \<or> convention = Windows \<and> b = 92) (decode_binary env (into_bytes s))) segments
         then None else Some segments)"

fun native_path_segments_start_with :: "UriEnv \<Rightarrow> rstr list \<Rightarrow> rstr list \<Rightarrow> PathConvention \<Rightarrow> bool" where
  "native_path_segments_start_with env path_segments base_segments Posix =
     (length path_segments \<ge> length base_segments
      \<and> list_all (\<lambda>(path, base). decode_binary env (into_bytes path) = decode_binary env (into_bytes base))
          (zip path_segments base_segments))"
| "native_path_segments_start_with env path_segments base_segments Windows =
     (length path_segments \<ge> length base_segments
      \<and> list_all (\<lambda>(path, base). eq_ignore_ascii_case path base
            \<or> eq_ignore_ascii_case (decode_uri_path env path) (decode_uri_path env base))
          (zip path_segments base_segments))"

definition uri_starts_with :: "UriEnv \<Rightarrow> PathUri \<Rightarrow> PathUri \<Rightarrow> bool" where
  "uri_starts_with env u base =
     (if uri_eq env u base then True
      else if decode_bad_path_uri env u \<noteq> None \<or> decode_bad_path_uri env base \<noteq> None then False
      else if url_host u \<noteq> url_host base then False
      else if infer_path_convention env u \<noteq> infer_path_convention env base then False
      else let convention = (case infer_path_convention env u of Some c \<Rightarrow> c | None \<Rightarrow> Posix)
           in case (containment_path_segments env u convention, containment_path_segments env base convention) of
                (Some path_segments, Some base_segments) \<Rightarrow>
                  native_path_segments_start_with env path_segments base_segments convention
              | _ \<Rightarrow> False)"

definition lexical_depth :: "UriEnv \<Rightarrow> PathUri \<Rightarrow> nat option" where
  "lexical_depth env u =
     (if decode_bad_path_uri env u \<noteq> None then None
      else case infer_path_convention env u of None \<Rightarrow> None
           | Some convention \<Rightarrow> map_option length (containment_path_segments env u convention))"

definition overlaps :: "UriEnv \<Rightarrow> PathUri \<Rightarrow> PathUri \<Rightarrow> bool option" where
  "overlaps env u v =
     (if uri_eq env u v then Some True
      else if lexical_depth env u = None \<or> lexical_depth env v = None then None
      else Some (uri_starts_with env u v \<or> uri_starts_with env v u))"

definition relative_path_from :: "UriEnv \<Rightarrow> PathUri \<Rightarrow> PathUri \<Rightarrow> rstr option" where
  "relative_path_from env u base =
     (if uri_eq env u base then Some []
      else if decode_bad_path_uri env u \<noteq> None \<or> decode_bad_path_uri env base \<noteq> None
              \<or> url_host u \<noteq> url_host base \<or> infer_path_convention env u \<noteq> infer_path_convention env base then None
      else case infer_path_convention env u of None \<Rightarrow> None
      | Some convention \<Rightarrow>
          (case (containment_path_segments env u convention, containment_path_segments env base convention) of
             (Some path_segments, Some base_segments) \<Rightarrow>
               if native_path_segments_start_with env path_segments base_segments convention
               then Some (join (case convention of Posix \<Rightarrow> [47] | Windows \<Rightarrow> [92])
                      (map (decode_uri_path env) (drop (length base_segments) path_segments)))
               else None
           | _ \<Rightarrow> None))"

definition basename :: "UriEnv \<Rightarrow> PathUri \<Rightarrow> rstr option" where
  "basename env u =
     (if decode_bad_path_uri env u \<noteq> None then None
      else map_option (decode_uri_path env) (find (\<lambda>s. s \<noteq> []) (rev (url_segments u))))"

section \<open>Parents\<close>

definition anchor_depth :: "PathConvention \<Rightarrow> nat" where
  "anchor_depth convention = (if convention = Windows then 1 else 0)"

definition parent :: "UriEnv \<Rightarrow> PathUri \<Rightarrow> PathUri option" where
  "parent env u =
     (if decode_bad_path_uri env u \<noteq> None then None
      else case infer_path_convention env u of None \<Rightarrow> None
           | Some convention \<Rightarrow>
               if segment_count u \<le> anchor_depth convention then None else Some (url_pop (url_pop_if_empty u)))"

definition url_size :: "Url \<Rightarrow> nat" where
  "url_size u = length (url_segments u) + (if segment_count u = 0 then 0 else 1)"

lemma segment_count_pop_if_empty [simp]: "segment_count (url_pop_if_empty u) = segment_count u"
proof (cases "url_segments u" rule: rev_cases)
  case (snoc ss s)
  then show ?thesis by (simp add: segment_count_def url_pop_if_empty_def)
qed (simp add: url_pop_if_empty_def)

lemma url_pop_smaller: "0 < segment_count u \<Longrightarrow> url_size (url_pop u) < url_size u"
proof -
  assume pos: "0 < segment_count u"
  then have "url_segments u \<noteq> []" by (auto simp: segment_count_def)
  then have "length (url_segments (url_pop u)) + segment_count (url_pop u) * 0 \<le> length (url_segments u)" by (simp add: url_pop_def Suc_le_eq)
  moreover have "length (url_segments u) = 1 \<Longrightarrow> segment_count (url_pop u) = 0"
    by (simp add: url_pop_def segment_count_def)
  moreover have "length (url_segments u) \<noteq> 1 \<Longrightarrow> length (url_segments (url_pop u)) < length (url_segments u)"
    using \<open>url_segments u \<noteq> []\<close> by (cases "url_segments u") (auto simp: url_pop_def)
  ultimately show ?thesis using pos by (cases "length (url_segments u) = 1") (auto simp: url_size_def)
qed

lemma url_size_pop_if_empty: "url_size (url_pop_if_empty u) \<le> url_size u"
  using segment_count_pop_if_empty [of u] unfolding url_size_def
  by (simp add: url_pop_if_empty_def)

lemma parent_smaller: "parent env u = Some v \<Longrightarrow> url_size v < url_size u"
  using url_pop_smaller [of "url_pop_if_empty u"] url_size_pop_if_empty [of u]
  by (auto simp: parent_def split: if_splits option.splits)

text \<open>\<open>successors(Some(self), parent)\<close>.\<close>

function ancestors :: "UriEnv \<Rightarrow> PathUri \<Rightarrow> PathUri list" where
  "ancestors env u = u # (case parent env u of None \<Rightarrow> [] | Some v \<Rightarrow> ancestors env v)"
  by auto
termination by (relation "measure (\<lambda>(_, u). url_size u)") (auto dest: parent_smaller)

declare ancestors.simps [simp del]

section \<open>Native paths\<close>

datatype PathUriParseError = InvalidFileUriPath rstr | JoinPathMustBeDescendant rstr

fun capitalize_drive :: "rstr list \<Rightarrow> rstr list" where
  "capitalize_drive ([] # ss) = [] # capitalize_drive ss"
| "capitalize_drive ((drive # s) # ss) = (to_ascii_upper drive # s) # ss"
| "capitalize_drive [] = []"

definition with_normalized_windows_drive_letter :: "Url \<Rightarrow> Url" where
  "with_normalized_windows_drive_letter u =
     (if url_host u \<noteq> None then u
      else case first_segment u of None \<Rightarrow> u
           | Some drive \<Rightarrow>
               if \<not> is_windows_drive_uri_segment drive \<or> 65 \<le> hd drive \<and> hd drive \<le> 90 then u
               else u\<lparr>url_segments := capitalize_drive (url_segments u)\<rparr>)"

definition without_localhost_authority :: "Url \<Rightarrow> Url" where
  "without_localhost_authority u = (if url_host u = Some (lit ''localhost'') then u\<lparr>url_host := None\<rparr> else u)"

text \<open>\<open>PathUri::try_from\<close>; a URL made from the path of another has no query, port or password.\<close>

definition uri_try_from :: "UriEnv \<Rightarrow> Url \<Rightarrow> PathUriParseError + PathUri" where
  "uri_try_from env u =
     (if 0 \<in> set (decode_binary env (into_bytes (url_path u))) \<and> decode_bad_path_uri env u = None
      then Inl (InvalidFileUriPath (url_str u))
      else Inr (with_normalized_windows_drive_letter (without_localhost_authority u)))"

fun normalize_segments :: "nat \<Rightarrow> rstr list \<Rightarrow> nat \<Rightarrow> rstr list \<Rightarrow> bool \<Rightarrow> nat \<times> rstr list \<times> bool" where
  "normalize_segments anchor [] depth normalized trailing = (depth, normalized, trailing)"
| "normalize_segments anchor (segment # segments) depth normalized trailing =
     (if segment = [] then normalize_segments anchor segments depth normalized True
      else if segment = lit ''.'' then normalize_segments anchor segments depth normalized False
      else if segment = lit ''..'' then
        (if anchor < depth then normalize_segments anchor segments (depth - 1) (butlast normalized) False
         else normalize_segments anchor segments depth normalized False)
      else normalize_segments anchor segments (depth + 1) (normalized @ [segment]) False)"

definition path_uri_from_segments ::
  "UriEnv \<Rightarrow> PathConvention \<Rightarrow> rstr option \<Rightarrow> rstr list \<Rightarrow> PathUri option" where
  "path_uri_from_segments env convention host segments =
     (let u = \<lparr>url_host = None, url_segments = [[]]\<rparr>
      in case (case host of None \<Rightarrow> Some u | Some h \<Rightarrow> set_host env h u) of None \<Rightarrow> None
         | Some u \<Rightarrow>
             let anchor = anchor_depth convention;
                 (depth, normalized, trailing) = normalize_segments anchor segments 0 [] False;
                 normalized = (if trailing \<or> convention = Windows \<and> host = None \<and> depth = anchor
                               then normalized @ [[]] else normalized)
             in case uri_try_from env (fold (push_segment env) normalized (u\<lparr>url_segments := [[]]\<rparr>)) of
                  Inl _ \<Rightarrow> None | Inr v \<Rightarrow> Some v)"

definition parse_posix_path :: "UriEnv \<Rightarrow> rstr \<Rightarrow> PathUri option" where
  "parse_posix_path env path =
     (case strip_prefix (lit ''/'') path of None \<Rightarrow> None
      | Some path \<Rightarrow>
          if 0 \<in> set path then Some (from_opaque_path_bytes env (into_bytes (lit ''/'' @ path)))
          else path_uri_from_segments env Posix None (split_char 47 path))"

definition is_windows_separator :: "int \<Rightarrow> bool" where
  "is_windows_separator c \<longleftrightarrow> c = 92 \<or> c = 47"

definition split_windows :: "rstr \<Rightarrow> rstr list" where
  "split_windows path = split_char 47 (map (\<lambda>c. if c = 92 then 47 else c) path)"

definition encode_utf16 :: "rstr \<Rightarrow> int list" where
  "encode_utf16 s = concat (map (\<lambda>c. if c < 65536 then [c]
     else [55296 + (c - 65536) div 1024, 56320 + (c - 65536) mod 1024]) s)"

definition windows_opaque_path_uri :: "UriEnv \<Rightarrow> rstr \<Rightarrow> PathUri" where
  "windows_opaque_path_uri env path =
     from_opaque_path_bytes env (concat (map (\<lambda>u. [u mod 256, u div 256]) (encode_utf16 path)))"

definition is_windows_drive_absolute_path :: "rstr \<Rightarrow> bool" where
  "is_windows_drive_absolute_path path =
     (case path of drive # c # sep # _ \<Rightarrow> is_ascii_alphabetic drive \<and> c = 58 \<and> is_windows_separator sep | _ \<Rightarrow> False)"

definition normalize_windows_device_path :: "rstr \<Rightarrow> rstr option" where
  "normalize_windows_device_path path =
     (case strip_prefix ([92, 92, 63, 92] @ lit ''UNC'' @ [92]) path of Some unc \<Rightarrow> Some ([92, 92] @ unc)
      | None \<Rightarrow> (case strip_prefix ([92, 92, 46, 92] @ lit ''UNC'' @ [92]) path of Some unc \<Rightarrow> Some ([92, 92] @ unc)
      | None \<Rightarrow>
          let plain = (\<lambda>p. case strip_prefix p path of
                  Some rest \<Rightarrow> if is_windows_drive_absolute_path rest then Some rest else None | None \<Rightarrow> None)
          in case plain [92, 92, 63, 92] of Some rest \<Rightarrow> Some rest | None \<Rightarrow> plain [92, 92, 46, 92]))"

definition uses_namespace :: "rstr \<Rightarrow> bool" where
  "uses_namespace path =
     (case path of a # b # n # c # _ \<Rightarrow> is_windows_separator a \<and> is_windows_separator b
          \<and> (n = 46 \<or> n = 63) \<and> is_windows_separator c
      | _ \<Rightarrow> False)"

definition starts_with_two_separators :: "rstr \<Rightarrow> bool" where
  "starts_with_two_separators path =
     (case path of a # b # _ \<Rightarrow> is_windows_separator a \<and> is_windows_separator b | _ \<Rightarrow> False)"

definition parse_unnormalized_windows_path :: "UriEnv \<Rightarrow> rstr \<Rightarrow> PathUri option" where
  "parse_unnormalized_windows_path env path =
     (if uses_namespace path \<or> 0 \<in> set path then Some (windows_opaque_path_uri env path)
      else if is_windows_drive_absolute_path path then
        path_uri_from_segments env Windows None (take 2 path # split_windows (drop 3 path))
      else if starts_with_two_separators path then
        (case split_windows (drop 2 path) of
           host # share # components \<Rightarrow>
             if host = [] \<or> share = [] then None
             else (case path_uri_from_segments env Windows (Some host) (share # components) of
                     Some u \<Rightarrow> Some u | None \<Rightarrow> Some (windows_opaque_path_uri env path))
         | _ \<Rightarrow> None)
      else None)"

text \<open>The first two components of a UNC path name a server and a share.\<close>

definition unc_names_missing :: "rstr \<Rightarrow> bool" where
  "unc_names_missing unc_path =
     (let bad = (\<lambda>c. c = [] \<or> c = lit ''.'' \<or> c = lit ''..'')
      in case split_windows unc_path of a # b # _ \<Rightarrow> bad a \<or> bad b | _ \<Rightarrow> True)"

definition parse_windows_path :: "UriEnv \<Rightarrow> rstr \<Rightarrow> PathUri option" where
  "parse_windows_path env path =
     (case normalize_windows_device_path path of
        None \<Rightarrow> parse_unnormalized_windows_path env path
      | Some normalized_path \<Rightarrow>
          if opt_is_some_and unc_names_missing (strip_prefix [92, 92] normalized_path)
          then Some (windows_opaque_path_uri env path)
          else (case parse_unnormalized_windows_path env normalized_path of
                  None \<Rightarrow> Some (windows_opaque_path_uri env path)
                | Some u \<Rightarrow>
                    if infer_path_convention env u = Some Windows \<and> decode_bad_path_uri env u = None
                       \<and> (\<not> starts_with [92, 92] normalized_path \<or> opt_is_some_and (\<lambda>h. h \<noteq> []) (url_host u))
                    then Some u else Some (windows_opaque_path_uri env path)))"

definition from_absolute_native_path :: "UriEnv \<Rightarrow> rstr \<Rightarrow> PathConvention \<Rightarrow> PathUri option" where
  "from_absolute_native_path env path convention =
     (case (case convention of Posix \<Rightarrow> parse_posix_path env path | Windows \<Rightarrow> parse_windows_path env path) of
        None \<Rightarrow> None
      | Some u \<Rightarrow>
          if url_host u \<noteq> Some [] \<and> infer_path_convention env u = Some convention then Some u
          else Some (case convention of Posix \<Rightarrow> from_opaque_path_bytes env (into_bytes path)
                     | Windows \<Rightarrow> windows_opaque_path_uri env path))"

section \<open>Joining\<close>

fun join_components :: "UriEnv \<Rightarrow> nat \<Rightarrow> rstr list \<Rightarrow> Url \<Rightarrow> nat \<Rightarrow> Url" where
  "join_components env anchor [] u depth = u"
| "join_components env anchor (c # cs) u depth =
     (if c = [] \<or> c = lit ''.'' then join_components env anchor cs u depth
      else if c = lit ''..'' then
        (if anchor < depth then join_components env anchor cs (url_pop u) (depth - 1)
         else join_components env anchor cs u depth)
      else join_components env anchor cs (push_segment env c u) (depth + 1))"

text \<open>A path relative to a drive, without its drive when that is the drive of the base.\<close>

definition strip_drive :: "PathUri \<Rightarrow> PathConvention \<Rightarrow> rstr \<Rightarrow> PathUriParseError + rstr" where
  "strip_drive u convention path =
     (case path of
        drive # c # rest \<Rightarrow>
          if convention = Windows \<and> is_ascii_alphabetic drive \<and> c = 58 then
            (if opt_is_some_and (\<lambda>s. is_windows_drive_uri_segment s \<and> eq_ignore_ascii_case [hd s] [drive]) (first_segment u)
             then Inr rest else Inl (InvalidFileUriPath path))
          else Inr path
      | _ \<Rightarrow> Inr path)"

definition windows_root_relative :: "PathConvention \<Rightarrow> rstr \<Rightarrow> bool" where
  "windows_root_relative convention path \<longleftrightarrow>
     convention = Windows
     \<and> (case path of a # rest \<Rightarrow> is_windows_separator a
            \<and> (case rest of b # _ \<Rightarrow> \<not> is_windows_separator b | [] \<Rightarrow> True)
        | [] \<Rightarrow> False)"

definition uri_join :: "UriEnv \<Rightarrow> PathUri \<Rightarrow> rstr \<Rightarrow> PathUriParseError + PathUri" where
  "uri_join env u path =
     (if 0 \<in> set path then Inl (InvalidFileUriPath path)
      else if path = [] then Inr u
      else case infer_path_convention env u of None \<Rightarrow> Inl (InvalidFileUriPath (url_str u))
      | Some convention \<Rightarrow>
          (case from_absolute_native_path env path convention of Some absolute \<Rightarrow> Inr absolute
           | None \<Rightarrow>
               bind_result (strip_drive u convention path) (\<lambda>path.
                 if decode_bad_path_uri env u \<noteq> None then Inl (InvalidFileUriPath (url_str u))
                 else let anchor = anchor_depth convention;
                          depth = segment_count u;
                          start = url_pop_if_empty u;
                          (start, depth) = (if windows_root_relative convention path
                             then ((url_pop ^^ (depth - anchor)) start, min depth anchor) else (start, depth));
                          components = (case convention of Posix \<Rightarrow> split_char 47 path | Windows \<Rightarrow> split_windows path)
                      in uri_try_from env (join_components env anchor components start depth))))"

definition join_descendant :: "UriEnv \<Rightarrow> PathUri \<Rightarrow> rstr \<Rightarrow> PathUriParseError + PathUri" where
  "join_descendant env u path =
     bind_result (uri_join env u path) (\<lambda>descendant.
       let windows = infer_path_convention env u = Some Windows
       in if starts_with (lit ''/'') path
             \<or> windows \<and> (starts_with [92] path \<or> list_ex (\<lambda>s. 58 \<in> set s) (split_windows path))
             \<or> \<not> uri_starts_with env descendant u
          then Inl (JoinPathMustBeDescendant path) else Inr descendant)"

section \<open>Rendering\<close>

text \<open>\<open>String::from_utf8_lossy\<close> and \<open>from_utf16_lossy\<close>: an invalid sequence becomes U+FFFD.\<close>

lemma utf8_error_positive: "utf8_char bs = Inl (Some n) \<Longrightarrow> 0 < n"
  by (cases bs) (auto split: if_splits list.splits)

lemma utf8_scan_error:
  assumes "utf8_scan bs = (s, rest, Some (Some n))"
  shows "length (drop n rest) < length bs"
proof -
  from utf8_scan_prefix [OF assms] obtain a where a: "bs = a @ rest" "rest \<noteq> []"
    and rest: "utf8_scan rest = ([], rest, Some (Some n))"
    by auto
  from rest \<open>rest \<noteq> []\<close> have "0 < n"
    by (cases "utf8_char rest") (auto simp: utf8_scan_step intro: utf8_error_positive split: prod.splits)
  with a show ?thesis by (cases rest) auto
qed

function from_utf8_lossy :: "int list \<Rightarrow> rstr" where
  "from_utf8_lossy bs =
     (case utf8_scan bs of
        (s, rest, None) \<Rightarrow> s
      | (s, rest, Some None) \<Rightarrow> s @ [65533]
      | (s, rest, Some (Some n)) \<Rightarrow> s @ [65533] @ from_utf8_lossy (drop n rest))"
  by auto
termination by (relation "measure length") (auto dest!: sym [THEN utf8_scan_error])

declare from_utf8_lossy.simps [simp del]

fun from_utf16_lossy :: "int list \<Rightarrow> rstr" where
  "from_utf16_lossy [] = []"
| "from_utf16_lossy [u] = [if 55296 \<le> u \<and> u < 57344 then 65533 else u]"
| "from_utf16_lossy (u # v # us) =
     (if 55296 \<le> u \<and> u < 56320 \<and> 56320 \<le> v \<and> v < 57344
      then ((u - 55296) * 1024 + (v - 56320) + 65536) # from_utf16_lossy us
      else (if 55296 \<le> u \<and> u < 57344 then 65533 else u) # from_utf16_lossy (v # us))"

definition decode_native_segment :: "UriEnv \<Rightarrow> rstr \<Rightarrow> rstr" where
  "decode_native_segment env segment = from_utf8_lossy (decode_binary env (into_bytes segment))"

definition render_posix_path :: "UriEnv \<Rightarrow> PathUri \<Rightarrow> rstr option" where
  "render_posix_path env u =
     (if url_host u \<noteq> None then None
      else Some (concat (map (\<lambda>segment. 47 # decode_native_segment env segment) (url_segments u))))"

definition render_windows_path :: "UriEnv \<Rightarrow> PathUri \<Rightarrow> rstr option" where
  "render_windows_path env u =
     (case (case url_host u of
              Some host \<Rightarrow>
                (case url_segments u of [] \<Rightarrow> None
                 | share # segments \<Rightarrow>
                     let share = decode_native_segment env share
                     in if share = [] then None else Some ([92, 92] @ host @ [92] @ share, segments))
            | None \<Rightarrow>
                (case url_segments u of [] \<Rightarrow> None
                 | drive # segments \<Rightarrow>
                     let drive = decode_native_segment env drive
                     in case drive of [d, c] \<Rightarrow> if is_ascii_alphabetic d \<and> c = 58 then Some (drive, segments) else None
                        | _ \<Rightarrow> None)) of
        None \<Rightarrow> None
      | Some (start, segments) \<Rightarrow>
          let rendered = start @ concat (map (\<lambda>segment. 92 # decode_native_segment env segment) segments)
          in Some (case rendered of [d, c] \<Rightarrow> if c = 58 then rendered @ [92] else rendered | _ \<Rightarrow> rendered))"

definition render_windows_opaque_fallback :: "int list \<Rightarrow> rstr option" where
  "render_windows_opaque_fallback path_bytes =
     (if odd (length path_bytes) then None
      else let path_wide = wide_units path_bytes
           in if is_windows_drive_absolute_path path_wide \<or> starts_with_two_separators path_wide
              then Some (from_utf16_lossy path_wide) else None)"

definition from_path_uri :: "UriEnv \<Rightarrow> PathUri \<Rightarrow> PathConvention \<Rightarrow> rstr option" where
  "from_path_uri env u convention =
     (case decode_bad_path_uri env u of
        Some path_bytes \<Rightarrow>
          (case convention of
             Posix \<Rightarrow> if starts_with [47] path_bytes then Some (from_utf8_lossy path_bytes) else None
           | Windows \<Rightarrow> render_windows_opaque_fallback path_bytes)
      | None \<Rightarrow> (case convention of Posix \<Rightarrow> render_posix_path env u | Windows \<Rightarrow> render_windows_path env u))"

definition inferred_native_path_string :: "UriEnv \<Rightarrow> PathUri \<Rightarrow> rstr" where
  "inferred_native_path_string env u =
     (case infer_path_convention env u of None \<Rightarrow> url_str u
      | Some convention \<Rightarrow> (case from_path_uri env u convention of Some s \<Rightarrow> s | None \<Rightarrow> url_str u))"

section \<open>Containment of POSIX paths\<close>

text \<open>The names a path is made of, decoded.\<close>

definition path_names :: "UriEnv \<Rightarrow> PathUri \<Rightarrow> int list list" where
  "path_names env u = map (\<lambda>s. decode_binary env (into_bytes s)) (filter (\<lambda>s. s \<noteq> []) (url_segments u))"

definition posix_lexical :: "UriEnv \<Rightarrow> PathUri \<Rightarrow> bool" where
  "posix_lexical env u \<longleftrightarrow> infer_path_convention env u = Some Posix \<and> lexical_depth env u \<noteq> None"

lemma posix_lexicalD:
  assumes "posix_lexical env u"
  shows "decode_bad_path_uri env u = None" "url_host u = None" "infer_path_convention env u = Some Posix"
    "containment_path_segments env u Posix = Some (filter (\<lambda>s. s \<noteq> []) (url_segments u))"
    "lexical_depth env u = Some (length (path_names env u))"
  using assms
  by (auto simp: posix_lexical_def lexical_depth_def infer_path_convention_def path_names_def
      containment_path_segments_def Let_def split: if_splits option.splits)

lemma uri_eq_posix: "infer_path_convention env u = Some Posix \<Longrightarrow> uri_eq env u v \<longleftrightarrow> u = v"
  by (simp add: uri_eq_def windows_identity_path_bytes_def)

lemma uri_eq_refl [simp]: "uri_eq env u u"
  by (simp add: uri_eq_def)

lemma prefix_zip: "length bs \<le> length ps \<and> list_all (\<lambda>(p, b). f p = f b) (zip ps bs) \<longleftrightarrow> prefix (map f bs) (map f ps)"
proof (induction bs arbitrary: ps)
  case (Cons b bs)
  then show ?case by (cases ps) auto
qed simp

lemma uri_starts_with_prefix:
  assumes "posix_lexical env u" "posix_lexical env v"
  shows "uri_starts_with env u v \<longleftrightarrow> prefix (path_names env v) (path_names env u)"
proof -
  note u = posix_lexicalD [OF assms(1)] and v = posix_lexicalD [OF assms(2)]
  have "uri_starts_with env u v \<longleftrightarrow> u = v \<or> prefix (path_names env v) (path_names env u)"
    by (simp add: uri_starts_with_def uri_eq_posix [OF u(3)] u v path_names_def prefix_zip [symmetric] conj_commute)
  then show ?thesis by auto
qed

text \<open>An opaque path, or one with an encoded separator, contains itself only.\<close>

lemma starts_with_opaque:
  assumes "posix_lexical env u" "infer_path_convention env v = Some Posix" "lexical_depth env v = None"
  shows "\<not> uri_starts_with env u v"
proof -
  note u = posix_lexicalD [OF assms(1)]
  have "u \<noteq> v" using assms(1,3) by (auto simp: posix_lexical_def)
  then show ?thesis
    using assms(2,3)
    by (auto simp: uri_starts_with_def uri_eq_posix [OF u(3)] u lexical_depth_def split: if_splits option.split)
qed

end
