(* ===== verification/Sandbox_Policy.thy ===== *)
theory Sandbox_Policy
  imports Path_Uri
begin

text \<open>
  The file system part of a sandbox policy (\<open>protocol/src/permissions.rs\<close>): the entries of a policy,
  what they mean for the paths of an executor, and the access a path has. A path is looked up by
  its most specific entry; among entries for the same place a denial wins over a grant to write,
  and that over one to read.

  Parameters: those of URIs, the globs of the package \<open>globset\<close> (with the options that depend on the
  path convention), and the convention of the system the program runs on. Entries as they are
  serialized, and the adapters for paths of the local file system, which canonicalize them, are not
  modelled.
\<close>

section \<open>Types\<close>

datatype NetworkSandboxPolicy = NetworkRestricted | NetworkEnabled

datatype FileSystemAccessMode = AccessRead | AccessWrite | AccessDeny

text \<open>The derived order: \<open>Read < Write < Deny\<close>.\<close>

instantiation FileSystemAccessMode :: linorder
begin

fun access_rank :: "FileSystemAccessMode \<Rightarrow> nat" where
  "access_rank AccessRead = 0"
| "access_rank AccessWrite = 1"
| "access_rank AccessDeny = 2"

definition less_eq_FileSystemAccessMode :: "FileSystemAccessMode \<Rightarrow> FileSystemAccessMode \<Rightarrow> bool" where
  "a \<le> b \<longleftrightarrow> access_rank a \<le> access_rank b"

definition less_FileSystemAccessMode :: "FileSystemAccessMode \<Rightarrow> FileSystemAccessMode \<Rightarrow> bool" where
  "a < b \<longleftrightarrow> access_rank a < access_rank b"

instance
proof
  fix a b :: FileSystemAccessMode
  show "a \<le> b \<Longrightarrow> b \<le> a \<Longrightarrow> a = b"
    by (cases a; cases b) (simp_all add: less_eq_FileSystemAccessMode_def)
qed (auto simp: less_eq_FileSystemAccessMode_def less_FileSystemAccessMode_def)

end

definition can_read :: "FileSystemAccessMode \<Rightarrow> bool" where
  "can_read a \<longleftrightarrow> a \<noteq> AccessDeny"

definition can_write :: "FileSystemAccessMode \<Rightarrow> bool" where
  "can_write a \<longleftrightarrow> a = AccessWrite"

datatype FileSystemSpecialPath =
    SpecialRoot
  | Minimal
  | ProjectRoots "rstr option"
  | Tmpdir
  | SlashTmp
  | UnknownSpecial rstr "rstr option"

datatype FileSystemPath = Path PathUri | GlobPattern rstr | Special FileSystemSpecialPath

datatype MissingPathBehavior = Skip

record FileSystemSandboxEntry =
  en_path :: FileSystemPath
  en_access :: FileSystemAccessMode
  missing_path_behavior :: "MissingPathBehavior option"

definition new_entry :: "FileSystemPath \<Rightarrow> FileSystemAccessMode \<Rightarrow> FileSystemSandboxEntry" where
  "new_entry path access = \<lparr>en_path = path, en_access = access, missing_path_behavior = None\<rparr>"

definition skip_missing_path :: "FileSystemPath \<Rightarrow> FileSystemAccessMode \<Rightarrow> FileSystemSandboxEntry" where
  "skip_missing_path path access = \<lparr>en_path = path, en_access = access, missing_path_behavior = Some Skip\<rparr>"

definition skips_missing_path :: "FileSystemSandboxEntry \<Rightarrow> bool" where
  "skips_missing_path e \<longleftrightarrow> missing_path_behavior e = Some Skip"

datatype FileSystemSandboxKind = Restricted | Unrestricted | ExternalSandbox

record FileSystemSandboxPolicy =
  fp_kind :: FileSystemSandboxKind
  fp_glob_scan_max_depth :: "nat option"
  fp_entries :: "FileSystemSandboxEntry list"

record FileSystemSandboxPolicyContext =
  cwd :: PathUri
  workspace_roots :: "PathUri list"
  user_home_dir :: "PathUri option"
  temporary_directories :: "PathUri list option"

record PolicyEnv =
  uri_env :: UriEnv
  build_glob :: "PathConvention \<Rightarrow> rstr \<Rightarrow> (int list \<Rightarrow> bool) option"
  native_convention :: PathConvention

definition restricted :: "FileSystemSandboxEntry list \<Rightarrow> FileSystemSandboxPolicy" where
  "restricted entries = \<lparr>fp_kind = Restricted, fp_glob_scan_max_depth = None, fp_entries = entries\<rparr>"

definition read_only :: FileSystemSandboxPolicy where
  "read_only = restricted [new_entry (Special SpecialRoot) AccessRead]"

definition unrestricted :: FileSystemSandboxPolicy where
  "unrestricted = \<lparr>fp_kind = Unrestricted, fp_glob_scan_max_depth = None, fp_entries = []\<rparr>"

definition external_sandbox :: FileSystemSandboxPolicy where
  "external_sandbox = \<lparr>fp_kind = ExternalSandbox, fp_glob_scan_max_depth = None, fp_entries = []\<rparr>"

text \<open>The derived equality of entries compares paths with \<^const>\<open>uri_eq\<close>.\<close>

fun fs_path_eq :: "UriEnv \<Rightarrow> FileSystemPath \<Rightarrow> FileSystemPath \<Rightarrow> bool" where
  "fs_path_eq env (Path u) (Path v) = uri_eq env u v"
| "fs_path_eq env p q = (p = q)"

definition entry_eq :: "UriEnv \<Rightarrow> FileSystemSandboxEntry \<Rightarrow> FileSystemSandboxEntry \<Rightarrow> bool" where
  "entry_eq env e f \<longleftrightarrow> fs_path_eq env (en_path e) (en_path f) \<and> en_access e = en_access f
     \<and> missing_path_behavior e = missing_path_behavior f"

definition contains_entry :: "UriEnv \<Rightarrow> FileSystemSandboxEntry list \<Rightarrow> FileSystemSandboxEntry \<Rightarrow> bool" where
  "contains_entry env entries e \<longleftrightarrow> list_ex (\<lambda>x. entry_eq env x e) entries"

definition push_new :: "UriEnv \<Rightarrow> FileSystemSandboxEntry \<Rightarrow> FileSystemSandboxEntry list \<Rightarrow> FileSystemSandboxEntry list" where
  "push_new env e entries = (if contains_entry env entries e then entries else entries @ [e])"

definition remove_skip_missing_path_entries :: "FileSystemSandboxPolicy \<Rightarrow> FileSystemSandboxPolicy" where
  "remove_skip_missing_path_entries p = p\<lparr>fp_entries := filter (\<lambda>e. \<not> skips_missing_path e) (fp_entries p)\<rparr>"

section \<open>The paths of an entry\<close>

definition file_system_root :: "PolicyEnv \<Rightarrow> FileSystemSandboxPolicyContext \<Rightarrow> PathUri option" where
  "file_system_root env ctx =
     (if lexical_depth (uri_env env) (cwd ctx) = None then None
      else Some (last (ancestors (uri_env env) (cwd ctx))))"

definition ok_list :: "'e + 'a \<Rightarrow> 'a list" where
  "ok_list r = (case r of Inl _ \<Rightarrow> [] | Inr x \<Rightarrow> [x])"

fun special_paths :: "PolicyEnv \<Rightarrow> FileSystemSandboxPolicyContext \<Rightarrow> FileSystemSpecialPath \<Rightarrow> PathUri list" where
  "special_paths env ctx SpecialRoot = (case file_system_root env ctx of None \<Rightarrow> [] | Some r \<Rightarrow> [r])"
| "special_paths env ctx (ProjectRoots subpath) =
     concat (map (\<lambda>root. case subpath of Some s \<Rightarrow> ok_list (uri_join (uri_env env) root s) | None \<Rightarrow> [root])
       (workspace_roots ctx))"
| "special_paths env ctx Tmpdir = (case temporary_directories ctx of None \<Rightarrow> [] | Some ds \<Rightarrow> ds)"
| "special_paths env ctx SlashTmp =
     (if infer_path_convention (uri_env env) (cwd ctx) = Some Posix
      then ok_list (uri_join (uri_env env) (cwd ctx) (lit ''/tmp'')) else [])"
| "special_paths env ctx Minimal = []"
| "special_paths env ctx (UnknownSpecial _ _) = []"

fun entry_paths :: "PolicyEnv \<Rightarrow> FileSystemSandboxPolicyContext \<Rightarrow> FileSystemPath \<Rightarrow> PathUri list" where
  "entry_paths env ctx (Path u) = [u]"
| "entry_paths env ctx (GlobPattern _) = []"
| "entry_paths env ctx (Special value) = special_paths env ctx value"

definition resolved_entries ::
  "PolicyEnv \<Rightarrow> FileSystemSandboxPolicyContext \<Rightarrow> FileSystemSandboxEntry list
     \<Rightarrow> (PathUri \<times> FileSystemAccessMode) list" where
  "resolved_entries env ctx entries =
     concat (map (\<lambda>e. map (\<lambda>u. (u, en_access e))
       (filter (\<lambda>u. infer_path_convention (uri_env env) u = infer_path_convention (uri_env env) (cwd ctx))
         (entry_paths env ctx (en_path e)))) entries)"

section \<open>The access of a path\<close>

text \<open>\<open>try_fold\<close>: an opaque root is skipped, one with ambiguous segments spoils the whole.\<close>

fun with_depths ::
  "UriEnv \<Rightarrow> (PathUri \<times> FileSystemAccessMode) list \<Rightarrow> (PathUri \<times> FileSystemAccessMode \<times> nat) list option" where
  "with_depths env [] = Some []"
| "with_depths env ((root, access) # rest) =
     (case lexical_depth env root of
        Some depth \<Rightarrow> map_option (\<lambda>es. (root, access, depth) # es) (with_depths env rest)
      | None \<Rightarrow> if is_opaque env root then with_depths env rest else None)"

text \<open>\<open>max_by_key\<close> with the key \<open>(depth, access)\<close>.\<close>

definition key_le :: "nat \<times> FileSystemAccessMode \<Rightarrow> nat \<times> FileSystemAccessMode \<Rightarrow> bool" where
  "key_le k l \<longleftrightarrow> fst k < fst l \<or> fst k = fst l \<and> snd k \<le> snd l"

fun max_key :: "(nat \<times> FileSystemAccessMode) list \<Rightarrow> (nat \<times> FileSystemAccessMode) option" where
  "max_key [] = None"
| "max_key (k # ks) = (case max_key ks of None \<Rightarrow> Some k | Some l \<Rightarrow> if key_le k l then Some l else Some k)"

definition resolve_access ::
  "PolicyEnv \<Rightarrow> FileSystemSandboxPolicy \<Rightarrow> PathUri \<Rightarrow> FileSystemSandboxPolicyContext \<Rightarrow> FileSystemAccessMode" where
  "resolve_access env policy path ctx =
     (case fp_kind policy of
        Unrestricted \<Rightarrow> AccessWrite
      | ExternalSandbox \<Rightarrow> AccessWrite
      | Restricted \<Rightarrow>
          (case infer_path_convention (uri_env env) (cwd ctx) of None \<Rightarrow> AccessDeny
           | Some convention \<Rightarrow>
               if infer_path_convention (uri_env env) path \<noteq> Some convention
                  \<or> lexical_depth (uri_env env) path = None \<or> lexical_depth (uri_env env) (cwd ctx) = None
               then AccessDeny
               else (case with_depths (uri_env env) (resolved_entries env ctx (fp_entries policy)) of
                       None \<Rightarrow> AccessDeny
                     | Some entries \<Rightarrow>
                         (case max_key (map (\<lambda>(_, access, depth). (depth, access))
                                 (filter (\<lambda>(root, _). uri_starts_with (uri_env env) path root) entries)) of
                            None \<Rightarrow> AccessDeny | Some (_, access) \<Rightarrow> access))))"

section \<open>Full access\<close>

definition has_root_access :: "FileSystemSandboxPolicy \<Rightarrow> (FileSystemAccessMode \<Rightarrow> bool) \<Rightarrow> bool" where
  "has_root_access p predicate \<longleftrightarrow>
     fp_kind p = Restricted \<and> list_ex (\<lambda>e. en_path e = Special SpecialRoot \<and> predicate (en_access e)) (fp_entries p)"

definition has_denied_read_restrictions :: "PolicyEnv \<Rightarrow> FileSystemSandboxPolicy \<Rightarrow> bool" where
  "has_denied_read_restrictions env p \<longleftrightarrow>
     fp_kind p = Restricted
     \<and> list_ex (\<lambda>e. en_access e = AccessDeny
           \<and> \<not> (en_path e = Special SlashTmp \<and> native_convention env = Windows)) (fp_entries p)"

fun special_paths_share_target :: "FileSystemSpecialPath \<Rightarrow> FileSystemSpecialPath \<Rightarrow> bool" where
  "special_paths_share_target SpecialRoot SpecialRoot = True"
| "special_paths_share_target Minimal Minimal = True"
| "special_paths_share_target Tmpdir Tmpdir = True"
| "special_paths_share_target SlashTmp SlashTmp = True"
| "special_paths_share_target (ProjectRoots s) (ProjectRoots t) = (s = t)"
| "special_paths_share_target (UnknownSpecial p s) (UnknownSpecial q t) = (p = q \<and> s = t)"
| "special_paths_share_target _ _ = False"

definition special_path_matches_path_uri :: "UriEnv \<Rightarrow> FileSystemSpecialPath \<Rightarrow> PathUri \<Rightarrow> bool" where
  "special_path_matches_path_uri env value u =
     (case value of
        SpecialRoot \<Rightarrow> lexical_depth env u \<noteq> None \<and> parent env u = None
      | SlashTmp \<Rightarrow> infer_path_convention env u = Some Posix \<and> lexical_depth env u = Some 1
                    \<and> basename env u = Some (lit ''tmp'')
      | _ \<Rightarrow> False)"

fun file_system_paths_share_target :: "UriEnv \<Rightarrow> FileSystemPath \<Rightarrow> FileSystemPath \<Rightarrow> PathConvention \<Rightarrow> bool" where
  "file_system_paths_share_target env (Path u) (Path v) convention = uri_eq env u v"
| "file_system_paths_share_target env (Special v) (Special w) convention = special_paths_share_target v w"
| "file_system_paths_share_target env (Path u) (Special v) convention =
     (infer_path_convention env u = Some convention \<and> special_path_matches_path_uri env v u)"
| "file_system_paths_share_target env (Special v) (Path u) convention =
     (infer_path_convention env u = Some convention \<and> special_path_matches_path_uri env v u)"
| "file_system_paths_share_target env (GlobPattern p) (GlobPattern q) convention = (p = q)"
| "file_system_paths_share_target env _ _ convention = False"

definition has_same_target_write_override ::
  "UriEnv \<Rightarrow> FileSystemSandboxPolicy \<Rightarrow> FileSystemSandboxEntry \<Rightarrow> PathConvention \<Rightarrow> bool" where
  "has_same_target_write_override env p e convention \<longleftrightarrow>
     list_ex (\<lambda>candidate. can_write (en_access candidate) \<and> en_access candidate > en_access e
        \<and> file_system_paths_share_target env (en_path candidate) (en_path e) convention) (fp_entries p)"

definition has_write_narrowing_entries :: "UriEnv \<Rightarrow> FileSystemSandboxPolicy \<Rightarrow> PathConvention \<Rightarrow> bool" where
  "has_write_narrowing_entries env p convention \<longleftrightarrow>
     fp_kind p = Restricted
     \<and> list_ex (\<lambda>e.
          if can_write (en_access e) then False
          else case en_path e of
            Path _ \<Rightarrow> \<not> has_same_target_write_override env p e convention
          | GlobPattern _ \<Rightarrow> True
          | Special value \<Rightarrow>
              (case value of
                 SpecialRoot \<Rightarrow> en_access e = AccessDeny
               | SlashTmp \<Rightarrow> if convention = Windows then False
                             else \<not> has_same_target_write_override env p e convention
               | Minimal \<Rightarrow> False
               | UnknownSpecial _ _ \<Rightarrow> False
               | _ \<Rightarrow> \<not> has_same_target_write_override env p e convention)) (fp_entries p)"

definition has_full_disk_read_access :: "PolicyEnv \<Rightarrow> FileSystemSandboxPolicy \<Rightarrow> bool" where
  "has_full_disk_read_access env p =
     (case fp_kind p of Restricted \<Rightarrow> has_root_access p can_read \<and> \<not> has_denied_read_restrictions env p | _ \<Rightarrow> True)"

definition has_full_disk_write_access_for_convention ::
  "UriEnv \<Rightarrow> FileSystemSandboxPolicy \<Rightarrow> PathConvention option \<Rightarrow> bool" where
  "has_full_disk_write_access_for_convention env p convention =
     (case fp_kind p of
        Restricted \<Rightarrow> opt_is_some_and (\<lambda>c. has_root_access p can_write \<and> \<not> has_write_narrowing_entries env p c) convention
      | _ \<Rightarrow> True)"

definition has_full_disk_write_access :: "PolicyEnv \<Rightarrow> FileSystemSandboxPolicy \<Rightarrow> bool" where
  "has_full_disk_write_access env p =
     has_full_disk_write_access_for_convention (uri_env env) p (Some (native_convention env))"

definition has_full_disk_write_access_with_context ::
  "PolicyEnv \<Rightarrow> FileSystemSandboxPolicy \<Rightarrow> FileSystemSandboxPolicyContext \<Rightarrow> bool" where
  "has_full_disk_write_access_with_context env p ctx =
     has_full_disk_write_access_for_convention (uri_env env) p (infer_path_convention (uri_env env) (cwd ctx))"

definition include_platform_defaults :: "PolicyEnv \<Rightarrow> FileSystemSandboxPolicy \<Rightarrow> bool" where
  "include_platform_defaults env p \<longleftrightarrow>
     \<not> has_full_disk_read_access env p \<and> fp_kind p = Restricted
     \<and> list_ex (\<lambda>e. en_path e = Special Minimal \<and> can_read (en_access e)) (fp_entries p)"

definition preserve_deny_read_restrictions_from ::
  "UriEnv \<Rightarrow> FileSystemSandboxPolicy \<Rightarrow> FileSystemSandboxPolicy \<Rightarrow> FileSystemSandboxPolicy" where
  "preserve_deny_read_restrictions_from env p existing =
     (let has_deny_read_entries = list_ex (\<lambda>e. en_access e = AccessDeny) (fp_entries existing);
          p = (if fp_kind p = Unrestricted \<and> has_deny_read_entries
               then restricted [new_entry (Special SpecialRoot) AccessWrite] else p)
      in if fp_kind p \<noteq> Restricted then p
         else p\<lparr>fp_glob_scan_max_depth := (case fp_glob_scan_max_depth p of
                    None \<Rightarrow> fp_glob_scan_max_depth existing | Some d \<Rightarrow> Some d),
                fp_entries := fold (push_new env) (filter (\<lambda>e. en_access e = AccessDeny) (fp_entries existing))
                   (fp_entries p)\<rparr>)"

section \<open>Protected metadata\<close>

definition PROTECTED_METADATA_PATH_NAMES :: "rstr list" where
  "PROTECTED_METADATA_PATH_NAMES = [lit ''.git'', lit ''.agents'', lit ''.codex'']"

text \<open>The protected directories of the writable roots that hold the path, in the order they are tried.\<close>

definition protected_candidates ::
  "UriEnv \<Rightarrow> (PathUri \<times> FileSystemAccessMode) list \<Rightarrow> PathUri \<Rightarrow> (PathUri \<times> rstr) list" where
  "protected_candidates env entries path =
     concat (map (\<lambda>(root, _). concat (map (\<lambda>metadata_name.
         map (\<lambda>protected. (protected, metadata_name))
           (filter (uri_starts_with env path) (ok_list (join_descendant env root metadata_name))))
         PROTECTED_METADATA_PATH_NAMES))
       (filter (\<lambda>(_, access). can_write access) entries))"

definition metadata_write_denial ::
  "PolicyEnv \<Rightarrow> FileSystemSandboxPolicy \<Rightarrow> PathUri \<Rightarrow> FileSystemSandboxPolicyContext \<Rightarrow> rstr option" where
  "metadata_write_denial env p path ctx =
     (if fp_kind p \<noteq> Restricted then None
      else let entries = resolved_entries env ctx (fp_entries p)
           in case protected_candidates (uri_env env) entries path of [] \<Rightarrow> None
              | (protected, metadata_name) # _ \<Rightarrow>
                  if list_ex (\<lambda>(root, access). can_write access \<and> uri_starts_with (uri_env env) path root
                         \<and> uri_starts_with (uri_env env) root protected) entries
                  then None else Some metadata_name)"

definition can_write_path ::
  "PolicyEnv \<Rightarrow> FileSystemSandboxPolicy \<Rightarrow> PathUri \<Rightarrow> FileSystemSandboxPolicyContext \<Rightarrow> bool" where
  "can_write_path env p path ctx =
     (if \<not> can_write (resolve_access env p path ctx) then False
      else has_full_disk_write_access_with_context env p ctx \<or> metadata_write_denial env p path ctx = None)"

section \<open>Denied reads\<close>

datatype InvalidDenyReadGlobBehavior = FailClosed | ReturnError

record PreparedReadDenyMatcher =
  denied_roots :: "PathUri list"
  deny_read_matchers :: "(int list \<Rightarrow> bool) list"
  invalid_pattern :: bool

definition is_separator_of :: "bool \<Rightarrow> uchar \<Rightarrow> bool" where
  "is_separator_of is_windows c \<longleftrightarrow> c = 47 \<or> is_windows \<and> c = 92"

definition opt_or_else :: "'a option \<Rightarrow> 'a option \<Rightarrow> 'a option" where
  "opt_or_else x y = (case x of None \<Rightarrow> y | Some _ \<Rightarrow> x)"

definition deny_read_glob :: "PolicyEnv \<Rightarrow> FileSystemSandboxPolicyContext \<Rightarrow> rstr \<Rightarrow> unit + rstr" where
  "deny_read_glob env ctx pattern =
     (let is_windows = infer_path_convention (uri_env env) (cwd ctx) = Some Windows;
          home_relative = opt_or_else (strip_prefix (lit ''~/'') pattern)
            (if is_windows then strip_prefix (lit ''~'' @ [92]) pattern else None);
          join_to = (\<lambda>root pat. case uri_join (uri_env env) root pat of
            Inl _ \<Rightarrow> Inl () | Inr u \<Rightarrow> Inr (inferred_native_path_string (uri_env env) u))
      in case home_relative of
           Some rest \<Rightarrow>
             (case user_home_dir ctx of None \<Rightarrow> Inl ()
              | Some home \<Rightarrow> join_to home (dropWhile (is_separator_of is_windows) rest))
         | None \<Rightarrow> join_to (cwd ctx) pattern)"

definition deny_globs :: "FileSystemSandboxEntry list \<Rightarrow> rstr list" where
  "deny_globs entries =
     concat (map (\<lambda>e. if en_access e = AccessDeny then (case en_path e of GlobPattern p \<Rightarrow> [p] | _ \<Rightarrow> []) else []) entries)"

definition deny_read_globs ::
  "PolicyEnv \<Rightarrow> FileSystemSandboxEntry list \<Rightarrow> FileSystemSandboxPolicyContext \<Rightarrow> unit + rstr list" where
  "deny_read_globs env entries ctx = collect_results (deny_read_glob env ctx) (deny_globs entries)"

definition backslashes_to_slashes :: "rstr \<Rightarrow> rstr" where
  "backslashes_to_slashes s = map (\<lambda>c. if c = 92 then 47 else c) s"

definition build_glob_matcher :: "PolicyEnv \<Rightarrow> rstr \<Rightarrow> PathConvention \<Rightarrow> (int list \<Rightarrow> bool) option" where
  "build_glob_matcher env pattern convention =
     build_glob env convention (if convention = Windows then backslashes_to_slashes pattern else pattern)"

fun build_matchers ::
  "PolicyEnv \<Rightarrow> PathConvention \<Rightarrow> InvalidDenyReadGlobBehavior \<Rightarrow> rstr list \<Rightarrow> unit + (int list \<Rightarrow> bool) list \<times> bool" where
  "build_matchers env convention behavior [] = Inr ([], False)"
| "build_matchers env convention behavior (pattern # patterns) =
     (case build_glob_matcher env pattern convention of
        Some matcher \<Rightarrow>
          bind_result (build_matchers env convention behavior patterns) (\<lambda>(ms, bad). Inr (matcher # ms, bad))
      | None \<Rightarrow>
          if behavior = ReturnError then Inl ()
          else bind_result (build_matchers env convention behavior patterns) (\<lambda>(ms, bad). Inr (ms, True)))"

definition prepare_deny_read_matcher ::
  "PolicyEnv \<Rightarrow> FileSystemSandboxPolicy \<Rightarrow> FileSystemSandboxPolicyContext \<Rightarrow> InvalidDenyReadGlobBehavior
     \<Rightarrow> unit + PreparedReadDenyMatcher" where
  "prepare_deny_read_matcher env p ctx behavior =
     (let root = file_system_root env ctx;
          denied = map fst (filter (\<lambda>(u, access). access = AccessDeny
              \<and> \<not> opt_is_some_and (\<lambda>r. uri_starts_with (uri_env env) u r \<and> uri_starts_with (uri_env env) r u) root)
            (resolved_entries env ctx (fp_entries p)))
      in case infer_path_convention (uri_env env) (cwd ctx) of
           None \<Rightarrow> Inr \<lparr>denied_roots = denied, deny_read_matchers = [], invalid_pattern = True\<rparr>
         | Some convention \<Rightarrow>
             (case deny_read_globs env (fp_entries p) ctx of
                Inl e \<Rightarrow>
                  (case behavior of
                     FailClosed \<Rightarrow> Inr \<lparr>denied_roots = denied, deny_read_matchers = [], invalid_pattern = True\<rparr>
                   | ReturnError \<Rightarrow> Inl e)
              | Inr patterns \<Rightarrow>
                  bind_result (build_matchers env convention behavior patterns) (\<lambda>(matchers, bad).
                    Inr \<lparr>denied_roots = denied, deny_read_matchers = matchers, invalid_pattern = bad\<rparr>)))"

definition matches_prepared_read_deny ::
  "PolicyEnv \<Rightarrow> PathUri \<Rightarrow> FileSystemSandboxPolicyContext \<Rightarrow> PreparedReadDenyMatcher \<Rightarrow> bool" where
  "matches_prepared_read_deny env path ctx prepared =
     (case infer_path_convention (uri_env env) (cwd ctx) of None \<Rightarrow> True
      | Some convention \<Rightarrow>
          if infer_path_convention (uri_env env) path \<noteq> Some convention
             \<or> lexical_depth (uri_env env) path = None \<or> lexical_depth (uri_env env) (cwd ctx) = None then True
          else if invalid_pattern prepared then True
          else list_ex (uri_starts_with (uri_env env) path) (denied_roots prepared)
               \<or> list_ex (\<lambda>matcher. matcher (case convention of
                      Posix \<Rightarrow> decode_binary (uri_env env) (into_bytes (url_path path))
                    | Windows \<Rightarrow> into_bytes (backslashes_to_slashes (inferred_native_path_string (uri_env env) path))))
                    (deny_read_matchers prepared))"

text \<open>\<open>ReadDenyMatcher::from_context\<close>: no matcher when nothing is denied.\<close>

definition matcher_from_context ::
  "PolicyEnv \<Rightarrow> FileSystemSandboxPolicy \<Rightarrow> FileSystemSandboxPolicyContext \<Rightarrow> PreparedReadDenyMatcher option" where
  "matcher_from_context env p ctx =
     (if list_ex (\<lambda>e. en_access e = AccessDeny) (fp_entries p)
      then (case prepare_deny_read_matcher env p ctx FailClosed of Inl _ \<Rightarrow> None | Inr m \<Rightarrow> Some m)
      else None)"

section \<open>The deciding entry\<close>

text \<open>
  On POSIX paths: an entry covers a path when the names of its root are a prefix of those of the
  path, and the covering entry with the greatest key decides.
\<close>

definition unambiguous :: "UriEnv \<Rightarrow> (PathUri \<times> FileSystemAccessMode) list \<Rightarrow> bool" where
  "unambiguous env es \<longleftrightarrow> list_all (\<lambda>(root, _). lexical_depth env root \<noteq> None \<or> is_opaque env root) es"

definition covers :: "UriEnv \<Rightarrow> PathUri \<Rightarrow> PathUri \<Rightarrow> bool" where
  "covers env root path \<longleftrightarrow> lexical_depth env root \<noteq> None \<and> prefix (path_names env root) (path_names env path)"

definition entry_key :: "UriEnv \<Rightarrow> PathUri \<times> FileSystemAccessMode \<Rightarrow> nat \<times> FileSystemAccessMode" where
  "entry_key env e = (length (path_names env (fst e)), snd e)"

definition decides ::
  "UriEnv \<Rightarrow> (PathUri \<times> FileSystemAccessMode) list \<Rightarrow> PathUri \<Rightarrow> PathUri \<times> FileSystemAccessMode \<Rightarrow> bool" where
  "decides env es path e \<longleftrightarrow> e \<in> set es \<and> covers env (fst e) path
     \<and> (\<forall>f \<in> set es. covers env (fst f) path \<longrightarrow> key_le (entry_key env f) (entry_key env e))"

lemma key_le_order:
  "key_le k k" "key_le k l \<Longrightarrow> key_le l m \<Longrightarrow> key_le k m" "key_le k l \<or> key_le l k"
  "key_le k l \<Longrightarrow> key_le l k \<Longrightarrow> k = l"
  by (auto simp: key_le_def prod_eq_iff)

lemma max_key_greatest:
  "max_key ks = None \<longleftrightarrow> ks = []"
  "max_key ks = Some k \<longleftrightarrow> k \<in> set ks \<and> (\<forall>l \<in> set ks. key_le l k)"
proof -
  have none: "max_key ks = None \<longleftrightarrow> ks = []" for ks
    by (cases ks) (simp_all split: option.split)
  have some: "max_key ks = Some k \<Longrightarrow> k \<in> set ks \<and> (\<forall>l \<in> set ks. key_le l k)" for ks k
  proof (induction ks arbitrary: k)
    case (Cons l ks)
    show ?case
    proof (cases "max_key ks")
      case None
      with Cons.prems none [of ks] show ?thesis by (simp add: key_le_order(1))
    next
      case (Some m)
      note m = Cons.IH [OF Some]
      show ?thesis
      proof (cases "key_le l m")
        case True
        with Cons.prems Some m show ?thesis by auto
      next
        case False
        with key_le_order(3) have "key_le m l" by blast
        then have "\<forall>n \<in> set ks. key_le n l" using m key_le_order(2) by blast
        with False Cons.prems Some show ?thesis by (auto simp: key_le_order(1))
      qed
    qed
  qed simp
  show "max_key ks = None \<longleftrightarrow> ks = []" by (rule none)
  show "max_key ks = Some k \<longleftrightarrow> k \<in> set ks \<and> (\<forall>l \<in> set ks. key_le l k)"
  proof
    assume k: "k \<in> set ks \<and> (\<forall>l \<in> set ks. key_le l k)"
    then obtain l where "max_key ks = Some l" using none [of ks] by fastforce
    with some [OF this] k show "max_key ks = Some k" using key_le_order(4) by blast
  qed (rule some)
qed

lemma with_depths_eq:
  "with_depths env es =
     (if unambiguous env es
      then Some (map (\<lambda>(r, a). (r, a, the (lexical_depth env r))) (filter (\<lambda>(r, _). lexical_depth env r \<noteq> None) es))
      else None)"
  by (induction es rule: with_depths.induct) (auto simp: unambiguous_def split: option.split)

definition posix_context :: "PolicyEnv \<Rightarrow> FileSystemSandboxPolicyContext \<Rightarrow> bool" where
  "posix_context env ctx \<longleftrightarrow> posix_lexical (uri_env env) (cwd ctx)"

lemma posix_contextD:
  "posix_context env ctx \<Longrightarrow> infer_path_convention (uri_env env) (cwd ctx) = Some Posix"
  "posix_context env ctx \<Longrightarrow> lexical_depth (uri_env env) (cwd ctx) \<noteq> None"
  by (simp_all add: posix_context_def posix_lexical_def)

lemma resolved_entries_convention:
  "(u, a) \<in> set (resolved_entries env ctx es) \<Longrightarrow>
     infer_path_convention (uri_env env) u = infer_path_convention (uri_env env) (cwd ctx)"
  by (auto simp: resolved_entries_def)

lemma resolved_posix:
  assumes "posix_context env ctx" "posix_lexical (uri_env env) path" "(u, a) \<in> set (resolved_entries env ctx es)"
  shows "uri_starts_with (uri_env env) path u \<longleftrightarrow> covers (uri_env env) u path"
proof (cases "lexical_depth (uri_env env) u")
  case None
  with assms starts_with_opaque [OF assms(2)] show ?thesis
    by (simp add: covers_def resolved_entries_convention posix_contextD)
next
  case (Some d)
  with assms have "posix_lexical (uri_env env) u"
    by (simp add: posix_lexical_def resolved_entries_convention posix_contextD)
  with uri_starts_with_prefix [OF assms(2) this] Some show ?thesis by (simp add: covers_def)
qed

lemma resolved_depth:
  assumes "posix_context env ctx" "(u, a) \<in> set (resolved_entries env ctx es)" "lexical_depth (uri_env env) u = Some d"
  shows "d = length (path_names (uri_env env) u)"
proof -
  have "posix_lexical (uri_env env) u"
    using assms by (simp add: posix_lexical_def resolved_entries_convention posix_contextD)
  with assms(3) posix_lexicalD(5) show ?thesis by fastforce
qed

lemma resolve_access_restricted:
  fixes env ctx es path
  defines "rs \<equiv> resolved_entries env ctx es" and "u \<equiv> uri_env env"
  assumes "posix_context env ctx" "posix_lexical u path"
  shows "resolve_access env (restricted es) path ctx =
     (if unambiguous u rs
      then case max_key (map (entry_key u) (filter (\<lambda>e. covers u (fst e) path) rs)) of
             None \<Rightarrow> AccessDeny | Some (_, a) \<Rightarrow> a
      else AccessDeny)"
proof -
  have lex: "infer_path_convention u path = Some Posix" "lexical_depth u path \<noteq> None"
    using assms(4) by (simp_all add: posix_lexical_def)
  let ?ds = "map (\<lambda>(r, a). (r, a, the (lexical_depth u r))) (filter (\<lambda>(r, _). lexical_depth u r \<noteq> None) rs)"
  have "map (\<lambda>(_, access, depth). (depth, access)) (filter (\<lambda>(root, _). uri_starts_with u path root)
           (map (\<lambda>(r, a). (r, a, the (lexical_depth u r))) (filter (\<lambda>(r, _). lexical_depth u r \<noteq> None) es')))
      = map (entry_key u) (filter (\<lambda>e. covers u (fst e) path) es')"
    if "set es' \<subseteq> set rs" for es'
    using that
  proof (induction es')
    case (Cons e es')
    obtain r a where e: "e = (r, a)" by force
    with Cons.prems have "(r, a) \<in> set (resolved_entries env ctx es)" by (simp add: rs_def)
    note cov = resolved_posix [OF assms(3) assms(4) [unfolded u_def] this] and dep = resolved_depth [OF assms(3) this]
    show ?case
    proof (cases "lexical_depth u r")
      case None
      then have "\<not> covers u r path" by (simp add: covers_def)
      with None Cons e show ?thesis by simp
    next
      case (Some d)
      with dep have "d = length (path_names u r)" by (simp add: u_def)
      with Some Cons e cov show ?thesis by (simp add: u_def entry_key_def)
    qed
  qed simp
  then have "map (\<lambda>(_, access, depth). (depth, access)) (filter (\<lambda>(root, _). uri_starts_with u path root) ?ds)
      = map (entry_key u) (filter (\<lambda>e. covers u (fst e) path) rs)" by simp
  moreover obtain d d' where "lexical_depth u path = Some d" "lexical_depth u (cwd ctx) = Some d'"
    using lex(2) posix_contextD(2) [OF assms(3)] by (auto simp: u_def)
  ultimately show ?thesis
    using lex(1) posix_contextD(1) [OF assms(3)]
    by (simp add: resolve_access_def restricted_def with_depths_eq rs_def u_def)
qed

lemma resolve_access_decides:
  fixes env ctx es path
  defines "rs \<equiv> resolved_entries env ctx es" and "u \<equiv> uri_env env"
  assumes "posix_context env ctx" "posix_lexical u path"
  shows "a \<noteq> AccessDeny \<Longrightarrow> resolve_access env (restricted es) path ctx = a \<longleftrightarrow>
      unambiguous u rs \<and> (\<exists>root. decides u rs path (root, a))"
    and "resolve_access env (restricted es) path ctx = AccessDeny \<longleftrightarrow>
      \<not> unambiguous u rs \<or> (\<forall>e \<in> set rs. \<not> covers u (fst e) path) \<or> (\<exists>root. decides u rs path (root, AccessDeny))"
proof -
  let ?ks = "map (entry_key u) (filter (\<lambda>e. covers u (fst e) path) rs)"
  note eq = resolve_access_restricted [OF assms(3) assms(4) [unfolded u_def], of es, folded rs_def u_def]
  have some: "(\<exists>d. max_key ?ks = Some (d, a)) \<longleftrightarrow> (\<exists>root. decides u rs path (root, a))" for a
    unfolding max_key_greatest(2) decides_def by (force simp: entry_key_def)
  have none: "max_key ?ks = None \<longleftrightarrow> (\<forall>e \<in> set rs. \<not> covers u (fst e) path)"
    by (auto simp: max_key_greatest(1) filter_empty_conv)
  show "a \<noteq> AccessDeny \<Longrightarrow> resolve_access env (restricted es) path ctx = a \<longleftrightarrow>
      unambiguous u rs \<and> (\<exists>root. decides u rs path (root, a))"
    unfolding eq some [symmetric] by (auto split: option.split)
  show "resolve_access env (restricted es) path ctx = AccessDeny \<longleftrightarrow>
      \<not> unambiguous u rs \<or> (\<forall>e \<in> set rs. \<not> covers u (fst e) path) \<or> (\<exists>root. decides u rs path (root, AccessDeny))"
    unfolding eq some [symmetric] none [symmetric] by (auto split: option.split)
qed

lemma covers_prefix:
  "covers env r p \<Longrightarrow> covers env s p \<Longrightarrow> length (path_names env r) \<le> length (path_names env s) \<Longrightarrow> covers env r s"
  unfolding covers_def by (metis prefix_length_prefix)

lemma covers_trans: "covers env r s \<Longrightarrow> covers env s p \<Longrightarrow> covers env r p"
  unfolding covers_def by (metis prefix_order.trans)

end
