(* ===== verification/Permission_Profiles.thy ===== *)
theory Permission_Profiles
  imports Sandbox_Policy
begin

text \<open>
  Permission profiles (\<open>protocol/src/models.rs\<close>) and what is done with them
  (\<open>sandboxing/src/policy_transforms.rs\<close>): the permissions a command asks for beyond its policy, what
  is left of them when only some are granted, and their union with those granted before.

  Error texts are left out; a \<open>NonZeroUsize\<close> is a natural number.
\<close>

section \<open>Types\<close>

record NetworkPermissions =
  np_enabled :: "bool option"

record FileSystemPermissions =
  fs_entries :: "FileSystemSandboxEntry list"
  fs_glob_scan_max_depth :: "nat option"

record AdditionalPermissionProfile =
  ap_network :: "NetworkPermissions option"
  ap_file_system :: "FileSystemPermissions option"

datatype SandboxEnforcement = EnforceManaged | EnforceDisabled | EnforceExternal

datatype ManagedFileSystemPermissions =
    ManagedRestricted "FileSystemSandboxEntry list" "nat option"
  | ManagedUnrestricted

datatype PermissionProfile =
    Managed ManagedFileSystemPermissions NetworkSandboxPolicy
  | Disabled
  | External NetworkSandboxPolicy

definition network_is_empty :: "NetworkPermissions \<Rightarrow> bool" where
  "network_is_empty n \<longleftrightarrow> np_enabled n = None"

definition file_system_is_empty :: "FileSystemPermissions \<Rightarrow> bool" where
  "file_system_is_empty fs \<longleftrightarrow> fs_entries fs = []"

definition additional_is_empty :: "AdditionalPermissionProfile \<Rightarrow> bool" where
  "additional_is_empty p \<longleftrightarrow> ap_network p = None \<and> ap_file_system p = None"

definition option_filter :: "('a \<Rightarrow> bool) \<Rightarrow> 'a option \<Rightarrow> 'a option" where
  "option_filter P x = (case x of Some y \<Rightarrow> if P y then Some y else None | None \<Rightarrow> None)"

definition non_zero :: "nat option \<Rightarrow> nat option" where
  "non_zero x = option_filter (\<lambda>n. n \<noteq> 0) x"

definition network_enabled :: "NetworkPermissions option \<Rightarrow> bool" where
  "network_enabled n \<longleftrightarrow> n = Some \<lparr>np_enabled = Some True\<rparr>"

section \<open>Normalization\<close>

fun is_glob :: "FileSystemPath \<Rightarrow> bool" where
  "is_glob (GlobPattern _) = True"
| "is_glob _ = False"

fun dedup_entries ::
  "UriEnv \<Rightarrow> FileSystemSandboxEntry list \<Rightarrow> FileSystemSandboxEntry list \<Rightarrow> unit + FileSystemSandboxEntry list" where
  "dedup_entries env [] entries = Inr entries"
| "dedup_entries env (e # es) entries =
     (if is_glob (en_path e) \<and> en_access e \<noteq> AccessDeny then Inl ()
      else dedup_entries env es (push_new env e entries))"

definition normalize_additional_permissions ::
  "UriEnv \<Rightarrow> AdditionalPermissionProfile \<Rightarrow> unit + AdditionalPermissionProfile" where
  "normalize_additional_permissions env p =
     (let network = option_filter (\<lambda>n. \<not> network_is_empty n) (ap_network p)
      in case ap_file_system p of
           None \<Rightarrow> Inr \<lparr>ap_network = network, ap_file_system = None\<rparr>
         | Some fs \<Rightarrow>
             bind_result (dedup_entries env (fs_entries fs) []) (\<lambda>entries.
               let fs' = \<lparr>fs_entries = entries, fs_glob_scan_max_depth = fs_glob_scan_max_depth fs\<rparr>
               in Inr \<lparr>ap_network = network,
                       ap_file_system = (if file_system_is_empty fs' then None else Some fs')\<rparr>))"

definition path_matches_executor :: "PolicyEnv \<Rightarrow> FileSystemSandboxPolicyContext \<Rightarrow> PathUri \<Rightarrow> bool" where
  "path_matches_executor env ctx u \<longleftrightarrow>
     \<not> (infer_path_convention (uri_env env) u = None
        \<or> infer_path_convention (uri_env env) u \<noteq> infer_path_convention (uri_env env) (cwd ctx)
        \<or> \<not> is_ok (uri_join (uri_env env) u (lit ''.'')))"

definition normalize_additional_permissions_with_context ::
  "PolicyEnv \<Rightarrow> AdditionalPermissionProfile \<Rightarrow> FileSystemSandboxPolicyContext
     \<Rightarrow> unit + AdditionalPermissionProfile" where
  "normalize_additional_permissions_with_context env p ctx =
     bind_result (normalize_additional_permissions (uri_env env) p) (\<lambda>normalized.
       if opt_is_some_and (\<lambda>fs. list_ex (\<lambda>e. case en_path e of Path u \<Rightarrow> \<not> path_matches_executor env ctx u | _ \<Rightarrow> False)
            (fs_entries fs)) (ap_file_system normalized)
       then Inl () else Inr normalized)"

section \<open>Resolving entries\<close>

definition ok_option :: "'e + 'a \<Rightarrow> 'a option" where
  "ok_option r = (case r of Inl _ \<Rightarrow> None | Inr x \<Rightarrow> Some x)"

definition resolve_special_path ::
  "PolicyEnv \<Rightarrow> FileSystemSandboxPolicyContext \<Rightarrow> FileSystemSpecialPath \<Rightarrow> PathUri option" where
  "resolve_special_path env ctx value =
     (case value of
        SpecialRoot \<Rightarrow> file_system_root env ctx
      | ProjectRoots subpath \<Rightarrow>
          (case workspace_roots ctx of [] \<Rightarrow> None
           | root # _ \<Rightarrow> (case subpath of Some s \<Rightarrow> ok_option (uri_join (uri_env env) root s) | None \<Rightarrow> Some root))
      | Tmpdir \<Rightarrow> (case temporary_directories ctx of Some (d # _) \<Rightarrow> Some d | _ \<Rightarrow> None)
      | SlashTmp \<Rightarrow>
          if infer_path_convention (uri_env env) (cwd ctx) = Some Posix
          then ok_option (uri_join (uri_env env) (cwd ctx) (lit ''/tmp'')) else None
      | Minimal \<Rightarrow> None
      | UnknownSpecial _ _ \<Rightarrow> None)"

fun resolve_permission_path ::
  "PolicyEnv \<Rightarrow> FileSystemSandboxPolicyContext \<Rightarrow> FileSystemPath \<Rightarrow> PathUri option" where
  "resolve_permission_path env ctx (Path u) = Some u"
| "resolve_permission_path env ctx (GlobPattern _) = None"
| "resolve_permission_path env ctx (Special value) = resolve_special_path env ctx value"

definition materialized_path_entry :: "FileSystemSandboxEntry \<Rightarrow> PathUri \<Rightarrow> FileSystemSandboxEntry" where
  "materialized_path_entry e u = e\<lparr>en_path := Path u\<rparr>"

definition materialize_cwd_dependent_entry ::
  "PolicyEnv \<Rightarrow> FileSystemSandboxEntry \<Rightarrow> FileSystemSandboxPolicyContext \<Rightarrow> FileSystemSandboxEntry option" where
  "materialize_cwd_dependent_entry env e ctx =
     (case en_path e of
        GlobPattern pattern \<Rightarrow>
          (let is_windows = infer_path_convention (uri_env env) (cwd ctx) = Some Windows;
               home_relative = opt_or_else (strip_prefix (lit ''~/'') pattern)
                 (opt_or_else (if pattern = lit ''~'' then Some [] else None)
                   (if is_windows then strip_prefix (lit ''~'' @ [92]) pattern else None));
               join_to = (\<lambda>root pat. case uri_join (uri_env env) root pat of
                 Inl _ \<Rightarrow> None
               | Inr u \<Rightarrow> Some (e\<lparr>en_path := GlobPattern (inferred_native_path_string (uri_env env) u)\<rparr>))
           in case home_relative of
                Some rest \<Rightarrow>
                  (case user_home_dir ctx of None \<Rightarrow> None
                   | Some home \<Rightarrow> join_to home (dropWhile (is_separator_of is_windows) rest))
              | None \<Rightarrow> join_to (cwd ctx) pattern)
      | _ \<Rightarrow> Some e)"

definition materialize_entry ::
  "PolicyEnv \<Rightarrow> FileSystemSandboxPolicyContext \<Rightarrow> FileSystemSandboxEntry \<Rightarrow> FileSystemSandboxEntry list option" where
  "materialize_entry env ctx e =
     (let other = (case materialize_cwd_dependent_entry env e ctx of
            None \<Rightarrow> if en_access e = AccessDeny then None else Some []
          | Some e' \<Rightarrow> Some [e'])
      in case en_path e of
        Special (ProjectRoots _) \<Rightarrow>
          (let found = map (\<lambda>root. resolve_permission_path env (ctx\<lparr>workspace_roots := [root]\<rparr>) (en_path e)) (workspace_roots ctx);
               resolved = map (materialized_path_entry e) (map the (filter (\<lambda>x. x \<noteq> None) found))
           in if en_access e = AccessDeny \<and> (None \<in> set found \<or> resolved = []) then None else Some resolved)
      | Special Tmpdir \<Rightarrow>
          (case temporary_directories ctx of
             None \<Rightarrow> if en_access e = AccessDeny then None else Some [e]
           | Some dirs \<Rightarrow> Some (map (materialized_path_entry e) dirs))
      | Special SpecialRoot \<Rightarrow>
          (case resolve_permission_path env ctx (en_path e) of None \<Rightarrow> None | Some _ \<Rightarrow> Some [e])
      | _ \<Rightarrow> other)"

fun materialize_context_dependent_entries ::
  "PolicyEnv \<Rightarrow> FileSystemSandboxEntry list \<Rightarrow> FileSystemSandboxPolicyContext \<Rightarrow> FileSystemSandboxEntry list option" where
  "materialize_context_dependent_entries env [] ctx = Some []"
| "materialize_context_dependent_entries env (e # es) ctx =
     (case materialize_entry env ctx e of None \<Rightarrow> None
      | Some ms \<Rightarrow> map_option (\<lambda>rest. ms @ rest) (materialize_context_dependent_entries env es ctx))"

definition materialize_additional_permissions_with_context ::
  "PolicyEnv \<Rightarrow> AdditionalPermissionProfile \<Rightarrow> FileSystemSandboxPolicyContext
     \<Rightarrow> unit + AdditionalPermissionProfile" where
  "materialize_additional_permissions_with_context env p ctx =
     bind_result
       (case ap_file_system p of
          None \<Rightarrow> Inr p
        | Some fs \<Rightarrow>
            (case materialize_context_dependent_entries env (fs_entries fs) ctx of
               None \<Rightarrow> Inl ()
             | Some entries \<Rightarrow> Inr (p\<lparr>ap_file_system := Some (fs\<lparr>fs_entries := entries\<rparr>)\<rparr>)))
       (\<lambda>p. normalize_additional_permissions_with_context env p ctx)"

section \<open>Depth of glob scans\<close>

datatype GlobScanDepth = Bounded nat | Unbounded

definition effective_glob_scan_depth :: "FileSystemSandboxEntry list \<Rightarrow> nat option \<Rightarrow> GlobScanDepth option" where
  "effective_glob_scan_depth entries depth =
     (if list_ex (\<lambda>e. en_access e = AccessDeny \<and> is_glob (en_path e)) entries
      then Some (case depth of Some d \<Rightarrow> Bounded d | None \<Rightarrow> Unbounded) else None)"

definition merge_glob_scan_max_depth ::
  "FileSystemSandboxEntry list \<Rightarrow> nat option \<Rightarrow> FileSystemSandboxEntry list \<Rightarrow> nat option \<Rightarrow> nat option" where
  "merge_glob_scan_max_depth left_entries left_depth right_entries right_depth =
     (case (effective_glob_scan_depth left_entries left_depth, effective_glob_scan_depth right_entries right_depth) of
        (Some Unbounded, _) \<Rightarrow> None
      | (_, Some Unbounded) \<Rightarrow> None
      | (Some (Bounded l), Some (Bounded r)) \<Rightarrow> Some (if l \<le> r then r else l)
      | (Some (Bounded d), None) \<Rightarrow> Some d
      | (None, Some (Bounded d)) \<Rightarrow> Some d
      | (None, None) \<Rightarrow> None)"

section \<open>Union\<close>

definition merge_permission_entries ::
  "UriEnv \<Rightarrow> FileSystemSandboxEntry list \<Rightarrow> FileSystemSandboxEntry list \<Rightarrow> FileSystemSandboxEntry list" where
  "merge_permission_entries env base permissions = fold (push_new env) (base @ permissions) []"

definition merge_permission_profiles ::
  "UriEnv \<Rightarrow> AdditionalPermissionProfile option \<Rightarrow> AdditionalPermissionProfile option
     \<Rightarrow> AdditionalPermissionProfile option" where
  "merge_permission_profiles env base permissions =
     (case permissions of None \<Rightarrow> base
      | Some permissions \<Rightarrow>
          (case base of
             None \<Rightarrow> option_filter (\<lambda>p. \<not> additional_is_empty p) (Some permissions)
           | Some base \<Rightarrow>
               let network = (if network_enabled (ap_network base) \<or> network_enabled (ap_network permissions)
                     then Some \<lparr>np_enabled = Some True\<rparr> else None);
                   file_system = (case (ap_file_system base, ap_file_system permissions) of
                       (Some b, Some p) \<Rightarrow> option_filter (\<lambda>fs. \<not> file_system_is_empty fs)
                          (Some \<lparr>fs_entries = merge_permission_entries env (fs_entries b) (fs_entries p),
                                 fs_glob_scan_max_depth = non_zero (merge_glob_scan_max_depth
                                    (fs_entries b) (fs_glob_scan_max_depth b) (fs_entries p) (fs_glob_scan_max_depth p))\<rparr>)
                     | (Some b, None) \<Rightarrow> Some b
                     | (None, Some p) \<Rightarrow> Some p
                     | (None, None) \<Rightarrow> None)
               in option_filter (\<lambda>p. \<not> additional_is_empty p) (Some \<lparr>ap_network = network, ap_file_system = file_system\<rparr>)))"

section \<open>Intersection\<close>

fun access_covers :: "FileSystemAccessMode \<Rightarrow> FileSystemAccessMode \<Rightarrow> bool" where
  "access_covers requested AccessRead = can_read requested"
| "access_covers requested AccessWrite = can_write requested"
| "access_covers requested AccessDeny = False"

definition is_root_entry :: "FileSystemSandboxEntry \<Rightarrow> bool" where
  "is_root_entry e \<longleftrightarrow> en_path e = Special SpecialRoot"

definition granted_file_system_entry_within_request ::
  "PolicyEnv \<Rightarrow> FileSystemPermissions \<Rightarrow> FileSystemSandboxPolicy \<Rightarrow> PreparedReadDenyMatcher option
     \<Rightarrow> FileSystemSandboxEntry \<Rightarrow> FileSystemSandboxPolicyContext \<Rightarrow> bool" where
  "granted_file_system_entry_within_request env requested requested_policy matcher granted_entry ctx =
     (let convention = infer_path_convention (uri_env env) (cwd ctx)
      in if \<not> can_read (en_access granted_entry)
            \<or> (en_path granted_entry = Special SlashTmp \<and> convention \<noteq> Some Posix) then False
         else if convention = Some Windows \<and> is_root_entry granted_entry
            \<and> \<not> list_ex (\<lambda>e. is_root_entry e \<and> access_covers (en_access e) (en_access granted_entry)) (fs_entries requested)
         then False
         else case resolve_permission_path env ctx (en_path granted_entry) of
           Some path \<Rightarrow>
             if infer_path_convention (uri_env env) path \<noteq> convention
                \<or> opt_is_some_and (matches_prepared_read_deny env path ctx) matcher then False
             else access_covers (resolve_access env requested_policy path ctx) (en_access granted_entry)
         | None \<Rightarrow>
             list_ex (\<lambda>e. access_covers (en_access e) (en_access granted_entry)
                \<and> fs_path_eq (uri_env env) (en_path e) (en_path granted_entry)) (fs_entries requested))"

definition glob_static_prefix_path :: "PolicyEnv \<Rightarrow> rstr \<Rightarrow> FileSystemSandboxPolicyContext \<Rightarrow> PathUri option" where
  "glob_static_prefix_path env pattern ctx =
     (let is_windows = infer_path_convention (uri_env env) (cwd ctx) = Some Windows;
          static_part = takeWhile (\<lambda>c. c \<noteq> 42 \<and> c \<noteq> 63 \<and> c \<noteq> 91 \<and> c \<noteq> 93) pattern;
          found = length static_part < length pattern
      in if found \<and> static_part = [] then None
         else let wildcard_in_segment = found \<and> \<not> (ends_with (lit ''/'') static_part \<or> is_windows \<and> ends_with [92] static_part)
              in case uri_join (uri_env env) (cwd ctx) static_part of Inl _ \<Rightarrow> None
                 | Inr u \<Rightarrow> if wildcard_in_segment then parent (uri_env env) u else Some u)"

definition paths_overlap :: "UriEnv \<Rightarrow> PathUri \<Rightarrow> PathUri \<Rightarrow> bool" where
  "paths_overlap env u v = (case overlaps env u v of None \<Rightarrow> True | Some b \<Rightarrow> b)"

definition is_none_or :: "('a \<Rightarrow> bool) \<Rightarrow> 'a option \<Rightarrow> bool" where
  "is_none_or P x = (case x of None \<Rightarrow> True | Some y \<Rightarrow> P y)"

definition deny_entry_constrains_accepted_grant ::
  "PolicyEnv \<Rightarrow> FileSystemSandboxEntry \<Rightarrow> FileSystemSandboxEntry list \<Rightarrow> FileSystemSandboxPolicyContext \<Rightarrow> bool" where
  "deny_entry_constrains_accepted_grant env deny_entry accepted ctx =
     list_ex (\<lambda>e.
       if is_root_entry e then True
       else case resolve_permission_path env ctx (en_path e) of None \<Rightarrow> True
         | Some grant_path \<Rightarrow>
             (case en_path deny_entry of
                GlobPattern pattern \<Rightarrow>
                  is_none_or (\<lambda>u. paths_overlap (uri_env env) u grant_path) (glob_static_prefix_path env pattern ctx)
              | _ \<Rightarrow>
                  is_none_or (\<lambda>u. paths_overlap (uri_env env) u grant_path)
                    (resolve_permission_path env ctx (en_path deny_entry))))
       (filter (\<lambda>e. can_read (en_access e)) accepted)"

definition constraining_denies ::
  "PolicyEnv \<Rightarrow> FileSystemSandboxEntry list \<Rightarrow> FileSystemSandboxEntry list \<Rightarrow> FileSystemSandboxPolicyContext
     \<Rightarrow> FileSystemSandboxEntry list" where
  "constraining_denies env source accepted ctx =
     filter (\<lambda>e. en_access e = AccessDeny \<and> deny_entry_constrains_accepted_grant env e accepted ctx) source"

text \<open>\<open>retain_constraining_deny_entries\<close>: the retained entries and the extended output.\<close>

definition retain_constraining_deny_entries ::
  "PolicyEnv \<Rightarrow> FileSystemSandboxEntry list \<Rightarrow> FileSystemSandboxEntry list \<Rightarrow> FileSystemSandboxPolicyContext
     \<Rightarrow> FileSystemSandboxEntry list \<Rightarrow> FileSystemSandboxEntry list \<times> FileSystemSandboxEntry list" where
  "retain_constraining_deny_entries env source accepted ctx output_entries =
     (let retained = constraining_denies env source accepted ctx
      in (retained, fold (push_new (uri_env env)) retained output_entries))"

definition intersect_file_systems ::
  "PolicyEnv \<Rightarrow> FileSystemPermissions \<Rightarrow> FileSystemPermissions \<Rightarrow> FileSystemSandboxPolicyContext
     \<Rightarrow> FileSystemPermissions option" where
  "intersect_file_systems env requested granted ctx =
     (case materialize_context_dependent_entries env (fs_entries requested) ctx of None \<Rightarrow> None
      | Some requested_entries \<Rightarrow>
     (case materialize_context_dependent_entries env (fs_entries granted) ctx of None \<Rightarrow> None
      | Some granted_entries \<Rightarrow>
        let requested_policy = restricted requested_entries;
            matcher = matcher_from_context env requested_policy ctx;
            accepted = fold (push_new (uri_env env))
              (filter (\<lambda>e. granted_file_system_entry_within_request env requested requested_policy matcher e ctx)
                granted_entries) [];
            (requested_retained, entries) = retain_constraining_deny_entries env requested_entries accepted ctx accepted;
            (granted_retained, entries) = retain_constraining_deny_entries env granted_entries accepted ctx entries
        in Some \<lparr>fs_entries = entries,
                 fs_glob_scan_max_depth = non_zero (merge_glob_scan_max_depth
                    requested_retained (fs_glob_scan_max_depth requested)
                    granted_retained (fs_glob_scan_max_depth granted))\<rparr>))"

definition intersect_permission_profiles_with_context ::
  "PolicyEnv \<Rightarrow> AdditionalPermissionProfile \<Rightarrow> AdditionalPermissionProfile \<Rightarrow> FileSystemSandboxPolicyContext
     \<Rightarrow> AdditionalPermissionProfile" where
  "intersect_permission_profiles_with_context env requested granted ctx =
     (let file_system = (case ap_file_system requested of None \<Rightarrow> None
            | Some requested_fs \<Rightarrow>
                option_filter (\<lambda>fs. \<not> file_system_is_empty fs)
                  (intersect_file_systems env requested_fs
                     (case ap_file_system granted of Some fs \<Rightarrow> fs
                      | None \<Rightarrow> \<lparr>fs_entries = [], fs_glob_scan_max_depth = None\<rparr>) ctx));
          network = (if network_enabled (ap_network requested) \<and> network_enabled (ap_network granted)
                     then Some \<lparr>np_enabled = Some True\<rparr> else None)
      in \<lparr>ap_network = network, ap_file_system = file_system\<rparr>)"

section \<open>Effective policies\<close>

definition merge_file_system_policy_with_additional_permissions ::
  "UriEnv \<Rightarrow> FileSystemSandboxPolicy \<Rightarrow> FileSystemPermissions \<Rightarrow> FileSystemSandboxPolicy" where
  "merge_file_system_policy_with_additional_permissions env policy additional =
     (case fp_kind policy of
        Restricted \<Rightarrow>
          policy\<lparr>fp_entries := fold (push_new env) (fs_entries additional) (fp_entries policy),
                 fp_glob_scan_max_depth := merge_glob_scan_max_depth (fp_entries policy) (fp_glob_scan_max_depth policy)
                    (fs_entries additional) (fs_glob_scan_max_depth additional)\<rparr>
      | _ \<Rightarrow> policy)"

definition effective_file_system_sandbox_policy ::
  "UriEnv \<Rightarrow> FileSystemSandboxPolicy \<Rightarrow> AdditionalPermissionProfile option \<Rightarrow> FileSystemSandboxPolicy" where
  "effective_file_system_sandbox_policy env policy additional =
     (case additional of None \<Rightarrow> policy
      | Some p \<Rightarrow>
          (case ap_file_system p of None \<Rightarrow> policy
           | Some fs \<Rightarrow> if file_system_is_empty fs then policy
                        else merge_file_system_policy_with_additional_permissions env policy fs))"

definition merge_network_access :: "bool \<Rightarrow> AdditionalPermissionProfile \<Rightarrow> bool" where
  "merge_network_access base_network_access additional \<longleftrightarrow>
     base_network_access
     \<or> (case ap_network additional of None \<Rightarrow> False
        | Some n \<Rightarrow> (case np_enabled n of Some b \<Rightarrow> b | None \<Rightarrow> False))"

definition effective_network_sandbox_policy ::
  "NetworkSandboxPolicy \<Rightarrow> AdditionalPermissionProfile option \<Rightarrow> NetworkSandboxPolicy" where
  "effective_network_sandbox_policy network_policy additional =
     (if opt_is_some_and (merge_network_access (network_policy = NetworkEnabled)) additional then NetworkEnabled
      else if additional \<noteq> None then NetworkRestricted else network_policy)"

definition managed_from_sandbox_policy :: "FileSystemSandboxPolicy \<Rightarrow> ManagedFileSystemPermissions option" where
  "managed_from_sandbox_policy p =
     (case fp_kind p of
        Restricted \<Rightarrow> Some (ManagedRestricted (fp_entries p) (non_zero (fp_glob_scan_max_depth p)))
      | Unrestricted \<Rightarrow> Some ManagedUnrestricted
      | ExternalSandbox \<Rightarrow> None)"

fun managed_to_sandbox_policy :: "ManagedFileSystemPermissions \<Rightarrow> FileSystemSandboxPolicy" where
  "managed_to_sandbox_policy (ManagedRestricted entries depth) =
     \<lparr>fp_kind = Restricted, fp_glob_scan_max_depth = depth, fp_entries = entries\<rparr>"
| "managed_to_sandbox_policy ManagedUnrestricted = unrestricted"

text \<open>The result \<open>None\<close> is the panic of \<open>unreachable!\<close>.\<close>

definition from_runtime_permissions_with_enforcement ::
  "SandboxEnforcement \<Rightarrow> FileSystemSandboxPolicy \<Rightarrow> NetworkSandboxPolicy \<Rightarrow> PermissionProfile option" where
  "from_runtime_permissions_with_enforcement enforcement policy network =
     (if fp_kind policy = ExternalSandbox then Some (External network)
      else if fp_kind policy = Unrestricted \<and> enforcement = EnforceDisabled then Some Disabled
      else map_option (\<lambda>m. Managed m network) (managed_from_sandbox_policy policy))"

definition from_runtime_permissions ::
  "FileSystemSandboxPolicy \<Rightarrow> NetworkSandboxPolicy \<Rightarrow> PermissionProfile option" where
  "from_runtime_permissions policy network =
     from_runtime_permissions_with_enforcement
       (if fp_kind policy = ExternalSandbox then EnforceExternal else EnforceManaged) policy network"

fun enforcement :: "PermissionProfile \<Rightarrow> SandboxEnforcement" where
  "enforcement (Managed _ _) = EnforceManaged"
| "enforcement Disabled = EnforceDisabled"
| "enforcement (External _) = EnforceExternal"

fun file_system_sandbox_policy :: "PermissionProfile \<Rightarrow> FileSystemSandboxPolicy" where
  "file_system_sandbox_policy (Managed fs _) = managed_to_sandbox_policy fs"
| "file_system_sandbox_policy Disabled = unrestricted"
| "file_system_sandbox_policy (External _) = external_sandbox"

fun network_sandbox_policy :: "PermissionProfile \<Rightarrow> NetworkSandboxPolicy" where
  "network_sandbox_policy (Managed _ network) = network"
| "network_sandbox_policy Disabled = NetworkEnabled"
| "network_sandbox_policy (External network) = network"

definition effective_permission_profile ::
  "UriEnv \<Rightarrow> PermissionProfile \<Rightarrow> AdditionalPermissionProfile option \<Rightarrow> PermissionProfile option" where
  "effective_permission_profile env profile additional =
     from_runtime_permissions_with_enforcement (enforcement profile)
       (effective_file_system_sandbox_policy env (file_system_sandbox_policy profile) additional)
       (effective_network_sandbox_policy (network_sandbox_policy profile) additional)"

definition intersect_with_read_only :: "PermissionProfile \<Rightarrow> PermissionProfile option option" where
  "intersect_with_read_only profile =
     (let fs = file_system_sandbox_policy profile
      in case fp_kind fs of
           Restricted \<Rightarrow>
             Some (from_runtime_permissions
               (fs\<lparr>fp_entries := map (\<lambda>e. e\<lparr>en_access := (case en_access e of AccessDeny \<Rightarrow> AccessDeny | _ \<Rightarrow> AccessRead)\<rparr>)
                  (fp_entries fs)\<rparr>) NetworkRestricted)
         | Unrestricted \<Rightarrow> Some (from_runtime_permissions read_only NetworkRestricted)
         | ExternalSandbox \<Rightarrow> None)"

definition should_require_platform_sandbox ::
  "PolicyEnv \<Rightarrow> FileSystemSandboxPolicy \<Rightarrow> NetworkSandboxPolicy \<Rightarrow> bool \<Rightarrow> bool" where
  "should_require_platform_sandbox env policy network has_managed_network_requirements =
     (if has_managed_network_requirements then True
      else if network \<noteq> NetworkEnabled then fp_kind policy \<noteq> ExternalSandbox
      else (case fp_kind policy of Restricted \<Rightarrow> \<not> has_full_disk_write_access env policy | _ \<Rightarrow> False))"

end
