(* ===== verification/Permission_Intersection.thy ===== *)
theory Permission_Intersection
  imports Permission_Profiles
begin

text \<open>
  What the transformations of permission profiles do to the access of a path, for an executor with
  POSIX paths: resolving the entries that depend on the context keeps every access, the union of
  two profiles gives a path the access one of them gives, and the intersection of a request with
  what is granted lets a path be read only if both do.
\<close>

section \<open>Resolving entries\<close>

lemma resolved_entries_simps [simp]:
  "resolved_entries env ctx [] = []"
  "resolved_entries env ctx (e # es) = resolved_entries env ctx [e] @ resolved_entries env ctx es"
  "resolved_entries env ctx (es @ fs) = resolved_entries env ctx es @ resolved_entries env ctx fs"
  by (simp_all add: resolved_entries_def)

declare resolved_entries_simps(2) [simp del]

lemma resolved_path_entries:
  "resolved_entries env ctx (map (materialized_path_entry e) us) =
     map (\<lambda>u. (u, en_access e))
       (filter (\<lambda>u. infer_path_convention (uri_env env) u = infer_path_convention (uri_env env) (cwd ctx)) us)"
  by (induction us) (simp_all add: resolved_entries_def materialized_path_entry_def)

lemma resolved_entries_congI:
  assumes "entry_paths env ctx (en_path e) = entry_paths env ctx (en_path f)" "en_access e = en_access f"
  shows "resolved_entries env ctx [e] = resolved_entries env ctx [f]"
  using assms by (simp add: resolved_entries_def)

lemma ok_list_option: "ok_list r = (case ok_option r of None \<Rightarrow> [] | Some x \<Rightarrow> [x])"
  by (simp add: ok_list_def ok_option_def split: sum.split)

lemma concat_options:
  "concat (map (\<lambda>x. case f x of None \<Rightarrow> [] | Some y \<Rightarrow> [y]) xs) = map the (filter (\<lambda>x. x \<noteq> None) (map f xs))"
  by (induction xs) (simp_all split: option.split)

lemma project_root_paths:
  "special_paths env ctx (ProjectRoots s) =
     map the (filter (\<lambda>x. x \<noteq> None)
       (map (\<lambda>root. resolve_permission_path env (ctx\<lparr>workspace_roots := [root]\<rparr>) (Special (ProjectRoots s)))
         (workspace_roots ctx)))"
  unfolding concat_options [symmetric]
  by (cases s) (simp_all add: resolve_special_path_def ok_list_option)

lemma materialize_entry_resolved:
  assumes "materialize_entry env ctx e = Some ms"
  shows "resolved_entries env ctx ms = resolved_entries env ctx [e]"
proof (cases "en_path e")
  case (Path u)
  with assms show ?thesis by (simp add: materialize_entry_def materialize_cwd_dependent_entry_def)
next
  case (GlobPattern p)
  have "\<forall>m \<in> set ms. \<exists>q. en_path m = GlobPattern q"
    using assms GlobPattern
    by (auto simp: materialize_entry_def materialize_cwd_dependent_entry_def Let_def
        split: option.splits sum.splits if_splits)
  then have "resolved_entries env ctx ms = []"
    by (induction ms) (auto simp: resolved_entries_def)
  with GlobPattern show ?thesis by (simp add: resolved_entries_def)
next
  case (Special v)
  show ?thesis
  proof (cases v)
    case (ProjectRoots s)
    with Special assms have "ms = map (materialized_path_entry e) (special_paths env ctx (ProjectRoots s))"
      unfolding project_root_paths by (simp add: materialize_entry_def Let_def split: if_splits)
    then show ?thesis
      by (simp add: resolved_path_entries Special ProjectRoots) (simp add: resolved_entries_def Special ProjectRoots)
  next
    case Tmpdir
    show ?thesis
    proof (cases "temporary_directories ctx")
      case None
      with Special Tmpdir assms show ?thesis by (simp add: materialize_entry_def split: if_splits)
    next
      case (Some dirs)
      with Special Tmpdir assms have "ms = map (materialized_path_entry e) dirs" by (simp add: materialize_entry_def)
      then show ?thesis
        by (simp add: resolved_path_entries Special Tmpdir) (simp add: resolved_entries_def Special Tmpdir Some)
    qed
  qed (insert Special assms, auto simp: materialize_entry_def materialize_cwd_dependent_entry_def Let_def
      split: option.splits)
qed

lemma materialize_resolved:
  "materialize_context_dependent_entries env es ctx = Some ms \<Longrightarrow>
     resolved_entries env ctx ms = resolved_entries env ctx es"
proof (induction es arbitrary: ms)
  case (Cons e es)
  then show ?case
    by (auto simp: materialize_entry_resolved resolved_entries_simps(2) [of env ctx e es] split: option.splits)
qed simp

text \<open>A resolved entry has one path.\<close>

lemma materialized_entry_path:
  assumes "materialize_entry env ctx e = Some ms" "m \<in> set ms" "(u, a) \<in> set (resolved_entries env ctx [m])"
  shows "resolve_permission_path env ctx (en_path m) = Some u \<and> a = en_access m"
proof -
  have special: "u' \<in> set (special_paths env ctx v) \<Longrightarrow> v \<noteq> Tmpdir \<Longrightarrow> (\<And>s. v \<noteq> ProjectRoots s) \<Longrightarrow>
      resolve_special_path env ctx v = Some u'" for u' v
    by (cases v) (auto simp: resolve_special_path_def ok_list_option split: option.splits if_splits)
  have path: "en_path m = Path u' \<Longrightarrow> ?thesis" for u'
    using assms(3) by (auto simp: resolved_entries_def split: if_splits)
  show ?thesis
  proof (cases "en_path m")
    case (Special v)
    have "v \<noteq> Tmpdir \<or> temporary_directories ctx = None" "v \<noteq> ProjectRoots s" for s
      using assms(1,2) Special
      by (auto simp: materialize_entry_def materialize_cwd_dependent_entry_def Let_def materialized_path_entry_def
          split: if_splits option.splits FileSystemPath.splits FileSystemSpecialPath.splits sum.splits)
    with special [of u v] assms(3) Special show ?thesis
      by (cases "v = Tmpdir") (auto simp: resolved_entries_def)
  qed (insert assms(3), auto simp: resolved_entries_def split: if_splits)
qed

lemma materialized_path:
  assumes "materialize_context_dependent_entries env es ctx = Some ms" "m \<in> set ms"
    and "(u, a) \<in> set (resolved_entries env ctx [m])"
  shows "resolve_permission_path env ctx (en_path m) = Some u \<and> a = en_access m"
  using assms(1,2)
proof (induction es arbitrary: ms)
  case (Cons e es)
  then show ?case using materialized_entry_path [OF _ _ assms(3)] by (auto split: option.splits)
qed simp

section \<open>Sets of entries\<close>

lemma resolved_entries_iff:
  "(u, a) \<in> set (resolved_entries env ctx es) \<longleftrightarrow> (\<exists>e \<in> set es. (u, a) \<in> set (resolved_entries env ctx [e]))"
  by (auto simp: resolved_entries_def)

text \<open>The equality of entries identifies no two entries that resolve to a POSIX path.\<close>

lemma entry_eq_resolved:
  assumes "posix_context env ctx" "entry_eq (uri_env env) e f"
  shows "set (resolved_entries env ctx [f]) = set (resolved_entries env ctx [e])"
proof -
  let ?posix = "\<lambda>u. infer_path_convention (uri_env env) u = Some Posix"
  have "e = f \<or> (\<exists>u v. en_path e = Path u \<and> en_path f = Path v \<and> \<not> ?posix u \<and> \<not> ?posix v)"
  proof (cases "en_path e = en_path f")
    case True
    with assms(2) show ?thesis by (cases e; cases f) (simp add: entry_eq_def)
  next
    case False
    with assms(2) obtain u v where uv: "en_path e = Path u" "en_path f = Path v" "uri_eq (uri_env env) u v"
      by (cases "en_path e"; cases "en_path f") (auto simp: entry_eq_def)
    then have "uri_eq (uri_env env) v u"
      by (auto simp: uri_eq_def eq_ignore_ascii_case_def split: option.splits)
    with uv False show ?thesis using uri_eq_posix [of "uri_env env"] by metis
  qed
  then show ?thesis by (auto simp: resolved_entries_def posix_contextD [OF assms(1)])
qed

lemma resolved_push_new:
  assumes "posix_context env ctx"
  shows "set (resolved_entries env ctx (fold (push_new (uri_env env)) es acc)) =
     set (resolved_entries env ctx acc) \<union> set (resolved_entries env ctx es)"
proof (induction es arbitrary: acc)
  case (Cons e es)
  have "set (resolved_entries env ctx (push_new (uri_env env) e acc)) =
      set (resolved_entries env ctx acc) \<union> set (resolved_entries env ctx [e])"
  proof (cases "contains_entry (uri_env env) acc e")
    case True
    then obtain x where "x \<in> set acc" "entry_eq (uri_env env) x e" by (auto simp: contains_entry_def list_ex_iff)
    with entry_eq_resolved [OF assms]
    have "set (resolved_entries env ctx [e]) \<subseteq> set (resolved_entries env ctx acc)"
      using resolved_entries_iff [of _ _ env ctx acc] by auto
    with True show ?thesis by (auto simp: push_new_def)
  qed (simp add: push_new_def)
  then show ?case by (simp add: Cons.IH resolved_entries_simps(2) [of env ctx e es] Un_assoc)
qed simp

lemma set_fold_push_new: "set (fold (push_new env) es acc) \<subseteq> set acc \<union> set es"
proof (induction es arbitrary: acc)
  case (Cons e es)
  from Cons.IH [of "push_new env e acc"] show ?case by (auto simp: push_new_def split: if_splits)
qed simp

lemma decides_cong: "set rs = set rs' \<Longrightarrow> decides u rs path e = decides u rs' path e"
  by (simp add: decides_def)

lemma unambiguous_cong: "set rs = set rs' \<Longrightarrow> unambiguous u rs = unambiguous u rs'"
  by (simp add: unambiguous_def list_all_iff)

lemma some_entry_decides:
  assumes "e \<in> set rs" "covers u (fst e) path"
  shows "\<exists>f. decides u rs path f"
proof -
  let ?ks = "map (entry_key u) (filter (\<lambda>e. covers u (fst e) path) rs)"
  have "max_key ?ks \<noteq> None" using assms by (auto simp: max_key_greatest(1) filter_empty_conv)
  then obtain k where k: "k \<in> set ?ks" "\<forall>l \<in> set ?ks. key_le l k" using max_key_greatest(2) by blast
  then obtain f where "f \<in> set rs" "covers u (fst f) path" "k = entry_key u f" by auto
  with k(2) have "decides u rs path f" unfolding decides_def by (auto simp del: split_paired_All)
  then show ?thesis ..
qed

section \<open>The intersection\<close>

definition accepted_entries ::
  "PolicyEnv \<Rightarrow> FileSystemPermissions \<Rightarrow> FileSystemSandboxEntry list \<Rightarrow> FileSystemSandboxEntry list
     \<Rightarrow> FileSystemSandboxPolicyContext \<Rightarrow> FileSystemSandboxEntry list" where
  "accepted_entries env requested RE GE ctx =
     fold (push_new (uri_env env))
       (filter (\<lambda>e. granted_file_system_entry_within_request env requested (restricted RE)
          (matcher_from_context env (restricted RE) ctx) e ctx) GE) []"

lemma intersect_entries:
  assumes "posix_context env ctx" "intersect_file_systems env requested granted ctx = Some res"
  obtains RE GE where
    "materialize_context_dependent_entries env (fs_entries requested) ctx = Some RE"
    "materialize_context_dependent_entries env (fs_entries granted) ctx = Some GE"
    "set (resolved_entries env ctx (fs_entries res)) =
       set (resolved_entries env ctx (accepted_entries env requested RE GE ctx))
       \<union> set (resolved_entries env ctx (constraining_denies env RE (accepted_entries env requested RE GE ctx) ctx))
       \<union> set (resolved_entries env ctx (constraining_denies env GE (accepted_entries env requested RE GE ctx) ctx))"
proof -
  from assms(2) obtain RE GE where m:
    "materialize_context_dependent_entries env (fs_entries requested) ctx = Some RE"
    "materialize_context_dependent_entries env (fs_entries granted) ctx = Some GE"
    by (auto simp: intersect_file_systems_def split: option.splits)
  let ?acc = "accepted_entries env requested RE GE ctx"
  from assms(2) have "fs_entries res = fold (push_new (uri_env env)) (constraining_denies env GE ?acc ctx)
      (fold (push_new (uri_env env)) (constraining_denies env RE ?acc ctx) ?acc)"
    by (auto simp: intersect_file_systems_def m retain_constraining_deny_entries_def Let_def accepted_entries_def)
  with that [OF m] resolved_push_new [OF assms(1)] show thesis by simp
qed

text \<open>A denied root that contains, or lies within, an accepted one is kept.\<close>

lemma paths_overlap_posix:
  assumes "posix_lexical env u" "posix_lexical env v"
    and "prefix (path_names env u) (path_names env v) \<or> prefix (path_names env v) (path_names env u)"
  shows "paths_overlap env u v"
  using assms uri_starts_with_prefix [of env u v] uri_starts_with_prefix [of env v u] posix_lexicalD(5)
  by (auto simp: paths_overlap_def overlaps_def)

lemma covers_posix:
  assumes "posix_context env ctx" "(u, a) \<in> set (resolved_entries env ctx es)" "covers (uri_env env) u path"
  shows "posix_lexical (uri_env env) u"
  using assms posix_contextD(1) [OF assms(1)] resolved_entries_convention [OF assms(2)]
  by (simp add: posix_lexical_def covers_def)

lemma denied_root_retained:
  assumes ctx: "posix_context env ctx"
    and m: "materialize_context_dependent_entries env es ctx = Some ms"
    and f: "(f, AccessDeny) \<in> set (resolved_entries env ctx ms)" "covers (uri_env env) f path"
    and acc: "e \<in> set acc" "can_read (en_access e)" "(r, a) \<in> set (resolved_entries env ctx [e])"
      "resolve_permission_path env ctx (en_path e) = Some r" "covers (uri_env env) r path"
  shows "(f, AccessDeny) \<in> set (resolved_entries env ctx (constraining_denies env ms acc ctx))"
proof -
  from f(1) resolved_entries_iff [of f AccessDeny env ctx ms] obtain d
    where d: "d \<in> set ms" "(f, AccessDeny) \<in> set (resolved_entries env ctx [d])" by auto
  note path = materialized_path [OF m d]
  have "posix_lexical (uri_env env) f" "posix_lexical (uri_env env) r"
    using covers_posix [OF ctx f] covers_posix [OF ctx acc(3,5)] by auto
  moreover have "prefix (path_names (uri_env env) f) (path_names (uri_env env) r)
      \<or> prefix (path_names (uri_env env) r) (path_names (uri_env env) f)"
    using f(2) acc(5) prefix_same_cases unfolding covers_def by blast
  ultimately have "paths_overlap (uri_env env) f r" by (rule paths_overlap_posix)
  moreover have "\<not> is_glob (en_path d)" using path by (cases "en_path d") auto
  ultimately have "deny_entry_constrains_accepted_grant env d acc ctx"
    using acc path unfolding deny_entry_constrains_accepted_grant_def list_ex_iff
    by (intro bexI [of _ e]) (auto simp: is_none_or_def split: FileSystemPath.split)
  with d path have "d \<in> set (constraining_denies env ms acc ctx)" by (simp add: constraining_denies_def)
  with d(2) resolved_entries_iff [of f AccessDeny env ctx] show ?thesis by blast
qed

lemma access_covers_le: "access_covers b a \<longleftrightarrow> can_read b \<and> can_read a \<and> (can_write a \<longrightarrow> can_write b)"
  by (cases a; cases b) (simp_all add: can_read_def can_write_def)

lemma readable_access: "can_read a \<longleftrightarrow> a \<noteq> AccessDeny"
  by (cases a) (simp_all add: can_read_def)

lemma resolve_access_cong:
  assumes "resolved_entries env ctx es = resolved_entries env ctx fs"
  shows "resolve_access env (restricted es) path ctx = resolve_access env (restricted fs) path ctx"
  unfolding resolve_access_def restricted_def FileSystemSandboxPolicy.select_convs assms ..

lemma readable_decides:
  assumes "posix_context env ctx" "posix_lexical (uri_env env) path" "can_read (resolve_access env (restricted es) path ctx)"
  obtains q where "unambiguous (uri_env env) (resolved_entries env ctx es)"
    "decides (uri_env env) (resolved_entries env ctx es) path (q, resolve_access env (restricted es) path ctx)"
  using assms(3) resolve_access_decides(1) [OF assms(1,2), of "resolve_access env (restricted es) path ctx" es]
  by (auto simp: readable_access)

lemma key_le_deny: "key_le (n, AccessDeny) (k, a) \<Longrightarrow> a \<noteq> AccessDeny \<Longrightarrow> n < k"
  by (cases a) (auto simp: key_le_def less_FileSystemAccessMode_def less_eq_FileSystemAccessMode_def)

lemma covers_refl: "posix_lexical env u \<Longrightarrow> covers env u u"
  by (simp add: covers_def posix_lexical_def)

lemma decided_path:
  assumes "posix_context env ctx" "decides (uri_env env) (resolved_entries env ctx es) path (r, a)"
  shows "posix_lexical (uri_env env) r"
  using assms covers_posix by (auto simp: decides_def)

lemma accepted_within:
  assumes ctx: "posix_context env ctx"
    and m: "materialize_context_dependent_entries env (fs_entries granted) ctx = Some GE"
    and e: "e \<in> set (accepted_entries env requested RE GE ctx)" "(r, a) \<in> set (resolved_entries env ctx [e])"
  shows "(r, a) \<in> set (resolved_entries env ctx GE)" "a = en_access e"
    "resolve_permission_path env ctx (en_path e) = Some r" "can_read a"
    "access_covers (resolve_access env (restricted RE) r ctx) a"
proof -
  from e(1) set_fold_push_new have "e \<in> set GE"
    and ok: "granted_file_system_entry_within_request env requested (restricted RE)
      (matcher_from_context env (restricted RE) ctx) e ctx"
    unfolding accepted_entries_def by fastforce+
  with e(2) show "(r, a) \<in> set (resolved_entries env ctx GE)" using resolved_entries_iff [of r a env ctx GE] by blast
  from materialized_path [OF m \<open>e \<in> set GE\<close> e(2)]
  show p: "a = en_access e" "resolve_permission_path env ctx (en_path e) = Some r" by auto
  from ok p show "can_read a" "access_covers (resolve_access env (restricted RE) r ctx) a"
    by (auto simp: granted_file_system_entry_within_request_def Let_def split: if_splits)
qed

text \<open>
  The entry that decides in the intersection was accepted, and from its root down to the path the
  request does not deny anything.
\<close>

lemma intersection_decider:
  fixes env ctx requested granted RE GE
  defines "u \<equiv> uri_env env" and "acc \<equiv> accepted_entries env requested RE GE ctx"
  defines "rs \<equiv> set (resolved_entries env ctx acc)
       \<union> set (resolved_entries env ctx (constraining_denies env RE acc ctx))
       \<union> set (resolved_entries env ctx (constraining_denies env GE acc ctx))"
  assumes ctx: "posix_context env ctx"
    and RE: "materialize_context_dependent_entries env (fs_entries requested) ctx = Some RE"
    and GE: "materialize_context_dependent_entries env (fs_entries granted) ctx = Some GE"
    and r: "(r, a) \<in> rs" "covers u r path" "can_read a"
    and top: "\<And>f. f \<in> rs \<Longrightarrow> covers u (fst f) path \<Longrightarrow> key_le (entry_key u f) (entry_key u (r, a))"
  obtains e where "e \<in> set acc" "(r, a) \<in> set (resolved_entries env ctx [e])"
    "\<And>p. posix_lexical u p \<Longrightarrow> covers u r p \<Longrightarrow> covers u p path \<Longrightarrow>
       can_read (resolve_access env (restricted RE) p ctx)"
    "\<And>f. (f, AccessDeny) \<in> set (resolved_entries env ctx GE) \<Longrightarrow> covers u f path \<Longrightarrow>
       length (path_names u f) < length (path_names u r)"
proof -
  have "(r, a) \<notin> set (resolved_entries env ctx (constraining_denies env X acc ctx))" for X
    using r(3) resolved_entries_iff [of r a env ctx "constraining_denies env X acc ctx"]
    by (auto simp: constraining_denies_def resolved_entries_def readable_access)
  with r(1) have "(r, a) \<in> set (resolved_entries env ctx acc)" by (auto simp: rs_def)
  then obtain e where e: "e \<in> set acc" "(r, a) \<in> set (resolved_entries env ctx [e])"
    using resolved_entries_iff [of r a env ctx acc] by blast
  note within = accepted_within [OF ctx GE e(1) [unfolded acc_def] e(2)]
  have deeper: "length (path_names u f) < length (path_names u r)"
    if f: "(f, AccessDeny) \<in> set (resolved_entries env ctx ms)" "covers u f path"
      and ms: "materialize_context_dependent_entries env es ctx = Some ms" "ms = RE \<or> ms = GE" for f es ms
  proof -
    from denied_root_retained [OF ctx ms(1) f(1) f(2) [unfolded u_def] e(1) _ e(2) within(3) r(2) [unfolded u_def]]
    have "(f, AccessDeny) \<in> rs" using within(2,4) ms(2) by (auto simp: rs_def)
    from top [OF this] f(2) r(3) show ?thesis by (auto simp: entry_key_def readable_access dest: key_le_deny)
  qed
  have rlex: "posix_lexical u r" using covers_posix [OF ctx within(1)] r(2) by (simp add: u_def)
  obtain b q where b: "can_read b" "unambiguous u (resolved_entries env ctx RE)"
    "decides u (resolved_entries env ctx RE) r (q, b)"
    using within(5) readable_decides [OF ctx rlex [unfolded u_def], of RE]
    unfolding access_covers_le u_def by metis
  have "can_read (resolve_access env (restricted RE) p ctx)"
    if p: "posix_lexical u p" "covers u r p" "covers u p path" for p
  proof (rule ccontr)
    assume "\<not> ?thesis"
    then have "resolve_access env (restricted RE) p ctx = AccessDeny" by (simp add: readable_access)
    moreover have q: "covers u q r" "(q, b) \<in> set (resolved_entries env ctx RE)" using b(3) by (simp_all add: decides_def)
    with covers_trans p(2) have qp: "covers u q p" by blast
    ultimately obtain f where "decides u (resolved_entries env ctx RE) p (f, AccessDeny)"
      using resolve_access_decides(2) [OF ctx p(1) [unfolded u_def], of RE] b(2) q(2) by (auto simp: u_def)
    then have f: "(f, AccessDeny) \<in> set (resolved_entries env ctx RE)" "covers u f p"
      "key_le (entry_key u (q, b)) (entry_key u (f, AccessDeny))"
      using q(2) qp by (auto simp: decides_def)
    from deeper [OF f(1) covers_trans [OF f(2) p(3)] RE] have "length (path_names u f) \<le> length (path_names u r)" by simp
    with covers_prefix f(2) p(2) have "covers u f r" by blast
    with b(3) f(1) have "key_le (entry_key u (f, AccessDeny)) (entry_key u (q, b))" by (auto simp: decides_def)
    with f(3) key_le_order(4) b(1) show False by (fastforce simp: entry_key_def readable_access)
  qed
  with e deeper GE show thesis by (intro that) auto
qed

text \<open>Without denied globs, the matcher denies what lies in one of the denied roots.\<close>

lemma deny_globs_Cons [simp]:
  "deny_globs [] = []" "deny_globs (e # es) = deny_globs [e] @ deny_globs es" "deny_globs (es @ fs) = deny_globs es @ deny_globs fs"
  by (simp_all add: deny_globs_def)

declare deny_globs_Cons(2) [simp del]

lemma materialize_special:
  assumes "en_path e = Special v" "materialize_entry env ctx e = Some ms"
  shows "ms = [e] \<or> (\<exists>us. ms = map (materialized_path_entry e) us)"
proof (cases v)
  case (ProjectRoots s)
  with assms show ?thesis unfolding materialize_entry_def Let_def
    by (simp del: map_map split: if_splits) blast+
next
  case Tmpdir
  with assms show ?thesis unfolding materialize_entry_def
    by (simp split: option.splits if_splits) blast+
qed (use assms in \<open>simp_all add: materialize_entry_def materialize_cwd_dependent_entry_def split: option.splits\<close>)

lemma materialized_deny_globs:
  "materialize_context_dependent_entries env es ctx = Some ms \<Longrightarrow> deny_globs es = [] \<Longrightarrow> deny_globs ms = []"
proof (induction es arbitrary: ms)
  case (Cons e es)
  from Cons.prems(1) obtain es' ms' where ms: "materialize_entry env ctx e = Some es'"
    "materialize_context_dependent_entries env es ctx = Some ms'" "ms = es' @ ms'"
    by (simp split: option.splits) blast
  have globs: "deny_globs (map (materialized_path_entry e) us) = []" for us
    unfolding deny_globs_def materialized_path_entry_def concat_eq_Nil_conv by auto
  from Cons.prems(2) have e: "deny_globs [e] = []" "deny_globs es = []"
    by (simp_all add: deny_globs_Cons(2) [of e es])
  have "deny_globs es' = []"
  proof (cases "en_path e")
    case (GlobPattern p)
    with e(1) have "en_access e \<noteq> AccessDeny" by (auto simp: deny_globs_def)
    with ms(1) GlobPattern show ?thesis
      by (auto simp: materialize_entry_def materialize_cwd_dependent_entry_def Let_def deny_globs_def
          split: option.splits sum.splits if_splits)
  next
    case (Special v)
    from materialize_special [OF this ms(1)] e(1) globs show ?thesis by auto
  qed (use ms(1) e(1) in \<open>auto simp: materialize_entry_def materialize_cwd_dependent_entry_def Let_def\<close>)
  with Cons.IH [OF ms(2) e(2)] ms(3) show ?case by simp
qed simp

lemma matcher_without_globs:
  fixes env ctx RE
  defines "u \<equiv> uri_env env" and "matches \<equiv> \<lambda>p. opt_is_some_and (matches_prepared_read_deny env p ctx)
    (matcher_from_context env (restricted RE) ctx)"
  assumes ctx: "posix_context env ctx" and globs: "deny_globs RE = []"
  assumes g: "posix_lexical u g" "matches g"
  shows "\<exists>f. (f, AccessDeny) \<in> set (resolved_entries env ctx RE) \<and> covers u f g
     \<and> (\<forall>p. posix_lexical u p \<longrightarrow> covers u f p \<longrightarrow> matches p)"
proof -
  from g(2) have any: "list_ex (\<lambda>e. en_access e = AccessDeny) RE"
    by (auto simp: matches_def matcher_from_context_def restricted_def opt_is_some_and_def split: if_splits)
  obtain roots where roots: "matcher_from_context env (restricted RE) ctx =
      Some \<lparr>denied_roots = roots, deny_read_matchers = [], invalid_pattern = False\<rparr>"
    "set roots \<subseteq> {f. (f, AccessDeny) \<in> set (resolved_entries env ctx RE)}"
    using any globs posix_contextD(1) [OF ctx] that
    unfolding matcher_from_context_def prepare_deny_read_matcher_def restricted_def deny_read_globs_def Let_def
    by (fastforce simp del: split_paired_All split_paired_Ex)
  have matches: "matches p \<longleftrightarrow> (\<exists>f \<in> set roots. uri_starts_with u p f)" if "posix_lexical u p" for p
    using that posix_contextD [OF ctx]
    by (auto simp: matches_def roots(1) opt_is_some_and_def matches_prepared_read_deny_def posix_lexical_def u_def list_ex_iff)
  have covers: "uri_starts_with u p f \<longleftrightarrow> covers u f p" if "posix_lexical u p" "f \<in> set roots" for p f
    using resolved_posix [OF ctx that(1) [unfolded u_def]] that(2) roots(2) unfolding u_def by blast
  from matches [OF g(1)] g(2) covers [OF g(1)] obtain f where "f \<in> set roots" "covers u f g" by blast
  with matches covers roots(2) show ?thesis by blast
qed

text \<open>
  Below the root of the deciding entry, a read-only entry that was granted is accepted, unless the
  request denies globs.
\<close>

lemma carve_out_accepted:
  fixes env ctx requested granted RE GE
  defines "u \<equiv> uri_env env" and "acc \<equiv> accepted_entries env requested RE GE ctx"
  assumes ctx: "posix_context env ctx" and globs: "deny_globs (fs_entries requested) = []"
    and RE: "materialize_context_dependent_entries env (fs_entries requested) ctx = Some RE"
    and GE: "materialize_context_dependent_entries env (fs_entries granted) ctx = Some GE"
    and e: "e \<in> set acc" "(r, a) \<in> set (resolved_entries env ctx [e])" "covers u r path"
    and top: "\<And>f. (f, AccessDeny) \<in> set (resolved_entries env ctx (constraining_denies env RE acc ctx)) \<Longrightarrow>
      covers u f path \<Longrightarrow> length (path_names u f) \<le> length (path_names u r)"
    and g: "(g, AccessRead) \<in> set (resolved_entries env ctx GE)" "covers u g path"
      "can_read (resolve_access env (restricted RE) g ctx)"
  shows "(g, AccessRead) \<in> set (resolved_entries env ctx acc)"
proof -
  let ?m = "\<lambda>p. opt_is_some_and (matches_prepared_read_deny env p ctx) (matcher_from_context env (restricted RE) ctx)"
  note within = accepted_within [OF ctx GE e(1) [unfolded acc_def] e(2)]
  have lex: "posix_lexical u g" "posix_lexical u r"
    using covers_posix [OF ctx g(1)] g(2) covers_posix [OF ctx within(1)] e(3) by (simp_all add: u_def)
  from within(3) e(1) set_fold_push_new have "\<not> ?m r"
    unfolding acc_def accepted_entries_def
    by (fastforce simp: granted_file_system_entry_within_request_def split: if_splits)
  have "\<not> ?m g"
  proof
    assume "?m g"
    from matcher_without_globs [OF ctx materialized_deny_globs [OF RE globs] lex(1) [unfolded u_def] this]
    obtain f where f: "(f, AccessDeny) \<in> set (resolved_entries env ctx RE)" "covers u f g"
      and all: "\<And>p. posix_lexical u p \<Longrightarrow> covers u f p \<Longrightarrow> ?m p" by (auto simp: u_def)
    have fp: "covers u f path" by (rule covers_trans [OF f(2) g(2)])
    from denied_root_retained [OF ctx RE f(1) fp [unfolded u_def] e(1) _ e(2) within(3) e(3) [unfolded u_def]] within(2,4)
    have "length (path_names u f) \<le> length (path_names u r)" using top fp by auto
    with covers_prefix fp e(3) have "covers u f r" by blast
    with all lex(2) \<open>\<not> ?m r\<close> show False by blast
  qed
  from g(1) obtain d where d: "d \<in> set GE" "(g, AccessRead) \<in> set (resolved_entries env ctx [d])"
    using resolved_entries_iff [of g AccessRead env ctx GE] by auto
  have "granted_file_system_entry_within_request env requested (restricted RE)
      (matcher_from_context env (restricted RE) ctx) d ctx"
    using materialized_path [OF GE d] posix_contextD(1) [OF ctx] lex(1) \<open>\<not> ?m g\<close> g(3)
    by (auto simp: granted_file_system_entry_within_request_def posix_lexical_def u_def can_read_def [of AccessRead])
  with d show ?thesis
    unfolding acc_def accepted_entries_def resolved_push_new [OF ctx] Un_iff
    by (intro disjI2, subst resolved_entries_iff, intro bexI [of _ d]) auto
qed

lemma intersection_access:
  fixes env ctx path
  defines "u \<equiv> uri_env env" and "access \<equiv> \<lambda>fs. resolve_access env (restricted (fs_entries fs)) path ctx"
  assumes ctx: "posix_context env ctx" and path: "posix_lexical u path"
    and res: "intersect_file_systems env requested granted ctx = Some res"
    and readable: "can_read (access res)"
  defines "clear \<equiv> unambiguous u (resolved_entries env ctx (fs_entries granted))"
  shows "can_read (access requested)" "clear \<Longrightarrow> can_read (access granted)"
    "clear \<Longrightarrow> deny_globs (fs_entries requested) = [] \<Longrightarrow> can_write (access res) \<Longrightarrow> can_write (access granted)"
proof -
  obtain RE GE where RE: "materialize_context_dependent_entries env (fs_entries requested) ctx = Some RE"
    and GE: "materialize_context_dependent_entries env (fs_entries granted) ctx = Some GE"
    and rs: "set (resolved_entries env ctx (fs_entries res)) =
       set (resolved_entries env ctx (accepted_entries env requested RE GE ctx))
       \<union> set (resolved_entries env ctx (constraining_denies env RE (accepted_entries env requested RE GE ctx) ctx))
       \<union> set (resolved_entries env ctx (constraining_denies env GE (accepted_entries env requested RE GE ctx) ctx))"
    using intersect_entries [OF ctx res] .
  note RErq = materialize_resolved [OF RE] and GEgr = materialize_resolved [OF GE]
  obtain r where "decides u (resolved_entries env ctx (fs_entries res)) path (r, access res)"
    using readable_decides [OF ctx path [unfolded u_def]] readable unfolding access_def u_def by metis
  then have r: "(r, access res) \<in> set (resolved_entries env ctx (fs_entries res))" "covers u r path"
    and top: "\<And>f. f \<in> set (resolved_entries env ctx (fs_entries res)) \<Longrightarrow> covers u (fst f) path \<Longrightarrow>
      key_le (entry_key u f) (entry_key u (r, access res))"
    by (auto simp: decides_def)
  obtain e where e: "e \<in> set (accepted_entries env requested RE GE ctx)" "(r, access res) \<in> set (resolved_entries env ctx [e])"
    and down: "\<And>p. posix_lexical u p \<Longrightarrow> covers u r p \<Longrightarrow> covers u p path \<Longrightarrow>
       can_read (resolve_access env (restricted RE) p ctx)"
    and deeper: "\<And>f. (f, AccessDeny) \<in> set (resolved_entries env ctx GE) \<Longrightarrow> covers u f path \<Longrightarrow>
       length (path_names u f) < length (path_names u r)"
    using intersection_decider [OF ctx RE GE r(1) [unfolded rs] r(2) [unfolded u_def] readable top [unfolded rs u_def]]
    unfolding u_def by metis
  show "can_read (access requested)"
    using down [OF path r(2) covers_refl [OF path]] unfolding access_def resolve_access_cong [OF RErq] .
  note within = accepted_within [OF ctx GE e]
  obtain g c where g: "decides u (resolved_entries env ctx GE) path (g, c)"
    using some_entry_decides [OF within(1), of u path] r(2) by auto
  then have above: "key_le (entry_key u (r, access res)) (entry_key u (g, c))" "covers u g path"
    "(g, c) \<in> set (resolved_entries env ctx GE)"
    using within(1) r(2) by (auto simp: decides_def)
  have "c \<noteq> AccessDeny" using deeper [of g] above by (auto simp: entry_key_def key_le_def)
  then have granted: "clear \<Longrightarrow> access granted = c"
    using g resolve_access_decides(1) [OF ctx path [unfolded u_def], of c "fs_entries granted"]
    by (auto simp: access_def clear_def u_def GEgr [symmetric])
  then show "clear \<Longrightarrow> can_read (access granted)" using \<open>c \<noteq> AccessDeny\<close> by (simp add: readable_access)
  assume clear: "clear"
  assume globs: "deny_globs (fs_entries requested) = []" and writes: "can_write (access res)"
  show "can_write (access granted)"
  proof (rule ccontr)
    assume "\<not> can_write (access granted)"
    then have read: "c = AccessRead" using granted [OF clear] \<open>c \<noteq> AccessDeny\<close> by (cases c) (auto simp: can_write_def)
    with above(1) writes have longer: "length (path_names u r) < length (path_names u g)"
      by (auto simp: entry_key_def key_le_def can_write_def less_eq_FileSystemAccessMode_def)
    with covers_prefix [OF r(2) above(2)] have "covers u r g" by simp
    with down above(2) covers_posix [OF ctx above(3)] have "can_read (resolve_access env (restricted RE) g ctx)"
      by (simp add: u_def)
    from carve_out_accepted [OF ctx globs RE GE e r(2) [unfolded u_def] _ above(3) [unfolded read] above(2) [unfolded u_def] this]
    have "(g, AccessRead) \<in> set (resolved_entries env ctx (fs_entries res))"
      using top by (force simp: rs u_def entry_key_def key_le_def)
    from top [OF this] above(2) longer show False by (simp add: entry_key_def key_le_def)
  qed
qed

section \<open>Entries that resolve to the same set\<close>

lemma lexical_access:
  assumes "posix_context env ctx" "\<not> posix_lexical (uri_env env) path"
  shows "resolve_access env (restricted es) path ctx = AccessDeny"
  using assms posix_contextD(1) [OF assms(1)]
  by (auto simp: resolve_access_def restricted_def posix_lexical_def)

lemma resolve_access_set_cong:
  assumes "posix_context env ctx"
    and "set (resolved_entries env ctx es) = set (resolved_entries env ctx fs)"
  shows "resolve_access env (restricted es) path ctx = resolve_access env (restricted fs) path ctx"
proof (cases "posix_lexical (uri_env env) path")
  case True
  have "resolve_access env (restricted es) path ctx = a \<Longrightarrow> resolve_access env (restricted fs) path ctx = a" for a
    using resolve_access_decides [OF assms(1) True] assms(2) unambiguous_cong [OF assms(2)] decides_cong [OF assms(2)]
    by (cases "a = AccessDeny") simp_all
  then show ?thesis by simp
qed (simp add: lexical_access [OF assms(1)])

lemma dedup_entries_fold:
  "dedup_entries env es acc = Inr es' \<Longrightarrow> es' = fold (push_new env) es acc"
  by (induction env es acc rule: dedup_entries.induct) (auto split: if_splits)

text \<open>The union of two lists of entries decides as one of them does.\<close>

lemma union_decides:
  assumes "set rs = set xs \<union> set ys" "decides u rs path e"
  shows "decides u xs path e \<or> decides u ys path e"
  using assms by (auto simp: decides_def)

lemma union_covers_none:
  assumes "set rs = set xs \<union> set ys" "\<forall>e \<in> set rs. \<not> covers u (fst e) path"
  shows "\<forall>e \<in> set xs. \<not> covers u (fst e) path"
  using assms by auto

lemma union_access:
  assumes ctx: "posix_context env ctx"
    and un: "set (resolved_entries env ctx es) = set (resolved_entries env ctx bs) \<union> set (resolved_entries env ctx fs)"
    and clear: "unambiguous (uri_env env) (resolved_entries env ctx bs)" "unambiguous (uri_env env) (resolved_entries env ctx fs)"
  shows "resolve_access env (restricted es) path ctx
    \<in> {resolve_access env (restricted bs) path ctx, resolve_access env (restricted fs) path ctx}"
proof (cases "posix_lexical (uri_env env) path")
  case True
  let ?u = "uri_env env" and ?A = "\<lambda>es. resolve_access env (restricted es) path ctx"
  note spec = resolve_access_decides [OF ctx True]
  have all: "unambiguous ?u (resolved_entries env ctx es)"
    using clear un by (auto simp: unambiguous_def list_all_iff)
  have dec: "decides ?u (resolved_entries env ctx X) path (root, a) \<Longrightarrow>
      unambiguous ?u (resolved_entries env ctx X) \<Longrightarrow> ?A X = a" for X root a
    using spec by (cases "a = AccessDeny") blast+
  show ?thesis
  proof (cases "\<exists>e. decides ?u (resolved_entries env ctx es) path e")
    case True
    then obtain root a where d: "decides ?u (resolved_entries env ctx es) path (root, a)" by auto
    with union_decides [OF un d] dec all clear show ?thesis by blast
  next
    case False
    then have "\<forall>e \<in> set (resolved_entries env ctx es). \<not> covers ?u (fst e) path"
      using some_entry_decides by blast
    with union_covers_none [OF un this] have "?A es = AccessDeny" "?A bs = AccessDeny" using spec(2) by blast+
    then show ?thesis by simp
  qed
qed (simp add: lexical_access [OF ctx])

section \<open>An example executor\<close>

definition sample_uri_env :: UriEnv where
  "sample_uri_env = \<lparr>decode_binary = id, base64_decode = (\<lambda>_. None), base64_encode = (\<lambda>_. []),
     push_segment = (\<lambda>s u. u\<lparr>url_segments := url_segments u @ [s]\<rparr>), set_host = (\<lambda>_ _. None)\<rparr>"

definition sample_env :: PolicyEnv where
  "sample_env = \<lparr>uri_env = sample_uri_env, build_glob = (\<lambda>_ _. None), native_convention = Posix\<rparr>"

lemma sample_env_uri: "uri_env sample_env = sample_uri_env"
  by (simp add: sample_env_def)

definition path_of :: "string list \<Rightarrow> PathUri" where
  "path_of names = \<lparr>url_host = None, url_segments = map lit names\<rparr>"

definition sample_context :: FileSystemSandboxPolicyContext where
  "sample_context = \<lparr>cwd = path_of [''a''], workspace_roots = [path_of [''a'']], user_home_dir = None,
     temporary_directories = None\<rparr>"

definition path_entry :: "string list \<Rightarrow> FileSystemAccessMode \<Rightarrow> FileSystemSandboxEntry" where
  "path_entry names access = new_entry (Path (path_of names)) access"

definition profile_of :: "FileSystemSandboxEntry list \<Rightarrow> AdditionalPermissionProfile" where
  "profile_of entries = \<lparr>ap_network = None,
     ap_file_system = Some \<lparr>fs_entries = entries, fs_glob_scan_max_depth = None\<rparr>\<rparr>"

section \<open>Properties\<close>

text \<open>The entries of a profile, and the access they give on their own.\<close>

definition profile_entries :: "AdditionalPermissionProfile \<Rightarrow> FileSystemSandboxEntry list" where
  "profile_entries p = (case ap_file_system p of None \<Rightarrow> [] | Some fs \<Rightarrow> fs_entries fs)"

definition profile_access ::
  "PolicyEnv \<Rightarrow> AdditionalPermissionProfile \<Rightarrow> PathUri \<Rightarrow> FileSystemSandboxPolicyContext \<Rightarrow> FileSystemAccessMode" where
  "profile_access env p path ctx = resolve_access env (restricted (profile_entries p)) path ctx"

lemma no_entries_access: "resolve_access env (restricted []) path ctx = AccessDeny"
  by (simp add: resolve_access_def restricted_def split: option.split)

lemma intersect_profiles_access:
  fixes env ctx path requested granted
  defines "res \<equiv> intersect_permission_profiles_with_context env requested granted ctx"
  assumes "posix_context env ctx" "posix_lexical (uri_env env) path" "can_read (profile_access env res path ctx)"
  shows "can_read (profile_access env requested path ctx)"
    and "unambiguous (uri_env env) (resolved_entries env ctx (profile_entries granted)) \<Longrightarrow>
      can_read (profile_access env granted path ctx)
      \<and> (deny_globs (profile_entries requested) = [] \<and> can_write (profile_access env res path ctx)
          \<longrightarrow> can_write (profile_access env granted path ctx))"
proof -
  let ?g = "case ap_file_system granted of Some fs \<Rightarrow> fs | None \<Rightarrow> \<lparr>fs_entries = [], fs_glob_scan_max_depth = None\<rparr>"
  have g: "profile_entries granted = fs_entries ?g" by (simp add: profile_entries_def split: option.split)
  have "profile_entries res \<noteq> []"
    using assms(4) by (auto simp: profile_access_def no_entries_access readable_access)
  then obtain rq fs where rq: "ap_file_system requested = Some rq" "ap_file_system res = Some fs"
    "intersect_file_systems env rq ?g ctx = Some fs"
    by (auto simp: profile_entries_def res_def intersect_permission_profiles_with_context_def option_filter_def
        split: option.splits if_splits)
  note access = intersection_access [OF assms(2,3) rq(3)]
  show "can_read (profile_access env requested path ctx)"
    using access(1) assms(4) rq(1,2) by (simp add: profile_access_def profile_entries_def)
  assume "unambiguous (uri_env env) (resolved_entries env ctx (profile_entries granted))"
  with access(2,3) assms(4) rq(1,2) g
  show "can_read (profile_access env granted path ctx)
      \<and> (deny_globs (profile_entries requested) = [] \<and> can_write (profile_access env res path ctx)
          \<longrightarrow> can_write (profile_access env granted path ctx))"
    by (simp add: profile_access_def profile_entries_def)
qed


definition sample_requested :: AdditionalPermissionProfile where
  "sample_requested = profile_of [path_entry [''a''] AccessWrite, path_entry [''a'', ''b''] AccessDeny]"

definition sample_granted :: AdditionalPermissionProfile where
  "sample_granted = profile_of [path_entry [''a''] AccessWrite, path_entry [''a'', ''c''] AccessRead]"


text \<open>
  The other half fails: where the request keeps a directory read-only below one it may write, a
  grant of the outer directory makes the inner one writable.
\<close>

lemma intersection_loses_read_only_directory:
  "let requested = profile_of [path_entry [''a''] AccessWrite, path_entry [''a'', ''b''] AccessRead];
       granted = profile_of [path_entry [''a''] AccessWrite];
       path = path_of [''a'', ''b'', ''c'']
   in profile_access sample_env requested path sample_context = AccessRead
      \<and> profile_access sample_env
          (intersect_permission_profiles_with_context sample_env requested granted sample_context) path sample_context
        = AccessWrite"
  by code_simp

lemma materialize_entries:
  assumes "materialize_additional_permissions_with_context env p ctx = Inr p'"
  obtains ms where "materialize_context_dependent_entries env (profile_entries p) ctx = Some ms"
    "profile_entries p' = fold (push_new (uri_env env)) ms []"
proof -
  from assms obtain q where q: "(case ap_file_system p of None \<Rightarrow> Inr p
        | Some fs \<Rightarrow>
            (case materialize_context_dependent_entries env (fs_entries fs) ctx of
               None \<Rightarrow> Inl ()
             | Some entries \<Rightarrow> Inr (p\<lparr>ap_file_system := Some (fs\<lparr>fs_entries := entries\<rparr>)\<rparr>))) = Inr q"
    and n: "normalize_additional_permissions (uri_env env) q = Inr p'"
    by (auto simp: materialize_additional_permissions_with_context_def bind_result_Inr
        normalize_additional_permissions_with_context_def split: if_splits)
  from q have m: "materialize_context_dependent_entries env (profile_entries p) ctx = Some (profile_entries q)"
    by (auto simp: profile_entries_def split: option.splits)
  from n have "profile_entries p' = fold (push_new (uri_env env)) (profile_entries q) []"
    by (auto simp: normalize_additional_permissions_def profile_entries_def bind_result_Inr Let_def
        file_system_is_empty_def dest!: dedup_entries_fold split: option.splits if_splits)
  with m show thesis by (rule that)
qed

lemma materialize_access:
  assumes "posix_context env ctx" "materialize_additional_permissions_with_context env p ctx = Inr p'"
  shows "profile_access env p' path ctx = profile_access env p path ctx"
proof -
  obtain ms where ms: "materialize_context_dependent_entries env (profile_entries p) ctx = Some ms"
    "profile_entries p' = fold (push_new (uri_env env)) ms []"
    using materialize_entries [OF assms(2)] .
  have "set (resolved_entries env ctx (profile_entries p')) = set (resolved_entries env ctx (profile_entries p))"
    unfolding ms(2) resolved_push_new [OF assms(1)] materialize_resolved [OF ms(1)] by simp
  then show ?thesis unfolding profile_access_def by (rule resolve_access_set_cong [OF assms(1)])
qed

text \<open>Resolving the entries of a profile that depend on the working directory, the workspace roots
  or the temporary directories changes no path's access: with POSIX paths, every path has the same
  access under the resolved profile as under the profile itself.\<close>

theorem materialize_keeps_access:
  assumes "posix_context env ctx" "materialize_additional_permissions_with_context env p ctx = Inr p'"
  shows "profile_access env p' path ctx = profile_access env p path ctx"
  using assms by (rule materialize_access)

definition sample_project_profile :: AdditionalPermissionProfile where
  "sample_project_profile = profile_of [new_entry (Special (ProjectRoots None)) AccessWrite,
     path_entry [''a''] AccessWrite, path_entry [''a'', ''b''] AccessDeny]"

definition sample_project_resolved :: AdditionalPermissionProfile where
  "sample_project_resolved = profile_of [path_entry [''a''] AccessWrite, path_entry [''a'', ''b''] AccessDeny]"

theorem materialize_keeps_access_witness:
  "profile_access sample_env sample_project_resolved (path_of [''a'', ''c'']) sample_context
   = profile_access sample_env sample_project_profile (path_of [''a'', ''c'']) sample_context"
  by (rule materialize_keeps_access; code_simp)

lemma restricted_access:
  assumes "fp_kind p = Restricted"
  shows "resolve_access env p path ctx = resolve_access env (restricted (fp_entries p)) path ctx"
  unfolding resolve_access_def restricted_def FileSystemSandboxPolicy.select_convs assms ..

lemma effective_policy_entries:
  fixes env policy added
  defines "effective \<equiv> effective_file_system_sandbox_policy (uri_env env) policy (Some added)"
  assumes "posix_context env ctx" "fp_kind policy = Restricted"
  shows "fp_kind effective = Restricted"
    "set (resolved_entries env ctx (fp_entries effective)) =
       set (resolved_entries env ctx (fp_entries policy)) \<union> set (resolved_entries env ctx (profile_entries added))"
  using assms(3) resolved_push_new [OF assms(2)]
  by (auto simp: effective_def effective_file_system_sandbox_policy_def file_system_is_empty_def profile_entries_def
      merge_file_system_policy_with_additional_permissions_def split: option.split)

text \<open>Adding permissions to a restricted policy: with POSIX paths, a path has, under the
  effective policy, the access that the policy gives it or the access that the added entries do.\<close>

theorem added_permissions_access:
  assumes "posix_context env ctx" "fp_kind policy = Restricted"
    and "unambiguous (uri_env env) (resolved_entries env ctx (fp_entries policy))"
      "unambiguous (uri_env env) (resolved_entries env ctx (profile_entries added))"
  shows "resolve_access env (effective_file_system_sandbox_policy (uri_env env) policy (Some added)) path ctx
    \<in> {resolve_access env policy path ctx, profile_access env added path ctx}"
  using union_access [OF assms(1) effective_policy_entries(2) [OF assms(1,2)] assms(3,4)]
  unfolding profile_access_def restricted_access [OF assms(2)]
    restricted_access [OF effective_policy_entries(1) [OF assms(1,2)]] .

definition sample_policy :: FileSystemSandboxPolicy where
  "sample_policy = restricted [path_entry [''a''] AccessRead, path_entry [''a'', ''b''] AccessDeny]"

definition sample_added :: AdditionalPermissionProfile where
  "sample_added = profile_of [path_entry [''a'', ''b'', ''c''] AccessWrite]"

theorem added_permissions_access_witness:
  "resolve_access sample_env (effective_file_system_sandbox_policy sample_uri_env sample_policy (Some sample_added))
       (path_of [''a'', ''b'', ''d'']) sample_context
    \<in> {resolve_access sample_env sample_policy (path_of [''a'', ''b'', ''d'']) sample_context,
       profile_access sample_env sample_added (path_of [''a'', ''b'', ''d'']) sample_context}"
proof -
  have "posix_context sample_env sample_context" "fp_kind sample_policy = Restricted"
    "unambiguous (uri_env sample_env) (resolved_entries sample_env sample_context (fp_entries sample_policy))"
    "unambiguous (uri_env sample_env) (resolved_entries sample_env sample_context (profile_entries sample_added))"
    by code_simp+
  with sample_env_uri show ?thesis
    using added_permissions_access [of sample_env sample_context sample_policy sample_added] by metis
qed

text \<open>A path that an entry of a restricted policy denies can be accessed under the effective
  policy only if an added entry contains the path and is more specific than the denial.\<close>

theorem denial_needs_specific_grant:
  assumes ctx: "posix_context env ctx" "fp_kind policy = Restricted"
    and denial: "decides (uri_env env) (resolved_entries env ctx (fp_entries policy)) path (root, AccessDeny)"
    and readable: "can_read (resolve_access env
      (effective_file_system_sandbox_policy (uri_env env) policy (Some added)) path ctx)"
  shows "list_ex (\<lambda>(r, a). can_read a \<and> covers (uri_env env) r path
      \<and> length (path_names (uri_env env) root) < length (path_names (uri_env env) r))
    (resolved_entries env ctx (profile_entries added))"
proof -
  let ?eff = "effective_file_system_sandbox_policy (uri_env env) policy (Some added)" and ?u = "uri_env env"
  note eff = effective_policy_entries [OF ctx, of added]
  have lex: "posix_lexical ?u path"
    using readable lexical_access [OF ctx(1)] by (auto simp: restricted_access [OF eff(1)] readable_access)
  obtain r a where dec: "decides ?u (resolved_entries env ctx (fp_entries ?eff)) path (r, a)" "can_read a"
    using readable readable_decides [OF ctx(1) lex] unfolding restricted_access [OF eff(1)] by metis
  then have "key_le (entry_key ?u (root, AccessDeny)) (entry_key ?u (r, a))"
    using denial by (auto simp: decides_def eff(2))
  with dec(2) have longer: "length (path_names ?u root) < length (path_names ?u r)"
    by (auto simp: entry_key_def readable_access dest: key_le_deny)
  have "(r, a) \<notin> set (resolved_entries env ctx (fp_entries policy))"
    using denial dec(1) longer by (fastforce simp: decides_def entry_key_def key_le_def)
  with dec longer show ?thesis by (auto simp: decides_def eff(2) list_ex_iff)
qed

theorem denial_needs_specific_grant_witness:
  "list_ex (\<lambda>(r, a). can_read a \<and> covers sample_uri_env r (path_of [''a'', ''b'', ''c'', ''d''])
      \<and> length (path_names sample_uri_env (path_of [''a'', ''b''])) < length (path_names sample_uri_env r))
    (resolved_entries sample_env sample_context (profile_entries sample_added))"
  unfolding sample_env_uri [symmetric]
  by (rule denial_needs_specific_grant [of _ _ sample_policy]; code_simp)

text \<open>C36: The entry that decides: in a restricted policy and with POSIX paths, the access of a path is
  that of the entry whose resolved root contains the path and has the most names, the stronger of
  denying, writing and reading where two have as many; a path that no entry contains is denied, and so
  is every path when a root cannot be compared by its names.\<close>

theorem resolve_access_spec:
  assumes "posix_context env ctx" "posix_lexical (uri_env env) path" "fp_kind policy = Restricted"
  shows "let rs = resolved_entries env ctx (fp_entries policy) in
     resolve_access env policy path ctx = a \<longleftrightarrow>
       (if \<not> unambiguous (uri_env env) rs \<or> \<not> list_ex (\<lambda>e. covers (uri_env env) (fst e) path) rs then a = AccessDeny
        else (\<exists>root. decides (uri_env env) rs path (root, a)))"
proof -
  let ?rs = "resolved_entries env ctx (fp_entries policy)" and ?u = "uri_env env"
  note spec = resolve_access_decides [OF assms(1,2)]
  show ?thesis
  proof (cases "unambiguous ?u ?rs \<and> list_ex (\<lambda>e. covers ?u (fst e) path) ?rs")
    case True
    then show ?thesis
      using spec(1) [of a "fp_entries policy"] spec(2) [of "fp_entries policy"]
      by (cases "a = AccessDeny") (auto simp: Let_def restricted_access [OF assms(3)] list_ex_iff)
  next
    case False
    then show ?thesis
      using spec(2) [of "fp_entries policy"] by (auto simp: Let_def restricted_access [OF assms(3)] list_ex_iff)
  qed
qed

theorem resolve_access_spec_witness:
  "\<exists>root. decides sample_uri_env (resolved_entries sample_env sample_context (fp_entries sample_policy))
     (path_of [''a'', ''b'', ''c'']) (root, AccessDeny)"
proof -
  have env: "posix_context sample_env sample_context" "posix_lexical (uri_env sample_env) (path_of [''a'', ''b'', ''c''])"
    "fp_kind sample_policy = Restricted"
    and here: "unambiguous sample_uri_env (resolved_entries sample_env sample_context (fp_entries sample_policy))"
    "list_ex (\<lambda>e. covers sample_uri_env (fst e) (path_of [''a'', ''b'', ''c'']))
       (resolved_entries sample_env sample_context (fp_entries sample_policy))"
    "resolve_access sample_env sample_policy (path_of [''a'', ''b'', ''c'']) sample_context = AccessDeny"
    by code_simp+
  from resolve_access_spec [OF env(1-3), of AccessDeny] here show ?thesis unfolding sample_env_uri Let_def by simp
qed

section \<open>Protected metadata\<close>

text \<open>
  Whether a path inside the metadata directory of a writable root can be written depends on the
  order of the entries: only the first protected directory that contains the path is looked at.
\<close>

lemma metadata_write_denial_depends_on_order:
  "let outer = path_entry [''a''] AccessWrite;
       inner = path_entry [''a'', ''.git'', ''hooks''] AccessWrite;
       path = path_of [''a'', ''.git'', ''hooks'', ''.git'', ''config'']
   in can_write_path sample_env (restricted [outer, inner]) path sample_context
      \<and> \<not> can_write_path sample_env (restricted [inner, outer]) path sample_context"
  by code_simp

end
