(* ===== verification/Turn_State.thy ===== *)
theory Turn_State
  imports Permission_Profiles Response_Item Agent_Path "HOL-Library.Word"
begin

text \<open>
  The state of a turn (\<open>core/src/state/turn.rs\<close>) and the queue of its input together with the
  mailbox of the session (\<open>core/src/session/input_queue.rs\<close>).

  A hash map is a partial map. The sending half of a one-shot channel is the number of its channel.
  The metadata of approved MCP tool calls, the identifiers of MCP requests and the captured step
  are parameters of the type \<open>TurnState\<close>. Of the environment of a turn the code here uses its
  identifier and the context its sandbox gives to policies. A lock guards every operation, so each
  is a function of the state it locks; gauges and metrics are left out.
\<close>

section \<open>Input of a turn\<close>

record TextElement =
  te_start :: nat
  te_end :: nat
  te_placeholder :: "rstr option"

datatype UserInput =
    TextInput rstr "TextElement list"
  | ImageInput rstr "ImageDetail option"
  | LocalImage rstr "ImageDetail option"
  | AudioInput rstr
  | LocalAudio rstr
  | SkillInput rstr rstr
  | MentionInput rstr rstr

record InterAgentCommunication =
  ic_id :: "ResponseItemId option"
  ic_author :: AgentPath
  ic_recipient :: AgentPath
  ic_other_recipients :: "AgentPath list"
  ic_content :: rstr
  ic_encrypted_content :: "rstr option"
  ic_passthrough :: "passthrough option"
  trigger_turn :: bool

datatype CyberAccessProgram = CyberStandard | DaybreakBlue | DaybreakRed

record TurnStartOptions =
  turn_trigger :: "rstr option"
  final_output_json_schema :: "json_value option"
  service_tier :: "rstr option"
  parent_turn_id :: "rstr option"
  root_turn_id :: "rstr option"
  cyber_access_program :: "CyberAccessProgram option"

definition default_start_options :: TurnStartOptions where
  "default_start_options = \<lparr>turn_trigger = None, final_output_json_schema = None, service_tier = None,
     parent_turn_id = None, root_turn_id = None, cyber_access_program = None\<rparr>"

datatype (plugins only: code size) TurnInput =
    InputUser "UserInput list" "rstr option" "64 word option"
  | InputFunctionCallOutput ResponseItem
  | InputResponseItem ResponseItemEnvelope
  | InputInterAgent InterAgentCommunication

datatype InputQueueActivity = ActivityMailbox | ActivitySteer

section \<open>Turns\<close>

datatype MailboxDeliveryPhase = CurrentTurn | NextTurn

type_synonym Sender = nat

record RequestPermissionProfile =
  rq_network :: "NetworkPermissions option"
  rq_file_system :: "FileSystemPermissions option"

definition request_is_empty :: "RequestPermissionProfile \<Rightarrow> bool" where
  "request_is_empty p \<longleftrightarrow> rq_network p = None \<and> rq_file_system p = None"

definition default_request :: RequestPermissionProfile where
  "default_request = \<lparr>rq_network = None, rq_file_system = None\<rparr>"

definition additional_from_request :: "RequestPermissionProfile \<Rightarrow> AdditionalPermissionProfile" where
  "additional_from_request p = \<lparr>ap_network = rq_network p, ap_file_system = rq_file_system p\<rparr>"

definition request_from_additional :: "AdditionalPermissionProfile \<Rightarrow> RequestPermissionProfile" where
  "request_from_additional p = \<lparr>rq_network = ap_network p, rq_file_system = ap_file_system p\<rparr>"

record TurnEnvironment =
  environment_id :: rstr
  policy_context :: "FileSystemSandboxPolicyContext option"

record PendingRequestPermissions =
  pr_tx_response :: Sender
  pr_requested_permissions :: RequestPermissionProfile
  pr_environment :: TurnEnvironment

record TokenUsage =
  input_tokens :: "64 word"
  cached_input_tokens :: "64 word"
  cache_write_input_tokens :: "64 word"
  output_tokens :: "64 word"
  reasoning_output_tokens :: "64 word"
  total_tokens :: "64 word"
  codex_rollout_budget_units :: "json_number option"

definition default_token_usage :: TokenUsage where
  "default_token_usage = \<lparr>input_tokens = 0, cached_input_tokens = 0, cache_write_input_tokens = 0,
     output_tokens = 0, reasoning_output_tokens = 0, total_tokens = 0,
     codex_rollout_budget_units = None\<rparr>"

record ('id, 'meta, 'step) TurnState =
  pending_approvals :: "rstr \<rightharpoonup> Sender"
  pending_request_permissions :: "rstr \<rightharpoonup> PendingRequestPermissions"
  pending_user_input :: "rstr \<rightharpoonup> Sender"
  pending_elicitations :: "rstr \<times> 'id \<rightharpoonup> Sender"
  mcp_approval_metadata :: "rstr \<rightharpoonup> 'meta"
  pending_dynamic_tools :: "rstr \<rightharpoonup> Sender"
  pending_input :: "TurnInput list"
  mailbox_delivery_phase :: MailboxDeliveryPhase
  granted_by_environment_id :: "rstr \<rightharpoonup> AdditionalPermissionProfile"
  strict_auto_review :: bool
  tool_calls :: "64 word"
  has_memory_citation :: bool
  token_usage_at_turn_start :: TokenUsage
  last_known_step_context :: "'step option"

definition default_turn_state :: "('id, 'meta, 'step) TurnState" where
  "default_turn_state = \<lparr>pending_approvals = Map.empty, pending_request_permissions = Map.empty,
     pending_user_input = Map.empty, pending_elicitations = Map.empty, mcp_approval_metadata = Map.empty,
     pending_dynamic_tools = Map.empty, pending_input = [], mailbox_delivery_phase = CurrentTurn,
     granted_by_environment_id = Map.empty, strict_auto_review = False, tool_calls = 0,
     has_memory_citation = False, token_usage_at_turn_start = default_token_usage,
     last_known_step_context = None\<rparr>"

section \<open>Waiters\<close>

text \<open>\<open>HashMap::insert\<close> and \<open>HashMap::remove\<close> return the value that was there.\<close>

definition insert_pending_approval ::
  "rstr \<Rightarrow> Sender \<Rightarrow> ('id, 'meta, 'step) TurnState \<Rightarrow> Sender option \<times> ('id, 'meta, 'step) TurnState" where
  "insert_pending_approval k tx ts =
     (pending_approvals ts k, ts\<lparr>pending_approvals := (pending_approvals ts)(k \<mapsto> tx)\<rparr>)"

definition remove_pending_approval ::
  "rstr \<Rightarrow> ('id, 'meta, 'step) TurnState \<Rightarrow> Sender option \<times> ('id, 'meta, 'step) TurnState" where
  "remove_pending_approval k ts =
     (pending_approvals ts k, ts\<lparr>pending_approvals := (pending_approvals ts)(k := None)\<rparr>)"

definition clear_pending_waiters :: "('id, 'meta, 'step) TurnState \<Rightarrow> ('id, 'meta, 'step) TurnState" where
  "clear_pending_waiters ts =
     ts\<lparr>pending_approvals := Map.empty, pending_request_permissions := Map.empty, pending_user_input := Map.empty,
        pending_elicitations := Map.empty, mcp_approval_metadata := Map.empty, pending_dynamic_tools := Map.empty\<rparr>"

definition insert_pending_request_permissions ::
  "rstr \<Rightarrow> PendingRequestPermissions \<Rightarrow> ('id, 'meta, 'step) TurnState
     \<Rightarrow> PendingRequestPermissions option \<times> ('id, 'meta, 'step) TurnState" where
  "insert_pending_request_permissions k p ts =
     (pending_request_permissions ts k,
      ts\<lparr>pending_request_permissions := (pending_request_permissions ts)(k \<mapsto> p)\<rparr>)"

definition remove_pending_request_permissions ::
  "rstr \<Rightarrow> ('id, 'meta, 'step) TurnState \<Rightarrow> PendingRequestPermissions option \<times> ('id, 'meta, 'step) TurnState" where
  "remove_pending_request_permissions k ts =
     (pending_request_permissions ts k,
      ts\<lparr>pending_request_permissions := (pending_request_permissions ts)(k := None)\<rparr>)"

definition insert_pending_user_input ::
  "rstr \<Rightarrow> Sender \<Rightarrow> ('id, 'meta, 'step) TurnState \<Rightarrow> Sender option \<times> ('id, 'meta, 'step) TurnState" where
  "insert_pending_user_input k tx ts =
     (pending_user_input ts k, ts\<lparr>pending_user_input := (pending_user_input ts)(k \<mapsto> tx)\<rparr>)"

definition remove_pending_user_input ::
  "rstr \<Rightarrow> ('id, 'meta, 'step) TurnState \<Rightarrow> Sender option \<times> ('id, 'meta, 'step) TurnState" where
  "remove_pending_user_input k ts =
     (pending_user_input ts k, ts\<lparr>pending_user_input := (pending_user_input ts)(k := None)\<rparr>)"

definition insert_pending_elicitation ::
  "rstr \<Rightarrow> 'id \<Rightarrow> Sender \<Rightarrow> ('id, 'meta, 'step) TurnState \<Rightarrow> Sender option \<times> ('id, 'meta, 'step) TurnState" where
  "insert_pending_elicitation server_name request_id tx ts =
     (pending_elicitations ts (server_name, request_id),
      ts\<lparr>pending_elicitations := (pending_elicitations ts)((server_name, request_id) \<mapsto> tx)\<rparr>)"

definition remove_pending_elicitation ::
  "rstr \<Rightarrow> 'id \<Rightarrow> ('id, 'meta, 'step) TurnState \<Rightarrow> Sender option \<times> ('id, 'meta, 'step) TurnState" where
  "remove_pending_elicitation server_name request_id ts =
     (pending_elicitations ts (server_name, request_id),
      ts\<lparr>pending_elicitations := (pending_elicitations ts)((server_name, request_id) := None)\<rparr>)"

definition insert_mcp_tool_approval_metadata ::
  "rstr \<Rightarrow> 'meta \<Rightarrow> ('id, 'meta, 'step) TurnState \<Rightarrow> ('id, 'meta, 'step) TurnState" where
  "insert_mcp_tool_approval_metadata call_id meta ts =
     ts\<lparr>mcp_approval_metadata := (mcp_approval_metadata ts)(call_id \<mapsto> meta)\<rparr>"

definition mcp_tool_approval_metadata :: "rstr \<Rightarrow> ('id, 'meta, 'step) TurnState \<Rightarrow> 'meta option" where
  "mcp_tool_approval_metadata call_id ts = mcp_approval_metadata ts call_id"

definition insert_pending_dynamic_tool ::
  "rstr \<Rightarrow> Sender \<Rightarrow> ('id, 'meta, 'step) TurnState \<Rightarrow> Sender option \<times> ('id, 'meta, 'step) TurnState" where
  "insert_pending_dynamic_tool k tx ts =
     (pending_dynamic_tools ts k, ts\<lparr>pending_dynamic_tools := (pending_dynamic_tools ts)(k \<mapsto> tx)\<rparr>)"

definition remove_pending_dynamic_tool ::
  "rstr \<Rightarrow> ('id, 'meta, 'step) TurnState \<Rightarrow> Sender option \<times> ('id, 'meta, 'step) TurnState" where
  "remove_pending_dynamic_tool k ts =
     (pending_dynamic_tools ts k, ts\<lparr>pending_dynamic_tools := (pending_dynamic_tools ts)(k := None)\<rparr>)"

section \<open>Delivery phase and granted permissions\<close>

definition set_mailbox_delivery_phase ::
  "MailboxDeliveryPhase \<Rightarrow> ('id, 'meta, 'step) TurnState \<Rightarrow> ('id, 'meta, 'step) TurnState" where
  "set_mailbox_delivery_phase phase ts = ts\<lparr>mailbox_delivery_phase := phase\<rparr>"

definition accept_mailbox_delivery_for_current_turn ::
  "('id, 'meta, 'step) TurnState \<Rightarrow> ('id, 'meta, 'step) TurnState" where
  "accept_mailbox_delivery_for_current_turn ts = set_mailbox_delivery_phase CurrentTurn ts"

definition accepts_mailbox_delivery_for_current_turn :: "('id, 'meta, 'step) TurnState \<Rightarrow> bool" where
  "accepts_mailbox_delivery_for_current_turn ts \<longleftrightarrow> mailbox_delivery_phase ts = CurrentTurn"

text \<open>The same code records permissions in a turn and in the session.\<close>

definition record_granted_permissions ::
  "UriEnv \<Rightarrow> rstr \<Rightarrow> AdditionalPermissionProfile \<Rightarrow> (rstr \<rightharpoonup> AdditionalPermissionProfile)
     \<Rightarrow> (rstr \<rightharpoonup> AdditionalPermissionProfile)" where
  "record_granted_permissions env env_id permissions granted =
     (case merge_permission_profiles env (granted env_id) (Some permissions) of
        Some p \<Rightarrow> granted(env_id \<mapsto> p)
      | None \<Rightarrow> granted)"

definition record_granted_turn_permissions ::
  "UriEnv \<Rightarrow> rstr \<Rightarrow> AdditionalPermissionProfile \<Rightarrow> ('id, 'meta, 'step) TurnState \<Rightarrow> ('id, 'meta, 'step) TurnState" where
  "record_granted_turn_permissions env env_id permissions ts =
     ts\<lparr>granted_by_environment_id := record_granted_permissions env env_id permissions (granted_by_environment_id ts)\<rparr>"

definition granted_permissions ::
  "rstr \<Rightarrow> ('id, 'meta, 'step) TurnState \<Rightarrow> AdditionalPermissionProfile option" where
  "granted_permissions env_id ts = granted_by_environment_id ts env_id"

definition enable_strict_auto_review :: "('id, 'meta, 'step) TurnState \<Rightarrow> ('id, 'meta, 'step) TurnState" where
  "enable_strict_auto_review ts = ts\<lparr>strict_auto_review := True\<rparr>"

definition strict_auto_review_enabled :: "('id, 'meta, 'step) TurnState \<Rightarrow> bool" where
  "strict_auto_review_enabled ts = strict_auto_review ts"

end
