(* ===== verification/Granted_Permissions.thy ===== *)
theory Granted_Permissions
  imports Permission_Intersection Turn_State
begin

text \<open>
  Permissions a command asks for while it runs: the requests and their answers in
  \<open>core/src/session/mod.rs\<close>, what the answers leave in the turn and in the session, and how a later
  command uses it (\<open>core/src/tools/handlers/mod.rs\<close>).

  A handler runs without interruption here, with the state of the active turn and the grants of the
  session. Events, hooks and logging are left out.
\<close>

section \<open>Requests and answers\<close>

datatype PermissionGrantScope = GrantTurn | GrantSession

record RequestPermissionsResponse =
  rp_permissions :: RequestPermissionProfile
  rp_scope :: PermissionGrantScope
  rp_strict_auto_review :: bool

definition no_permissions_response :: RequestPermissionsResponse where
  "no_permissions_response = \<lparr>rp_permissions = default_request, rp_scope = GrantTurn, rp_strict_auto_review = False\<rparr>"

record GranularApprovalConfig =
  sandbox_approval :: bool
  rules_approval :: bool
  skill_approval :: bool
  request_permissions_approval :: bool
  mcp_elicitations :: bool

datatype AskForApproval = UnlessTrusted | OnRequest | Granular GranularApprovalConfig | NeverAsk

datatype NetworkPolicyRuleAction = RuleAllow | RuleDeny

record NetworkPolicyAmendment =
  na_host :: rstr
  na_action :: NetworkPolicyRuleAction

datatype ReviewDecision =
    Approved
  | ApprovedExecpolicyAmendment "rstr list"
  | ApprovedForSession
  | ApprovedMcpPolicyAmendment
  | NetworkAmendment NetworkPolicyAmendment
  | Denied rstr
  | TimedOut
  | Abort

definition normalize_request_permissions_response ::
  "PolicyEnv \<Rightarrow> RequestPermissionProfile \<Rightarrow> RequestPermissionsResponse \<Rightarrow> FileSystemSandboxPolicyContext
     \<Rightarrow> RequestPermissionsResponse" where
  "normalize_request_permissions_response env requested response ctx =
     (if rp_strict_auto_review response \<and> rp_scope response = GrantSession then no_permissions_response
      else if request_is_empty (rp_permissions response) then response
      else response\<lparr>rp_permissions := request_from_additional
             (intersect_permission_profiles_with_context env (additional_from_request requested)
                (additional_from_request (rp_permissions response)) ctx)\<rparr>)"

text \<open>What the handlers read and change: the grants of the session, the state of the active turn, and
  the answers sent to the waiting tools.\<close>

record ('id, 'meta, 'step) PermissionState =
  session_grants :: "rstr \<rightharpoonup> AdditionalPermissionProfile"
  active_turn_state :: "('id, 'meta, 'step) TurnState option"
  sent_responses :: "(Sender \<times> RequestPermissionsResponse) list"

definition record_granted_request_permissions_for_turn ::
  "UriEnv \<Rightarrow> RequestPermissionsResponse \<Rightarrow> rstr \<Rightarrow> ('id, 'meta, 'step) PermissionState
     \<Rightarrow> ('id, 'meta, 'step) PermissionState" where
  "record_granted_request_permissions_for_turn env response env_id st =
     (if request_is_empty (rp_permissions response) then st
      else let permissions = additional_from_request (rp_permissions response)
      in case rp_scope response of
           GrantTurn \<Rightarrow>
             st\<lparr>active_turn_state := map_option (\<lambda>ts.
                  let ts = record_granted_turn_permissions env env_id permissions ts
                  in if rp_strict_auto_review response then enable_strict_auto_review ts else ts)
                (active_turn_state st)\<rparr>
         | GrantSession \<Rightarrow>
             st\<lparr>session_grants := record_granted_permissions env env_id permissions (session_grants st)\<rparr>)"

definition notify_request_permissions_response ::
  "PolicyEnv \<Rightarrow> rstr \<Rightarrow> RequestPermissionsResponse \<Rightarrow> ('id, 'meta, 'step) PermissionState
     \<Rightarrow> ('id, 'meta, 'step) PermissionState" where
  "notify_request_permissions_response env call_id response st =
     (case active_turn_state st of None \<Rightarrow> st
      | Some ts \<Rightarrow>
          (case remove_pending_request_permissions call_id ts of
             (None, ts) \<Rightarrow> st\<lparr>active_turn_state := Some ts\<rparr>
           | (Some entry, ts) \<Rightarrow>
               let response = (case policy_context (pr_environment entry) of
                     Some ctx \<Rightarrow> normalize_request_permissions_response env (pr_requested_permissions entry) response ctx
                   | None \<Rightarrow> no_permissions_response);
                   st = record_granted_request_permissions_for_turn (uri_env env) response
                          (environment_id (pr_environment entry)) (st\<lparr>active_turn_state := Some ts\<rparr>)
               in st\<lparr>sent_responses := sent_responses st @ [(pr_tx_response entry, response)]\<rparr>))"

text \<open>What the decision of the reviewer grants.\<close>

definition reviewed_permissions ::
  "ReviewDecision \<Rightarrow> RequestPermissionProfile \<Rightarrow> RequestPermissionProfile \<times> PermissionGrantScope" where
  "reviewed_permissions decision requested =
     (case decision of
        Approved \<Rightarrow> (requested, GrantTurn)
      | ApprovedExecpolicyAmendment _ \<Rightarrow> (requested, GrantTurn)
      | NetworkAmendment amendment \<Rightarrow>
          (case na_action amendment of RuleAllow \<Rightarrow> (requested, GrantTurn) | RuleDeny \<Rightarrow> (default_request, GrantTurn))
      | ApprovedForSession \<Rightarrow> (requested, GrantSession)
      | ApprovedMcpPolicyAmendment \<Rightarrow> (default_request, GrantTurn)
      | Abort \<Rightarrow> (default_request, GrantTurn)
      | Denied _ \<Rightarrow> (default_request, GrantTurn)
      | TimedOut \<Rightarrow> (default_request, GrantTurn))"

definition may_ask :: "AskForApproval \<Rightarrow> bool" where
  "may_ask policy =
     (case policy of NeverAsk \<Rightarrow> False | Granular c \<Rightarrow> request_permissions_approval c | _ \<Rightarrow> True)"

text \<open>
  \<open>request_permissions_for_environment\<close>, until it answers or waits for the user on the channel
  \<open>tx\<close>: the environment the turn knows by the identifier, and the decision of the reviewer, if
  there is one, are given.
\<close>

definition request_permissions_for_environment ::
  "PolicyEnv \<Rightarrow> AskForApproval \<Rightarrow> TurnEnvironment option \<Rightarrow> rstr \<Rightarrow> RequestPermissionProfile \<Rightarrow> ReviewDecision option
     \<Rightarrow> Sender \<Rightarrow> ('id, 'meta, 'step) PermissionState
     \<Rightarrow> RequestPermissionsResponse option \<times> ('id, 'meta, 'step) PermissionState" where
  "request_permissions_for_environment env policy environ call_id requested decision tx st =
     (case environ of None \<Rightarrow> (Some no_permissions_response, st)
      | Some e \<Rightarrow>
          if \<not> may_ask policy then (Some no_permissions_response, st)
          else case policy_context e of None \<Rightarrow> (Some no_permissions_response, st)
          | Some ctx \<Rightarrow>
              (case decision of
                 Some d \<Rightarrow>
                   let (permissions, scope) = reviewed_permissions d requested;
                       response = normalize_request_permissions_response env requested
                         \<lparr>rp_permissions = permissions, rp_scope = scope, rp_strict_auto_review = False\<rparr> ctx
                   in (Some response,
                       record_granted_request_permissions_for_turn (uri_env env) response (environment_id e) st)
               | None \<Rightarrow>
                   (None, st\<lparr>active_turn_state := map_option (\<lambda>ts.
                      snd (insert_pending_request_permissions call_id
                        \<lparr>pr_tx_response = tx, pr_requested_permissions = requested, pr_environment = e\<rparr> ts))
                      (active_turn_state st)\<rparr>)))"

definition cancel_request_permissions ::
  "rstr \<Rightarrow> ('id, 'meta, 'step) PermissionState \<Rightarrow> ('id, 'meta, 'step) PermissionState" where
  "cancel_request_permissions call_id st =
     st\<lparr>active_turn_state := map_option (\<lambda>ts. snd (remove_pending_request_permissions call_id ts)) (active_turn_state st)\<rparr>"

section \<open>Using what was granted\<close>

datatype SandboxPermissions = UseDefault | RequireEscalated | WithAdditionalPermissions

definition uses_additional_permissions :: "SandboxPermissions \<Rightarrow> bool" where
  "uses_additional_permissions p \<longleftrightarrow> p = WithAdditionalPermissions"

record EffectiveAdditionalPermissions =
  ea_sandbox_permissions :: SandboxPermissions
  ea_additional_permissions :: "AdditionalPermissionProfile option"
  ea_permissions_preapproved :: bool

definition normalize_and_validate_additional_permissions ::
  "PolicyEnv \<Rightarrow> bool \<Rightarrow> AskForApproval \<Rightarrow> SandboxPermissions \<Rightarrow> AdditionalPermissionProfile option \<Rightarrow> bool
     \<Rightarrow> FileSystemSandboxPolicyContext \<Rightarrow> unit + AdditionalPermissionProfile option" where
  "normalize_and_validate_additional_permissions env allowed policy sandbox additional preapproved ctx =
     (let uses = sandbox = WithAdditionalPermissions
      in if \<not> preapproved \<and> \<not> allowed \<and> (uses \<or> additional \<noteq> None) then Inl ()
         else if uses then
           (if \<not> preapproved \<and> policy \<noteq> OnRequest then Inl ()
            else case additional of None \<Rightarrow> Inl ()
            | Some p \<Rightarrow>
                bind_result (normalize_additional_permissions_with_context env p ctx) (\<lambda>normalized.
                  if additional_is_empty normalized then Inl () else Inr (Some normalized)))
         else if additional \<noteq> None then Inl () else Inr None)"

definition implicit_granted_permissions ::
  "SandboxPermissions \<Rightarrow> AdditionalPermissionProfile option \<Rightarrow> EffectiveAdditionalPermissions
     \<Rightarrow> AdditionalPermissionProfile option" where
  "implicit_granted_permissions sandbox additional effective =
     (if \<not> uses_additional_permissions sandbox \<and> sandbox \<noteq> RequireEscalated \<and> additional = None
      then ea_additional_permissions effective else None)"

text \<open>An entry whose directories the context does not name.\<close>

definition is_unresolved_entry :: "FileSystemSandboxPolicyContext \<Rightarrow> FileSystemSandboxEntry \<Rightarrow> bool" where
  "is_unresolved_entry ctx e \<longleftrightarrow>
     (case en_path e of
        Special Tmpdir \<Rightarrow> is_none_or (\<lambda>ds. ds = []) (temporary_directories ctx)
      | Special (ProjectRoots _) \<Rightarrow> workspace_roots ctx = []
      | _ \<Rightarrow> False)"

definition same_file_system :: "UriEnv \<Rightarrow> FileSystemPermissions option \<Rightarrow> FileSystemPermissions option \<Rightarrow> bool" where
  "same_file_system env effective granted =
     (case (effective, granted) of
        (Some e, Some g) \<Rightarrow>
          fs_glob_scan_max_depth e = fs_glob_scan_max_depth g
          \<and> length (fs_entries e) = length (fs_entries g)
          \<and> list_all (contains_entry env (fs_entries g)) (fs_entries e)
      | (None, None) \<Rightarrow> True
      | _ \<Rightarrow> False)"

definition preapproved_permission_profile ::
  "PolicyEnv \<Rightarrow> AdditionalPermissionProfile \<Rightarrow> AdditionalPermissionProfile \<Rightarrow> FileSystemSandboxPolicyContext
     \<Rightarrow> AdditionalPermissionProfile option" where
  "preapproved_permission_profile env effective granted ctx =
     (if opt_is_some_and (\<lambda>fs. list_ex (is_unresolved_entry ctx) (fs_entries fs)) (ap_file_system effective) then None
      else case (materialize_additional_permissions_with_context env effective ctx,
                 materialize_additional_permissions_with_context env granted ctx) of
             (Inr e, Inr g) \<Rightarrow>
               if ap_network e \<noteq> ap_network g then None
               else if same_file_system (uri_env env) (ap_file_system e) (ap_file_system g) then Some granted else None
           | _ \<Rightarrow> None)"

definition apply_granted_turn_permissions ::
  "PolicyEnv \<Rightarrow> AdditionalPermissionProfile option \<Rightarrow> AdditionalPermissionProfile option
     \<Rightarrow> FileSystemSandboxPolicyContext option \<Rightarrow> SandboxPermissions \<Rightarrow> AdditionalPermissionProfile option
     \<Rightarrow> EffectiveAdditionalPermissions" where
  "apply_granted_turn_permissions env granted_session granted_turn ctx sandbox additional =
     (if sandbox = RequireEscalated then
        \<lparr>ea_sandbox_permissions = sandbox, ea_additional_permissions = additional, ea_permissions_preapproved = False\<rparr>
      else let granted = merge_permission_profiles (uri_env env) granted_session granted_turn;
               effective = merge_permission_profiles (uri_env env) additional granted;
               preapproved = (case granted of None \<Rightarrow> None
                 | Some g \<Rightarrow>
                     if additional = None then Some g
                     else (case (effective, ctx) of
                             (Some e, Some c) \<Rightarrow> preapproved_permission_profile env e g c
                           | _ \<Rightarrow> None));
               permissions = opt_or_else preapproved effective
           in \<lparr>ea_sandbox_permissions =
                 (if permissions \<noteq> None \<and> \<not> uses_additional_permissions sandbox then WithAdditionalPermissions
                  else sandbox),
               ea_additional_permissions = permissions,
               ea_permissions_preapproved = preapproved \<noteq> None\<rparr>)"

section \<open>What a merge gives\<close>

definition optional_entries :: "AdditionalPermissionProfile option \<Rightarrow> FileSystemSandboxEntry list" where
  "optional_entries p = (case p of None \<Rightarrow> [] | Some p \<Rightarrow> profile_entries p)"

lemma merged_entries:
  assumes "posix_context env ctx" "merge_permission_profiles (uri_env env) base (Some q) = Some p"
  shows "set (resolved_entries env ctx (profile_entries p)) =
    set (resolved_entries env ctx (optional_entries base)) \<union> set (resolved_entries env ctx (profile_entries q))"
proof (cases base)
  case None
  with assms(2) show ?thesis
    by (auto simp: merge_permission_profiles_def option_filter_def optional_entries_def split: if_splits)
next
  case (Some b)
  have p: "profile_entries p =
    (case (ap_file_system b, ap_file_system q) of
       (Some x, Some y) \<Rightarrow> merge_permission_entries (uri_env env) (fs_entries x) (fs_entries y)
     | (Some x, None) \<Rightarrow> fs_entries x
     | (None, Some y) \<Rightarrow> fs_entries y
     | (None, None) \<Rightarrow> [])"
    using assms(2) unfolding Some merge_permission_profiles_def option_filter_def
    by (auto simp: profile_entries_def file_system_is_empty_def Let_def split: option.splits if_splits)
  show ?thesis
    unfolding p
    by (simp add: Some optional_entries_def profile_entries_def merge_permission_entries_def
        resolved_push_new [OF assms(1)] del: fold_append split: option.split)
qed

lemma merged_network:
  assumes "merge_permission_profiles env base (Some q) = Some p"
  shows "network_enabled (ap_network p) \<longleftrightarrow>
    opt_is_some_and (\<lambda>b. network_enabled (ap_network b)) base \<or> network_enabled (ap_network q)"
  using assms
  by (auto simp: merge_permission_profiles_def option_filter_def opt_is_some_and_def network_enabled_def Let_def
      split: option.splits if_splits)

lemma merged_readable:
  assumes ctx: "posix_context env ctx" and path: "posix_lexical (uri_env env) path"
    and p: "merge_permission_profiles (uri_env env) base (Some q) = Some p"
    and readable: "can_read (profile_access env p path ctx)"
  shows "can_read (profile_access env q path ctx)
    \<or> opt_is_some_and (\<lambda>b. can_read (profile_access env b path ctx)) base"
proof -
  note un = merged_entries [OF ctx p]
  have "unambiguous (uri_env env) (resolved_entries env ctx (profile_entries p))"
    using readable_decides [OF ctx path] readable unfolding profile_access_def by metis
  then have "unambiguous (uri_env env) (resolved_entries env ctx (optional_entries base))"
    "unambiguous (uri_env env) (resolved_entries env ctx (profile_entries q))"
    using un by (auto simp: unambiguous_def list_all_iff)
  from union_access [OF ctx un this, of path] readable
  show ?thesis
    by (cases base) (auto simp: profile_access_def optional_entries_def opt_is_some_and_def no_entries_access readable_access)
qed

section \<open>Runs of a session\<close>

text \<open>
  The answers given so far: the environment, what was requested and what the user or the reviewer
  granted. \<open>ctx_of\<close> gives the context of an environment, which does not change.
\<close>

record Consent =
  co_environment :: rstr
  co_requested :: RequestPermissionProfile
  co_granted :: RequestPermissionProfile

definition reviewer_consent ::
  "TurnEnvironment option \<Rightarrow> RequestPermissionProfile \<Rightarrow> ReviewDecision option \<Rightarrow> Consent list" where
  "reviewer_consent environ requested decision =
     (case (environ, decision) of
        (Some e, Some d) \<Rightarrow>
          [\<lparr>co_environment = environment_id e, co_requested = requested, co_granted = fst (reviewed_permissions d requested)\<rparr>]
      | _ \<Rightarrow> [])"

definition user_consent ::
  "('id, 'meta, 'step) PermissionState \<Rightarrow> rstr \<Rightarrow> RequestPermissionsResponse \<Rightarrow> Consent list" where
  "user_consent st call_id response =
     (case active_turn_state st of None \<Rightarrow> []
      | Some ts \<Rightarrow>
          (case pending_request_permissions ts call_id of None \<Rightarrow> []
           | Some entry \<Rightarrow>
               [\<lparr>co_environment = environment_id (pr_environment entry),
                 co_requested = pr_requested_permissions entry, co_granted = rp_permissions response\<rparr>]))"

definition known_environment ::
  "(rstr \<Rightarrow> FileSystemSandboxPolicyContext option) \<Rightarrow> TurnEnvironment \<Rightarrow> bool" where
  "known_environment ctx_of e \<longleftrightarrow> policy_context e = ctx_of (environment_id e)"

inductive permission_step ::
  "PolicyEnv \<Rightarrow> (rstr \<Rightarrow> FileSystemSandboxPolicyContext option)
     \<Rightarrow> ('id, 'meta, 'step) PermissionState \<times> Consent list \<Rightarrow> ('id, 'meta, 'step) PermissionState \<times> Consent list
     \<Rightarrow> bool"
  for env ctx_of where
  turn_starts: "permission_step env ctx_of (st, log) (st\<lparr>active_turn_state := Some default_turn_state\<rparr>, log)"
| turn_ends: "permission_step env ctx_of (st, log) (st\<lparr>active_turn_state := None\<rparr>, log)"
| request: "pred_option (known_environment ctx_of) environ \<Longrightarrow>
    permission_step env ctx_of (st, log)
      (snd (request_permissions_for_environment env policy environ call_id requested decision tx st),
       log @ reviewer_consent environ requested decision)"
| answer: "permission_step env ctx_of (st, log)
    (notify_request_permissions_response env call_id response st, log @ user_consent st call_id response)"
| cancel: "permission_step env ctx_of (st, log) (cancel_request_permissions call_id st, log)"
| other_work: "active_turn_state st = Some ts \<Longrightarrow>
    granted_by_environment_id ts' = granted_by_environment_id ts \<Longrightarrow>
    pending_request_permissions ts' \<subseteq>\<^sub>m pending_request_permissions ts \<Longrightarrow>
    permission_step env ctx_of (st, log) (st\<lparr>active_turn_state := Some ts'\<rparr>, log)"

definition initial_permissions :: "('id, 'meta, 'step) PermissionState" where
  "initial_permissions = \<lparr>session_grants = Map.empty, active_turn_state = None, sent_responses = []\<rparr>"

definition permission_run ::
  "PolicyEnv \<Rightarrow> (rstr \<Rightarrow> FileSystemSandboxPolicyContext option)
     \<Rightarrow> ('id, 'meta, 'step) PermissionState \<Rightarrow> Consent list \<Rightarrow> bool" where
  "permission_run env ctx_of st log \<longleftrightarrow> (permission_step env ctx_of)\<^sup>*\<^sup>* (initial_permissions, []) (st, log)"

text \<open>A profile stored for an environment gives nothing that was not asked for and granted there.\<close>

definition reading_consent ::
  "PolicyEnv \<Rightarrow> FileSystemSandboxPolicyContext \<Rightarrow> PathUri \<Rightarrow> rstr \<Rightarrow> Consent \<Rightarrow> bool" where
  "reading_consent env ctx path env_id c \<longleftrightarrow>
     co_environment c = env_id
     \<and> can_read (profile_access env (additional_from_request (co_requested c)) path ctx)
     \<and> (unambiguous (uri_env env) (resolved_entries env ctx (profile_entries (additional_from_request (co_granted c))))
          \<longrightarrow> can_read (profile_access env (additional_from_request (co_granted c)) path ctx))"

definition network_consent :: "rstr \<Rightarrow> Consent \<Rightarrow> bool" where
  "network_consent env_id c \<longleftrightarrow>
     co_environment c = env_id \<and> network_enabled (rq_network (co_requested c)) \<and> network_enabled (rq_network (co_granted c))"

definition consented ::
  "PolicyEnv \<Rightarrow> (rstr \<Rightarrow> FileSystemSandboxPolicyContext option) \<Rightarrow> Consent list \<Rightarrow> rstr
     \<Rightarrow> AdditionalPermissionProfile \<Rightarrow> bool" where
  "consented env ctx_of log env_id p \<longleftrightarrow>
     (\<forall>ctx path. ctx_of env_id = Some ctx \<and> posix_context env ctx \<and> posix_lexical (uri_env env) path
        \<and> can_read (profile_access env p path ctx) \<longrightarrow> list_ex (reading_consent env ctx path env_id) log)
     \<and> (network_enabled (ap_network p) \<longrightarrow> list_ex (network_consent env_id) log)"

lemma consented_mono: "consented env ctx_of log env_id p \<Longrightarrow> consented env ctx_of (log @ log') env_id p"
  by (auto simp: consented_def)

lemma consented_merge:
  assumes "merge_permission_profiles (uri_env env) base (Some q) = Some p"
    and "consented env ctx_of log env_id q" "pred_option (consented env ctx_of log env_id) base"
  shows "consented env ctx_of log env_id p"
proof -
  have base: "opt_is_some_and P base \<Longrightarrow> \<exists>b. P b \<and> consented env ctx_of log env_id b" for P
    using assms(3) by (cases base) (auto simp: opt_is_some_and_def)
  show ?thesis
    using assms(2) base merged_readable [OF _ _ assms(1)] merged_network [OF assms(1)]
    unfolding consented_def by meson
qed

definition all_consented ::
  "PolicyEnv \<Rightarrow> (rstr \<Rightarrow> FileSystemSandboxPolicyContext option) \<Rightarrow> Consent list
     \<Rightarrow> (rstr \<rightharpoonup> AdditionalPermissionProfile) \<Rightarrow> bool" where
  "all_consented env ctx_of log granted \<longleftrightarrow> (\<forall>env_id p. granted env_id = Some p \<longrightarrow> consented env ctx_of log env_id p)"

lemma all_consented_mono: "all_consented env ctx_of log m \<Longrightarrow> all_consented env ctx_of (log @ log') m"
  by (simp add: all_consented_def consented_mono)

lemma all_consented_record:
  assumes "all_consented env ctx_of log granted" "consented env ctx_of log env_id q"
  shows "all_consented env ctx_of log (record_granted_permissions (uri_env env) env_id q granted)"
proof (cases "merge_permission_profiles (uri_env env) (granted env_id) (Some q)")
  case (Some p)
  have "pred_option (consented env ctx_of log env_id) (granted env_id)"
    using assms(1) by (cases "granted env_id") (auto simp: all_consented_def)
  with consented_merge [OF Some assms(2)] assms(1) Some show ?thesis
    by (auto simp: record_granted_permissions_def all_consented_def)
qed (use assms(1) in \<open>simp add: record_granted_permissions_def\<close>)

lemma normalized_consented:
  assumes "\<not> request_is_empty (rp_permissions (normalize_request_permissions_response env requested response ctx))"
    and "ctx_of env_id = Some ctx"
    and "\<lparr>co_environment = env_id, co_requested = requested, co_granted = rp_permissions response\<rparr> \<in> set log"
  shows "consented env ctx_of log env_id
    (additional_from_request (rp_permissions (normalize_request_permissions_response env requested response ctx)))"
proof -
  let ?i = "intersect_permission_profiles_with_context env (additional_from_request requested)
    (additional_from_request (rp_permissions response)) ctx"
  have eq: "additional_from_request (rp_permissions (normalize_request_permissions_response env requested response ctx)) = ?i"
    using assms(1) by (auto simp: normalize_request_permissions_response_def no_permissions_response_def
        request_is_empty_def default_request_def additional_from_request_def request_from_additional_def split: if_splits)
  have "network_enabled (ap_network ?i) \<Longrightarrow>
      network_enabled (rq_network requested) \<and> network_enabled (rq_network (rp_permissions response))"
    by (auto simp: intersect_permission_profiles_with_context_def additional_from_request_def network_enabled_def
        split: if_splits)
  with assms(2,3) intersect_profiles_access [of env _ _ "additional_from_request requested"
      "additional_from_request (rp_permissions response)"] show ?thesis
    unfolding eq consented_def by (auto simp: list_ex_iff reading_consent_def network_consent_def intro!: bexI)
qed

section \<open>The invariant of a run\<close>

definition permissions_ok ::
  "PolicyEnv \<Rightarrow> (rstr \<Rightarrow> FileSystemSandboxPolicyContext option)
     \<Rightarrow> ('id, 'meta, 'step) PermissionState \<times> Consent list \<Rightarrow> bool" where
  "permissions_ok env ctx_of = (\<lambda>(st, log).
     all_consented env ctx_of log (session_grants st)
     \<and> pred_option (\<lambda>ts. all_consented env ctx_of log (granted_by_environment_id ts)
          \<and> (\<forall>k entry. pending_request_permissions ts k = Some entry \<longrightarrow> known_environment ctx_of (pr_environment entry)))
        (active_turn_state st))"

lemma permissions_ok_record:
  assumes "permissions_ok env ctx_of (st, log)"
    and "\<not> request_is_empty (rp_permissions response) \<Longrightarrow>
      consented env ctx_of log env_id (additional_from_request (rp_permissions response))"
  shows "permissions_ok env ctx_of
    (record_granted_request_permissions_for_turn (uri_env env) response env_id st, log)"
  using assms all_consented_record [of env ctx_of log _ env_id]
  by (cases "active_turn_state st")
    (auto simp: permissions_ok_def record_granted_request_permissions_for_turn_def Let_def
       record_granted_turn_permissions_def enable_strict_auto_review_def split: PermissionGrantScope.split)

lemma permissions_ok_mono: "permissions_ok env ctx_of (st, log) \<Longrightarrow> permissions_ok env ctx_of (st, log @ log')"
  by (cases "active_turn_state st") (auto simp: permissions_ok_def all_consented_mono)

lemma permissions_ok_request:
  assumes ok: "permissions_ok env ctx_of (st, log)" and known: "pred_option (known_environment ctx_of) environ"
  shows "permissions_ok env ctx_of
      (snd (request_permissions_for_environment env policy environ call_id requested decision tx st),
       log @ reviewer_consent environ requested decision)"
proof (cases "\<exists>e ctx d. environ = Some e \<and> may_ask policy \<and> policy_context e = Some ctx \<and> decision = Some d")
  case True
  then obtain e ctx d where e: "environ = Some e" "may_ask policy" "policy_context e = Some ctx" "decision = Some d"
    by blast
  with known have ctx: "ctx_of (environment_id e) = Some ctx" by (simp add: known_environment_def)
  show ?thesis
    using normalized_consented [of env requested
        "\<lparr>rp_permissions = fst (reviewed_permissions d requested), rp_scope = snd (reviewed_permissions d requested),
          rp_strict_auto_review = False\<rparr>" ctx ctx_of, OF _ ctx, of "log @ reviewer_consent environ requested decision"]
    by (auto simp: e request_permissions_for_environment_def reviewer_consent_def Let_def split_beta
        intro!: permissions_ok_record permissions_ok_mono [OF ok])
next
  case False
  then have "permissions_ok env ctx_of
      (snd (request_permissions_for_environment env policy environ call_id requested decision tx st), log)"
    using ok known
    by (cases "active_turn_state st")
      (auto simp: request_permissions_for_environment_def permissions_ok_def
         insert_pending_request_permissions_def split: option.split)
  then show ?thesis by (rule permissions_ok_mono)
qed

lemma permissions_ok_answer:
  assumes ok: "permissions_ok env ctx_of (st, log)"
  shows "permissions_ok env ctx_of
    (notify_request_permissions_response env call_id response st, log @ user_consent st call_id response)"
proof (cases "active_turn_state st")
  case None
  with ok show ?thesis by (simp add: notify_request_permissions_response_def user_consent_def)
next
  case (Some ts)
  show ?thesis
  proof (cases "pending_request_permissions ts call_id")
    case None
    with ok Some show ?thesis
      by (simp add: notify_request_permissions_response_def user_consent_def remove_pending_request_permissions_def
          permissions_ok_def)
  next
    case entry: (Some entry)
    let ?log = "log @ user_consent st call_id response"
    let ?e = "environment_id (pr_environment entry)"
    let ?response = "case policy_context (pr_environment entry) of
        Some ctx \<Rightarrow> normalize_request_permissions_response env (pr_requested_permissions entry) response ctx
      | None \<Rightarrow> no_permissions_response"
    have known: "policy_context (pr_environment entry) = ctx_of ?e"
      using ok Some entry by (auto simp: permissions_ok_def known_environment_def)
    have "consented env ctx_of ?log ?e (additional_from_request (rp_permissions ?response))"
      if "\<not> request_is_empty (rp_permissions ?response)"
    proof (cases "ctx_of ?e")
      case None
      with that known show ?thesis by (simp add: no_permissions_response_def default_request_def request_is_empty_def)
    next
      case ctx: (Some ctx)
      with that known show ?thesis
        by (auto simp: user_consent_def Some entry intro!: normalized_consented)
    qed
    moreover have "permissions_ok env ctx_of (st\<lparr>active_turn_state :=
        Some (snd (remove_pending_request_permissions call_id ts))\<rparr>, ?log)"
      using permissions_ok_mono [OF ok] Some
      by (auto simp: permissions_ok_def remove_pending_request_permissions_def)
    ultimately have "permissions_ok env ctx_of (record_granted_request_permissions_for_turn (uri_env env) ?response ?e
        (st\<lparr>active_turn_state := Some (snd (remove_pending_request_permissions call_id ts))\<rparr>), ?log)"
      by (intro permissions_ok_record)
    then show ?thesis
      by (simp add: notify_request_permissions_response_def Some entry remove_pending_request_permissions_def Let_def
          permissions_ok_def)
  qed
qed

lemma permissions_ok_step:
  "permission_step env ctx_of s s' \<Longrightarrow> permissions_ok env ctx_of s \<Longrightarrow> permissions_ok env ctx_of s'"
proof (induction rule: permission_step.induct)
  case (turn_starts st log)
  then show ?case by (simp add: permissions_ok_def default_turn_state_def all_consented_def)
next
  case (cancel st log call_id)
  then show ?case
    by (cases "active_turn_state st")
      (auto simp: permissions_ok_def cancel_request_permissions_def remove_pending_request_permissions_def)
next
  case (other_work st ts ts' log)
  then show ?case by (auto simp: permissions_ok_def map_le_def dom_def)
qed (auto simp: permissions_ok_request permissions_ok_answer, simp add: permissions_ok_def)

lemma permissions_ok_run:
  assumes "permission_run env ctx_of st log"
  shows "permissions_ok env ctx_of (st, log)"
proof -
  have "(permission_step env ctx_of)\<^sup>*\<^sup>* (initial_permissions, []) s \<Longrightarrow> permissions_ok env ctx_of s"
    for s :: "('a, 'b, 'c) PermissionState \<times> Consent list"
  proof (induction rule: rtranclp_induct)
    case base
    show ?case by (simp add: permissions_ok_def initial_permissions_def all_consented_def)
  qed (rule permissions_ok_step)
  with assms show ?thesis by (simp add: permission_run_def)
qed


definition sample_environment :: TurnEnvironment where
  "sample_environment = \<lparr>environment_id = lit ''env'', policy_context = Some sample_context\<rparr>"

definition sample_request :: RequestPermissionProfile where
  "sample_request = request_from_additional sample_requested"

definition sample_granted_state :: "(unit, unit, unit) PermissionState" where
  "sample_granted_state = snd (request_permissions_for_environment sample_env OnRequest (Some sample_environment)
     (lit ''call'') sample_request (Some ApprovedForSession) 0 initial_permissions)"

definition sample_stored :: AdditionalPermissionProfile where
  "sample_stored = the (session_grants sample_granted_state (lit ''env''))"

definition sample_log :: "Consent list" where
  "sample_log = reviewer_consent (Some sample_environment) sample_request (Some ApprovedForSession)"


section \<open>Preapproved commands\<close>

text \<open>What tells the entries of a list apart.\<close>

definition path_key :: "UriEnv \<Rightarrow> FileSystemPath \<Rightarrow> FileSystemPath + rstr option \<times> int list" where
  "path_key env p =
     (case p of
        Path u \<Rightarrow>
          (case windows_identity_path_bytes env u of
             None \<Rightarrow> Inl p | Some bytes \<Rightarrow> Inr (url_host u, to_ascii_lowercase bytes))
      | _ \<Rightarrow> Inl p)"

definition entry_id ::
  "UriEnv \<Rightarrow> FileSystemSandboxEntry \<Rightarrow>
     (FileSystemPath + rstr option \<times> int list) \<times> FileSystemAccessMode \<times> MissingPathBehavior option" where
  "entry_id env e = (path_key env (en_path e), en_access e, missing_path_behavior e)"

lemma fs_path_eq_key: "fs_path_eq env p q \<longleftrightarrow> path_key env p = path_key env q"
  by (cases p; cases q) (auto simp: path_key_def uri_eq_def eq_ignore_ascii_case_def split: option.splits)

lemma entry_eq_id: "entry_eq env e f \<longleftrightarrow> entry_id env e = entry_id env f"
  by (simp add: entry_eq_def entry_id_def fs_path_eq_key)

lemma contains_entry_id: "contains_entry env es e \<longleftrightarrow> entry_id env e \<in> entry_id env ` set es"
  unfolding contains_entry_def list_ex_iff entry_eq_id image_iff by metis

lemma distinct_push_new:
  "distinct (map (entry_id env) acc) \<Longrightarrow> distinct (map (entry_id env) (fold (push_new env) es acc))"
  by (induction es arbitrary: acc) (auto simp: push_new_def contains_entry_id)

lemma resolved_same_ids:
  assumes "posix_context env ctx" "entry_id (uri_env env) ` set es \<subseteq> entry_id (uri_env env) ` set fs"
  shows "set (resolved_entries env ctx es) \<subseteq> set (resolved_entries env ctx fs)"
proof (rule subsetI)
  fix x
  assume "x \<in> set (resolved_entries env ctx es)"
  then obtain e where e: "e \<in> set es" "x \<in> set (resolved_entries env ctx [e])"
    using resolved_entries_iff [of "fst x" "snd x" env ctx es] by auto
  with assms(2) obtain f where f: "f \<in> set fs" "entry_eq (uri_env env) e f"
    unfolding entry_eq_id by (metis image_eqI image_iff subsetD)
  from entry_eq_resolved [OF assms(1) f(2)] e(2) f(1) show "x \<in> set (resolved_entries env ctx fs)"
    using resolved_entries_iff [of "fst x" "snd x" env ctx fs] by auto
qed

lemma same_file_system_entries:
  assumes ctx: "posix_context env ctx"
    and same: "same_file_system (uri_env env) (ap_file_system e) (ap_file_system g)"
    and "profile_entries e = fold (push_new (uri_env env)) es []" "profile_entries g = fold (push_new (uri_env env)) gs []"
  shows "set (resolved_entries env ctx (profile_entries e)) = set (resolved_entries env ctx (profile_entries g))"
proof -
  let ?id = "entry_id (uri_env env)"
  have len: "length (profile_entries e) = length (profile_entries g)"
    and sub: "?id ` set (profile_entries e) \<subseteq> ?id ` set (profile_entries g)"
    using same by (auto simp: same_file_system_def profile_entries_def list_all_iff contains_entry_id
        split: option.splits)
  have "card (?id ` set (profile_entries e)) = length (profile_entries e)"
    "card (?id ` set (profile_entries g)) = length (profile_entries g)"
    unfolding assms(3,4)
    using distinct_card [OF distinct_push_new [of "uri_env env" "[]"]] by (metis distinct.simps(1) length_map list.simps(8) set_map)+
  with len sub have "?id ` set (profile_entries e) = ?id ` set (profile_entries g)"
    by (intro card_subset_eq) simp_all
  with resolved_same_ids [OF ctx] show ?thesis by (metis subset_antisym subset_refl)
qed

lemma materialize_network:
  "materialize_additional_permissions_with_context env p ctx = Inr p' \<Longrightarrow>
     network_enabled (ap_network p') \<longleftrightarrow> network_enabled (ap_network p)"
  by (auto simp: materialize_additional_permissions_with_context_def bind_result_Inr network_enabled_def
      normalize_additional_permissions_with_context_def normalize_additional_permissions_def option_filter_def
      network_is_empty_def Let_def split: option.splits if_splits)

lemma preapproved_unchanged:
  assumes ctx: "posix_context env ctx" and ok: "preapproved_permission_profile env e g ctx = Some h"
  shows "h = g \<and> profile_access env e path ctx = profile_access env g path ctx
    \<and> (network_enabled (ap_network e) \<longleftrightarrow> network_enabled (ap_network g))"
proof -
  from ok obtain e' g' where m: "materialize_additional_permissions_with_context env e ctx = Inr e'"
    "materialize_additional_permissions_with_context env g ctx = Inr g'"
    and same: "same_file_system (uri_env env) (ap_file_system e') (ap_file_system g')" "ap_network e' = ap_network g'" "h = g"
    by (auto simp: preapproved_permission_profile_def split: if_splits sum.splits)
  obtain es gs where "profile_entries e' = fold (push_new (uri_env env)) es []"
    "profile_entries g' = fold (push_new (uri_env env)) gs []"
    using materialize_entries [OF m(1)] materialize_entries [OF m(2)] by metis
  from same_file_system_entries [OF ctx same(1) this] have "profile_access env e' path ctx = profile_access env g' path ctx"
    unfolding profile_access_def by (rule resolve_access_set_cong [OF ctx])
  with materialize_access [OF ctx m(1), of path] materialize_access [OF ctx m(2), of path]
    materialize_network [OF m(1)] materialize_network [OF m(2)] same(2,3)
  show ?thesis by simp
qed

text \<open>C39: A command that is approved without asking runs with exactly what was granted before, and
  what it asks for adds nothing to it: with POSIX paths, no path has another access under the union
  of the request and the grant than under the grant, and the network is enabled under both or
  neither.\<close>

theorem preapproved_adds_nothing:
  assumes "posix_context env ctx"
    and "ea_permissions_preapproved (apply_granted_turn_permissions env in_session in_turn (Some ctx) sandbox additional)"
  shows "\<exists>granted. merge_permission_profiles (uri_env env) in_session in_turn = Some granted
    \<and> ea_additional_permissions (apply_granted_turn_permissions env in_session in_turn (Some ctx) sandbox additional)
        = Some granted
    \<and> (case merge_permission_profiles (uri_env env) additional (Some granted) of
         None \<Rightarrow> additional = None
       | Some both \<Rightarrow>
           profile_access env both path ctx = profile_access env granted path ctx
           \<and> (network_enabled (ap_network both) \<longleftrightarrow> network_enabled (ap_network granted)))"
proof -
  from assms(2) obtain granted where g: "merge_permission_profiles (uri_env env) in_session in_turn = Some granted"
    by (auto simp: apply_granted_turn_permissions_def Let_def split: if_splits option.splits)
  show ?thesis
  proof (cases additional)
    case None
    with assms(2) g show ?thesis
      by (auto simp: apply_granted_turn_permissions_def opt_or_else_def merge_permission_profiles_def option_filter_def
          split: if_splits)
  next
    case (Some a)
    with assms(2) g obtain both h where both: "merge_permission_profiles (uri_env env) (Some a) (Some granted) = Some both"
      and h: "preapproved_permission_profile env both granted ctx = Some h"
      by (auto simp: apply_granted_turn_permissions_def Let_def split: if_splits option.splits)
    from preapproved_unchanged [OF assms(1) h] assms(2) g both h Some show ?thesis
      by (auto simp: apply_granted_turn_permissions_def Let_def opt_or_else_def split: if_splits)
  qed
qed

definition sample_preapproval :: EffectiveAdditionalPermissions where
  "sample_preapproval = apply_granted_turn_permissions sample_env (Some sample_stored) None (Some sample_context)
     WithAdditionalPermissions (Some (profile_of [path_entry [''a''] AccessWrite]))"

theorem preapproved_adds_nothing_witness:
  "\<exists>granted both. merge_permission_profiles (uri_env sample_env) (Some sample_stored) None = Some granted
    \<and> merge_permission_profiles (uri_env sample_env) (Some (profile_of [path_entry [''a''] AccessWrite])) (Some granted) = Some both
    \<and> ea_additional_permissions sample_preapproval = Some granted
    \<and> profile_access sample_env both (path_of [''a'', ''b'']) sample_context
        = profile_access sample_env granted (path_of [''a'', ''b'']) sample_context"
proof -
  have "posix_context sample_env sample_context" "ea_permissions_preapproved sample_preapproval" by code_simp+
  from preapproved_adds_nothing [OF this [unfolded sample_preapproval_def], of "path_of [''a'', ''b'']"]
  show ?thesis unfolding sample_preapproval_def by (auto split: option.splits)
qed

end
