(* ===== verification/Input_Queue.thy ===== *)
theory Input_Queue
  imports Turn_State "HOL-Library.Multiset"
begin

text \<open>
  The queue of pending input and the mailbox (\<open>core/src/session/input_queue.rs\<close>), and the steps in
  which concurrent tasks use them: starting, steering, finishing and aborting turns
  (\<open>core/src/tasks/mod.rs\<close>, \<open>session/turn_input.rs\<close>, \<open>session/inject.rs\<close>).
\<close>

section \<open>Operations\<close>

record PendingMailboxCommunication =
  pm_communication :: InterAgentCommunication
  pm_start_options :: TurnStartOptions

record InputQueue =
  activity :: InputQueueActivity
  mailbox_pending_mails :: "PendingMailboxCommunication list"

definition input_queue_new :: InputQueue where
  "input_queue_new = \<lparr>activity = ActivityMailbox, mailbox_pending_mails = []\<rparr>"

fun is_steer :: "TurnInput \<Rightarrow> bool" where
  "is_steer (InputUser _ _ _) = True"
| "is_steer (InputFunctionCallOutput _) = True"
| "is_steer _ = False"

definition has_pending_steer :: "TurnInput list \<Rightarrow> bool" where
  "has_pending_steer items = list_ex is_steer items"

definition has_pending_mailbox_items :: "InputQueue \<Rightarrow> bool" where
  "has_pending_mailbox_items q \<longleftrightarrow> mailbox_pending_mails q \<noteq> []"

definition has_trigger_turn_mailbox_items :: "InputQueue \<Rightarrow> bool" where
  "has_trigger_turn_mailbox_items q = list_ex (\<lambda>mail. trigger_turn (pm_communication mail)) (mailbox_pending_mails q)"

text \<open>What a new subscriber is told to be pending already.\<close>

definition subscribe_activity ::
  "('id, 'meta, 'step) TurnState option \<Rightarrow> InputQueue \<Rightarrow> InputQueueActivity option" where
  "subscribe_activity ts q =
     (if opt_is_some_and (\<lambda>ts. has_pending_steer (pending_input ts)) ts then Some ActivitySteer
      else if has_pending_mailbox_items q then Some ActivityMailbox else None)"

definition enqueue_mailbox_communication ::
  "InterAgentCommunication \<Rightarrow> TurnStartOptions \<Rightarrow> InputQueue \<Rightarrow> InputQueue" where
  "enqueue_mailbox_communication communication options q =
     q\<lparr>mailbox_pending_mails := mailbox_pending_mails q @ [\<lparr>pm_communication = communication, pm_start_options = options\<rparr>],
       activity := ActivityMailbox\<rparr>"

definition non_blank :: "rstr option \<Rightarrow> rstr option" where
  "non_blank x = option_filter (\<lambda>s. trim s \<noteq> []) x"

text \<open>\<open>reduce\<close>: the first identifier as long as all the others equal it.\<close>

fun common_id :: "rstr option list \<Rightarrow> rstr option" where
  "common_id [] = None"
| "common_id (expected # candidates) =
     fold (\<lambda>candidate expected. option_filter (\<lambda>s. candidate = Some s) expected) candidates expected"

definition trigger_options :: "PendingMailboxCommunication list \<Rightarrow> TurnStartOptions list" where
  "trigger_options mails = map pm_start_options (filter (\<lambda>mail. trigger_turn (pm_communication mail)) mails)"

definition drained_start_options :: "PendingMailboxCommunication list \<Rightarrow> TurnStartOptions" where
  "drained_start_options mails =
     (let triggers = trigger_options mails;
          start_options = (case rev triggers of [] \<Rightarrow> default_start_options | last_one # _ \<Rightarrow> last_one)
      in start_options\<lparr>
           parent_turn_id := non_blank (common_id (map parent_turn_id triggers)),
           root_turn_id := (case triggers of [] \<Rightarrow> None
             | first # _ \<Rightarrow> if non_blank (parent_turn_id first) = None then None else non_blank (root_turn_id first))\<rparr>)"

definition mail_inputs :: "PendingMailboxCommunication list \<Rightarrow> TurnInput list" where
  "mail_inputs mails = map (\<lambda>mail. InputInterAgent (pm_communication mail)) mails"

definition drain_mailbox_input_items :: "InputQueue \<Rightarrow> TurnInput list \<times> TurnStartOptions \<times> InputQueue" where
  "drain_mailbox_input_items q =
     (mail_inputs (mailbox_pending_mails q), drained_start_options (mailbox_pending_mails q),
      q\<lparr>mailbox_pending_mails := []\<rparr>)"

definition clear_pending :: "('id, 'meta, 'step) TurnState \<Rightarrow> ('id, 'meta, 'step) TurnState" where
  "clear_pending ts = (clear_pending_waiters ts)\<lparr>pending_input := []\<rparr>"

fun is_queue_only :: "TurnInput \<Rightarrow> bool" where
  "is_queue_only (InputInterAgent communication) = (\<not> trigger_turn communication)"
| "is_queue_only _ = False"

text \<open>\<open>defer_mailbox_delivery_to_next_turn\<close>, once the state of the turn is found.\<close>

definition defer_mailbox_delivery :: "('id, 'meta, 'step) TurnState \<Rightarrow> ('id, 'meta, 'step) TurnState" where
  "defer_mailbox_delivery ts =
     (if list_ex (\<lambda>i. \<not> is_queue_only i) (pending_input ts) then ts else set_mailbox_delivery_phase NextTurn ts)"

definition extend_pending_input :: "TurnInput list \<Rightarrow> ('id, 'meta, 'step) TurnState \<Rightarrow> ('id, 'meta, 'step) TurnState" where
  "extend_pending_input inputs ts = ts\<lparr>pending_input := pending_input ts @ inputs\<rparr>"

definition extend_pending_input_and_accept ::
  "TurnInput list \<Rightarrow> ('id, 'meta, 'step) TurnState \<Rightarrow> InputQueue \<Rightarrow> ('id, 'meta, 'step) TurnState \<times> InputQueue" where
  "extend_pending_input_and_accept inputs ts q =
     (accept_mailbox_delivery_for_current_turn (extend_pending_input inputs ts), q\<lparr>activity := ActivitySteer\<rparr>)"

definition take_pending_input :: "('id, 'meta, 'step) TurnState \<Rightarrow> TurnInput list \<times> ('id, 'meta, 'step) TurnState" where
  "take_pending_input ts = (pending_input ts, ts\<lparr>pending_input := []\<rparr>)"

text \<open>\<open>get_pending_input\<close>: the part under the lock of the active turn, and the whole.\<close>

definition take_turn_input ::
  "('id, 'meta, 'step) TurnState option \<Rightarrow> (TurnInput list \<times> bool) \<times> ('id, 'meta, 'step) TurnState option" where
  "take_turn_input turn =
     (case turn of None \<Rightarrow> (([], True), None)
      | Some ts \<Rightarrow>
          if accepts_mailbox_delivery_for_current_turn ts
          then (let (items, ts) = take_pending_input ts in ((items, True), Some ts))
          else (([], False), Some ts))"

definition get_pending_input ::
  "('id, 'meta, 'step) TurnState option \<Rightarrow> InputQueue
     \<Rightarrow> (TurnInput list \<times> TurnStartOptions) \<times> ('id, 'meta, 'step) TurnState option \<times> InputQueue" where
  "get_pending_input turn q =
     (let ((items, accepts), turn) = take_turn_input turn
      in if \<not> accepts then ((items, default_start_options), turn, q)
         else let (mails, start_options, q) = drain_mailbox_input_items q
              in ((items @ mails, start_options), turn, q))"

definition has_pending_input :: "('id, 'meta, 'step) TurnState option \<Rightarrow> InputQueue \<Rightarrow> bool" where
  "has_pending_input turn q =
     (let (has_turn_input, accepts) = (case turn of None \<Rightarrow> (False, True)
            | Some ts \<Rightarrow> (pending_input ts \<noteq> [], accepts_mailbox_delivery_for_current_turn ts))
      in if \<not> accepts then False else if has_turn_input then True else has_pending_mailbox_items q)"

section \<open>Start options of a drained mailbox\<close>

lemma common_id_fold:
  "fold (\<lambda>candidate expected. option_filter (\<lambda>s. candidate = Some s) expected) cs e =
     (case e of None \<Rightarrow> None | Some s \<Rightarrow> if \<forall>c \<in> set cs. c = Some s then Some s else None)"
  by (induction cs arbitrary: e) (auto simp: option_filter_def split: option.splits)

lemma common_id_Some: "common_id cs = Some s \<longleftrightarrow> cs \<noteq> [] \<and> (\<forall>c \<in> set cs. c = Some s)"
  by (cases cs) (auto simp: common_id_fold split: option.splits)

lemma non_blank_Some: "non_blank x = Some s \<longleftrightarrow> x = Some s \<and> trim s \<noteq> []"
  by (auto simp: non_blank_def option_filter_def split: option.splits)

lemma non_blank_None: "non_blank x = None \<longleftrightarrow> (\<forall>s. x = Some s \<longrightarrow> trim s = [])"
  by (auto simp: non_blank_def option_filter_def split: option.splits)

lemma rev_case_last: "(case rev xs of [] \<Rightarrow> d | x # _ \<Rightarrow> x) = (if xs = [] then d else last xs)"
  by (cases xs rule: rev_cases) auto

lemma drained_parent:
  "parent_turn_id (drained_start_options mails) = Some t \<longleftrightarrow>
     trim t \<noteq> [] \<and> trigger_options mails \<noteq> [] \<and> list_all (\<lambda>c. parent_turn_id c = Some t) (trigger_options mails)"
  by (auto simp: drained_start_options_def Let_def non_blank_Some common_id_Some list_all_iff)

lemma drained_root:
  "root_turn_id (drained_start_options mails) = Some t \<longleftrightarrow>
     trim t \<noteq> [] \<and> trigger_options mails \<noteq> [] \<and> root_turn_id (hd (trigger_options mails)) = Some t
     \<and> non_blank (parent_turn_id (hd (trigger_options mails))) \<noteq> None"
  by (cases "trigger_options mails") (auto simp: drained_start_options_def Let_def non_blank_Some non_blank_None)

lemma drained_settings:
  "(drained_start_options mails)\<lparr>parent_turn_id := None, root_turn_id := None\<rparr> =
     (if trigger_options mails = [] then default_start_options
      else (last (trigger_options mails))\<lparr>parent_turn_id := None, root_turn_id := None\<rparr>)"
  by (simp add: drained_start_options_def Let_def rev_case_last default_start_options_def)

text \<open>Draining the mailbox combines the options of the mails that start a turn: it has the
  settings of the last one, the parent turn that all of them name, unless it is blank, and the root
  turn of the first one, if that names a parent; without such a mail the options are the default.\<close>

theorem drained_start_options_spec:
  "(drained_start_options mails)\<lparr>parent_turn_id := None, root_turn_id := None\<rparr> =
     (if trigger_options mails = [] then default_start_options
      else (last (trigger_options mails))\<lparr>parent_turn_id := None, root_turn_id := None\<rparr>)
   \<and> (parent_turn_id (drained_start_options mails) = Some t \<longleftrightarrow>
        trim t \<noteq> [] \<and> trigger_options mails \<noteq> []
        \<and> list_all (\<lambda>c. parent_turn_id c = Some t) (trigger_options mails))
   \<and> (root_turn_id (drained_start_options mails) = Some t' \<longleftrightarrow>
        trim t' \<noteq> [] \<and> trigger_options mails \<noteq> [] \<and> root_turn_id (hd (trigger_options mails)) = Some t'
        \<and> non_blank (parent_turn_id (hd (trigger_options mails))) \<noteq> None)"
  by (intro conjI drained_parent drained_root drained_settings)

lemma has_pending_input_iff: "has_pending_input turn q \<longleftrightarrow> fst (fst (get_pending_input turn q)) \<noteq> []"
  by (auto simp: has_pending_input_def get_pending_input_def take_turn_input_def take_pending_input_def Let_def
      drain_mailbox_input_items_def has_pending_mailbox_items_def mail_inputs_def split: option.split)

section \<open>Tasks that share the queue\<close>

datatype active_turn = NoTurn | Reserved nat | Running rstr nat | Finishing nat

text \<open>
  What a task has under way between two locks: it has taken the input of the turn and will drain the
  mailbox, it has drained the mailbox for a turn it starts, it has found the state of a turn to
  change its phase, or it has taken a turn out to abort it.
\<close>

datatype queue_job =
    Draining "TurnInput list"
  | Starting nat "TurnInput list"
  | Deferring nat
  | Accepting nat
  | Aborting nat

fun is_starting :: "queue_job \<Rightarrow> bool" where
  "is_starting (Starting _ _) = True"
| "is_starting _ = False"

text \<open>
  The states of the turns so far, and the accounts of the input: what came in, what the sampling
  loop was given, what was recorded at the end of a turn and what an abort dropped.
\<close>

record ('id, 'meta, 'step) QueueSystem =
  queue :: InputQueue
  turn_states :: "nat \<Rightarrow> ('id, 'meta, 'step) TurnState"
  next_turn :: nat
  active :: active_turn
  jobs :: "queue_job multiset"
  accepted :: "TurnInput multiset"
  delivered :: "TurnInput multiset"
  recorded :: "TurnInput multiset"
  dropped :: "TurnInput multiset"

fun turn_of :: "active_turn \<Rightarrow> nat option" where
  "turn_of NoTurn = None"
| "turn_of (Reserved t) = Some t"
| "turn_of (Running _ t) = Some t"
| "turn_of (Finishing t) = Some t"

definition set_turn ::
  "nat \<Rightarrow> ('id, 'meta, 'step) TurnState \<Rightarrow> ('id, 'meta, 'step) QueueSystem \<Rightarrow> ('id, 'meta, 'step) QueueSystem" where
  "set_turn t ts s = s\<lparr>turn_states := (turn_states s)(t := ts)\<rparr>"

text \<open>The state of a turn goes away with what it still holds.\<close>

definition forget_turn :: "nat \<Rightarrow> ('id, 'meta, 'step) QueueSystem \<Rightarrow> ('id, 'meta, 'step) QueueSystem" where
  "forget_turn t s = (set_turn t (snd (take_pending_input (turn_states s t))) s)
     \<lparr>dropped := dropped s + mset (pending_input (turn_states s t))\<rparr>"

definition initial_queue_system :: "('id, 'meta, 'step) QueueSystem" where
  "initial_queue_system = \<lparr>queue = input_queue_new, turn_states = (\<lambda>_. default_turn_state), next_turn = 0,
     active = NoTurn, jobs = {#}, accepted = {#}, delivered = {#}, recorded = {#}, dropped = {#}\<rparr>"

inductive queue_step :: "('id, 'meta, 'step) QueueSystem \<Rightarrow> ('id, 'meta, 'step) QueueSystem \<Rightarrow> bool" where
  enqueue: "queue_step s (s\<lparr>queue := enqueue_mailbox_communication c opts (queue s),
     accepted := add_mset (InputInterAgent c) (accepted s)\<rparr>)"
| reserve: "active s = NoTurn \<Longrightarrow>
   queue_step s (s\<lparr>active := Reserved (next_turn s), next_turn := Suc (next_turn s),
     turn_states := (turn_states s)(next_turn s := default_turn_state)\<rparr>)"
| release: "active s = Reserved t \<Longrightarrow> filter_mset is_starting (jobs s) = {#} \<Longrightarrow>
   queue_step s ((forget_turn t s)\<lparr>active := NoTurn\<rparr>)"
| queue_first_input: "active s = Reserved t \<Longrightarrow>
   queue_step s ((set_turn t (extend_pending_input inputs (turn_states s t)) s)
     \<lparr>accepted := accepted s + mset inputs\<rparr>)"
| start_drain: "active s = Reserved t \<Longrightarrow> filter_mset is_starting (jobs s) = {#} \<Longrightarrow> drain_mailbox_input_items (queue s) = (items, opts, q) \<Longrightarrow>
   queue_step s (s\<lparr>queue := q, jobs := add_mset (Starting t items) (jobs s)\<rparr>)"
| start_task: "active s = Reserved t \<Longrightarrow> jobs s = add_mset (Starting t items) js \<Longrightarrow>
   queue_step s ((set_turn t (extend_pending_input items (turn_states s t)) s)\<lparr>active := Running sub_id t, jobs := js\<rparr>)"
| get_input: "take_turn_input (map_option (turn_states s) (turn_of (active s))) = ((items, True), turn) \<Longrightarrow>
   queue_step s ((case (turn_of (active s), turn) of (Some t, Some ts) \<Rightarrow> set_turn t ts s | _ \<Rightarrow> s)
     \<lparr>jobs := add_mset (Draining items) (jobs s)\<rparr>)"
| drain: "jobs s = add_mset (Draining items) js \<Longrightarrow> drain_mailbox_input_items (queue s) = (mails, opts, q) \<Longrightarrow>
   queue_step s (s\<lparr>queue := q, jobs := js, delivered := delivered s + mset (items @ mails)\<rparr>)"
| steer: "turn_of (active s) = Some t \<Longrightarrow>
   extend_pending_input_and_accept inputs (turn_states s t) (queue s) = (ts, q) \<Longrightarrow>
   queue_step s ((set_turn t ts s)\<lparr>queue := q, accepted := accepted s + mset inputs\<rparr>)"
| defer_find: "active s = Running sub_id t \<Longrightarrow> queue_step s (s\<lparr>jobs := add_mset (Deferring t) (jobs s)\<rparr>)"
| defer_apply: "jobs s = add_mset (Deferring t) js \<Longrightarrow>
   queue_step s ((set_turn t (defer_mailbox_delivery (turn_states s t)) s)\<lparr>jobs := js\<rparr>)"
| accept_find: "active s = Running sub_id t \<Longrightarrow> queue_step s (s\<lparr>jobs := add_mset (Accepting t) (jobs s)\<rparr>)"
| accept_apply: "jobs s = add_mset (Accepting t) js \<Longrightarrow>
   queue_step s ((set_turn t (accept_mailbox_delivery_for_current_turn (turn_states s t)) s)\<lparr>jobs := js\<rparr>)"
| finish: "active s = Running sub_id t \<Longrightarrow> take_pending_input (turn_states s t) = (items, ts) \<Longrightarrow>
   queue_step s ((set_turn t ts s)\<lparr>active := Finishing t, recorded := recorded s + mset items\<rparr>)"
| abort: "active s = Running sub_id t \<Longrightarrow>
   queue_step s (s\<lparr>active := NoTurn, jobs := add_mset (Aborting t) (jobs s)\<rparr>)"
| abort_clear: "jobs s = add_mset (Aborting t) js \<Longrightarrow>
   queue_step s ((set_turn t (clear_pending (turn_states s t)) s)
     \<lparr>jobs := js, dropped := dropped s + mset (pending_input (turn_states s t))\<rparr>)"
| clear_finished: "active s = Finishing t \<Longrightarrow> queue_step s ((forget_turn t s)\<lparr>active := NoTurn\<rparr>)"

section \<open>What holds in every reachable state\<close>

definition closed_turn_ok :: "('id, 'meta, 'step) TurnState \<Rightarrow> bool" where
  "closed_turn_ok ts \<longleftrightarrow> accepts_mailbox_delivery_for_current_turn ts \<or> list_all is_queue_only (pending_input ts)"

fun job_ok :: "active_turn \<Rightarrow> nat \<Rightarrow> queue_job \<Rightarrow> bool" where
  "job_ok a n (Draining _) = True"
| "job_ok a n (Starting t _) = (a = Reserved t)"
| "job_ok a n (Deferring t) = (t < n \<and> a \<noteq> Reserved t)"
| "job_ok a n (Accepting t) = (t < n \<and> a \<noteq> Reserved t)"
| "job_ok a n (Aborting t) = (t < n \<and> a \<noteq> Reserved t)"

definition queue_ok :: "('id, 'meta, 'step) QueueSystem \<Rightarrow> bool" where
  "queue_ok s \<longleftrightarrow>
     (\<forall>t. closed_turn_ok (turn_states s t))
     \<and> (\<forall>t. active s = Reserved t \<longrightarrow> accepts_mailbox_delivery_for_current_turn (turn_states s t))
     \<and> pred_option (\<lambda>t. t < next_turn s) (turn_of (active s))
     \<and> (\<forall>j \<in># jobs s. job_ok (active s) (next_turn s) j)
     \<and> size (filter_mset is_starting (jobs s)) \<le> 1"

lemmas turn_ops = extend_pending_input_def extend_pending_input_and_accept_def take_pending_input_def
  defer_mailbox_delivery_def clear_pending_def clear_pending_waiters_def set_mailbox_delivery_phase_def
  accept_mailbox_delivery_for_current_turn_def accepts_mailbox_delivery_for_current_turn_def default_turn_state_def

lemma closed_turn_ops [simp]:
  "closed_turn_ok default_turn_state"
  "accepts_mailbox_delivery_for_current_turn default_turn_state"
  "closed_turn_ok ts \<Longrightarrow> closed_turn_ok (defer_mailbox_delivery ts)"
  "closed_turn_ok (accept_mailbox_delivery_for_current_turn ts)"
  "closed_turn_ok (clear_pending ts)"
  "closed_turn_ok (snd (take_pending_input ts))"
  by (auto simp: closed_turn_ok_def turn_ops list_all_iff list_ex_iff)

lemma closed_turn_extended [simp]:
  "closed_turn_ok (accept_mailbox_delivery_for_current_turn (extend_pending_input inputs ts))"
  "accepts_mailbox_delivery_for_current_turn ts \<Longrightarrow> closed_turn_ok (extend_pending_input inputs ts)"
  "accepts_mailbox_delivery_for_current_turn (extend_pending_input inputs ts) = accepts_mailbox_delivery_for_current_turn ts"
  "accepts_mailbox_delivery_for_current_turn (accept_mailbox_delivery_for_current_turn ts)"
  by (auto simp: closed_turn_ok_def turn_ops)

lemma job_ok_active:
  assumes "\<forall>j \<in># jobs s. job_ok a n j" "filter_mset is_starting (jobs s) = {#}" "n \<le> n'" "\<And>t. a' = Reserved t \<Longrightarrow> n \<le> t"
  shows "\<forall>j \<in># jobs s. job_ok a' n' j"
proof
  fix j
  assume j: "j \<in># jobs s"
  then have "\<not> is_starting j" using assms(2) by auto
  with j assms(1,3,4) show "job_ok a' n' j" by (cases j) fastforce+
qed

lemma no_starting:
  assumes "\<forall>j \<in># jobs s. job_ok a n j" "\<And>t. a \<noteq> Reserved t"
  shows "filter_mset is_starting (jobs s) = {#}"
proof -
  have "\<not> is_starting j" if "j \<in># jobs s" for j using assms that by (cases j) force+
  then show ?thesis by simp
qed

lemma size_filter_none: "\<forall>x. x \<in># M \<longrightarrow> \<not> P x \<Longrightarrow> size (filter_mset P M) \<le> Suc 0"
proof -
  assume "\<forall>x. x \<in># M \<longrightarrow> \<not> P x"
  then have none: "filter_mset P M = {#}" by simp
  show ?thesis unfolding none by simp
qed

lemma queue_ok_step: "queue_step s s' \<Longrightarrow> queue_ok s \<Longrightarrow> queue_ok s'"
proof (induction rule: queue_step.induct)
  case (reserve s)
  with no_starting [of s NoTurn "next_turn s"] job_ok_active [of s NoTurn "next_turn s" "Suc (next_turn s)" "Reserved (next_turn s)"]
  show ?case by (auto simp: queue_ok_def)
next
  case (release s t)
  with job_ok_active [of s "Reserved t" "next_turn s" _ NoTurn] show ?case
    by (auto simp: queue_ok_def forget_turn_def set_turn_def)
next
  case (start_task s t items js sub_id)
  then have none: "filter_mset is_starting js = {#}" by (simp add: queue_ok_def)
  with none start_task job_ok_active [of "s\<lparr>jobs := js\<rparr>" "Reserved t" "next_turn s" "next_turn s" "Running sub_id t"]
  show ?case by (auto simp: queue_ok_def set_turn_def intro: size_filter_none)
next
  case (get_input s items turn)
  then show ?case
    by (auto simp: queue_ok_def take_turn_input_def set_turn_def take_pending_input_def closed_turn_ok_def
        accepts_mailbox_delivery_for_current_turn_def split: option.splits if_splits)
next
  case (abort s sub_id t)
  with no_starting [of s "active s" "next_turn s"] job_ok_active [of s "active s" "next_turn s" _ NoTurn] show ?case
    by (auto simp: queue_ok_def)
next
  case (finish s sub_id t items ts)
  from finish(2) have "ts = snd (take_pending_input (turn_states s t))" by simp
  with finish no_starting [of s "active s" "next_turn s"]
    job_ok_active [of s "active s" "next_turn s" "next_turn s" "Finishing t"] show ?case
    by (auto simp: queue_ok_def set_turn_def)
next
  case (clear_finished s t)
  with no_starting [of s "active s" "next_turn s"] job_ok_active [of s "active s" "next_turn s" _ NoTurn] show ?case
    by (auto simp: queue_ok_def forget_turn_def set_turn_def)
qed (auto simp: queue_ok_def set_turn_def extend_pending_input_and_accept_def)

section \<open>No input is lost\<close>

fun job_inputs :: "queue_job \<Rightarrow> TurnInput list" where
  "job_inputs (Draining items) = items"
| "job_inputs (Starting _ items) = items"
| "job_inputs _ = []"

definition turns_hold :: "('id, 'meta, 'step) QueueSystem \<Rightarrow> TurnInput multiset" where
  "turns_hold s = (\<Sum>t < next_turn s. mset (pending_input (turn_states s t)))"

definition jobs_hold :: "queue_job multiset \<Rightarrow> TurnInput multiset" where
  "jobs_hold js = (\<Sum>j \<in># js. mset (job_inputs j))"

definition queue_holds :: "InputQueue \<Rightarrow> TurnInput multiset" where
  "queue_holds q = mset (mail_inputs (mailbox_pending_mails q))"

definition accounted :: "('id, 'meta, 'step) QueueSystem \<Rightarrow> bool" where
  "accounted s \<longleftrightarrow>
     accepted s = delivered s + recorded s + dropped s + turns_hold s + jobs_hold (jobs s) + queue_holds (queue s)"

lemma jobs_hold_simps [simp]:
  "jobs_hold {#} = {#}" "jobs_hold (add_mset j js) = mset (job_inputs j) + jobs_hold js"
  by (simp_all add: jobs_hold_def)

lemma queue_holds_ops [simp]:
  "queue_holds (enqueue_mailbox_communication c opts q) = add_mset (InputInterAgent c) (queue_holds q)"
  "drain_mailbox_input_items q = (mails, opts, q') \<Longrightarrow> queue_holds q' = {#} \<and> mset mails = queue_holds q"
  "queue_holds (q\<lparr>activity := a\<rparr>) = queue_holds q"
  by (auto simp: queue_holds_def mail_inputs_def enqueue_mailbox_communication_def drain_mailbox_input_items_def)

lemma turns_hold_update [simp]:
  "turns_hold (s\<lparr>queue := q\<rparr>) = turns_hold s" "turns_hold (s\<lparr>active := a\<rparr>) = turns_hold s"
  "turns_hold (s\<lparr>jobs := js\<rparr>) = turns_hold s" "turns_hold (s\<lparr>accepted := m\<rparr>) = turns_hold s"
  "turns_hold (s\<lparr>delivered := m\<rparr>) = turns_hold s" "turns_hold (s\<lparr>recorded := m\<rparr>) = turns_hold s"
  "turns_hold (s\<lparr>dropped := m\<rparr>) = turns_hold s"
  by (simp_all add: turns_hold_def)

lemma set_turn_fields [simp]:
  "queue (set_turn t ts s) = queue s" "active (set_turn t ts s) = active s" "jobs (set_turn t ts s) = jobs s"
  "accepted (set_turn t ts s) = accepted s" "delivered (set_turn t ts s) = delivered s"
  "recorded (set_turn t ts s) = recorded s" "dropped (set_turn t ts s) = dropped s"
  "next_turn (set_turn t ts s) = next_turn s"
  by (simp_all add: set_turn_def)

text \<open>A step that changes the pending input of one turn, in terms of what the others hold.\<close>

definition others_hold :: "nat \<Rightarrow> ('id, 'meta, 'step) QueueSystem \<Rightarrow> TurnInput multiset" where
  "others_hold t s = (\<Sum>i \<in> {..<next_turn s} - {t}. mset (pending_input (turn_states s i)))"

lemma turns_hold_others:
  assumes "t < next_turn s"
  shows "turns_hold s = mset (pending_input (turn_states s t)) + others_hold t s"
    "turns_hold (set_turn t ts s) = mset (pending_input ts) + others_hold t s"
proof -
  have split: "turns_hold s = mset (pending_input (turn_states s t)) + others_hold t s"
    if "t < next_turn s" for s :: "('a, 'b, 'c) QueueSystem"
    unfolding turns_hold_def others_hold_def using that by (intro sum.remove) simp_all
  have "others_hold t (set_turn t ts s) = others_hold t s"
    unfolding others_hold_def by (intro sum.cong) (auto simp: set_turn_def)
  with split [of s] split [of "set_turn t ts s"] assms
  show "turns_hold s = mset (pending_input (turn_states s t)) + others_hold t s"
    "turns_hold (set_turn t ts s) = mset (pending_input ts) + others_hold t s"
    by (simp_all add: set_turn_def)
qed

lemma turns_hold_reserve:
  "turns_hold (s\<lparr>active := a, next_turn := Suc (next_turn s), turn_states := (turn_states s)(next_turn s := default_turn_state)\<rparr>)
     = turns_hold s"
proof -
  have "(\<Sum>t < next_turn s. mset (pending_input (((turn_states s)(next_turn s := default_turn_state)) t)))
      = (\<Sum>t < next_turn s. mset (pending_input (turn_states s t)))"
    by (intro sum.cong) auto
  then show ?thesis by (simp add: turns_hold_def default_turn_state_def)
qed

lemma pending_input_ops [simp]:
  "pending_input (extend_pending_input inputs ts) = pending_input ts @ inputs"
  "pending_input (accept_mailbox_delivery_for_current_turn ts) = pending_input ts"
  "pending_input (defer_mailbox_delivery ts) = pending_input ts"
  "pending_input (clear_pending ts) = []"
  "pending_input (snd (take_pending_input ts)) = []"
  by (simp_all add: turn_ops)

lemma accounted_step:
  "queue_step s s' \<Longrightarrow> queue_ok s \<Longrightarrow> accounted s \<Longrightarrow> accounted s'"
proof (induction rule: queue_step.induct)
  case (reserve s)
  then show ?case by (simp add: accounted_def turns_hold_reserve)
next
  case (release s t)
  then have "t < next_turn s" by (simp add: queue_ok_def)
  note hold = turns_hold_others [OF this]
  from release show ?case by (simp add: accounted_def forget_turn_def hold ac_simps)
next
  case (queue_first_input s t inputs)
  then have "t < next_turn s" by (simp add: queue_ok_def)
  note hold = turns_hold_others [OF this]
  from queue_first_input show ?case by (simp add: accounted_def hold ac_simps)
next
  case (start_drain s t items opts q)
  then show ?case using queue_holds_ops(2) [OF start_drain(3)] by (simp add: accounted_def ac_simps)
next
  case (start_task s t items js sub_id)
  then have "t < next_turn s" by (simp add: queue_ok_def)
  note hold = turns_hold_others [OF this]
  from start_task show ?case by (simp add: accounted_def hold ac_simps)
next
  case (get_input s items turn)
  show ?case
  proof (cases "turn_of (active s)")
    case None
    with get_input show ?thesis by (auto simp: take_turn_input_def accounted_def)
  next
    case (Some t)
    with get_input(2) have "t < next_turn s" by (simp add: queue_ok_def)
    note hold = turns_hold_others [OF this]
    from get_input(1) Some have "items = pending_input (turn_states s t)"
      "turn = Some (snd (take_pending_input (turn_states s t)))"
      by (auto simp: take_turn_input_def take_pending_input_def split: if_splits)
    with get_input(3) Some show ?thesis by (simp add: accounted_def hold ac_simps)
  qed
next
  case (drain s items js mails opts q)
  then show ?case using queue_holds_ops(2) [OF drain(2)] by (simp add: accounted_def ac_simps)
next
  case (steer s t inputs ts q)
  then have "t < next_turn s" by (simp add: queue_ok_def)
  note hold = turns_hold_others [OF this]
  from steer show ?case
    by (auto simp: accounted_def hold extend_pending_input_and_accept_def ac_simps)
next
  case (defer_apply s t js)
  then have "t < next_turn s" by (simp add: queue_ok_def)
  note hold = turns_hold_others [OF this]
  from defer_apply show ?case by (simp add: accounted_def hold ac_simps)
next
  case (accept_apply s t js)
  then have "t < next_turn s" by (simp add: queue_ok_def)
  note hold = turns_hold_others [OF this]
  from accept_apply show ?case by (simp add: accounted_def hold ac_simps)
next
  case (finish s sub_id t items ts)
  then have "t < next_turn s" by (simp add: queue_ok_def)
  note hold = turns_hold_others [OF this]
  from finish show ?case by (auto simp: accounted_def hold take_pending_input_def ac_simps)
next
  case (abort_clear s t js)
  then have "t < next_turn s" by (simp add: queue_ok_def)
  note hold = turns_hold_others [OF this]
  from abort_clear show ?case by (simp add: accounted_def hold ac_simps)
next
  case (clear_finished s t)
  then have "t < next_turn s" by (simp add: queue_ok_def)
  note hold = turns_hold_others [OF this]
  from clear_finished show ?case by (simp add: accounted_def forget_turn_def hold ac_simps)
qed (simp_all add: accounted_def ac_simps)

definition queue_reachable :: "('id, 'meta, 'step) QueueSystem \<Rightarrow> bool" where
  "queue_reachable s \<longleftrightarrow> queue_step\<^sup>*\<^sup>* initial_queue_system s"

lemma queue_reachable_ok: "queue_reachable s \<Longrightarrow> queue_ok s \<and> accounted s"
proof -
  have "queue_step\<^sup>*\<^sup>* initial_queue_system s \<Longrightarrow> queue_ok s \<and> accounted s"
    for s :: "('a, 'b, 'c) QueueSystem"
  proof (induction rule: rtranclp_induct)
    case base
    show ?case
      by (simp add: queue_ok_def accounted_def initial_queue_system_def turns_hold_def queue_holds_def mail_inputs_def
          input_queue_new_def)
  next
    case (step s s')
    then show ?case by (simp add: queue_ok_step accounted_step)
  qed
  then show "queue_reachable s \<Longrightarrow> queue_ok s \<and> accounted s" by (simp add: queue_reachable_def)
qed

lemma queue_reachable_step: "queue_reachable s \<Longrightarrow> queue_step s s' \<Longrightarrow> queue_reachable s'"
  unfolding queue_reachable_def by (rule rtranclp.rtrancl_into_rtrancl)


text \<open>A turn that no longer takes mail holds nothing but mail that starts no turn: whatever was
  steered into a turn finds it open, even if the decision to close it was taken before, so that the
  next reading of the input does not pass over it.\<close>

theorem closed_turn_has_no_work:
  assumes "queue_reachable s"
  shows "\<not> accepts_mailbox_delivery_for_current_turn (turn_states s t)
    \<longrightarrow> list_all is_queue_only (pending_input (turn_states s t))"
  using queue_reachable_ok [OF assms] by (auto simp: queue_ok_def closed_turn_ok_def)

section \<open>An example\<close>

definition sample_mail :: InterAgentCommunication where
  "sample_mail = \<lparr>ic_id = None, ic_author = ROOT, ic_recipient = ROOT, ic_other_recipients = [], ic_content = [],
     ic_encrypted_content = None, ic_passthrough = None, trigger_turn = False\<rparr>"

definition sample_mailed :: "(unit, unit, unit) QueueSystem" where
  "sample_mailed = (let s = initial_queue_system in s\<lparr>
     queue := enqueue_mailbox_communication sample_mail default_start_options (queue s),
     accepted := add_mset (InputInterAgent sample_mail) (accepted s)\<rparr>)"

definition sample_reserved :: "(unit, unit, unit) QueueSystem" where
  "sample_reserved = sample_mailed\<lparr>active := Reserved (next_turn sample_mailed), next_turn := Suc (next_turn sample_mailed),
     turn_states := (turn_states sample_mailed)(next_turn sample_mailed := default_turn_state)\<rparr>"

definition sample_drained :: "(unit, unit, unit) QueueSystem" where
  "sample_drained = sample_reserved\<lparr>queue := snd (snd (drain_mailbox_input_items (queue sample_reserved))),
     jobs := add_mset (Starting 0 (fst (drain_mailbox_input_items (queue sample_reserved)))) (jobs sample_reserved)\<rparr>"

definition sample_started :: "(unit, unit, unit) QueueSystem" where
  "sample_started = (set_turn 0 (extend_pending_input (fst (drain_mailbox_input_items (queue sample_reserved)))
     (turn_states sample_drained 0)) sample_drained)\<lparr>active := Running (lit ''turn'') 0, jobs := jobs sample_reserved\<rparr>"

definition sample_deferred :: "(unit, unit, unit) QueueSystem" where
  "sample_deferred = (set_turn 0 (defer_mailbox_delivery (turn_states sample_started 0))
     (sample_started\<lparr>jobs := add_mset (Deferring 0) (jobs sample_started)\<rparr>))\<lparr>jobs := jobs sample_started\<rparr>"

lemmas sample_defs = sample_mailed_def sample_reserved_def sample_drained_def sample_started_def sample_deferred_def
  initial_queue_system_def

lemma sample_runs: "queue_reachable sample_started" "queue_reachable sample_deferred"
proof -
  have "queue_reachable (initial_queue_system :: (unit, unit, unit) QueueSystem)" by (simp add: queue_reachable_def)
  from queue_reachable_step [OF this enqueue] have "queue_reachable sample_mailed" unfolding sample_mailed_def Let_def .
  from queue_reachable_step [OF this reserve] have "queue_reachable sample_reserved"
    unfolding sample_reserved_def by (simp add: sample_mailed_def initial_queue_system_def)
  from queue_reachable_step [OF this start_drain [of _ 0 "fst (drain_mailbox_input_items (queue sample_reserved))"
      "fst (snd (drain_mailbox_input_items (queue sample_reserved)))"
      "snd (snd (drain_mailbox_input_items (queue sample_reserved)))"]]
  have "queue_reachable sample_drained"
    unfolding sample_drained_def by (simp add: sample_reserved_def sample_mailed_def initial_queue_system_def)
  from queue_reachable_step [OF this start_task [of _ 0]] show started: "queue_reachable sample_started"
    unfolding sample_started_def by (simp add: sample_drained_def sample_reserved_def sample_mailed_def initial_queue_system_def)
  have "active sample_started = Running (lit ''turn'') 0" by (simp add: sample_started_def)
  from queue_reachable_step [OF started defer_find [OF this]]
  have "queue_reachable (sample_started\<lparr>jobs := add_mset (Deferring 0) (jobs sample_started)\<rparr>)" .
  from queue_reachable_step [OF this defer_apply [of _ 0 "jobs sample_started"]] show "queue_reachable sample_deferred"
    unfolding sample_deferred_def by simp
qed


theorem closed_turn_has_no_work_witness:
  "\<not> accepts_mailbox_delivery_for_current_turn (turn_states sample_deferred 0)
   \<and> pending_input (turn_states sample_deferred 0) = [InputInterAgent sample_mail]
   \<and> list_all is_queue_only (pending_input (turn_states sample_deferred 0))"
proof -
  have "\<not> accepts_mailbox_delivery_for_current_turn (turn_states sample_deferred 0)
      \<and> pending_input (turn_states sample_deferred 0) = [InputInterAgent sample_mail]"
    by (simp add: sample_defs set_turn_def turn_ops enqueue_mailbox_communication_def drain_mailbox_input_items_def
        mail_inputs_def input_queue_new_def sample_mail_def)
  with closed_turn_has_no_work [OF sample_runs(2), of 0] show ?thesis by blast
qed

text \<open>
  Between the end of a task and the removal of its turn, response items are still taken in for the
  turn, by \<open>inject_if_running\<close>, which asks for an active turn only; they go away with it.
\<close>

lemma injected_input_can_be_lost:
  "\<exists>s :: (unit, unit, unit) QueueSystem. queue_reachable s \<and> active s = NoTurn \<and> i \<in># accepted s \<and> i \<in># dropped s"
proof -
  have running: "active sample_started = Running (lit ''turn'') 0" by (simp add: sample_started_def)
  have "take_pending_input (turn_states sample_started 0) =
      (pending_input (turn_states sample_started 0), snd (take_pending_input (turn_states sample_started 0)))"
    by (simp add: take_pending_input_def)
  from queue_reachable_step [OF sample_runs(1) finish [OF running this]]
  obtain s :: "(unit, unit, unit) QueueSystem" where s: "queue_reachable s" "active s = Finishing 0"
    by (auto dest: spec intro: that)
  obtain s' :: "(unit, unit, unit) QueueSystem" where s': "queue_reachable s'" "active s' = Finishing 0" "i \<in># accepted s'"
    "i \<in># mset (pending_input (turn_states s' 0))"
  proof -
    obtain ts q where eq: "extend_pending_input_and_accept [i] (turn_states s 0) (queue s) = (ts, q)" by force
    have "turn_of (active s) = Some 0" using s(2) by simp
    from that [OF queue_reachable_step [OF s(1) steer [OF this eq]]] s(2) eq show thesis
      by (auto simp: extend_pending_input_and_accept_def set_turn_def turn_ops)
  qed
  have "i \<in># accepted ((forget_turn 0 s')\<lparr>active := NoTurn\<rparr>)" "i \<in># dropped ((forget_turn 0 s')\<lparr>active := NoTurn\<rparr>)"
    "active ((forget_turn 0 s')\<lparr>active := NoTurn\<rparr>) = NoTurn"
    using s'(3,4) by (simp_all add: forget_turn_def)
  with queue_reachable_step [OF s'(1) clear_finished [OF s'(2)]] show ?thesis by blast
qed

end
