(* ===== verification/Auto_Compact_Window.thy ===== *)
theory Auto_Compact_Window
  imports Turn_State "HOL-Library.Signed_Division"
begin

text \<open>
  The window between two compactions of the context (\<open>core/src/state/auto_compact_window.rs\<close>): its
  number and identifiers, the requests and reminders that belong to it, and the number of input
  tokens it started with. A new identifier is an argument of \<open>advance\<close>; token counts are signed
  64-bit words.
\<close>

record 'uuid AutoCompactWindowIds =
  first_window_id :: 'uuid
  previous_window_id :: "'uuid option"
  window_id :: 'uuid

definition new_initial :: "'uuid \<Rightarrow> 'uuid AutoCompactWindowIds" where
  "new_initial u = \<lparr>first_window_id = u, previous_window_id = None, window_id = u\<rparr>"

datatype AutoCompactWindowPrefill = ServerObserved "64 word" | Estimated "64 word"

record 'uuid AutoCompactWindow =
  window_number :: "64 word"
  ids :: "'uuid AutoCompactWindowIds"
  new_context_window_requested :: bool
  prefill_input_tokens :: "AutoCompactWindowPrefill option"
  token_budget_reminder_delivered :: bool
  auto_compact_fallback_delivered :: bool

definition new_with_ids :: "'uuid AutoCompactWindowIds \<Rightarrow> 'uuid AutoCompactWindow" where
  "new_with_ids i = \<lparr>window_number = 0, ids = i, new_context_window_requested = False, prefill_input_tokens = None,
     token_budget_reminder_delivered = False, auto_compact_fallback_delivered = False\<rparr>"

definition clear_prefill :: "'uuid AutoCompactWindow \<Rightarrow> 'uuid AutoCompactWindow" where
  "clear_prefill w = w\<lparr>prefill_input_tokens := None\<rparr>"

definition restore :: "64 word \<Rightarrow> 'uuid AutoCompactWindowIds \<Rightarrow> 'uuid AutoCompactWindow \<Rightarrow> 'uuid AutoCompactWindow" where
  "restore n i w = w\<lparr>window_number := n, ids := i\<rparr>"

definition saturating_add :: "64 word \<Rightarrow> 64 word \<Rightarrow> 64 word" where
  "saturating_add a b = (if unat a + unat b < 2 ^ 64 then a + b else - 1)"

definition advance ::
  "'uuid \<Rightarrow> 'uuid AutoCompactWindow \<Rightarrow> (64 word \<times> 'uuid AutoCompactWindowIds) \<times> 'uuid AutoCompactWindow" where
  "advance u w =
     (let w = w\<lparr>window_number := saturating_add (window_number w) 1,
                ids := (ids w)\<lparr>previous_window_id := Some (window_id (ids w)), window_id := u\<rparr>,
                new_context_window_requested := False, token_budget_reminder_delivered := False,
                auto_compact_fallback_delivered := False\<rparr>
      in ((window_number w, ids w), w))"

definition claim_token_budget_reminder :: "'uuid AutoCompactWindow \<Rightarrow> bool \<times> 'uuid AutoCompactWindow" where
  "claim_token_budget_reminder w =
     (\<not> token_budget_reminder_delivered w, w\<lparr>token_budget_reminder_delivered := True\<rparr>)"

definition claim_auto_compact_fallback :: "'uuid AutoCompactWindow \<Rightarrow> bool \<times> 'uuid AutoCompactWindow" where
  "claim_auto_compact_fallback w =
     (\<not> auto_compact_fallback_delivered w, w\<lparr>auto_compact_fallback_delivered := True\<rparr>)"

definition request_new_context_window :: "'uuid AutoCompactWindow \<Rightarrow> 'uuid AutoCompactWindow" where
  "request_new_context_window w = w\<lparr>new_context_window_requested := True\<rparr>"

definition take_new_context_window_request :: "'uuid AutoCompactWindow \<Rightarrow> bool \<times> 'uuid AutoCompactWindow" where
  "take_new_context_window_request w =
     (new_context_window_requested w, w\<lparr>new_context_window_requested := False\<rparr>)"

text \<open>\<open>max(0)\<close> of an \<open>i64\<close>.\<close>

definition max_zero :: "64 word \<Rightarrow> 64 word" where
  "max_zero x = (if sint x < 0 then 0 else x)"

fun is_server_observed :: "AutoCompactWindowPrefill option \<Rightarrow> bool" where
  "is_server_observed (Some (ServerObserved _)) = True"
| "is_server_observed _ = False"

definition ensure_server_observed_prefill_from_usage ::
  "TokenUsage \<Rightarrow> 'uuid AutoCompactWindow \<Rightarrow> 'uuid AutoCompactWindow" where
  "ensure_server_observed_prefill_from_usage usage w =
     (if is_server_observed (prefill_input_tokens w) then w
      else w\<lparr>prefill_input_tokens := Some (ServerObserved (max_zero (input_tokens usage)))\<rparr>)"

definition set_estimated_prefill :: "64 word \<Rightarrow> 'uuid AutoCompactWindow \<Rightarrow> 'uuid AutoCompactWindow" where
  "set_estimated_prefill tokens w =
     (if is_server_observed (prefill_input_tokens w) then w
      else w\<lparr>prefill_input_tokens := Some (Estimated (max_zero tokens))\<rparr>)"

definition snapshot :: "'uuid AutoCompactWindow \<Rightarrow> 64 word option" where
  "snapshot w = (case prefill_input_tokens w of
      Some (ServerObserved tokens) \<Rightarrow> Some tokens | Some (Estimated tokens) \<Rightarrow> Some tokens | None \<Rightarrow> None)"

section \<open>The baseline of a window\<close>

datatype window_event =
    Observe TokenUsage | Estimate "64 word" | Claim_Reminder | Claim_Fallback | Request_Window | Take_Request

fun window_event_step :: "window_event \<Rightarrow> 'uuid AutoCompactWindow \<Rightarrow> 'uuid AutoCompactWindow" where
  "window_event_step (Observe usage) w = ensure_server_observed_prefill_from_usage usage w"
| "window_event_step (Estimate tokens) w = set_estimated_prefill tokens w"
| "window_event_step Claim_Reminder w = snd (claim_token_budget_reminder w)"
| "window_event_step Claim_Fallback w = snd (claim_auto_compact_fallback w)"
| "window_event_step Request_Window w = request_new_context_window w"
| "window_event_step Take_Request w = snd (take_new_context_window_request w)"

fun observed :: "window_event list \<Rightarrow> 64 word list" where
  "observed [] = []"
| "observed (Observe usage # es) = max_zero (input_tokens usage) # observed es"
| "observed (_ # es) = observed es"

fun estimated :: "window_event list \<Rightarrow> 64 word list" where
  "estimated [] = []"
| "estimated (Estimate tokens # es) = max_zero tokens # estimated es"
| "estimated (_ # es) = estimated es"

lemma observed_stays:
  "prefill_input_tokens w = Some (ServerObserved t) \<Longrightarrow>
     prefill_input_tokens (fold window_event_step es w) = Some (ServerObserved t)"
proof (induction es arbitrary: w)
  case (Cons e es)
  then have "prefill_input_tokens (window_event_step e w) = Some (ServerObserved t)"
    by (cases e) (simp_all add: ensure_server_observed_prefill_from_usage_def set_estimated_prefill_def
        claim_token_budget_reminder_def claim_auto_compact_fallback_def request_new_context_window_def
        take_new_context_window_request_def)
  with Cons.IH show ?case by simp
qed simp

text \<open>
  The first sample of the server counts; without one, the last estimate does.
\<close>

lemma prefill_of_window:
  "\<not> is_server_observed (prefill_input_tokens w) \<Longrightarrow>
     snapshot (fold window_event_step es w) =
       (if observed es \<noteq> [] then Some (hd (observed es))
        else if estimated es \<noteq> [] then Some (last (estimated es)) else snapshot w)"
proof (induction es arbitrary: w)
  case (Cons e es)
  show ?case
  proof (cases e)
    case (Observe usage)
    with Cons.prems observed_stays [of "window_event_step e w" "max_zero (input_tokens usage)" es] show ?thesis
      by (simp add: ensure_server_observed_prefill_from_usage_def snapshot_def)
  next
    case (Estimate tokens)
    with Cons.prems Cons.IH [of "window_event_step e w"] show ?thesis
      by (auto simp: set_estimated_prefill_def snapshot_def)
  qed (use Cons.prems Cons.IH [of "window_event_step e w"] in \<open>simp_all add: snapshot_def
      claim_token_budget_reminder_def claim_auto_compact_fallback_def request_new_context_window_def
      take_new_context_window_request_def\<close>)
qed simp

end
