(* ===== verification/Shell_Command.thy ===== *)
theory Shell_Command
  imports Rust_Prelude "HOL-Library.Multiset"
begin

text \<open>
  Shell invocations: \<open>shell-command/src/shell_detect.rs\<close>, \<open>bash.rs\<close> and the flags read by
  \<open>powershell.rs\<close>. A script is parsed by tree-sitter, outside the repository, into a tree of nodes;
  the functions here read commands out of such a tree in two ways: \<open>plain\<close> commands, for a script
  that is nothing but word-only commands, and \<open>literal\<close> commands, the statically known words of
  every command of any script.

  Paths are those of \<open>std::path\<close> on a POSIX host.
\<close>

section \<open>Paths\<close>

text \<open>The components of a path: whether it starts at the root, and its parts. Repeated separators
  and all but a leading \<open>.\<close> are dropped, so that this is also what comparing two paths compares.\<close>

definition path_parts :: "rstr \<Rightarrow> bool \<times> rstr list" where
  "path_parts s =
     (let pieces = split_char 47 s
      in (starts_with [47] s,
          (if hd pieces = [46] then [[46]] else [])
            @ filter (\<lambda>p. p \<noteq> [] \<and> p \<noteq> [46]) pieces))"

definition path_base_name :: "rstr \<Rightarrow> rstr option" where
  "path_base_name s =
     (let parts = snd (path_parts s)
      in if parts = [] then None
         else if last parts = [46] \<or> last parts = [46, 46] then None
         else Some (last parts))"

text \<open>\<open>Path::file_stem\<close>: the name up to its last dot, unless that dot begins it.\<close>

definition path_file_stem :: "rstr \<Rightarrow> rstr option" where
  "path_file_stem s =
     map_option (\<lambda>name. case rsplit_once 46 name of
         Some (before, _) \<Rightarrow> (if before = [] then name else before)
       | None \<Rightarrow> name) (path_base_name s)"

definition path_parent :: "rstr \<Rightarrow> (bool \<times> rstr list) option" where
  "path_parent s =
     (let (root, parts) = path_parts s in if parts = [] then None else Some (root, butlast parts))"

lemma length_split_char_piece: "p \<in> set (split_char d s) \<Longrightarrow> length p \<le> length s"
  by (induction s arbitrary: p) (fastforce split: list.splits if_splits)+

lemma path_base_name_length: "path_base_name s = Some name \<Longrightarrow> length name \<le> length s"
proof -
  assume "path_base_name s = Some name"
  then have parts: "snd (path_parts s) \<noteq> []" and name: "name = last (snd (path_parts s))"
    by (auto simp: path_base_name_def Let_def split: if_splits)
  have "name \<in> set (snd (path_parts s))" using parts name by simp
  then have "name = [46] \<and> s \<noteq> [] \<or> name \<in> set (split_char 47 s)"
    by (cases s) (auto simp: path_parts_def Let_def split: if_splits)
  then show "length name \<le> length s"
  proof
    assume "name = [46] \<and> s \<noteq> []"
    then show ?thesis by (cases s) simp_all
  qed (rule length_split_char_piece)
qed

lemma rsplit_once_before: "rsplit_once d s = Some (a, b) \<Longrightarrow> length a < length s"
  by (auto simp: rsplit_once_def split_once_def split: option.splits dest!: str_find_Some)

lemma path_file_stem_base:
  assumes "path_file_stem s = Some stem"
  shows "\<exists>base. path_base_name s = Some base \<and> (stem = base \<or> length stem < length base)"
proof -
  from assms obtain base where base: "path_base_name s = Some base"
    and stem: "stem = (case rsplit_once 46 base of
         Some (before, _) \<Rightarrow> (if before = [] then base else before) | None \<Rightarrow> base)"
    by (auto simp: path_file_stem_def)
  show ?thesis
  proof (cases "rsplit_once 46 base")
    case None
    with base stem show ?thesis by simp
  next
    case (Some ab)
    obtain x y where ab: "ab = (x, y)" by fastforce
    with Some base stem rsplit_once_before [of 46 base x y] show ?thesis by (cases "x = []") auto
  qed
qed

section \<open>Shells\<close>

datatype ShellType = Zsh | Bash | PowerShell | Sh | Cmd

fun shell_name :: "ShellType \<Rightarrow> rstr" where
  "shell_name Zsh = lit ''zsh''"
| "shell_name Bash = lit ''bash''"
| "shell_name PowerShell = lit ''powershell''"
| "shell_name Sh = lit ''sh''"
| "shell_name Cmd = lit ''cmd''"

function detect_shell_type :: "rstr \<Rightarrow> ShellType option" where
  "detect_shell_type path =
     (if path = lit ''zsh'' then Some Zsh
      else if path = lit ''sh'' then Some Sh
      else if path = lit ''cmd'' then Some Cmd
      else if path = lit ''bash'' then Some Bash
      else if path = lit ''pwsh'' then Some PowerShell
      else if path = lit ''powershell'' then Some PowerShell
      else case path_file_stem path of
          None \<Rightarrow> None
        | Some name \<Rightarrow> (if path_parts name \<noteq> path_parts path then detect_shell_type name else None))"
  by pat_completeness auto

text \<open>A stem as long as its path has the same parts.\<close>

lemma path_base_name_same: "path_base_name s = Some name \<Longrightarrow> length name = length s \<Longrightarrow> name = s"
proof -
  assume base: "path_base_name s = Some name" and len: "length name = length s"
  then have parts: "snd (path_parts s) \<noteq> []" "name = last (snd (path_parts s))" "name \<noteq> [46]"
    by (auto simp: path_base_name_def Let_def split: if_splits)
  then have "name \<in> set (snd (path_parts s))" by simp
  then have piece: "name \<in> set (split_char 47 s)"
    using parts(3) by (auto simp: path_parts_def Let_def split: if_splits)
  show "name = s"
  proof (cases "47 \<in> set s")
    case False
    with piece show ?thesis by (simp add: split_char_no_sep)
  next
    case True
    then obtain a b where s: "s = a @ 47 # b" by (meson split_list)
    with piece have "name \<in> set (split_char 47 a) \<or> name \<in> set (split_char 47 b)"
      by (auto simp: split_char_append)
    then have "length name \<le> length a \<or> length name \<le> length b"
      using length_split_char_piece by blast
    with len s show ?thesis by auto
  qed
qed

termination detect_shell_type
proof (relation "measure length")
  show "wf (measure length)" by simp
  fix path name
  assume stem: "path_file_stem path = Some name" and new: "path_parts name \<noteq> path_parts path"
  have "length name \<noteq> length path"
  proof
    assume len: "length name = length path"
    obtain base where base: "path_base_name path = Some base" "name = base \<or> length name < length base"
      using path_file_stem_base [OF stem] by blast
    with path_base_name_length [OF base(1)] len have "length base = length path" "name = base" by auto
    with path_base_name_same [OF base(1)] new show False by simp
  qed
  moreover obtain base where "path_base_name path = Some base" "length name \<le> length base"
    using path_file_stem_base [OF stem] by fastforce
  ultimately show "(name, path) \<in> measure length" using path_base_name_length by fastforce
qed

declare detect_shell_type.simps [simp del]

definition extract_bash_command :: "rstr list \<Rightarrow> (rstr \<times> rstr) option" where
  "extract_bash_command command =
     (case command of
        [shell, flag, script] \<Rightarrow>
          (if (flag = lit ''-lc'' \<or> flag = lit ''-c'')
              \<and> detect_shell_type shell \<in> {Some Zsh, Some Bash, Some Sh}
           then Some (shell, script) else None)
      | _ \<Rightarrow> None)"

definition POWERSHELL_FLAGS :: "rstr list" where
  "POWERSHELL_FLAGS = [lit ''-nologo'', lit ''-noprofile'', lit ''-command'', lit ''-c'']"

text \<open>The arguments after the shell, up to the script that follows the first command flag.\<close>

fun powershell_script :: "rstr list \<Rightarrow> rstr option" where
  "powershell_script (flag # next_arg # rest) =
     (if to_ascii_lowercase flag \<notin> set POWERSHELL_FLAGS then None
      else if eq_ignore_ascii_case flag (lit ''-Command'') \<or> eq_ignore_ascii_case flag (lit ''-c'')
      then Some next_arg
      else powershell_script (next_arg # rest))"
| "powershell_script _ = None"

definition extract_powershell_command :: "rstr list \<Rightarrow> (rstr \<times> rstr) option" where
  "extract_powershell_command command =
     (if length command < 3 then None
      else if detect_shell_type (command ! 0) \<noteq> Some PowerShell then None
      else map_option (Pair (command ! 0)) (powershell_script (drop 1 command)))"

end
