(* ===== verification/Shell_Script.thy ===== *)
theory Shell_Script
  imports Shell_Command
begin

text \<open>
  Reading commands out of a parsed shell script (\<open>shell-command/src/bash.rs\<close>). A node of the tree
  has its kind, whether it is named, its text in the source, its first byte, whether the tree under
  it has an error, and its children; the walks of the code keep a stack, whose top is the head of a
  list here.

  The two readings agree: where a script is accepted as plain commands, its literal commands are
  the same, so a judgement of the literal commands has seen every segment judged alone.
\<close>

section \<open>Syntax trees\<close>

datatype SyntaxNode = SyntaxNode (node_kind: rstr) (node_named: bool) (node_text: "rstr option")
  (node_start: nat) (node_has_error: bool) (node_children: "SyntaxNode list")

definition named_children :: "SyntaxNode \<Rightarrow> SyntaxNode list" where
  "named_children n = filter node_named (node_children n)"

definition is_kind :: "string \<Rightarrow> SyntaxNode \<Rightarrow> bool" where
  "is_kind k n \<longleftrightarrow> node_kind n = lit k"

lemma named_children_set [simp]: "set (named_children n) = {c \<in> set (node_children n). node_named c}"
  by (simp add: named_children_def)

definition stack_size :: "SyntaxNode list \<Rightarrow> nat" where
  "stack_size stack = sum_list (map (\<lambda>n. Suc (size n)) stack)"

lemma stack_size_simps [simp]:
  "stack_size [] = 0"
  "stack_size (n # stack) = Suc (size n) + stack_size stack"
  "stack_size (s @ t) = stack_size s + stack_size t"
  "stack_size (rev s) = stack_size s"
  by (simp_all add: stack_size_def rev_map [symmetric] sum_list_rev)

lemma stack_size_filter: "stack_size (filter P s) \<le> stack_size s"
  by (induction s) simp_all

lemma size_node: "size n = Suc (stack_size (node_children n))"
proof -
  have "size_list size cs = stack_size cs" for cs :: "SyntaxNode list"
    by (induction cs) simp_all
  then show ?thesis by (cases n) simp
qed

lemma child_size: "c \<in> set (node_children n) \<Longrightarrow> size c < size n"
  by (auto simp: size_node [of n] dest!: split_list)

section \<open>Words\<close>

definition word_specials :: "rstr" where
  "word_specials = [123, 125, 42, 63, 91, 93, 92, 126, 94, 35, 36, 96]"

definition is_literal_word_or_number :: "SyntaxNode \<Rightarrow> bool" where
  "is_literal_word_or_number n \<longleftrightarrow>
     (is_kind ''word'' n \<or> is_kind ''number'' n)
     \<and> named_children n = []
     \<and> opt_is_some_and (\<lambda>word. \<not> starts_with [61] word \<and> \<not> list_ex (\<lambda>c. c \<in> set word_specials) word)
          (node_text n)"

definition escape_follows :: "rstr \<Rightarrow> bool" where
  "escape_follows s = list_ex (\<lambda>(a, b). a = 92 \<and> b \<in> {36, 96, 34, 92, 10}) (zip s (drop 1 s))"

definition strip_quotes :: "uchar \<Rightarrow> rstr \<Rightarrow> rstr option" where
  "strip_quotes q raw = Option.bind (strip_prefix [q] raw) (strip_suffix [q])"

definition parse_double_quoted_string :: "SyntaxNode \<Rightarrow> rstr option" where
  "parse_double_quoted_string n =
     (if \<not> is_kind ''string'' n \<or> list_ex (\<lambda>part. \<not> is_kind ''string_content'' part) (named_children n)
      then None
      else Option.bind (node_text n) (\<lambda>raw.
        Option.bind (strip_quotes 34 raw) (\<lambda>stripped.
          if escape_follows stripped then None else Some stripped)))"

definition parse_raw_string :: "SyntaxNode \<Rightarrow> rstr option" where
  "parse_raw_string n =
     (if \<not> is_kind ''raw_string'' n then None else Option.bind (node_text n) (strip_quotes 39))"

section \<open>Plain commands\<close>

definition ALLOWED_KINDS :: "rstr list" where
  "ALLOWED_KINDS = [lit ''program'', lit ''list'', lit ''pipeline'', lit ''command'',
     lit ''command_name'', lit ''word'', lit ''string'', lit ''string_content'', lit ''raw_string'',
     lit ''number'', lit ''concatenation'']"

definition ALLOWED_PUNCT_TOKENS :: "rstr list" where
  "ALLOWED_PUNCT_TOKENS = [[38, 38], [124, 124], [59], [124], [34], [39]]"

text \<open>Whether the walk goes on at a node.\<close>

definition plain_node_allowed :: "SyntaxNode \<Rightarrow> bool" where
  "plain_node_allowed n =
     (if node_named n then
        node_kind n \<in> set ALLOWED_KINDS
        \<and> \<not> ((is_kind ''word'' n \<or> is_kind ''number'' n) \<and> \<not> is_literal_word_or_number n)
      else
        \<not> (list_ex (\<lambda>c. c \<in> {38, 59, 124}) (node_kind n) \<and> node_kind n \<notin> set ALLOWED_PUNCT_TOKENS)
        \<and> (node_kind n \<in> set ALLOWED_PUNCT_TOKENS \<or> trim (node_kind n) = []))"

function walk_plain :: "SyntaxNode list \<Rightarrow> SyntaxNode list \<Rightarrow> SyntaxNode list option" where
  "walk_plain [] command_nodes = Some command_nodes"
| "walk_plain (n # stack) command_nodes =
     (if \<not> plain_node_allowed n then None
      else walk_plain (rev (node_children n) @ stack)
             (if node_named n \<and> is_kind ''command'' n then command_nodes @ [n] else command_nodes))"
  by pat_completeness auto

termination by (relation "measure (\<lambda>(stack, _). stack_size stack)") (auto simp: size_node)

definition plain_part :: "SyntaxNode \<Rightarrow> rstr option" where
  "plain_part part =
     (if is_kind ''word'' part \<or> is_kind ''number'' part then node_text part
      else if is_kind ''string'' part then parse_double_quoted_string part
      else if is_kind ''raw_string'' part then parse_raw_string part
      else None)"

definition plain_word :: "SyntaxNode \<Rightarrow> rstr option" where
  "plain_word child =
     (if is_kind ''command_name'' child then
        (case named_children child of
           [] \<Rightarrow> None
         | word_node # _ \<Rightarrow> (if \<not> is_kind ''word'' word_node then None else node_text word_node))
      else if is_kind ''concatenation'' child then
        Option.bind (map_option concat (those (map plain_part (named_children child)))) (\<lambda>concatenated.
          if concatenated = [] then None else Some concatenated)
      else plain_part child)"

definition parse_plain_command_from_node :: "SyntaxNode \<Rightarrow> rstr list option" where
  "parse_plain_command_from_node cmd =
     (if \<not> is_kind ''command'' cmd then None else those (map plain_word (named_children cmd)))"

definition try_parse_word_only_commands_sequence :: "SyntaxNode \<Rightarrow> rstr list list option" where
  "try_parse_word_only_commands_sequence root =
     (if node_has_error root then None
      else Option.bind (walk_plain [root] []) (\<lambda>command_nodes.
        those (map parse_plain_command_from_node (sort_key node_start command_nodes))))"

section \<open>Literal commands\<close>

function parse_literal_shell_word :: "SyntaxNode \<Rightarrow> rstr option" where
  "parse_literal_shell_word n =
     (if (is_kind ''word'' n \<or> is_kind ''number'' n) \<and> is_literal_word_or_number n then node_text n
      else if is_kind ''string'' n then parse_double_quoted_string n
      else if is_kind ''raw_string'' n then parse_raw_string n
      else if is_kind ''concatenation'' n then
        Option.bind (map_option concat (those (map parse_literal_shell_word (named_children n))))
          (\<lambda>concatenated. if concatenated = [] then None else Some concatenated)
      else None)"
  by pat_completeness auto

termination by (relation "measure size") (auto simp: child_size)

declare parse_literal_shell_word.simps [simp del]

text \<open>The children of a command, one after the other: the words so far, and whether the name has
  been found.\<close>

fun literal_words :: "SyntaxNode list \<Rightarrow> rstr list \<Rightarrow> bool \<Rightarrow> (rstr list \<times> bool) option" where
  "literal_words [] words found = Some (words, found)"
| "literal_words (child # rest) words found =
     (if is_kind ''command_name'' child then
        (case named_children child of
           [] \<Rightarrow> None
         | name # _ \<Rightarrow>
             (case parse_literal_shell_word name of
                None \<Rightarrow> None
              | Some w \<Rightarrow> literal_words rest (words @ [w]) True))
      else if found then
        (case parse_literal_shell_word child of
           Some w \<Rightarrow> literal_words rest (words @ [w]) found
         | None \<Rightarrow> literal_words rest words found)
      else literal_words rest words found)"

definition parse_literal_command_from_node :: "SyntaxNode \<Rightarrow> rstr list option" where
  "parse_literal_command_from_node cmd =
     (if \<not> is_kind ''command'' cmd then None
      else Option.bind (literal_words (named_children cmd) [] False) (\<lambda>(words, found).
        if found then Some words else None))"

function walk_literal :: "SyntaxNode list \<Rightarrow> rstr list list \<Rightarrow> rstr list list" where
  "walk_literal [] commands = commands"
| "walk_literal (n # stack) commands =
     walk_literal (rev (named_children n) @ stack)
       (case parse_literal_command_from_node n of None \<Rightarrow> commands | Some c \<Rightarrow> commands @ [c])"
  by pat_completeness auto

termination
  by (relation "measure (\<lambda>(stack, _). stack_size stack)")
     (auto simp: size_node named_children_def less_Suc_eq_le intro: le_trans [OF stack_size_filter])

section \<open>Scripts\<close>

text \<open>The grammar of tree-sitter, as a function from a source to its tree.\<close>

type_synonym shell_parser = "rstr \<Rightarrow> SyntaxNode option"

definition parse_shell_script_into_commands :: "shell_parser \<Rightarrow> rstr \<Rightarrow> rstr list list option" where
  "parse_shell_script_into_commands parse script =
     Option.bind (parse script) try_parse_word_only_commands_sequence"

definition parse_shell_lc_plain_commands :: "shell_parser \<Rightarrow> rstr list \<Rightarrow> rstr list list option" where
  "parse_shell_lc_plain_commands parse command =
     Option.bind (extract_bash_command command) (\<lambda>(_, script). parse_shell_script_into_commands parse script)"

definition parse_shell_lc_literal_commands :: "shell_parser \<Rightarrow> rstr list \<Rightarrow> rstr list list option" where
  "parse_shell_lc_literal_commands parse command =
     Option.bind (extract_bash_command command) (\<lambda>(_, script).
       Option.bind (parse script) (\<lambda>root.
         if node_has_error root then None else Some (walk_literal [root] [])))"


section \<open>The two readings\<close>

text \<open>A node and everything under it, the node first.\<close>

function subnodes :: "SyntaxNode \<Rightarrow> SyntaxNode list" where
  "subnodes n = n # concat (map subnodes (node_children n))"
  by pat_completeness auto

termination by (relation "measure size") (auto simp: child_size)

declare subnodes.simps [simp del]

text \<open>What the grammar promises of its trees: a token has no children, and a command with words has
  its name first, and one name.\<close>

definition shell_node_ok :: "SyntaxNode \<Rightarrow> bool" where
  "shell_node_ok n \<longleftrightarrow>
     (\<not> node_named n \<longrightarrow> node_children n = [])
     \<and> (is_kind ''command'' n \<longrightarrow>
          (case named_children n of
             [] \<Rightarrow> False
           | name # rest \<Rightarrow>
               is_kind ''command_name'' name \<and> list_all (\<lambda>c. \<not> is_kind ''command_name'' c) rest))"

definition shell_tree :: "SyntaxNode \<Rightarrow> bool" where
  "shell_tree root \<longleftrightarrow> list_all shell_node_ok (subnodes root)"

lemma those_map_Some: "those (map f xs) = Some ys \<longleftrightarrow> list_all2 (\<lambda>x y. f x = Some y) xs ys"
  by (induction xs arbitrary: ys) (auto simp: list_all2_Cons1 split: option.splits)

lemma subnodes_children: "concat (map subnodes (node_children n)) = tl (subnodes n)"
  by (simp add: subnodes.simps [of n])

lemma subnodes_self: "n \<in> set (subnodes n)"
  by (simp add: subnodes.simps [of n])

lemma subnodes_child: "c \<in> set (node_children n) \<Longrightarrow> set (subnodes c) \<subseteq> set (subnodes n)"
  by (auto simp: subnodes.simps [of n])

lemma subnodes_trans: "m \<in> set (subnodes n) \<Longrightarrow> set (subnodes m) \<subseteq> set (subnodes n)"
proof (induction n rule: subnodes.induct)
  case (1 n)
  show ?case
  proof (cases "m = n")
    case False
    with "1.prems" obtain c where "c \<in> set (node_children n)" "m \<in> set (subnodes c)"
      by (auto simp: subnodes.simps [of n])
    with "1.IH" subnodes_child show ?thesis by blast
  qed simp
qed

abbreviation all_subnodes :: "SyntaxNode list \<Rightarrow> SyntaxNode list" where
  "all_subnodes ns \<equiv> concat (map subnodes ns)"

lemma mset_concat_map: "mset (concat (map f xs)) = sum_list (map (\<lambda>x. mset (f x)) xs)"
  by (induction xs) simp_all

lemma mset_concat_rev: "mset (concat (map f (rev xs))) = mset (concat (map f xs))"
  by (induction xs) simp_all

lemma walk_plain_visits:
  "walk_plain stack acc = Some ns \<Longrightarrow>
     list_all plain_node_allowed (all_subnodes stack)
     \<and> mset ns = mset acc + mset (filter (\<lambda>n. node_named n \<and> is_kind ''command'' n) (all_subnodes stack))"
proof (induction stack acc rule: walk_plain.induct)
  case (2 n stack acc)
  let ?P = "\<lambda>n. node_named n \<and> is_kind ''command'' n"
  from "2.prems" have allowed: "plain_node_allowed n" by (auto split: if_splits)
  with 2 have IH: "list_all plain_node_allowed (all_subnodes (rev (node_children n) @ stack))"
    "mset ns = mset (if ?P n then acc @ [n] else acc)
       + mset (filter ?P (all_subnodes (rev (node_children n) @ stack)))"
    by (simp_all split: if_splits)
  have "mset (filter ?P (all_subnodes (rev (node_children n)))) = mset (filter ?P (all_subnodes (node_children n)))"
    by (simp add: mset_filter mset_concat_rev)
  with IH allowed show ?case
    by (auto simp: subnodes.simps [of n] list_all_iff)
qed simp

lemma named_subnodes:
  assumes "\<forall>m \<in> set (subnodes n). \<not> node_named m \<longrightarrow> node_children m = []" "node_named n"
  shows "filter node_named (subnodes n) = n # filter node_named (all_subnodes (named_children n))"
proof -
  have children: "filter node_named (all_subnodes cs) = filter node_named (all_subnodes (filter node_named cs))"
    if "set cs \<subseteq> set (node_children n)" for cs
    using that
  proof (induction cs)
    case (Cons c cs)
    have "filter node_named (subnodes c) = []" if "\<not> node_named c"
    proof -
      have "c \<in> set (subnodes n)" using Cons.prems subnodes_child subnodes_self by force
      with assms(1) that have "subnodes c = [c]" by (simp add: subnodes.simps [of c])
      with that show ?thesis by simp
    qed
    with Cons show ?case by simp
  qed simp
  have "filter node_named (subnodes n) = n # filter node_named (all_subnodes (node_children n))"
    using assms(2) by (simp add: subnodes.simps [of n])
  also have "filter node_named (all_subnodes (node_children n)) = filter node_named (all_subnodes (named_children n))"
    using children [of "node_children n"] by (simp only: named_children_def order.refl)
  finally show ?thesis .
qed

lemma map_filter_append: "List.map_filter f (xs @ ys) = List.map_filter f xs @ List.map_filter f ys"
  by (simp add: map_filter_def)

lemma walk_literal_visits:
  assumes "\<forall>n \<in> set stack. node_named n"
    "\<forall>m \<in> set (all_subnodes stack). \<not> node_named m \<longrightarrow> node_children m = []"
  shows "mset (walk_literal stack acc) =
    mset acc + mset (List.map_filter parse_literal_command_from_node (filter node_named (all_subnodes stack)))"
  using assms
proof (induction stack acc rule: walk_literal.induct)
  case (2 n stack acc)
  let ?f = parse_literal_command_from_node
  let ?N = "\<lambda>ns. List.map_filter ?f (filter node_named (all_subnodes ns))"
  have tree: "\<forall>m \<in> set (subnodes n). \<not> node_named m \<longrightarrow> node_children m = []" "node_named n"
    using "2.prems" by auto
  have sub: "set (all_subnodes (named_children n)) \<subseteq> set (subnodes n)"
    using subnodes_child by fastforce
  have named: "\<forall>m \<in> set (rev (named_children n) @ stack). node_named m" using "2.prems" by auto
  have leaves: "\<forall>m \<in> set (all_subnodes (rev (named_children n) @ stack)). \<not> node_named m \<longrightarrow> node_children m = []"
  proof
    fix m assume "m \<in> set (all_subnodes (rev (named_children n) @ stack))"
    then have "m \<in> set (all_subnodes (named_children n)) \<or> m \<in> set (all_subnodes stack)" by auto
    then have "m \<in> set (all_subnodes (n # stack))" using sub by auto
    then show "\<not> node_named m \<longrightarrow> node_children m = []" using "2.prems"(2) by blast
  qed
  have "mset (walk_literal (n # stack) acc) =
      mset (case ?f n of None \<Rightarrow> acc | Some c \<Rightarrow> acc @ [c]) + mset (?N (rev (named_children n) @ stack))"
    unfolding walk_literal.simps(2) by (rule "2.IH" [OF named leaves])
  also have "mset (?N (rev (named_children n) @ stack)) = mset (?N (named_children n)) + mset (?N stack)"
    by (simp add: map_filter_def mset_concat_rev mset_filter mset_map)
  finally show ?case
    by (simp add: named_subnodes [OF tree] map_filter_simps map_filter_append split: option.split)
qed (simp add: map_filter_simps)


lemma lit_inject: "lit k = lit l \<longleftrightarrow> k = l"
  by (simp add: lit_def inj_map_eq_map [OF inj_of_char])

lemma is_kind_unique: "is_kind k n \<Longrightarrow> is_kind l n \<longleftrightarrow> k = l"
  by (auto simp: is_kind_def lit_inject)

lemma allowed_word:
  "plain_node_allowed n \<Longrightarrow> node_named n \<Longrightarrow> is_kind ''word'' n \<or> is_kind ''number'' n \<Longrightarrow>
     parse_literal_shell_word n = node_text n"
  by (auto simp: plain_node_allowed_def parse_literal_shell_word.simps)

lemma plain_part_literal:
  assumes "plain_node_allowed part" "node_named part" "plain_part part = Some w"
  shows "parse_literal_shell_word part = Some w"
proof (cases "is_kind ''word'' part \<or> is_kind ''number'' part")
  case True
  with assms show ?thesis by (simp add: plain_part_def allowed_word)
next
  case False
  with assms(3) show ?thesis
    by (auto simp: plain_part_def parse_literal_shell_word.simps [of part] split: if_splits)
qed

lemma plain_word_literal:
  assumes "\<forall>c \<in> set (subnodes child). plain_node_allowed c" "node_named child"
    "\<not> is_kind ''command_name'' child" "plain_word child = Some w"
  shows "parse_literal_shell_word child = Some w"
proof (cases "is_kind ''concatenation'' child")
  case True
  with assms(3,4) obtain ws where ws: "list_all2 (\<lambda>part w. plain_part part = Some w) (named_children child) ws"
    and w: "w = concat ws" "w \<noteq> []"
    by (auto simp: plain_word_def those_map_Some bind_eq_Some_conv split: if_splits)
  from ws have "list_all2 (\<lambda>part w. parse_literal_shell_word part = Some w) (named_children child) ws"
  proof (rule list.rel_mono_strong)
    fix part w assume part: "part \<in> set (named_children child)" "plain_part part = Some w"
    then have "part \<in> set (subnodes child)" using subnodes_child subnodes_self by fastforce
    with part assms(1) show "parse_literal_shell_word part = Some w" by (auto intro: plain_part_literal)
  qed
  then have "those (map parse_literal_shell_word (named_children child)) = Some ws"
    by (simp add: those_map_Some)
  with True w show ?thesis
    by (simp add: parse_literal_shell_word.simps [of child] is_kind_unique)
next
  case False
  with assms show ?thesis
    using subnodes_self by (auto simp: plain_word_def intro: plain_part_literal)
qed

lemma literal_words_found:
  "list_all2 (\<lambda>c w. \<not> is_kind ''command_name'' c \<and> parse_literal_shell_word c = Some w) cs ws \<Longrightarrow>
     literal_words cs words True = Some (words @ ws, True)"
  by (induction cs ws arbitrary: words rule: list_all2_induct) simp_all

lemma list_all2_left_some: "list_all2 P xs ys \<Longrightarrow> x \<in> set xs \<Longrightarrow> \<exists>y. P x y"
  by (induction rule: list_all2_induct) auto

lemma plain_command_literal:
  assumes allowed: "\<forall>c \<in> set (subnodes cmd). plain_node_allowed c"
    and ok: "shell_node_ok cmd" "is_kind ''command'' cmd"
    and plain: "parse_plain_command_from_node cmd = Some words"
  shows "parse_literal_command_from_node cmd = Some words"
proof -
  from ok obtain name rest where children: "named_children cmd = name # rest"
    and name: "is_kind ''command_name'' name" and rest: "\<forall>c \<in> set rest. \<not> is_kind ''command_name'' c"
    by (auto simp: shell_node_ok_def list_all_iff split: list.splits)
  have named: "node_named c \<and> (\<forall>m \<in> set (subnodes c). plain_node_allowed m)"
    if "c \<in> set (name # rest)" for c
  proof -
    from that have "c \<in> set (named_children cmd)" by (simp add: children)
    with allowed subnodes_child show ?thesis by fastforce
  qed
  from plain children obtain w ws where w: "plain_word name = Some w"
    and ws: "list_all2 (\<lambda>c w. plain_word c = Some w) rest ws" and words: "words = w # ws"
    by (auto simp: parse_plain_command_from_node_def those_map_Some split: if_splits option.splits)
  from w name obtain word more where word: "named_children name = word # more" "is_kind ''word'' word"
    "node_text word = Some w"
    by (auto simp: plain_word_def split: list.splits if_splits)
  then have "word \<in> set (named_children name)" by simp
  then have "node_named word" "word \<in> set (subnodes name)" using subnodes_child subnodes_self by fastforce+
  with named [of name] word have first: "parse_literal_shell_word word = Some w"
    by (simp add: allowed_word)
  have "list_all2 (\<lambda>c w. \<not> is_kind ''command_name'' c \<and> parse_literal_shell_word c = Some w) rest ws"
    using ws
  proof (rule list.rel_mono_strong)
    fix c w assume c: "c \<in> set rest" "plain_word c = Some w"
    with named [of c] rest show "\<not> is_kind ''command_name'' c \<and> parse_literal_shell_word c = Some w"
      by (simp add: plain_word_literal)
  qed
  then show ?thesis
    using ok(2) name word(1) first children words
    by (simp add: parse_literal_command_from_node_def literal_words_found)
qed

text \<open>A script accepted as plain commands has exactly these literal commands, in some order.\<close>

lemma plain_commands_are_literal:
  assumes tree: "shell_tree root" "node_named root"
    and plain: "try_parse_word_only_commands_sequence root = Some commands"
  shows "mset (walk_literal [root] []) = mset commands"
proof -
  from plain obtain ns where walk: "walk_plain [root] [] = Some ns"
    and cmds: "list_all2 (\<lambda>n c. parse_plain_command_from_node n = Some c) (sort_key node_start ns) commands"
    by (auto simp: try_parse_word_only_commands_sequence_def those_map_Some bind_eq_Some_conv split: if_splits)
  let ?P = "\<lambda>n. node_named n \<and> is_kind ''command'' n" and ?f = parse_literal_command_from_node
  have allowed: "\<forall>n \<in> set (subnodes root). plain_node_allowed n"
    and ns: "mset ns = mset (filter ?P (subnodes root))"
    using walk_plain_visits [OF walk] by (simp_all add: list_all_iff)
  have node: "?f n = parse_plain_command_from_node n" if "n \<in> set ns" for n
  proof -
    have "n \<in> set (filter ?P (subnodes root))" using that ns by (metis set_mset_mset)
    then have n: "n \<in> set (subnodes root)" "is_kind ''command'' n" by auto
    have "n \<in> set (sort_key node_start ns)" using that by simp
    then obtain c where "parse_plain_command_from_node n = Some c"
      using list_all2_left_some [OF cmds] by blast
    moreover from this have "?f n = Some c"
      using n allowed subnodes_trans [OF n(1)] tree(1)
      by (intro plain_command_literal) (auto simp: shell_tree_def list_all_iff)
    ultimately show ?thesis by simp
  qed
  have "mset (walk_literal [root] []) = mset (List.map_filter ?f (filter node_named (subnodes root)))"
    using tree by (subst walk_literal_visits) (auto simp: shell_tree_def shell_node_ok_def list_all_iff)
  also have "List.map_filter ?f (filter node_named (subnodes root)) = List.map_filter ?f (filter ?P (subnodes root))"
    by (induction "subnodes root" rule: list.induct)
       (auto simp: map_filter_simps parse_literal_command_from_node_def map_filter_def filter_filter)
  also have "mset \<dots> = mset (List.map_filter ?f (sort_key node_start ns))"
    using ns by (simp add: map_filter_def mset_filter mset_map del: filter_filter)
  also have "List.map_filter ?f (sort_key node_start ns) = commands"
    using cmds node
  proof -
    have "list_all2 (\<lambda>n c. ?f n = Some c) (sort_key node_start ns) commands"
      using cmds by (rule list.rel_mono_strong) (simp add: node)
    then show ?thesis by (induction rule: list_all2_induct) (simp_all add: map_filter_simps)
  qed
  finally show ?thesis .
qed

end
