(* ===== verification/Windows_Command.thy ===== *)
theory Windows_Command
  imports Rust_Prelude Shell_Command
begin

text \<open>
  Dangerous commands of Windows shells
  (\<open>shell-command/src/command_safety/windows_dangerous_commands.rs\<close>): PowerShell and CMD scripts that
  open a URL or delete by force. Splitting a command line into words and parsing a URL are crates
  outside the repository and arguments here; the regular expression that finds a URL in a token is
  written out.
\<close>

record command_parsers =
  split_words :: "rstr \<Rightarrow> rstr list option"
  url_scheme :: "rstr \<Rightarrow> rstr option"

section \<open>Strings\<close>

fun find_map :: "('a \<Rightarrow> 'b option) \<Rightarrow> 'a list \<Rightarrow> 'b option" where
  "find_map f [] = None"
| "find_map f (x # xs) = (case f x of Some y \<Rightarrow> Some y | None \<Rightarrow> find_map f xs)"

definition trim_matches :: "uchar \<Rightarrow> rstr \<Rightarrow> rstr" where
  "trim_matches c s = trim_end_matches (\<lambda>x. x = c) (dropWhile (\<lambda>x. x = c) s)"

text \<open>\<open>str::split\<close> at the characters of a set, and \<open>slice::split\<close>.\<close>

fun split_where :: "('a \<Rightarrow> bool) \<Rightarrow> 'a list \<Rightarrow> 'a list list" where
  "split_where P [] = [[]]"
| "split_where P (x # xs) =
     (if P x then [] # split_where P xs
      else (case split_where P xs of [] \<Rightarrow> [[x]] | p # ps \<Rightarrow> (x # p) # ps))"

definition one_of :: "string list \<Rightarrow> rstr \<Rightarrow> bool" where
  "one_of names s \<longleftrightarrow> s \<in> set (map lit names)"

text \<open>The name of a file at the end of a path with either separator, without a drive.\<close>

definition windows_file_name :: "rstr \<Rightarrow> rstr option" where
  "windows_file_name path =
     (let name = last (split_where (\<lambda>c. c = 47 \<or> c = 92) path)
      in if name = [] then None
         else Some (case name of
             drive # colon # rest \<Rightarrow> (if is_ascii_alphabetic drive \<and> colon = 58 then rest else name)
           | _ \<Rightarrow> name))"

definition executable_basename :: "rstr \<Rightarrow> rstr option" where
  "executable_basename exe =
     Option.bind (windows_file_name exe) (\<lambda>name. if name = [] then None else Some (to_ascii_lowercase name))"

definition is_powershell_executable :: "rstr \<Rightarrow> bool" where
  "is_powershell_executable exe \<longleftrightarrow>
     opt_is_some_and (one_of [''powershell'', ''powershell.exe'', ''pwsh'', ''pwsh.exe'']) (executable_basename exe)"

definition is_browser_executable :: "rstr \<Rightarrow> bool" where
  "is_browser_executable name \<longleftrightarrow>
     one_of [''chrome'', ''chrome.exe'', ''msedge'', ''msedge.exe'', ''firefox'', ''firefox.exe'',
       ''iexplore'', ''iexplore.exe''] name"

section \<open>URLs\<close>

text \<open>
  The capture of \<open>^[ "'\(\s]*([^\s"'\);]+)[\s;\)]*$\<close>: the longest beginning that leaves a match,
  then all characters the capture may hold, since none of them may follow it.
\<close>

definition url_captured :: "uchar \<Rightarrow> bool" where
  "url_captured c \<longleftrightarrow> \<not> (is_whitespace c \<or> c = 34 \<or> c = 39 \<or> c = 41 \<or> c = 59)"

definition url_capture :: "rstr \<Rightarrow> rstr option" where
  "url_capture s =
     (let skipped = length (takeWhile (\<lambda>c. is_whitespace c \<or> c = 34 \<or> c = 39 \<or> c = 40) s)
      in find_map (\<lambda>i. let word = takeWhile url_captured (drop i s);
                            rest = dropWhile url_captured (drop i s)
            in if word \<noteq> [] \<and> list_all (\<lambda>c. is_whitespace c \<or> c = 59 \<or> c = 41) rest then Some word else None)
          (rev [0..<Suc skipped]))"

definition looks_like_url :: "command_parsers \<Rightarrow> rstr \<Rightarrow> bool" where
  "looks_like_url env token =
     (let lowercase_token = to_ascii_lowercase token;
          urlish = (case str_find (lit ''https://'') lowercase_token of
              Some idx \<Rightarrow> drop idx token
            | None \<Rightarrow> (case str_find (lit ''http://'') lowercase_token of Some idx \<Rightarrow> drop idx token | None \<Rightarrow> token));
          candidate = (case url_capture urlish of Some m \<Rightarrow> m | None \<Rightarrow> urlish)
      in opt_is_some_and (one_of [''http'', ''https'']) (url_scheme env candidate))"

definition args_have_url :: "command_parsers \<Rightarrow> rstr list \<Rightarrow> bool" where
  "args_have_url env args = list_ex (looks_like_url env) args"

section \<open>PowerShell\<close>

definition DELETE_CMDLETS :: "rstr list" where
  "DELETE_CMDLETS = map lit [''remove-item'', ''ri'', ''rm'', ''del'', ''erase'', ''rd'', ''rmdir'']"

definition SEG_SEPS :: "uchar list" where
  "SEG_SEPS = [59, 124, 38, 10, 13, 9]"

definition SOFT_SEPS :: "uchar list" where
  "SOFT_SEPS = [123, 125, 40, 41, 91, 93, 44, 59]"

definition push_word :: "rstr \<Rightarrow> rstr list list \<Rightarrow> rstr list list" where
  "push_word s segments = (if s = [] then segments else butlast segments @ [last segments @ [s]])"

text \<open>The characters of a token, with the word so far.\<close>

fun segment_chars :: "rstr \<Rightarrow> rstr \<Rightarrow> rstr list list \<Rightarrow> rstr list list" where
  "segment_chars [] cur segments = push_word (trim cur) segments"
| "segment_chars (ch # chars) cur segments =
     (if ch \<in> set SEG_SEPS then
        (let segments = push_word (trim cur) segments
         in segment_chars chars [] (if last segments \<noteq> [] then segments @ [[]] else segments))
      else segment_chars chars (cur @ [ch]) segments)"

definition has_force_delete_cmdlet :: "rstr list \<Rightarrow> bool" where
  "has_force_delete_cmdlet tokens =
     list_ex (\<lambda>seg.
       let atoms = filter (\<lambda>s. s \<noteq> []) (map trim (concat (map (split_where (\<lambda>c. c \<in> set SOFT_SEPS)) seg)))
       in list_ex (\<lambda>a. list_ex (eq_ignore_ascii_case a) DELETE_CMDLETS) atoms
          \<and> list_ex (\<lambda>a. eq_ignore_ascii_case a (lit ''-force'')
                \<or> 7 \<le> length a \<and> eq_ignore_ascii_case (take 7 a) (lit ''-force:'')) atoms)
       (fold (\<lambda>tok. segment_chars tok []) tokens [[]])"

definition is_dangerous_powershell_words :: "command_parsers \<Rightarrow> rstr list \<Rightarrow> bool" where
  "is_dangerous_powershell_words env words =
     (let tokens_lc = map (\<lambda>t. to_ascii_lowercase (trim_matches 34 (trim_matches 39 t))) words;
          has_url = args_have_url env words
      in (has_url \<and> list_ex (\<lambda>t. one_of [''start-process'', ''start'', ''saps'', ''invoke-item'', ''ii''] t
              \<or> contains (lit ''start-process'') t \<or> contains (lit ''invoke-item'') t) tokens_lc)
         \<or> (has_url \<and> list_ex (\<lambda>t. contains (lit ''shellexecute'') t \<or> contains (lit ''shell.application'') t) tokens_lc)
         \<or> (case tokens_lc of [] \<Rightarrow> False
            | first # _ \<Rightarrow>
                (first = lit ''rundll32'' \<and> list_ex (contains (lit ''url.dll,fileprotocolhandler'')) tokens_lc \<and> has_url)
                \<or> (first = lit ''mshta'' \<and> has_url)
                \<or> (is_browser_executable first \<and> has_url)
                \<or> (one_of [''explorer'', ''explorer.exe''] first \<and> has_url))
         \<or> has_force_delete_cmdlet tokens_lc)"

fun parse_powershell_invocation :: "command_parsers \<Rightarrow> rstr list \<Rightarrow> rstr list option" where
  "parse_powershell_invocation env [] = None"
| "parse_powershell_invocation env (arg # rest) =
     (let lower = to_ascii_lowercase arg
      in if one_of [''-command'', ''/command'', ''-c''] lower then
           (case rest of [script] \<Rightarrow> split_words env script | _ \<Rightarrow> None)
         else if starts_with (lit ''-command:'') lower \<or> starts_with (lit ''/command:'') lower then
           (if rest \<noteq> [] then None
            else Option.bind (split_once [58] arg) (\<lambda>(_, script). split_words env script))
         else if one_of [''-nologo'', ''-noprofile'', ''-noninteractive'', ''-mta'', ''-sta''] lower
         then parse_powershell_invocation env rest
         else if starts_with [45] lower then parse_powershell_invocation env rest
         else Some (arg # rest))"

definition is_dangerous_powershell :: "command_parsers \<Rightarrow> rstr list \<Rightarrow> bool" where
  "is_dangerous_powershell env command =
     (case command of [] \<Rightarrow> False
      | exe # rest \<Rightarrow>
          is_powershell_executable exe
          \<and> opt_is_some_and (is_dangerous_powershell_words env) (parse_powershell_invocation env rest))"

section \<open>CMD\<close>

text \<open>The tokens after the flag that introduces the command.\<close>

fun cmd_body :: "rstr list \<Rightarrow> rstr list option" where
  "cmd_body [] = Some []"
| "cmd_body (arg # rest) =
     (let lower = to_ascii_lowercase arg
      in if one_of [''/c'', ''/r'', ''-c''] lower then Some rest
         else if starts_with [47] lower then cmd_body rest
         else None)"

definition flush_part :: "rstr \<Rightarrow> rstr list" where
  "flush_part cur = (if cur = [] then [] else [cur])"

text \<open>The parts of a token, with the characters since the last operator.\<close>

fun cmd_operator_parts :: "rstr \<Rightarrow> rstr \<Rightarrow> rstr list" where
  "cmd_operator_parts cur [] = flush_part cur"
| "cmd_operator_parts cur [ch] =
     (if ch = 38 \<or> ch = 124 then flush_part cur @ [[ch]] else flush_part (cur @ [ch]))"
| "cmd_operator_parts cur (ch # next_ch # rest) =
     (if ch = 38 \<or> ch = 124 then
        (if next_ch = ch then flush_part cur @ [[ch, next_ch]] @ cmd_operator_parts [] rest
         else flush_part cur @ [[ch]] @ cmd_operator_parts [] (next_ch # rest))
      else cmd_operator_parts (cur @ [ch]) (next_ch # rest))"

definition split_embedded_cmd_operators :: "rstr \<Rightarrow> rstr list" where
  "split_embedded_cmd_operators token = filter (\<lambda>s. trim s \<noteq> []) (cmd_operator_parts [] token)"

definition has_flag_cmd :: "string \<Rightarrow> rstr list \<Rightarrow> bool" where
  "has_flag_cmd flag args = list_ex (\<lambda>a. eq_ignore_ascii_case a (lit flag)) args"

definition is_dangerous_cmd_segment :: "command_parsers \<Rightarrow> rstr list \<Rightarrow> bool" where
  "is_dangerous_cmd_segment env segment =
     (case segment of [] \<Rightarrow> False
      | cmd # _ \<Rightarrow>
          (eq_ignore_ascii_case cmd (lit ''start'') \<and> args_have_url env segment)
          \<or> ((eq_ignore_ascii_case cmd (lit ''del'') \<or> eq_ignore_ascii_case cmd (lit ''erase''))
              \<and> has_flag_cmd ''/f'' segment)
          \<or> ((eq_ignore_ascii_case cmd (lit ''rd'') \<or> eq_ignore_ascii_case cmd (lit ''rmdir''))
              \<and> has_flag_cmd ''/s'' segment \<and> has_flag_cmd ''/q'' segment))"

definition cmd_tokens :: "command_parsers \<Rightarrow> rstr list \<Rightarrow> rstr list" where
  "cmd_tokens env remaining =
     (case remaining of
        [only] \<Rightarrow> (case split_words env only of Some tokens \<Rightarrow> tokens | None \<Rightarrow> [only])
      | _ \<Rightarrow> remaining)"

definition is_dangerous_cmd :: "command_parsers \<Rightarrow> rstr list \<Rightarrow> bool" where
  "is_dangerous_cmd env command =
     (case command of [] \<Rightarrow> False
      | exe # rest \<Rightarrow>
          opt_is_some_and (one_of [''cmd'', ''cmd.exe'']) (executable_basename exe)
          \<and> (case cmd_body rest of None \<Rightarrow> False
             | Some remaining \<Rightarrow>
                 remaining \<noteq> []
                 \<and> list_ex (is_dangerous_cmd_segment env)
                     (split_where (one_of [''&'', ''&&'', ''|'', ''||''])
                       (concat (map split_embedded_cmd_operators (cmd_tokens env remaining))))))"

section \<open>Direct launches\<close>

definition is_direct_gui_launch :: "command_parsers \<Rightarrow> rstr list \<Rightarrow> bool" where
  "is_direct_gui_launch env command =
     (case command of [] \<Rightarrow> False
      | exe # rest \<Rightarrow>
          (case executable_basename exe of None \<Rightarrow> False
           | Some base \<Rightarrow>
               (one_of [''explorer'', ''explorer.exe''] base \<and> args_have_url env rest)
               \<or> (one_of [''mshta'', ''mshta.exe''] base \<and> args_have_url env rest)
               \<or> (one_of [''rundll32'', ''rundll32.exe''] base
                   \<and> list_ex (\<lambda>t. contains (lit ''url.dll,fileprotocolhandler'') (to_ascii_lowercase t)) rest
                   \<and> args_have_url env rest)
               \<or> (is_browser_executable base \<and> args_have_url env rest)))"

definition is_dangerous_command_windows :: "command_parsers \<Rightarrow> rstr list \<Rightarrow> bool" where
  "is_dangerous_command_windows env command \<longleftrightarrow>
     is_dangerous_powershell env command \<or> is_dangerous_cmd env command \<or> is_direct_gui_launch env command"

section \<open>Lemmas\<close>

text \<open>Splitting a token at its operators loses no character.\<close>

lemma cmd_operator_parts_concat: "concat (cmd_operator_parts cur token) = cur @ token"
  by (induction cur token rule: cmd_operator_parts.induct) (auto simp: flush_part_def)

lemma find_map_Some_iff_ex: "find_map f xs \<noteq> None \<longleftrightarrow> (\<exists>x \<in> set xs. f x \<noteq> None)"
  by (induction xs) (auto split: option.split)

lemma find_map_None: "find_map f xs = None \<longleftrightarrow> (\<forall>x \<in> set xs. f x = None)"
  by (induction xs) (auto split: option.split)

lemma find_map_Some: "find_map f xs = Some y \<Longrightarrow> \<exists>x \<in> set xs. f x = Some y"
  by (induction xs) (auto split: option.splits)

end
