(* ===== verification/Dangerous_Command.thy ===== *)
theory Dangerous_Command
  imports Shell_Script Windows_Command
begin

text \<open>
  The classifier of dangerous commands (\<open>shell-command/src/command_safety/is_dangerous_command.rs\<close>).
  It looks through the commands that run another command, \<open>sudo\<close>, \<open>env\<close>, \<open>trap\<close> and a shell with a
  script, up to a depth, and calls a deeper nesting dangerous.

  The four functions of the code call each other; here those that look through one wrapper take the
  call at the next depth as an argument. What the classifier computes is stated with the relation
  between a command and the commands it runs.
\<close>

datatype DangerousCommandPlatform = Posix | Windows

datatype DangerousCommandMatch = ForcedRm | OtherDanger

record command_env = command_parsers +
  parse_shell :: shell_parser

definition MAX_DANGEROUS_COMMAND_WRAPPER_DEPTH :: nat where
  "MAX_DANGEROUS_COMMAND_WRAPPER_DEPTH = 8"

definition executable_name_lookup_key :: "rstr \<Rightarrow> DangerousCommandPlatform \<Rightarrow> rstr option" where
  "executable_name_lookup_key raw platform =
     (case platform of
        Posix \<Rightarrow> (let name = last (split_char 47 raw) in if name = [] then None else Some name)
      | Windows \<Rightarrow>
          Option.bind (windows_file_name raw) (\<lambda>name.
            let name = to_ascii_lowercase name
            in case find_map (\<lambda>suffix. strip_suffix suffix name) [lit ''.exe'', lit ''.cmd'', lit ''.bat'', lit ''.com''] of
                 Some stripped \<Rightarrow> Some stripped
               | None \<Rightarrow> if name = [] then None else Some name))"

definition rm_args_include_force_option :: "rstr list \<Rightarrow> bool" where
  "rm_args_include_force_option args =
     list_ex (\<lambda>arg. arg = lit ''--force''
         \<or> opt_is_some_and (\<lambda>flags. \<not> starts_with [45] flags \<and> 102 \<in> set flags) (strip_prefix [45] arg))
       (takeWhile (\<lambda>arg. arg \<noteq> lit ''--'') args)"

text \<open>An argument \<open>env\<close> takes for itself: an option or an assignment.\<close>

definition is_env_argument :: "rstr \<Rightarrow> bool" where
  "is_env_argument argument \<longleftrightarrow>
     one_of [''-i'', ''--ignore-environment''] argument
     \<or> opt_is_some_and (\<lambda>(name, _). name \<noteq> [] \<and> \<not> starts_with [45] name) (split_once [61] argument)"

text \<open>The command \<open>env\<close> runs, from its arguments.\<close>

fun skip_env_arguments :: "rstr list \<Rightarrow> rstr list" where
  "skip_env_arguments [] = []"
| "skip_env_arguments (argument # rest) =
     (if argument = lit ''--'' then rest
      else if is_env_argument argument then skip_env_arguments rest
      else argument # rest)"

definition dangerous_command_match_for_env ::
  "(rstr list \<Rightarrow> DangerousCommandMatch option) \<Rightarrow> rstr list \<Rightarrow> DangerousCommandMatch option" where
  "dangerous_command_match_for_env deeper command = deeper (skip_env_arguments (tl command))"

definition trap_action :: "rstr list \<Rightarrow> rstr option" where
  "trap_action command =
     (let operands = tl command;
          operands = (if operands \<noteq> [] \<and> hd operands = lit ''--'' then tl operands else operands)
      in case operands of [] \<Rightarrow> None | action # _ \<Rightarrow> if starts_with [45] action then None else Some action)"

definition dangerous_command_match_for_trap ::
  "(rstr list \<Rightarrow> DangerousCommandMatch option) \<Rightarrow> rstr list \<Rightarrow> DangerousCommandMatch option" where
  "dangerous_command_match_for_trap deeper command =
     Option.bind (trap_action command) (\<lambda>action. deeper [lit ''sh'', lit ''-c'', action])"

definition command_key :: "rstr list \<Rightarrow> DangerousCommandPlatform \<Rightarrow> rstr option" where
  "command_key command platform =
     (case command of [] \<Rightarrow> None | first # _ \<Rightarrow> executable_name_lookup_key first platform)"

definition dangerous_command_match_for_exec ::
  "(rstr list \<Rightarrow> DangerousCommandMatch option) \<Rightarrow> rstr list \<Rightarrow> DangerousCommandPlatform
     \<Rightarrow> DangerousCommandMatch option" where
  "dangerous_command_match_for_exec deeper command platform =
     (let cmd0 = command_key command platform
      in if cmd0 = Some (lit ''rm'') \<and> rm_args_include_force_option (tl command) then Some ForcedRm
         else if cmd0 = Some (lit ''sudo'') then deeper (tl command)
         else if cmd0 = Some (lit ''env'') then dangerous_command_match_for_env deeper command
         else if cmd0 = Some (lit ''trap'') then dangerous_command_match_for_trap deeper command
         else None)"

function dangerous_command_match_with_depth ::
  "'z command_env_scheme \<Rightarrow> DangerousCommandPlatform \<Rightarrow> nat \<Rightarrow> rstr list \<Rightarrow> DangerousCommandMatch option" where
  "dangerous_command_match_with_depth env platform wrapper_depth command =
     (if wrapper_depth > MAX_DANGEROUS_COMMAND_WRAPPER_DEPTH then Some OtherDanger
      else case dangerous_command_match_for_exec
             (\<lambda>c. dangerous_command_match_with_depth env platform (wrapper_depth + 1) c) command platform of
          Some m \<Rightarrow> Some m
        | None \<Rightarrow>
            (case Option.bind (parse_shell_lc_literal_commands (parse_shell env) command)
                 (find_map (\<lambda>c. dangerous_command_match_with_depth env platform (wrapper_depth + 1) c)) of
               Some m \<Rightarrow> Some m
             | None \<Rightarrow>
                 if platform = Windows \<and> is_dangerous_command_windows (command_parsers.truncate env) command
                 then Some OtherDanger else None))"
  by pat_completeness auto

termination
  by (relation "measure (\<lambda>(_, _, d, _). Suc MAX_DANGEROUS_COMMAND_WRAPPER_DEPTH - d)") auto

declare dangerous_command_match_with_depth.simps [simp del]

definition dangerous_command_match_for_platform ::
  "'z command_env_scheme \<Rightarrow> rstr list \<Rightarrow> DangerousCommandPlatform \<Rightarrow> DangerousCommandMatch option" where
  "dangerous_command_match_for_platform env command platform =
     dangerous_command_match_with_depth env platform 0 command"

definition dangerous_powershell_words_match ::
  "'z command_env_scheme \<Rightarrow> rstr list \<Rightarrow> DangerousCommandPlatform \<Rightarrow> DangerousCommandMatch option" where
  "dangerous_powershell_words_match env command platform =
     (if platform = Windows then
        (if is_dangerous_powershell_words (command_parsers.truncate env) command then Some OtherDanger else None)
      else None)"

section \<open>What the classifier computes\<close>

text \<open>The commands a command runs, as far as the classifier knows.\<close>

inductive runs ::
  "'z command_env_scheme \<Rightarrow> DangerousCommandPlatform \<Rightarrow> rstr list \<Rightarrow> rstr list \<Rightarrow> bool"
  for env platform where
  runs_sudo: "command_key w platform = Some (lit ''sudo'') \<Longrightarrow> runs env platform w (tl w)"
| runs_env: "command_key w platform = Some (lit ''env'') \<Longrightarrow>
    runs env platform w (skip_env_arguments (tl w))"
| runs_trap: "command_key w platform = Some (lit ''trap'') \<Longrightarrow> trap_action w = Some action \<Longrightarrow>
    runs env platform w [lit ''sh'', lit ''-c'', action]"
| runs_script: "parse_shell_lc_literal_commands (parse_shell env) w = Some cs \<Longrightarrow> c \<in> set cs \<Longrightarrow>
    runs env platform w c"

definition is_forced_rm :: "DangerousCommandPlatform \<Rightarrow> rstr list \<Rightarrow> bool" where
  "is_forced_rm platform c \<longleftrightarrow>
     command_key c platform = Some (lit ''rm'') \<and> rm_args_include_force_option (tl c)"

text \<open>Dangerous without looking at what it runs.\<close>

definition dangerous_itself :: "'z command_env_scheme \<Rightarrow> DangerousCommandPlatform \<Rightarrow> rstr list \<Rightarrow> bool" where
  "dangerous_itself env platform c \<longleftrightarrow>
     is_forced_rm platform c
     \<or> platform = Windows \<and> is_dangerous_command_windows (command_parsers.truncate env) c"

abbreviation flagged ::
  "'z command_env_scheme \<Rightarrow> DangerousCommandPlatform \<Rightarrow> nat \<Rightarrow> rstr list \<Rightarrow> bool" where
  "flagged env platform d c \<equiv> dangerous_command_match_with_depth env platform d c \<noteq> None"

lemma match_for_exec_None:
  "dangerous_command_match_for_exec deeper w platform \<noteq> None \<longleftrightarrow>
     is_forced_rm platform w
     \<or> (command_key w platform = Some (lit ''sudo'') \<and> deeper (tl w) \<noteq> None)
     \<or> (command_key w platform = Some (lit ''env'') \<and> deeper (skip_env_arguments (tl w)) \<noteq> None)
     \<or> (command_key w platform = Some (lit ''trap'')
          \<and> (\<exists>action. trap_action w = Some action \<and> deeper [lit ''sh'', lit ''-c'', action] \<noteq> None))"
  by (auto simp: dangerous_command_match_for_exec_def dangerous_command_match_for_env_def Let_def
      dangerous_command_match_for_trap_def is_forced_rm_def lit_inject bind_eq_Some_conv)

lemma flagged_too_deep: "d > MAX_DANGEROUS_COMMAND_WRAPPER_DEPTH \<Longrightarrow>
    dangerous_command_match_with_depth env platform d w = Some OtherDanger"
  by (simp add: dangerous_command_match_with_depth.simps)

lemma flagged_step:
  assumes "d \<le> MAX_DANGEROUS_COMMAND_WRAPPER_DEPTH"
  shows "flagged env platform d w \<longleftrightarrow>
    dangerous_itself env platform w \<or> (\<exists>c. runs env platform w c \<and> flagged env platform (Suc d) c)"
proof -
  let ?deeper = "\<lambda>c. dangerous_command_match_with_depth env platform (Suc d) c"
  have script: "Option.bind (parse_shell_lc_literal_commands (parse_shell env) w) (find_map ?deeper) \<noteq> None \<longleftrightarrow>
      (\<exists>cs c. parse_shell_lc_literal_commands (parse_shell env) w = Some cs \<and> c \<in> set cs \<and> ?deeper c \<noteq> None)"
    by (cases "parse_shell_lc_literal_commands (parse_shell env) w")
       (simp_all add: find_map_Some_iff_ex del: not_None_eq, blast)
  have "flagged env platform d w \<longleftrightarrow>
      dangerous_command_match_for_exec ?deeper w platform \<noteq> None
      \<or> Option.bind (parse_shell_lc_literal_commands (parse_shell env) w) (find_map ?deeper) \<noteq> None
      \<or> platform = Windows \<and> is_dangerous_command_windows (command_parsers.truncate env) w"
    using assms
    by (subst dangerous_command_match_with_depth.simps) (simp split: option.split del: bind_eq_None_conv)
  moreover have "(\<exists>c. runs env platform w c \<and> ?deeper c \<noteq> None) \<longleftrightarrow>
      (command_key w platform = Some (lit ''sudo'') \<and> ?deeper (tl w) \<noteq> None)
      \<or> (command_key w platform = Some (lit ''env'') \<and> ?deeper (skip_env_arguments (tl w)) \<noteq> None)
      \<or> (command_key w platform = Some (lit ''trap'')
           \<and> (\<exists>action. trap_action w = Some action \<and> ?deeper [lit ''sh'', lit ''-c'', action] \<noteq> None))
      \<or> (\<exists>cs c. parse_shell_lc_literal_commands (parse_shell env) w = Some cs \<and> c \<in> set cs \<and> ?deeper c \<noteq> None)"
    (is "_ \<longleftrightarrow> ?sudo \<or> ?env \<or> ?trap \<or> ?script")
  proof
    assume "\<exists>c. runs env platform w c \<and> ?deeper c \<noteq> None"
    then obtain c where "runs env platform w c" and c: "?deeper c \<noteq> None" by blast
    then show "?sudo \<or> ?env \<or> ?trap \<or> ?script" by (cases rule: runs.cases) blast+
  next
    assume "?sudo \<or> ?env \<or> ?trap \<or> ?script"
    then show "\<exists>c. runs env platform w c \<and> ?deeper c \<noteq> None"
      by (metis runs_sudo runs_env runs_trap runs_script)
  qed
  ultimately show ?thesis
    unfolding match_for_exec_None script dangerous_itself_def by argo
qed

lemma flagged_reach:
  "d + k = Suc MAX_DANGEROUS_COMMAND_WRAPPER_DEPTH \<Longrightarrow>
     flagged env platform d w \<longleftrightarrow>
       (\<exists>n c. (runs env platform ^^ n) w c \<and> (n < k \<and> dangerous_itself env platform c \<or> n = k))"
proof (induction k arbitrary: d w)
  case 0
  then show ?case by (auto simp: flagged_too_deep)
next
  case (Suc k)
  then have "flagged env platform d w \<longleftrightarrow> dangerous_itself env platform w
      \<or> (\<exists>c. runs env platform w c \<and> flagged env platform (Suc d) c)"
    by (intro flagged_step) simp
  also have "\<dots> \<longleftrightarrow> dangerous_itself env platform w \<or> (\<exists>c n x. runs env platform w c
      \<and> (runs env platform ^^ n) c x \<and> (n < k \<and> dangerous_itself env platform x \<or> n = k))"
    using Suc by (subst Suc.IH) auto
  also have "\<dots> \<longleftrightarrow> (\<exists>n x. (runs env platform ^^ n) w x
      \<and> (n < Suc k \<and> dangerous_itself env platform x \<or> n = Suc k))" (is "?L \<longleftrightarrow> ?R")
  proof
    assume ?L
    then show ?R
    proof
      assume "dangerous_itself env platform w"
      then show ?R by (intro exI [of _ 0] exI [of _ w]) simp
    next
      assume "\<exists>c n x. runs env platform w c \<and> (runs env platform ^^ n) c x
        \<and> (n < k \<and> dangerous_itself env platform x \<or> n = k)"
      then obtain c n x where "runs env platform w c" "(runs env platform ^^ n) c x"
        "n < k \<and> dangerous_itself env platform x \<or> n = k" by blast
      then show ?R by (intro exI [of _ "Suc n"] exI [of _ x]) (auto simp del: relpowp.simps intro: relpowp_Suc_I2)
    qed
  next
    assume ?R
    then obtain n x where n: "(runs env platform ^^ n) w x"
      "n < Suc k \<and> dangerous_itself env platform x \<or> n = Suc k" by blast
    show ?L
    proof (cases n)
      case 0
      with n show ?L by simp
    next
      case (Suc m)
      with n(1) obtain c where "runs env platform w c" "(runs env platform ^^ m) c x"
        by (metis relpowp_Suc_D2)
      with n(2) Suc show ?L by auto
    qed
  qed
  finally show ?case .
qed

lemma forced_rm_found:
  "dangerous_command_match_with_depth env platform d w = Some ForcedRm \<Longrightarrow>
     \<exists>n c. (runs env platform ^^ n) w c \<and> d + n \<le> MAX_DANGEROUS_COMMAND_WRAPPER_DEPTH \<and> is_forced_rm platform c"
proof (induction env platform d w rule: dangerous_command_match_with_depth.induct)
  case (1 env platform d w)
  let ?deeper = "\<lambda>c. dangerous_command_match_with_depth env platform (d + 1) c"
  let ?goal = "\<exists>n c. (runs env platform ^^ n) w c \<and> d + n \<le> MAX_DANGEROUS_COMMAND_WRAPPER_DEPTH
    \<and> is_forced_rm platform c"
  have d: "d \<le> MAX_DANGEROUS_COMMAND_WRAPPER_DEPTH"
    using "1.prems" flagged_too_deep [of d env platform w] by (cases "d > MAX_DANGEROUS_COMMAND_WRAPPER_DEPTH") auto
  have step: ?goal if c: "runs env platform w c" "?deeper c = Some ForcedRm" for c
  proof -
    from "1.IH"(1) [OF _ c(2)] d obtain n x where "(runs env platform ^^ n) c x"
      "d + 1 + n \<le> MAX_DANGEROUS_COMMAND_WRAPPER_DEPTH" "is_forced_rm platform x" by auto
    with c(1) show ?goal by (intro exI [of _ "Suc n"] exI [of _ x]) (auto simp del: relpowp.simps intro: relpowp_Suc_I2)
  qed
  from "1.prems" d consider
      "dangerous_command_match_for_exec ?deeper w platform = Some ForcedRm"
    | "Option.bind (parse_shell_lc_literal_commands (parse_shell env) w) (find_map ?deeper) = Some ForcedRm"
    by (subst (asm) dangerous_command_match_with_depth.simps) (auto split: option.splits if_splits)
  then show ?case
  proof cases
    case 1
    show ?thesis
    proof (cases "is_forced_rm platform w")
      case True
      with d show ?thesis by (intro exI [of _ 0] exI [of _ w]) simp
    next
      case False
      with 1 obtain c where "runs env platform w c" "?deeper c = Some ForcedRm"
        by (auto simp: dangerous_command_match_for_exec_def dangerous_command_match_for_env_def Let_def
            dangerous_command_match_for_trap_def is_forced_rm_def bind_eq_Some_conv
            intro: runs.intros split: if_splits)
      then show ?thesis by (rule step)
    qed
  next
    case 2
    then obtain cs c where "parse_shell_lc_literal_commands (parse_shell env) w = Some cs" "c \<in> set cs"
      "?deeper c = Some ForcedRm" by (auto simp: bind_eq_Some_conv dest!: find_map_Some)
    then show ?thesis by (intro step) (auto intro: runs_script)
  qed
qed

lemma relpowp_shorter:
  fixes R :: "'a \<Rightarrow> 'a \<Rightarrow> bool"
  shows "(R ^^ n) x y \<Longrightarrow> m \<le> n \<Longrightarrow> \<exists>z. (R ^^ m) x z"
  using relpowp_add [of m "n - m" R] by (auto simp: relcompp_apply)

lemma flagged_deeper: "flagged env platform d w \<Longrightarrow> flagged env platform (Suc d) w"
proof (cases "d \<le> MAX_DANGEROUS_COMMAND_WRAPPER_DEPTH")
  case True
  assume f: "flagged env platform d w"
  from True obtain k where k: "d + Suc k = Suc MAX_DANGEROUS_COMMAND_WRAPPER_DEPTH"
    by (metis Suc_leI add_Suc_right le_iff_add)
  from f obtain n c where n: "(runs env platform ^^ n) w c"
    "n < Suc k \<and> dangerous_itself env platform c \<or> n = Suc k"
    unfolding flagged_reach [OF k] by blast
  then have "(\<exists>n c. (runs env platform ^^ n) w c \<and> (n < k \<and> dangerous_itself env platform c \<or> n = k))"
    using relpowp_shorter [OF n(1), of k] by (cases "n < k") force+
  with k show ?thesis using flagged_reach [of "Suc d" k env platform w] by simp
qed (simp add: flagged_too_deep)

text \<open>The executable of a recognized shell is none of the commands the classifier looks through.\<close>

lemma shell_key:
  assumes "detect_shell_type shell \<in> {Some Zsh, Some Bash, Some Sh}"
  shows "executable_name_lookup_key shell Posix \<notin> Some ` {lit ''rm'', lit ''sudo'', lit ''env'', lit ''trap''}"
proof
  assume "executable_name_lookup_key shell Posix \<in> Some ` {lit ''rm'', lit ''sudo'', lit ''env'', lit ''trap''}"
  then obtain k where k: "k \<in> {lit ''rm'', lit ''sudo'', lit ''env'', lit ''trap''}" "last (split_char 47 shell) = k"
    by (auto simp: executable_name_lookup_key_def Let_def split: if_splits)
  have kf: "k \<noteq> []" "k \<noteq> [46]" "k \<noteq> [46, 46]" "rsplit_once 46 k = None" "detect_shell_type k = None"
    using k(1) by (auto; code_simp)+
  have "last (filter (\<lambda>p. p \<noteq> [] \<and> p \<noteq> [46]) (split_char 47 shell)) = k
      \<and> filter (\<lambda>p. p \<noteq> [] \<and> p \<noteq> [46]) (split_char 47 shell) \<noteq> []"
    using k(2) kf(1,2) by (cases "split_char 47 shell" rule: rev_cases) auto
  then have "path_base_name shell = Some k"
    using kf(2,3) by (auto simp: path_base_name_def path_parts_def Let_def)
  then have "path_file_stem shell = Some k" using kf(4) by (simp add: path_file_stem_def)
  then have "detect_shell_type shell \<in> {Some PowerShell, Some Cmd, None} \<or> shell \<in> {lit ''zsh'', lit ''sh'', lit ''bash''}"
    using kf(5) by (subst detect_shell_type.simps) auto
  with assms have "shell \<in> {lit ''zsh'', lit ''sh'', lit ''bash''}" by auto
  with k show False by (auto; code_simp)
qed

lemma script_flagged:
  assumes "extract_bash_command w = Some (shell, script)" "parse_shell env script = Some root"
    "shell_tree root" "node_named root" "try_parse_word_only_commands_sequence root = Some commands"
  shows "flagged env Posix 0 w \<longleftrightarrow> (\<exists>c \<in> set commands. flagged env Posix 1 c)"
proof -
  from assms(1) obtain flag where w: "w = [shell, flag, script]"
    and shell: "detect_shell_type shell \<in> {Some Zsh, Some Bash, Some Sh}"
    by (auto simp: extract_bash_command_def split: list.splits if_splits)
  have key: "command_key w Posix \<notin> Some ` {lit ''rm'', lit ''sudo'', lit ''env'', lit ''trap''}"
    using shell_key [OF shell] by (simp add: command_key_def w)
  have "\<not> node_has_error root"
    using assms(5) by (auto simp: try_parse_word_only_commands_sequence_def split: if_splits)
  then have literal: "parse_shell_lc_literal_commands (parse_shell env) w = Some (walk_literal [root] [])"
    using assms(1,2) by (simp add: parse_shell_lc_literal_commands_def)
  have "runs env Posix w c \<longleftrightarrow> c \<in> set commands" for c
  proof -
    have "runs env Posix w c \<longleftrightarrow> c \<in> set (walk_literal [root] [])"
      using key literal by (auto elim!: runs.cases intro: runs_script)
    then show ?thesis using plain_commands_are_literal [OF assms(3,4,5)] by (metis set_mset_mset)
  qed
  moreover have "\<not> dangerous_itself env Posix w"
    using key by (auto simp: dangerous_itself_def is_forced_rm_def)
  ultimately show ?thesis by (subst flagged_step) auto
qed

section \<open>Properties\<close>

text \<open>C11: a command is called dangerous exactly when following what it runs, through \<open>sudo\<close>,
  \<open>env\<close>, \<open>trap\<close> and the scripts of shells, leads within eight steps to a dangerous command, or goes
  on for nine; and it is called a forced \<open>rm\<close> only if one is reached.\<close>

theorem dangerous_iff_reaches_danger:
  "(dangerous_command_match_for_platform env w platform \<noteq> None \<longleftrightarrow>
      (\<exists>n c. (runs env platform ^^ n) w c
        \<and> (n \<le> MAX_DANGEROUS_COMMAND_WRAPPER_DEPTH \<and> dangerous_itself env platform c
            \<or> n = Suc MAX_DANGEROUS_COMMAND_WRAPPER_DEPTH)))
   \<and> (dangerous_command_match_for_platform env w platform = Some ForcedRm \<longrightarrow>
      (\<exists>n c. (runs env platform ^^ n) w c \<and> n \<le> MAX_DANGEROUS_COMMAND_WRAPPER_DEPTH \<and> is_forced_rm platform c))"
  using flagged_reach [of 0 "Suc MAX_DANGEROUS_COMMAND_WRAPPER_DEPTH" env platform w]
    forced_rm_found [of env platform 0 w]
  by (simp add: dangerous_command_match_for_platform_def less_Suc_eq_le)

text \<open>No wrapper hides a dangerous command: what runs a command that is called dangerous is
  called dangerous.\<close>

theorem wrapped_danger_is_found:
  assumes "(runs env platform)\<^sup>*\<^sup>* w c" "dangerous_command_match_for_platform env c platform \<noteq> None"
  shows "dangerous_command_match_for_platform env w platform \<noteq> None"
  using assms
proof (induction rule: converse_rtranclp_induct)
  case (step w v)
  then have "flagged env platform 1 v"
    using flagged_deeper [of env platform 0 v] by (simp add: dangerous_command_match_for_platform_def)
  with step.hyps(1) show ?case
    unfolding dangerous_command_match_for_platform_def
    by (subst flagged_step) auto
qed

text \<open>C12: a shell command whose script is accepted as plain commands is called dangerous exactly
  when one of these commands is, one level down, so that a command that is dangerous alone makes the
  script dangerous.\<close>

theorem script_judged_by_commands:
  assumes "extract_bash_command w = Some (shell, script)" "parse_shell env script = Some root"
    "shell_tree root" "node_named root" "parse_shell_lc_plain_commands (parse_shell env) w = Some commands"
  shows "(dangerous_command_match_for_platform env w Posix \<noteq> None \<longleftrightarrow>
      (\<exists>c \<in> set commands. dangerous_command_match_with_depth env Posix 1 c \<noteq> None))
    \<and> (\<forall>c \<in> set commands. dangerous_command_match_for_platform env c Posix \<noteq> None \<longrightarrow>
         dangerous_command_match_for_platform env w Posix \<noteq> None)"
proof -
  from assms(1,2,5) have "try_parse_word_only_commands_sequence root = Some commands"
    by (simp add: parse_shell_lc_plain_commands_def parse_shell_script_into_commands_def)
  note script = script_flagged [OF assms(1-4) this]
  show ?thesis
    unfolding dangerous_command_match_for_platform_def script
    using flagged_deeper [of env Posix 0] unfolding One_nat_def by blast
qed

section \<open>Examples\<close>

definition sample_node :: "string \<Rightarrow> string \<Rightarrow> nat \<Rightarrow> SyntaxNode list \<Rightarrow> SyntaxNode" where
  "sample_node kind source start children = SyntaxNode (lit kind) True (Some (lit source)) start False children"

definition sample_tree :: SyntaxNode where
  "sample_tree = sample_node ''program'' ''rm -f a'' 0
     [sample_node ''command'' ''rm -f a'' 0
        [sample_node ''command_name'' ''rm'' 0 [sample_node ''word'' ''rm'' 0 []],
         sample_node ''word'' ''-f'' 3 [], sample_node ''word'' ''a'' 6 []]]"

definition sample_command_env :: command_env where
  "sample_command_env = \<lparr>split_words = (\<lambda>_. None), url_scheme = (\<lambda>_. None),
     parse_shell = (\<lambda>source. if source = lit ''rm -f a'' then Some sample_tree else None)\<rparr>"

definition sample_rm :: "rstr list" where
  "sample_rm = [lit ''rm'', lit ''-f'', lit ''a'']"

definition sample_script :: "rstr list" where
  "sample_script = [lit ''/bin/bash'', lit ''-lc'', lit ''rm -f a'']"

lemma sample_facts:
  "dangerous_command_match_for_platform sample_command_env sample_rm Posix = Some ForcedRm"
  "parse_shell_lc_literal_commands (parse_shell sample_command_env) sample_script = Some [sample_rm]"
  "parse_shell_lc_plain_commands (parse_shell sample_command_env) sample_script = Some [sample_rm]"
  "extract_bash_command sample_script = Some (lit ''/bin/bash'', lit ''rm -f a'')"
  "command_key (lit ''sudo'' # sample_script) Posix = Some (lit ''sudo'')"
  "dangerous_command_match_for_platform sample_command_env (lit ''sudo'' # sample_script) Posix = Some ForcedRm"
  "shell_tree sample_tree" "node_named sample_tree"
  "parse_shell sample_command_env (lit ''rm -f a'') = Some sample_tree"
  by code_simp+

theorem dangerous_iff_reaches_danger_witness:
  "\<exists>n c. (runs sample_command_env Posix ^^ n) (lit ''sudo'' # sample_script) c \<and> n \<le> 8 \<and> is_forced_rm Posix c"
  using dangerous_iff_reaches_danger [of sample_command_env "lit ''sudo'' # sample_script" Posix]
    sample_facts(6) unfolding MAX_DANGEROUS_COMMAND_WRAPPER_DEPTH_def by blast

theorem wrapped_danger_is_found_witness:
  "dangerous_command_match_for_platform sample_command_env (lit ''sudo'' # sample_script) Posix \<noteq> None"
proof -
  have "runs sample_command_env Posix (lit ''sudo'' # sample_script) sample_script"
    using runs_sudo [OF sample_facts(5)] by simp
  moreover have "runs sample_command_env Posix sample_script sample_rm"
    using runs_script [OF sample_facts(2)] by simp
  ultimately have "(runs sample_command_env Posix)\<^sup>*\<^sup>* (lit ''sudo'' # sample_script) sample_rm"
    by (meson rtranclp.rtrancl_refl converse_rtranclp_into_rtranclp)
  from wrapped_danger_is_found [OF this] sample_facts(1) show ?thesis by simp
qed

theorem script_judged_by_commands_witness:
  "dangerous_command_match_for_platform sample_command_env sample_script Posix \<noteq> None"
  using script_judged_by_commands [OF sample_facts(4,9,7,8,3)] sample_facts(1) by auto

end
