(* ===== verification/Exec_Approval.thy ===== *)
theory Exec_Approval
  imports Exec_Amend Dangerous_Command Granted_Permissions
begin

text \<open>
  Whether a command runs, is asked about or is refused (\<open>core/src/exec_policy.rs\<close>, with
  \<open>exec_policy/model_policy.rs\<close> and \<open>exec_policy/executable_identity.rs\<close>, and what
  \<open>core/src/tools/sandboxing.rs\<close> makes of the answer). The rules of the policy decide a command;
  what no rule matches is decided by the classifier of dangerous commands, the approval policy and
  the permission profile.

  Arguments are the parser of PowerShell scripts, which is not modelled, and the quoting of command
  lines. Evaluating no command at all would panic, which is the value None.
\<close>

section \<open>Requests and requirements\<close>

datatype ExecPolicyCommandOrigin = GenericOrigin | PowerShellOrigin

datatype WindowsSandboxLevel = SandboxDisabled | RestrictedToken | Elevated

datatype AllowPrefixRules = Honor | IgnoreForCyberModel

datatype ExecApprovalRequirement =
    SkipApproval bool "rstr list option"
  | NeedsApproval "rstr option" "rstr list option"
  | ForbiddenExec rstr

record 'a exec_env = command_env +
  exec_paths :: "'a host_paths"
  exec_policy_env :: PolicyEnv
  powershell_commands :: "rstr \<Rightarrow> rstr list list option"
  join_words :: "rstr list \<Rightarrow> rstr option"

record UnmatchedCommandContext =
  uc_approval_policy :: AskForApproval
  uc_permission_profile :: PermissionProfile
  uc_windows_sandbox_level :: WindowsSandboxLevel
  uc_sandbox_permissions :: SandboxPermissions
  uc_command_origin :: ExecPolicyCommandOrigin

record ExecPolicyCommands =
  ec_commands :: "rstr list list"
  ec_command_origin :: ExecPolicyCommandOrigin

record 'a ExecApprovalRequest =
  req_command :: "rstr list"
  req_approval_policy :: AskForApproval
  req_permission_profile :: PermissionProfile
  req_environment_policy :: "'a Policy option"
  req_windows_sandbox_level :: WindowsSandboxLevel
  req_sandbox_permissions :: SandboxPermissions
  req_prefix_rule :: "rstr list option"
  req_allow_prefix_rules :: AllowPrefixRules

definition PROMPT_CONFLICT_REASON :: rstr where
  "PROMPT_CONFLICT_REASON = lit ''approval required by policy, but AskForApproval is set to Never''"

definition REJECT_SANDBOX_APPROVAL_REASON :: rstr where
  "REJECT_SANDBOX_APPROVAL_REASON =
     lit ''approval required by policy, but AskForApproval::Granular.sandbox_approval is false''"

definition REJECT_RULES_APPROVAL_REASON :: rstr where
  "REJECT_RULES_APPROVAL_REASON =
     lit ''approval required by policy rule, but AskForApproval::Granular.rules is false''"

definition BANNED_PREFIX_SUGGESTIONS :: "rstr list list" where
  "BANNED_PREFIX_SUGGESTIONS = map (map lit)
    [[''/bin/bash''], [''/bin/bash'', ''-c''], [''/bin/bash'', ''-lc''], [''/bin/sh''],
     [''/bin/sh'', ''-c''], [''/bin/sh'', ''-lc''], [''/bin/zsh''], [''/bin/zsh'', ''-c''],
     [''/bin/zsh'', ''-lc''], [''Rscript''], [''bash''], [''bash'', ''-c''], [''bash'', ''-lc''],
     [''bun''], [''bun'', ''-e''], [''bun'', ''run''], [''cmd''], [''cmd'', ''/c''],
     [''cmd'', ''/k''], [''cmd.exe''], [''cmd.exe'', ''/c''], [''cmd.exe'', ''/k''], [''dash''],
     [''dash'', ''-c''], [''deno''], [''deno'', ''eval''], [''env''], [''fish''],
     [''fish'', ''-c''], [''git''], [''julia''], [''julia'', ''-e''], [''ksh''],
     [''ksh'', ''-c''], [''lua''], [''lua'', ''-e''], [''node''], [''node'', ''-e''],
     [''nodejs''], [''nodejs'', ''-e''], [''npm'', ''run''], [''osascript''], [''perl''],
     [''perl'', ''-e''], [''php''], [''php'', ''-r''], [''pnpm'', ''run''], [''powershell''],
     [''powershell'', ''-Command''], [''powershell'', ''-EncodedCommand''],
     [''powershell'', ''-File''], [''powershell'', ''-c''], [''powershell.exe''],
     [''powershell.exe'', ''-Command''], [''powershell.exe'', ''-EncodedCommand''],
     [''powershell.exe'', ''-File''], [''powershell.exe'', ''-c''], [''pwsh''],
     [''pwsh'', ''-Command''], [''pwsh'', ''-EncodedCommand''], [''pwsh'', ''-File''],
     [''pwsh'', ''-c''], [''pwsh'', ''-e''], [''pwsh'', ''-ec''], [''pwsh'', ''-f''], [''py''],
     [''py'', ''-3''], [''pypy''], [''pypy3''], [''python''], [''python'', ''-''],
     [''python'', ''-c''], [''python3''], [''python3'', ''-''], [''python3'', ''-c''],
     [''pythonw''], [''pyw''], [''rm''], [''ruby''], [''ruby'', ''-e''], [''sh''],
     [''sh'', ''-c''], [''sh'', ''-lc''], [''sudo''], [''yarn'', ''run''], [''zsh''],
     [''zsh'', ''-c''], [''zsh'', ''-lc'']]"

definition match_options :: MatchOptions where
  "match_options = \<lparr>resolve_host_executables = True\<rparr>"

section \<open>Commands no rule matches\<close>

fun is_policy_match :: "'a RuleMatch \<Rightarrow> bool" where
  "is_policy_match (PrefixRuleMatch _ _ _ _) = True"
| "is_policy_match (HeuristicsRuleMatch _ _) = False"

definition prompt_is_rejected_by_policy :: "AskForApproval \<Rightarrow> bool \<Rightarrow> rstr option" where
  "prompt_is_rejected_by_policy policy prompt_is_rule =
     (case policy of
        NeverAsk \<Rightarrow> Some PROMPT_CONFLICT_REASON
      | OnRequest \<Rightarrow> None
      | UnlessTrusted \<Rightarrow> None
      | Granular c \<Rightarrow>
          (if prompt_is_rule then (if \<not> rules_approval c then Some REJECT_RULES_APPROVAL_REASON else None)
           else if \<not> sandbox_approval c then Some REJECT_SANDBOX_APPROVAL_REASON
           else None))"

definition requests_sandbox_override :: "SandboxPermissions \<Rightarrow> bool" where
  "requests_sandbox_override p \<longleftrightarrow> p \<noteq> UseDefault"

definition requires_escalated_permissions :: "SandboxPermissions \<Rightarrow> bool" where
  "requires_escalated_permissions p \<longleftrightarrow> p = RequireEscalated"

definition dangerous_command_match_for_origin ::
  "'z command_env_scheme \<Rightarrow> rstr list \<Rightarrow> ExecPolicyCommandOrigin \<Rightarrow> DangerousCommandPlatform
     \<Rightarrow> DangerousCommandMatch option" where
  "dangerous_command_match_for_origin env command origin platform =
     (case origin of
        GenericOrigin \<Rightarrow> dangerous_command_match_for_platform env command platform
      | PowerShellOrigin \<Rightarrow> dangerous_powershell_words_match env command platform)"

definition profile_has_managed_filesystem_restrictions :: "PolicyEnv \<Rightarrow> PermissionProfile \<Rightarrow> bool" where
  "profile_has_managed_filesystem_restrictions env profile \<longleftrightarrow>
     (case profile of Managed _ _ \<Rightarrow> True | _ \<Rightarrow> False)
     \<and> fp_kind (file_system_sandbox_policy profile) = Restricted
     \<and> \<not> has_full_disk_write_access env (file_system_sandbox_policy profile)"

definition render_decision_for_unmatched_command_for_platform ::
  "'a exec_env \<Rightarrow> rstr list \<Rightarrow> UnmatchedCommandContext \<Rightarrow> DangerousCommandPlatform \<Rightarrow> Decision" where
  "render_decision_for_unmatched_command_for_platform env command ctx platform =
     (let danger = dangerous_command_match_for_origin env command (uc_command_origin ctx) platform;
          profile = uc_permission_profile ctx;
          no_sandbox_backend = on_windows (exec_paths env) \<and> uc_windows_sandbox_level ctx = SandboxDisabled
            \<and> profile_has_managed_filesystem_restrictions (exec_policy_env env) profile;
          by_sandbox = (case fp_kind (file_system_sandbox_policy profile) of
              Unrestricted \<Rightarrow> Allow
            | ExternalSandbox \<Rightarrow> Allow
            | Restricted \<Rightarrow> if requests_sandbox_override (uc_sandbox_permissions ctx) then Prompt else Allow)
      in if danger \<noteq> None \<or> no_sandbox_backend then
           (case uc_approval_policy ctx of NeverAsk \<Rightarrow> Forbidden | _ \<Rightarrow> Prompt)
         else (case uc_approval_policy ctx of
             NeverAsk \<Rightarrow> Allow
           | UnlessTrusted \<Rightarrow> Prompt
           | OnRequest \<Rightarrow> by_sandbox
           | Granular _ \<Rightarrow> by_sandbox))"

section \<open>The commands of a request\<close>

definition parse_powershell_command_into_plain_commands ::
  "'a exec_env \<Rightarrow> rstr list \<Rightarrow> rstr list list option" where
  "parse_powershell_command_into_plain_commands env command =
     Option.bind (extract_powershell_command command) (\<lambda>(_, script). powershell_commands env script)"

definition commands_for_exec_policy_for_platform ::
  "'a exec_env \<Rightarrow> rstr list \<Rightarrow> DangerousCommandPlatform \<Rightarrow> ExecPolicyCommands" where
  "commands_for_exec_policy_for_platform env command platform =
     (case non_empty (parse_shell_lc_plain_commands (parse_shell env) command) of
        Some commands \<Rightarrow> \<lparr>ec_commands = commands, ec_command_origin = GenericOrigin\<rparr>
      | None \<Rightarrow>
          (case (if platform = DangerousCommandPlatform.Windows
                 then non_empty (parse_powershell_command_into_plain_commands env command) else None) of
             Some commands \<Rightarrow> \<lparr>ec_commands = commands, ec_command_origin = PowerShellOrigin\<rparr>
           | None \<Rightarrow> \<lparr>ec_commands = [command], ec_command_origin = GenericOrigin\<rparr>))"

section \<open>Proposed amendments\<close>

definition is_rule_decision :: "Decision \<Rightarrow> 'a RuleMatch \<Rightarrow> bool" where
  "is_rule_decision d m \<longleftrightarrow> is_policy_match m \<and> match_decision m = d"

fun heuristic_command :: "Decision \<Rightarrow> 'a RuleMatch \<Rightarrow> rstr list option" where
  "heuristic_command d (HeuristicsRuleMatch command d') = (if d' = d then Some command else None)"
| "heuristic_command d (PrefixRuleMatch _ _ _ _) = None"

definition try_derive_execpolicy_amendment_for_prompt_rules :: "'a RuleMatch list \<Rightarrow> rstr list option" where
  "try_derive_execpolicy_amendment_for_prompt_rules matched_rules =
     (if list_ex (is_rule_decision Prompt) matched_rules then None
      else find_map (heuristic_command Prompt) matched_rules)"

definition try_derive_execpolicy_amendment_for_allow_rules :: "'a RuleMatch list \<Rightarrow> rstr list option" where
  "try_derive_execpolicy_amendment_for_allow_rules matched_rules =
     (if list_ex is_policy_match matched_rules then None
      else find_map (heuristic_command Allow) matched_rules)"

definition prefix_rule_would_approve_all_commands ::
  "'a host_paths \<Rightarrow> 'a Policy \<Rightarrow> rstr list \<Rightarrow> rstr list list \<Rightarrow> (rstr list \<Rightarrow> Decision) \<Rightarrow> bool" where
  "prefix_rule_would_approve_all_commands hp p prefix_rule commands fallback =
     (case add_prefix_rule prefix_rule Allow p of
        Inl _ \<Rightarrow> False
      | Inr p' \<Rightarrow>
          list_all (\<lambda>command. map_option ev_decision (check_with_options hp p' command fallback match_options)
              = Some Allow) commands)"

definition derive_requested_execpolicy_amendment_from_prefix_rule ::
  "'a host_paths \<Rightarrow> rstr list option \<Rightarrow> 'a RuleMatch list \<Rightarrow> 'a Policy \<Rightarrow> rstr list list
     \<Rightarrow> (rstr list \<Rightarrow> Decision) \<Rightarrow> rstr list option" where
  "derive_requested_execpolicy_amendment_from_prefix_rule hp requested matched_rules p commands fallback =
     Option.bind requested (\<lambda>prefix_rule.
       if prefix_rule = [] then None
       else if prefix_rule \<in> set BANNED_PREFIX_SUGGESTIONS then None
       else if list_ex is_policy_match matched_rules then None
       else if prefix_rule_would_approve_all_commands hp p prefix_rule commands fallback then Some prefix_rule
       else None)"

section \<open>Reasons\<close>

definition render_shlex_command :: "'a exec_env \<Rightarrow> rstr list \<Rightarrow> rstr" where
  "render_shlex_command env args = (case join_words env args of Some s \<Rightarrow> s | None \<Rightarrow> join (lit '' '') args)"

text \<open>\<open>Iterator::max_by_key\<close>: the last of the greatest.\<close>

fun max_by_key :: "('b \<Rightarrow> nat) \<Rightarrow> 'b list \<Rightarrow> 'b option" where
  "max_by_key key [] = None"
| "max_by_key key (x # xs) =
     (case max_by_key key xs of None \<Rightarrow> Some x | Some y \<Rightarrow> if key y < key x then Some x else Some y)"

fun rule_reason :: "Decision \<Rightarrow> 'a RuleMatch \<Rightarrow> (rstr list \<times> rstr option) option" where
  "rule_reason d (PrefixRuleMatch tokens d' _ justification) =
     (if d' = d then Some (tokens, justification) else None)"
| "rule_reason d (HeuristicsRuleMatch _ _) = None"

definition most_specific_rule :: "Decision \<Rightarrow> 'a Evaluation \<Rightarrow> (rstr list \<times> rstr option) option" where
  "most_specific_rule d evaluation =
     max_by_key (\<lambda>(tokens, _). length tokens) (List.map_filter (rule_reason d) (ev_matched_rules evaluation))"

definition backtick :: rstr where
  "backtick = [96]"

definition derive_prompt_reason :: "'a exec_env \<Rightarrow> rstr list \<Rightarrow> 'a Evaluation \<Rightarrow> rstr option" where
  "derive_prompt_reason env command_args evaluation =
     (let command = render_shlex_command env command_args
      in case most_specific_rule Prompt evaluation of
           Some (_, Some justification) \<Rightarrow>
             Some (backtick @ command @ backtick @ lit '' requires approval: '' @ justification)
         | Some (_, None) \<Rightarrow> Some (backtick @ command @ backtick @ lit '' requires approval by policy'')
         | None \<Rightarrow> None)"

definition dangerous_command_rejection_reason :: "DangerousCommandMatch \<Rightarrow> rstr" where
  "dangerous_command_rejection_reason m =
     (case m of
        ForcedRm \<Rightarrow> lit ''rm -f style commands are not permitted. Use a safer approach''
      | OtherDanger \<Rightarrow> lit ''blocked by policy'')"

definition derive_forbidden_reason ::
  "'a exec_env \<Rightarrow> rstr list \<Rightarrow> 'a Evaluation \<Rightarrow> DangerousCommandMatch option \<Rightarrow> rstr" where
  "derive_forbidden_reason env command_args evaluation danger =
     (let rejected = backtick @ render_shlex_command env command_args @ backtick @ lit '' rejected: ''
      in case most_specific_rule Forbidden evaluation of
           Some (_, Some justification) \<Rightarrow> rejected @ justification
         | Some (tokens, None) \<Rightarrow>
             rejected @ lit ''policy forbids commands starting with '' @ backtick @ render_shlex_command env tokens @ backtick
         | None \<Rightarrow>
             (case danger of
                Some m \<Rightarrow> rejected @ dangerous_command_rejection_reason m
              | None \<Rightarrow> rejected @ lit ''blocked by policy''))"

definition derive_rejected_prompt_reason :: "rstr \<Rightarrow> DangerousCommandMatch option \<Rightarrow> rstr" where
  "derive_rejected_prompt_reason fallback_reason danger =
     (case danger of
        Some ForcedRm \<Rightarrow> dangerous_command_rejection_reason ForcedRm
      | _ \<Rightarrow> fallback_reason)"

definition dangerous_command_match_for_heuristics ::
  "'a exec_env \<Rightarrow> 'a Evaluation \<Rightarrow> Decision \<Rightarrow> ExecPolicyCommandOrigin \<Rightarrow> DangerousCommandPlatform
     \<Rightarrow> DangerousCommandMatch option" where
  "dangerous_command_match_for_heuristics env evaluation decision origin platform =
     find_map (\<lambda>m. Option.bind (heuristic_command decision m) (\<lambda>command.
         dangerous_command_match_for_origin env command origin platform)) (ev_matched_rules evaluation)"

section \<open>The policy of a request\<close>

text \<open>The policy without its allowing rules, for models that do not honor them.\<close>

definition without_allow_rules :: "'a Policy \<Rightarrow> 'a Policy" where
  "without_allow_rules p =
     policy_from_parts
       (mm_insert_all [] (map (\<lambda>(program, rules). (program, filter (\<lambda>r. rule_decision r \<noteq> Allow) rules))
          (rules_by_program p)))
       (network_rules p) (host_executables_by_name p)"

definition current_for_prefix_rules :: "'a Policy \<Rightarrow> AllowPrefixRules \<Rightarrow> 'a Policy" where
  "current_for_prefix_rules p allow_prefix_rules =
     (if allow_prefix_rules = Honor then p else without_allow_rules p)"

definition current_for_environment ::
  "'a Policy \<Rightarrow> 'a Policy option \<Rightarrow> AllowPrefixRules \<Rightarrow> 'a Policy" where
  "current_for_environment p environment_policy allow_prefix_rules =
     (let policy = current_for_prefix_rules p allow_prefix_rules
      in case environment_policy of Some overlay \<Rightarrow> merge_overlay policy overlay | None \<Rightarrow> policy)"

section \<open>The requirement\<close>

definition request_context :: "'a ExecApprovalRequest \<Rightarrow> ExecPolicyCommandOrigin \<Rightarrow> UnmatchedCommandContext" where
  "request_context req origin =
     \<lparr>uc_approval_policy = req_approval_policy req, uc_permission_profile = req_permission_profile req,
      uc_windows_sandbox_level = req_windows_sandbox_level req,
      uc_sandbox_permissions = req_sandbox_permissions req, uc_command_origin = origin\<rparr>"

text \<open>Whether a rule of the policy allows a command, whatever the heuristics say.\<close>

definition allowed_by_rule :: "'a host_paths \<Rightarrow> 'a Policy \<Rightarrow> rstr list \<Rightarrow> bool" where
  "allowed_by_rule hp p command =
     list_ex (is_rule_decision Allow) (matches_for_command_with_options hp p command None match_options)"

definition prompt_requirement ::
  "'a exec_env \<Rightarrow> 'a ExecApprovalRequest \<Rightarrow> ExecPolicyCommands \<Rightarrow> DangerousCommandPlatform
     \<Rightarrow> 'a Evaluation \<Rightarrow> rstr list option \<Rightarrow> ExecApprovalRequirement" where
  "prompt_requirement env req cmds platform evaluation requested_amendment =
     (let prompt_is_rule = list_ex (is_rule_decision Prompt) (ev_matched_rules evaluation)
      in case prompt_is_rejected_by_policy (req_approval_policy req) prompt_is_rule of
           Some reason \<Rightarrow>
             (if prompt_is_rule then ForbiddenExec reason
              else ForbiddenExec (derive_rejected_prompt_reason reason
                (dangerous_command_match_for_heuristics env evaluation Prompt (ec_command_origin cmds) platform)))
         | None \<Rightarrow>
             NeedsApproval (derive_prompt_reason env (req_command req) evaluation)
               (case requested_amendment of
                  Some amendment \<Rightarrow> Some amendment
                | None \<Rightarrow>
                    if req_allow_prefix_rules req = Honor
                    then try_derive_execpolicy_amendment_for_prompt_rules (ev_matched_rules evaluation)
                    else None))"

definition requested_amendment ::
  "'a exec_env \<Rightarrow> 'a Policy \<Rightarrow> 'a ExecApprovalRequest \<Rightarrow> ExecPolicyCommands \<Rightarrow> (rstr list \<Rightarrow> Decision)
     \<Rightarrow> 'a Evaluation \<Rightarrow> rstr list option" where
  "requested_amendment env exec_policy req cmds fallback evaluation =
     (if req_allow_prefix_rules req = Honor
      then derive_requested_execpolicy_amendment_from_prefix_rule (exec_paths env) (req_prefix_rule req)
             (ev_matched_rules evaluation) exec_policy (ec_commands cmds) fallback
      else None)"

definition create_exec_approval_requirement_for_parsed_commands ::
  "'a exec_env \<Rightarrow> 'a Policy \<Rightarrow> 'a ExecApprovalRequest \<Rightarrow> ExecPolicyCommands \<Rightarrow> DangerousCommandPlatform
     \<Rightarrow> ExecApprovalRequirement option" where
  "create_exec_approval_requirement_for_parsed_commands env p req cmds platform =
     (let hp = exec_paths env;
          exec_policy = current_for_environment p (req_environment_policy req) (req_allow_prefix_rules req);
          fallback = (\<lambda>cmd. render_decision_for_unmatched_command_for_platform env cmd
            (request_context req (ec_command_origin cmds)) platform)
      in map_option (\<lambda>evaluation.
           case ev_decision evaluation of
             Forbidden \<Rightarrow>
               ForbiddenExec (derive_forbidden_reason env (req_command req) evaluation
                 (dangerous_command_match_for_heuristics env evaluation Forbidden (ec_command_origin cmds) platform))
           | Prompt \<Rightarrow>
               prompt_requirement env req cmds platform evaluation
                 (requested_amendment env exec_policy req cmds fallback evaluation)
           | Allow \<Rightarrow>
               SkipApproval (list_all (allowed_by_rule hp exec_policy) (ec_commands cmds))
                 (if req_allow_prefix_rules req = Honor
                  then try_derive_execpolicy_amendment_for_allow_rules (ev_matched_rules evaluation)
                  else None))
         (check_multiple_with_options hp exec_policy (ec_commands cmds) fallback match_options))"

definition create_exec_approval_requirement_for_command_platform ::
  "'a exec_env \<Rightarrow> 'a Policy \<Rightarrow> 'a ExecApprovalRequest \<Rightarrow> DangerousCommandPlatform
     \<Rightarrow> ExecApprovalRequirement option" where
  "create_exec_approval_requirement_for_command_platform env p req platform =
     create_exec_approval_requirement_for_parsed_commands env p req
       (commands_for_exec_policy_for_platform env (req_command req) platform) platform"

section \<open>Unfamiliar shells\<close>

text \<open>The part of a shell command that is approved as such: all of it for the configured shell, a
  system shell, or in the mode that runs a shell of its own, and otherwise the executable alone.\<close>

definition shell_approval_command :: "rstr list \<Rightarrow> rstr \<Rightarrow> bool \<Rightarrow> rstr list" where
  "shell_approval_command command configured_shell zsh_fork =
     (case command of
        [] \<Rightarrow> command
      | executable # _ \<Rightarrow>
          (let is_system_shell =
                 path_parent executable \<in> {Some (path_parts (lit ''/bin'')), Some (path_parts (lit ''/usr/bin''))};
               is_configured_shell = path_parts executable = path_parts configured_shell
           in if is_configured_shell \<or> is_system_shell \<or> zsh_fork then command else [executable]))"

definition create_exec_approval_requirement_for_shell ::
  "'a exec_env \<Rightarrow> 'a Policy \<Rightarrow> 'a ExecApprovalRequest \<Rightarrow> rstr \<Rightarrow> bool \<Rightarrow> DangerousCommandPlatform
     \<Rightarrow> ExecApprovalRequirement option" where
  "create_exec_approval_requirement_for_shell env p req configured_shell zsh_fork platform =
     (let command = req_command req;
          executable = shell_approval_command command configured_shell zsh_fork
      in if length executable = length command
         then create_exec_approval_requirement_for_command_platform env p req platform
         else
           let policy_commands =
                 (if platform = DangerousCommandPlatform.Windows then
                    (case extract_powershell_command command of
                       Some (_, script) \<Rightarrow>
                         \<lparr>ec_commands = (case powershell_commands env script of Some cs \<Rightarrow> cs | None \<Rightarrow> [command]),
                          ec_command_origin = PowerShellOrigin\<rparr>
                     | None \<Rightarrow> commands_for_exec_policy_for_platform env command platform)
                  else commands_for_exec_policy_for_platform env command platform)
           in create_exec_approval_requirement_for_parsed_commands env p
                (req\<lparr>req_command := executable\<rparr>)
                (policy_commands\<lparr>ec_commands := executable # ec_commands policy_commands\<rparr>) platform)"

section \<open>The sandbox of the first attempt\<close>

datatype SandboxOverride = NoOverride | BypassSandboxFirstAttempt

definition default_exec_approval_requirement ::
  "AskForApproval \<Rightarrow> FileSystemSandboxPolicy \<Rightarrow> ExecApprovalRequirement" where
  "default_exec_approval_requirement policy fs =
     (let needs_approval = (case policy of
            NeverAsk \<Rightarrow> False
          | OnRequest \<Rightarrow> fp_kind fs = Restricted
          | Granular _ \<Rightarrow> fp_kind fs = Restricted
          | UnlessTrusted \<Rightarrow> True)
      in if needs_approval \<and> (case policy of Granular c \<Rightarrow> \<not> sandbox_approval c | _ \<Rightarrow> False)
         then ForbiddenExec (lit ''approval policy disallowed sandbox approval prompt'')
         else if needs_approval then NeedsApproval None None
         else SkipApproval False None)"

definition unsandboxed_execution_allowed :: "PolicyEnv \<Rightarrow> FileSystemSandboxPolicy \<Rightarrow> bool" where
  "unsandboxed_execution_allowed env fs \<longleftrightarrow> \<not> has_denied_read_restrictions env fs"

definition sandbox_override_for_first_attempt ::
  "PolicyEnv \<Rightarrow> SandboxPermissions \<Rightarrow> ExecApprovalRequirement \<Rightarrow> FileSystemSandboxPolicy \<Rightarrow> SandboxOverride" where
  "sandbox_override_for_first_attempt env permissions requirement fs =
     (if \<not> unsandboxed_execution_allowed env fs then NoOverride
      else if (case requirement of SkipApproval bypass _ \<Rightarrow> bypass | _ \<Rightarrow> False) then BypassSandboxFirstAttempt
      else if requires_escalated_permissions permissions then BypassSandboxFirstAttempt
      else NoOverride)"

definition sandbox_permissions_preserving_denied_reads ::
  "PolicyEnv \<Rightarrow> SandboxPermissions \<Rightarrow> FileSystemSandboxPolicy \<Rightarrow> SandboxPermissions" where
  "sandbox_permissions_preserving_denied_reads env permissions fs =
     (if requires_escalated_permissions permissions \<and> \<not> unsandboxed_execution_allowed env fs
      then UseDefault else permissions)"

definition managed_network_for_sandbox_permissions :: "'n option \<Rightarrow> SandboxPermissions \<Rightarrow> 'n option" where
  "managed_network_for_sandbox_permissions network permissions =
     (if requires_escalated_permissions permissions then None else network)"

definition should_bypass_approval :: "AskForApproval \<Rightarrow> bool \<Rightarrow> bool" where
  "should_bypass_approval policy already_approved = (if already_approved then True else policy = NeverAsk)"

definition wants_no_sandbox_approval :: "AskForApproval \<Rightarrow> bool" where
  "wants_no_sandbox_approval policy =
     (case policy of
        UnlessTrusted \<Rightarrow> True
      | NeverAsk \<Rightarrow> False
      | OnRequest \<Rightarrow> False
      | Granular c \<Rightarrow> sandbox_approval c)"

section \<open>Accepting an amendment\<close>

datatype ExecPolicyUpdateError = AppendRule rstr AmendError | AddRule policy_error

text \<open>The manager: the policy in force and the contents of the file the amendments go to. The update
  lock, which makes the two operations below follow each other, is never closed.\<close>

record 'a ExecPolicyManager =
  current_policy :: "'a Policy"
  policy_file :: rstr

text \<open>The \<open>expect\<close> in the evaluation is out of reach, as one command is evaluated.\<close>

definition already_allowed :: "'a host_paths \<Rightarrow> 'a Policy \<Rightarrow> rstr list \<Rightarrow> bool" where
  "already_allowed hp p command =
     opt_is_some_and (\<lambda>evaluation. ev_decision evaluation = Allow
         \<and> list_ex (is_rule_decision Allow) (ev_matched_rules evaluation))
       (check_multiple_with_options hp p [command] (\<lambda>_. Forbidden) match_options)"

definition append_amendment_and_update ::
  "'a host_paths \<Rightarrow> amend_os \<Rightarrow> rstr \<Rightarrow> rstr list \<Rightarrow> 'a ExecPolicyManager
     \<Rightarrow> (ExecPolicyUpdateError + unit) \<times> 'a ExecPolicyManager" where
  "append_amendment_and_update hp os policy_path amendment manager =
     (case blocking_append_allow_prefix_rule os policy_path amendment (policy_file manager) of
        (Inl e, contents) \<Rightarrow> (Inl (AppendRule policy_path e), manager\<lparr>policy_file := contents\<rparr>)
      | (Inr _, contents) \<Rightarrow>
          (let manager = manager\<lparr>policy_file := contents\<rparr>
           in if already_allowed hp (current_policy manager) amendment then (Inr (), manager)
              else case add_prefix_rule amendment Allow (current_policy manager) of
                  Inl e \<Rightarrow> (Inl (AddRule e), manager)
                | Inr updated \<Rightarrow> (Inr (), manager\<lparr>current_policy := updated\<rparr>)))"

definition append_network_rule_and_update ::
  "amend_os \<Rightarrow> rstr \<Rightarrow> rstr \<Rightarrow> NetworkRuleProtocol \<Rightarrow> Decision \<Rightarrow> rstr option \<Rightarrow> 'a ExecPolicyManager
     \<Rightarrow> (ExecPolicyUpdateError + unit) \<times> 'a ExecPolicyManager" where
  "append_network_rule_and_update os policy_path host protocol decision justification manager =
     (case blocking_append_network_rule os policy_path host protocol decision justification (policy_file manager) of
        (Inl e, contents) \<Rightarrow> (Inl (AppendRule policy_path e), manager\<lparr>policy_file := contents\<rparr>)
      | (Inr _, contents) \<Rightarrow>
          (let manager = manager\<lparr>policy_file := contents\<rparr>
           in case add_network_rule host protocol decision justification (current_policy manager) of
                  Inl e \<Rightarrow> (Inl (AddRule e), manager)
                | Inr updated \<Rightarrow> (Inr (), manager\<lparr>current_policy := updated\<rparr>)))"

end
