(* ===== verification/Approval_Safety.thy ===== *)
theory Approval_Safety
  imports Exec_Approval
begin

text \<open>
  What the approval of commands guarantees: when a command runs without being asked about, what the
  approval policy rules out, and what accepting a proposed amendment, or ignoring allowing rules,
  does to the next request.
\<close>

section \<open>Matches and decisions\<close>

abbreviation rule_matches_of :: "'a host_paths \<Rightarrow> 'a Policy \<Rightarrow> rstr list \<Rightarrow> 'a RuleMatch list" where
  "rule_matches_of hp p c \<equiv> matches_for_command_with_options hp p c None match_options"

lemma rule_matches_of_eq:
  "rule_matches_of hp p c =
     (if exact_matches p c \<noteq> [] then exact_matches p c else match_host_executable_rules hp p c)"
  by (cases "match_exact_rules p c"; cases "match_host_executable_rules hp p c";
      cases "the (match_exact_rules p c)")
     (simp_all add: matches_for_command_with_options_def match_options_def exact_matches_def non_empty_def)

lemma matches_with_fallback:
  "matches_for_command_with_options hp p c (Some f) match_options =
     (if rule_matches_of hp p c = [] then [HeuristicsRuleMatch c (f c)] else rule_matches_of hp p c)"
  by (simp add: matches_for_command_with_options_def Let_def)

lemma is_policy_match_resolved [simp]: "is_policy_match (with_resolved_program program m) = is_policy_match m"
  by (cases m) simp_all

lemma decision_resolved [simp]: "match_decision (with_resolved_program program m) = match_decision m"
  by (cases m) simp_all

lemma rule_match_is_policy: "rule_matches r c = Some m \<Longrightarrow> is_policy_match m"
  by (auto simp: rule_matches_def)

lemma rule_matches_of_policy: "m \<in> set (rule_matches_of hp p c) \<Longrightarrow> is_policy_match m"
  by (auto simp: rule_matches_of_eq exact_matches_eq match_host_executable_rules_def set_map_filter
      dest: rule_match_is_policy split: if_splits list.splits option.splits)

lemma Max_decision_Allow:
  "finite A \<Longrightarrow> A \<noteq> {} \<Longrightarrow> Max A = Allow \<longleftrightarrow> (\<forall>d \<in> A. d = Allow)"
  by (metis Max_ge Max_in decision_bounds(1) order_antisym)

text \<open>The decisions that hold of a command: those of the rules that match it, or the heuristics.\<close>

definition decisions_for ::
  "'a host_paths \<Rightarrow> 'a Policy \<Rightarrow> (rstr list \<Rightarrow> Decision) \<Rightarrow> rstr list \<Rightarrow> Decision set" where
  "decisions_for hp p f c =
     (if rule_matches_of hp p c = [] then {f c} else match_decision ` set (rule_matches_of hp p c))"

lemma decisions_for_not_empty [simp]: "decisions_for hp p f c \<noteq> {}" "finite (decisions_for hp p f c)"
  by (auto simp: decisions_for_def)

lemma check_multiple_matches:
  assumes "cmds \<noteq> []"
  shows "check_multiple_with_options hp p cmds f match_options =
    Some \<lparr>ev_decision = Max (\<Union>c \<in> set cmds. decisions_for hp p f c),
          ev_matched_rules = concat (map (\<lambda>c. matches_for_command_with_options hp p c (Some f) match_options) cmds)\<rparr>"
proof -
  let ?m = "\<lambda>c. matches_for_command_with_options hp p c (Some f) match_options"
  have "concat (map ?m cmds) \<noteq> []"
    using assms by (cases cmds) (simp_all add: matches_with_fallback_not_Nil)
  moreover have "match_decision ` set (?m c) = decisions_for hp p f c" for c
    by (simp add: matches_with_fallback decisions_for_def)
  ultimately show ?thesis
    by (simp add: check_multiple_with_options_def evaluation_from_matches_eq image_UN)
qed

lemma check_one_matches:
  "check_with_options hp p c f match_options =
    Some \<lparr>ev_decision = Max (decisions_for hp p f c),
          ev_matched_rules = matches_for_command_with_options hp p c (Some f) match_options\<rparr>"
  using check_multiple_matches [of "[c]" hp p f]
  by (simp add: check_multiple_with_options_def check_with_options_def)

section \<open>The requirement\<close>

text \<open>The heuristics of a request.\<close>

abbreviation request_fallback ::
  "'a exec_env \<Rightarrow> 'a ExecApprovalRequest \<Rightarrow> ExecPolicyCommands \<Rightarrow> DangerousCommandPlatform \<Rightarrow> rstr list \<Rightarrow> Decision" where
  "request_fallback env req cmds platform \<equiv>
     \<lambda>c. render_decision_for_unmatched_command_for_platform env c
           (request_context req (ec_command_origin cmds)) platform"

abbreviation request_policy :: "'a Policy \<Rightarrow> 'a ExecApprovalRequest \<Rightarrow> 'a Policy" where
  "request_policy p req \<equiv> current_for_environment p (req_environment_policy req) (req_allow_prefix_rules req)"

lemma requirement_total:
  "ec_commands cmds \<noteq> [] \<Longrightarrow>
     \<exists>r. create_exec_approval_requirement_for_parsed_commands env p req cmds platform = Some r"
  by (simp add: create_exec_approval_requirement_for_parsed_commands_def check_multiple_matches Let_def)

lemma skip_iff_decisions:
  assumes "ec_commands cmds \<noteq> []"
  shows "(\<exists>amendment. create_exec_approval_requirement_for_parsed_commands env p req cmds platform
        = Some (SkipApproval bypass amendment)) \<longleftrightarrow>
    (\<forall>c \<in> set (ec_commands cmds). \<forall>d \<in> decisions_for (exec_paths env) (request_policy p req)
        (request_fallback env req cmds platform) c. d = Allow)
    \<and> (bypass \<longleftrightarrow> (\<forall>c \<in> set (ec_commands cmds). allowed_by_rule (exec_paths env) (request_policy p req) c))"
proof -
  let ?D = "\<Union>c \<in> set (ec_commands cmds). decisions_for (exec_paths env) (request_policy p req)
    (request_fallback env req cmds platform) c"
  have "Max ?D = Allow \<longleftrightarrow> (\<forall>d \<in> ?D. d = Allow)"
    using assms by (intro Max_decision_Allow) auto
  moreover have "(\<exists>amendment. create_exec_approval_requirement_for_parsed_commands env p req cmds platform
        = Some (SkipApproval bypass amendment)) \<longleftrightarrow>
      Max ?D = Allow \<and> (bypass \<longleftrightarrow> list_all (allowed_by_rule (exec_paths env) (request_policy p req)) (ec_commands cmds))"
    using assms
    by (auto simp: create_exec_approval_requirement_for_parsed_commands_def check_multiple_matches Let_def
        prompt_requirement_def split: Decision.split option.splits)
  ultimately show ?thesis by (simp add: list_all_iff)
qed

lemma allowed_by_rule_iff:
  "allowed_by_rule hp p c \<longleftrightarrow> Allow \<in> match_decision ` set (rule_matches_of hp p c)"
  using rule_matches_of_policy by (force simp: allowed_by_rule_def list_ex_iff is_rule_decision_def)

section \<open>When a command runs without being asked about\<close>

text \<open>What lets a command run that no rule matches.\<close>

definition runs_unmatched ::
  "'a exec_env \<Rightarrow> 'a ExecApprovalRequest \<Rightarrow> ExecPolicyCommandOrigin \<Rightarrow> DangerousCommandPlatform \<Rightarrow> rstr list \<Rightarrow> bool" where
  "runs_unmatched env req origin platform c \<longleftrightarrow>
     dangerous_command_match_for_origin env c origin platform = None
     \<and> \<not> (on_windows (exec_paths env) \<and> req_windows_sandbox_level req = SandboxDisabled
           \<and> profile_has_managed_filesystem_restrictions (exec_policy_env env) (req_permission_profile req))
     \<and> (case req_approval_policy req of
          NeverAsk \<Rightarrow> True
        | UnlessTrusted \<Rightarrow> False
        | _ \<Rightarrow> fp_kind (file_system_sandbox_policy (req_permission_profile req)) = Restricted
              \<longrightarrow> req_sandbox_permissions req = UseDefault)"

lemma request_fallback_Allow:
  "request_fallback env req cmds platform c = Allow \<longleftrightarrow>
     runs_unmatched env req (ec_command_origin cmds) platform c"
  by (auto simp: render_decision_for_unmatched_command_for_platform_def runs_unmatched_def Let_def
      request_context_def requests_sandbox_override_def
      split: AskForApproval.splits FileSystemSandboxKind.splits)

lemma decisions_for_Allow:
  "(\<forall>d \<in> decisions_for (exec_paths env) q (request_fallback env req cmds platform) c. d = Allow) \<longleftrightarrow>
     (if rule_matches_of (exec_paths env) q c = [] then runs_unmatched env req (ec_command_origin cmds) platform c
      else \<forall>m \<in> set (rule_matches_of (exec_paths env) q c). match_decision m = Allow)"
  by (simp add: decisions_for_def request_fallback_Allow)

text \<open>C13: a request runs without approval exactly when each of its commands is matched by allowing
  rules only, or by none while it is not called dangerous and the approval policy leaves it to the
  sandbox; and it leaves the sandbox only when a rule matches each command.\<close>

theorem runs_without_approval_iff:
  assumes "ec_commands cmds \<noteq> []"
  shows "(\<exists>amendment. create_exec_approval_requirement_for_parsed_commands env p req cmds platform
        = Some (SkipApproval bypass amendment)) \<longleftrightarrow>
    (\<forall>c \<in> set (ec_commands cmds).
       if rule_matches_of (exec_paths env) (request_policy p req) c = []
       then runs_unmatched env req (ec_command_origin cmds) platform c
       else \<forall>m \<in> set (rule_matches_of (exec_paths env) (request_policy p req) c). match_decision m = Allow)
    \<and> (bypass \<longleftrightarrow> (\<forall>c \<in> set (ec_commands cmds). rule_matches_of (exec_paths env) (request_policy p req) c \<noteq> []))"
proof -
  let ?rm = "rule_matches_of (exec_paths env) (request_policy p req)"
  have by_rule: "allowed_by_rule (exec_paths env) (request_policy p req) c \<longleftrightarrow> ?rm c \<noteq> []"
    if "if ?rm c = [] then runs_unmatched env req (ec_command_origin cmds) platform c
        else \<forall>m \<in> set (?rm c). match_decision m = Allow" for c
    using that by (cases "?rm c") (force simp: allowed_by_rule_iff)+
  show ?thesis
    unfolding skip_iff_decisions [OF assms] decisions_for_Allow
    by (intro conj_cong refl) (use by_rule in \<open>simp cong: ball_cong\<close>)
qed

lemma never_ask_fallback:
  "req_approval_policy req = NeverAsk \<Longrightarrow> request_fallback env req cmds platform c \<noteq> Prompt"
  by (auto simp: render_decision_for_unmatched_command_for_platform_def Let_def request_context_def)

lemma dangerous_fallback:
  "req_approval_policy req = NeverAsk \<Longrightarrow>
     dangerous_command_match_for_origin env c (ec_command_origin cmds) platform \<noteq> None \<Longrightarrow>
     request_fallback env req cmds platform c = Forbidden"
  by (auto simp: render_decision_for_unmatched_command_for_platform_def Let_def request_context_def)

text \<open>C14: with prompts turned off every request is decided without one: it runs or is refused, and it
  is refused when it holds a dangerous command that no rule matches.\<close>

theorem never_ask_decides:
  assumes "ec_commands cmds \<noteq> []" "req_approval_policy req = NeverAsk"
  shows "\<exists>r. create_exec_approval_requirement_for_parsed_commands env p req cmds platform = Some r
    \<and> (\<forall>reason amendment. r \<noteq> NeedsApproval reason amendment)
    \<and> ((\<exists>c \<in> set (ec_commands cmds). rule_matches_of (exec_paths env) (request_policy p req) c = []
          \<and> dangerous_command_match_for_origin env c (ec_command_origin cmds) platform \<noteq> None)
        \<longrightarrow> (\<exists>reason. r = ForbiddenExec reason))"
proof -
  obtain r where r: "create_exec_approval_requirement_for_parsed_commands env p req cmds platform = Some r"
    using requirement_total [OF assms(1)] by blast
  then have asks: "r \<noteq> NeedsApproval reason amendment" for reason amendment
    using assms
    by (auto simp: create_exec_approval_requirement_for_parsed_commands_def check_multiple_matches Let_def
        prompt_requirement_def prompt_is_rejected_by_policy_def split: Decision.splits if_splits)
  have "r \<noteq> SkipApproval bypass amendment"
    if "\<exists>c \<in> set (ec_commands cmds). rule_matches_of (exec_paths env) (request_policy p req) c = []
          \<and> dangerous_command_match_for_origin env c (ec_command_origin cmds) platform \<noteq> None" for bypass amendment
  proof
    assume "r = SkipApproval bypass amendment"
    with r have "\<exists>amendment. create_exec_approval_requirement_for_parsed_commands env p req cmds platform
        = Some (SkipApproval bypass amendment)" by blast
    then have allowed: "\<forall>c \<in> set (ec_commands cmds). \<forall>d \<in> decisions_for (exec_paths env) (request_policy p req)
        (request_fallback env req cmds platform) c. d = Allow"
      unfolding skip_iff_decisions [OF assms(1)] by blast
    from that obtain c where c: "c \<in> set (ec_commands cmds)" "rule_matches_of (exec_paths env) (request_policy p req) c = []"
      "dangerous_command_match_for_origin env c (ec_command_origin cmds) platform \<noteq> None" by blast
    with allowed have "request_fallback env req cmds platform c = Allow" by (simp add: decisions_for_def)
    with dangerous_fallback [OF assms(2) c(3)] show False by simp
  qed
  with r asks show ?thesis by (cases r) blast+
qed

text \<open>An executable that is evaluated beside its apparent commands has to be allowed by itself.\<close>

lemma first_command_must_be_allowed:
  assumes "create_exec_approval_requirement_for_parsed_commands env p req
      (cmds\<lparr>ec_commands := executable # commands\<rparr>) platform = Some (SkipApproval bypass amendment)"
  shows "\<exists>bypass amendment. create_exec_approval_requirement_for_parsed_commands env p req
      (cmds\<lparr>ec_commands := [executable]\<rparr>) platform = Some (SkipApproval bypass amendment)"
proof -
  let ?one = "cmds\<lparr>ec_commands := [executable]\<rparr>" and ?all = "cmds\<lparr>ec_commands := executable # commands\<rparr>"
  from assms have "\<exists>amendment. create_exec_approval_requirement_for_parsed_commands env p req ?all platform
      = Some (SkipApproval bypass amendment)" by blast
  then have "\<exists>amendment. create_exec_approval_requirement_for_parsed_commands env p req ?one platform
      = Some (SkipApproval (allowed_by_rule (exec_paths env) (request_policy p req) executable) amendment)"
    by (simp add: skip_iff_decisions)
  then show ?thesis by blast
qed

section \<open>Ignoring allowing rules\<close>

lemma without_allow_values:
  assumes "mm_ok (rules_by_program p)"
  shows "mm_values (rules_by_program (without_allow_rules p)) k =
    filter (\<lambda>r. rule_decision r \<noteq> Allow) (mm_values (rules_by_program p) k)"
proof -
  let ?f = "\<lambda>(program, rules). (program, filter (\<lambda>r. rule_decision r \<noteq> Allow) rules)"
  have vals: "mm_values (map ?f m) k = filter (\<lambda>r. rule_decision r \<noteq> Allow) (mm_values m k)" for m
    by (induction m) (auto simp: mm_values_def mm_get_vec_def)
  have "mm_ok (map ?f (rules_by_program p))"
    using assms by (simp add: mm_ok_def comp_def case_prod_beta)
  then show ?thesis
    by (simp add: without_allow_rules_def policy_from_parts_def mm_values_insert_all vals)
       (simp add: mm_values_def mm_get_vec_def)
qed

lemma map_filter_rules:
  "List.map_filter (\<lambda>r. rule_matches r c) (filter (\<lambda>r. rule_decision r \<noteq> Allow) rs)
    = filter (\<lambda>m :: 'a RuleMatch. match_decision m \<noteq> Allow) (List.map_filter (\<lambda>r. rule_matches r c) rs)"
proof (induction rs)
  case (Cons r rs)
  have "match_decision m = rule_decision r" if "rule_matches r c = Some m" for m :: "'a RuleMatch"
    using that by (rule rule_matches_decision)
  with Cons show ?case
    by (cases "rule_matches r c :: 'a RuleMatch option") (auto simp: map_filter_simps)
qed (simp add: map_filter_simps)

lemma exact_without_allow:
  "mm_ok (rules_by_program p) \<Longrightarrow>
     exact_matches (without_allow_rules p) c = filter (\<lambda>m. match_decision m \<noteq> Allow) (exact_matches p c)"
  by (simp add: exact_matches_eq without_allow_values map_filter_rules)

lemma exact_merge:
  "mm_ok (rules_by_program q) \<Longrightarrow> exact_matches (merge_overlay p q) c = exact_matches p c @ exact_matches q c"
  by (simp add: exact_matches_eq merge_overlay_rules mm_values_insert_all map_filter_append)

lemma host_executables_merge:
  "host_executables_by_name (merge_overlay p q) = host_executables_by_name p ++ host_executables_by_name q"
  by (simp add: merge_overlay_def policy_from_parts_def)

text \<open>What the host executables make of a command: the program and the command under its name.\<close>

definition host_command ::
  "'a host_paths \<Rightarrow> (rstr \<Rightarrow> 'a list option) \<Rightarrow> rstr list \<Rightarrow> ('a \<times> rstr list) option" where
  "host_command hp hosts c =
     (case c of [] \<Rightarrow> None
      | first # args \<Rightarrow>
          Option.bind (absolute_path hp first) (\<lambda>program.
          Option.bind (executable_path_lookup_key hp program) (\<lambda>name.
            if opt_is_some_and (\<lambda>paths. program \<notin> set paths) (hosts name) then None
            else Some (program, name # args))))"

lemma host_matches_eq:
  "match_host_executable_rules hp p c =
     (case host_command hp (host_executables_by_name p) c of None \<Rightarrow> []
      | Some (program, c') \<Rightarrow> map (with_resolved_program program) (exact_matches p c'))"
  by (auto simp: match_host_executable_rules_def host_command_def exact_matches_eq mm_values_def
      map_filter_simps split: list.splits option.splits)

text \<open>A policy that lacks only allowing rules of another.\<close>

definition lacks_allow_rules :: "'a Policy \<Rightarrow> 'a Policy \<Rightarrow> bool" where
  "lacks_allow_rules p' p \<longleftrightarrow>
     host_executables_by_name p' = host_executables_by_name p
     \<and> (\<forall>c. set (exact_matches p' c) \<subseteq> set (exact_matches p c)
          \<and> (\<forall>m \<in> set (exact_matches p c). m \<in> set (exact_matches p' c) \<or> match_decision m = Allow))"

lemma lacks_allow_rules_request:
  assumes "policy_ok p" "case environment_policy of None \<Rightarrow> True | Some q \<Rightarrow> policy_ok q"
  shows "lacks_allow_rules (current_for_environment p environment_policy IgnoreForCyberModel)
    (current_for_environment p environment_policy Honor)"
proof -
  note ok = policy_ok_mm [OF assms(1)]
  have hosts: "host_executables_by_name (without_allow_rules p) = host_executables_by_name p"
    by (simp add: without_allow_rules_def policy_from_parts_def)
  show ?thesis
  proof (cases environment_policy)
    case None
    then show ?thesis
      by (auto simp: current_for_environment_def current_for_prefix_rules_def lacks_allow_rules_def
          hosts exact_without_allow [OF ok])
  next
    case (Some q)
    with assms(2) have "mm_ok (rules_by_program q)" by (simp add: policy_ok_mm)
    from exact_merge [OF this] Some show ?thesis
      by (auto simp: current_for_environment_def current_for_prefix_rules_def lacks_allow_rules_def
          Let_def host_executables_merge hosts exact_without_allow [OF ok])
  qed
qed

lemma lacking_rules_matches:
  assumes "lacks_allow_rules p' p"
  shows "(rule_matches_of hp p c = [] \<longrightarrow> rule_matches_of hp p' c = [])
    \<and> ((\<forall>m \<in> set (rule_matches_of hp p' c). match_decision m = Allow) \<longrightarrow>
         (\<forall>m \<in> set (rule_matches_of hp p c). match_decision m = Allow))"
proof -
  have exact: "set (exact_matches p' c) \<subseteq> set (exact_matches p c)"
    "\<forall>m \<in> set (exact_matches p c). m \<in> set (exact_matches p' c) \<or> match_decision m = Allow" for c
    using assms by (simp_all add: lacks_allow_rules_def)
  have host: "set (match_host_executable_rules hp p' c) \<subseteq> set (match_host_executable_rules hp p c)
    \<and> (\<forall>m \<in> set (match_host_executable_rules hp p c).
        m \<in> set (match_host_executable_rules hp p' c) \<or> match_decision m = Allow)"
    using assms exact
    by (cases "host_command hp (host_executables_by_name p) c")
       (fastforce simp: host_matches_eq lacks_allow_rules_def)+
  show ?thesis
    using exact [of c] host
    by (cases "exact_matches p' c = []"; cases "exact_matches p c = []") (auto simp: rule_matches_of_eq)
qed

lemma lacking_rules_decisions:
  assumes "lacks_allow_rules p' p" "\<forall>d \<in> decisions_for hp p' f c. d = Allow"
  shows "\<forall>d \<in> decisions_for hp p f c. d = Allow"
proof (cases "rule_matches_of hp p c = []")
  case True
  with lacking_rules_matches [OF assms(1)] have "rule_matches_of hp p' c = []" by blast
  with True assms(2) show ?thesis by (simp add: decisions_for_def)
next
  case False
  have "\<forall>m \<in> set (rule_matches_of hp p' c). match_decision m = Allow"
    using assms(2) by (auto simp: decisions_for_def split: if_splits)
  then have "\<forall>m \<in> set (rule_matches_of hp p c). match_decision m = Allow"
    using lacking_rules_matches [OF assms(1)] by blast
  with False show ?thesis by (simp add: decisions_for_def)
qed

text \<open>C16: for a model that does not honor allowing prefix rules, ignoring them only restricts: a
  request that still runs without approval runs with them as well, leaves the sandbox only if it does
  with them, and proposes no rule.\<close>

theorem ignoring_allow_rules_restricts:
  assumes "policy_ok p" "case req_environment_policy req of None \<Rightarrow> True | Some q \<Rightarrow> policy_ok q"
    and "ec_commands cmds \<noteq> []"
    and "create_exec_approval_requirement_for_parsed_commands env p
      (req\<lparr>req_allow_prefix_rules := IgnoreForCyberModel\<rparr>) cmds platform = Some (SkipApproval bypass amendment)"
  shows "amendment = None \<and> (\<exists>bypass' amendment'.
    create_exec_approval_requirement_for_parsed_commands env p
      (req\<lparr>req_allow_prefix_rules := Honor\<rparr>) cmds platform = Some (SkipApproval bypass' amendment')
    \<and> (bypass \<longrightarrow> bypass'))"
proof
  let ?ignore = "req\<lparr>req_allow_prefix_rules := IgnoreForCyberModel\<rparr>" and ?honor = "req\<lparr>req_allow_prefix_rules := Honor\<rparr>"
  let ?hp = "exec_paths env"
  let ?rm' = "rule_matches_of ?hp (request_policy p ?ignore)" and ?rm = "rule_matches_of ?hp (request_policy p ?honor)"
  show "amendment = None"
    using assms(3,4)
    by (auto simp: create_exec_approval_requirement_for_parsed_commands_def check_multiple_matches Let_def
        prompt_requirement_def split: Decision.splits option.splits if_splits)
  have lacks: "lacks_allow_rules (request_policy p ?ignore) (request_policy p ?honor)"
    using lacks_allow_rules_request [OF assms(1,2)] by simp
  note lacking = lacking_rules_matches [OF lacks, of ?hp] and decisions = lacking_rules_decisions [OF lacks, of ?hp]
  have same_context: "request_context ?honor origin = request_context ?ignore origin" for origin
    by (simp add: request_context_def)
  from assms(4) have "\<exists>amendment. create_exec_approval_requirement_for_parsed_commands env p ?ignore cmds platform
      = Some (SkipApproval bypass amendment)" by blast
  then have skip: "\<forall>c \<in> set (ec_commands cmds). \<forall>d \<in> decisions_for ?hp (request_policy p ?ignore)
        (request_fallback env ?ignore cmds platform) c. d = Allow"
    and bypass: "bypass \<longleftrightarrow> (\<forall>c \<in> set (ec_commands cmds). allowed_by_rule ?hp (request_policy p ?ignore) c)"
    unfolding skip_iff_decisions [OF assms(3)] by blast+
  let ?b = "\<forall>c \<in> set (ec_commands cmds). allowed_by_rule ?hp (request_policy p ?honor) c"
  have "\<exists>amendment. create_exec_approval_requirement_for_parsed_commands env p ?honor cmds platform
      = Some (SkipApproval ?b amendment)"
    using skip decisions unfolding skip_iff_decisions [OF assms(3)] same_context by blast
  moreover have "bypass \<longrightarrow> ?b"
  proof
    assume bypass
    show ?b
    proof
      fix c assume c: "c \<in> set (ec_commands cmds)"
      with \<open>bypass\<close> bypass have "?rm' c \<noteq> []" by (auto simp: allowed_by_rule_iff)
      with lacking [of c] have "?rm c \<noteq> []" by blast
      moreover from c skip decisions have "\<forall>d \<in> decisions_for ?hp (request_policy p ?honor)
          (request_fallback env ?ignore cmds platform) c. d = Allow" by blast
      ultimately show "allowed_by_rule ?hp (request_policy p ?honor) c"
        by (cases "?rm c") (auto simp: decisions_for_def allowed_by_rule_iff)
    qed
  qed
  ultimately show "\<exists>bypass' amendment'. create_exec_approval_requirement_for_parsed_commands env p ?honor cmds platform
      = Some (SkipApproval bypass' amendment') \<and> (bypass \<longrightarrow> bypass')" by blast
qed

section \<open>Accepting an amendment\<close>

lemma rule_matches_longer: "rule_matches r c \<noteq> None \<Longrightarrow> rule_matches r (c @ suff) \<noteq> None"
  by (auto simp: rule_matches_None is_prefix_match_def)

lemma exact_matches_longer:
  fixes p :: "'a Policy"
  assumes "exact_matches p c \<noteq> []"
  shows "exact_matches p (c @ suff) \<noteq> []"
proof -
  from assms obtain r where "c \<noteq> []" "r \<in> set (mm_values (rules_by_program p) (hd c))"
    "rule_matches r c \<noteq> (None :: 'a RuleMatch option)"
    unfolding exact_matches_not_Nil by blast
  with rule_matches_longer [OF this(3)] show ?thesis
    unfolding exact_matches_not_Nil by (intro conjI bexI [of _ r]) simp_all
qed

lemma add_prefix_rule_values:
  assumes "add_prefix_rule am Allow p = Inr p'"
  shows "am \<noteq> [] \<and> host_executables_by_name p' = host_executables_by_name p
    \<and> mm_values (rules_by_program p') k = mm_values (rules_by_program p) k @
        (if k = hd am then [\<lparr>rule_pattern = \<lparr>pat_first = hd am, pat_rest = map Single (tl am)\<rparr>,
            rule_decision = Allow, rule_justification = None\<rparr>] else [])"
  using assms by (auto simp: add_prefix_rule_def mm_values_insert split: list.splits)

text \<open>The commands a new rule adds a match to.\<close>

lemma add_prefix_rule_exact:
  fixes p :: "'a Policy"
  assumes "add_prefix_rule am Allow p = Inr p'"
  shows "exact_matches p' c = exact_matches p c @
    (if c \<noteq> [] \<and> take (length am) c = am then [PrefixRuleMatch am Allow None None] else [])"
proof (cases c)
  case Nil
  then show ?thesis by (simp add: exact_matches_eq)
next
  case (Cons first args)
  let ?r = "\<lparr>rule_pattern = \<lparr>pat_first = hd am, pat_rest = map Single (tl am)\<rparr>,
            rule_decision = Allow, rule_justification = None\<rparr>"
  note new = add_prefix_rule_values [OF assms]
  then have tokens: "pattern_tokens (rule_pattern ?r) = map Single am"
    by (cases am) (simp_all add: pattern_tokens_def)
  have new_match: "rule_matches ?r c = (if take (length am) c = am then Some (PrefixRuleMatch am Allow None None :: 'a RuleMatch) else None)"
  proof (cases "take (length am) c = am")
    case True
    then have "matches_prefix (rule_pattern ?r) c = Some am"
      unfolding matches_prefix_iff tokens by (simp add: is_prefix_match_literal)
    with True show ?thesis by (simp add: rule_matches_def)
  next
    case False
    then have "rule_matches ?r c = (None :: 'a RuleMatch option)"
      unfolding rule_matches_None tokens by (simp add: is_prefix_match_literal)
    with False show ?thesis by simp
  qed
  have head: "hd c = hd am" if "take (length am) c = am"
    using that new Cons by (cases am) auto
  have exact: "exact_matches p' c = exact_matches p c
      @ List.map_filter (\<lambda>r. rule_matches r c) (if hd c = hd am then [?r] else [])"
    using add_prefix_rule_values [OF assms, of "hd c"] by (simp add: exact_matches_eq Cons map_filter_append)
  show ?thesis
  proof (cases "take (length am) c = am")
    case True
    have "c \<noteq> []" using Cons by simp
    then show ?thesis unfolding exact head [OF True] using True new_match by (simp add: map_filter_simps)
  next
    case False
    then show ?thesis unfolding exact using new_match by (simp add: map_filter_simps)
  qed
qed

lemma host_command_longer:
  "host_command hp hosts am = Some (program, c) \<Longrightarrow> host_command hp hosts (am @ suff) = Some (program, c @ suff)"
  by (auto simp: host_command_def bind_eq_Some_conv split: list.splits if_splits)

text \<open>The name of an executable is not a path.\<close>

definition names_are_relative :: "'a host_paths \<Rightarrow> bool" where
  "names_are_relative hp \<longleftrightarrow>
     (\<forall>program name. executable_path_lookup_key hp program = Some name \<longrightarrow> absolute_path hp name = None)"

text \<open>A rule that is new for a command is not there yet.\<close>

lemma new_rule_not_there:
  assumes add: "add_prefix_rule am Allow p = Inr p'" and names: "names_are_relative hp"
    and before: "rule_matches_of hp p c = []" and after: "rule_matches_of hp p' c \<noteq> []"
  shows "rule_matches_of hp p am = []"
proof (rule ccontr)
  assume there: "rule_matches_of hp p am \<noteq> []"
  have none: "exact_matches p c = []" "match_host_executable_rules hp p c = []"
    using before by (auto simp: rule_matches_of_eq split: if_splits)
  have longer: "\<exists>suff. x = am @ suff" if "exact_matches p x = []" "exact_matches p' x \<noteq> []" for x
  proof -
    from that add_prefix_rule_exact [OF add, of x] have "take (length am) x = am" by (simp split: if_splits)
    then show ?thesis by (metis append_take_drop_id)
  qed
  from there consider (exact) "exact_matches p am \<noteq> []"
    | (host) "match_host_executable_rules hp p am \<noteq> []"
    by (auto simp: rule_matches_of_eq split: if_splits)
  note there = this
  from after consider "exact_matches p' c \<noteq> []" | "match_host_executable_rules hp p' c \<noteq> []"
    by (auto simp: rule_matches_of_eq split: if_splits)
  then show False
  proof cases
    case 1
    with longer none obtain suff where c: "c = am @ suff" by blast
    from there show False
    proof cases
      case exact
      with none(1) exact_matches_longer c show False by blast
    next
      case host
      then obtain program am' where "host_command hp (host_executables_by_name p) am = Some (program, am')"
        "exact_matches p am' \<noteq> []" by (auto simp: host_matches_eq split: option.splits)
      then have "match_host_executable_rules hp p c \<noteq> []"
        using exact_matches_longer [of p am' suff] host_command_longer [of hp _ am program am' suff]
        by (simp add: host_matches_eq c)
      with none(2) show False by simp
    qed
  next
    case 2
    then obtain program c' where c': "host_command hp (host_executables_by_name p) c = Some (program, c')"
      "exact_matches p' c' \<noteq> []"
      using add_prefix_rule_values [OF add] by (auto simp: host_matches_eq split: option.splits)
    then have "exact_matches p c' = []" using none(2) by (simp add: host_matches_eq)
    with c' longer obtain suff where suff: "c' = am @ suff" by blast
    from there show False
    proof cases
      case exact
      with \<open>exact_matches p c' = []\<close> exact_matches_longer suff show False by blast
    next
      case host
      then obtain first args where am: "am = first # args" "absolute_path hp first \<noteq> None"
        by (auto simp: match_host_executable_rules_def split: list.splits option.splits)
      from c'(1) obtain name where "executable_path_lookup_key hp program = Some name" "hd c' = name"
        by (auto simp: host_command_def bind_eq_Some_conv split: list.splits if_splits)
      with am suff names show False by (auto simp: names_are_relative_def)
    qed
  qed
qed

lemma heuristic_command_Some: "heuristic_command d m = Some c \<longleftrightarrow> m = HeuristicsRuleMatch c d"
  by (cases m) auto

text \<open>When an amendment is proposed with a question, no rule matches some command the heuristics ask
  about, and once the rule is there they allow every command, or the amendment is that command.\<close>

lemma proposed_amendment:
  assumes cmds: "ec_commands cmds \<noteq> []" and env_policy: "req_environment_policy req = None"
    and asks: "create_exec_approval_requirement_for_parsed_commands env p req cmds platform
      = Some (NeedsApproval reason (Some am))"
  defines "hp \<equiv> exec_paths env" and "f \<equiv> request_fallback env req cmds platform"
  shows "req_allow_prefix_rules req = Honor
    \<and> (\<exists>c \<in> set (ec_commands cmds). rule_matches_of hp p c = [] \<and> f c \<noteq> Allow
        \<and> (c = am \<or> (\<exists>p'. add_prefix_rule am Allow p = Inr p'
            \<and> (\<forall>c \<in> set (ec_commands cmds). \<forall>d \<in> decisions_for hp p' f c. d = Allow))))"
proof -
  let ?ms = "concat (map (\<lambda>c. matches_for_command_with_options hp p c (Some f) match_options) (ec_commands cmds))"
  have honor: "req_allow_prefix_rules req = Honor"
    using asks cmds
    by (cases "req_allow_prefix_rules req")
       (auto simp: create_exec_approval_requirement_for_parsed_commands_def check_multiple_matches Let_def
        prompt_requirement_def requested_amendment_def split: Decision.splits option.splits if_splits)
  then have policy: "request_policy p req = p"
    by (simp add: current_for_environment_def current_for_prefix_rules_def env_policy)
  let ?ev = "\<lparr>ev_decision = Max (\<Union>c \<in> set (ec_commands cmds). decisions_for hp p f c), ev_matched_rules = ?ms\<rparr>"
  have asked: "Max (\<Union>c \<in> set (ec_commands cmds). decisions_for hp p f c) = Prompt
    \<and> (requested_amendment env p req cmds f ?ev = Some am
        \<or> try_derive_execpolicy_amendment_for_prompt_rules ?ms = Some am)"
    using asks unfolding create_exec_approval_requirement_for_parsed_commands_def policy
      check_multiple_matches [OF cmds] hp_def f_def
    by (auto simp: Let_def prompt_requirement_def honor split: Decision.splits option.splits if_splits)
  have heuristic: "HeuristicsRuleMatch c d \<in> set ?ms \<Longrightarrow>
      c \<in> set (ec_commands cmds) \<and> rule_matches_of hp p c = [] \<and> f c = d" for c d
    using rule_matches_of_policy by (force simp: matches_with_fallback split: if_splits)
  from asked show ?thesis
  proof (elim conjE disjE)
    assume "try_derive_execpolicy_amendment_for_prompt_rules ?ms = Some am"
    then have "HeuristicsRuleMatch am Prompt \<in> set ?ms"
      by (auto simp: try_derive_execpolicy_amendment_for_prompt_rules_def heuristic_command_Some
          dest!: find_map_Some split: if_splits)
    with heuristic [of am Prompt] honor show ?thesis by auto
  next
    assume prompt: "Max (\<Union>c \<in> set (ec_commands cmds). decisions_for hp p f c) = Prompt"
      and "requested_amendment env p req cmds f ?ev = Some am"
    then have unmatched: "\<not> list_ex is_policy_match ?ms"
      and approve: "prefix_rule_would_approve_all_commands hp p am (ec_commands cmds) f"
      by (auto simp: requested_amendment_def hp_def
          derive_requested_execpolicy_amendment_from_prefix_rule_def bind_eq_Some_conv split: if_splits)
    from approve obtain p' where p': "add_prefix_rule am Allow p = Inr p'"
      and "\<forall>c \<in> set (ec_commands cmds). Max (decisions_for hp p' f c) = Allow"
      by (auto simp: prefix_rule_would_approve_all_commands_def check_one_matches list_all_iff split: sum.splits)
    then have allowed: "\<forall>c \<in> set (ec_commands cmds). \<forall>d \<in> decisions_for hp p' f c. d = Allow"
      using Max_decision_Allow [OF decisions_for_not_empty(2,1)] by blast
    have "finite (\<Union>c \<in> set (ec_commands cmds). decisions_for hp p f c)" by simp
    moreover have "(\<Union>c \<in> set (ec_commands cmds). decisions_for hp p f c) \<noteq> {}" using cmds by auto
    ultimately have "Prompt \<in> (\<Union>c \<in> set (ec_commands cmds). decisions_for hp p f c)"
      using Max_in prompt by metis
    then obtain c where c: "c \<in> set (ec_commands cmds)" "Prompt \<in> decisions_for hp p f c" by blast
    have "rule_matches_of hp p c = []"
    proof (rule ccontr)
      assume ne: "rule_matches_of hp p c \<noteq> []"
      then have "hd (rule_matches_of hp p c) \<in> set (rule_matches_of hp p c)" by simp
      then have m: "is_policy_match (hd (rule_matches_of hp p c))" by (rule rule_matches_of_policy)
      have "hd (rule_matches_of hp p c) \<in> set (matches_for_command_with_options hp p c (Some f) match_options)"
        using ne by (simp add: matches_with_fallback)
      with c(1) have "hd (rule_matches_of hp p c) \<in> set ?ms" unfolding set_concat set_map by blast
      with m unmatched show False by (auto simp: list_ex_iff)
    qed
    with c honor p' allowed show ?thesis by (auto simp: decisions_for_def)
  qed
qed


section \<open>Examples\<close>

definition sample_exec_env :: "rstr exec_env" where
  "sample_exec_env = \<lparr>split_words = (\<lambda>_. None), url_scheme = (\<lambda>_. None),
     parse_shell = (\<lambda>source. if source = lit ''rm -f a'' then Some sample_tree else None),
     exec_paths = sample_paths, exec_policy_env = Permission_Intersection.sample_env,
     powershell_commands = (\<lambda>_. None), join_words = (\<lambda>_. None)\<rparr>"

definition sample_request :: "AskForApproval \<Rightarrow> SandboxPermissions \<Rightarrow> rstr list \<Rightarrow> rstr ExecApprovalRequest" where
  "sample_request policy permissions command =
     \<lparr>req_command = command, req_approval_policy = policy,
      req_permission_profile = Managed (ManagedRestricted [] None) NetworkRestricted,
      req_environment_policy = None, req_windows_sandbox_level = SandboxDisabled,
      req_sandbox_permissions = permissions, req_prefix_rule = Some [lit ''cargo'', lit ''test''],
      req_allow_prefix_rules = Honor\<rparr>"

definition sample_commands :: "rstr list \<Rightarrow> ExecPolicyCommands" where
  "sample_commands command = \<lparr>ec_commands = [command], ec_command_origin = GenericOrigin\<rparr>"

definition sample_cargo :: "rstr list" where
  "sample_cargo = [lit ''cargo'', lit ''test'', lit ''-q'']"

definition sample_manager :: "rstr ExecPolicyManager" where
  "sample_manager = \<lparr>current_policy = Exec_Policy.sample_policy, policy_file = []\<rparr>"

lemma sample_requirements:
  "create_exec_approval_requirement_for_parsed_commands sample_exec_env Exec_Policy.sample_policy
     (sample_request NeverAsk UseDefault [lit ''git'', lit ''log'']) (sample_commands [lit ''git'', lit ''log'']) DangerousCommandPlatform.Posix
   = Some (SkipApproval True None)"
  "create_exec_approval_requirement_for_parsed_commands sample_exec_env Exec_Policy.sample_policy
     (sample_request OnRequest RequireEscalated sample_cargo) (sample_commands sample_cargo) DangerousCommandPlatform.Posix
   = Some (NeedsApproval None (Some [lit ''cargo'', lit ''test'']))"
  by code_simp+

lemma sample_commands_not_empty: "ec_commands (sample_commands c) \<noteq> []"
  by (simp add: sample_commands_def)

theorem runs_without_approval_iff_witness:
  "rule_matches_of (exec_paths sample_exec_env) (request_policy Exec_Policy.sample_policy
     (sample_request NeverAsk UseDefault [lit ''git'', lit ''log''])) [lit ''git'', lit ''log''] \<noteq> []"
proof -
  let ?c = "[lit ''git'', lit ''log'']"
  have "\<exists>amendment. create_exec_approval_requirement_for_parsed_commands sample_exec_env Exec_Policy.sample_policy
      (sample_request NeverAsk UseDefault ?c) (sample_commands ?c) DangerousCommandPlatform.Posix
    = Some (SkipApproval True amendment)"
    using sample_requirements(1) by blast
  then have "\<forall>c \<in> set (ec_commands (sample_commands ?c)). rule_matches_of (exec_paths sample_exec_env)
      (request_policy Exec_Policy.sample_policy (sample_request NeverAsk UseDefault ?c)) c \<noteq> []"
    unfolding runs_without_approval_iff [OF sample_commands_not_empty] by blast
  then show ?thesis by (simp add: sample_commands_def)
qed

theorem never_ask_decides_witness:
  "\<exists>reason. create_exec_approval_requirement_for_parsed_commands sample_exec_env Exec_Policy.sample_policy
     (sample_request NeverAsk UseDefault sample_rm) (sample_commands sample_rm) DangerousCommandPlatform.Posix
   = Some (ForbiddenExec reason)"
proof -
  have "rule_matches_of (exec_paths sample_exec_env) (request_policy Exec_Policy.sample_policy
      (sample_request NeverAsk UseDefault sample_rm)) sample_rm = []"
    "dangerous_command_match_for_origin sample_exec_env sample_rm GenericOrigin DangerousCommandPlatform.Posix = Some ForcedRm"
    by code_simp+
  moreover have "req_approval_policy (sample_request NeverAsk UseDefault sample_rm) = NeverAsk"
    by (simp add: sample_request_def)
  ultimately show ?thesis
    using never_ask_decides [OF sample_commands_not_empty, of "sample_request NeverAsk UseDefault sample_rm" sample_exec_env
        Exec_Policy.sample_policy sample_rm DangerousCommandPlatform.Posix]
    by (auto simp: sample_commands_def)
qed

theorem ignoring_allow_rules_restricts_witness:
  "\<exists>bypass amendment. create_exec_approval_requirement_for_parsed_commands sample_exec_env Exec_Policy.sample_policy
     ((sample_request OnRequest UseDefault sample_cargo)\<lparr>req_allow_prefix_rules := Honor\<rparr>)
     (sample_commands sample_cargo) DangerousCommandPlatform.Posix = Some (SkipApproval bypass amendment)"
proof -
  have "create_exec_approval_requirement_for_parsed_commands sample_exec_env Exec_Policy.sample_policy
      ((sample_request OnRequest UseDefault sample_cargo)\<lparr>req_allow_prefix_rules := IgnoreForCyberModel\<rparr>)
      (sample_commands sample_cargo) DangerousCommandPlatform.Posix = Some (SkipApproval False None)" by code_simp
  from ignoring_allow_rules_restricts [OF sample_policy_ok(1) _ sample_commands_not_empty this] show ?thesis
    by (auto simp: sample_request_def)
qed


end
