(* ===== verification/Exec_Loading.thy ===== *)
theory Exec_Loading
  imports Approval_Safety
begin

text \<open>
  Loading the policy of a session (\<open>core/src/exec_policy.rs\<close>) from the rule files of the
  configuration layers (\<open>config/src/config_layer_source.rs\<close> and \<open>config/src/state.rs\<close>), with the
  policy the requirements demand laid over it.

  The file system is an argument, and so is the Starlark interpreter: it says which builtins a file
  calls, or its own error, after which the parser is dropped. The position of an error in its file
  and its rendering are left out.
\<close>

section \<open>Configuration layers\<close>

datatype ConfigLayerSource =
    PackagedDefaults rstr
  | Mdm rstr rstr
  | System rstr
  | EnterpriseManaged rstr rstr
  | User rstr "rstr option"
  | Project rstr
  | SessionFlags
  | LegacyManagedConfigTomlFromFile rstr
  | LegacyManagedConfigTomlFromMdm

record ConfigLayerEntry =
  layer_source :: ConfigLayerSource
  disabled_reason :: "rstr option"

record 'a ConfigLayerStack =
  config_layers :: "ConfigLayerEntry list"
  ignore_user_and_project_exec_policy_rules :: bool
  requirements_exec_policy :: "'a Policy option"

record dir_entry =
  entry_path :: rstr
  entry_extension :: "rstr option"
  entry_is_file :: "rstr + bool"

record rules_fs =
  path_parent_of :: "rstr \<Rightarrow> rstr option"
  path_join :: "rstr \<Rightarrow> rstr \<Rightarrow> rstr"
  dir_missing :: "rstr \<Rightarrow> bool"
  read_dir :: "rstr \<Rightarrow> rstr + (rstr + dir_entry) list"
  read_to_string :: "rstr \<Rightarrow> rstr + rstr"
  starlark_calls :: "rstr \<Rightarrow> rstr \<Rightarrow> rstr + builtin_call list"

definition is_disabled :: "ConfigLayerEntry \<Rightarrow> bool" where
  "is_disabled layer \<longleftrightarrow> disabled_reason layer \<noteq> None"

definition layers_low_to_high :: "'a ConfigLayerStack \<Rightarrow> ConfigLayerEntry list" where
  "layers_low_to_high stack = filter (\<lambda>layer. \<not> is_disabled layer) (config_layers stack)"

definition config_folder :: "rules_fs \<Rightarrow> ConfigLayerEntry \<Rightarrow> rstr option" where
  "config_folder fs layer =
     (case layer_source layer of
        System file \<Rightarrow> path_parent_of fs file
      | User file _ \<Rightarrow> path_parent_of fs file
      | Project dot_codex_folder \<Rightarrow> Some dot_codex_folder
      | _ \<Rightarrow> None)"

fun is_user_or_project :: "ConfigLayerSource \<Rightarrow> bool" where
  "is_user_or_project (User _ _) = True"
| "is_user_or_project (Project _) = True"
| "is_user_or_project _ = False"

section \<open>Rule files\<close>

datatype ExecPolicyError =
    ReadDirError rstr rstr
  | ReadFileError rstr rstr
  | ParsePolicyError rstr "rstr + policy_error"

definition read_entry :: "rstr \<Rightarrow> rstr + dir_entry \<Rightarrow> ExecPolicyError + rstr list" where
  "read_entry dir result =
     (case result of
        Inl e \<Rightarrow> Inl (ReadDirError dir e)
      | Inr ent \<Rightarrow>
          (case entry_is_file ent of
             Inl e \<Rightarrow> Inl (ReadDirError dir e)
           | Inr is_file \<Rightarrow>
               Inr (if entry_extension ent = Some (lit ''rules'') \<and> is_file then [entry_path ent] else [])))"

definition collect_policy_files :: "rules_fs \<Rightarrow> rstr \<Rightarrow> ExecPolicyError + rstr list" where
  "collect_policy_files fs dir =
     (if dir_missing fs dir then Inr []
      else case read_dir fs dir of
        Inl e \<Rightarrow> Inl (ReadDirError dir e)
      | Inr entries \<Rightarrow>
          bind_result (collect_results (read_entry dir) entries) (\<lambda>paths. Inr (sort (concat paths))))"

definition layer_policy_files :: "rules_fs \<Rightarrow> 'a ConfigLayerStack \<Rightarrow> ConfigLayerEntry \<Rightarrow> ExecPolicyError + rstr list" where
  "layer_policy_files fs stack layer =
     (if ignore_user_and_project_exec_policy_rules stack \<and> is_user_or_project (layer_source layer) then Inr []
      else case config_folder fs layer of
        None \<Rightarrow> Inr []
      | Some folder \<Rightarrow> collect_policy_files fs (path_join fs folder (lit ''rules'')))"

fun parse_policy_files ::
  "rules_fs \<Rightarrow> 'a parse_env \<Rightarrow> ('a RuleMatch \<Rightarrow> rstr) \<Rightarrow> rstr list \<Rightarrow> 'a PolicyBuilder
     \<Rightarrow> ExecPolicyError + 'a PolicyBuilder" where
  "parse_policy_files fs env render [] builder = Inr builder"
| "parse_policy_files fs env render (path # paths) builder =
     (case read_to_string fs path of
        Inl e \<Rightarrow> Inl (ReadFileError path e)
      | Inr contents \<Rightarrow>
          (case starlark_calls fs path contents of
             Inl e \<Rightarrow> Inl (ParsePolicyError path (Inl e))
           | Inr calls \<Rightarrow>
               (case parse_policy env render calls builder of
                  (Inl e, _) \<Rightarrow> Inl (ParsePolicyError path (Inr e))
                | (Inr _, builder') \<Rightarrow> parse_policy_files fs env render paths builder')))"

definition load_exec_policy ::
  "rules_fs \<Rightarrow> 'a parse_env \<Rightarrow> ('a RuleMatch \<Rightarrow> rstr) \<Rightarrow> 'a ConfigLayerStack \<Rightarrow> ExecPolicyError + 'a Policy" where
  "load_exec_policy fs env render stack =
     bind_result (collect_results (layer_policy_files fs stack) (layers_low_to_high stack)) (\<lambda>policy_paths.
     bind_result (parse_policy_files fs env render (concat policy_paths) new_builder) (\<lambda>builder.
       Inr (case requirements_exec_policy stack of
              None \<Rightarrow> build_policy builder
            | Some requirements_policy \<Rightarrow> merge_overlay (build_policy builder) requirements_policy)))"

definition load_exec_policy_with_warning ::
  "rules_fs \<Rightarrow> 'a parse_env \<Rightarrow> ('a RuleMatch \<Rightarrow> rstr) \<Rightarrow> 'a ConfigLayerStack
     \<Rightarrow> ExecPolicyError + ('a Policy \<times> ExecPolicyError option)" where
  "load_exec_policy_with_warning fs env render stack =
     (case load_exec_policy fs env render stack of
        Inr policy \<Rightarrow> Inr (policy, None)
      | Inl err \<Rightarrow>
          (case err of
             ParsePolicyError _ _ \<Rightarrow>
               Inr (case requirements_exec_policy stack of None \<Rightarrow> empty_policy | Some policy \<Rightarrow> policy, Some err)
           | _ \<Rightarrow> Inl err))"

definition child_uses_parent_exec_policy ::
  "rules_fs \<Rightarrow> (PrefixRule \<Rightarrow> rstr) \<Rightarrow> 'a ConfigLayerStack \<Rightarrow> 'a ConfigLayerStack \<Rightarrow> bool" where
  "child_uses_parent_exec_policy fs render parent_stack child_stack \<longleftrightarrow>
     List.map_filter (config_folder fs) (layers_low_to_high parent_stack)
       = List.map_filter (config_folder fs) (layers_low_to_high child_stack)
     \<and> ignore_user_and_project_exec_policy_rules parent_stack = ignore_user_and_project_exec_policy_rules child_stack
     \<and> map_option (fingerprint render) (requirements_exec_policy parent_stack)
       = map_option (fingerprint render) (requirements_exec_policy child_stack)"

section \<open>Lemmas\<close>

lemma parse_policy_files_reachable:
  "builder_reachable env render b \<Longrightarrow> parse_policy_files fs env render paths b = Inr b' \<Longrightarrow>
     builder_reachable env render b'"
proof (induction paths arbitrary: b)
  case (Cons path paths)
  from Cons.prems(2) obtain contents calls b1 where
    "parse_policy env render calls b = (Inr (), b1)" "parse_policy_files fs env render paths b1 = Inr b'"
    by (auto split: sum.splits prod.splits)
  moreover from this(1) builder_reachable.parse [OF Cons.prems(1), of calls] have "builder_reachable env render b1"
    by simp
  ultimately show ?case using Cons.IH by blast
qed simp

text \<open>Whatever was loaded, the rules of the requirements are in it, after the rules of the files.\<close>

lemma loaded_policy:
  assumes "load_exec_policy_with_warning fs env render stack = Inr (p, warning)"
    and "requirements_exec_policy stack = Some q" "policy_ok q"
  shows "policy_ok p \<and> (\<exists>ms. exact_matches p c = ms @ exact_matches q c)"
proof (cases "load_exec_policy fs env render stack")
  case (Inl e)
  with assms(1,2) have "p = q" by (auto simp: load_exec_policy_with_warning_def split: ExecPolicyError.splits)
  with assms(3) show ?thesis by auto
next
  case (Inr p')
  then obtain paths b where b: "parse_policy_files fs env render paths new_builder = Inr b"
    and p': "p' = merge_overlay (build_policy b) q"
    by (auto simp: load_exec_policy_def bind_result_Inr assms(2))
  from b have "builder_inv env b"
    by (intro builder_reachable_inv parse_policy_files_reachable [OF builder_reachable.fresh])
  then have "policy_ok (build_policy b)"
    by (simp add: builder_inv_def policy_ok_def build_policy_def policy_from_parts_def)
  moreover from Inr assms(1) have "p = p'" by (simp add: load_exec_policy_with_warning_def)
  ultimately show ?thesis
    using p' assms(3) policy_ok_merge exact_merge [OF policy_ok_mm [OF assms(3)]] by blast
qed


section \<open>Examples\<close>

definition sample_stack :: "rstr ConfigLayerStack" where
  "sample_stack = \<lparr>config_layers = [\<lparr>layer_source = Project (lit ''p''), disabled_reason = None\<rparr>],
     ignore_user_and_project_exec_policy_rules = False, requirements_exec_policy = Some sample_overlay\<rparr>"

text \<open>A project with one rule file, which does not parse.\<close>

definition sample_fs :: rules_fs where
  "sample_fs = \<lparr>path_parent_of = (\<lambda>_. None), path_join = (\<lambda>a b. a @ [47] @ b), dir_missing = (\<lambda>_. False),
     read_dir = (\<lambda>dir. Inr [Inr \<lparr>entry_path = dir @ lit ''/a.rules'',
       entry_extension = Some (lit ''rules''), entry_is_file = Inr True\<rparr>]),
     read_to_string = (\<lambda>_. Inr []), starlark_calls = (\<lambda>_ _. Inl (lit ''syntax error''))\<rparr>"

definition sample_push :: "rstr list" where
  "sample_push = [lit ''git'', lit ''push'', lit ''-f'']"


end
