(* ===== verification/Spec2Isabelle.thy ===== *)
theory Spec2Isabelle
  imports Patch_Effects Patch_Roundtrip Head_Tail_Buffer Exec_Amend Assistant_Text
    Output_Truncation Context_Normalize
    Agent_Slots Agent_Residency Reverse_Jsonl Net_Runtime Granted_Permissions
    Input_Queue Auto_Compact_Window Exec_Loading
begin

text \<open>
  A verification development for the Codex agent, the Rust workspace under
  \<open>src/core/codex/codex-rs\<close>. Paths below are relative to it.

  \<^bold>\<open>The program.\<close> A session sends the history of a conversation to a language model and streams
  back the answer. The answer is text for the user, with hidden tags and plan blocks in it, and
  calls of tools: shell commands, patches to files, further agents. A command is run after the
  execution policy has decided on it, inside a sandbox whose network traffic passes a proxy with a
  policy of its own and whose files are those a permission profile gives it; a patch is parsed and
  applied to the files of the workspace. The output of a tool is cut to a budget and becomes an item
  of the history, which is normalized before it is sent again and kept on disk as JSON lines. The
  development covers the parts of this loop that have logic of their own and can be stated without
  the services around them.

  \<^bold>\<open>Representation\<close> (\<open>Rust_Prelude\<close>). A string is the list of its Unicode scalar values, bytes are
  integers below 256, a \<open>Result\<close> is a sum with the error on the left, a \<open>usize\<close> that only counts
  what is in memory is a natural number, and an integer whose wrap-around or saturation matters is a
  word or written out. A panic is a value of the model, in most theories the \<open>None\<close> of an option
  around the result. The functions of the standard library that the code calls are defined there
  once, with the lemmas all theories share.

  \<^bold>\<open>Patches\<close> (\<open>apply-patch/src\<close>).
  \<^item> \<open>Patch_Syntax\<close>, \<open>Patch_Streaming\<close>, \<open>Patch_Parse\<close>: the types and markers of \<open>parser.rs\<close>, the state
    machine of \<open>streaming_parser.rs\<close> and \<open>parse_patch\<close>. The parser is an instance of the locale
    \<open>incremental\<close> of theory \<open>Incremental\<close>: what it answers does not depend on how the text is cut.
    \<open>Patch_Roundtrip\<close> renders a syntax tree and shows that parsing gives it back.
  \<^item> \<open>Seek_Sequence\<close>, \<open>Text_File\<close>, \<open>File_Update\<close>: \<open>seek_sequence.rs\<close>, \<open>text_file.rs\<close> and
    \<open>file_update.rs\<close>; where the lines of a chunk are, and what replaces them. The lemmas bound every
    index the code uses, so that no slice panics.
  \<^item> \<open>Patch_Apply\<close>, \<open>Patch_Effects\<close>: \<open>lib.rs\<close>, over a file system that is a record of functions which
    may fail, with the delta of what was committed. The assumption \<open>fs_laws\<close> states what reading
    after a write, a removal or a failed write gives; under it a successful application refines an
    effect on a map from paths to texts, and a delta that claims to be exact replays and undoes.

  \<^bold>\<open>Execution policy\<close> (\<open>execpolicy/src\<close>). \<open>Exec_Rule\<close> (\<open>decision.rs\<close>, \<open>rule.rs\<close>, \<open>executable_name.rs\<close>),
  \<open>Exec_Policy\<close> (\<open>policy.rs\<close>: evaluation, amendment, overlays), \<open>Exec_Parser\<close> (the builtins of
  \<open>parser.rs\<close>; a policy file is the list of the calls it makes, since the Starlark interpreter is not
  part of the repository), \<open>Exec_Amend\<close> (\<open>amend.rs\<close> and the migration of \<open>sandbox_migration.rs\<close>). The
  locale \<open>exec_rule\<close> is the contract of a rule that is filed under a program. Rules of a policy are
  kept as lists under a key; that filing them changes no decision is part of the evaluation theorem.

  \<^bold>\<open>Approval of commands.\<close> \<open>Shell_Command\<close> and \<open>Shell_Script\<close> (\<open>shell-command/src/shell_detect.rs\<close>,
  \<open>bash.rs\<close>, the flags of \<open>powershell.rs\<close>) recognise the invocation of a shell and read commands out
  of its script; the tree of the script is an argument, and \<open>shell_tree\<close> states what its grammar
  promises. \<open>Windows_Command\<close> and \<open>Dangerous_Command\<close> (\<open>shell-command/src/command_safety\<close>) classify
  dangerous commands; the relation \<open>runs\<close> between a command and those it runs states what is found,
  up to the depth of 8 that the code has itself. \<open>Exec_Approval\<close> (\<open>core/src/exec_policy.rs\<close> with its
  submodules, and what \<open>core/src/tools/sandboxing.rs\<close> makes of the answer) decides whether a command
  runs, is asked about or is refused; \<open>Approval_Safety\<close> shows when it runs unasked and what rules,
  approval policies and accepted amendments change in that. \<open>names_are_relative\<close> says that the name
  a host executable is looked up under is never itself an absolute path. \<open>Exec_Loading\<close> builds the
  policy of a session from the rule files of the configuration layers (\<open>config/src\<close>) with the
  requirements laid over it. Paths are those of \<open>std::path\<close> on a POSIX host.

  \<^bold>\<open>The answer of the model\<close> (\<open>utils/stream-parser/src\<close>). The locale \<open>stream_text_parser\<close> of theory
  \<open>Stream_Text\<close> is the contract of a parser that is fed pieces. \<open>Inline_Hidden_Tag\<close> (tags and
  citations), \<open>Tagged_Line\<close> (tag lines and proposed plans) and \<open>Stream_Utf8\<close> (bytes) provide it;
  \<open>Assistant_Text\<close> composes them. The loop of the hidden-tag parser, which the code leaves only by
  \<open>break\<close>, is a \<open>partial_function (option)\<close> and is shown to return. No definition needs fuel: the
  other loops are structural or have a measure.

  \<^bold>\<open>The history.\<close> \<open>Response_Item\<close> (\<open>protocol/src/models.rs\<close>, \<open>history/src\<close>), \<open>Context_Normalize\<close>
  (\<open>core/src/context_manager/normalize.rs\<close>; \<open>debug\<close> chooses the build, because a debug build panics
  where a release build only logs) and \<open>Output_Truncation\<close> (\<open>utils/string/src/truncate.rs\<close>,
  \<open>utils/output-truncation/src\<close>; the cost of audio is a parameter). \<open>Head_Tail_Buffer\<close>
  (\<open>core/src/unified_exec/head_tail_buffer.rs\<close>) keeps both ends of the output of a process and is an
  instance of the locale \<open>byte_sink\<close>. \<open>Reverse_Jsonl\<close> (\<open>rollout/src/reverse_jsonl_scanner.rs\<close>) reads
  the saved history from its end in chunks of any positive size.

  \<^bold>\<open>Agents\<close> (\<open>protocol/src/agent_path.rs\<close>, \<open>core/src/agent\<close>). \<open>Agent_Path\<close> holds the names,
  \<open>Agent_Registry\<close> the registry and its reservations, \<open>Agent_Residency\<close> the agents that stay loaded.
  The tasks that share them interleave: each critical section and each atomic operation is one
  step of an inductive relation, and \<open>Agent_Slots\<close> and \<open>Agent_Residency\<close> interpret the locale
  \<open>invariant_system\<close> of theory \<open>Transition_System\<close>. The guards of the steps are what the callers do
  (a reservation is committed or dropped once). The names drawn at random are parameters.

  \<^bold>\<open>The network proxy\<close> (\<open>network-proxy/src\<close>). \<open>Ip_Address\<close> and \<open>Host_Policy\<close> (\<open>policy.rs\<close>), \<open>Net_Config\<close>
  (\<open>config.rs\<close>), \<open>Authorization_Path\<close> (\<open>authorization_path.rs\<close>), \<open>Mitm_Hook\<close> (\<open>mitm_hook.rs\<close>),
  \<open>Net_Constraints\<close> (\<open>state.rs\<close>) and \<open>Net_Runtime\<close> (\<open>runtime.rs\<close>). Each operation on the shared state
  is a read step and a write step, and the invariant (the configuration in force is within the
  managed constraints and the compiled sets are its own) is shown for every interleaving. The
  assumption \<open>glob_laws\<close> states what a compiled glob of a plain pattern matches; \<open>reloaded\<close> states that
  a reloader delivers only states built from a configuration that passed the check.

  \<^bold>\<open>Permissions.\<close> \<open>Path_Uri\<close> (\<open>utils/path-uri/src\<close>, with the device paths of
  \<open>utils/absolute-path/src\<close>) compares, joins and renders the paths of an executor; \<open>Sandbox_Policy\<close>
  (\<open>protocol/src/permissions.rs\<close>) decides what a policy gives a path, \<open>Permission_Profiles\<close>
  (\<open>sandboxing/src/policy_transforms.rs\<close>, \<open>protocol/src/models.rs\<close>) merges, intersects and resolves
  profiles, and \<open>Granted_Permissions\<close> (\<open>core/src/session/mod.rs\<close>, \<open>core/src/tools/handlers/mod.rs\<close>)
  asks for permissions, stores what was granted and uses it later. \<open>Sandbox_Policy\<close> shows that the
  access of a path is that of the entry that decides, the covering one with the greatest key; the
  proofs of \<open>Permission_Intersection\<close> and \<open>Granted_Permissions\<close> rest on this specification. They are
  about POSIX paths whose segments hold no encoded separator (\<open>posix_context\<close>, \<open>posix_lexical\<close>);
  \<open>unambiguous\<close> says that every root of a policy can be compared by its names, since otherwise
  the code denies everything. The definitions cover Windows paths and opaque ones as well.

  \<^bold>\<open>Turns.\<close> \<open>Turn_State\<close> (\<open>core/src/state/turn.rs\<close>) and \<open>Input_Queue\<close>
  (\<open>core/src/session/input_queue.rs\<close>) hold what waits for a turn and the mail between agents;
  \<open>queue_step\<close> interleaves the tasks that use them, one step for each lock they hold
  (\<open>core/src/tasks/mod.rs\<close>, \<open>core/src/session/turn_input.rs\<close>, \<open>core/src/session/inject.rs\<close>). A turn that
  was reserved is started or released by the task that reserved it. \<open>Auto_Compact_Window\<close> is
  \<open>core/src/state/auto_compact_window.rs\<close>.

  \<^bold>\<open>Parameters.\<close> Code of other packages is an argument of the definitions that use it: the file
  system, Starlark, UUIDs, the \<open>url\<close>, \<open>urlencoding\<close>, \<open>base64\<close>, \<open>globset\<close>, \<open>form_urlencoded\<close> and \<open>http\<close>
  packages, name lookup, \<open>serde_json\<close>, the tree-sitter parser of shell scripts and
  \<open>shlex\<close>. So is the reading of PowerShell scripts (\<open>shell-command/src/command_safety/powershell_parser.rs\<close>
  and \<open>powershell_tree_sitter.rs\<close>), which is not modelled. Where a theorem relies on them it has the assumption in its statement, and
  a theorem next to it applies it to a concrete instance.

  \<^bold>\<open>What the lemmas found.\<close> A streaming parser that never saw the beginning of a patch accepts the
  lone end marker (\<open>finish_accepts_lone_end_marker\<close>); a saved network rule can come back for another
  host (\<open>saved_host_changes_on_reload\<close>); two reservations can pass the capacity of resident agents
  (\<open>residency_capacity_can_be_passed\<close>); a blocked request recorded during an update of the domain
  lists is lost (\<open>concurrent_event_is_lost\<close>); the intersection of permissions can let a command write
  what it only asked to read (\<open>intersection_loses_read_only_directory\<close>); whether metadata of a
  repository can be written depends on the order of the entries
  (\<open>metadata_write_denial_depends_on_order\<close>); an item injected into a turn that is being finished goes
  away with it (\<open>injected_input_can_be_lost\<close>).

  \<^bold>\<open>Not modelled.\<close> The asynchronous orchestration of sessions and turns beyond the state above, the
  tools that only call the operating system, the sandboxes (kernel interfaces) with the policies of
  earlier formats and the readable and writable roots of local paths, the summaries of commands for
  display (\<open>shell-command/src/parse_command.rs\<close>), the clients of remote services, the user
  interfaces, the app server, and the databases: their behaviour is mostly that of code outside the
  repository. Text of error and log messages is left out where the code does not read it.
\<close>

end
